(* ===== verification/Mimi_Prelude.thy ===== *)
theory Mimi_Prelude
  imports Main "HOL-Library.Word"
begin

text \<open>
  Shared foundation of the mimidb development: the machine types of the sources, the errors
  a C++ call can end with, the two shapes of fallible computations (pure results and state
  transformers that keep the state when an exception leaves them), raw memory as byte lists
  with \<open>peek\<close>/\<open>poke\<close>, and the little- and big-endian images of unsigned integers.
  Asserts are compiled in (the build files never define NDEBUG), so a failing \<open>assert\<close>
  is the error \<open>AssertFail\<close>; an access the C++ standard leaves undefined is \<open>Undefined\<close>; a call
  that cannot go on before another worker acts is \<open>Blocked\<close>.
\<close>

named_theorems cm_simps \<open>unfolding rules of the state-and-exception computations\<close>
named_theorems mem_simps \<open>rules for peek and poke on byte lists\<close>
named_theorems run_simps \<open>effects of computations on states\<close>
named_theorems keep_intros \<open>preservation of a predicate by computations\<close>
named_theorems enc_simps \<open>rules for integer images in memory\<close>

section \<open>Machine types\<close>

type_synonym byte = "8 word"
type_synonym u16 = "16 word"
type_synonym u32 = "32 word"
type_synonym u64 = "64 word"

section \<open>Errors and results\<close>

datatype exn =
    RuntimeError string
  | InvalidArgument string
  | LogicError string
  | SystemError string
  | ParserError string
  | AssertFail string
  | Undefined string
  | Blocked string

type_synonym 'a res = "exn + 'a"

text \<open>\<open>std::exception::what\<close>\<close>

definition exn_what :: "exn \<Rightarrow> string" where
  "exn_what e = (case e of RuntimeError m \<Rightarrow> m | InvalidArgument m \<Rightarrow> m | LogicError m \<Rightarrow> m | SystemError m \<Rightarrow> m | ParserError m \<Rightarrow> m
     | AssertFail m \<Rightarrow> m | Undefined m \<Rightarrow> m | Blocked m \<Rightarrow> m)"

definition bindR :: "'a res \<Rightarrow> ('a \<Rightarrow> 'b res) \<Rightarrow> 'b res" where
  "bindR m f = (case m of Inl e \<Rightarrow> Inl e | Inr x \<Rightarrow> f x)"

lemma bindR_simps [simp]:
  "bindR (Inl e) f = Inl e"
  "bindR (Inr x) f = f x"
  by (simp_all add: bindR_def)

lemma bindR_eq_Inr_iff: "bindR m f = Inr y \<longleftrightarrow> (\<exists>x. m = Inr x \<and> f x = Inr y)"
  by (cases m) auto

lemma bindR_assoc: "bindR (bindR m f) g = bindR m (\<lambda>x. bindR (f x) g)"
  by (cases m) auto

definition assertR :: "string \<Rightarrow> bool \<Rightarrow> unit res" where
  "assertR msg b = (if b then Inr () else Inl (AssertFail msg))"

lemma assertR_simps [simp]:
  "b \<Longrightarrow> assertR msg b = Inr ()"
  "\<not> b \<Longrightarrow> assertR msg b = Inl (AssertFail msg)"
  by (simp_all add: assertR_def)

lemma assertR_eq_Inr_iff [simp]: "assertR msg b = Inr u \<longleftrightarrow> b"
  by (cases b) auto

primrec foldR :: "('a \<Rightarrow> 's \<Rightarrow> 's res) \<Rightarrow> 'a list \<Rightarrow> 's \<Rightarrow> 's res" where
  "foldR f [] s = Inr s"
| "foldR f (x # xs) s = bindR (f x s) (foldR f xs)"

lemma foldR_append: "foldR f (xs @ ys) s = bindR (foldR f xs s) (foldR f ys)"
  by (induction xs arbitrary: s) (auto simp: bindR_def split: sum.splits)

lemma foldR_map: "foldR f (map g xs) s = foldR (f \<circ> g) xs s"
  by (induction xs arbitrary: s) (auto simp: bindR_def split: sum.splits)

lemma foldR_cong:
  "(\<And>x s. x \<in> set xs \<Longrightarrow> f x s = g x s) \<Longrightarrow> foldR f xs s = foldR g xs s"
  by (induction xs arbitrary: s) (auto simp: bindR_def split: sum.splits)

text \<open>A loop whose every step re-establishes an invariant runs to its end and establishes it.\<close>

lemma foldR_upt_invariant:
  assumes "Inv 0 s"
    and "\<And>i s. i < n \<Longrightarrow> Inv i s \<Longrightarrow> \<exists>s'. f i s = Inr s' \<and> Inv (Suc i) s'"
  shows "\<exists>s'. foldR f [0..<n] s = Inr s' \<and> Inv n s'"
  using assms
proof (induction n)
  case 0
  then show ?case by simp
next
  case (Suc n)
  then obtain s1 where s1: "foldR f [0..<n] s = Inr s1" "Inv n s1" by auto
  with Suc.prems(2) [of n s1] obtain s2 where "f n s1 = Inr s2" "Inv (Suc n) s2" by auto
  with s1 show ?case by (simp add: foldR_append)
qed

text \<open>
  A computation over a state \<open>'s\<close>: it ends with a result or an exception, and with the state
  reached so far in both cases, as the effects before a C++ \<open>throw\<close> stay.
\<close>

type_synonym ('s, 'a) cm = "'s \<Rightarrow> 'a res \<times> 's"

definition retM :: "'a \<Rightarrow> ('s, 'a) cm" where
  "retM x s = (Inr x, s)"

definition raiseM :: "exn \<Rightarrow> ('s, 'a) cm" where
  "raiseM e s = (Inl e, s)"

definition bindM :: "('s, 'a) cm \<Rightarrow> ('a \<Rightarrow> ('s, 'b) cm) \<Rightarrow> ('s, 'b) cm" where
  "bindM m f s = (case m s of (Inl e, s') \<Rightarrow> (Inl e, s') | (Inr x, s') \<Rightarrow> f x s')"

definition thenM :: "('s, 'a) cm \<Rightarrow> ('s, 'b) cm \<Rightarrow> ('s, 'b) cm" where
  "thenM m k = bindM m (\<lambda>_. k)"

definition getM :: "('s \<Rightarrow> 'a) \<Rightarrow> ('s, 'a) cm" where
  "getM f s = (Inr (f s), s)"

definition updM :: "('s \<Rightarrow> 's) \<Rightarrow> ('s, unit) cm" where
  "updM f s = (Inr (), f s)"

definition liftR :: "'a res \<Rightarrow> ('s, 'a) cm" where
  "liftR r s = (r, s)"

definition assertM :: "string \<Rightarrow> bool \<Rightarrow> ('s, unit) cm" where
  "assertM msg b s = (if b then (Inr (), s) else (Inl (AssertFail msg), s))"

text \<open>Run \<open>h\<close> when \<open>m\<close> throws, then continue the throw: a catch-all block that rethrows.\<close>

definition onErrorM :: "('s, 'a) cm \<Rightarrow> ('s, unit) cm \<Rightarrow> ('s, 'a) cm" where
  "onErrorM m h s = (case m s of
     (Inr x, s') \<Rightarrow> (Inr x, s')
   | (Inl e, s') \<Rightarrow> (case h s' of (Inl e', s'') \<Rightarrow> (Inl e', s'') | (Inr _, s'') \<Rightarrow> (Inl e, s'')))"

text \<open>
  The destructors of local objects: \<open>h\<close> runs on a normal return and when an exception passes. They do
  not run when the process aborts, behaves undefinedly or the thread waits forever.
\<close>

definition unwinds :: "exn \<Rightarrow> bool" where
  "unwinds e = (case e of AssertFail _ \<Rightarrow> False | Undefined _ \<Rightarrow> False | Blocked _ \<Rightarrow> False | _ \<Rightarrow> True)"

definition finallyM :: "('s, 'a) cm \<Rightarrow> ('s, unit) cm \<Rightarrow> ('s, 'a) cm" where
  "finallyM m h s = (case m s of
     (Inr x, s') \<Rightarrow> (case h s' of (Inl e', s'') \<Rightarrow> (Inl e', s'') | (Inr _, s'') \<Rightarrow> (Inr x, s''))
   | (Inl e, s') \<Rightarrow> (if unwinds e
       then (case h s' of (Inl e', s'') \<Rightarrow> (Inl e', s'') | (Inr _, s'') \<Rightarrow> (Inl e, s'')) else (Inl e, s')))"

declare retM_def [cm_simps] raiseM_def [cm_simps] thenM_def [cm_simps] getM_def [cm_simps]
  updM_def [cm_simps] liftR_def [cm_simps] assertM_def [cm_simps]

lemma bindM_run [cm_simps]:
  "bindM m f s = (case fst (m s) of Inl e \<Rightarrow> (Inl e, snd (m s)) | Inr x \<Rightarrow> f x (snd (m s)))"
  by (cases "m s") (auto simp: bindM_def split: sum.splits)

lemma bindM_ok: "m s = (Inr x, s') \<Longrightarrow> bindM m f s = f x s'"
  by (simp add: bindM_def)

lemma bindM_err: "m s = (Inl e, s') \<Longrightarrow> bindM m f s = (Inl e, s')"
  by (simp add: bindM_def)

lemma thenM_ok: "m s = (Inr x, s') \<Longrightarrow> thenM m k s = k s'"
  by (simp add: thenM_def bindM_def)

lemma thenM_err: "m s = (Inl e, s') \<Longrightarrow> thenM m k s = (Inl e, s')"
  by (simp add: thenM_def bindM_def)

lemma bindM_eq_okE:
  assumes "bindM m f s = (Inr y, s'')"
  obtains x s' where "m s = (Inr x, s')" and "f x s' = (Inr y, s'')"
  using assms by (cases "m s") (auto simp: bindM_def split: sum.splits)

section \<open>What a computation leaves alone\<close>


definition keeps :: "('s \<Rightarrow> bool) \<Rightarrow> ('s, 'a) cm \<Rightarrow> bool" where
  "keeps P m \<longleftrightarrow> (\<forall>s. P s \<longrightarrow> P (snd (m s)))"

lemma keeps_basic [keep_intros]:
  "keeps P (retM x)" "keeps P (raiseM e)" "keeps P (getM g)" "keeps P (liftR r)" "keeps P (assertM msg b)"
  by (simp_all add: keeps_def cm_simps)

lemma keeps_bindM [keep_intros]: "keeps P m \<Longrightarrow> (\<And>x. keeps P (f x)) \<Longrightarrow> keeps P (bindM m f)"
  unfolding keeps_def by (simp add: bindM_run split: sum.splits)

lemma keeps_thenM [keep_intros]: "keeps P m \<Longrightarrow> keeps P k \<Longrightarrow> keeps P (thenM m k)"
  unfolding thenM_def by (intro keep_intros)

lemma keeps_onErrorM [keep_intros]: "keeps P m \<Longrightarrow> keeps P h \<Longrightarrow> keeps P (onErrorM m h)"
proof -
  assume k: "keeps P m" "keeps P h"
  have "P (snd (onErrorM m h s))" if "P s" for s
    using k that by (cases "m s"; cases "h (snd (m s))") (fastforce simp: keeps_def onErrorM_def split: sum.splits)
  then show ?thesis by (simp add: keeps_def)
qed

lemma keeps_finallyM [keep_intros]: "keeps P m \<Longrightarrow> keeps P h \<Longrightarrow> keeps P (finallyM m h)"
proof -
  assume k: "keeps P m" "keeps P h"
  have "P (snd (finallyM m h s))" if "P s" for s
    using k that by (cases "m s"; cases "h (snd (m s))") (fastforce simp: keeps_def finallyM_def split: sum.splits)
  then show ?thesis by (simp add: keeps_def)
qed

lemma finallyM_ok: "m s = (Inr x, s1) \<Longrightarrow> h s1 = (Inr u, s2) \<Longrightarrow> finallyM m h s = (Inr x, s2)"
  by (simp add: finallyM_def)

lemma finallyM_throw: "m s = (Inl e, s1) \<Longrightarrow> unwinds e \<Longrightarrow> h s1 = (Inr u, s2) \<Longrightarrow> finallyM m h s = (Inl e, s2)"
  by (simp add: finallyM_def)

lemma finallyM_stop: "m s = (Inl e, s1) \<Longrightarrow> \<not> unwinds e \<Longrightarrow> finallyM m h s = (Inl e, s1)"
  by (simp add: finallyM_def)

lemma unwinds_simps [simp]:
  "unwinds (RuntimeError m)" "unwinds (InvalidArgument m)" "unwinds (LogicError m)" "unwinds (SystemError m)"
  "unwinds (ParserError m)" "\<not> unwinds (AssertFail m)" "\<not> unwinds (Undefined m)" "\<not> unwinds (Blocked m)"
  by (simp_all add: unwinds_def)

lemma keeps_if [keep_intros]: "(b \<Longrightarrow> keeps P m) \<Longrightarrow> (\<not> b \<Longrightarrow> keeps P k) \<Longrightarrow> keeps P (if b then m else k)"
  by simp

lemma keeps_option [keep_intros]: "keeps P m \<Longrightarrow> (\<And>x. keeps P (f x)) \<Longrightarrow> keeps P (case z of None \<Rightarrow> m | Some x \<Rightarrow> f x)"
  by (cases z) auto

lemma keepsD: "keeps P m \<Longrightarrow> m s = (r, s') \<Longrightarrow> P s \<Longrightarrow> P s'"
  by (auto simp: keeps_def dest: spec [of _ s])

section \<open>Memory as byte lists\<close>

definition peek :: "byte list \<Rightarrow> nat \<Rightarrow> nat \<Rightarrow> byte list" where
  "peek mem off n = take n (drop off mem)"

definition poke :: "byte list \<Rightarrow> nat \<Rightarrow> byte list \<Rightarrow> byte list" where
  "poke mem off bs = take off mem @ bs @ drop (off + length bs) mem"

lemma length_peek [simp]: "length (peek mem off n) = min n (length mem - off)"
  by (simp add: peek_def)

lemma length_poke [simp]:
  "off + length bs \<le> length mem \<Longrightarrow> length (poke mem off bs) = length mem"
  by (simp add: poke_def)

lemma poke_nth:
  "off + length bs \<le> length mem \<Longrightarrow> i < length mem \<Longrightarrow>
    poke mem off bs ! i = (if off \<le> i \<and> i < off + length bs then bs ! (i - off) else mem ! i)"
  by (auto simp: poke_def nth_append min_def)

lemma peek_nth: "i < n \<Longrightarrow> off + n \<le> length mem \<Longrightarrow> peek mem off n ! i = mem ! (off + i)"
  by (simp add: peek_def)

lemma peek_poke_same [mem_simps]:
  "off + length bs \<le> length mem \<Longrightarrow> n = length bs \<Longrightarrow> peek (poke mem off bs) off n = bs"
  by (simp add: peek_def poke_def)

lemma peek_poke_within [mem_simps]:
  assumes "off + length bs \<le> length mem" and "off \<le> o2" and "o2 + n \<le> off + length bs"
  shows "peek (poke mem off bs) o2 n = peek bs (o2 - off) n"
  by (rule nth_equalityI) (use assms in \<open>auto simp: peek_nth poke_nth\<close>)

lemma peek_poke_before [mem_simps]:
  assumes "off + length bs \<le> length mem" and "o2 + n \<le> off"
  shows "peek (poke mem off bs) o2 n = peek mem o2 n"
  by (rule nth_equalityI) (use assms in \<open>auto simp: peek_nth poke_nth\<close>)

lemma peek_poke_after [mem_simps]:
  assumes "off + length bs \<le> length mem" and "off + length bs \<le> o2"
  shows "peek (poke mem off bs) o2 n = peek mem o2 n"
  using assms by (simp add: peek_def poke_def)

lemma peek_append_left: "off + n \<le> length xs \<Longrightarrow> peek (xs @ ys) off n = peek xs off n"
  by (simp add: peek_def)

lemma peek_append_right:
  "length xs \<le> off \<Longrightarrow> peek (xs @ ys) off n = peek ys (off - length xs) n"
  by (simp add: peek_def)

lemma peek_all [simp]: "n = length xs \<Longrightarrow> peek xs 0 n = xs"
  by (simp add: peek_def)

lemma peek_peek:
  "off2 + n2 \<le> n \<Longrightarrow> peek (peek mem off n) off2 n2 = peek mem (off + off2) n2"
  by (simp add: peek_def drop_take min_def add.commute)

lemma poke_append_right:
  "off = length xs \<Longrightarrow> length bs \<le> length ys \<Longrightarrow>
    poke (xs @ ys) off bs = xs @ bs @ drop (length bs) ys"
  by (simp add: poke_def)

text \<open>Bounds-checked accesses: outside the block they are undefined behaviour.\<close>

definition loadR :: "byte list \<Rightarrow> nat \<Rightarrow> nat \<Rightarrow> byte list res" where
  "loadR mem off n = (if off + n \<le> length mem then Inr (peek mem off n)
     else Inl (Undefined ''read past the block''))"

definition storeR :: "byte list \<Rightarrow> nat \<Rightarrow> byte list \<Rightarrow> byte list res" where
  "storeR mem off bs = (if off + length bs \<le> length mem then Inr (poke mem off bs)
     else Inl (Undefined ''write past the block''))"

lemma loadR_ok [simp]: "off + n \<le> length mem \<Longrightarrow> loadR mem off n = Inr (peek mem off n)"
  by (simp add: loadR_def)

lemma storeR_ok [simp]: "off + length bs \<le> length mem \<Longrightarrow> storeR mem off bs = Inr (poke mem off bs)"
  by (simp add: storeR_def)

section \<open>Integer images\<close>

primrec le_of_nat :: "nat \<Rightarrow> nat \<Rightarrow> byte list" where
  "le_of_nat 0 k = []"
| "le_of_nat (Suc n) k = word_of_nat (k mod 256) # le_of_nat n (k div 256)"

primrec nat_of_le :: "byte list \<Rightarrow> nat" where
  "nat_of_le [] = 0"
| "nat_of_le (b # bs) = unat b + 256 * nat_of_le bs"

lemma length_le_of_nat [simp]: "length (le_of_nat n k) = n"
  by (induction n arbitrary: k) auto

lemma le_of_nat_numeral [simp]:
  "le_of_nat (numeral n) k = word_of_nat (k mod 256) # le_of_nat (pred_numeral n) (k div 256)"
  by (simp only: numeral_eq_Suc [of n] le_of_nat.simps(2))

lemma unat_byte_less [simp]: "unat (b :: byte) < 256"
  using unsigned_less [of b] by simp

lemma nat_of_le_bound: "nat_of_le bs < 256 ^ length bs"
proof (induction bs)
  case Nil
  then show ?case by simp
next
  case (Cons b bs)
  have "unat b + 256 * nat_of_le bs < 256 + 256 * nat_of_le bs" by simp
  also have "\<dots> = 256 * Suc (nat_of_le bs)" by simp
  also have "\<dots> \<le> 256 * 256 ^ length bs"
    using Cons.IH by (intro mult_le_mono2) simp
  finally show ?case by simp
qed

lemma nat_of_le_le_of_nat [enc_simps]: "nat_of_le (le_of_nat n k) = k mod 256 ^ n"
proof (induction n arbitrary: k)
  case 0
  then show ?case by simp
next
  case (Suc n)
  have "nat_of_le (le_of_nat (Suc n) k) = k mod 256 + 256 * (k div 256 mod 256 ^ n)"
    by (simp add: Suc.IH unat_of_nat)
  also have "\<dots> = k mod (256 * 256 ^ n)"
    by (simp add: mod_mult2_eq)
  finally show ?case by simp
qed

lemma le_of_nat_nat_of_le [enc_simps]: "n = length bs \<Longrightarrow> le_of_nat n (nat_of_le bs) = bs"
proof (induction bs arbitrary: n)
  case Nil
  then show ?case by simp
next
  case (Cons b bs)
  then show ?case by simp
qed

definition be_of_nat :: "nat \<Rightarrow> nat \<Rightarrow> byte list" where
  "be_of_nat n k = rev (le_of_nat n k)"

definition nat_of_be :: "byte list \<Rightarrow> nat" where
  "nat_of_be bs = nat_of_le (rev bs)"

lemma length_be_of_nat [simp]: "length (be_of_nat n k) = n"
  by (simp add: be_of_nat_def)

lemma nat_of_be_be_of_nat [enc_simps]: "nat_of_be (be_of_nat n k) = k mod 256 ^ n"
  by (simp add: be_of_nat_def nat_of_be_def nat_of_le_le_of_nat)

lemma be_of_nat_nat_of_be [enc_simps]: "n = length bs \<Longrightarrow> be_of_nat n (nat_of_be bs) = bs"
  by (simp add: be_of_nat_def nat_of_be_def le_of_nat_nat_of_le)

lemma nat_of_be_bound: "nat_of_be bs < 256 ^ length bs"
  using nat_of_le_bound [of "rev bs"] by (simp add: nat_of_be_def)

text \<open>The image of a \<open>w\<close>-bit word in \<open>n\<close> bytes comes back when \<open>w = 8 * n\<close>.\<close>

lemma word_of_le_bytes [enc_simps]:
  fixes w :: "'a::len word"
  assumes "LENGTH('a) = 8 * n"
  shows "word_of_nat (nat_of_le (le_of_nat n (unat w))) = w"
proof -
  have "unat w < 256 ^ n"
    using unsigned_less [of w] assms by (simp add: power_mult)
  then show ?thesis by (simp add: nat_of_le_le_of_nat)
qed

lemma word_of_be_bytes [enc_simps]:
  fixes w :: "'a::len word"
  assumes "LENGTH('a) = 8 * n"
  shows "word_of_nat (nat_of_be (be_of_nat n (unat w))) = w"
proof -
  have "unat w < 256 ^ n"
    using unsigned_less [of w] assms by (simp add: power_mult)
  then show ?thesis by (simp add: nat_of_be_be_of_nat)
qed

lemma word_of_nat_mod [simp]: "word_of_nat (k mod 2 ^ LENGTH('a)) = (word_of_nat k :: 'a::len word)"
  by (simp add: word_of_nat_eq_iff take_bit_eq_mod)

lemma sint_nonneg_small:
  fixes w :: "'a::len word"
  assumes "unat w < 2 ^ (LENGTH('a) - 1)"
  shows "sint w = int (unat w)"
proof -
  have "int (unat w) < int (2 ^ (LENGTH('a) - 1))" using assms by (simp only: of_nat_less_iff)
  then have "uint w < 2 ^ (LENGTH('a) - 1)" by simp
  then have "signed_take_bit (LENGTH('a) - 1) (uint w) = uint w"
    by (subst signed_take_bit_int_eq_self_iff) (simp add: order_trans [OF _ uint_ge_0])
  then show ?thesis by (simp add: sint_uint)
qed
lemma unat_scast_small:
  assumes "unat (w :: 32 word) < 2 ^ 31"
  shows "unat (scast w :: 64 word) = unat w"
proof -
  have "sint w = int (unat w)" using assms sint_nonneg_small [of w] by simp
  moreover have "(scast w :: 64 word) = word_of_int (sint w)" by transfer simp
  ultimately have "(scast w :: 64 word) = word_of_nat (unat w)" by simp
  then show ?thesis using assms by (simp only:) (simp only: unat_of_nat, simp)
qed

lemma unat_ucast_mod: "unat (ucast (w::'a::len word) :: 'b::len word) = unat w mod 2 ^ LENGTH('b)"
  by (simp add: unsigned_ucast_eq take_bit_eq_mod)

lemma unat_ucast_up: 
  fixes w :: "'a::len word"
  assumes "LENGTH('a) \<le> LENGTH('b)"
  shows "unat (ucast w :: 'b::len word) = unat w"
proof -
  have "unat w < 2 ^ LENGTH('b)"
    by (rule order_less_le_trans [OF unsigned_less power_increasing [OF assms]]) simp
  then show ?thesis by (simp add: unat_ucast_mod)
qed

section \<open>Character strings as bytes\<close>

definition bytes_of_string :: "string \<Rightarrow> byte list" where
  "bytes_of_string = map (\<lambda>c. word_of_nat (of_char c))"

definition string_of_bytes :: "byte list \<Rightarrow> string" where
  "string_of_bytes = map (\<lambda>b. char_of (unat b))"

lemma length_bytes_of_string [simp]: "length (bytes_of_string s) = length s"
  by (simp add: bytes_of_string_def)

lemma length_string_of_bytes [simp]: "length (string_of_bytes bs) = length bs"
  by (simp add: string_of_bytes_def)

lemma of_char_less: "(of_char c :: nat) < 256"
  using mod_less_divisor [of 256 "of_char c :: nat"] by simp

lemma string_of_bytes_of_string [simp]: "string_of_bytes (bytes_of_string s) = s"
  by (induction s) (auto simp: string_of_bytes_def bytes_of_string_def unat_of_nat of_char_less)

text \<open>\<open>std::to_string\<close> of an unsigned number.\<close>

fun nat_to_string :: "nat \<Rightarrow> string" where
  "nat_to_string n = (if n < 10 then [char_of (48 + n)] else nat_to_string (n div 10) @ [char_of (48 + n mod 10)])"

declare nat_to_string.simps [simp del]

text \<open>The decimal digits, so that the simplifier evaluates the text of a number.\<close>

lemma digit_chars:
  "char_of (48::nat) = CHR ''0''" "char_of (49::nat) = CHR ''1''" "char_of (50::nat) = CHR ''2''" "char_of (51::nat) = CHR ''3''" "char_of (52::nat) = CHR ''4''"
  "char_of (53::nat) = CHR ''5''" "char_of (54::nat) = CHR ''6''" "char_of (55::nat) = CHR ''7''" "char_of (56::nat) = CHR ''8''" "char_of (57::nat) = CHR ''9''"
  by (simp_all add: char_of_def bit_simps)

lemmas nat_to_string_eval = nat_to_string.simps digit_chars

definition int_to_string :: "int \<Rightarrow> string" where
  "int_to_string i = (if i < 0 then ''-'' @ nat_to_string (nat (- i)) else nat_to_string (nat i))"

section \<open>Values stored in memory\<close>

lemma drop_poke_at:
  "off \<le> length mem \<Longrightarrow> drop off (poke mem off bs) = bs @ drop (off + length bs) mem"
  by (simp add: poke_def)

lemma poke_poke_commute_drop:
  assumes "off + length bs \<le> off2" "off2 + length cs \<le> length mem"
  shows "\<exists>rest. drop off (poke (poke mem off bs) off2 cs) = bs @ rest"
proof -
  have "take (length bs) (drop off (poke (poke mem off bs) off2 cs)) = bs"
    using assms peek_poke_before [of off2 cs "poke mem off bs" off "length bs"]
      peek_poke_same [of off bs mem "length bs"]
    by (simp add: peek_def)
  then show ?thesis by (metis append_take_drop_id)
qed

lemma poke_after_below_drop:
  assumes "off + length bs \<le> length mem" "off2 + length cs \<le> off"
  shows "\<exists>rest. drop off (poke (poke mem off bs) off2 cs) = bs @ rest"
proof -
  have "take (length bs) (drop off (poke (poke mem off bs) off2 cs)) = bs"
    using assms peek_poke_after [of off2 cs "poke mem off bs" off "length bs"]
      peek_poke_same [of off bs mem "length bs"]
    by (simp add: peek_def)
  then show ?thesis by (metis append_take_drop_id)
qed

text \<open>
  The contract of a serialiser/deserialiser pair over raw memory: on values that satisfy \<open>ok\<close> the
  encoder succeeds, and a decoder that is pointed at the bytes, whatever follows them, returns a
  value related by \<open>sim\<close>. A client that stores an image in a page or a log reads it back, also after
  writes elsewhere in the block.
\<close>

locale image_codec =
  fixes ok :: "'x \<Rightarrow> bool"
    and enc :: "'x \<Rightarrow> byte list res"
    and dec :: "byte list \<Rightarrow> 'y res"
    and sim :: "'x \<Rightarrow> 'y \<Rightarrow> bool"
  assumes enc_ok: "ok x \<Longrightarrow> \<exists>bs. enc x = Inr bs"
    and dec_enc: "ok x \<Longrightarrow> enc x = Inr bs \<Longrightarrow> \<exists>y. dec (bs @ rest) = Inr y \<and> sim x y"
begin

lemma stored_reads_back:
  assumes "ok x" "enc x = Inr bs" "off + length bs \<le> length mem"
  shows "\<exists>y. dec (drop off (poke mem off bs)) = Inr y \<and> sim x y"
  using assms dec_enc [of x bs] by (simp add: drop_poke_at)

lemma stored_survives_write:
  assumes "ok x" "enc x = Inr bs" "off + length bs \<le> length mem" "off2 + length cs \<le> length mem"
    and "off + length bs \<le> off2 \<or> off2 + length cs \<le> off"
  shows "\<exists>y. dec (drop off (poke (poke mem off bs) off2 cs)) = Inr y \<and> sim x y"
proof -
  obtain rest where "drop off (poke (poke mem off bs) off2 cs) = bs @ rest"
    using assms(3-5) poke_poke_commute_drop [of off bs off2 cs mem]
      poke_after_below_drop [of off bs mem off2 cs] by blast
  then show ?thesis using dec_enc [OF assms(1,2), of rest] by simp
qed

end

lemma word_bits_eq: "(x::'a::len word) = y \<longleftrightarrow> (\<forall>n<LENGTH('a). bit x n = bit y n)"
  by (auto intro: bit_word_eqI)

lemma take_bit_small:
  fixes w :: "'a::len word"
  assumes "w \<le> mask n"
  shows "take_bit n w = w"
proof -
  have "unat w \<le> unat (mask n :: 'a word)" using assms by (simp add: word_le_nat_alt)
  also have "\<dots> \<le> mask n" by (metis mod_less_eq_dividend of_nat_mask_eq unat_of_nat)
  finally have "unat w < 2 ^ n" using le_less_trans mask_nat_less_exp by blast
  then have "unat (take_bit n w) = unat w" by (simp add: unsigned_take_bit_eq take_bit_nat_eq_self)
  then show ?thesis by (simp add: word_unat_eq_iff)
qed

lemma unat_of_nat_small: "m < 2 ^ LENGTH('a) \<Longrightarrow> unat (word_of_nat m :: 'a::len word) = m"
  by (simp add: unat_of_nat)

lemma filter_upt_nth:
  assumes "\<And>j. j < length xs \<Longrightarrow> P j \<longleftrightarrow> Q (xs ! j)" "\<And>j. j < length xs \<Longrightarrow> Q (xs ! j) \<Longrightarrow> f j = g (xs ! j)"
  shows "map f (filter P [0..<length xs]) = map g (filter Q xs)"
  using assms
proof (induction xs rule: rev_induct)
  case (snoc x xs)
  have "map f (filter P [0..<length xs]) = map g (filter Q xs)"
    using snoc.prems by (intro snoc.IH) (metis length_append_singleton less_SucI nth_append)+
  then show ?case using snoc.prems [of "length xs"] by simp
qed simp

lemma word_succ64: "unat (x::64 word) + Suc k < 2 ^ 64 \<Longrightarrow> unat (x + 1) = unat x + 1" "unat (x::64 word) + Suc k < 2 ^ 64 \<Longrightarrow> x < x + 1"
  by (simp_all add: unat_word_ariths word_less_nat_alt)

end
