(* ===== verification/Mimi_Types.thy ===== *)
theory Mimi_Types
  imports Mimi_Prelude
begin

text \<open>
  The scalar vocabulary of the server: configuration constants, alignment arithmetic
  (\<open>utils/BitUtils.hpp\<close>), the strong integer types with their sentinel values (object, page,
  attribute, transaction and sequence numbers), page tags and tuple identifiers, tuple
  descriptors and datums. Each type keeps the width it has in the sources.
\<close>

unbundle bit_operations_syntax

section \<open>Configuration\<close>

definition PageSize :: nat where "PageSize = 8192"
definition BitsPerByte :: nat where "BitsPerByte = 8"
definition MaxWorkers :: nat where "MaxWorkers = 16"
definition BufferPoolSize :: nat where "BufferPoolSize = 1024"

section \<open>BitUtils\<close>

text \<open>\<open>(length + (alignment - 1)) & ~(alignment - 1)\<close> on \<open>size_t\<close>.\<close>

definition TypeAlign :: "u64 \<Rightarrow> u64 \<Rightarrow> u64" where
  "TypeAlign len alignment = (len + (alignment - 1)) AND NOT (alignment - 1)"

definition MaxAlign :: "u64 \<Rightarrow> u64" where
  "MaxAlign len = TypeAlign len 8"

definition BitmapSize :: "nat \<Rightarrow> nat" where
  "BitmapSize n = (n + 7) div 8"

section \<open>Identifiers and sequence numbers\<close>

type_synonym Oid = u32
definition Oid_Invalid :: Oid where "Oid_Invalid = 0"
definition Oid_IsValid :: "Oid \<Rightarrow> bool" where "Oid_IsValid v \<longleftrightarrow> v \<noteq> Oid_Invalid"

type_synonym PageNumber = u32
definition PageNumber_Invalid :: PageNumber where "PageNumber_Invalid = - 1"
definition PageNumber_IsValid :: "PageNumber \<Rightarrow> bool" where
  "PageNumber_IsValid v \<longleftrightarrow> v \<noteq> PageNumber_Invalid"

record PageTag =
  Relid :: Oid
  PageNo :: PageNumber

record TupleId =
  tid_pageno :: PageNumber
  tid_itemid :: u16

type_synonym AttrNumber = u16
definition AttrNumber_Invalid :: AttrNumber where "AttrNumber_Invalid = 0"

definition ToIndex :: "AttrNumber \<Rightarrow> nat res" where
  "ToIndex attno = bindR (assertR ''value != InvalidValue'' (attno \<noteq> AttrNumber_Invalid))
     (\<lambda>_. Inr (unat attno - 1))"

type_synonym TransactionId = u64
definition Xid_Invalid :: TransactionId where "Xid_Invalid = 0"
definition Xid_Min :: TransactionId where "Xid_Min = 1"
definition Xid_Max :: TransactionId where "Xid_Max = drop_bit 2 (- 1)"
definition Xid_isNormal :: "TransactionId \<Rightarrow> bool" where
  "Xid_isNormal v \<longleftrightarrow> Xid_Min \<le> v \<and> v \<le> Xid_Max"

type_synonym CommitSeqNumber = u64
definition Csn_Invalid :: CommitSeqNumber where "Csn_Invalid = 0"
definition Csn_Frozen :: CommitSeqNumber where "Csn_Frozen = 1"
definition Csn_InProgress :: CommitSeqNumber where "Csn_InProgress = 2"
definition Csn_Aborted :: CommitSeqNumber where "Csn_Aborted = 3"
definition Csn_Committing :: CommitSeqNumber where "Csn_Committing = 4"
definition Csn_Min :: CommitSeqNumber where "Csn_Min = 5"
definition Csn_IsNormal :: "CommitSeqNumber \<Rightarrow> bool" where "Csn_IsNormal c \<longleftrightarrow> Csn_Min \<le> c"

text \<open>An undo sequence number is an \<open>int64_t\<close>; comparisons on it are signed.\<close>

type_synonym UndoSeqNumber = u64
definition Usn_Invalid :: UndoSeqNumber where "Usn_Invalid = 0"
definition Usn_Max :: UndoSeqNumber where "Usn_Max = drop_bit 2 (- 1)"
definition Usn_IsValid :: "UndoSeqNumber \<Rightarrow> bool" where
  "Usn_IsValid u \<longleftrightarrow> u \<noteq> Usn_Invalid \<and> sint u \<le> sint Usn_Max"

type_synonym LogSeqNumber = u64
definition Lsn_Invalid :: LogSeqNumber where "Lsn_Invalid = 0"
definition Lsn_IsValid :: "LogSeqNumber \<Rightarrow> bool" where "Lsn_IsValid l \<longleftrightarrow> l \<noteq> Lsn_Invalid"

section \<open>Tuple descriptors\<close>

record AttributeDescriptor =
  ad_typeId :: Oid
  ad_length :: int
  ad_byVal :: bool

type_synonym TupleDescriptor = "AttributeDescriptor list"

definition GetMaxAttrNumber :: "TupleDescriptor \<Rightarrow> AttrNumber" where
  "GetMaxAttrNumber desc = word_of_nat (length desc)"

text \<open>
  The attribute numbers the loop \<open>for (attno = Min(); attno <= max; ++attno)\<close> visits. With
  \<open>max = UINT16_MAX\<close> the increment wraps and the loop goes on with the invalid number 0, which
  every loop body rejects in \<open>ToIndex\<close>.
\<close>

definition attr_nums :: "AttrNumber \<Rightarrow> AttrNumber list" where
  "attr_nums maxno = map word_of_nat [1..<unat maxno + 1] @ (if maxno = - 1 then [0] else [])"

text \<open>Such a loop, with a body that starts by turning the attribute number into an index.\<close>

definition attr_loop :: "AttrNumber \<Rightarrow> (nat \<Rightarrow> 's \<Rightarrow> 's res) \<Rightarrow> 's \<Rightarrow> 's res" where
  "attr_loop maxno body = foldR (\<lambda>attno s. bindR (ToIndex attno) (\<lambda>idx. body idx s)) (attr_nums maxno)"

section \<open>Datums\<close>

text \<open>
  A datum is 64 bits: a scalar, or the address of a by-reference value, represented by the bytes
  that can be read from that address on.
\<close>

datatype Datum = Scalar u64 | Ref "byte list"

definition getScalar :: "Datum \<Rightarrow> u64 res" where
  "getScalar d = (case d of Scalar v \<Rightarrow> Inr v | Ref _ \<Rightarrow> Inl (Undefined ''pointer read as scalar''))"

definition getPointer :: "Datum \<Rightarrow> byte list res" where
  "getPointer d = (case d of Ref bs \<Rightarrow> Inr bs | Scalar _ \<Rightarrow> Inl (Undefined ''scalar read as pointer''))"

definition getBool :: "Datum \<Rightarrow> bool res" where
  "getBool d = bindR (getScalar d) (\<lambda>v. Inr (v \<noteq> 0))"

definition bool_datum :: "bool \<Rightarrow> Datum" where
  "bool_datum b = Scalar (if b then 1 else 0)"

definition vec_at :: "'a list \<Rightarrow> nat \<Rightarrow> 'a res" where
  "vec_at xs i = (if i < length xs then Inr (xs ! i) else Inl (Undefined ''vector index''))"

lemma vec_at_in [simp]: "i < length xs \<Longrightarrow> vec_at xs i = Inr (xs ! i)"
  by (simp add: vec_at_def)

section \<open>Lemmas on the scalar types\<close>

lemma and_not_mask_word: "(x::'a::len word) AND NOT (mask n) = x - take_bit n x"
proof -
  have "x AND NOT (mask n) = push_bit n (drop_bit n x)"
    by (rule bit_eqI) (auto simp: bit_simps)
  also have "\<dots> = x - take_bit n x" using bits_ident [of n x] by (metis add_diff_cancel_right')
  finally show ?thesis .
qed

lemma low_add_one:
  fixes x :: "'a::len word"
  assumes "take_bit k x < mask k"
  shows "take_bit k (x + 1) = take_bit k x + 1" "k \<le> n \<Longrightarrow> bit (x + 1) n = bit x n"
proof -
  let ?c = "take_bit k x" and ?f = "x AND NOT (mask k)"
  have "?c + 1 \<le> mask k" using assms by (simp add: inc_le)
  then have c1: "take_bit k (?c + 1) = ?c + 1" by (rule take_bit_small)
  then have hi: "\<not> bit (?c + 1) m" if "k \<le> m" for m using that by (metis bit_take_bit_iff not_le)
  have "?f AND (?c + 1) = 0" using hi by (auto simp: word_bits_eq bit_simps not_less)
  moreover have "x + 1 = ?f + (?c + 1)" by (simp add: and_not_mask_word)
  ultimately have eq: "x + 1 = ?f OR (?c + 1)" by (metis disjunctive_add_eq_or)
  show "k \<le> n \<Longrightarrow> bit (x + 1) n = bit x n" using hi
    by (auto simp only: eq) (auto simp: bit_simps dest: bit_imp_le_length)
  have "take_bit k ?f = 0" by (auto simp: word_bits_eq bit_simps)
  then show "take_bit k (x + 1) = take_bit k x + 1" using c1 by (simp only: eq take_bit_or) simp
qed

lemma unat_and_not_mask: "unat ((x::'a::len word) AND NOT (mask n)) = 2 ^ n * (unat x div 2 ^ n)"
proof -
  have t: "unat (take_bit n x) = unat x mod 2 ^ n"
    by (simp only: unsigned_take_bit_eq take_bit_eq_mod [of n "unat x"])
  then have "unat (x AND NOT (mask n)) = unat x - unat x mod 2 ^ n"
    by (simp add: and_not_mask_word unat_sub word_le_nat_alt)
  then show ?thesis by (simp add: minus_mod_eq_mult_div)
qed

definition align8 :: "nat \<Rightarrow> nat" where "align8 n = 8 * ((n + 7) div 8)"

lemma align8_le: "n \<le> align8 n" "align8 n < n + 8" "align8 n mod 8 = 0"
  by (simp_all add: align8_def)

lemma unat_MaxAlign:
  assumes "n < 2 ^ 63"
  shows "unat (MaxAlign (word_of_nat n)) = align8 n"
proof -
  have "(8 - 1 :: u64) = mask 3" by (simp add: mask_eq_exp_minus_1)
  moreover have "unat (word_of_nat n + mask 3 :: u64) = n + 7"
    using assms by (subst unat_plus_simple [THEN iffD1])
      (simp_all add: unat_of_nat mask_eq_exp_minus_1 word_le_nat_alt unat_word_ariths)
  ultimately show ?thesis using unat_and_not_mask [of "word_of_nat n + mask 3 :: u64" 3]
    by (simp add: MaxAlign_def TypeAlign_def align8_def)
qed

lemma ToIndex_ok [simp]: "attno \<noteq> 0 \<Longrightarrow> ToIndex attno = Inr (unat attno - 1)"
  by (simp add: ToIndex_def AttrNumber_Invalid_def)

lemma attr_nums_small:
  "n < 65535 \<Longrightarrow> attr_nums (word_of_nat n) = map word_of_nat [1..<n + 1]"
  by (simp add: attr_nums_def unat_of_nat word_of_nat_eq_iff unsigned_minus_1_eq_mask mask_eq_exp_minus_1
      take_bit_nat_eq_self_iff word_unat_eq_iff)

lemma attr_loop_index:
  assumes "n < 65535"
  shows "attr_loop (word_of_nat n) body = foldR body [0..<n]"
proof -
  have idx: "ToIndex (word_of_nat (Suc i)) = Inr i" if "i < n" for i
    using that assms by (subst ToIndex_ok) (auto simp: unat_of_nat word_unat_eq_iff simp del: of_nat_Suc)
  have "foldR (\<lambda>attno s. bindR (ToIndex attno) (\<lambda>idx. body idx s))
      (map word_of_nat (map Suc [0..<n])) s = foldR body [0..<n] s" for s
    by (simp only: foldR_map, rule foldR_cong) (auto simp: idx simp del: of_nat_Suc)
  then have "foldR (\<lambda>attno s. bindR (ToIndex attno) (\<lambda>idx. body idx s))
      (map word_of_nat [1..<n + 1]) = foldR body [0..<n]"
    by (intro ext) (simp only: map_Suc_upt flip: One_nat_def Suc_eq_plus1)
  then show ?thesis by (simp add: attr_loop_def attr_nums_small assms)
qed

lemma bool_datum_getBool [simp]: "getBool (bool_datum b) = Inr b"
  by (simp add: getBool_def bool_datum_def getScalar_def)

end
