(* ===== verification/Mimi_Dll.thy ===== *)
theory Mimi_Dll
  imports Mimi_Prelude
begin

text \<open>
  Intrusive doubly linked lists, as the lock manager and the buffer manager use them: each element
  carries a next and a previous pointer, the list a head and a tail. \<open>dll nx pv h t xs\<close> says that the
  pointers represent the sequence \<open>xs\<close>. The lemmas give the effect of the pointer updates of the
  sources on the sequence; both list components rest on them.
\<close>

definition hd_opt :: "'a list \<Rightarrow> 'a option" where
  "hd_opt xs = (case xs of [] \<Rightarrow> None | x # _ \<Rightarrow> Some x)"

lemma hd_opt_simps [simp]: "hd_opt [] = None" "hd_opt (x # xs) = Some x"
  by (simp_all add: hd_opt_def)

lemma hd_opt_append: "hd_opt (xs @ ys) = (if xs = [] then hd_opt ys else hd_opt xs)"
  by (cases xs) auto

lemma hd_opt_eq_None [simp]: "hd_opt xs = None \<longleftrightarrow> xs = []" "None = hd_opt xs \<longleftrightarrow> xs = []"
  by (cases xs; auto)+

lemma hd_opt_in: "hd_opt xs = Some x \<Longrightarrow> x \<in> set xs"
  by (cases xs) auto

definition dll :: "('i \<Rightarrow> 'i option) \<Rightarrow> ('i \<Rightarrow> 'i option) \<Rightarrow> 'i option \<Rightarrow> 'i option \<Rightarrow> 'i list \<Rightarrow> bool" where
  "dll nx pv h t xs \<longleftrightarrow> distinct xs \<and> h = hd_opt xs \<and> t = hd_opt (rev xs) \<and>
     (\<forall>as y bs. xs = as @ y # bs \<longrightarrow> nx y = hd_opt bs \<and> pv y = hd_opt (rev as))"

lemma dll_empty [simp]: "dll nx pv None None []"
  by (simp add: dll_def)

lemma dll_distinct: "dll nx pv h t xs \<Longrightarrow> distinct xs"
  by (simp add: dll_def)

lemma dll_ends: "dll nx pv h t xs \<Longrightarrow> h = hd_opt xs \<and> t = hd_opt (rev xs)"
  by (simp add: dll_def)

lemma dll_at: "dll nx pv h t (as @ y # bs) \<Longrightarrow> nx y = hd_opt bs \<and> pv y = hd_opt (rev as)"
  by (simp add: dll_def)

lemma dll_rev: "dll nx pv h t xs \<longleftrightarrow> dll pv nx t h (rev xs)"
proof -
  have "dll pv nx t h (rev xs)" if d: "dll nx pv h t xs" for nx pv h t and xs :: "'a list"
    unfolding dll_def
  proof (intro conjI allI impI)
    fix as y bs assume "rev xs = as @ y # bs"
    then have "xs = rev bs @ y # rev as" by (metis append.assoc append_Cons append_Nil rev.simps(2) rev_append rev_rev_ident)
    with d show "pv y = hd_opt bs" "nx y = hd_opt (rev as)" by (auto simp: dll_def)
  qed (use d in \<open>auto simp: dll_def\<close>)
  from this [of nx pv h t xs] this [of pv nx t h "rev xs"] show ?thesis by auto
qed

text \<open>Pointers of elements outside the list do not matter.\<close>

lemma dll_cong:
  assumes "dll nx pv h t xs" "\<And>x. x \<in> set xs \<Longrightarrow> nx' x = nx x \<and> pv' x = pv x"
  shows "dll nx' pv' h t xs"
  using assms unfolding dll_def by auto

lemma dll_push_back:
  assumes d: "dll nx pv h t xs" and x: "x \<notin> set xs"
    and nx': "nx' x = None" "\<And>y. y \<in> set xs \<Longrightarrow> nx' y = (if t = Some y then Some x else nx y)"
    and pv': "pv' x = t" "\<And>y. y \<in> set xs \<Longrightarrow> pv' y = pv y"
  shows "dll nx' pv' (if h = None then Some x else h) (Some x) (xs @ [x])"
  unfolding dll_def
proof (intro conjI allI impI)
  fix as y bs assume eq: "xs @ [x] = as @ y # bs"
  consider (last) "bs = []" "as = xs" "y = x" | (inner) bs' where "bs = bs' @ [x]" "xs = as @ y # bs'"
  proof (cases bs rule: rev_cases)
    case Nil
    then show thesis using eq that(1) by simp
  next
    case (snoc bs' z)
    then have "xs = as @ y # bs'" "z = x" using eq by simp_all
    then show thesis using that(2) snoc by blast
  qed
  then have "nx' y = hd_opt bs \<and> pv' y = hd_opt (rev as)"
  proof cases
    case last
    then show ?thesis using nx' pv' d by (auto simp: dll_def)
  next
    case inner
    have y: "y \<in> set xs" "nx y = hd_opt bs'" "pv y = hd_opt (rev as)" using d inner by (auto simp: dll_def)
    have "t = Some y \<longleftrightarrow> bs' = []"
    proof
      assume "t = Some y"
      then have "hd_opt (rev bs' @ y # rev as) = Some y" using d inner by (simp add: dll_def)
      then show "bs' = []" using d inner by (auto simp: dll_def hd_opt_append split: if_splits dest: hd_opt_in)
    qed (use d inner in \<open>simp add: dll_def\<close>)
    then show ?thesis using nx' pv' y inner by (auto simp: hd_opt_append)
  qed
  then show "nx' y = hd_opt bs" "pv' y = hd_opt (rev as)" by auto
qed (use d x in \<open>auto simp: dll_def hd_opt_append\<close>)

lemma dll_push_front:
  assumes d: "dll nx pv h t xs" and x: "x \<notin> set xs"
    and pv': "pv' x = None" "\<And>y. y \<in> set xs \<Longrightarrow> pv' y = (if h = Some y then Some x else pv y)"
    and nx': "nx' x = h" "\<And>y. y \<in> set xs \<Longrightarrow> nx' y = nx y"
  shows "dll nx' pv' (Some x) (if t = None then Some x else t) (x # xs)"
proof -
  have "dll pv' nx' (if t = None then Some x else t) (Some x) (rev xs @ [x])"
    by (rule dll_push_back [of pv nx t h]) (use assms dll_rev [of nx pv h t xs] in auto)
  then show ?thesis using dll_rev [of nx' pv' "Some x" _ "x # xs"] by simp
qed

lemma dll_remove:
  assumes d: "dll nx pv h t (as @ x # bs)"
    and nx': "\<And>y. y \<in> set as \<Longrightarrow> nx' y = (if pv x = Some y then nx x else nx y)" "\<And>y. y \<in> set bs \<Longrightarrow> nx' y = nx y"
    and pv': "\<And>y. y \<in> set bs \<Longrightarrow> pv' y = (if nx x = Some y then pv x else pv y)" "\<And>y. y \<in> set as \<Longrightarrow> pv' y = pv y"
  shows "dll nx' pv' (if h = Some x then nx x else h) (if t = Some x then pv x else t) (as @ bs)"
  unfolding dll_def
proof (intro conjI allI impI)
  have x: "nx x = hd_opt bs" "pv x = hd_opt (rev as)" using dll_at [OF d] by auto
  have dis: "distinct (as @ x # bs)" using d by (rule dll_distinct)
  then show "distinct (as @ bs)" by simp
  have ends: "h = hd_opt (as @ x # bs)" "t = hd_opt (rev (as @ x # bs))" using d by (auto simp: dll_def)
  show "(if h = Some x then nx x else h) = hd_opt (as @ bs)"
    using ends(1) x(1) dis by (cases as) (auto simp: hd_opt_append)
  show "(if t = Some x then pv x else t) = hd_opt (rev (as @ bs))"
  proof (cases bs rule: rev_cases)
    case Nil
    then show ?thesis using ends(2) x(2) by simp
  next
    case (snoc cs z)
    then show ?thesis using ends(2) dis by auto
  qed
  fix us y vs assume eq: "as @ bs = us @ y # vs"
  consider (left) ws where "as = us @ y # ws" "vs = ws @ bs" | (right) ws where "us = as @ ws" "bs = ws @ y # vs"
    using eq by (auto simp: append_eq_append_conv2 Cons_eq_append_conv append_eq_Cons_conv)
  then have "nx' y = hd_opt vs \<and> pv' y = hd_opt (rev us)"
  proof cases
    case left
    then have at: "nx y = hd_opt (ws @ x # bs)" "pv y = hd_opt (rev us)" and y: "y \<in> set as"
      using d unfolding dll_def by (auto simp: dest: spec [of _ us])
    have "pv x = Some y \<longleftrightarrow> ws = []"
    proof
      assume "pv x = Some y"
      then have "hd_opt (rev ws @ y # rev us) = Some y" using x left by simp
      then show "ws = []" using dis left by (auto simp: hd_opt_append split: if_splits dest: hd_opt_in)
    qed (use x left in simp)
    then show ?thesis using nx' pv' y at x left by (auto simp: hd_opt_append)
  next
    case right
    then have "as @ x # bs = (as @ x # ws) @ y # vs" by simp
    then have at: "nx y = hd_opt vs" "pv y = hd_opt (rev (as @ x # ws))" and y: "y \<in> set bs"
      using d right unfolding dll_def by (blast, blast, simp)
    have "nx x = Some y \<longleftrightarrow> ws = []"
    proof
      assume "nx x = Some y"
      then have "hd_opt (ws @ y # vs) = Some y" using x right by simp
      then show "ws = []" using dis right by (auto simp: hd_opt_append split: if_splits dest: hd_opt_in)
    qed (use x right in simp)
    then show ?thesis using nx' pv' y at x right by (auto simp: hd_opt_append)
  qed
  then show "nx' y = hd_opt vs" "pv' y = hd_opt (rev us)" by auto
qed

text \<open>Following the previous pointers from the tail visits the elements in reverse.\<close>

fun walk :: "nat \<Rightarrow> ('i \<Rightarrow> 'i option) \<Rightarrow> 'i option \<Rightarrow> 'i list option" where
  "walk n pv None = Some []"
| "walk 0 pv (Some x) = None"
| "walk (Suc n) pv (Some x) = map_option (Cons x) (walk n pv (pv x))"

lemma dll_walk_suffix:
  assumes "dll nx pv h t (as @ bs)" "length bs \<le> n"
  shows "walk n nx (hd_opt bs) = Some bs"
  using assms
proof (induction bs arbitrary: as n)
  case Nil
  then show ?case by simp
next
  case (Cons b bs)
  then obtain m where n: "n = Suc m" by (cases n) auto
  have "nx b = hd_opt bs" using dll_at Cons.prems(1) by metis
  moreover have "walk m nx (hd_opt bs) = Some bs"
    using Cons.IH [of "as @ [b]" m] Cons.prems n by simp
  ultimately show ?case by (simp add: n)
qed

lemma dll_walk_next: "dll nx pv h t xs \<Longrightarrow> length xs \<le> n \<Longrightarrow> walk n nx h = Some xs"
  using dll_walk_suffix [of nx pv h t "[]" xs n] by (simp add: dll_def)

lemma dll_walk_prev: "dll nx pv h t xs \<Longrightarrow> length xs \<le> n \<Longrightarrow> walk n pv t = Some (rev xs)"
  using dll_walk_next [of pv nx t h "rev xs" n] dll_rev [of nx pv h t xs] by simp

section \<open>The interface of an intrusive list\<close>

text \<open>
  What a user of such a list relies on: an element that is not in the list can be put at one end
  (\<open>place\<close> says where), an element of the list can be taken out wherever it is, and elements outside
  stay usable.
\<close>

locale intrusive_list =
  fixes rep :: "'s \<Rightarrow> 'i list \<Rightarrow> bool"
    and fresh :: "'s \<Rightarrow> 'i \<Rightarrow> bool"
    and push :: "'i \<Rightarrow> 's \<Rightarrow> 's res"
    and del :: "'i \<Rightarrow> 's \<Rightarrow> 's res"
    and place :: "'i \<Rightarrow> 'i list \<Rightarrow> 'i list"
  assumes rep_distinct: "rep s xs \<Longrightarrow> distinct xs"
    and push_ok: "rep s xs \<Longrightarrow> i \<notin> set xs \<Longrightarrow> fresh s i \<Longrightarrow>
      \<exists>s'. push i s = Inr s' \<and> rep s' (place i xs) \<and> (\<forall>j. j \<noteq> i \<longrightarrow> j \<notin> set xs \<longrightarrow> fresh s j \<longrightarrow> fresh s' j)"
    and del_ok: "rep s xs \<Longrightarrow> i \<in> set xs \<Longrightarrow> \<exists>s'. del i s = Inr s' \<and> rep s' (remove1 i xs) \<and> fresh s' i"
    and place_remove: "i \<notin> set xs \<Longrightarrow> remove1 i (place i xs) = xs"
    and place_set: "set (place i xs) = insert i (set xs)"
begin

lemma push_then_del:
  assumes "rep s xs" "i \<notin> set xs" "fresh s i"
  shows "\<exists>s1 s2. push i s = Inr s1 \<and> del i s1 = Inr s2 \<and> rep s2 xs \<and> fresh s2 i"
proof -
  obtain s1 where s1: "push i s = Inr s1" "rep s1 (place i xs)" using push_ok [OF assms] by blast
  then obtain s2 where "del i s1 = Inr s2" "rep s2 (remove1 i (place i xs))" "fresh s2 i"
    using del_ok [of s1 "place i xs" i] by (auto simp: place_set)
  with s1 show ?thesis using place_remove [OF assms(2)] by auto
qed

lemma push_all:
  assumes "rep s xs" "distinct is" "set is \<inter> set xs = {}" "\<forall>i\<in>set is. fresh s i"
  shows "\<exists>s'. foldR push is s = Inr s' \<and> rep s' (fold place is xs)"
  using assms
proof (induction "is" arbitrary: s xs)
  case Nil
  then show ?case by simp
next
  case (Cons i ks)
  then obtain s1 where s1: "push i s = Inr s1" "rep s1 (place i xs)"
    "\<forall>j. j \<noteq> i \<longrightarrow> j \<notin> set xs \<longrightarrow> fresh s j \<longrightarrow> fresh s1 j"
    using push_ok [of s xs i] by auto
  have "set ks \<inter> set (place i xs) = {}" "\<forall>k\<in>set ks. fresh s1 k"
    using Cons.prems s1(3) by (auto simp: place_set)
  with Cons.IH [OF s1(2)] Cons.prems(2) s1(1) show ?case by auto
qed

lemma move_keeps_set:
  assumes "rep s xs" "i \<in> set xs"
  shows "\<exists>s1 s2. del i s = Inr s1 \<and> push i s1 = Inr s2 \<and> rep s2 (place i (remove1 i xs))"
proof -
  obtain s1 where s1: "del i s = Inr s1" "rep s1 (remove1 i xs)" "fresh s1 i" using del_ok [OF assms] by blast
  have "i \<notin> set (remove1 i xs)" using rep_distinct [OF assms(1)] by simp
  with push_ok [OF s1(2) _ s1(3)] s1(1) show ?thesis by blast
qed

end

end
