(* ===== verification/Mimi_Latch.thy ===== *)
theory Mimi_Latch
  imports Mimi_Types Mimi_Dll
begin

text \<open>
  The light-weight latch (\<open>lock/LWLatch.cpp\<close>) with its intrusive list of waiting workers
  (\<open>lock/LockList.cpp\<close>). The state word, the list and the per-worker lock records are the shared
  state; the parts of \<open>Lock\<close> and \<open>Unlock\<close> that run atomically (a successful compare-and-swap, a
  section under the list lock bit, one semaphore operation) are functions on it, and \<open>lstep\<close>
  interleaves them for any number of workers.
\<close>

unbundle bit_operations_syntax

section \<open>Waiting workers\<close>

datatype LockMode = Share | Exclusive
datatype WorkerLockState = NotWaiting | Waiting | PendingWakeup

type_synonym WorkerId = nat

record WorkerLock =
  wl_sema :: nat
  wl_lockState :: WorkerLockState
  wl_lockMode :: LockMode
  wl_Next :: "WorkerId option"
  wl_Prev :: "WorkerId option"

type_synonym workers = "WorkerId \<Rightarrow> WorkerLock"

record LockListHead =
  lh_Head :: "WorkerId option"
  lh_Tail :: "WorkerId option"

definition IsEmpty :: "LockListHead \<Rightarrow> bool" where "IsEmpty l \<longleftrightarrow> lh_Head l = None"

definition upd_worker :: "WorkerId \<Rightarrow> (WorkerLock \<Rightarrow> WorkerLock) \<Rightarrow> workers \<Rightarrow> workers" where
  "upd_worker i f ws = ws(i := f (ws i))"

definition PushTail :: "WorkerId \<Rightarrow> LockListHead \<Rightarrow> workers \<Rightarrow> LockListHead \<times> workers" where
  "PushTail i l ws = (case lh_Tail l of
     None \<Rightarrow> (l\<lparr>lh_Head := Some i, lh_Tail := Some i\<rparr>,
       upd_worker i (\<lambda>n. n\<lparr>wl_Next := None, wl_Prev := None\<rparr>) ws)
   | Some t \<Rightarrow> (l\<lparr>lh_Tail := Some i\<rparr>,
       upd_worker t (\<lambda>n. n\<lparr>wl_Next := Some i\<rparr>)
         (upd_worker i (\<lambda>n. n\<lparr>wl_Prev := Some t, wl_Next := None\<rparr>) ws)))"

definition Delete :: "WorkerId \<Rightarrow> LockListHead \<Rightarrow> workers \<Rightarrow> (LockListHead \<times> workers) res" where
  "Delete i l ws =
     bindR (case wl_Prev (ws i) of
         None \<Rightarrow> bindR (assertR ''this->Head == id'' (lh_Head l = Some i)) (\<lambda>_. Inr (l\<lparr>lh_Head := wl_Next (ws i)\<rparr>, ws))
       | Some p \<Rightarrow> Inr (l, upd_worker p (\<lambda>n. n\<lparr>wl_Next := wl_Next (ws i)\<rparr>) ws)) (\<lambda>(l1, ws1).
     bindR (case wl_Next (ws1 i) of
         None \<Rightarrow> bindR (assertR ''this->Tail == id'' (lh_Tail l1 = Some i)) (\<lambda>_. Inr (l1\<lparr>lh_Tail := wl_Prev (ws1 i)\<rparr>, ws1))
       | Some n \<Rightarrow> Inr (l1, upd_worker n (\<lambda>m. m\<lparr>wl_Prev := wl_Prev (ws1 i)\<rparr>) ws1)) (\<lambda>(l2, ws2).
     Inr (l2, upd_worker i (\<lambda>n. n\<lparr>wl_Next := None, wl_Prev := None\<rparr>) ws2)))"

section \<open>The state word\<close>

definition ListLocked :: u32 where "ListLocked = push_bit 29 1"
definition UnlockWaiter :: u32 where "UnlockWaiter = push_bit 30 1"
definition HasWaiters :: u32 where "HasWaiters = push_bit 31 1"

definition ExclusiveLockValue :: u32 where "ExclusiveLockValue = push_bit 28 1"
definition SharedLockValue :: u32 where "SharedLockValue = 1"
definition LockCountMask :: u32 where "LockCountMask = ExclusiveLockValue OR (ExclusiveLockValue - 1)"

record LWLatch =
  lt_state :: u32
  lt_waiters :: LockListHead
  lt_workers :: workers

text \<open>One round of the compare-and-swap loop that succeeds: the answer and the new state word.\<close>

definition attemptLock :: "LockMode \<Rightarrow> u32 \<Rightarrow> bool \<times> u32" where
  "attemptLock mode old = (case mode of
     Exclusive \<Rightarrow> (let lockFree = (old AND LockCountMask = 0) in
       (lockFree, if lockFree then old + ExclusiveLockValue else old))
   | Share \<Rightarrow> (let lockFree = (old AND LockCountMask = 0) in
       (lockFree, if lockFree then old + SharedLockValue else old)))"

definition queueSelf :: "WorkerId \<Rightarrow> LockMode \<Rightarrow> LWLatch \<Rightarrow> LWLatch" where
  "queueSelf me mode l =
     (let ws1 = upd_worker me (\<lambda>w. w\<lparr>wl_lockState := Waiting, wl_lockMode := mode\<rparr>) (lt_workers l);
          (q, ws2) = PushTail me (lt_waiters l) ws1
      in l\<lparr>lt_state := lt_state l OR HasWaiters, lt_waiters := q, lt_workers := ws2\<rparr>)"

text \<open>
  \<open>dequeueSelf\<close> up to the release of the list lock, and for a worker that was still waiting its new lock
  state; the answer is \<open>isWaiting\<close>.
\<close>

definition dequeueSelf :: "WorkerId \<Rightarrow> LWLatch \<Rightarrow> (bool \<times> LWLatch) res" where
  "dequeueSelf me l =
     (let isWaiting = (wl_lockState (lt_workers l me) = Waiting) in
      bindR (if isWaiting then Delete me (lt_waiters l) (lt_workers l)
             else Inr (lt_waiters l, lt_workers l)) (\<lambda>(q, ws).
      let st = (if IsEmpty q \<and> lt_state l AND HasWaiters \<noteq> 0 then lt_state l AND NOT HasWaiters else lt_state l) in
      if isWaiting then
        Inr (True, l\<lparr>lt_state := st, lt_waiters := q, lt_workers := upd_worker me (\<lambda>w. w\<lparr>wl_lockState := NotWaiting\<rparr>) ws\<rparr>)
      else Inr (False, l\<lparr>lt_state := st, lt_waiters := q, lt_workers := ws\<rparr>)))"

text \<open>
  The loop of \<open>wakeup\<close> over the waiters, with the iterator's current and next worker. The list has
  at most one node per worker, so \<open>MaxWorkers\<close> rounds are enough; running out of rounds stands for
  a corrupted list.
\<close>

fun wakeup_loop :: "nat \<Rightarrow> WorkerId option \<Rightarrow> WorkerId option \<Rightarrow> bool \<Rightarrow> LockListHead \<Rightarrow> LockListHead \<Rightarrow> workers
    \<Rightarrow> (LockListHead \<times> LockListHead \<times> workers) res" where
  "wakeup_loop fuel None nxt woke q wakes ws = Inr (q, wakes, ws)"
| "wakeup_loop 0 (Some cur) nxt woke q wakes ws = Inl (Undefined ''endless waiters list'')"
| "wakeup_loop (Suc fuel) (Some cur) nxt woke q wakes ws =
     (let advance = (\<lambda>ws'. case nxt of None \<Rightarrow> None | Some n \<Rightarrow> wl_Next (ws' n)) in
      if woke \<and> wl_lockMode (ws cur) = Exclusive then wakeup_loop fuel nxt (advance ws) woke q wakes ws
      else
        bindR (Delete cur q ws) (\<lambda>(q1, ws1).
        let (wakes1, ws2) = PushTail cur wakes ws1 in
        bindR (assertR ''waiter->GetLockState() == WorkerLockState::Waiting'' (wl_lockState (ws2 cur) = Waiting)) (\<lambda>_.
        let ws3 = upd_worker cur (\<lambda>w. w\<lparr>wl_lockState := PendingWakeup\<rparr>) ws2 in
        if wl_lockMode (ws3 cur) = Exclusive then Inr (q1, wakes1, ws3)
        else wakeup_loop fuel nxt (advance ws3) True q1 wakes1 ws3)))"

definition empty_list :: LockListHead where "empty_list = \<lparr>lh_Head = None, lh_Tail = None\<rparr>"

definition wakeup_collect :: "LWLatch \<Rightarrow> (LockListHead \<times> LWLatch) res" where
  "wakeup_collect l =
     (let hd = lh_Head (lt_waiters l);
          nxt = (case hd of None \<Rightarrow> None | Some h \<Rightarrow> wl_Next (lt_workers l h)) in
      bindR (wakeup_loop MaxWorkers hd nxt False (lt_waiters l) empty_list (lt_workers l)) (\<lambda>(q, wakes, ws).
      bindR (assertR ''wakeup.IsEmpty() || HasWaiters'' (IsEmpty wakes \<or> lt_state l AND HasWaiters \<noteq> 0)) (\<lambda>_.
      let d1 = lt_state l AND NOT UnlockWaiter;
          d2 = (if IsEmpty q then d1 AND NOT HasWaiters else d1);
          d3 = d2 AND NOT ListLocked in
      Inr (wakes, l\<lparr>lt_state := d3, lt_waiters := q, lt_workers := ws\<rparr>))))"

text \<open>One round of the second loop of \<open>wakeup\<close>, to the semaphore: unlink a worker and mark it.\<close>

definition wakeup_release :: "WorkerId \<Rightarrow> LockListHead \<Rightarrow> workers \<Rightarrow> (LockListHead \<times> workers) res" where
  "wakeup_release i wakes ws = bindR (Delete i wakes ws) (\<lambda>(wakes1, ws1).
     Inr (wakes1, upd_worker i (\<lambda>w. w\<lparr>wl_lockState := NotWaiting\<rparr>) ws1))"

text \<open>
  \<open>Unlock\<close>: the atomic subtraction with the check of the value it found, and then, for a state word \<open>now\<close>
  that is loaded again, the second assertion and the decision whether to run \<open>wakeup\<close>.
\<close>

definition Unlock_sub :: "LockMode \<Rightarrow> u32 \<Rightarrow> u32 res" where
  "Unlock_sub mode old =
     bindR (if mode = Exclusive then assertR ''old & ExclusiveLockValue'' (old AND ExclusiveLockValue \<noteq> 0) else Inr ()) (\<lambda>_.
     Inr (old - (case mode of Exclusive \<Rightarrow> ExclusiveLockValue | Share \<Rightarrow> SharedLockValue)))"

definition Unlock_check :: "LockMode \<Rightarrow> u32 \<Rightarrow> u32 \<Rightarrow> bool res" where
  "Unlock_check mode old now =
     bindR (assertR ''(this->_state.load() & ExclusiveLockValue) == 0'' (now AND ExclusiveLockValue = 0)) (\<lambda>_.
     let flags = HasWaiters OR UnlockWaiter in
     Inr (old AND flags = flags \<and> (mode = Exclusive \<or> old AND LockCountMask = 1)))"

section \<open>Workers as a transition system\<close>

text \<open>
  Where a worker is inside \<open>Lock\<close> (with the number of spurious semaphore acquires so far) or \<open>Unlock\<close>:
  each access to the state word, the semaphore and the lock state of the worker outside the list lock
  is a step of its own. \<open>Released\<close> is a worker between the subtraction of \<open>Unlock\<close> and the second load of
  the state word, \<open>CheckFailed\<close> one whose assertion on that load has failed, \<open>Failed\<close> one whose other
  assertions have. A failed assertion ends the process; here the others may go on, which only adds
  interleavings.
\<close>

datatype pc =
    Idle
  | TryFirst LockMode nat
  | Queue LockMode nat
  | TryAgain LockMode nat
  | Dequeue LockMode nat
  | DequeueFlag LockMode nat
  | DequeueWait LockMode nat nat
  | DequeueAwake LockMode nat nat
  | Sleep LockMode nat
  | Awake LockMode nat
  | Retry LockMode nat
  | Hold LockMode
  | Released LockMode u32
  | Wake
  | Release LockListHead
  | Post WorkerId LockListHead
  | CheckFailed
  | Failed

record latch_system =
  sys_latch :: LWLatch
  sys_pc :: "WorkerId \<Rightarrow> pc"

definition set_pc :: "WorkerId \<Rightarrow> pc \<Rightarrow> latch_system \<Rightarrow> latch_system" where
  "set_pc w p s = s\<lparr>sys_pc := (sys_pc s)(w := p)\<rparr>"

definition upd_latch :: "(LWLatch \<Rightarrow> LWLatch) \<Rightarrow> latch_system \<Rightarrow> latch_system" where
  "upd_latch f s = s\<lparr>sys_latch := f (sys_latch s)\<rparr>"

definition sema_add :: "WorkerId \<Rightarrow> nat \<Rightarrow> LWLatch \<Rightarrow> LWLatch" where
  "sema_add w n l = l\<lparr>lt_workers := upd_worker w (\<lambda>k. k\<lparr>wl_sema := wl_sema k + n\<rparr>) (lt_workers l)\<rparr>"

definition sema_take :: "WorkerId \<Rightarrow> LWLatch \<Rightarrow> LWLatch" where
  "sema_take w l = l\<lparr>lt_workers := upd_worker w (\<lambda>k. k\<lparr>wl_sema := wl_sema k - 1\<rparr>) (lt_workers l)\<rparr>"

definition set_state :: "u32 \<Rightarrow> LWLatch \<Rightarrow> LWLatch" where "set_state st l = l\<lparr>lt_state := st\<rparr>"

inductive lstep :: "latch_system \<Rightarrow> latch_system \<Rightarrow> bool" where
  call_lock: "sys_pc s w = Idle \<Longrightarrow> w < MaxWorkers \<Longrightarrow> lstep s (set_pc w (TryFirst m 0) s)"
| first_ok: "sys_pc s w = TryFirst m e \<Longrightarrow> attemptLock m (lt_state (sys_latch s)) = (True, st) \<Longrightarrow>
    lstep s (set_pc w (Hold m) (upd_latch (sema_add w e \<circ> set_state st) s))"
| first_busy: "sys_pc s w = TryFirst m e \<Longrightarrow> attemptLock m (lt_state (sys_latch s)) = (False, st) \<Longrightarrow>
    lstep s (set_pc w (Queue m e) (upd_latch (set_state st) s))"
| queue: "sys_pc s w = Queue m e \<Longrightarrow> lstep s (set_pc w (TryAgain m e) (upd_latch (queueSelf w m) s))"
| again_ok: "sys_pc s w = TryAgain m e \<Longrightarrow> attemptLock m (lt_state (sys_latch s)) = (True, st) \<Longrightarrow>
    lstep s (set_pc w (Dequeue m e) (upd_latch (set_state st) s))"
| again_busy: "sys_pc s w = TryAgain m e \<Longrightarrow> attemptLock m (lt_state (sys_latch s)) = (False, st) \<Longrightarrow>
    lstep s (set_pc w (Sleep m e) (upd_latch (set_state st) s))"
| dequeue_self: "sys_pc s w = Dequeue m e \<Longrightarrow> dequeueSelf w (sys_latch s) = Inr (True, l) \<Longrightarrow>
    lstep s (set_pc w (Hold m) (upd_latch (\<lambda>_. sema_add w e l) s))"
| dequeue_woken: "sys_pc s w = Dequeue m e \<Longrightarrow> dequeueSelf w (sys_latch s) = Inr (False, l) \<Longrightarrow>
    lstep s (set_pc w (DequeueFlag m e) (upd_latch (\<lambda>_. l) s))"
| dequeue_fail: "sys_pc s w = Dequeue m e \<Longrightarrow> dequeueSelf w (sys_latch s) = Inl x \<Longrightarrow> lstep s (set_pc w Failed s)"
| dequeue_flag: "sys_pc s w = DequeueFlag m e \<Longrightarrow>
    lstep s (set_pc w (DequeueWait m e 0) (upd_latch (\<lambda>l. set_state (lt_state l OR UnlockWaiter) l) s))"
| dwait_acquire: "sys_pc s w = DequeueWait m e k \<Longrightarrow> wl_sema (lt_workers (sys_latch s) w) > 0 \<Longrightarrow>
    lstep s (set_pc w (DequeueAwake m e k) (upd_latch (sema_take w) s))"
| dwait_done: "sys_pc s w = DequeueAwake m e k \<Longrightarrow> wl_lockState (lt_workers (sys_latch s) w) = NotWaiting \<Longrightarrow>
    lstep s (set_pc w (Hold m) (upd_latch (sema_add w e \<circ> sema_add w k) s))"
| dwait_spurious: "sys_pc s w = DequeueAwake m e k \<Longrightarrow> wl_lockState (lt_workers (sys_latch s) w) \<noteq> NotWaiting \<Longrightarrow>
    lstep s (set_pc w (DequeueWait m e (k + 1)) s)"
| sleep_acquire: "sys_pc s w = Sleep m e \<Longrightarrow> wl_sema (lt_workers (sys_latch s) w) > 0 \<Longrightarrow>
    lstep s (set_pc w (Awake m e) (upd_latch (sema_take w) s))"
| sleep_done: "sys_pc s w = Awake m e \<Longrightarrow> wl_lockState (lt_workers (sys_latch s) w) = NotWaiting \<Longrightarrow>
    lstep s (set_pc w (Retry m e) s)"
| sleep_spurious: "sys_pc s w = Awake m e \<Longrightarrow> wl_lockState (lt_workers (sys_latch s) w) \<noteq> NotWaiting \<Longrightarrow>
    lstep s (set_pc w (Sleep m (e + 1)) s)"
| retry: "sys_pc s w = Retry m e \<Longrightarrow>
    lstep s (set_pc w (TryFirst m e) (upd_latch (\<lambda>l. set_state (lt_state l OR UnlockWaiter) l) s))"
| unlock_sub: "sys_pc s w = Hold m \<Longrightarrow> Unlock_sub m (lt_state (sys_latch s)) = Inr st \<Longrightarrow>
    lstep s (set_pc w (Released m (lt_state (sys_latch s))) (upd_latch (set_state st) s))"
| unlock_fail: "sys_pc s w = Hold m \<Longrightarrow> Unlock_sub m (lt_state (sys_latch s)) = Inl x \<Longrightarrow> lstep s (set_pc w Failed s)"
| unlock_quiet: "sys_pc s w = Released m old \<Longrightarrow> Unlock_check m old (lt_state (sys_latch s)) = Inr False \<Longrightarrow>
    lstep s (set_pc w Idle s)"
| unlock_wake: "sys_pc s w = Released m old \<Longrightarrow> Unlock_check m old (lt_state (sys_latch s)) = Inr True \<Longrightarrow>
    lstep s (set_pc w Wake s)"
| check_fail: "sys_pc s w = Released m old \<Longrightarrow> Unlock_check m old (lt_state (sys_latch s)) = Inl x \<Longrightarrow>
    lstep s (set_pc w CheckFailed s)"
| wake_collect: "sys_pc s w = Wake \<Longrightarrow> wakeup_collect (sys_latch s) = Inr (wakes, l) \<Longrightarrow>
    lstep s (set_pc w (Release wakes) (upd_latch (\<lambda>_. l) s))"
| wake_fail: "sys_pc s w = Wake \<Longrightarrow> wakeup_collect (sys_latch s) = Inl x \<Longrightarrow> lstep s (set_pc w Failed s)"
| release_one: "sys_pc s w = Release wakes \<Longrightarrow> lh_Head wakes = Some i \<Longrightarrow>
    wakeup_release i wakes (lt_workers (sys_latch s)) = Inr (wakes1, ws) \<Longrightarrow>
    lstep s (set_pc w (Post i wakes1) (upd_latch (\<lambda>l. l\<lparr>lt_workers := ws\<rparr>) s))"
| release_post: "sys_pc s w = Post i wakes \<Longrightarrow> lstep s (set_pc w (Release wakes) (upd_latch (sema_add i 1) s))"
| release_fail: "sys_pc s w = Release wakes \<Longrightarrow> lh_Head wakes = Some i \<Longrightarrow>
    wakeup_release i wakes (lt_workers (sys_latch s)) = Inl x \<Longrightarrow> lstep s (set_pc w Failed s)"
| release_done: "sys_pc s w = Release wakes \<Longrightarrow> lh_Head wakes = None \<Longrightarrow> lstep s (set_pc w Idle s)"

definition new_worker :: WorkerLock where
  "new_worker = \<lparr>wl_sema = 1, wl_lockState = NotWaiting, wl_lockMode = Share, wl_Next = None, wl_Prev = None\<rparr>"

definition new_latch :: LWLatch where
  "new_latch = \<lparr>lt_state = UnlockWaiter, lt_waiters = empty_list, lt_workers = (\<lambda>_. new_worker)\<rparr>"

definition latch_init :: latch_system where
  "latch_init = \<lparr>sys_latch = new_latch, sys_pc = (\<lambda>_. Idle)\<rparr>"

inductive latch_reach :: "latch_system \<Rightarrow> bool" where
  init: "latch_reach latch_init"
| step: "latch_reach s \<Longrightarrow> lstep s s' \<Longrightarrow> latch_reach s'"

section \<open>The list of workers\<close>

definition wlist :: "workers \<Rightarrow> LockListHead \<Rightarrow> WorkerId list \<Rightarrow> bool" where
  "wlist ws l xs \<longleftrightarrow> dll (\<lambda>i. wl_Next (ws i)) (\<lambda>i. wl_Prev (ws i)) (lh_Head l) (lh_Tail l) xs"

text \<open>What of a worker is not list structure.\<close>

definition core :: "WorkerLock \<Rightarrow> nat \<times> WorkerLockState \<times> LockMode" where
  "core w = (wl_sema w, wl_lockState w, wl_lockMode w)"

lemma core_eqD: "core w = core w' \<Longrightarrow> wl_sema w = wl_sema w' \<and> wl_lockState w = wl_lockState w' \<and> wl_lockMode w = wl_lockMode w'"
  by (simp add: core_def)

lemma wlist_empty: "wlist ws l [] \<longleftrightarrow> l = empty_list"
  by (cases l) (auto simp: wlist_def dll_def empty_list_def)

lemma wlist_distinct: "wlist ws l xs \<Longrightarrow> distinct xs"
  by (simp add: wlist_def dll_def)

lemma wlist_IsEmpty: "wlist ws l xs \<Longrightarrow> IsEmpty l \<longleftrightarrow> xs = []"
  by (auto simp: wlist_def IsEmpty_def dll_def)

lemma wlist_cong: "wlist ws l xs \<Longrightarrow> (\<And>i. i \<in> set xs \<Longrightarrow> wl_Next (ws' i) = wl_Next (ws i) \<and> wl_Prev (ws' i) = wl_Prev (ws i)) \<Longrightarrow> wlist ws' l xs"
  unfolding wlist_def by (rule dll_cong) auto

lemma PushTail_ok:
  assumes l: "wlist ws l xs" and i: "i \<notin> set xs" and p: "PushTail i l ws = (l', ws')"
  shows "wlist ws' l' (xs @ [i])" "\<And>j. j \<notin> set xs \<Longrightarrow> j \<noteq> i \<Longrightarrow> ws' j = ws j" "\<And>j. core (ws' j) = core (ws j)"
proof -
  have ends: "lh_Head l = hd_opt xs" "lh_Tail l = hd_opt (rev xs)" using l by (auto simp: wlist_def dll_def)
  have "wlist ws' l' (xs @ [i]) \<and> (\<forall>j. j \<notin> set xs \<longrightarrow> j \<noteq> i \<longrightarrow> ws' j = ws j) \<and> (\<forall>j. core (ws' j) = core (ws j))"
  proof (cases "lh_Tail l")
    case None
    then have "xs = []" using ends by simp
    then show ?thesis using p None
      by (auto simp: PushTail_def wlist_def dll_def upd_worker_def core_def Cons_eq_append_conv)
  next
    case (Some t)
    then have t: "t \<in> set xs" using ends hd_opt_in by fastforce
    then have ti: "t \<noteq> i" using i by auto
    have h: "lh_Head l \<noteq> None" using ends t by auto
    have ws': "ws' = upd_worker t (\<lambda>n. n\<lparr>wl_Next := Some i\<rparr>) (upd_worker i (\<lambda>n. n\<lparr>wl_Prev := Some t, wl_Next := None\<rparr>) ws)"
      and l': "l' = l\<lparr>lh_Tail := Some i\<rparr>" using p Some by (auto simp: PushTail_def)
    have "dll (\<lambda>j. wl_Next (ws' j)) (\<lambda>j. wl_Prev (ws' j)) (if lh_Head l = None then Some i else lh_Head l) (Some i) (xs @ [i])"
      by (rule dll_push_back [OF l [unfolded wlist_def] i])
        (use Some ti i in \<open>auto simp: ws' upd_worker_def\<close>)
    then show ?thesis using h t i ti by (auto simp: wlist_def l' ws' upd_worker_def core_def)
  qed
  then show "wlist ws' l' (xs @ [i])" "\<And>j. j \<notin> set xs \<Longrightarrow> j \<noteq> i \<Longrightarrow> ws' j = ws j" "\<And>j. core (ws' j) = core (ws j)"
    by blast+
qed

lemma Delete_ok:
  assumes l: "wlist ws l (as @ i # bs)"
  shows "\<exists>l' ws'. Delete i l ws = Inr (l', ws') \<and> wlist ws' l' (as @ bs) \<and>
    (\<forall>j. j \<notin> set (as @ i # bs) \<longrightarrow> ws' j = ws j) \<and> (\<forall>j. core (ws' j) = core (ws j))"
proof -
  have ends: "lh_Head l = hd_opt (as @ i # bs)" "lh_Tail l = hd_opt (rev (as @ i # bs))" and dis: "distinct (as @ i # bs)"
    using l by (auto simp: wlist_def dll_def)
  have at: "wl_Next (ws i) = hd_opt bs" "wl_Prev (ws i) = hd_opt (rev as)"
    using dll_at [OF l [unfolded wlist_def]] by auto
  define ws1 where "ws1 = (case wl_Prev (ws i) of None \<Rightarrow> ws | Some p \<Rightarrow> upd_worker p (\<lambda>n. n\<lparr>wl_Next := wl_Next (ws i)\<rparr>) ws)"
  define ws2 where "ws2 = (case wl_Next (ws i) of None \<Rightarrow> ws1 | Some n \<Rightarrow> upd_worker n (\<lambda>m. m\<lparr>wl_Prev := wl_Prev (ws i)\<rparr>) ws1)"
  define ws3 where "ws3 = upd_worker i (\<lambda>n. n\<lparr>wl_Next := None, wl_Prev := None\<rparr>) ws2"
  define l' where "l' = l\<lparr>lh_Head := (if lh_Head l = Some i then wl_Next (ws i) else lh_Head l),
      lh_Tail := (if lh_Tail l = Some i then wl_Prev (ws i) else lh_Tail l)\<rparr>"
  have nbs: "wl_Prev (ws i) = Some p \<Longrightarrow> p \<in> set as" "wl_Next (ws i) = Some n \<Longrightarrow> n \<in> set bs" for p n
    using at hd_opt_in by fastforce+
  have head: "lh_Head l = Some i \<longleftrightarrow> wl_Prev (ws i) = None"
    using ends at dis by (cases as) (auto simp: hd_opt_append)
  have tail: "lh_Tail l = Some i \<longleftrightarrow> wl_Next (ws i) = None"
    using ends at dis by (cases bs rule: rev_cases) (auto simp: hd_opt_append)
  have keep: "wl_Next (ws1 i) = wl_Next (ws i)" "wl_Prev (ws1 i) = wl_Prev (ws i)"
    using dis nbs by (auto simp: ws1_def upd_worker_def split: option.splits)
  have eq: "Delete i l ws = Inr (l', ws3)"
    using keep head tail
    by (cases "wl_Prev (ws i)"; cases "wl_Next (ws i)")
      (auto simp: Delete_def ws1_def ws2_def ws3_def l'_def)
  have "dll (\<lambda>j. wl_Next (ws3 j)) (\<lambda>j. wl_Prev (ws3 j)) (if lh_Head l = Some i then wl_Next (ws i) else lh_Head l)
      (if lh_Tail l = Some i then wl_Prev (ws i) else lh_Tail l) (as @ bs)"
    by (rule dll_remove [OF l [unfolded wlist_def]])
      (use dis nbs in \<open>auto simp: ws3_def ws2_def ws1_def upd_worker_def split: option.splits\<close>)
  then have "wlist ws3 l' (as @ bs)" by (simp add: wlist_def l'_def)
  moreover have "\<forall>j. j \<notin> set (as @ i # bs) \<longrightarrow> ws3 j = ws j"
    using nbs by (auto simp: ws3_def ws2_def ws1_def upd_worker_def split: option.splits)
  moreover have "\<forall>j. core (ws3 j) = core (ws j)"
    by (auto simp: ws3_def ws2_def ws1_def upd_worker_def core_def split: option.splits)
  ultimately show ?thesis using eq by blast
qed

section \<open>Whom a release wakes up\<close>

text \<open>
  The specification of \<open>wakeup\<close>: an exclusive waiter at the front is woken alone; otherwise all the
  shared waiters are woken and the exclusive ones stay in their order.
\<close>

fun select_wakes :: "(WorkerId \<Rightarrow> LockMode) \<Rightarrow> bool \<Rightarrow> WorkerId list \<Rightarrow> WorkerId list \<times> WorkerId list" where
  "select_wakes mode woke [] = ([], [])"
| "select_wakes mode woke (x # xs) =
     (if woke \<and> mode x = Exclusive then (case select_wakes mode woke xs of (w, r) \<Rightarrow> (w, x # r))
      else if mode x = Exclusive then ([x], xs)
      else (case select_wakes mode True xs of (w, r) \<Rightarrow> (x # w, r)))"

lemma select_wakes_True:
  "select_wakes mode True xs = (filter (\<lambda>x. mode x \<noteq> Exclusive) xs, filter (\<lambda>x. mode x = Exclusive) xs)"
  by (induction xs) auto

lemma select_wakes_eq:
  "select_wakes mode False xs = (case xs of [] \<Rightarrow> ([], [])
    | x # ys \<Rightarrow> if mode x = Exclusive then ([x], ys)
       else (filter (\<lambda>x. mode x = Share) xs, filter (\<lambda>x. mode x = Exclusive) xs))"
proof -
  have "(mode x \<noteq> Exclusive) = (mode x = Share)" for x by (cases "mode x") auto
  then show ?thesis by (cases xs) (auto simp: select_wakes_True)
qed

lemma select_wakes_set:
  "select_wakes mode woke xs = (w, r) \<Longrightarrow> distinct xs \<Longrightarrow>
    set w \<union> set r = set xs \<and> set w \<inter> set r = {} \<and> distinct w \<and> distinct r"
proof (induction xs arbitrary: woke w r)
  case Nil
  then show ?case by auto
next
  case (Cons x xs)
  obtain w1 r1 where 1: "select_wakes mode woke xs = (w1, r1)" by fastforce
  obtain w2 r2 where 2: "select_wakes mode True xs = (w2, r2)" by fastforce
  have d: "distinct xs" "x \<notin> set xs" using Cons.prems by auto
  show ?case using Cons.IH [OF 1 d(1)] Cons.IH [OF 2 d(1)] Cons.prems(1) d 1 2 by (auto split: if_splits)
qed

lemma select_wakes_mode_cong:
  "(\<And>x. x \<in> set xs \<Longrightarrow> mode x = mode' x) \<Longrightarrow> select_wakes mode woke xs = select_wakes mode' woke xs"
  by (induction xs arbitrary: woke) auto

definition woken_core :: "workers \<Rightarrow> WorkerId set \<Rightarrow> workers \<Rightarrow> bool" where
  "woken_core ws W ws' \<longleftrightarrow> (\<forall>j. wl_sema (ws' j) = wl_sema (ws j) \<and> wl_lockMode (ws' j) = wl_lockMode (ws j) \<and>
     wl_lockState (ws' j) = (if j \<in> W then PendingWakeup else wl_lockState (ws j)))"

lemma woken_core_trans:
  "woken_core ws V ws1 \<Longrightarrow> woken_core ws1 W ws2 \<Longrightarrow> woken_core ws (V \<union> W) ws2"
  by (auto simp: woken_core_def)

lemma wake_one:
  assumes q: "wlist ws q (pre @ x # xs)" and wk: "wlist ws wakes ys"
    and dis: "set (pre @ x # xs) \<inter> set ys = {}" and st: "wl_lockState (ws x) = Waiting"
  shows "\<exists>q1 wakes1 ws1 ws2 ws3. Delete x q ws = Inr (q1, ws1) \<and> PushTail x wakes ws1 = (wakes1, ws2) \<and>
    wl_lockState (ws2 x) = Waiting \<and> ws3 = upd_worker x (\<lambda>w. w\<lparr>wl_lockState := PendingWakeup\<rparr>) ws2 \<and>
    wlist ws3 q1 (pre @ xs) \<and> wlist ws3 wakes1 (ys @ [x]) \<and>
    (\<forall>j. j \<notin> set (pre @ x # xs) \<union> set ys \<longrightarrow> ws3 j = ws j) \<and> woken_core ws {x} ws3"
proof -
  obtain q1 ws1 where d: "Delete x q ws = Inr (q1, ws1)" "wlist ws1 q1 (pre @ xs)"
    "\<forall>j. j \<notin> set (pre @ x # xs) \<longrightarrow> ws1 j = ws j" "\<forall>j. core (ws1 j) = core (ws j)"
    using Delete_ok [OF q] by blast
  have x: "x \<notin> set ys" "x \<notin> set (pre @ xs)" using dis wlist_distinct [OF q] by auto
  have wk1: "wlist ws1 wakes ys" using wk dis d(3) by (intro wlist_cong [OF wk]) auto
  obtain wakes1 ws2 where p: "PushTail x wakes ws1 = (wakes1, ws2)" by fastforce
  note pt = PushTail_ok [OF wk1 x(1) p]
  let ?ws3 = "upd_worker x (\<lambda>w. w\<lparr>wl_lockState := PendingWakeup\<rparr>) ws2"
  have c: "core (ws2 j) = core (ws j)" for j using pt(3) d(4) by simp
  have "wlist ?ws3 q1 (pre @ xs)"
  proof (rule wlist_cong [OF d(2)])
    fix i assume i: "i \<in> set (pre @ xs)"
    then have "i \<notin> set ys" "i \<noteq> x" using x dis by auto
    then show "wl_Next (?ws3 i) = wl_Next (ws1 i) \<and> wl_Prev (?ws3 i) = wl_Prev (ws1 i)"
      using pt(2) by (simp add: upd_worker_def)
  qed
  moreover have "wlist ?ws3 wakes1 (ys @ [x])"
    by (rule wlist_cong [OF pt(1)]) (auto simp: upd_worker_def)
  moreover have "\<forall>j. j \<notin> set (pre @ x # xs) \<union> set ys \<longrightarrow> ?ws3 j = ws j"
    using pt(2) d(3) by (auto simp: upd_worker_def)
  moreover have "woken_core ws {x} ?ws3"
    using core_eqD [OF c] by (auto simp: woken_core_def upd_worker_def)
  moreover have "wl_lockState (ws2 x) = Waiting" using core_eqD [OF c, of x] st by simp
  ultimately show ?thesis using d(1) p by blast
qed

lemma wakeup_loop_ok:
  assumes "wlist ws q (pre @ xs)" "wlist ws wakes ys" "set (pre @ xs) \<inter> set ys = {}"
    "\<forall>x\<in>set xs. wl_lockState (ws x) = Waiting" "length xs \<le> fuel"
    "select_wakes (\<lambda>i. wl_lockMode (ws i)) woke xs = (w, r)"
  shows "\<exists>q' wakes' ws'. wakeup_loop fuel (hd_opt xs) (hd_opt (tl xs)) woke q wakes ws = Inr (q', wakes', ws') \<and>
    wlist ws' q' (pre @ r) \<and> wlist ws' wakes' (ys @ w) \<and>
    (\<forall>j. j \<notin> set (pre @ xs) \<union> set ys \<longrightarrow> ws' j = ws j) \<and> woken_core ws (set w) ws'"
  using assms
proof (induction xs arbitrary: pre ys q wakes ws woke fuel w r)
  case Nil
  then show ?case by (auto simp: woken_core_def)
next
  case (Cons x xs)
  then obtain f where f: "fuel = Suc f" by (cases fuel) auto
  have dq: "distinct (pre @ x # xs)" using wlist_distinct [OF Cons.prems(1)] .
  have nxt: "(case hd_opt xs of None \<Rightarrow> None | Some n \<Rightarrow> wl_Next (ws' n)) = hd_opt (tl xs)"
    if "\<And>n. n \<in> set xs \<Longrightarrow> wl_Next (ws' n) = hd_opt (drop 1 (dropWhile (\<lambda>y. y \<noteq> n) xs))" for ws' :: workers
    using that [of "hd xs"] by (cases xs) auto
  have next_of: "wl_Next (ws' n) = hd_opt (drop 1 (dropWhile (\<lambda>y. y \<noteq> n) xs))"
    if l: "wlist ws' q' (p @ xs)" and n: "n \<in> set xs" for ws' :: workers and q' p n
  proof -
    obtain as bs where s: "xs = as @ n # bs" "n \<notin> set as" using split_list_first [OF n] by blast
    then have "dll (\<lambda>i. wl_Next (ws' i)) (\<lambda>i. wl_Prev (ws' i)) (lh_Head q') (lh_Tail q') ((p @ as) @ n # bs)"
      using l by (simp add: wlist_def)
    from dll_at [OF this] have "wl_Next (ws' n) = hd_opt bs" by simp
    moreover have "dropWhile (\<lambda>y. y \<noteq> n) (as @ n # bs) = n # bs" using s(2) by (subst dropWhile_append2) auto
    ultimately show ?thesis using s by simp
  qed
  show ?case
  proof (cases "woke \<and> wl_lockMode (ws x) = Exclusive")
    case True
    obtain w1 r1 where sel: "select_wakes (\<lambda>i. wl_lockMode (ws i)) woke xs = (w1, r1)" by fastforce
    then have wr: "w = w1" "r = x # r1" using Cons.prems(6) True by auto
    have "wlist ws q ((pre @ [x]) @ xs)" using Cons.prems(1) by simp
    from nxt [OF next_of [OF this]] Cons.IH [OF this Cons.prems(2) _ _ _ sel, of f] Cons.prems(3-5) f True wr
    show ?thesis by simp
  next
    case False
    obtain q1 wakes1 ws1 ws2 ws3 where o1: "Delete x q ws = Inr (q1, ws1)" "PushTail x wakes ws1 = (wakes1, ws2)"
      "wl_lockState (ws2 x) = Waiting" "ws3 = upd_worker x (\<lambda>w. w\<lparr>wl_lockState := PendingWakeup\<rparr>) ws2"
      "wlist ws3 q1 (pre @ xs)" "wlist ws3 wakes1 (ys @ [x])"
      "\<forall>j. j \<notin> set (pre @ x # xs) \<union> set ys \<longrightarrow> ws3 j = ws j" "woken_core ws {x} ws3"
      using wake_one [OF Cons.prems(1,2)] Cons.prems(3,4) by auto
    have mode: "wl_lockMode (ws3 j) = wl_lockMode (ws j)" for j using o1(8) by (simp add: woken_core_def)
    show ?thesis
    proof (cases "wl_lockMode (ws x) = Exclusive")
      case True
      then have "w = [x]" "r = xs" using Cons.prems(6) False by auto
      then show ?thesis using o1 f True False mode [of x] by (auto simp: Let_def)
    next
      case shared: False
      obtain w1 r1 where sel: "select_wakes (\<lambda>i. wl_lockMode (ws3 i)) True xs = (w1, r1)" by fastforce
      then have wr: "w = x # w1" "r = r1" using Cons.prems(6) shared mode by auto
      have st: "\<forall>y\<in>set xs. wl_lockState (ws3 y) = Waiting"
        using o1(8) Cons.prems(4) dq by (auto simp: woken_core_def)
      have dis: "set (pre @ xs) \<inter> set (ys @ [x]) = {}" using Cons.prems(3) dq by auto
      have len: "length xs \<le> f" using Cons.prems(5) f by simp
      obtain q' wakes' ws' where ih: "wakeup_loop f (hd_opt xs) (hd_opt (tl xs)) True q1 wakes1 ws3 = Inr (q', wakes', ws')"
        "wlist ws' q' (pre @ r1)" "wlist ws' wakes' ((ys @ [x]) @ w1)"
        "\<forall>j. j \<notin> set (pre @ xs) \<union> set (ys @ [x]) \<longrightarrow> ws' j = ws3 j" "woken_core ws3 (set w1) ws'"
        using Cons.IH [OF o1(5,6) dis st len sel] by blast
      have "woken_core ws (set w) ws'" using woken_core_trans [OF o1(8) ih(5)] wr by simp
      moreover have "wakeup_loop fuel (hd_opt (x # xs)) (hd_opt (tl (x # xs))) woke q wakes ws = Inr (q', wakes', ws')"
        using o1(1-3) ih(1) f False shared mode [of x] nxt [OF next_of [OF o1(5)]] by (simp add: Let_def o1(4) [symmetric])
      ultimately show ?thesis using ih(2-4) o1(7) wr by auto
    qed
  qed
qed

section \<open>The state word\<close>

definition lock_value :: "LockMode \<Rightarrow> u32" where
  "lock_value m = (case m of Exclusive \<Rightarrow> ExclusiveLockValue | Share \<Rightarrow> SharedLockValue)"

definition count :: "u32 \<Rightarrow> u32" where "count st = take_bit 29 st"
definition waiters_bit :: "u32 \<Rightarrow> bool" where "waiters_bit st = bit st 31"

lemma LockCountMask_eq: "st AND LockCountMask = count st"
  by (simp add: LockCountMask_def ExclusiveLockValue_def count_def take_bit_eq_mask mask_eq_exp_minus_1)

lemma and_HasWaiters: "st AND HasWaiters \<noteq> 0 \<longleftrightarrow> waiters_bit st"
  unfolding HasWaiters_def waiters_bit_def by (simp add: bit_iff_and_push_bit_not_eq_0)

lemma lock_value_bits: "count (lock_value m) = lock_value m" "lock_value m \<noteq> 0" "\<not> waiters_bit (lock_value m)"
  by (cases m; simp add: lock_value_def count_def waiters_bit_def ExclusiveLockValue_def SharedLockValue_def bit_simps)+

lemma bit_flag: "k < 32 \<Longrightarrow> bit (push_bit k 1 :: u32) n \<longleftrightarrow> n = k"
  by (auto simp: bit_simps)

lemma bit_flags:
  "bit UnlockWaiter n \<longleftrightarrow> n = 30" "bit HasWaiters n \<longleftrightarrow> n = 31" "bit ListLocked n \<longleftrightarrow> n = 29"
  "bit ExclusiveLockValue n \<longleftrightarrow> n = 28"
  by (simp_all only: UnlockWaiter_def HasWaiters_def ListLocked_def ExclusiveLockValue_def bit_flag)

lemma flag_bits [simp]:
  "count (st OR UnlockWaiter) = count st" "waiters_bit (st OR UnlockWaiter) = waiters_bit st"
  "count (st OR HasWaiters) = count st" "waiters_bit (st OR HasWaiters)"
  "count (st AND NOT HasWaiters) = count st" "\<not> waiters_bit (st AND NOT HasWaiters)"
  "count (st AND NOT UnlockWaiter) = count st" "waiters_bit (st AND NOT UnlockWaiter) = waiters_bit st"
  "count (st AND NOT ListLocked) = count st" "waiters_bit (st AND NOT ListLocked) = waiters_bit st"
  by (auto simp: count_def waiters_bit_def bit_flags bit_take_bit_iff bit_or_iff bit_and_iff bit_not_iff
      simp del: take_bit_or take_bit_and intro!: bit_eqI)

lemma attemptLock_busy: "count st \<noteq> 0 \<Longrightarrow> attemptLock m st = (False, st)"
  by (cases m) (simp_all add: attemptLock_def LockCountMask_eq)

lemma attemptLock_free:
  assumes "count st = 0"
  shows "attemptLock m st = (True, st OR lock_value m)" "count (st OR lock_value m) = lock_value m"
    "waiters_bit (st OR lock_value m) = waiters_bit st"
proof -
  have "st AND lock_value m = 0"
  proof (rule bit_eqI)
    fix n
    have "bit (lock_value m) n \<Longrightarrow> n < 29"
      using lock_value_bits(1) [of m] unfolding count_def by (metis bit_take_bit_iff)
    moreover have "n < 29 \<Longrightarrow> \<not> bit st n" using assms unfolding count_def by (metis bit_0_eq bit_take_bit_iff bot_apply bot_bool_def)
    ultimately show "bit (st AND lock_value m) n = bit 0 n" by (auto simp: bit_simps)
  qed
  then have "st + lock_value m = st OR lock_value m" by (rule disjunctive_add_eq_or)
  then show "attemptLock m st = (True, st OR lock_value m)"
    using assms by (cases m) (simp_all add: attemptLock_def LockCountMask_eq lock_value_def)
  show "count (st OR lock_value m) = lock_value m"
    using assms lock_value_bits(1) [of m] by (simp add: count_def)
  show "waiters_bit (st OR lock_value m) = waiters_bit st"
    using lock_value_bits(3) [of m] by (simp add: waiters_bit_def bit_simps)
qed

lemma Unlock_sub_ok:
  assumes "count st = lock_value m"
  shows "Unlock_sub m st = Inr (st AND NOT (mask 29))"
    "count (st AND NOT (mask 29)) = 0" "waiters_bit (st AND NOT (mask 29)) = waiters_bit st"
proof -
  have new: "st - lock_value m = st AND NOT (mask 29)"
    using assms by (simp add: and_not_mask_word count_def)
  show c: "count (st AND NOT (mask 29)) = 0" "waiters_bit (st AND NOT (mask 29)) = waiters_bit st"
    by (auto simp: count_def waiters_bit_def bit_simps intro!: bit_eqI)
  have "st AND ExclusiveLockValue \<noteq> 0" if "m = Exclusive"
  proof -
    have "take_bit 29 st = ExclusiveLockValue" using assms that by (simp add: count_def lock_value_def)
    then have "bit (take_bit 29 st) 28" by (simp only: bit_flags)
    then have "bit (st AND ExclusiveLockValue) 28" by (simp only: bit_and_iff bit_flags bit_take_bit_iff)
    then show ?thesis by (metis bit_0_eq bot_apply bot_bool_def)
  qed
  then show "Unlock_sub m st = Inr (st AND NOT (mask 29))"
    using new unfolding Unlock_sub_def lock_value_def [symmetric] Let_def by (cases m) auto
qed

text \<open>The bit of an exclusive holder is in the count, so it is set only while the latch is held exclusively.\<close>

lemma and_Exclusive: "now AND ExclusiveLockValue = count now AND ExclusiveLockValue"
  by (auto simp: count_def bit_flags bit_simps intro!: bit_eqI)

lemma Unlock_check_held: "count now = lock_value Exclusive \<Longrightarrow> \<exists>x. Unlock_check m old now = Inl x"
proof -
  assume c: "count now = lock_value Exclusive"
  have "bit (count now AND ExclusiveLockValue) 28" by (simp add: c lock_value_def bit_and_iff bit_flags)
  then have "now AND ExclusiveLockValue \<noteq> 0" unfolding and_Exclusive [of now] by auto
  then show ?thesis by (simp add: Unlock_check_def assertR_def)
qed

lemma Unlock_check_fails:
  assumes "Unlock_check m old now = Inl x"
  shows "count now \<noteq> 0" "count now \<noteq> lock_value Share"
proof -
  have x: "count now AND ExclusiveLockValue \<noteq> 0"
    using assms unfolding Unlock_check_def and_Exclusive [symmetric] by (auto simp: assertR_def Let_def split: if_splits)
  then show "count now \<noteq> 0" by auto
  have "(1::u32) AND ExclusiveLockValue = 0" by (auto simp: bit_flags bit_simps intro!: bit_eqI)
  then show "count now \<noteq> lock_value Share" using x by (auto simp: lock_value_def SharedLockValue_def)
qed

section \<open>Invariants of the transition system\<close>

definition acquired :: "pc \<Rightarrow> LockMode option" where
  "acquired p = (case p of Hold m \<Rightarrow> Some m | Dequeue m _ \<Rightarrow> Some m | DequeueFlag m _ \<Rightarrow> Some m | DequeueWait m _ _ \<Rightarrow> Some m
     | DequeueAwake m _ _ \<Rightarrow> Some m | _ \<Rightarrow> None)"

definition cinv :: "latch_system \<Rightarrow> bool" where
  "cinv s \<longleftrightarrow>
     (count (lt_state (sys_latch s)) = 0 \<and> (\<forall>w. acquired (sys_pc s w) = None)) \<or>
     (\<exists>w m. acquired (sys_pc s w) = Some m \<and> count (lt_state (sys_latch s)) = lock_value m \<and>
        (\<forall>v. v \<noteq> w \<longrightarrow> acquired (sys_pc s v) = None))"

definition pc_ok :: "pc \<Rightarrow> WorkerLockState \<Rightarrow> bool" where
  "pc_ok p st \<longleftrightarrow> (case p of Failed \<Rightarrow> False | TryAgain _ _ \<Rightarrow> True | Sleep _ _ \<Rightarrow> True | Awake _ _ \<Rightarrow> True | Dequeue _ _ \<Rightarrow> True
     | DequeueFlag _ _ \<Rightarrow> st \<noteq> Waiting | DequeueWait _ _ _ \<Rightarrow> st \<noteq> Waiting | DequeueAwake _ _ _ \<Rightarrow> st \<noteq> Waiting | _ \<Rightarrow> st = NotWaiting)"

definition wakes_of :: "pc \<Rightarrow> LockListHead option" where
  "wakes_of p = (case p of Release q \<Rightarrow> Some q | Post _ q \<Rightarrow> Some q | _ \<Rightarrow> None)"

definition releasing :: "pc \<Rightarrow> bool" where "releasing p \<longleftrightarrow> wakes_of p \<noteq> None"

text \<open>The waiters are \<open>xs\<close>; \<open>Y w\<close> are the workers that worker \<open>w\<close> still has to release.\<close>

definition linv :: "WorkerId list \<Rightarrow> (WorkerId \<Rightarrow> WorkerId list) \<Rightarrow> latch_system \<Rightarrow> bool" where
  "linv xs Y s \<longleftrightarrow>
     wlist (lt_workers (sys_latch s)) (lt_waiters (sys_latch s)) xs \<and>
     (\<forall>w wakes. wakes_of (sys_pc s w) = Some wakes \<longrightarrow> wlist (lt_workers (sys_latch s)) wakes (Y w)) \<and>
     (\<forall>w. \<not> releasing (sys_pc s w) \<longrightarrow> Y w = []) \<and>
     (\<forall>w. set xs \<inter> set (Y w) = {}) \<and> (\<forall>w v. w \<noteq> v \<longrightarrow> set (Y w) \<inter> set (Y v) = {}) \<and>
     (\<forall>i. i \<in> set xs \<longleftrightarrow> wl_lockState (lt_workers (sys_latch s) i) = Waiting) \<and>
     (\<forall>i. (\<exists>w. i \<in> set (Y w)) \<longleftrightarrow> wl_lockState (lt_workers (sys_latch s) i) = PendingWakeup) \<and>
     (\<forall>i. pc_ok (sys_pc s i) (wl_lockState (lt_workers (sys_latch s) i))) \<and>
     (\<forall>i. MaxWorkers \<le> i \<longrightarrow> sys_pc s i = Idle) \<and>
     (waiters_bit (lt_state (sys_latch s)) \<longleftrightarrow> xs \<noteq> [])"

lemma linvD:
  assumes "linv xs Y s"
  shows "wlist (lt_workers (sys_latch s)) (lt_waiters (sys_latch s)) xs"
    "wakes_of (sys_pc s w) = Some wakes \<Longrightarrow> wlist (lt_workers (sys_latch s)) wakes (Y w)"
    "\<not> releasing (sys_pc s w) \<Longrightarrow> Y w = []" "set xs \<inter> set (Y w) = {}" "w \<noteq> v \<Longrightarrow> set (Y w) \<inter> set (Y v) = {}"
    "i \<in> set xs \<longleftrightarrow> wl_lockState (lt_workers (sys_latch s) i) = Waiting"
    "(\<exists>w. i \<in> set (Y w)) \<longleftrightarrow> wl_lockState (lt_workers (sys_latch s) i) = PendingWakeup"
    "pc_ok (sys_pc s i) (wl_lockState (lt_workers (sys_latch s) i))" "MaxWorkers \<le> i \<Longrightarrow> sys_pc s i = Idle"
    "waiters_bit (lt_state (sys_latch s)) \<longleftrightarrow> xs \<noteq> []"
  using assms unfolding linv_def by blast+

lemma linv_bounded:
  assumes "linv xs Y s" "wl_lockState (lt_workers (sys_latch s) i) \<noteq> NotWaiting"
  shows "i < MaxWorkers"
  using linvD(8) [OF assms(1), of i] linvD(9) [OF assms(1), of i] assms(2) by (force simp: pc_ok_def not_le [symmetric])

lemma linv_waiters_length: "linv xs Y s \<Longrightarrow> length xs \<le> MaxWorkers"
proof -
  assume l: "linv xs Y s"
  have "i < MaxWorkers" if "i \<in> set xs" for i
    using linv_bounded [OF l, of i] linvD(6) [OF l, of i] that by auto
  then have "set xs \<subseteq> {..<MaxWorkers}" by auto
  then have "card (set xs) \<le> MaxWorkers" by (metis card_lessThan card_mono finite_lessThan)
  then show ?thesis using distinct_card [OF wlist_distinct [OF linvD(1) [OF l]]] by simp
qed

text \<open>Steps that leave the lists and the lock states alone.\<close>

lemma linv_plain:
  assumes l: "linv xs Y s"
    and lat: "lt_waiters (sys_latch s') = lt_waiters (sys_latch s)"
      "waiters_bit (lt_state (sys_latch s')) = waiters_bit (lt_state (sys_latch s))"
    and ws: "\<And>i. wl_Next (lt_workers (sys_latch s') i) = wl_Next (lt_workers (sys_latch s) i) \<and>
      wl_Prev (lt_workers (sys_latch s') i) = wl_Prev (lt_workers (sys_latch s) i) \<and>
      wl_lockState (lt_workers (sys_latch s') i) = wl_lockState (lt_workers (sys_latch s) i)"
    and pc: "sys_pc s' = (sys_pc s)(w := p)" "Y w = []" "\<not> releasing p"
    and ok: "pc_ok p (wl_lockState (lt_workers (sys_latch s) w))" "w < MaxWorkers"
  shows "linv xs Y s'"
proof -
  have wl: "wlist (lt_workers (sys_latch s')) q zs" if "wlist (lt_workers (sys_latch s)) q zs" for q zs
    by (rule wlist_cong [OF that]) (simp add: ws)
  show ?thesis
    using linvD [OF l] lat ws pc ok wl unfolding linv_def
    by (auto simp: releasing_def split: if_splits)
qed

lemma not_releasing [simp]:
  "\<not> releasing Idle" "\<not> releasing (TryFirst m e)" "\<not> releasing (Queue m e)" "\<not> releasing (TryAgain m e)"
  "\<not> releasing (Dequeue m e)" "\<not> releasing (DequeueWait m e k)" "\<not> releasing (Sleep m e)" "\<not> releasing (Hold m)"
  "\<not> releasing (DequeueFlag m e)" "\<not> releasing (DequeueAwake m e k)" "\<not> releasing (Awake m e)" "\<not> releasing (Retry m e)" "\<not> releasing (Released m st)"
  "\<not> releasing Wake" "\<not> releasing Failed" "\<not> releasing CheckFailed" "releasing (Release q)" "releasing (Post i q)"
  by (simp_all add: releasing_def wakes_of_def)

lemma wakes_of_simps [simp]: "wakes_of (Release q) = Some q" "wakes_of (Post i q) = Some q" "wakes_of Idle = None" "wakes_of (TryAgain m e) = None" "wakes_of (Hold m) = None"
  by (simp_all add: wakes_of_def)

lemma pc_ok_simps [simp]:
  "pc_ok Idle st \<longleftrightarrow> st = NotWaiting" "pc_ok (TryFirst m e) st \<longleftrightarrow> st = NotWaiting" "pc_ok (Queue m e) st \<longleftrightarrow> st = NotWaiting"
  "pc_ok (TryAgain m e) st" "pc_ok (Dequeue m e) st" "pc_ok (DequeueWait m e k) st \<longleftrightarrow> st \<noteq> Waiting" "pc_ok (Sleep m e) st"
  "pc_ok (Hold m) st \<longleftrightarrow> st = NotWaiting" "pc_ok Wake st \<longleftrightarrow> st = NotWaiting" "\<not> pc_ok Failed st"
  "pc_ok (Release q) st \<longleftrightarrow> st = NotWaiting" "pc_ok (Post i q) st \<longleftrightarrow> st = NotWaiting" "pc_ok (Released m old) st \<longleftrightarrow> st = NotWaiting"
  "pc_ok CheckFailed st \<longleftrightarrow> st = NotWaiting" "pc_ok (Awake m e) st" "pc_ok (Retry m e) st \<longleftrightarrow> st = NotWaiting"
  "pc_ok (DequeueFlag m e) st \<longleftrightarrow> st \<noteq> Waiting" "pc_ok (DequeueAwake m e k) st \<longleftrightarrow> st \<noteq> Waiting"
  by (simp_all add: pc_ok_def)

lemma linv_queue:
  assumes l: "linv xs Y s" and pc: "sys_pc s w = Queue m e"
  shows "linv (xs @ [w]) Y (set_pc w (TryAgain m e) (upd_latch (queueSelf w m) s))"
proof -
  let ?l = "sys_latch s" let ?ws = "lt_workers (sys_latch s)"
  define ws1 where "ws1 = upd_worker w (\<lambda>k. k\<lparr>wl_lockState := Waiting, wl_lockMode := m\<rparr>) ?ws"
  obtain q ws2 where p: "PushTail w (lt_waiters ?l) ws1 = (q, ws2)" by fastforce
  have nw: "wl_lockState (?ws w) = NotWaiting" using linvD(8) [OF l, of w] pc by simp
  have wx: "w \<notin> set xs" and wY: "w \<notin> set (Y v)" for v
    using linvD(6) [OF l, of w] linvD(7) [OF l, of w] nw by auto
  have l1: "wlist ws1 (lt_waiters ?l) xs"
    by (rule wlist_cong [OF linvD(1) [OF l]]) (simp add: ws1_def upd_worker_def)
  note pt = PushTail_ok [OF l1 wx p]
  have st: "wl_lockState (ws2 i) = (if i = w then Waiting else wl_lockState (?ws i))" for i
    using core_eqD [OF pt(3) [of i]] by (auto simp: ws1_def upd_worker_def)
  have other: "wlist ws2 wakes (Y v)" if "wakes_of (sys_pc s v) = Some wakes" for v wakes
  proof (rule wlist_cong [OF linvD(2) [OF l that]])
    fix i assume "i \<in> set (Y v)"
    then have "i \<notin> set xs" "i \<noteq> w" using linvD(4) [OF l, of v] wY by auto
    then show "wl_Next (ws2 i) = wl_Next (?ws i) \<and> wl_Prev (ws2 i) = wl_Prev (?ws i)"
      using pt(2) [of i] by (simp add: ws1_def upd_worker_def)
  qed
  have wM: "w < MaxWorkers" using linvD(9) [OF l, of w] pc by (cases "MaxWorkers \<le> w") auto
  have latch: "sys_latch (set_pc w (TryAgain m e) (upd_latch (queueSelf w m) s)) =
      ?l\<lparr>lt_state := lt_state ?l OR HasWaiters, lt_waiters := q, lt_workers := ws2\<rparr>"
    by (simp add: set_pc_def upd_latch_def queueSelf_def ws1_def [symmetric] p)
  have pcs: "sys_pc (set_pc w (TryAgain m e) (upd_latch (queueSelf w m) s)) = (sys_pc s)(w := TryAgain m e)"
    by (simp add: set_pc_def upd_latch_def)
  show ?thesis
    unfolding linv_def latch pcs
    using linvD [OF l] pt(1) other st wx wY wM nw pc by auto
qed

lemma linv_dequeue:
  assumes l: "linv xs Y s" and pc: "sys_pc s w = Dequeue m e"
  shows "\<exists>b l1 xs1. dequeueSelf w (sys_latch s) = Inr (b, l1) \<and> count (lt_state l1) = count (lt_state (sys_latch s)) \<and>
    (if b then linv xs1 Y (set_pc w (Hold m) (upd_latch (\<lambda>_. sema_add w e l1) s))
     else linv xs1 Y (set_pc w (DequeueFlag m e) (upd_latch (\<lambda>_. l1) s)))"
proof -
  let ?l = "sys_latch s" let ?ws = "lt_workers (sys_latch s)"
  have Yw: "Y w = []" using linvD(3) [OF l, of w] pc by simp
  have wM: "w < MaxWorkers" using linvD(9) [OF l, of w] pc by (cases "MaxWorkers \<le> w") auto
  show ?thesis
  proof (cases "wl_lockState (?ws w) = Waiting")
    case True
    then have "w \<in> set xs" using linvD(6) [OF l] by simp
    then obtain as bs where xs: "xs = as @ w # bs" by (meson split_list)
    obtain q ws1 where d: "Delete w (lt_waiters ?l) ?ws = Inr (q, ws1)" "wlist ws1 q (as @ bs)"
      "\<forall>j. j \<notin> set xs \<longrightarrow> ws1 j = ?ws j" "\<forall>j. core (ws1 j) = core (?ws j)"
      using Delete_ok linvD(1) [OF l] unfolding xs by blast
    define st where "st = (if IsEmpty q \<and> lt_state ?l AND HasWaiters \<noteq> 0 then lt_state ?l AND NOT HasWaiters else lt_state ?l)"
    define ws2 where "ws2 = upd_worker w (\<lambda>k. k\<lparr>wl_lockState := NotWaiting\<rparr>) ws1"
    define l1 where "l1 = ?l\<lparr>lt_state := st, lt_waiters := q, lt_workers := ws2\<rparr>"
    have eq: "dequeueSelf w ?l = Inr (True, l1)"
      using True d(1) by (simp add: dequeueSelf_def l1_def st_def ws2_def Let_def)
    have wb: "waiters_bit st \<longleftrightarrow> as @ bs \<noteq> []"
      using wlist_IsEmpty [OF d(2)] linvD(10) [OF l] xs by (auto simp: st_def and_HasWaiters)
    have cnt: "count st = count (lt_state ?l)" by (simp add: st_def)
    have ls: "wl_lockState (ws2 i) = (if i = w then NotWaiting else wl_lockState (?ws i))" for i
      using core_eqD [OF d(4) [rule_format, of i]] by (simp add: ws2_def upd_worker_def)
    define ws3 where "ws3 = upd_worker w (\<lambda>k. k\<lparr>wl_sema := wl_sema k + e\<rparr>) ws2"
    have ls3: "wl_lockState (ws3 i) = (if i = w then NotWaiting else wl_lockState (?ws i))" for i
      using ls by (auto simp: ws3_def upd_worker_def)
    have wq: "wlist ws3 q (as @ bs)"
      by (rule wlist_cong [OF d(2)]) (simp add: ws3_def ws2_def upd_worker_def)
    have other: "wlist ws3 wakes (Y v)" if "wakes_of (sys_pc s v) = Some wakes" for v wakes
    proof (rule wlist_cong [OF linvD(2) [OF l that]])
      fix i assume "i \<in> set (Y v)"
      then have "i \<notin> set xs" using linvD(4) [OF l, of v] by auto
      then show "wl_Next (ws3 i) = wl_Next (?ws i) \<and> wl_Prev (ws3 i) = wl_Prev (?ws i)"
        using d(3) by (auto simp: ws3_def ws2_def upd_worker_def)
    qed
    have dis: "distinct xs" using wlist_distinct [OF linvD(1) [OF l]] .
    have wait: "j \<in> set (as @ bs) \<longleftrightarrow> wl_lockState (ws3 j) = Waiting" for j
      using linvD(6) [OF l, of j] ls3 [of j] xs dis by auto
    have pend: "(\<exists>v. j \<in> set (Y v)) \<longleftrightarrow> wl_lockState (ws3 j) = PendingWakeup" for j
      using linvD(7) [OF l, of j] ls3 [of j] True by auto
    have ok: "pc_ok (((sys_pc s)(w := Hold m)) j) (wl_lockState (ws3 j))" for j
      using linvD(8) [OF l, of j] ls3 [of j] by auto
    have sub: "set (as @ bs) \<inter> set (Y v) = {}" for v using linvD(4) [OF l, of v] xs by auto
    have "linv (as @ bs) Y (set_pc w (Hold m) (upd_latch (\<lambda>_. sema_add w e l1) s))"
      unfolding linv_def
      using linvD(3,5,9) [OF l] wq other wb wait pend ok sub wM Yw
      by (auto simp: set_pc_def upd_latch_def sema_add_def l1_def ws3_def [symmetric])
    then show ?thesis using eq cnt by (intro exI [of _ True] exI [of _ l1]) (auto simp: l1_def)
  next
    case False
    define st where "st = (if IsEmpty (lt_waiters ?l) \<and> lt_state ?l AND HasWaiters \<noteq> 0 then lt_state ?l AND NOT HasWaiters else lt_state ?l)"
    define l1 where "l1 = ?l\<lparr>lt_state := st\<rparr>"
    have eq: "dequeueSelf w ?l = Inr (False, l1)"
      using False by (simp add: dequeueSelf_def l1_def st_def Let_def)
    have wb: "waiters_bit st \<longleftrightarrow> waiters_bit (lt_state ?l)"
      using wlist_IsEmpty [OF linvD(1) [OF l]] linvD(10) [OF l] by (auto simp: st_def)
    have "linv xs Y (set_pc w (DequeueFlag m e) (upd_latch (\<lambda>_. l1) s))"
      by (rule linv_plain [OF l, of _ w "DequeueFlag m e"])
        (use False Yw wM wb in \<open>auto simp: set_pc_def upd_latch_def l1_def\<close>)
    then show ?thesis using eq by (intro exI [of _ False] exI [of _ l1]) (auto simp: l1_def st_def)
  qed
qed

lemma wlist_first: "wlist ws l xs \<Longrightarrow> lh_Head l = hd_opt xs"
  by (simp add: wlist_def dll_def)

lemma wlist_second: "wlist ws l (x # xs) \<Longrightarrow> wl_Next (ws x) = hd_opt xs"
  using dll_at [of _ _ _ _ "[]" x xs] by (auto simp: wlist_def)

lemma wakeup_collect_ok:
  assumes wl: "wlist (lt_workers l) (lt_waiters l) xs" and len: "length xs \<le> MaxWorkers"
    and st: "\<forall>x\<in>set xs. wl_lockState (lt_workers l x) = Waiting" and wb: "waiters_bit (lt_state l) \<longleftrightarrow> xs \<noteq> []"
    and sel: "select_wakes (\<lambda>i. wl_lockMode (lt_workers l i)) False xs = (w, r)"
  shows "\<exists>wakes l1. wakeup_collect l = Inr (wakes, l1) \<and> wlist (lt_workers l1) (lt_waiters l1) r \<and>
    wlist (lt_workers l1) wakes w \<and> woken_core (lt_workers l) (set w) (lt_workers l1) \<and>
    (\<forall>j. j \<notin> set xs \<longrightarrow> lt_workers l1 j = lt_workers l j) \<and>
    count (lt_state l1) = count (lt_state l) \<and> (waiters_bit (lt_state l1) \<longleftrightarrow> r \<noteq> [])"
proof -
  have hd: "lh_Head (lt_waiters l) = hd_opt xs" using wlist_first [OF wl] .
  have nx: "(case hd_opt xs of None \<Rightarrow> None | Some h \<Rightarrow> wl_Next (lt_workers l h)) = hd_opt (tl xs)"
    using wl by (cases xs) (auto dest: wlist_second)
  obtain q' wakes' ws' where lp: "wakeup_loop MaxWorkers (hd_opt xs) (hd_opt (tl xs)) False (lt_waiters l) empty_list (lt_workers l)
      = Inr (q', wakes', ws')" "wlist ws' q' r" "wlist ws' wakes' w" "\<forall>j. j \<notin> set xs \<longrightarrow> ws' j = lt_workers l j"
      "woken_core (lt_workers l) (set w) ws'"
    using wakeup_loop_ok [of "lt_workers l" "lt_waiters l" "[]" xs empty_list "[]" MaxWorkers False w r] wl st len sel
    by (auto simp: wlist_empty)
  have sets: "set w \<union> set r = set xs" using select_wakes_set [OF sel] wlist_distinct [OF wl] by auto
  have as: "IsEmpty wakes' \<or> lt_state l AND HasWaiters \<noteq> 0"
    using wlist_IsEmpty [OF lp(3)] wb sets by (auto simp: and_HasWaiters)
  have "r \<noteq> [] \<Longrightarrow> waiters_bit (lt_state l)" using wb sets by auto
  then show ?thesis
    using lp as wlist_IsEmpty [OF lp(2)] by (auto simp: wakeup_collect_def hd nx Let_def)
qed

lemma linv_wake:
  assumes l: "linv xs Y s" and pc: "sys_pc s w = Wake"
  shows "\<exists>wakes l1 xs1 Y1. wakeup_collect (sys_latch s) = Inr (wakes, l1) \<and> count (lt_state l1) = count (lt_state (sys_latch s)) \<and>
    linv xs1 Y1 (set_pc w (Release wakes) (upd_latch (\<lambda>_. l1) s))"
proof -
  let ?ws = "lt_workers (sys_latch s)"
  obtain wk r where sel: "select_wakes (\<lambda>i. wl_lockMode (?ws i)) False xs = (wk, r)" by fastforce
  have st: "\<forall>x\<in>set xs. wl_lockState (?ws x) = Waiting" using linvD(6) [OF l] by auto
  obtain wakes l1 where c: "wakeup_collect (sys_latch s) = Inr (wakes, l1)" "wlist (lt_workers l1) (lt_waiters l1) r"
    "wlist (lt_workers l1) wakes wk" "woken_core ?ws (set wk) (lt_workers l1)"
    "\<forall>j. j \<notin> set xs \<longrightarrow> lt_workers l1 j = ?ws j" "count (lt_state l1) = count (lt_state (sys_latch s))"
    "waiters_bit (lt_state l1) \<longleftrightarrow> r \<noteq> []"
    using wakeup_collect_ok [OF linvD(1) [OF l] linv_waiters_length [OF l] st linvD(10) [OF l] sel] by blast
  have sets: "set wk \<union> set r = set xs" "set wk \<inter> set r = {}"
    using select_wakes_set [OF sel] wlist_distinct [OF linvD(1) [OF l]] by auto
  have Yw: "Y w = []" using linvD(3) [OF l, of w] pc by simp
  have wM: "w < MaxWorkers" using linvD(9) [OF l, of w] pc by (cases "MaxWorkers \<le> w") auto
  have ls: "wl_lockState (lt_workers l1 i) = (if i \<in> set wk then PendingWakeup else wl_lockState (?ws i))" for i
    using c(4) by (simp add: woken_core_def)
  have wx: "w \<notin> set xs" using linvD(6) [OF l, of w] linvD(8) [OF l, of w] pc by auto
  have other: "wlist (lt_workers l1) q (Y v)" if "wakes_of (sys_pc s v) = Some q" for v q
    by (rule wlist_cong [OF linvD(2) [OF l that]]) (use c(5) linvD(4) [OF l, of v] in auto)
  have dis: "set r \<inter> set ((Y(w := wk)) v) = {}" "v \<noteq> u \<Longrightarrow> set ((Y(w := wk)) v) \<inter> set ((Y(w := wk)) u) = {}" for v u
    using sets linvD(4) [OF l, of v] linvD(4) [OF l, of u] linvD(5) [OF l, of v u] by (auto split: if_splits)
  have wait: "i \<in> set r \<longleftrightarrow> wl_lockState (lt_workers l1 i) = Waiting" for i
    using ls linvD(6) [OF l, of i] sets by auto
  have pend: "(\<exists>v. i \<in> set ((Y(w := wk)) v)) \<longleftrightarrow> wl_lockState (lt_workers l1 i) = PendingWakeup" for i
  proof -
    have "(\<exists>v. i \<in> set ((Y(w := wk)) v)) \<longleftrightarrow> i \<in> set wk \<or> (\<exists>v. i \<in> set (Y v))"
      using Yw by (metis empty_iff fun_upd_other fun_upd_same list.set(1))
    then show ?thesis using linvD(7) [OF l, of i] ls by auto
  qed
  have ok: "pc_ok (((sys_pc s)(w := Release wakes)) i) (wl_lockState (lt_workers l1 i))" for i
  proof (cases "i \<in> set wk")
    case True
    then have "wl_lockState (?ws i) = Waiting" "i \<noteq> w" using sets st wx by auto
    then show ?thesis using True linvD(8) [OF l, of i] ls by (cases "sys_pc s i") auto
  next
    case False
    then show ?thesis using linvD(8) [OF l, of i] pc ls by (cases "i = w") auto
  qed
  have "linv r (Y(w := wk)) (set_pc w (Release wakes) (upd_latch (\<lambda>_. l1) s))"
    unfolding linv_def
    using c(2,3,7) other dis wait pend ok linvD(3,9) [OF l] wM by (auto simp: set_pc_def upd_latch_def)
  then show ?thesis using c(1,6) by blast
qed

lemma linv_release:
  assumes l: "linv xs Y s" and pc: "sys_pc s w = Release wakes" and h: "lh_Head wakes = Some i"
  shows "\<exists>wakes1 ws Y1. wakeup_release i wakes (lt_workers (sys_latch s)) = Inr (wakes1, ws) \<and>
    linv xs Y1 (set_pc w (Post i wakes1) (upd_latch (\<lambda>l. l\<lparr>lt_workers := ws\<rparr>) s))"
proof -
  let ?ws = "lt_workers (sys_latch s)"
  have wl: "wlist ?ws wakes (Y w)" using linvD(2) [OF l, of w wakes] pc by simp
  then obtain ys where Yw: "Y w = i # ys" using wlist_first [OF wl] h by (cases "Y w") auto
  obtain wakes1 ws1 where d: "Delete i wakes ?ws = Inr (wakes1, ws1)" "wlist ws1 wakes1 ys"
    "\<forall>j. j \<notin> set (i # ys) \<longrightarrow> ws1 j = ?ws j" "\<forall>j. core (ws1 j) = core (?ws j)"
    using Delete_ok [of ?ws wakes "[]" i ys] wl Yw by auto
  define ws2 where "ws2 = upd_worker i (\<lambda>k. k\<lparr>wl_lockState := NotWaiting\<rparr>) ws1"
  have eq: "wakeup_release i wakes ?ws = Inr (wakes1, ws2)" using d(1) by (simp add: wakeup_release_def ws2_def)
  have ls: "wl_lockState (ws2 j) = (if j = i then NotWaiting else wl_lockState (?ws j))" for j
    using core_eqD [OF d(4) [rule_format, of j]] by (simp add: ws2_def upd_worker_def)
  have links: "wl_Next (ws2 j) = wl_Next (ws1 j) \<and> wl_Prev (ws2 j) = wl_Prev (ws1 j)" for j
    by (simp add: ws2_def upd_worker_def)
  have pend_i: "wl_lockState (?ws i) = PendingWakeup" using linvD(7) [OF l, of i] Yw by (metis list.set_intros(1))
  have xs: "wlist ws2 (lt_waiters (sys_latch s)) xs"
  proof (rule wlist_cong [OF linvD(1) [OF l]])
    fix j assume "j \<in> set xs"
    then have "j \<notin> set (i # ys)" using linvD(4) [OF l, of w] Yw by auto
    then show "wl_Next (ws2 j) = wl_Next (?ws j) \<and> wl_Prev (ws2 j) = wl_Prev (?ws j)" using links d(3) by auto
  qed
  have other: "wlist ws2 q (Y v)" if "wakes_of (sys_pc s v) = Some q" "v \<noteq> w" for v q
  proof (rule wlist_cong [OF linvD(2) [OF l that(1)]])
    fix j assume "j \<in> set (Y v)"
    then have "j \<notin> set (i # ys)" using linvD(5) [OF l that(2)] Yw by auto
    then show "wl_Next (ws2 j) = wl_Next (?ws j) \<and> wl_Prev (ws2 j) = wl_Prev (?ws j)" using links d(3) by auto
  qed
  have mine: "wlist ws2 wakes1 ys" by (rule wlist_cong [OF d(2)]) (use links in auto)
  have dY: "distinct (i # ys)" using wlist_distinct [OF wl] Yw by simp
  have wait: "j \<in> set xs \<longleftrightarrow> wl_lockState (ws2 j) = Waiting" for j
    using ls linvD(6) [OF l, of j] pend_i by auto
  have pend: "(\<exists>v. j \<in> set ((Y(w := ys)) v)) \<longleftrightarrow> wl_lockState (ws2 j) = PendingWakeup" for j
  proof (cases "j = i")
    case True
    have "i \<notin> set ((Y(w := ys)) v)" for v
      using dY linvD(5) [OF l, of v w] Yw by (cases "v = w") auto
    then show ?thesis using True ls by auto
  next
    case False
    have "j \<in> set ((Y(w := ys)) v) \<longleftrightarrow> j \<in> set (Y v)" for v using False Yw by auto
    then show ?thesis using False ls linvD(7) [OF l, of j] by auto
  qed
  have ok: "pc_ok (((sys_pc s)(w := Post i wakes1)) j) (wl_lockState (ws2 j))" for j
    using linvD(8) [OF l, of j] pc ls pend_i by (cases "sys_pc s j") (auto split: if_splits)
  have dis: "set xs \<inter> set ((Y(w := ys)) v) = {}" "v \<noteq> u \<Longrightarrow> set ((Y(w := ys)) v) \<inter> set ((Y(w := ys)) u) = {}" for v u
    using linvD(4) [OF l, of v] linvD(5) [OF l, of v u] Yw by (auto split: if_splits)
  have wM: "w < MaxWorkers" using linvD(9) [OF l, of w] pc by (cases "MaxWorkers \<le> w") auto
  have "linv xs (Y(w := ys)) (set_pc w (Post i wakes1) (upd_latch (\<lambda>l. l\<lparr>lt_workers := ws2\<rparr>) s))"
    unfolding linv_def
    using xs other mine dis wait pend ok linvD(3,9,10) [OF l] wM by (auto simp: set_pc_def upd_latch_def)
  then show ?thesis using eq by blast
qed

lemma linv_release_done:
  assumes l: "linv xs Y s" and pc: "sys_pc s w = Release wakes" and h: "lh_Head wakes = None"
  shows "linv xs Y (set_pc w Idle s)"
proof -
  have "Y w = []" using wlist_first [OF linvD(2) [OF l, of w wakes]] pc h by simp
  moreover have "w < MaxWorkers" using linvD(9) [OF l, of w] pc by (cases "MaxWorkers \<le> w") auto
  moreover have "wl_lockState (lt_workers (sys_latch s) w) = NotWaiting" using linvD(8) [OF l, of w] pc by simp
  ultimately show ?thesis
    by (intro linv_plain [OF l, of _ w Idle]) (auto simp: set_pc_def)
qed

lemma linv_post:
  assumes l: "linv xs Y s" and pc: "sys_pc s w = Post i wakes"
  shows "linv xs Y (set_pc w (Release wakes) (upd_latch (sema_add i 1) s))"
proof -
  define s1 where "s1 = set_pc w (Release wakes) (upd_latch (sema_add i 1) s)"
  have links: "wl_Next (lt_workers (sys_latch s1) j) = wl_Next (lt_workers (sys_latch s) j) \<and> wl_Prev (lt_workers (sys_latch s1) j) = wl_Prev (lt_workers (sys_latch s) j) \<and>
      wl_lockState (lt_workers (sys_latch s1) j) = wl_lockState (lt_workers (sys_latch s) j)" for j
    by (simp add: s1_def set_pc_def upd_latch_def sema_add_def upd_worker_def)
  have wl: "wlist (lt_workers (sys_latch s1)) q zs" if "wlist (lt_workers (sys_latch s)) q zs" for q zs
    by (rule wlist_cong [OF that]) (simp add: links)
  have st: "sys_pc s1 = (sys_pc s)(w := Release wakes)" "lt_waiters (sys_latch s1) = lt_waiters (sys_latch s)" "lt_state (sys_latch s1) = lt_state (sys_latch s)"
    by (simp_all add: s1_def set_pc_def upd_latch_def sema_add_def)
  have "w < MaxWorkers" "wlist (lt_workers (sys_latch s)) wakes (Y w)" "wl_lockState (lt_workers (sys_latch s) w) = NotWaiting"
    using linvD(9) [OF l, of w] linvD(2) [OF l, of w wakes] linvD(8) [OF l, of w] pc by (cases "MaxWorkers \<le> w"; simp)+
  then show ?thesis unfolding s1_def [symmetric] linv_def st using linvD [OF l] links wl by (auto split: if_splits)
qed

section \<open>Mutual exclusion\<close>

lemma acquired_simps [simp]:
  "acquired Idle = None" "acquired (TryFirst m e) = None" "acquired (Queue m e) = None" "acquired (TryAgain m e) = None"
  "acquired (Awake m e) = None" "acquired (Retry m e) = None" "acquired (Released m old) = None" "acquired CheckFailed = None" "acquired (Post i q) = None"
  "acquired (DequeueFlag m e) = Some m" "acquired (DequeueAwake m e k) = Some m"
  "acquired (Sleep m e) = None" "acquired Wake = None" "acquired (Release q) = None" "acquired Failed = None"
  "acquired (Hold m) = Some m" "acquired (Dequeue m e) = Some m" "acquired (DequeueWait m e k) = Some m"
  by (simp_all add: acquired_def)

lemma cinv_keep:
  assumes "cinv s" "acquired p = acquired (sys_pc s w)" "count (lt_state (sys_latch s')) = count (lt_state (sys_latch s))"
    "sys_pc s' = (sys_pc s)(w := p)"
  shows "cinv s'"
proof -
  have "acquired (sys_pc s' v) = acquired (sys_pc s v)" for v using assms(2,4) by simp
  then show ?thesis using assms(1,3) by (simp add: cinv_def)
qed

lemma cinv_acquire:
  assumes "cinv s" "count (lt_state (sys_latch s)) = 0" "count (lt_state (sys_latch s')) = lock_value m"
    "acquired p = Some m" "sys_pc s' = (sys_pc s)(w := p)"
  shows "cinv s'"
proof -
  have "\<forall>v. acquired (sys_pc s v) = None"
    using assms(1,2) lock_value_bits(2) by (auto simp: cinv_def)
  then show ?thesis using assms(3-5) by (auto simp: cinv_def intro!: exI [of _ w])
qed

lemma cinv_holder: "cinv s \<Longrightarrow> acquired (sys_pc s w) = Some m \<Longrightarrow>
    count (lt_state (sys_latch s)) = lock_value m \<and> (\<forall>v. v \<noteq> w \<longrightarrow> acquired (sys_pc s v) = None)"
  unfolding cinv_def by (metis option.distinct(1) option.inject)

lemma cinv_release:
  assumes "cinv s" "acquired (sys_pc s w) = Some m" "count (lt_state (sys_latch s')) = 0"
    "acquired p = None" "sys_pc s' = (sys_pc s)(w := p)"
  shows "cinv s'"
  using cinv_holder [OF assms(1,2)] assms(3-5) by (auto simp: cinv_def)

definition latch_inv :: "latch_system \<Rightarrow> bool" where
  "latch_inv s \<longleftrightarrow> cinv s \<and> (\<exists>xs Y. linv xs Y s)"

lemmas sys_defs = set_pc_def upd_latch_def set_state_def sema_add_def sema_take_def upd_worker_def

lemma latch_inv_init: "latch_inv latch_init"
proof -
  have "linv [] (\<lambda>_. []) latch_init"
    by (auto simp: linv_def latch_init_def new_latch_def new_worker_def wlist_empty waiters_bit_def bit_flags)
  moreover have "count UnlockWaiter = 0"
    by (auto simp: count_def bit_flags bit_take_bit_iff intro!: bit_eqI)
  ultimately show ?thesis by (auto simp: latch_inv_def cinv_def latch_init_def new_latch_def)
qed

lemma latch_inv_plain:
  assumes "linv xs Y s" "sys_pc s w = p0" "\<not> releasing p0" "cinv s'" "sys_pc s' = (sys_pc s)(w := p)"
    "lt_waiters (sys_latch s') = lt_waiters (sys_latch s)"
    "waiters_bit (lt_state (sys_latch s')) = waiters_bit (lt_state (sys_latch s))"
    "\<And>i. wl_Next (lt_workers (sys_latch s') i) = wl_Next (lt_workers (sys_latch s) i) \<and>
      wl_Prev (lt_workers (sys_latch s') i) = wl_Prev (lt_workers (sys_latch s) i) \<and>
      wl_lockState (lt_workers (sys_latch s') i) = wl_lockState (lt_workers (sys_latch s) i)"
    "\<not> releasing p" "pc_ok p (wl_lockState (lt_workers (sys_latch s) w))" "w < MaxWorkers"
  shows "latch_inv s'"
  using linv_plain [OF assms(1,6,7,8,5) linvD(3) [OF assms(1), of w] assms(9-11)] assms(2-4)
  by (auto simp: latch_inv_def)

lemma latch_inv_step: "latch_inv s \<Longrightarrow> lstep s s' \<Longrightarrow> latch_inv s'"
proof -
  assume inv: "latch_inv s" and st: "lstep s s'"
  obtain xs Y where c: "cinv s" and l: "linv xs Y s" using inv by (auto simp: latch_inv_def)
  have wM: "w < MaxWorkers" if "sys_pc s w = p" "p \<noteq> Idle" for w p
    using linvD(9) [OF l, of w] that by (cases "MaxWorkers \<le> w") auto
  have ok: "pc_ok (sys_pc s w) (wl_lockState (lt_workers (sys_latch s) w))" for w using linvD(8) [OF l] .
  have att: "if b then count (lt_state (sys_latch s)) = 0 \<and> count st1 = lock_value m \<and> waiters_bit st1 = waiters_bit (lt_state (sys_latch s))
      else st1 = lt_state (sys_latch s)"
    if "attemptLock m (lt_state (sys_latch s)) = (b, st1)" for m b st1
    using that attemptLock_free [of "lt_state (sys_latch s)" m] attemptLock_busy [of "lt_state (sys_latch s)" m]
    by (cases "count (lt_state (sys_latch s)) = 0") auto
  have unl: "\<exists>st1. Unlock_sub m (lt_state (sys_latch s)) = Inr st1 \<and> count st1 = 0 \<and> waiters_bit st1 = waiters_bit (lt_state (sys_latch s))"
    if "sys_pc s w = Hold m" for w m
    using cinv_holder [OF c, of w m] that Unlock_sub_ok [of "lt_state (sys_latch s)" m] by auto
  from st show ?thesis
  proof cases
    case (call_lock w m)
    then show ?thesis using ok [of w]
      by (intro latch_inv_plain [OF l, of w Idle _ "TryFirst m 0"] cinv_keep [OF c, of "TryFirst m 0" w]) (auto simp: sys_defs)
  next
    case (first_ok w m e st)
    then show ?thesis using ok [of w] wM att [of m True st]
      by (intro latch_inv_plain [OF l, of w "TryFirst m e" _ "Hold m"] cinv_acquire [OF c, of _ m "Hold m" w]) (auto simp: sys_defs)
  next
    case (first_busy w m e st)
    then show ?thesis using ok [of w] wM att [of m False st]
      by (intro latch_inv_plain [OF l, of w "TryFirst m e" _ "Queue m e"] cinv_keep [OF c, of "Queue m e" w]) (auto simp: sys_defs)
  next
    case (queue w m e)
    have "count (lt_state (queueSelf w m (sys_latch s))) = count (lt_state (sys_latch s))"
      by (simp add: queueSelf_def Let_def split: prod.splits)
    then have "cinv s'" using queue by (intro cinv_keep [OF c, of "TryAgain m e" w]) (auto simp: set_pc_def upd_latch_def)
    then show ?thesis using linv_queue [OF l queue(2)] queue(1) by (auto simp: latch_inv_def)
  next
    case (again_ok w m e st)
    then show ?thesis using ok [of w] wM att [of m True st]
      by (intro latch_inv_plain [OF l, of w "TryAgain m e" _ "Dequeue m e"] cinv_acquire [OF c, of _ m "Dequeue m e" w]) (auto simp: sys_defs)
  next
    case (again_busy w m e st)
    then show ?thesis using ok [of w] wM att [of m False st]
      by (intro latch_inv_plain [OF l, of w "TryAgain m e" _ "Sleep m e"] cinv_keep [OF c, of "Sleep m e" w]) (auto simp: sys_defs)
  next
    case (dequeue_self w m e l1)
    then obtain xs1 where "count (lt_state l1) = count (lt_state (sys_latch s))" "linv xs1 Y s'"
      using linv_dequeue [OF l dequeue_self(2)] by auto
    moreover from this(1) have "cinv s'"
      using dequeue_self by (intro cinv_keep [OF c, of "Hold m" w]) (auto simp: set_pc_def upd_latch_def sema_add_def)
    ultimately show ?thesis unfolding latch_inv_def by blast
  next
    case (dequeue_woken w m e l1)
    then obtain xs1 where "count (lt_state l1) = count (lt_state (sys_latch s))" "linv xs1 Y s'"
      using linv_dequeue [OF l dequeue_woken(2)] by auto
    moreover from this(1) have "cinv s'"
      using dequeue_woken by (intro cinv_keep [OF c, of "DequeueFlag m e" w]) (auto simp: set_pc_def upd_latch_def)
    ultimately show ?thesis unfolding latch_inv_def by blast
  next
    case (dequeue_fail w m e x)
    then show ?thesis using linv_dequeue [OF l dequeue_fail(2)] by auto
  next
    case (dequeue_flag w m e)
    then show ?thesis using ok [of w] wM
      by (intro latch_inv_plain [OF l, of w "DequeueFlag m e" _ "DequeueWait m e 0"] cinv_keep [OF c, of "DequeueWait m e 0" w]) (auto simp: sys_defs)
  next
    case (dwait_acquire w m e k)
    then show ?thesis using ok [of w] wM
      by (intro latch_inv_plain [OF l, of w "DequeueWait m e k" _ "DequeueAwake m e k"] cinv_keep [OF c, of "DequeueAwake m e k" w]) (auto simp: sys_defs)
  next
    case (dwait_done w m e k)
    then show ?thesis using ok [of w] wM
      by (intro latch_inv_plain [OF l, of w "DequeueAwake m e k" _ "Hold m"] cinv_keep [OF c, of "Hold m" w]) (auto simp: sys_defs)
  next
    case (dwait_spurious w m e k)
    then show ?thesis using ok [of w] wM
      by (intro latch_inv_plain [OF l, of w "DequeueAwake m e k" _ "DequeueWait m e (k + 1)"] cinv_keep [OF c, of "DequeueWait m e (k + 1)" w]) (auto simp: sys_defs)
  next
    case (sleep_acquire w m e)
    then show ?thesis using ok [of w] wM
      by (intro latch_inv_plain [OF l, of w "Sleep m e" _ "Awake m e"] cinv_keep [OF c, of "Awake m e" w]) (auto simp: sys_defs)
  next
    case (sleep_done w m e)
    then show ?thesis using ok [of w] wM
      by (intro latch_inv_plain [OF l, of w "Awake m e" _ "Retry m e"] cinv_keep [OF c, of "Retry m e" w]) (auto simp: sys_defs)
  next
    case (sleep_spurious w m e)
    then show ?thesis using ok [of w] wM
      by (intro latch_inv_plain [OF l, of w "Awake m e" _ "Sleep m (e + 1)"] cinv_keep [OF c, of "Sleep m (e + 1)" w]) (auto simp: sys_defs)
  next
    case (retry w m e)
    then show ?thesis using ok [of w] wM
      by (intro latch_inv_plain [OF l, of w "Retry m e" _ "TryFirst m e"] cinv_keep [OF c, of "TryFirst m e" w]) (auto simp: sys_defs)
  next
    case (unlock_sub w m st)
    then show ?thesis using ok [of w] wM unl [of w m]
      by (intro latch_inv_plain [OF l, of w "Hold m" _ "Released m (lt_state (sys_latch s))"] cinv_release [OF c, of w m _ "Released m (lt_state (sys_latch s))"])
        (auto simp: sys_defs)
  next
    case (unlock_fail w m x)
    then show ?thesis using unl [of w m] by auto
  next
    case (unlock_quiet w m old)
    then show ?thesis using ok [of w] wM
      by (intro latch_inv_plain [OF l, of w "Released m old" _ "Idle"] cinv_keep [OF c, of "Idle" w]) (auto simp: sys_defs)
  next
    case (unlock_wake w m old)
    then show ?thesis using ok [of w] wM
      by (intro latch_inv_plain [OF l, of w "Released m old" _ "Wake"] cinv_keep [OF c, of "Wake" w]) (auto simp: sys_defs)
  next
    case (check_fail w m old x)
    then show ?thesis using ok [of w] wM
      by (intro latch_inv_plain [OF l, of w "Released m old" _ "CheckFailed"] cinv_keep [OF c, of "CheckFailed" w]) (auto simp: sys_defs)
  next
  case (wake_collect w wakes l1)
    then obtain xs1 Y1 where "count (lt_state l1) = count (lt_state (sys_latch s))" "linv xs1 Y1 s'"
      using linv_wake [OF l wake_collect(2)] by auto
    moreover from this(1) have "cinv s'"
      using wake_collect by (intro cinv_keep [OF c, of "Release wakes" w]) (auto simp: set_pc_def upd_latch_def)
    ultimately show ?thesis unfolding latch_inv_def by blast
  next
    case (wake_fail w x)
    then show ?thesis using linv_wake [OF l wake_fail(2)] by auto
  next
    case (release_one w wakes i wakes1 ws)
    then obtain Y1 where "linv xs Y1 s'" using linv_release [OF l release_one(2,3)] by auto
    moreover have "cinv s'"
      using release_one by (intro cinv_keep [OF c, of "Post i wakes1" w]) (auto simp: set_pc_def upd_latch_def)
    ultimately show ?thesis unfolding latch_inv_def by blast
  next
    case (release_post w i wakes)
    then have "cinv s'" by (intro cinv_keep [OF c, of "Release wakes" w]) (auto simp: set_pc_def upd_latch_def sema_add_def)
    then show ?thesis using linv_post [OF l release_post(2)] release_post(1) unfolding latch_inv_def by blast
  next
    case (release_fail w wakes i x)
    then show ?thesis using linv_release [OF l release_fail(2,3)] by auto
  next
    case (release_done w wakes)
    then show ?thesis using linv_release_done [OF l release_done(2,3)] cinv_keep [OF c, of Idle w "set_pc w Idle s"]
      by (auto simp: latch_inv_def set_pc_def)
  qed
qed

lemma latch_reach_inv: "latch_reach s \<Longrightarrow> latch_inv s"
  by (induction rule: latch_reach.induct) (use latch_inv_init latch_inv_step in auto)

section \<open>The list as an intrusive list\<close>

interpretation waiters_list: intrusive_list "\<lambda>(l, ws). wlist ws l" "\<lambda>_ _. True"
    "\<lambda>i (l, ws). Inr (PushTail i l ws)" "\<lambda>i (l, ws). Delete i l ws" "\<lambda>i xs. xs @ [i]"
proof
  fix s :: "LockListHead \<times> workers" and xs i
  obtain l ws where s: "s = (l, ws)" by fastforce
  assume r: "(case s of (l, ws) \<Rightarrow> wlist ws l) xs"
  then show "distinct xs" using s wlist_distinct by auto
  show "\<exists>s'. (case s of (l, ws) \<Rightarrow> Inr (PushTail i l ws)) = Inr s' \<and> (case s' of (l, ws) \<Rightarrow> wlist ws l) (xs @ [i]) \<and>
      (\<forall>j. j \<noteq> i \<longrightarrow> j \<notin> set xs \<longrightarrow> True \<longrightarrow> True)" if "i \<notin> set xs"
    using r s that PushTail_ok(1) [of ws l xs i] by (cases "PushTail i l ws") auto
  show "\<exists>s'. (case s of (l, ws) \<Rightarrow> Delete i l ws) = Inr s' \<and> (case s' of (l, ws) \<Rightarrow> wlist ws l) (remove1 i xs) \<and> True" if i: "i \<in> set xs"
  proof -
    obtain as bs where xs: "xs = as @ i # bs" "i \<notin> set as" using split_list_first [OF i] by blast
    then have "remove1 i xs = as @ bs" by (simp add: remove1_append)
    then show ?thesis using Delete_ok [of ws l as i bs] r s xs by fastforce
  qed
next
  fix i :: WorkerId and xs
  show "i \<notin> set xs \<Longrightarrow> remove1 i (xs @ [i]) = xs" by (simp add: remove1_append)
  show "set (xs @ [i]) = insert i (set xs)" by simp
qed

section \<open>Properties\<close>

lemma attempt_new: "attemptLock m UnlockWaiter = (True, UnlockWaiter OR lock_value m)"
  by (rule attemptLock_free(1)) (auto simp: count_def bit_flags bit_take_bit_iff intro!: bit_eqI)

definition held_system :: "LockMode \<Rightarrow> latch_system" where
  "held_system m = set_pc 0 (Hold m) (upd_latch (sema_add 0 0 \<circ> set_state (UnlockWaiter OR lock_value m))
     (set_pc 0 (TryFirst m 0) latch_init))"

lemma held_system_reach: "latch_reach (held_system m)"
proof -
  have "latch_reach (set_pc 0 (TryFirst m 0) latch_init)"
    by (rule latch_reach.step [OF latch_reach.init], rule lstep.call_lock) (simp_all add: latch_init_def MaxWorkers_def)
  moreover have "lstep (set_pc 0 (TryFirst m 0) latch_init) (held_system m)"
    unfolding held_system_def
    by (rule lstep.first_ok [where e = 0]) (simp_all add: set_pc_def latch_init_def new_latch_def attempt_new)
  ultimately show ?thesis by (rule latch_reach.step)
qed

text \<open>
  Worker 0 has subtracted its exclusive lock and has not yet loaded the state word again; worker 1 takes the
  latch in exclusive mode in between, and the assertion of worker 0 fails.
\<close>

lemma release_race:
  "\<exists>s old x. latch_reach s \<and> sys_pc s 0 = Released Exclusive old \<and> sys_pc s 1 = Hold Exclusive \<and> Unlock_check Exclusive old (lt_state (sys_latch s)) = Inl x"
proof -
  define s0 where "s0 = held_system Exclusive"
  define st0 where "st0 = lt_state (sys_latch s0)"
  have s0: "latch_reach s0" "sys_pc s0 0 = Hold Exclusive" "sys_pc s0 1 = Idle"
    using held_system_reach by (simp_all add: s0_def held_system_def set_pc_def upd_latch_def latch_init_def)
  have c0: "count st0 = lock_value Exclusive" using latch_reach_inv [OF s0(1)] cinv_holder [of s0 0 Exclusive] s0(2) by (simp add: latch_inv_def st0_def)
  note sub = Unlock_sub_ok [OF c0]
  obtain s1 where s1: "latch_reach s1" "sys_pc s1 0 = Released Exclusive st0" "sys_pc s1 1 = Idle" "count (lt_state (sys_latch s1)) = 0"
    using latch_reach.step [OF s0(1) lstep.unlock_sub [OF s0(2) sub(1) [unfolded st0_def]]] s0(3) sub(2)
    by (fastforce simp: set_pc_def upd_latch_def set_state_def st0_def)
  obtain s2 where s2: "latch_reach s2" "sys_pc s2 0 = Released Exclusive st0" "sys_pc s2 1 = TryFirst Exclusive 0" "count (lt_state (sys_latch s2)) = 0"
    using latch_reach.step [OF s1(1) lstep.call_lock [OF s1(3), of Exclusive]] s1 by (fastforce simp: set_pc_def MaxWorkers_def)
  note free = attemptLock_free [OF s2(4), of Exclusive]
  obtain s3 where s3: "latch_reach s3" "sys_pc s3 0 = Released Exclusive st0" "sys_pc s3 1 = Hold Exclusive" "count (lt_state (sys_latch s3)) = lock_value Exclusive"
    using latch_reach.step [OF s2(1) lstep.first_ok [OF s2(3) free(1)]] s2(2) free(2)
    by (fastforce simp: set_pc_def upd_latch_def set_state_def sema_add_def)
  show ?thesis using s3 Unlock_check_held [OF s3(4)] by blast
qed

text \<open>
  C6. In every state that any interleaving of latch operations by any of the workers reaches, at most one
  worker has the latch, and no assertion of the latch and its waiters list has failed or can fail but one:
  the assertion of \<open>Unlock\<close> that no exclusive lock is set \<open>after\<close> the release loads the state word again, and
  it fails exactly when another worker has taken the latch in exclusive mode in between. This does
  happen: a run of two workers ends with one inside the latch and the other, which has released it
  correctly, failing its assertion.
\<close>

theorem latch_safe:
  assumes "latch_reach s"
  shows "(\<forall>v w. acquired (sys_pc s v) \<noteq> None \<and> acquired (sys_pc s w) \<noteq> None \<longrightarrow> v = w) \<and> (\<forall>w. sys_pc s w \<noteq> Failed) \<and>
    (\<forall>w m old. sys_pc s w = Released m old \<longrightarrow>
      ((\<exists>x. Unlock_check m old (lt_state (sys_latch s)) = Inl x) \<longleftrightarrow> (\<exists>v. v \<noteq> w \<and> acquired (sys_pc s v) = Some Exclusive))) \<and>
    (\<exists>t. latch_reach t \<and> sys_pc t 0 = CheckFailed \<and> sys_pc t 1 = Hold Exclusive)"
proof -
  have c: "cinv s" and "\<exists>xs Y. linv xs Y s" using latch_reach_inv [OF assms] by (auto simp: latch_inv_def)
  then obtain xs Y where l: "linv xs Y s" by blast
  have 1: "v = w" if "acquired (sys_pc s v) \<noteq> None" "acquired (sys_pc s w) \<noteq> None" for v w
    using c that unfolding cinv_def by metis
  have 2: "sys_pc s w \<noteq> Failed" for w using linvD(8) [OF l, of w] by (cases "sys_pc s w") auto
  have 3: "(\<exists>x. Unlock_check m old (lt_state (sys_latch s)) = Inl x) \<longleftrightarrow> (\<exists>v. v \<noteq> w \<and> acquired (sys_pc s v) = Some Exclusive)"
    if "sys_pc s w = Released m old" for w m old
  proof
    assume "\<exists>x. Unlock_check m old (lt_state (sys_latch s)) = Inl x"
    then have n: "count (lt_state (sys_latch s)) \<noteq> 0" "count (lt_state (sys_latch s)) \<noteq> lock_value Share" using Unlock_check_fails by blast+
    then obtain v k where v: "acquired (sys_pc s v) = Some k" "count (lt_state (sys_latch s)) = lock_value k" using c by (auto simp: cinv_def)
    then have "k = Exclusive" "v \<noteq> w" using n(2) that v(1) by (cases k; auto)+
    then show "\<exists>v. v \<noteq> w \<and> acquired (sys_pc s v) = Some Exclusive" using v(1) by blast
  next
    assume "\<exists>v. v \<noteq> w \<and> acquired (sys_pc s v) = Some Exclusive"
    then have "count (lt_state (sys_latch s)) = lock_value Exclusive" using cinv_holder [OF c] by blast
    then show "\<exists>x. Unlock_check m old (lt_state (sys_latch s)) = Inl x" by (rule Unlock_check_held)
  qed
  obtain u old x where u: "latch_reach u" "sys_pc u 0 = Released Exclusive old" "sys_pc u 1 = Hold Exclusive" "Unlock_check Exclusive old (lt_state (sys_latch u)) = Inl x"
    using release_race by blast
  have 4: "\<exists>t. latch_reach t \<and> sys_pc t 0 = CheckFailed \<and> sys_pc t 1 = Hold Exclusive"
    using latch_reach.step [OF u(1) lstep.check_fail [OF u(2,4)]] u(3) by (intro exI [of _ "set_pc 0 CheckFailed u"]) (simp add: set_pc_def)
  show ?thesis using 1 2 3 4 by blast
qed

theorem latch_safe_witness:
  "\<exists>s v old. latch_reach s \<and> sys_pc s 0 = Released Exclusive old \<and> v \<noteq> 0 \<and> acquired (sys_pc s v) = Some Exclusive \<and> sys_pc s v \<noteq> Failed"
proof -
  obtain s old x where s: "latch_reach s" "sys_pc s 0 = Released Exclusive old" "Unlock_check Exclusive old (lt_state (sys_latch s)) = Inl x"
    using release_race by blast
  from latch_safe [OF s(1)] s show ?thesis by blast
qed

text \<open>
  Shared mode is not shared: while one worker holds the latch in share mode, an attempt of any
  other worker to take it in share mode fails and leaves the state word unchanged.
\<close>

theorem latch_share_excludes_share:
  assumes "latch_reach s" "sys_pc s w = Hold Share"
  shows "attemptLock Share (lt_state (sys_latch s)) = (False, lt_state (sys_latch s)) \<and>
    (\<forall>v. v \<noteq> w \<longrightarrow> sys_pc s v \<noteq> Hold Share)"
proof -
  have c: "cinv s" using latch_reach_inv [OF assms(1)] by (simp add: latch_inv_def)
  have h: "count (lt_state (sys_latch s)) = lock_value Share" "\<forall>v. v \<noteq> w \<longrightarrow> acquired (sys_pc s v) = None"
    using cinv_holder [OF c, of w Share] assms(2) by auto
  have "count (lt_state (sys_latch s)) \<noteq> 0" using h(1) lock_value_bits(2) [of Share] by simp
  moreover have "sys_pc s v \<noteq> Hold Share" if "v \<noteq> w" for v using h(2) that by auto
  ultimately show ?thesis using attemptLock_busy by blast
qed

theorem latch_share_excludes_share_witness:
  "sys_pc (held_system Share) 0 = Hold Share \<and>
   fst (attemptLock Share (lt_state (sys_latch (held_system Share)))) = False"
proof -
  have "sys_pc (held_system Share) 0 = Hold Share" by (simp add: held_system_def set_pc_def)
  with latch_share_excludes_share [OF held_system_reach this] show ?thesis by simp
qed

text \<open>
  The release of the latch wakes an exclusive waiter at the head of the queue alone; otherwise it
  wakes all shared waiters in queue order and keeps the exclusive ones, in order. The waiters list,
  the list of woken workers, their lock states and the flag bits end up as specified, for queues of
  up to the maximal number of workers.
\<close>

theorem wakeup_selects:
  assumes "wlist (lt_workers l) (lt_waiters l) xs" "length xs \<le> MaxWorkers"
    and "\<forall>x\<in>set xs. wl_lockState (lt_workers l x) = Waiting" "waiters_bit (lt_state l) \<longleftrightarrow> xs \<noteq> []"
  shows "\<exists>wakes l1 w r. wakeup_collect l = Inr (wakes, l1) \<and>
    (w, r) = (case xs of [] \<Rightarrow> ([], []) | x # ys \<Rightarrow> if wl_lockMode (lt_workers l x) = Exclusive then ([x], ys)
       else (filter (\<lambda>x. wl_lockMode (lt_workers l x) = Share) xs, filter (\<lambda>x. wl_lockMode (lt_workers l x) = Exclusive) xs)) \<and>
    wlist (lt_workers l1) wakes w \<and> wlist (lt_workers l1) (lt_waiters l1) r \<and>
    (\<forall>i\<in>set w. wl_lockState (lt_workers l1 i) = PendingWakeup) \<and> (waiters_bit (lt_state l1) \<longleftrightarrow> r \<noteq> [])"
proof -
  obtain w r where sel: "select_wakes (\<lambda>i. wl_lockMode (lt_workers l i)) False xs = (w, r)" by fastforce
  obtain wakes l1 where "wakeup_collect l = Inr (wakes, l1)" "wlist (lt_workers l1) (lt_waiters l1) r"
    "wlist (lt_workers l1) wakes w" "woken_core (lt_workers l) (set w) (lt_workers l1)" "waiters_bit (lt_state l1) \<longleftrightarrow> r \<noteq> []"
    using wakeup_collect_ok [OF assms sel] by blast
  then show ?thesis using sel [unfolded select_wakes_eq] by (auto simp: woken_core_def)
qed

definition example_latch :: LWLatch where
  "example_latch = queueSelf 3 Share (queueSelf 2 Exclusive (queueSelf 1 Share new_latch))"

lemma example_latch_list:
  "wlist (lt_workers example_latch) (lt_waiters example_latch) [1, 2, 3]"
proof -
  have q: "wlist (lt_workers (queueSelf w m l)) (lt_waiters (queueSelf w m l)) (xs @ [w])"
    if "wlist (lt_workers l) (lt_waiters l) xs" "w \<notin> set xs" for w m l xs
  proof -
    define ws1 where "ws1 = upd_worker w (\<lambda>k. k\<lparr>wl_lockState := Waiting, wl_lockMode := m\<rparr>) (lt_workers l)"
    obtain q ws2 where p: "PushTail w (lt_waiters l) ws1 = (q, ws2)" by fastforce
    have "wlist ws1 (lt_waiters l) xs" by (rule wlist_cong [OF that(1)]) (simp add: ws1_def upd_worker_def)
    from PushTail_ok(1) [OF this that(2) p] show ?thesis by (simp add: queueSelf_def ws1_def [symmetric] p)
  qed
  have "wlist (lt_workers new_latch) (lt_waiters new_latch) []" by (simp add: wlist_empty new_latch_def)
  from q [OF q [OF q [OF this]], of 1 2 3 Share Exclusive Share] show ?thesis by (simp add: example_latch_def)
qed

theorem wakeup_selects_witness:
  "\<exists>wakes l1. wakeup_collect example_latch = Inr (wakes, l1) \<and> wlist (lt_workers l1) wakes [1, 3] \<and>
     wlist (lt_workers l1) (lt_waiters l1) [2]"
proof -
  have modes: "wl_lockMode (lt_workers example_latch 1) = Share" "wl_lockMode (lt_workers example_latch 2) = Exclusive"
    "wl_lockMode (lt_workers example_latch 3) = Share"
    and sts: "\<forall>x\<in>set [1, 2, 3]. wl_lockState (lt_workers example_latch x) = Waiting" "waiters_bit (lt_state example_latch)"
    by (simp_all add: example_latch_def queueSelf_def PushTail_def new_latch_def empty_list_def upd_worker_def Let_def)
  show ?thesis
    using wakeup_selects [OF example_latch_list _ sts(1)] modes sts(2) by (auto simp: MaxWorkers_def)
qed

lemma Delete_unlinks: "Delete v l ws = Inr (l', ws') \<Longrightarrow> wl_Next (ws' v) = None \<and> wl_Prev (ws' v) = None"
  by (auto simp: Delete_def bindR_eq_Inr_iff upd_worker_def)

text \<open>
  C22. The intrusive waiters list is a sequence of workers: queueing workers that are not in it appends them
  in order, and removing any worker of it, wherever it stands, removes exactly this one, unlinks it, and
  changes neither the links of a worker outside the list nor anything but links.
\<close>

theorem waiters_list_refines:
  assumes "wlist ws l xs"
  shows "(distinct is \<and> set is \<inter> set xs = {} \<longrightarrow> (\<exists>s. foldR (\<lambda>i (l, ws). Inr (PushTail i l ws)) is (l, ws) = Inr s \<and> wlist (snd s) (fst s) (xs @ is))) \<and>
    (xs = as @ v # bs \<longrightarrow> (\<exists>l' ws'. Delete v l ws = Inr (l', ws') \<and> wlist ws' l' (as @ bs) \<and> wl_Next (ws' v) = None \<and> wl_Prev (ws' v) = None \<and>
      (\<forall>j. j \<notin> set xs \<longrightarrow> ws' j = ws j) \<and>
      (\<forall>j. wl_sema (ws' j) = wl_sema (ws j) \<and> wl_lockState (ws' j) = wl_lockState (ws j) \<and> wl_lockMode (ws' j) = wl_lockMode (ws j))))"
proof -
  have f: "fold (\<lambda>i xs. xs @ [i]) ks ys = ys @ ks" for ks ys :: "WorkerId list"
    by (induction ks arbitrary: ys) auto
  have push: "\<exists>s. foldR (\<lambda>i (l, ws). Inr (PushTail i l ws)) is (l, ws) = Inr s \<and> wlist (snd s) (fst s) (xs @ is)"
    if "distinct is" "set is \<inter> set xs = {}"
    using waiters_list.push_all [of "(l, ws)" xs "is"] assms that by (auto simp: f)
  have del: "\<exists>l' ws'. Delete v l ws = Inr (l', ws') \<and> wlist ws' l' (as @ bs) \<and> wl_Next (ws' v) = None \<and> wl_Prev (ws' v) = None \<and>
      (\<forall>j. j \<notin> set xs \<longrightarrow> ws' j = ws j) \<and>
      (\<forall>j. wl_sema (ws' j) = wl_sema (ws j) \<and> wl_lockState (ws' j) = wl_lockState (ws j) \<and> wl_lockMode (ws' j) = wl_lockMode (ws j))"
    if "xs = as @ v # bs"
    using Delete_ok [of ws l as v bs] assms that Delete_unlinks [of v l ws] core_eqD by metis
  show ?thesis using push del by blast
qed

theorem waiters_list_refines_witness:
  "\<exists>s l ws. foldR (\<lambda>i (l, ws). Inr (PushTail i l ws)) [4, 5] (lt_waiters example_latch, lt_workers example_latch) = Inr s \<and>
     wlist (snd s) (fst s) [1, 2, 3, 4, 5] \<and>
     Delete 2 (lt_waiters example_latch) (lt_workers example_latch) = Inr (l, ws) \<and> wlist ws l [1, 3]"
  using waiters_list_refines [OF example_latch_list, of "[4, 5]" "[1]" 2 "[3]"] by auto

end
