(* ===== verification/Mimi_Spin.thy ===== *)
theory Mimi_Spin
  imports Mimi_Latch
begin

text \<open>
  Spin locks (\<open>lock/SpinLock.cpp\<close>), the counting semaphore of \<open>lock/Semaphore.cpp\<close>, the spinning and barrier
  primitives and the table of worker locks (\<open>lock/LockManager.cpp\<close>). The operations of the spin lock
  are interleaved for any number of threads: the steps are the atomic operations on the flag.
\<close>

section \<open>The flag\<close>

text \<open>\<open>std::atomic_flag\<close>: \<open>test_and_set\<close> returns the old value.\<close>

record SpinLock =
  sl_value :: bool

definition new_SpinLock :: SpinLock where "new_SpinLock = \<lparr>sl_value = False\<rparr>"

definition test_and_set :: "SpinLock \<Rightarrow> bool \<times> SpinLock" where
  "test_and_set l = (sl_value l, l\<lparr>sl_value := True\<rparr>)"

definition flag_clear :: "SpinLock \<Rightarrow> SpinLock" where
  "flag_clear l = l\<lparr>sl_value := False\<rparr>"

definition TryLock :: "SpinLock \<Rightarrow> bool \<times> SpinLock" where
  "TryLock l = (case test_and_set l of (old, l') \<Rightarrow> (\<not> old, l'))"

section \<open>Threads\<close>

text \<open>
  Where a thread is: outside, about to test the flag in \<open>Lock\<close>, about to call or to go on with \<open>wait(true)\<close>,
  blocked in it, inside the critical section, and between the two statements of \<open>Unlock\<close>.
\<close>

datatype spin_pc = Outside | Testing | AtWait | Asleep | Inside | Cleared

record spin_system =
  ssy_lock :: SpinLock
  ssy_pc :: "nat \<Rightarrow> spin_pc"

definition goto :: "nat \<Rightarrow> spin_pc \<Rightarrow> spin_system \<Rightarrow> spin_system" where
  "goto w p s = s\<lparr>ssy_pc := (ssy_pc s)(w := p)\<rparr>"

definition set_lock :: "SpinLock \<Rightarrow> spin_system \<Rightarrow> spin_system" where
  "set_lock l s = s\<lparr>ssy_lock := l\<rparr>"

text \<open>
  The call of \<open>wait\<close> returns when the flag differs from its argument and blocks otherwise; a blocked
  thread looks at the flag again after a notification, or without one.
\<close>

inductive spin_step :: "spin_system \<Rightarrow> spin_system \<Rightarrow> bool" where
  lock_call: "ssy_pc s w = Outside \<Longrightarrow> spin_step s (goto w Testing s)"
| lock_test: "ssy_pc s w = Testing \<Longrightarrow> test_and_set (ssy_lock s) = (old, l) \<Longrightarrow>
    spin_step s (goto w (if old then AtWait else Inside) (set_lock l s))"
| lock_wait: "ssy_pc s w = AtWait \<Longrightarrow> spin_step s (goto w (if sl_value (ssy_lock s) then Asleep else Testing) s)"
| spurious: "ssy_pc s w = Asleep \<Longrightarrow> spin_step s (goto w AtWait s)"
| try_lock: "ssy_pc s w = Outside \<Longrightarrow> TryLock (ssy_lock s) = (taken, l) \<Longrightarrow> spin_step s (goto w (if taken then Inside else Outside) (set_lock l s))"
| unlock_clear: "ssy_pc s w = Inside \<Longrightarrow> spin_step s (goto w Cleared (set_lock (flag_clear (ssy_lock s)) s))"
| notify_none: "ssy_pc s w = Cleared \<Longrightarrow> (\<forall>v. ssy_pc s v \<noteq> Asleep) \<Longrightarrow> spin_step s (goto w Outside s)"
| notify_one: "ssy_pc s w = Cleared \<Longrightarrow> ssy_pc s v = Asleep \<Longrightarrow> spin_step s (goto v AtWait (goto w Outside s))"

inductive_cases spin_stepE: "spin_step s s'"

inductive spin_reachable :: "spin_system \<Rightarrow> bool" where
  spin_start: "spin_reachable \<lparr>ssy_lock = new_SpinLock, ssy_pc = \<lambda>_. Outside\<rparr>"
| spin_next: "spin_reachable s \<Longrightarrow> spin_step s s' \<Longrightarrow> spin_reachable s'"

lemmas spin_defs = goto_def set_lock_def test_and_set_def TryLock_def flag_clear_def new_SpinLock_def

section \<open>Other primitives\<close>

text \<open>\<open>Spin::PerformSpin\<close> sleeps and \<open>Barrier::Write\<close> orders stores: neither changes a value.\<close>

definition PerformSpin :: "('s, unit) cm" where "PerformSpin = retM ()"

definition Barrier_Write :: "('s, unit) cm" where "Barrier_Write = retM ()"

text \<open>
  \<open>std::counting_semaphore<1>\<close>: acquiring at zero blocks, releasing above the maximum is undefined.
\<close>

definition new_Semaphore :: nat where "new_Semaphore = 1"

definition Semaphore_Lock :: "(nat, unit) cm" where
  "Semaphore_Lock = bindM (getM id) (\<lambda>n. if n = 0 then raiseM (Blocked ''semaphore'') else updM (\<lambda>n. n - 1))"

definition Semaphore_Unlock :: "(nat, unit) cm" where
  "Semaphore_Unlock = bindM (getM id) (\<lambda>n. if 1 \<le> n then raiseM (Undefined ''semaphore above its maximum'') else updM (\<lambda>n. n + 1))"

definition new_LockManager :: "nat \<Rightarrow> WorkerLock list" where
  "new_LockManager workersCount = replicate workersCount new_worker"

definition GetWorkerLock :: "WorkerLock list \<Rightarrow> int \<Rightarrow> WorkerLock res" where
  "GetWorkerLock states i = bindR (assertR ''id.IsValid()'' (i \<noteq> - 1)) (\<lambda>_.
     if 0 \<le> i then vec_at states (nat i) else Inl (Undefined ''vector index''))"

section \<open>The invariant\<close>

text \<open>
  The flag is set exactly while a thread is inside, there is at most one, and a sleeping thread is not
  forgotten: the flag is set, or another thread is on its way to take the lock or to notify.
\<close>

definition spin_owner :: "spin_system \<Rightarrow> nat option \<Rightarrow> bool" where
  "spin_owner s x \<longleftrightarrow> (\<forall>v. ssy_pc s v = Inside \<longleftrightarrow> x = Some v) \<and> (sl_value (ssy_lock s) \<longleftrightarrow> x \<noteq> None)"

definition not_forgotten :: "spin_system \<Rightarrow> bool" where
  "not_forgotten s \<longleftrightarrow> ((\<exists>v. ssy_pc s v = Asleep) \<longrightarrow> sl_value (ssy_lock s) \<or> (\<exists>v. ssy_pc s v \<in> {Cleared, Testing, AtWait}))"

lemma owner_goto: "spin_owner s x \<Longrightarrow> ssy_pc s w \<noteq> Inside \<Longrightarrow> p \<noteq> Inside \<Longrightarrow> spin_owner (goto w p s) x"
  by (auto simp: spin_owner_def goto_def)

lemma owner_enter: "spin_owner s None \<Longrightarrow> spin_owner (goto w Inside (set_lock ((ssy_lock s)\<lparr>sl_value := True\<rparr>) s)) (Some w)"
  by (auto simp: spin_owner_def goto_def set_lock_def)

lemma owner_same: "spin_owner s x \<Longrightarrow> sl_value l = sl_value (ssy_lock s) \<Longrightarrow> spin_owner (set_lock l s) x"
  by (simp add: spin_owner_def set_lock_def)

lemma owner_leave: "spin_owner s x \<Longrightarrow> ssy_pc s w = Inside \<Longrightarrow> spin_owner (goto w Cleared (set_lock (flag_clear (ssy_lock s)) s)) None"
  by (simp add: spin_owner_def goto_def set_lock_def flag_clear_def)

lemma owner_take:
  assumes "spin_owner s x" "ssy_pc s w \<noteq> Inside" "p \<noteq> Inside" "test_and_set (ssy_lock s) = (old, l)"
  shows "\<exists>y. spin_owner (goto w (if old then p else Inside) (set_lock l s)) y"
proof (cases old)
  case True
  then have l: "sl_value l = sl_value (ssy_lock s)" using assms(4) by (auto simp: test_and_set_def)
  have "spin_owner (goto w p (set_lock l s)) x" by (rule owner_goto [OF owner_same [OF assms(1) l]]) (use assms(2,3) in \<open>simp_all add: set_lock_def\<close>)
  then show ?thesis using True by auto
next
  case False
  then have "x = None" using assms(1,4) by (simp add: spin_owner_def test_and_set_def)
  then show ?thesis using False owner_enter [of s w] assms(1,4) by (auto simp: test_and_set_def)
qed

lemma owner_step: "spin_step s s' \<Longrightarrow> spin_owner s x \<Longrightarrow> \<exists>y. spin_owner s' y"
proof (induction rule: spin_step.induct)
  case (lock_test s w old l)
  then show ?case using owner_take [of s x w AtWait old l] by simp
next
  case (try_lock s w taken l)
  then have "test_and_set (ssy_lock s) = (\<not> taken, l)" by (auto simp: TryLock_def split: prod.splits)
  then show ?case using owner_take [of s x w Outside "\<not> taken" l] try_lock by (cases taken) simp_all
next
  case (unlock_clear s w)
  then show ?case using owner_leave by blast
next
  case (notify_one s w v)
  then have "spin_owner (goto w Outside s) x" by (intro owner_goto) simp_all
  then have "spin_owner (goto v AtWait (goto w Outside s)) x" by (rule owner_goto) (use notify_one in \<open>simp_all add: goto_def\<close>)
  then show ?case by blast
qed (auto intro!: exI [of _ x] owner_goto)

text \<open>Every step leaves a thread that will look at the flag again, or the flag set, or nobody asleep.\<close>

lemma awake_goto: "p \<in> {Cleared, Testing, AtWait} \<Longrightarrow> not_forgotten (goto w p s)"
  by (auto simp: not_forgotten_def goto_def intro!: exI [of _ w])

lemma set_not_forgotten: "sl_value (ssy_lock s) \<Longrightarrow> not_forgotten s"
  by (simp add: not_forgotten_def)

lemma not_forgotten_step: "spin_step s s' \<Longrightarrow> not_forgotten s'"
proof (induction rule: spin_step.induct)
  case (lock_test s w old l)
  then show ?case by (intro set_not_forgotten) (auto simp: goto_def set_lock_def test_and_set_def)
next
  case (lock_wait s w)
  show ?case
  proof (cases "sl_value (ssy_lock s)")
    case True
    then show ?thesis by (intro set_not_forgotten) (simp add: goto_def)
  qed (simp add: awake_goto)
next
  case (try_lock s w taken l)
  then show ?case by (intro set_not_forgotten) (auto simp: goto_def set_lock_def TryLock_def test_and_set_def)
next
  case (notify_none s w)
  then show ?case by (simp add: not_forgotten_def goto_def)
qed (simp_all add: awake_goto)

lemma spin_reachable_inv: "spin_reachable s \<Longrightarrow> (\<exists>x. spin_owner s x) \<and> not_forgotten s"
proof (induction rule: spin_reachable.induct)
  case spin_start
  then show ?case by (auto simp: spin_owner_def not_forgotten_def spin_defs)
next
  case (spin_next s s')
  then show ?case using owner_step not_forgotten_step by blast
qed

text \<open>
  C18. A spin lock excludes and does not forget: in every interleaving of any number of threads that lock, try,
  unlock, sleep and are notified, with spurious wake-ups or without, the flag is set exactly while a thread
  is inside, no two threads are inside, a free flag is taken by the next test, and whenever a thread
  sleeps there is a thread inside, notifying or about to test the flag: the sleepers are never left alone.
\<close>

theorem spin_lock_safe:
  assumes "spin_reachable s"
  shows "(sl_value (ssy_lock s) \<longleftrightarrow> (\<exists>w. ssy_pc s w = Inside)) \<and> (\<forall>v w. ssy_pc s v = Inside \<and> ssy_pc s w = Inside \<longrightarrow> v = w) \<and>
    (fst (TryLock (ssy_lock s)) \<longleftrightarrow> (\<forall>w. ssy_pc s w \<noteq> Inside)) \<and>
    (ssy_pc s w = Asleep \<longrightarrow> (\<exists>v. ssy_pc s v \<in> {Inside, Cleared, Testing, AtWait}))"
proof -
  obtain x where x: "spin_owner s x" and n: "not_forgotten s" using spin_reachable_inv [OF assms] by blast
  have o: "\<And>v. ssy_pc s v = Inside \<longleftrightarrow> x = Some v" "sl_value (ssy_lock s) \<longleftrightarrow> x \<noteq> None" using x by (simp_all add: spin_owner_def)
  have v: "sl_value (ssy_lock s) \<longleftrightarrow> (\<exists>w. ssy_pc s w = Inside)" using o by auto
  moreover have "ssy_pc s w = Asleep \<longrightarrow> (\<exists>v. ssy_pc s v \<in> {Inside, Cleared, Testing, AtWait})" using n v by (auto simp: not_forgotten_def)
  moreover have "\<forall>v w. ssy_pc s v = Inside \<and> ssy_pc s w = Inside \<longrightarrow> v = w" using o(1) by (metis option.inject)
  moreover have "fst (TryLock (ssy_lock s)) \<longleftrightarrow> \<not> sl_value (ssy_lock s)" by (simp add: TryLock_def test_and_set_def)
  ultimately show ?thesis by blast
qed

theorem spin_lock_safe_witness:
  "\<exists>s. spin_reachable s \<and> ssy_pc s 0 = Inside \<and> ssy_pc s 1 = AtWait \<and> \<not> fst (TryLock (ssy_lock s))"
proof -
  let ?held = "\<lparr>sl_value = True\<rparr>"
  define s1 where "s1 = goto 0 Testing \<lparr>ssy_lock = new_SpinLock, ssy_pc = \<lambda>_. Outside\<rparr>"
  define s2 where "s2 = goto 0 Inside (set_lock ?held s1)"
  define s3 where "s3 = goto 1 Testing s2"
  define s4 where "s4 = goto 1 AtWait (set_lock ?held s3)"
  note defs = s1_def s2_def s3_def s4_def spin_defs
  have "spin_reachable s1" unfolding s1_def by (rule spin_next [OF spin_start], rule lock_call) simp
  moreover have "spin_step s1 s2" using lock_test [of s1 0 False ?held] by (simp add: s2_def) (simp add: defs)
  moreover have "spin_step s2 s3" unfolding s3_def by (rule lock_call) (simp add: defs)
  moreover have "spin_step s3 s4" using lock_test [of s3 1 True ?held] by (simp add: s4_def) (simp add: defs)
  ultimately have r: "spin_reachable s4" using spin_next by blast
  have p: "ssy_pc s4 0 = Inside" "ssy_pc s4 1 = AtWait" by (simp_all add: defs)
  have "\<not> fst (TryLock (ssy_lock s4))" using spin_lock_safe [OF r, of 0] p(1) by blast
  then show ?thesis using r p by blast
qed

end
