(* ===== verification/Mimi_Storage.thy ===== *)
theory Mimi_Storage
  imports Mimi_Types
begin

text \<open>
  Files (\<open>storage/io/File.cpp\<close>) and relation files (\<open>storage/buffer/RelFile.cpp\<close>). The operating
  system is a state with the contents of every file, the contents that have reached the disk, and a
  script of outcomes for the coming read, write and sync calls (an exhausted script means that
  calls succeed completely), so that every failure and every short transfer the kernel may report is
  covered. A \<open>File\<close> object is the path it was opened with.
\<close>

section \<open>The operating system\<close>

datatype io_outcome = IoFull | IoPartial nat | IoError

record os_state =
  os_files :: "string \<Rightarrow> byte list option"
  os_synced :: "string \<Rightarrow> byte list option"
  os_script :: "io_outcome list"

definition next_outcome :: "('x os_state_scheme, io_outcome) cm" where
  "next_outcome s = (case os_script s of
     [] \<Rightarrow> (Inr IoFull, s)
   | r # rs \<Rightarrow> (Inr r, s\<lparr>os_script := rs\<rparr>))"

text \<open>\<open>pwrite\<close>: a gap between the end of the file and the offset is filled with zeros.\<close>

definition file_pwrite :: "byte list \<Rightarrow> nat \<Rightarrow> byte list \<Rightarrow> byte list" where
  "file_pwrite contents off bs = (if bs = [] then contents
     else take off contents @ replicate (off - length contents) 0 @ bs @ drop (off + length bs) contents)"

lemma keeps_io [keep_intros]:
  "keeps P a \<Longrightarrow> (\<And>n. keeps P (b n)) \<Longrightarrow> keeps P c \<Longrightarrow> keeps P (case z of IoFull \<Rightarrow> a | IoPartial n \<Rightarrow> b n | IoError \<Rightarrow> c)"
  by (cases z) auto

section \<open>File\<close>

type_synonym File = string

definition file_of :: "File \<Rightarrow> 'x os_state_scheme \<Rightarrow> byte list" where
  "file_of f s = (case os_files s f of None \<Rightarrow> [] | Some c \<Rightarrow> c)"

definition put_file :: "File \<Rightarrow> byte list \<Rightarrow> 'x os_state_scheme \<Rightarrow> 'x os_state_scheme" where
  "put_file f c s = s\<lparr>os_files := (os_files s)(f \<mapsto> c)\<rparr>"

definition throw_error :: "string \<Rightarrow> ('s, 'a) cm" where
  "throw_error op = raiseM (SystemError (''could not '' @ op @ '' file''))"

definition File_Open :: "string \<Rightarrow> bool \<Rightarrow> ('x os_state_scheme, File) cm" where
  "File_Open path creat = bindM (getM (\<lambda>s. os_files s path)) (\<lambda>c.
     case c of
       Some _ \<Rightarrow> retM path
     | None \<Rightarrow> if creat then thenM (updM (put_file path [])) (retM path)
               else raiseM (RuntimeError ''could not open file''))"

definition File_Append :: "File \<Rightarrow> byte list \<Rightarrow> ('x os_state_scheme, unit) cm" where
  "File_Append f buffer = bindM next_outcome (\<lambda>r. case r of
     IoError \<Rightarrow> throw_error ''write''
   | IoFull \<Rightarrow> updM (\<lambda>s. put_file f (file_of f s @ buffer) s)
   | IoPartial n \<Rightarrow> updM (\<lambda>s. put_file f (file_of f s @ take n buffer) s))"

definition File_Write :: "File \<Rightarrow> byte list \<Rightarrow> int \<Rightarrow> ('x os_state_scheme, unit) cm" where
  "File_Write f buffer offset = bindM next_outcome (\<lambda>r.
     if offset < 0 then throw_error ''pwrite64''
     else case r of
       IoError \<Rightarrow> throw_error ''pwrite64''
     | IoFull \<Rightarrow> updM (\<lambda>s. put_file f (file_pwrite (file_of f s) (nat offset) buffer) s)
     | IoPartial n \<Rightarrow> updM (\<lambda>s. put_file f (file_pwrite (file_of f s) (nat offset) (take n buffer)) s))"

text \<open>The bytes that \<open>Read\<close> stores into the caller's buffer; their number is its result.\<close>

definition File_Read :: "File \<Rightarrow> nat \<Rightarrow> int \<Rightarrow> ('x os_state_scheme, byte list) cm" where
  "File_Read f n offset = bindM next_outcome (\<lambda>r.
     if offset < 0 then throw_error ''read''
     else case r of
       IoError \<Rightarrow> throw_error ''read''
     | IoFull \<Rightarrow> getM (\<lambda>s. peek (file_of f s) (nat offset) n)
     | IoPartial k \<Rightarrow> getM (\<lambda>s. peek (file_of f s) (nat offset) (min k n)))"

definition File_Fsync :: "File \<Rightarrow> ('x os_state_scheme, unit) cm" where
  "File_Fsync f = bindM next_outcome (\<lambda>r. case r of
     IoError \<Rightarrow> throw_error ''fsync''
   | _ \<Rightarrow> updM (\<lambda>s. s\<lparr>os_synced := (os_synced s)(f := os_files s f)\<rparr>))"

definition File_Size :: "File \<Rightarrow> ('x os_state_scheme, int) cm" where
  "File_Size f = getM (\<lambda>s. int (length (file_of f s)))"

section \<open>RelFile\<close>

definition rel_path :: "Oid \<Rightarrow> string" where
  "rel_path relid = ''data/'' @ nat_to_string (unat relid)"

lemma rel_path_1: "rel_path 1 = ''data/1''"
  by (simp add: rel_path_def nat_to_string_eval)

definition RelFile_Open :: "Oid \<Rightarrow> ('x os_state_scheme, File) cm" where
  "RelFile_Open relid = File_Open (rel_path relid) False"

text \<open>
  The offset of a write is computed in 32 bits (\<open>unsigned int\<close> times \<open>uint32_t\<close>), the offset of a
  read in 64.
\<close>

definition write_offset :: "PageNumber \<Rightarrow> u32" where
  "write_offset pageno = word_of_nat PageSize * pageno"

definition read_offset :: "PageNumber \<Rightarrow> int" where
  "read_offset pageno = int PageSize * int (unat pageno)"

definition RelFile_Write :: "File \<Rightarrow> byte list \<Rightarrow> PageNumber \<Rightarrow> ('x os_state_scheme, unit) cm" where
  "RelFile_Write f buffer pageno =
     (if \<not> PageNumber_IsValid pageno then raiseM (InvalidArgument ''could not write page: pageno is invalid'')
      else File_Write f (take PageSize buffer) (int (unat (write_offset pageno))))"

definition RelFile_Extend :: "File \<Rightarrow> PageNumber \<Rightarrow> ('x os_state_scheme, unit) cm" where
  "RelFile_Extend f pageno = RelFile_Write f (replicate PageSize 0) pageno"

definition RelFile_Read :: "File \<Rightarrow> PageNumber \<Rightarrow> ('x os_state_scheme, byte list) cm" where
  "RelFile_Read f pageno =
     (if \<not> PageNumber_IsValid pageno then raiseM (InvalidArgument ''could not read page: pageno is invalid'')
      else bindM (File_Read f PageSize (read_offset pageno)) (\<lambda>bs.
        if length bs \<noteq> PageSize
        then raiseM (RuntimeError (''could not read page: read only '' @ nat_to_string (length bs) @ '' bytes''))
        else retM bs))"

definition RelFile_Fsync :: "File \<Rightarrow> ('x os_state_scheme, unit) cm" where
  "RelFile_Fsync f = File_Fsync f"

definition RelFile_GetPagesCount :: "File \<Rightarrow> ('x os_state_scheme, PageNumber) cm" where
  "RelFile_GetPagesCount f = bindM (File_Size f) (\<lambda>n. retM (word_of_int (n div int PageSize)))"

section \<open>Writes and reads of a file\<close>

lemma file_pwrite_peek:
  assumes "bs \<noteq> []"
  shows "peek (file_pwrite contents off bs) off (length bs) = bs"
  using assms by (auto simp: file_pwrite_def peek_def min_def)

lemma length_file_pwrite:
  "bs \<noteq> [] \<Longrightarrow> length (file_pwrite contents off bs) = max (length contents) (off + length bs)"
  by (auto simp: file_pwrite_def)

lemma file_pwrite_nth:
  assumes "bs \<noteq> []" "i < length contents" "i < off \<or> off + length bs \<le> i"
  shows "file_pwrite contents off bs ! i = contents ! i"
  using assms by (auto simp: file_pwrite_def nth_append min_def)

lemma file_pwrite_peek_other:
  assumes "bs \<noteq> []" "o2 + n \<le> length contents" "o2 + n \<le> off \<or> off + length bs \<le> o2"
  shows "peek (file_pwrite contents off bs) o2 n = peek contents o2 n"
proof (rule nth_equalityI)
  show "length (peek (file_pwrite contents off bs) o2 n) = length (peek contents o2 n)"
    using assms by (simp add: length_file_pwrite)
  fix i assume "i < length (peek (file_pwrite contents off bs) o2 n)"
  then have i: "i < n" by simp
  then show "peek (file_pwrite contents off bs) o2 n ! i = peek contents o2 n ! i"
    using assms file_pwrite_nth [OF assms(1), of "o2 + i" contents off]
    by (auto simp: peek_nth length_file_pwrite)
qed

lemma file_pwrite_append:
  "off = length contents \<Longrightarrow> file_pwrite contents off bs = contents @ bs"
  by (simp add: file_pwrite_def)

lemma file_of_put [simp]: "file_of f (put_file f c s) = c"
  by (simp add: file_of_def put_file_def)

lemma file_of_put_other [simp]: "g \<noteq> f \<Longrightarrow> file_of g (put_file f c s) = file_of g s"
  by (simp add: file_of_def put_file_def)

lemma script_put [simp]: "os_script (put_file f c s) = os_script s"
  by (simp add: put_file_def)

text \<open>With an exhausted script every call goes through.\<close>

lemma next_outcome_ok [simp]: "os_script s = [] \<Longrightarrow> next_outcome s = (Inr IoFull, s)"
  by (simp add: next_outcome_def)

lemma File_Write_ok:
  "os_script s = [] \<Longrightarrow> 0 \<le> off \<Longrightarrow>
    File_Write f bs off s = (Inr (), put_file f (file_pwrite (file_of f s) (nat off) bs) s)"
  by (simp add: File_Write_def bindM_def updM_def)

lemma File_Read_ok:
  "os_script s = [] \<Longrightarrow> 0 \<le> off \<Longrightarrow> File_Read f n off s = (Inr (peek (file_of f s) (nat off) n), s)"
  by (simp add: File_Read_def bindM_def getM_def)

lemma File_Fsync_ok:
  "os_script s = [] \<Longrightarrow> File_Fsync f s = (Inr (), s\<lparr>os_synced := (os_synced s)(f := os_files s f)\<rparr>)"
  by (simp add: File_Fsync_def bindM_def updM_def)

lemma File_Open_ok: "os_files s f = Some c \<Longrightarrow> File_Open f creat s = (Inr f, s)"
  by (simp add: File_Open_def bindM_def getM_def retM_def)

lemma write_offset_small:
  "unat pageno < 524288 \<Longrightarrow> unat (write_offset pageno) = PageSize * unat pageno"
  by (simp add: write_offset_def PageSize_def unat_word_ariths)

lemma write_offset_wraps: "unat (write_offset pageno) = PageSize * (unat pageno mod 524288)"
  by (simp add: write_offset_def PageSize_def unat_word_ariths mult_mod_right)

lemma PageNumber_small_valid: "unat pageno < 524288 \<Longrightarrow> PageNumber_IsValid pageno"
  by (auto simp: PageNumber_IsValid_def PageNumber_Invalid_def unsigned_minus_1_eq_mask mask_eq_exp_minus_1)

section \<open>Properties\<close>

text \<open>
  C32. Below page 524288 a page that has been written is read back unchanged, and the write leaves
  every other page of the file that existed before as it was; the number of pages grows to include
  the written page.
\<close>

theorem relfile_write_read:
  assumes "os_script s = []" "length page = PageSize" "unat pageno < 524288"
    and "unat other < 524288" "other \<noteq> pageno" "PageSize * (unat other + 1) \<le> length (file_of f s)"
  shows "\<exists>s'. RelFile_Write f page pageno s = (Inr (), s') \<and>
    RelFile_Read f pageno s' = (Inr page, s') \<and>
    fst (RelFile_Read f other s') = fst (RelFile_Read f other s) \<and>
    length (file_of f s') = max (length (file_of f s)) (PageSize * (unat pageno + 1))"
proof -
  let ?s' = "put_file f (file_pwrite (file_of f s) (PageSize * unat pageno) page) s"
  have ne: "page \<noteq> []" using assms(2) by (auto simp: PageSize_def)
  have w: "RelFile_Write f page pageno s = (Inr (), ?s')"
    using assms(1-3) by (simp add: RelFile_Write_def PageNumber_small_valid File_Write_ok
        write_offset_small nat_mult_distrib)
  have read: "RelFile_Read f p t = (Inr (peek (file_of f t) (PageSize * unat p) PageSize), t)"
    if "os_script t = []" "unat p < 524288" "PageSize * (unat p + 1) \<le> length (file_of f t)" for p and t :: "'a os_state_scheme"
    using that by (simp add: RelFile_Read_def PageNumber_small_valid File_Read_ok bindM_def read_offset_def
        nat_mult_distrib retM_def algebra_simps)
  have len: "length (file_of f ?s') = max (length (file_of f s)) (PageSize * (unat pageno + 1))"
    using length_file_pwrite [OF ne] assms(2) by (simp add: algebra_simps)
  have "unat other \<noteq> unat pageno" using assms(5) by (simp add: word_unat_eq_iff)
  then have "unat other + 1 \<le> unat pageno \<or> unat pageno + 1 \<le> unat other" by linarith
  then have dis: "PageSize * unat other + PageSize \<le> PageSize * unat pageno \<or> PageSize * unat pageno + length page \<le> PageSize * unat other"
    using assms(2) mult_le_mono2 [of "unat other + 1" "unat pageno" PageSize]
      mult_le_mono2 [of "unat pageno + 1" "unat other" PageSize] by (auto simp: algebra_simps)
  have "fst (RelFile_Read f other ?s') = fst (RelFile_Read f other s)"
    using read [of ?s' other] read [of s other] assms(1,4,6) len
      file_pwrite_peek_other [OF ne _ dis, of "file_of f s"]
    by (simp add: algebra_simps)
  moreover have "RelFile_Read f pageno ?s' = (Inr page, ?s')"
    using read [of ?s' pageno] assms(1-3) len file_pwrite_peek [OF ne] by simp
  ultimately show ?thesis using w len by blast
qed

text \<open>
  From page 524288 on the write offset wraps around in 32 bits: writing page \<open>p\<close> stores the
  data where page \<open>p mod 524288\<close> lives, so that reading that other page returns it.
\<close>

theorem relfile_write_wraps:
  assumes "os_script s = []" "length page = PageSize" "524288 \<le> unat pageno" "PageNumber_IsValid pageno"
  shows "\<exists>s'. RelFile_Write f page pageno s = (Inr (), s') \<and>
    RelFile_Read f (word_of_nat (unat pageno mod 524288)) s' = (Inr page, s')"
proof -
  define low where "low = unat pageno mod 524288"
  let ?s' = "put_file f (file_pwrite (file_of f s) (PageSize * low) page) s"
  have ne: "page \<noteq> []" using assms(2) by (auto simp: PageSize_def)
  have lw: "unat (word_of_nat low :: PageNumber) = low" "low < 524288"
    by (simp_all add: low_def unat_of_nat)
  have w: "RelFile_Write f page pageno s = (Inr (), ?s')"
    using assms by (simp add: RelFile_Write_def File_Write_ok write_offset_wraps nat_mult_distrib low_def)
  have "RelFile_Read f (word_of_nat low) ?s' = (Inr page, ?s')"
    using assms(1,2) lw PageNumber_small_valid [of "word_of_nat low"] file_pwrite_peek [OF ne, of "file_of f s" "PageSize * low"]
    by (simp add: RelFile_Read_def File_Read_ok bindM_def read_offset_def nat_mult_distrib retM_def)
  with w show ?thesis by (auto simp: low_def)
qed

definition example_os :: os_state where
  "example_os = \<lparr>os_files = [''data/1'' \<mapsto> replicate PageSize 3], os_synced = Map.empty, os_script = []\<rparr>"

theorem relfile_write_read_witness:
  "\<exists>s'. RelFile_Write ''data/1'' (replicate PageSize 9) 4 example_os = (Inr (), s') \<and>
     RelFile_Read ''data/1'' 4 s' = (Inr (replicate PageSize 9), s') \<and>
     fst (RelFile_Read ''data/1'' 0 s') = fst (RelFile_Read ''data/1'' 0 example_os) \<and>
     length (file_of ''data/1'' s') = PageSize * 5"
  using relfile_write_read [of example_os "replicate PageSize 9" 4 0 "''data/1''"]
  by (simp add: example_os_def file_of_def PageSize_def)

theorem relfile_write_wraps_witness:
  "\<exists>s'. RelFile_Write ''data/1'' (replicate PageSize 9) 524288 example_os = (Inr (), s') \<and>
     RelFile_Read ''data/1'' 0 s' = (Inr (replicate PageSize 9), s')"
  using relfile_write_wraps [of example_os "replicate PageSize 9" 524288 "''data/1''"]
  by (simp add: example_os_def PageNumber_IsValid_def PageNumber_Invalid_def)

end
