(* ===== verification/Mimi_Wal.thy ===== *)
theory Mimi_Wal
  imports Mimi_Storage
begin

text \<open>
  The write-ahead log (\<open>storage/wal/WriteAheadLog.cpp\<close>) and the heap WAL records
  (\<open>access/heap/wal/*.hpp\<close>). Structures are written with their in-memory layout; padding bytes,
  which the C++ standard leaves unspecified, are zero. The latch around the file writes is not part
  of this sequential model.
\<close>

declare le_of_nat_numeral [simp del]

section \<open>Structures in memory\<close>

type_synonym ResourceManagerId = u32
definition RMgr_Invalid :: ResourceManagerId where "RMgr_Invalid = 0"
definition RMgr_Heap :: ResourceManagerId where "RMgr_Heap = 1"

definition oid_bytes :: "Oid \<Rightarrow> byte list" where "oid_bytes v = le_of_nat 4 (unat v)"

definition tid_bytes :: "TupleId \<Rightarrow> byte list" where
  "tid_bytes t = le_of_nat 4 (unat (tid_pageno t)) @ le_of_nat 2 (unat (tid_itemid t)) @ [0, 0]"

definition read_oid :: "byte list \<Rightarrow> nat \<Rightarrow> Oid res" where
  "read_oid mem off = bindR (loadR mem off 4) (\<lambda>bs. Inr (word_of_nat (nat_of_le bs)))"

definition read_tid :: "byte list \<Rightarrow> nat \<Rightarrow> TupleId res" where
  "read_tid mem off = bindR (loadR mem off 8) (\<lambda>bs.
     Inr \<lparr>tid_pageno = word_of_nat (nat_of_le (peek bs 0 4)), tid_itemid = word_of_nat (nat_of_le (peek bs 4 2))\<rparr>)"

text \<open>The serialisers store one field after the other through a moving cursor.\<close>

definition write_fields :: "byte list list \<Rightarrow> byte list \<Rightarrow> nat \<Rightarrow> byte list res" where
  "write_fields fs buffer cursor =
     bindR (foldR (\<lambda>f st. case st of (buf, cur) \<Rightarrow>
       bindR (storeR buf cur f) (\<lambda>buf'. Inr (buf', cur + length f))) fs (buffer, cursor))
     (\<lambda>st. Inr (fst st))"

section \<open>Heap WAL records\<close>

datatype HeapWALRecord =
    InsertHeapWALRecord TupleId "byte list"
  | UpdateHeapWALRecord Oid TupleId TupleId "byte list"
  | DeleteHeapWALRecord Oid TupleId

definition wal_GetType :: "HeapWALRecord \<Rightarrow> byte" where
  "wal_GetType r = (case r of InsertHeapWALRecord _ _ \<Rightarrow> 1 | UpdateHeapWALRecord _ _ _ _ \<Rightarrow> 2
     | DeleteHeapWALRecord _ _ \<Rightarrow> 3)"

definition wal_CalculateSize :: "HeapWALRecord \<Rightarrow> nat" where
  "wal_CalculateSize r = (case r of InsertHeapWALRecord t d \<Rightarrow> 8 + length d
     | UpdateHeapWALRecord x o1 n1 d \<Rightarrow> 4 + 8 + 8 + length d
     | DeleteHeapWALRecord x l \<Rightarrow> 4 + 8)"

definition wal_fields :: "HeapWALRecord \<Rightarrow> byte list list" where
  "wal_fields r = (case r of InsertHeapWALRecord t d \<Rightarrow> [tid_bytes t, d]
     | UpdateHeapWALRecord x o1 n1 d \<Rightarrow> [oid_bytes x, tid_bytes o1, tid_bytes n1, d]
     | DeleteHeapWALRecord x l \<Rightarrow> [oid_bytes x, tid_bytes l])"

definition wal_Serialize :: "HeapWALRecord \<Rightarrow> byte list \<Rightarrow> byte list res" where
  "wal_Serialize r buffer = write_fields (wal_fields r) buffer 0"

section \<open>WriteAheadLog\<close>

record WriteAheadLog =
  wal_path :: string
  wal_end :: u64
  wal_flushed :: u64

record wal_state = os_state +
  ws_wal :: WriteAheadLog

definition SizeOfWALRecordHeader :: nat where "SizeOfWALRecordHeader = 24"

definition wal_header_bytes :: "TransactionId \<Rightarrow> ResourceManagerId \<Rightarrow> nat \<Rightarrow> byte list" where
  "wal_header_bytes xid rmgr len =
     le_of_nat 8 (unat xid) @ le_of_nat 4 (unat rmgr) @ [0, 0, 0, 0] @ le_of_nat 8 len"

definition WAL_Open :: "string \<Rightarrow> ('x os_state_scheme, WriteAheadLog) cm" where
  "WAL_Open path =
     bindM (File_Open path True) (\<lambda>file.
     bindM (File_Size file) (\<lambda>n.
     retM \<lparr>wal_path = path, wal_end = word_of_int n, wal_flushed = word_of_int n\<rparr>))"

definition WriteLogRecord :: "TransactionId \<Rightarrow> HeapWALRecord \<Rightarrow> ('x wal_state_scheme, LogSeqNumber) cm" where
  "WriteLogRecord xid record =
     (let header = wal_header_bytes xid RMgr_Heap (wal_CalculateSize record) in
      bindM (liftR (wal_Serialize record (replicate (wal_CalculateSize record) 0))) (\<lambda>buffer.
      bindM (getM ws_wal) (\<lambda>w.
      let offset = wal_end w in
      thenM (File_Write (wal_path w) header (sint offset)) (
      let offset1 = offset + word_of_nat SizeOfWALRecordHeader in
      thenM (File_Write (wal_path w) buffer (sint offset1)) (
      let offset2 = offset1 + word_of_nat (length buffer) in
      thenM (updM (\<lambda>s. s\<lparr>ws_wal := w\<lparr>wal_end := offset2\<rparr>\<rparr>))
        (retM (offset2 + 1)))))))"

definition WAL_Flush :: "LogSeqNumber \<Rightarrow> ('x wal_state_scheme, unit) cm" where
  "WAL_Flush lsn =
     thenM (assertM ''lsn.IsValid()'' (Lsn_IsValid lsn))
     (bindM (getM ws_wal) (\<lambda>w.
      let pos = lsn - 1 in
      if wal_flushed w \<le> pos then retM ()
      else thenM (File_Fsync (wal_path w))
        (updM (\<lambda>s. s\<lparr>ws_wal := w\<lparr>wal_flushed := wal_end w\<rparr>\<rparr>))))"

section \<open>Lemmas\<close>

lemma length_tid_bytes [simp]: "length (tid_bytes t) = 8"
  by (simp add: tid_bytes_def)

lemma length_oid_bytes [simp]: "length (oid_bytes t) = 4"
  by (simp add: oid_bytes_def)

lemma length_wal_header [simp]: "length (wal_header_bytes xid rmgr n) = 24"
  by (simp add: wal_header_bytes_def)

lemma read_oid_bytes [simp]: "off = length pre \<Longrightarrow> read_oid (pre @ oid_bytes v @ rest) off = Inr v"
  by (simp add: read_oid_def peek_def oid_bytes_def word_of_le_bytes)

lemma read_tid_bytes [simp]: "off = length pre \<Longrightarrow> read_tid (pre @ tid_bytes t @ rest) off = Inr t"
  by (simp add: read_tid_def peek_def tid_bytes_def word_of_le_bytes)

lemma write_fields_step:
  "foldR (\<lambda>f st. case st of (buf, cur) \<Rightarrow> bindR (storeR buf cur f) (\<lambda>buf'. Inr (buf', cur + length f)))
     fs (pre @ rest, length pre)
   = Inr (pre @ concat fs @ drop (length (concat fs)) rest, length pre + length (concat fs))"
  if "length (concat fs) \<le> length rest"
  using that
proof (induction fs arbitrary: pre rest)
  case Nil
  then show ?case by simp
next
  case (Cons f fs)
  have "storeR (pre @ rest) (length pre) f = Inr ((pre @ f) @ drop (length f) rest)"
    using Cons.prems by (simp add: poke_append_right)
  with Cons.IH [of "drop (length f) rest" "pre @ f"] Cons.prems show ?case
    by (simp add: add.assoc add.commute)
qed

lemma write_fields_ok:
  assumes "length (concat fs) \<le> length rest"
  shows "write_fields fs (pre @ rest) (length pre) = Inr (pre @ concat fs @ drop (length (concat fs)) rest)"
  by (simp add: write_fields_def write_fields_step [OF assms])

lemma length_wal_fields: "length (concat (wal_fields r)) = wal_CalculateSize r"
  by (cases r) (simp_all add: wal_fields_def wal_CalculateSize_def)

lemma wal_Serialize_ok:
  "wal_Serialize r (replicate (wal_CalculateSize r) 0) = Inr (concat (wal_fields r))"
  using write_fields_ok [of "wal_fields r" "replicate (wal_CalculateSize r) 0" "[]"]
  by (simp add: wal_Serialize_def length_wal_fields)

definition wal_ok :: "'x wal_state_scheme \<Rightarrow> bool" where
  "wal_ok s \<longleftrightarrow> os_script s = [] \<and>
     unat (wal_end (ws_wal s)) = length (file_of (wal_path (ws_wal s)) s) \<and>
     unat (wal_end (ws_wal s)) < 2 ^ 62 \<and> wal_flushed (ws_wal s) \<le> wal_end (ws_wal s)"

definition wal_image :: "TransactionId \<Rightarrow> HeapWALRecord \<Rightarrow> byte list" where
  "wal_image xid r = wal_header_bytes xid RMgr_Heap (wal_CalculateSize r) @ concat (wal_fields r)"

lemma length_wal_image: "length (wal_image xid r) = 24 + wal_CalculateSize r"
  by (simp add: wal_image_def length_wal_fields)

lemma ws_wal_put [simp]: "ws_wal (put_file f c s) = ws_wal s"
  by (simp add: put_file_def)

lemma sint_small64: "unat (w :: u64) < 2 ^ 63 \<Longrightarrow> sint w = int (unat w)"
  using sint_nonneg_small [of w] by simp

lemma unat_add_small: "unat w + n < 2 ^ 64 \<Longrightarrow> unat (w + word_of_nat n :: u64) = unat w + n"
  by (simp add: unat_word_ariths unat_of_nat mod_add_right_eq)

lemma WriteLogRecord_eq:
  fixes xid :: TransactionId
  assumes ok: "wal_ok s" and sz: "unat (wal_end (ws_wal s)) + 24 + wal_CalculateSize r < 2 ^ 62"
  defines "w \<equiv> ws_wal s" and "n \<equiv> length (wal_image xid r)"
  shows "WriteLogRecord xid r s =
    (Inr (wal_end w + word_of_nat n + 1),
     (put_file (wal_path w) (file_of (wal_path w) s @ wal_image xid r) s)\<lparr>ws_wal := w\<lparr>wal_end := wal_end w + word_of_nat n\<rparr>\<rparr>)"
proof -
  let ?h = "wal_header_bytes xid RMgr_Heap (wal_CalculateSize r)"
  let ?s1 = "put_file (wal_path w) (file_of (wal_path w) s @ ?h) s"
  have e: "sint (wal_end w) = int (length (file_of (wal_path w) s))" "os_script s = []"
    using ok by (simp_all add: wal_ok_def w_def sint_small64)
  have "unat (wal_end w + word_of_nat 24) = unat (wal_end w) + 24"
    using sz by (intro unat_add_small) (simp add: w_def)
  then have e1: "sint (wal_end w + word_of_nat 24) = int (length (file_of (wal_path w) s) + 24)"
    using ok sz by (simp add: wal_ok_def w_def sint_small64)
  have w1: "File_Write (wal_path w) ?h (sint (wal_end w)) s = (Inr (), ?s1)"
    by (simp add: e File_Write_ok file_pwrite_append)
  have w2: "File_Write (wal_path w) (concat (wal_fields r)) (sint (wal_end w + word_of_nat 24)) ?s1
      = (Inr (), put_file (wal_path w) (file_of (wal_path w) s @ wal_image xid r) ?s1)"
    using e1 by (simp add: e(2) File_Write_ok file_pwrite_append wal_image_def)
  have n: "wal_end w + word_of_nat 24 + word_of_nat (length (concat (wal_fields r))) = wal_end w + word_of_nat n"
    by (simp add: n_def wal_image_def)
  show ?thesis
    unfolding WriteLogRecord_def SizeOfWALRecordHeader_def Let_def thenM_def
    by (simp add: bindM_def liftR_def wal_Serialize_ok getM_def w_def [symmetric] w1 w2 n updM_def retM_def
        del: of_nat_numeral) (simp add: put_file_def)
qed

lemma wal_write_ok:
  assumes "wal_ok s" "unat (wal_end (ws_wal s)) + 24 + wal_CalculateSize r < 2 ^ 62"
  shows "\<exists>lsn s'. WriteLogRecord xid r s = (Inr lsn, s') \<and> wal_ok s' \<and>
    file_of (wal_path (ws_wal s)) s' = file_of (wal_path (ws_wal s)) s @ wal_image xid r \<and>
    wal_path (ws_wal s') = wal_path (ws_wal s) \<and>
    unat lsn = length (file_of (wal_path (ws_wal s)) s') + 1 \<and> os_synced s' = os_synced s"
proof -
  define w where "w = ws_wal s"
  define n where "n = 24 + wal_CalculateSize r"
  have un: "unat (wal_end w + word_of_nat n) = unat (wal_end w) + n"
    using assms(2) by (intro unat_add_small) (simp add: n_def w_def)
  have lt: "unat (wal_end w) + n < 2 ^ 62" using assms(2) by (simp add: n_def w_def)
  have "unat (wal_end w + word_of_nat n + 1) = unat (wal_end w) + n + 1"
    using un lt unat_add_small [of "wal_end w + word_of_nat n" 1] by simp
  moreover have "wal_flushed w \<le> wal_end w + word_of_nat n"
    using assms(1) un by (simp add: wal_ok_def w_def word_le_nat_alt)
  ultimately show ?thesis
    using assms(1) un lt unfolding WriteLogRecord_eq [OF assms, of xid]
    by (simp add: wal_ok_def length_wal_image n_def w_def [symmetric])
      (simp add: wal_ok_def w_def put_file_def file_of_def length_wal_image)
qed

section \<open>Properties\<close>

text \<open>
  C31. Writing a WAL record appends exactly its header and payload to the log file, keeps everything
  logged before, advances the end of the log by the size of the record, and returns an LSN one past
  the new end, above every LSN handed out before.
\<close>

theorem wal_write_appends:
  assumes "wal_ok s" "unat (wal_end (ws_wal s)) + 24 + wal_CalculateSize r < 2 ^ 62"
  shows "\<exists>lsn s'. WriteLogRecord xid r s = (Inr lsn, s') \<and> wal_ok s' \<and>
    file_of (wal_path (ws_wal s)) s' = file_of (wal_path (ws_wal s)) s @ wal_image xid r \<and>
    wal_path (ws_wal s') = wal_path (ws_wal s) \<and>
    unat lsn = length (file_of (wal_path (ws_wal s)) s') + 1 \<and> os_synced s' = os_synced s"
  using wal_write_ok [OF assms] .


text \<open>
  \<open>Flush\<close> returns without syncing exactly when the position asked for has not been flushed yet:
  after a record has been written, flushing up to its LSN changes nothing, so that the record is not
  on disk although the caller asked for it.
\<close>

theorem wal_flush_skips_unflushed:
  assumes "wal_ok s" "unat (wal_end (ws_wal s)) + 24 + wal_CalculateSize r < 2 ^ 62"
    and "WriteLogRecord xid r s = (Inr lsn, s')"
  shows "WAL_Flush lsn s' = (Inr (), s')"
proof -
  define w where "w = ws_wal s"
  define n where "n = 24 + wal_CalculateSize r"
  have un: "unat (wal_end w + word_of_nat n) = unat (wal_end w) + n" "unat (wal_end w) + n < 2 ^ 62"
    using assms(2) unat_add_small [of "wal_end w" n] by (simp_all add: n_def w_def)
  have lsn: "lsn = wal_end w + word_of_nat n + 1" and ws: "ws_wal s' = w\<lparr>wal_end := wal_end w + word_of_nat n\<rparr>"
    using assms(3) unfolding WriteLogRecord_eq [OF assms(1,2), of xid]
    by (auto simp: w_def n_def length_wal_image)
  have "unat lsn = unat (wal_end w) + n + 1"
    using un unat_add_small [of "wal_end w + word_of_nat n" 1] by (simp add: lsn)
  then have "lsn \<noteq> 0" by auto
  moreover have "wal_flushed w \<le> wal_end w + word_of_nat n"
    using assms(1) un by (simp add: wal_ok_def w_def word_le_nat_alt)
  ultimately show ?thesis
    by (simp add: WAL_Flush_def thenM_def bindM_def assertM_def Lsn_IsValid_def Lsn_Invalid_def getM_def ws
        Let_def retM_def) (simp add: lsn)
qed

text \<open>
  The log does not record the type of a heap record: an insert of four bytes and a delete can
  have the same bytes in the log, for every transaction, so no reader could tell them apart.
\<close>

theorem wal_type_not_recorded:
  "\<exists>d. wal_image xid (InsertHeapWALRecord \<lparr>tid_pageno = p, tid_itemid = 0\<rparr> d) =
     wal_image xid (DeleteHeapWALRecord p \<lparr>tid_pageno = 0, tid_itemid = i\<rparr>)"
proof -
  have "tid_bytes \<lparr>tid_pageno = p, tid_itemid = 0\<rparr> @ (le_of_nat 2 (unat i) @ [0, 0])
      = oid_bytes p @ tid_bytes \<lparr>tid_pageno = 0, tid_itemid = i\<rparr>"
    by (simp add: tid_bytes_def oid_bytes_def le_of_nat_numeral)
  then show ?thesis
    by (intro exI [of _ "le_of_nat 2 (unat i) @ [0, 0]"])
      (simp add: wal_image_def wal_fields_def wal_CalculateSize_def)
qed

definition example_wal :: wal_state where
  "example_wal = \<lparr>os_files = [''wal'' \<mapsto> []], os_synced = Map.empty, os_script = [],
     ws_wal = \<lparr>wal_path = ''wal'', wal_end = 0, wal_flushed = 0\<rparr>\<rparr>"

definition example_wal_record :: HeapWALRecord where
  "example_wal_record = DeleteHeapWALRecord 1 \<lparr>tid_pageno = 0, tid_itemid = 3\<rparr>"

lemma example_wal_ok: "wal_ok example_wal"
  "unat (wal_end (ws_wal example_wal)) + 24 + wal_CalculateSize example_wal_record < 2 ^ 62"
  by (simp_all add: wal_ok_def example_wal_def file_of_def example_wal_record_def wal_CalculateSize_def)

theorem wal_write_appends_witness:
  "\<exists>lsn s'. WriteLogRecord 7 example_wal_record example_wal = (Inr lsn, s') \<and> wal_ok s' \<and>
     file_of ''wal'' s' = wal_image 7 example_wal_record \<and> unat lsn = 37"
  using wal_write_appends [OF example_wal_ok, of 7]
  by (auto simp: example_wal_def file_of_def length_wal_image example_wal_record_def wal_CalculateSize_def)

theorem wal_flush_skips_unflushed_witness:
  "\<exists>lsn s'. WriteLogRecord 7 example_wal_record example_wal = (Inr lsn, s') \<and>
     WAL_Flush lsn s' = (Inr (), s') \<and> os_synced s' ''wal'' = None"
proof -
  obtain lsn s' where w: "WriteLogRecord 7 example_wal_record example_wal = (Inr lsn, s')"
    using WriteLogRecord_eq [OF example_wal_ok, of 7] by blast
  moreover have "os_synced s' = os_synced example_wal"
    using WriteLogRecord_eq [OF example_wal_ok, of 7] w by (auto simp: put_file_def)
  ultimately show ?thesis
    using wal_flush_skips_unflushed [OF example_wal_ok w] by (auto simp: example_wal_def)
qed

end
