(* ===== verification/Mimi_Undo.thy ===== *)
theory Mimi_Undo
  imports Mimi_Wal
begin

text \<open>
  The undo log (\<open>storage/undo/UndoLog.cpp\<close>), the heap undo records and their parser
  (\<open>access/heap/undo/*\<close>, \<open>HeapResourceManager::ParseUndo\<close>) and the registry of resource managers.
  A record is written with a 24-byte header and padded to 8 bytes; its sequence number is its file
  offset plus one. The lemmas show that every record stays readable under its number, whatever is
  appended later.
\<close>

unbundle bit_operations_syntax

declare le_of_nat_numeral [simp del]

section \<open>Heap undo records\<close>

datatype HeapUndoRecord =
    DeleteUndoRecord Oid TupleId
  | UpdateUndoRecord Oid TupleId TupleId "byte list"
  | InsertUndoRecord Oid TupleId "byte list"

definition undo_GetType :: "HeapUndoRecord \<Rightarrow> byte" where
  "undo_GetType r = (case r of DeleteUndoRecord _ _ \<Rightarrow> 1 | UpdateUndoRecord _ _ _ _ \<Rightarrow> 2
     | InsertUndoRecord _ _ _ \<Rightarrow> 3)"

definition undo_CalculateSize :: "HeapUndoRecord \<Rightarrow> nat" where
  "undo_CalculateSize r = (case r of DeleteUndoRecord x t \<Rightarrow> 4 + 8
     | UpdateUndoRecord x o1 n1 d \<Rightarrow> 4 + 8 + 8 + length d
     | InsertUndoRecord x l d \<Rightarrow> 4 + 8 + length d)"

definition undo_fields :: "HeapUndoRecord \<Rightarrow> byte list list" where
  "undo_fields r = (case r of DeleteUndoRecord x t \<Rightarrow> [oid_bytes x, tid_bytes t]
     | UpdateUndoRecord x o1 n1 d \<Rightarrow> [oid_bytes x, tid_bytes o1, tid_bytes n1, d]
     | InsertUndoRecord x l d \<Rightarrow> [oid_bytes x, tid_bytes l, d])"

definition undo_Serialize :: "HeapUndoRecord \<Rightarrow> byte list \<Rightarrow> nat \<Rightarrow> byte list res" where
  "undo_Serialize r buffer cursor = write_fields (undo_fields r) buffer cursor"

text \<open>\<open>std::vector<std::byte>(n)\<close>: a size that wrapped below zero exceeds \<open>max_size()\<close>.\<close>

definition vector_size :: "nat \<Rightarrow> nat \<Rightarrow> nat res" where
  "vector_size len k = (if k \<le> len then Inr (len - k) else Inl (LogicError ''cannot create std::vector larger than max_size()''))"

definition ParseUndo :: "byte \<Rightarrow> byte list \<Rightarrow> HeapUndoRecord res" where
  "ParseUndo t data =
     (let len = length data in
      if t = 1 then
        (if len \<noteq> 12 then Inl (RuntimeError ''record size does not match'')
         else bindR (read_oid data 0) (\<lambda>tableId.
              bindR (read_tid data 4) (\<lambda>tupleId.
              Inr (DeleteUndoRecord tableId tupleId))))
      else if t = 2 then
        bindR (read_oid data 0) (\<lambda>tableId.
        bindR (read_tid data 4) (\<lambda>oldLocation.
        bindR (read_tid data 12) (\<lambda>newLocation.
        bindR (vector_size len 20) (\<lambda>n.
        bindR (loadR data 20 n) (\<lambda>tupleData.
        Inr (UpdateUndoRecord tableId oldLocation newLocation tupleData))))))
      else if t = 3 then
        bindR (read_oid data 0) (\<lambda>tableId.
        bindR (read_tid data 4) (\<lambda>location.
        bindR (vector_size len 12) (\<lambda>n.
        bindR (loadR data 12 n) (\<lambda>tupleData.
        Inr (InsertUndoRecord tableId location tupleData)))))
      else Inl (RuntimeError (''unknown heap record type: '' @ nat_to_string (unat t))))"

section \<open>Resource managers\<close>

datatype IResourceManager = HeapResourceManager

definition MaxResourceManagers :: nat where "MaxResourceManagers = 128"

type_synonym ResourceManagerRegistry = "IResourceManager option list"

definition GetManager :: "ResourceManagerRegistry \<Rightarrow> ResourceManagerId \<Rightarrow> IResourceManager res" where
  "GetManager reg rmgrId = bindR (vec_at reg (unat rmgrId)) (\<lambda>m.
     case m of None \<Rightarrow> Inl (RuntimeError ''No resource manager registered'') | Some mgr \<Rightarrow> Inr mgr)"

definition RegisterManager :: "ResourceManagerId \<Rightarrow> IResourceManager \<Rightarrow> ResourceManagerRegistry \<Rightarrow> ResourceManagerRegistry res" where
  "RegisterManager rmgrId mgr reg = bindR (vec_at reg (unat rmgrId)) (\<lambda>m.
     case m of Some _ \<Rightarrow> Inl (RuntimeError ''Resource manager already exists'')
     | None \<Rightarrow> Inr (reg[unat rmgrId := Some mgr]))"

section \<open>UndoLog\<close>

record UndoLog =
  ul_path :: string
  ul_size :: int

record undo_state = wal_state +
  us_undo :: UndoLog
  us_registry :: ResourceManagerRegistry

record UndoLogRecordHeader =
  uh_Xid :: TransactionId
  uh_ResourceManager :: ResourceManagerId
  uh_RecordType :: byte
  uh_DataLength :: u64

definition SizeOfUndoLogRecordHeader :: nat where "SizeOfUndoLogRecordHeader = 24"

definition undo_header_bytes :: "UndoLogRecordHeader \<Rightarrow> byte list" where
  "undo_header_bytes h = le_of_nat 8 (unat (uh_Xid h)) @ le_of_nat 4 (unat (uh_ResourceManager h)) @
     [uh_RecordType h, 0, 0, 0] @ le_of_nat 8 (unat (uh_DataLength h))"

definition undo_header_of_bytes :: "byte list \<Rightarrow> UndoLogRecordHeader" where
  "undo_header_of_bytes bs = \<lparr>uh_Xid = word_of_nat (nat_of_le (peek bs 0 8)),
     uh_ResourceManager = word_of_nat (nat_of_le (peek bs 8 4)), uh_RecordType = bs ! 12,
     uh_DataLength = word_of_nat (nat_of_le (peek bs 16 8))\<rparr>"

definition UndoLog_Open :: "string \<Rightarrow> ('x os_state_scheme, UndoLog) cm" where
  "UndoLog_Open path =
     bindM (File_Open path True) (\<lambda>file.
     bindM (File_Size file) (\<lambda>n. retM \<lparr>ul_path = path, ul_size = n\<rparr>))"

definition read_header :: "File \<Rightarrow> int \<Rightarrow> ('x os_state_scheme, UndoLogRecordHeader) cm" where
  "read_header file offset =
     bindM (File_Read file SizeOfUndoLogRecordHeader offset) (\<lambda>bs.
     if length bs \<noteq> SizeOfUndoLogRecordHeader then raiseM (RuntimeError ''could not read UndoLogRecordHeader'')
     else retM (undo_header_of_bytes bs))"

definition format_undo_record :: "TransactionId \<Rightarrow> HeapUndoRecord \<Rightarrow> byte list res" where
  "format_undo_record xid record =
     (let n = undo_CalculateSize record;
          fullSize = SizeOfUndoLogRecordHeader + unat (MaxAlign (word_of_nat n));
          buffer = replicate fullSize 0;
          header = \<lparr>uh_Xid = xid, uh_ResourceManager = RMgr_Heap, uh_RecordType = undo_GetType record,
                    uh_DataLength = word_of_nat n\<rparr> in
      bindR (storeR buffer 0 (undo_header_bytes header)) (\<lambda>buffer1.
      undo_Serialize record buffer1 SizeOfUndoLogRecordHeader))"

definition getCurrentUSN :: "UndoLog \<Rightarrow> UndoSeqNumber" where
  "getCurrentUSN u = word_of_int (ul_size u + 1)"

definition UndoLog_InsertUndoRecord :: "TransactionId \<Rightarrow> HeapUndoRecord \<Rightarrow> ('x undo_state_scheme, UndoSeqNumber) cm" where
  "UndoLog_InsertUndoRecord xid record =
     bindM (getM us_undo) (\<lambda>u.
     bindM (File_Open (ul_path u) False) (\<lambda>file.
     bindM (liftR (format_undo_record xid record)) (\<lambda>buffer.
     thenM (File_Write file buffer (ul_size u)) (
     thenM (File_Fsync file) (
     thenM (updM (\<lambda>s. s\<lparr>us_undo := u\<lparr>ul_size := ul_size u + int (length buffer)\<rparr>\<rparr>))
       (retM (getCurrentUSN u)))))))"

text \<open>The part that \<open>GetRecord\<close> and \<open>PerformUndo\<close> share: header, manager, payload, parse.\<close>

definition read_record :: "UndoSeqNumber \<Rightarrow> ('x undo_state_scheme, HeapUndoRecord \<times> IResourceManager) cm" where
  "read_record usn =
     bindM (getM us_undo) (\<lambda>u.
     bindM (File_Open (ul_path u) False) (\<lambda>file.
     let offset = sint usn - 1 in
     bindM (read_header file offset) (\<lambda>header.
     bindM (getM us_registry) (\<lambda>reg.
     bindM (liftR (GetManager reg (uh_ResourceManager header))) (\<lambda>manager.
     let n = unat (uh_DataLength header) in
     bindM (File_Read file n (offset + int SizeOfUndoLogRecordHeader)) (\<lambda>buffer.
     if length buffer \<noteq> n then raiseM (RuntimeError ''could not read UndoLogRecordHeader'')
     else bindM (liftR (ParseUndo (uh_RecordType header) buffer)) (\<lambda>record. retM (record, manager))))))))"

definition UndoLog_GetRecord :: "UndoSeqNumber \<Rightarrow> ('x undo_state_scheme, HeapUndoRecord) cm" where
  "UndoLog_GetRecord usn =
     thenM (assertM ''usn.IsValid()'' (Usn_IsValid usn))
     (bindM (read_record usn) (\<lambda>(record, manager). retM record))"

text \<open>
  \<open>PerformUndo\<close> hands the parsed record to its manager; what the heap manager does with it is the
  argument \<open>apply\<close>, given by the heap component.
\<close>

definition UndoLog_PerformUndo ::
    "(HeapUndoRecord \<Rightarrow> UndoSeqNumber \<Rightarrow> ('x undo_state_scheme, unit) cm) \<Rightarrow> UndoSeqNumber \<Rightarrow> ('x undo_state_scheme, unit) cm" where
  "UndoLog_PerformUndo apply_undo usn =
     bindM (read_record usn) (\<lambda>(record, manager).
       case manager of HeapResourceManager \<Rightarrow> apply_undo record usn)"

section \<open>VirtualUndoLog\<close>

type_synonym VirtualUndoLog = "UndoSeqNumber list"

definition VUndo_InsertRecord :: "TransactionId \<Rightarrow> HeapUndoRecord \<Rightarrow> VirtualUndoLog \<Rightarrow>
    ('x undo_state_scheme, UndoSeqNumber \<times> VirtualUndoLog) cm" where
  "VUndo_InsertRecord xid record history =
     bindM (UndoLog_InsertUndoRecord xid record) (\<lambda>usn. retM (usn, history @ [usn]))"

primrec undo_each :: "(HeapUndoRecord \<Rightarrow> UndoSeqNumber \<Rightarrow> ('x undo_state_scheme, unit) cm) \<Rightarrow> UndoSeqNumber list \<Rightarrow>
    ('x undo_state_scheme, unit) cm" where
  "undo_each apply_undo [] = retM ()"
| "undo_each apply_undo (usn # usns) = thenM (UndoLog_PerformUndo apply_undo usn) (undo_each apply_undo usns)"

definition VUndo_UndoAllRecords :: "(HeapUndoRecord \<Rightarrow> UndoSeqNumber \<Rightarrow> ('x undo_state_scheme, unit) cm) \<Rightarrow> VirtualUndoLog \<Rightarrow>
    ('x undo_state_scheme, VirtualUndoLog) cm" where
  "VUndo_UndoAllRecords apply_undo history = thenM (undo_each apply_undo (rev history)) (retM [])"

definition VUndo_LastUSN :: "VirtualUndoLog \<Rightarrow> UndoSeqNumber" where
  "VUndo_LastUSN history = (if history \<noteq> [] then last history else Usn_Invalid)"

section \<open>Records read back\<close>

lemma length_undo_fields: "length (concat (undo_fields r)) = undo_CalculateSize r"
  by (cases r) (simp_all add: undo_fields_def undo_CalculateSize_def)

lemma ParseUndo_fields: "ParseUndo (undo_GetType r) (concat (undo_fields r)) = Inr r"
proof (cases r)
  case (DeleteUndoRecord x t)
  then show ?thesis
    using read_oid_bytes [of 0 "[]" x "tid_bytes t"] read_tid_bytes [of 4 "oid_bytes x" t "[]"]
    by (simp add: ParseUndo_def undo_GetType_def undo_fields_def)
next
  case (UpdateUndoRecord x o1 n1 d)
  then show ?thesis
    using read_oid_bytes [of 0 "[]" x "tid_bytes o1 @ tid_bytes n1 @ d"]
      read_tid_bytes [of 4 "oid_bytes x" o1 "tid_bytes n1 @ d"]
      read_tid_bytes [of 12 "oid_bytes x @ tid_bytes o1" n1 d]
    by (simp add: ParseUndo_def undo_GetType_def undo_fields_def vector_size_def peek_def)
next
  case (InsertUndoRecord x l d)
  then show ?thesis
    using read_oid_bytes [of 0 "[]" x "tid_bytes l @ d"] read_tid_bytes [of 4 "oid_bytes x" l d]
    by (simp add: ParseUndo_def undo_GetType_def undo_fields_def vector_size_def peek_def)
qed

definition undo_header :: "TransactionId \<Rightarrow> HeapUndoRecord \<Rightarrow> UndoLogRecordHeader" where
  "undo_header xid r = \<lparr>uh_Xid = xid, uh_ResourceManager = RMgr_Heap, uh_RecordType = undo_GetType r,
     uh_DataLength = word_of_nat (undo_CalculateSize r)\<rparr>"

lemma length_undo_header_bytes [simp]: "length (undo_header_bytes h) = 24"
  by (simp add: undo_header_bytes_def)

lemma undo_header_round_trip: "undo_header_of_bytes (undo_header_bytes h) = h"
  by (simp add: undo_header_of_bytes_def undo_header_bytes_def peek_def word_of_le_bytes nth_append)

definition undo_image :: "TransactionId \<Rightarrow> HeapUndoRecord \<Rightarrow> byte list" where
  "undo_image xid r = undo_header_bytes (undo_header xid r) @ concat (undo_fields r) @
     replicate (align8 (undo_CalculateSize r) - undo_CalculateSize r) 0"

lemma length_undo_image: "length (undo_image xid r) = 24 + align8 (undo_CalculateSize r)"
  using align8_le(1) [of "undo_CalculateSize r"] by (simp add: undo_image_def length_undo_fields)

lemma format_undo_record_image:
  assumes "undo_CalculateSize r < 2 ^ 62"
  shows "format_undo_record xid r = Inr (undo_image xid r)"
proof -
  let ?n = "undo_CalculateSize r"
  have al: "unat (MaxAlign (word_of_nat ?n)) = align8 ?n" using assms by (simp add: unat_MaxAlign)
  have le: "?n \<le> align8 ?n" by (rule align8_le)
  have st: "storeR (replicate (24 + align8 ?n) 0) 0 (undo_header_bytes (undo_header xid r))
      = Inr (undo_header_bytes (undo_header xid r) @ replicate (align8 ?n) 0)"
    by (simp add: poke_def)
  show ?thesis
    using le write_fields_ok [of "undo_fields r" "replicate (align8 ?n) 0" "undo_header_bytes (undo_header xid r)"]
    by (simp add: format_undo_record_def Let_def al SizeOfUndoLogRecordHeader_def st [simplified] undo_header_def [symmetric]
        undo_Serialize_def undo_image_def length_undo_fields)
qed

text \<open>The record number \<open>usn\<close> is stored in the file contents \<open>c\<close>.\<close>

definition entry_at :: "byte list \<Rightarrow> UndoSeqNumber \<Rightarrow> HeapUndoRecord \<Rightarrow> bool" where
  "entry_at c usn r \<longleftrightarrow> (\<exists>off xid rest. usn = word_of_nat (off + 1) \<and> off + length (undo_image xid r) \<le> length c \<and>
     drop off c = undo_image xid r @ rest)"

definition undo_inv :: "nat \<Rightarrow> 'x undo_state_scheme \<Rightarrow> (UndoSeqNumber \<times> HeapUndoRecord) list \<Rightarrow> bool" where
  "undo_inv room s es \<longleftrightarrow> os_script s = [] \<and>
     (\<exists>c. os_files s (ul_path (us_undo s)) = Some c \<and> ul_size (us_undo s) = int (length c) \<and>
       length c + room < 2 ^ 62 \<and> (\<forall>(usn, r)\<in>set es. entry_at c usn r)) \<and>
     length (us_registry s) = MaxResourceManagers \<and> us_registry s ! 1 = Some HeapResourceManager"

lemma entry_at_append:
  assumes "entry_at c usn r"
  shows "entry_at (c @ d) usn r"
proof -
  obtain off xid rest where "usn = word_of_nat (off + 1)" "off + length (undo_image xid r) \<le> length c"
    "drop off c = undo_image xid r @ rest" using assms unfolding entry_at_def by blast
  then show ?thesis unfolding entry_at_def
    by (intro exI [of _ off] exI [of _ xid] exI [of _ "rest @ d"]) simp
qed

lemma read_record_entry:
  assumes inv: "undo_inv room s es" and m: "(usn, r) \<in> set es"
  shows "read_record usn s = (Inr (r, HeapResourceManager), s) \<and> Usn_IsValid usn"
proof -
  define u where "u = us_undo s"
  obtain c where c: "os_files s (ul_path u) = Some c" "length c + room < 2 ^ 62" "entry_at c usn r"
    and reg: "length (us_registry s) = 128" "us_registry s ! 1 = Some HeapResourceManager" and scr: "os_script s = []"
    using inv m by (auto simp: undo_inv_def u_def MaxResourceManagers_def)
  obtain off xid rest where e: "usn = word_of_nat (off + 1)" "off + length (undo_image xid r) \<le> length c"
    "drop off c = undo_image xid r @ rest" using c(3) unfolding entry_at_def by blast
  let ?n = "undo_CalculateSize r"
  have n: "?n < 2 ^ 62" using e(2) c(2) align8_le(1) [of ?n] by (simp add: length_undo_image)
  have off: "off + 1 < 2 ^ 62" using e(2) c(2) by (simp add: length_undo_image)
  then have us: "unat usn = off + 1" by (simp only: e(1) unat_of_nat) simp
  then have si: "sint usn = int off + 1" using off sint_small64 [of usn] by simp
  have valid: "Usn_IsValid usn"
  proof -
    have "usn \<noteq> 0" using us by auto
    moreover have "sint Usn_Max = 2 ^ 62 - 1" by (simp add: Usn_Max_def mask_eq_exp_minus_1)
    ultimately show ?thesis using si off by (simp add: Usn_IsValid_def Usn_Invalid_def)
  qed
  have h: "peek c off 24 = undo_header_bytes (undo_header xid r)"
    using e(3) by (simp add: peek_def undo_image_def)
  have d: "peek c (off + 24) ?n = concat (undo_fields r)"
  proof -
    have "drop (off + 24) c = drop 24 (drop off c)" by (simp add: add.commute)
    then show ?thesis using e(3) by (simp add: peek_def undo_image_def length_undo_fields)
  qed
  have f: "file_of (ul_path u) s = c" using c by (simp add: file_of_def)
  have rh: "read_header (ul_path u) (int off) s = (Inr (undo_header xid r), s)"
    by (simp add: read_header_def bindM_def File_Read_ok scr f SizeOfUndoLogRecordHeader_def h retM_def undo_header_round_trip)
  have gm: "GetManager (us_registry s) (uh_ResourceManager (undo_header xid r)) = Inr HeapResourceManager"
    using reg by (simp add: GetManager_def undo_header_def RMgr_Heap_def)
  have dl: "unat (uh_DataLength (undo_header xid r)) = ?n"
    using n by (simp add: undo_header_def unat_of_nat)
  have "nat (int off + 24) = off + 24" by simp
  then have fr: "File_Read (ul_path u) ?n (int off + 24) s = (Inr (concat (undo_fields r)), s)"
    by (simp add: File_Read_ok scr f d)
  have pu: "ParseUndo (uh_RecordType (undo_header xid r)) (concat (undo_fields r)) = Inr r"
    by (simp add: undo_header_def ParseUndo_fields)
  show ?thesis using valid
    by (simp add: read_record_def bindM_def getM_def u_def [symmetric] File_Open_ok [OF c(1)] si rh Let_def gm dl
        SizeOfUndoLogRecordHeader_def fr liftR_def pu length_undo_fields retM_def)
qed

lemma InsertUndoRecord_eq:
  fixes xid :: TransactionId
  assumes inv: "undo_inv room s es" and n: "24 + align8 (undo_CalculateSize r) \<le> room"
  defines "u \<equiv> us_undo s" and "im \<equiv> undo_image xid r"
  shows "UndoLog_InsertUndoRecord xid r s = (Inr (getCurrentUSN u), s\<lparr>os_files := (os_files s)(ul_path u \<mapsto> file_of (ul_path u) s @ im),
    os_synced := (os_synced s)(ul_path u := Some (file_of (ul_path u) s @ im)), us_undo := u\<lparr>ul_size := ul_size u + int (length im)\<rparr>\<rparr>)"
proof -
  obtain c where c: "os_files s (ul_path u) = Some c" "ul_size u = int (length c)" "length c + room < 2 ^ 62" and scr: "os_script s = []"
    using inv by (auto simp: undo_inv_def u_def)
  have im: "format_undo_record xid r = Inr im" unfolding im_def
    using n c(3) align8_le(1) [of "undo_CalculateSize r"] by (intro format_undo_record_image) linarith
  have f: "file_of (ul_path u) s = c" using c(1) by (simp add: file_of_def)
  let ?s1 = "put_file (ul_path u) (c @ im) s"
  have w: "File_Write (ul_path u) im (ul_size u) s = (Inr (), ?s1)"
    by (simp add: File_Write_ok scr c(2) f file_pwrite_append)
  have y: "File_Fsync (ul_path u) ?s1 = (Inr (), ?s1\<lparr>os_synced := (os_synced ?s1)(ul_path u := os_files ?s1 (ul_path u))\<rparr>)"
    by (simp add: File_Fsync_ok scr)
  show ?thesis
    by (simp add: UndoLog_InsertUndoRecord_def bindM_def getM_def u_def [symmetric] File_Open_ok [OF c(1)] liftR_def im
        thenM_def w y updM_def retM_def f) (simp add: put_file_def)
qed

lemma undo_inv_insert:
  assumes inv: "undo_inv room s es" and n: "24 + align8 (undo_CalculateSize r) \<le> room"
    and s': "os_files s' (ul_path (us_undo s)) = Some (file_of (ul_path (us_undo s)) s @ undo_image xid r)" "os_script s' = []"
      "us_undo s' = (us_undo s)\<lparr>ul_size := ul_size (us_undo s) + int (length (undo_image xid r))\<rparr>" "us_registry s' = us_registry s"
  shows "undo_inv (room - (24 + align8 (undo_CalculateSize r))) s' (es @ [(getCurrentUSN (us_undo s), r)])"
proof -
  define u where "u = us_undo s"
  obtain c where c: "os_files s (ul_path u) = Some c" "ul_size u = int (length c)" "length c + room < 2 ^ 62"
    "\<forall>(usn, r)\<in>set es. entry_at c usn r" and reg: "length (us_registry s) = MaxResourceManagers" "us_registry s ! 1 = Some HeapResourceManager"
    using inv by (auto simp: undo_inv_def u_def)
  let ?im = "undo_image xid r"
  have f: "file_of (ul_path u) s = c" using c(1) by (simp add: file_of_def)
  have "entry_at (c @ ?im) (getCurrentUSN u) r"
    unfolding entry_at_def getCurrentUSN_def c(2)
    by (intro exI [of _ "length c"] exI [of _ xid] exI [of _ "[]"]) simp
  moreover note s2 = s' [folded u_def, unfolded f]
  moreover have "\<forall>(usn, r)\<in>set es. entry_at (c @ ?im) usn r" using c(4) entry_at_append [of c _ _ ?im] by blast
  ultimately show ?thesis using reg c(2,3) n unfolding u_def [symmetric]
    by (simp add: undo_inv_def length_undo_image)
qed

lemma InsertUndoRecord_inv:
  assumes "undo_inv room s es" "24 + align8 (undo_CalculateSize r) \<le> room"
  shows "\<exists>usn s'. UndoLog_InsertUndoRecord xid r s = (Inr usn, s') \<and>
    undo_inv (room - (24 + align8 (undo_CalculateSize r))) s' (es @ [(usn, r)]) \<and>
    os_synced s' (ul_path (us_undo s)) = os_files s' (ul_path (us_undo s))"
proof -
  define u where "u = us_undo s"
  define c where "c = file_of (ul_path u) s @ undo_image xid r"
  define s' where "s' = s\<lparr>os_files := (os_files s)(ul_path u \<mapsto> c), os_synced := (os_synced s)(ul_path u := Some c),
    us_undo := u\<lparr>ul_size := ul_size u + int (length (undo_image xid r))\<rparr>\<rparr>"
  have "UndoLog_InsertUndoRecord xid r s = (Inr (getCurrentUSN u), s')"
    using InsertUndoRecord_eq [OF assms, of xid] by (simp add: u_def c_def s'_def)
  moreover have "undo_inv (room - (24 + align8 (undo_CalculateSize r))) s' (es @ [(getCurrentUSN u, r)])"
    using undo_inv_insert [OF assms, of s' xid] assms(1) by (simp add: u_def [symmetric] c_def [symmetric] s'_def) (simp add: undo_inv_def)
  ultimately show ?thesis by (auto simp: s'_def u_def)
qed

section \<open>The interface of an append-only record log\<close>

text \<open>
  What the users of a log rely on: appending returns a key and leaves every earlier record readable,
  reading changes nothing.
\<close>

locale record_log =
  fixes inv :: "nat \<Rightarrow> 's \<Rightarrow> ('k \<times> 'r) list \<Rightarrow> bool"
    and append_rec :: "'r \<Rightarrow> 's \<Rightarrow> 'k res \<times> 's"
    and get_rec :: "'k \<Rightarrow> 's \<Rightarrow> 'r res \<times> 's"
    and cost :: "'r \<Rightarrow> nat"
  assumes append_ok: "inv room s es \<Longrightarrow> cost r \<le> room \<Longrightarrow>
      \<exists>k s'. append_rec r s = (Inr k, s') \<and> inv (room - cost r) s' (es @ [(k, r)])"
    and get_ok: "inv room s es \<Longrightarrow> (k, r) \<in> set es \<Longrightarrow> get_rec k s = (Inr r, s)"
begin

primrec append_all :: "'r list \<Rightarrow> 's \<Rightarrow> 'k list res \<times> 's" where
  "append_all [] s = (Inr [], s)"
| "append_all (r # rs) s = (case append_rec r s of
     (Inl e, s') \<Rightarrow> (Inl e, s')
   | (Inr k, s') \<Rightarrow> (case append_all rs s' of (Inl e, s'') \<Rightarrow> (Inl e, s'') | (Inr ks, s'') \<Rightarrow> (Inr (k # ks), s'')))"

lemma append_all_ok:
  assumes "inv room s es" "sum_list (map cost rs) \<le> room"
  shows "\<exists>ks s'. append_all rs s = (Inr ks, s') \<and> length ks = length rs \<and>
    inv (room - sum_list (map cost rs)) s' (es @ zip ks rs)"
  using assms
proof (induction rs arbitrary: s es room)
  case Nil
  then show ?case by simp
next
  case (Cons r rs)
  then obtain k s1 where 1: "append_rec r s = (Inr k, s1)" "inv (room - cost r) s1 (es @ [(k, r)])"
    using append_ok [of room s es r] by auto
  have "sum_list (map cost rs) \<le> room - cost r" using Cons.prems(2) by simp
  with Cons.IH [OF 1(2)] obtain ks s2 where "append_all rs s1 = (Inr ks, s2)" "length ks = length rs"
    "inv (room - cost r - sum_list (map cost rs)) s2 ((es @ [(k, r)]) @ zip ks rs)" by blast
  with 1 show ?case by auto
qed

lemma all_readable:
  assumes "inv room s es" "sum_list (map cost rs) \<le> room"
  shows "\<exists>ks s'. append_all rs s = (Inr ks, s') \<and> length ks = length rs \<and>
    (\<forall>i<length rs. get_rec (ks ! i) s' = (Inr (rs ! i), s')) \<and>
    (\<forall>(k, r)\<in>set es. get_rec k s' = (Inr r, s'))"
proof -
  obtain ks s' where a: "append_all rs s = (Inr ks, s')" "length ks = length rs"
    "inv (room - sum_list (map cost rs)) s' (es @ zip ks rs)"
    using append_all_ok [OF assms] by blast
  have "(ks ! i, rs ! i) \<in> set (es @ zip ks rs)" if "i < length rs" for i
    using that a(2) by (auto simp: in_set_zip)
  then show ?thesis using a get_ok [OF a(3)] by fastforce
qed

end

definition undo_cost :: "HeapUndoRecord \<Rightarrow> nat" where
  "undo_cost r = 24 + align8 (undo_CalculateSize r)"

lemma UndoLog_GetRecord_entry:
  "undo_inv room s es \<Longrightarrow> (usn, r) \<in> set es \<Longrightarrow> UndoLog_GetRecord usn s = (Inr r, s)"
  using read_record_entry [of room s es usn r]
  by (simp add: UndoLog_GetRecord_def thenM_def bindM_def assertM_def retM_def)

interpretation undo_log: record_log undo_inv "UndoLog_InsertUndoRecord xid" UndoLog_GetRecord undo_cost
  for xid
proof
  fix room s es r
  assume "undo_inv room s es" "undo_cost r \<le> room"
  then show "\<exists>k s'. UndoLog_InsertUndoRecord xid r s = (Inr k, s') \<and> undo_inv (room - undo_cost r) s' (es @ [(k, r)])"
    using InsertUndoRecord_inv [of room s es r xid] by (auto simp: undo_cost_def)
qed (use UndoLog_GetRecord_entry in blast)

text \<open>The history a \<open>VirtualUndoLog\<close> collects for a list of records.\<close>

primrec VUndo_InsertAll :: "TransactionId \<Rightarrow> HeapUndoRecord list \<Rightarrow> VirtualUndoLog \<Rightarrow>
    ('x undo_state_scheme, VirtualUndoLog) cm" where
  "VUndo_InsertAll xid [] history = retM history"
| "VUndo_InsertAll xid (r # rs) history =
     bindM (VUndo_InsertRecord xid r history) (\<lambda>(usn, history'). VUndo_InsertAll xid rs history')"

lemma VUndo_InsertAll_append:
  assumes "undo_log.append_all xid rs s = (Inr ks, s')"
  shows "VUndo_InsertAll xid rs history s = (Inr (history @ ks), s')"
  using assms
proof (induction rs arbitrary: s ks history)
  case Nil
  then show ?case by (simp add: retM_def)
next
  case (Cons r rs)
  then show ?case
    by (auto simp: VUndo_InsertRecord_def bindM_def retM_def split: prod.splits sum.splits)
qed

section \<open>Properties\<close>

text \<open>
  C30. Every undo record a transaction inserts is readable under the number it got, also after all
  the later inserts, together with every record that was in the log before; the transaction's
  history lists the numbers in order.
\<close>

theorem undo_history_readable:
  assumes "undo_inv room s es" "sum_list (map undo_cost rs) \<le> room"
  shows "\<exists>usns s'. VUndo_InsertAll xid rs history s = (Inr (history @ usns), s') \<and> length usns = length rs \<and>
    (\<forall>i<length rs. UndoLog_GetRecord (usns ! i) s' = (Inr (rs ! i), s')) \<and>
    (\<forall>(usn, r)\<in>set es. UndoLog_GetRecord usn s' = (Inr r, s'))"
  using undo_log.all_readable [OF assms, of xid] VUndo_InsertAll_append by blast

definition example_undo :: undo_state where
  "example_undo = \<lparr>os_files = [''undo'' \<mapsto> []], os_synced = Map.empty, os_script = [],
     ws_wal = \<lparr>wal_path = ''wal'', wal_end = 0, wal_flushed = 0\<rparr>,
     us_undo = \<lparr>ul_path = ''undo'', ul_size = 0\<rparr>,
     us_registry = (replicate 128 None)[1 := Some HeapResourceManager]\<rparr>"

lemma example_undo_inv: "undo_inv 1000 example_undo []"
  by (simp add: undo_inv_def example_undo_def MaxResourceManagers_def)

definition example_undo_records :: "HeapUndoRecord list" where
  "example_undo_records = [DeleteUndoRecord 1 \<lparr>tid_pageno = 0, tid_itemid = 4\<rparr>,
     InsertUndoRecord 1 \<lparr>tid_pageno = 0, tid_itemid = 2\<rparr> [1, 2, 3]]"

theorem undo_history_readable_witness:
  "\<exists>usns s'. VUndo_InsertAll 9 example_undo_records [] example_undo = (Inr usns, s') \<and> length usns = 2 \<and>
     UndoLog_GetRecord (usns ! 0) s' = (Inr (example_undo_records ! 0), s') \<and>
     UndoLog_GetRecord (usns ! 1) s' = (Inr (example_undo_records ! 1), s')"
proof -
  have "sum_list (map undo_cost example_undo_records) \<le> 1000"
    by (simp add: example_undo_records_def undo_cost_def undo_CalculateSize_def align8_def)
  from undo_history_readable [OF example_undo_inv this, of 9 "[]"]
  obtain usns s' where a: "VUndo_InsertAll 9 example_undo_records [] example_undo = (Inr usns, s')" "length usns = 2"
    "\<forall>i<2. UndoLog_GetRecord (usns ! i) s' = (Inr (example_undo_records ! i), s')"
    by (auto simp: example_undo_records_def numeral_2_eq_2)
  then show ?thesis by (intro exI [of _ usns] exI [of _ s']) simp
qed

text \<open>
  Parsing the serialised form of an undo record returns the record, for each of the three
  types; and a formatted record is the header followed by the fields, padded with zeros to 8 bytes.
\<close>

theorem undo_record_round_trip:
  assumes "undo_CalculateSize r < 2 ^ 62"
  shows "format_undo_record xid r = Inr (undo_image xid r) \<and>
    ParseUndo (undo_GetType r) (take (undo_CalculateSize r) (drop 24 (undo_image xid r))) = Inr r \<and>
    undo_header_of_bytes (take 24 (undo_image xid r)) = undo_header xid r"
  using assms by (simp add: format_undo_record_image undo_image_def length_undo_fields ParseUndo_fields
      undo_header_round_trip)

theorem undo_record_round_trip_witness:
  "format_undo_record 9 (example_undo_records ! 1) = Inr (undo_image 9 (example_undo_records ! 1)) \<and>
   length (undo_image 9 (example_undo_records ! 1)) = 40"
  using undo_record_round_trip [of "example_undo_records ! 1" 9]
  by (simp add: example_undo_records_def undo_CalculateSize_def length_undo_image align8_def)

text \<open>
  A short write by the kernel is not noticed: the insert still succeeds and hands out a number
  whose record cannot be read, since only the part that was written is in the file.
\<close>

theorem undo_short_write_unnoticed:
  assumes "undo_inv room s es" "24 + align8 (undo_CalculateSize r) \<le> room" "k < 24"
  shows "\<exists>usn s'. UndoLog_InsertUndoRecord xid r (s\<lparr>os_script := [IoPartial k]\<rparr>) = (Inr usn, s') \<and>
    UndoLog_GetRecord usn s' = (Inl (RuntimeError ''could not read UndoLogRecordHeader''), s')"
proof -
  define u where "u = us_undo s"
  obtain c where c: "os_files s (ul_path u) = Some c" "ul_size u = int (length c)" "length c + room < 2 ^ 62"
    using assms(1) by (auto simp: undo_inv_def u_def)
  let ?im = "undo_image xid r"
  let ?s = "s\<lparr>os_script := [IoPartial k]\<rparr>"
  have im: "format_undo_record xid r = Inr ?im"
    using assms(2) c(3) align8_le(1) [of "undo_CalculateSize r"] by (intro format_undo_record_image) linarith
  have f: "file_of (ul_path u) ?s = c" "us_undo ?s = u" "os_files ?s (ul_path u) = Some c"
    using c(1) by (simp_all add: file_of_def u_def)
  let ?c = "c @ take k ?im"
  let ?s1 = "put_file (ul_path u) ?c (s\<lparr>os_script := []\<rparr>)"
  have w: "File_Write (ul_path u) ?im (ul_size u) ?s = (Inr (), ?s1)"
    using c(1,2) by (simp add: File_Write_def bindM_def next_outcome_def updM_def file_pwrite_append file_of_def)
  let ?s3 = "?s1\<lparr>os_synced := (os_synced ?s1)(ul_path u := os_files ?s1 (ul_path u)),
      us_undo := u\<lparr>ul_size := ul_size u + int (length ?im)\<rparr>\<rparr>"
  have eq: "UndoLog_InsertUndoRecord xid r ?s = (Inr (getCurrentUSN u), ?s3)"
    by (simp add: UndoLog_InsertUndoRecord_def bindM_def getM_def f File_Open_ok [OF f(3)] liftR_def im
        thenM_def w File_Fsync_ok updM_def retM_def)
  have us: "unat (getCurrentUSN u) = length c + 1"
  proof -
    have "getCurrentUSN u = word_of_nat (length c + 1)" by (simp add: getCurrentUSN_def c(2))
    then show ?thesis using c(3) by (simp only: unat_of_nat) simp
  qed
  then have si: "sint (getCurrentUSN u) = int (length c) + 1" using c(3) sint_small64 [of "getCurrentUSN u"] by simp
  have "getCurrentUSN u \<noteq> 0" using us by auto
  moreover have "sint Usn_Max = 2 ^ 62 - 1" by (simp add: Usn_Max_def mask_eq_exp_minus_1)
  ultimately have valid: "Usn_IsValid (getCurrentUSN u)"
    using si c(3) assms(2) by (simp add: Usn_IsValid_def Usn_Invalid_def)
  have o3: "File_Open (ul_path u) False ?s3 = (Inr (ul_path u), ?s3)"
    by (rule File_Open_ok [of _ _ ?c]) (simp add: put_file_def)
  have "file_of (ul_path u) ?s3 = ?c" by (simp add: file_of_def put_file_def)
  then have "File_Read (ul_path u) 24 (int (length c)) ?s3 = (Inr (take k ?im), ?s3)"
    using assms(3) by (subst File_Read_ok) (simp_all add: peek_def put_file_def)
  moreover have "length (take k ?im) \<noteq> 24" using assms(3) by (simp add: length_undo_image)
  ultimately have rh: "read_header (ul_path u) (int (length c)) ?s3 = (Inl (RuntimeError ''could not read UndoLogRecordHeader''), ?s3)"
    by (simp add: read_header_def bindM_def SizeOfUndoLogRecordHeader_def raiseM_def)
  have "UndoLog_GetRecord (getCurrentUSN u) ?s3 = (Inl (RuntimeError ''could not read UndoLogRecordHeader''), ?s3)"
    using o3 rh by (simp add: UndoLog_GetRecord_def thenM_def assertM_def valid read_record_def bindM_def getM_def si Let_def)
  with eq show ?thesis by blast
qed

theorem undo_short_write_unnoticed_witness:
  "\<exists>usn s'. UndoLog_InsertUndoRecord 9 (example_undo_records ! 0) (example_undo\<lparr>os_script := [IoPartial 3]\<rparr>) = (Inr usn, s') \<and>
    UndoLog_GetRecord usn s' = (Inl (RuntimeError ''could not read UndoLogRecordHeader''), s')"
  using undo_short_write_unnoticed [OF example_undo_inv, of "example_undo_records ! 0" 3 9]
  by (simp add: example_undo_records_def undo_CalculateSize_def align8_def)

end
