(* ===== verification/Mimi_Tuple.thy ===== *)
theory Mimi_Tuple
  imports Mimi_Types
begin

text \<open>
  The tuple serialiser (\<open>access/tuple/TupleSerializer.cpp\<close>) and the heap tuple serialiser around it
  (\<open>access/heap/HeapTupleSerializer.cpp\<close>). \<open>Serialize\<close> makes three passes over the attributes: the
  size pass, the pass that streams the null bitmap bit by bit, and the data pass that moves a cursor
  through the buffer. The specification gives the image of a tuple directly; the lemmas show that
  the passes produce that image, that the buffer is filled exactly, and that \<open>Deserialize\<close>, which
  reads the bitmap by index, inverts it.
\<close>

unbundle bit_operations_syntax

section \<open>Serialisation\<close>

record SerializedTupleInfo =
  sti_Tuple :: "byte list"
  sti_HasNulls :: bool

record DeserializedTuple =
  dt_Values :: "Datum list"
  dt_IsNull :: "bool list"

text \<open>The 32-bit length field a by-reference variable-size value starts with.\<close>

definition var_length :: "byte list \<Rightarrow> u32 res" where
  "var_length data = bindR (loadR data 0 4) (\<lambda>bs. Inr (word_of_nat (nat_of_le bs)))"

definition size_pass :: "TupleDescriptor \<Rightarrow> Datum list \<Rightarrow> bool list \<Rightarrow> nat \<Rightarrow> nat \<times> bool \<Rightarrow> (nat \<times> bool) res" where
  "size_pass attrs values isnull idx st = (case st of (tupsize, hasnulls) \<Rightarrow>
     bindR (vec_at isnull idx) (\<lambda>null.
     if null then Inr (tupsize, True)
     else bindR (vec_at attrs idx) (\<lambda>attrdesc.
       if ad_byVal attrdesc then
         bindR (assertR ''attrdesc.Length() > 0'' (ad_length attrdesc > 0)) (\<lambda>_.
         Inr (tupsize + nat (ad_length attrdesc), hasnulls))
       else if ad_length attrdesc > 0 then Inr (tupsize + nat (ad_length attrdesc), hasnulls)
       else
         bindR (vec_at values idx) (\<lambda>d.
         bindR (getPointer d) (\<lambda>p.
         bindR (var_length p) (\<lambda>len.
         bindR (assertR ''length > 0'' (len > 0)) (\<lambda>_.
         Inr (tupsize + 4 + unat len, hasnulls))))))))"

record bitmap_cursor =
  bc_buffer :: "byte list"
  bc_bitmap :: int
  bc_bitmask :: nat

definition highbit :: nat where "highbit = 0x80"

definition bitmap_pass :: "bool list \<Rightarrow> nat \<Rightarrow> bitmap_cursor \<Rightarrow> bitmap_cursor res" where
  "bitmap_pass isnull idx c =
     (let c1 = (if bc_bitmask c = highbit then c\<lparr>bc_bitmask := 1, bc_bitmap := bc_bitmap c + 1\<rparr>
                else c\<lparr>bc_bitmask := 2 * bc_bitmask c\<rparr>)
      in bindR (vec_at isnull idx) (\<lambda>null.
         if null then Inr c1
         else if 0 \<le> bc_bitmap c1 \<and> nat (bc_bitmap c1) < length (bc_buffer c1)
         then Inr (c1\<lparr>bc_buffer := (bc_buffer c1)[nat (bc_bitmap c1) :=
                bc_buffer c1 ! nat (bc_bitmap c1) OR word_of_nat (bc_bitmask c1)]\<rparr>)
         else Inl (Undefined ''null bitmap write past the block'')))"

definition data_pass :: "TupleDescriptor \<Rightarrow> Datum list \<Rightarrow> bool list \<Rightarrow> nat \<Rightarrow> byte list \<times> nat \<Rightarrow> (byte list \<times> nat) res" where
  "data_pass attrs values isnull idx st = (case st of (buffer, cursor) \<Rightarrow>
     bindR (vec_at isnull idx) (\<lambda>null.
     if null then Inr (buffer, cursor)
     else bindR (vec_at values idx) (\<lambda>v.
       bindR (vec_at attrs idx) (\<lambda>attr.
       if ad_byVal attr then
         (if ad_length attr \<in> {1, 2, 4, 8}
          then let n = nat (ad_length attr) in
            bindR (getScalar v) (\<lambda>x.
            bindR (storeR buffer cursor (le_of_nat n (unat x))) (\<lambda>buffer'.
            Inr (buffer', cursor + n)))
          else Inl (RuntimeError ''invalid by val attr length''))
       else if ad_length attr > 0 then
         (let n = nat (ad_length attr) in
          bindR (getPointer v) (\<lambda>p.
          bindR (loadR p 0 n) (\<lambda>bs.
          bindR (storeR buffer cursor bs) (\<lambda>buffer'.
          Inr (buffer', cursor + n)))))
       else
          bindR (getPointer v) (\<lambda>p.
          bindR (var_length p) (\<lambda>len.
          bindR (storeR buffer cursor (le_of_nat 4 (unat len))) (\<lambda>buffer1.
          let cursor1 = cursor + 4; n = unat (scast len :: u64) in
          bindR (loadR p 4 n) (\<lambda>bs.
          bindR (storeR buffer1 cursor1 bs) (\<lambda>buffer2.
          Inr (buffer2, cursor1 + unat len))))))))))"

definition Serialize :: "TupleDescriptor \<Rightarrow> Datum list \<Rightarrow> bool list \<Rightarrow> SerializedTupleInfo res" where
  "Serialize desc values isnull =
     (let maxAttno = GetMaxAttrNumber desc in
      bindR (attr_loop maxAttno (size_pass desc values isnull) (0, False)) (\<lambda>(valsize, hasnulls).
      let bmsize = (if hasnulls then BitmapSize (unat maxAttno) else 0);
          buffer = replicate (valsize + bmsize) 0 in
      bindR (if hasnulls then
               bindR (storeR buffer 0 (replicate bmsize 0)) (\<lambda>buffer1.
               bindR (attr_loop maxAttno (bitmap_pass isnull)
                 \<lparr>bc_buffer = buffer1, bc_bitmap = - 1, bc_bitmask = highbit\<rparr>) (\<lambda>c.
               Inr (bc_buffer c, bmsize)))
             else Inr (buffer, 0)) (\<lambda>start.
      bindR (attr_loop maxAttno (data_pass desc values isnull) start) (\<lambda>(buffer3, cursor).
      Inr \<lparr>sti_Tuple = buffer3, sti_HasNulls = hasnulls\<rparr>))))"

section \<open>Deserialisation\<close>

text \<open>
  A value of an integer type of \<open>n\<close> bytes read into a datum is sign extended to 64 bits.
\<close>

definition read_scalar :: "byte list \<Rightarrow> nat \<Rightarrow> nat \<Rightarrow> u64 res" where
  "read_scalar mem off n =
     bindR (loadR mem off n) (\<lambda>bs. Inr (signed_take_bit (8 * n - 1) (word_of_nat (nat_of_le bs))))"

definition extract_attr_datum :: "byte list \<Rightarrow> nat \<Rightarrow> AttributeDescriptor \<Rightarrow> (Datum \<times> nat) res" where
  "extract_attr_datum mem cursor desc =
     (if ad_byVal desc then
        bindR (assertR ''length > 0'' (ad_length desc \<noteq> 0)) (\<lambda>_.
        if ad_length desc \<in> {1, 2, 4, 8}
        then let n = nat (ad_length desc) in
          bindR (read_scalar mem cursor n) (\<lambda>v. Inr (Scalar v, n))
        else Inl (AssertFail ''false''))
      else if ad_length desc > 0 then
        (if cursor \<le> length mem then Inr (Ref (drop cursor mem), nat (ad_length desc))
         else Inl (Undefined ''pointer past the block''))
      else
        bindR (loadR mem cursor 4) (\<lambda>bs.
        let dataLen = sint (word_of_nat (nat_of_le bs) :: u32) in
        if dataLen < 0 then Inl (Undefined ''pointer before the block'')
        else Inr (Ref (drop cursor mem), 4 + nat dataLen)))"

definition read_null :: "byte list \<Rightarrow> nat \<Rightarrow> bool list \<Rightarrow> bool list res" where
  "read_null mem idx isnull =
     (if drop_bit 3 idx < length mem \<and> idx < length isnull
      then Inr (isnull[idx := \<not> bit (mem ! drop_bit 3 idx) (idx AND 7)])
      else Inl (Undefined ''null bitmap read past the block''))"

definition read_attr :: "TupleDescriptor \<Rightarrow> byte list \<Rightarrow> bool \<Rightarrow> bool list \<Rightarrow> nat \<Rightarrow> Datum list \<times> nat
    \<Rightarrow> (Datum list \<times> nat) res" where
  "read_attr attributes mem hasnulls isnull num st = (case st of (values, cursor) \<Rightarrow>
     if hasnulls \<and> isnull ! num then Inr (values, cursor)
     else bindR (vec_at attributes num) (\<lambda>desc.
       bindR (extract_attr_datum mem cursor desc) (\<lambda>(v, len).
       Inr (values[num := v], cursor + len))))"

definition Deserialize :: "TupleDescriptor \<Rightarrow> byte list \<Rightarrow> bool \<Rightarrow> DeserializedTuple res" where
  "Deserialize desc mem hasnulls =
     (let maxattno = GetMaxAttrNumber desc;
          values = replicate (unat maxattno) (Scalar 0);
          isnull = replicate (unat maxattno) False in
      bindR (if hasnulls
             then bindR (attr_loop maxattno (read_null mem) isnull) (\<lambda>isnull'.
                  Inr (isnull', BitmapSize (unat maxattno)))
             else Inr (replicate (unat maxattno) False, 0)) (\<lambda>(isnull1, cursor).
      bindR (attr_loop maxattno (read_attr desc mem hasnulls isnull1) (values, cursor)) (\<lambda>(values1, cursor1).
      Inr \<lparr>dt_Values = values1, dt_IsNull = isnull1\<rparr>)))"

section \<open>Heap tuples\<close>

record HeapPageTupleHeader =
  th_xid :: TransactionId
  th_undo :: UndoSeqNumber
  th_flags :: u64

definition HeapTupleFlags_Deleted :: u64 where "HeapTupleFlags_Deleted = 1"
definition HeapTupleFlags_HasNulls :: u64 where "HeapTupleFlags_HasNulls = 2"

record HeapPageTuple =
  hpt_header :: HeapPageTupleHeader
  hpt_values :: "Datum list"
  hpt_isnull :: "bool list"

definition SizeOfHeapPageTupleHeader :: nat where "SizeOfHeapPageTupleHeader = 24"

definition tuple_header_bytes :: "HeapPageTupleHeader \<Rightarrow> byte list" where
  "tuple_header_bytes h =
     le_of_nat 8 (unat (th_xid h)) @ le_of_nat 8 (unat (th_undo h)) @ le_of_nat 8 (unat (th_flags h))"

definition read_tuple_header :: "byte list \<Rightarrow> nat \<Rightarrow> HeapPageTupleHeader res" where
  "read_tuple_header mem off =
     bindR (loadR mem off SizeOfHeapPageTupleHeader) (\<lambda>bs.
     Inr \<lparr>th_xid = word_of_nat (nat_of_le (peek bs 0 8)),
          th_undo = word_of_nat (nat_of_le (peek bs 8 8)),
          th_flags = word_of_nat (nat_of_le (peek bs 16 8))\<rparr>)"

definition HeapTuple_Serialize :: "HeapPageTuple \<Rightarrow> TupleDescriptor \<Rightarrow> byte list res" where
  "HeapTuple_Serialize tup desc =
     bindR (Serialize desc (hpt_values tup) (hpt_isnull tup)) (\<lambda>sti.
     let header = (hpt_header tup)\<lparr>th_flags := if sti_HasNulls sti then HeapTupleFlags_HasNulls else 0\<rparr>
     in Inr (tuple_header_bytes header @ sti_Tuple sti))"

definition HeapTuple_Deserialize :: "byte list \<Rightarrow> TupleDescriptor \<Rightarrow> HeapPageTuple res" where
  "HeapTuple_Deserialize mem desc =
     bindR (read_tuple_header mem 0) (\<lambda>header.
     bindR (Deserialize desc (drop SizeOfHeapPageTupleHeader mem)
              (th_flags header AND HeapTupleFlags_HasNulls \<noteq> 0)) (\<lambda>dt.
     Inr \<lparr>hpt_header = header, hpt_values = dt_Values dt, hpt_isnull = dt_IsNull dt\<rparr>))"

section \<open>Specification\<close>

text \<open>The bytes of an attribute, and the values the serialiser is meant for.\<close>

definition var_size :: "byte list \<Rightarrow> nat" where
  "var_size p = nat_of_le (take 4 p)"

definition attr_image :: "AttributeDescriptor \<Rightarrow> Datum \<Rightarrow> byte list" where
  "attr_image attr d = (case d of
     Scalar v \<Rightarrow> le_of_nat (nat (ad_length attr)) (unat v)
   | Ref p \<Rightarrow> if ad_length attr > 0 then take (nat (ad_length attr)) p else take (4 + var_size p) p)"

definition wf_attr :: "AttributeDescriptor \<Rightarrow> Datum \<Rightarrow> bool" where
  "wf_attr attr d \<longleftrightarrow> (case d of
     Scalar v \<Rightarrow> ad_byVal attr \<and> ad_length attr \<in> {1, 2, 4, 8}
   | Ref p \<Rightarrow> \<not> ad_byVal attr \<and>
       (if ad_length attr > 0 then nat (ad_length attr) \<le> length p
        else 4 \<le> length p \<and> 0 < var_size p \<and> var_size p < 2 ^ 31 \<and> 4 + var_size p \<le> length p))"

definition wf_tuple :: "TupleDescriptor \<Rightarrow> Datum list \<Rightarrow> bool list \<Rightarrow> bool" where
  "wf_tuple desc values isnull \<longleftrightarrow>
     length desc < 65535 \<and> length values = length desc \<and> length isnull = length desc \<and>
     (\<forall>i<length desc. isnull ! i \<or> wf_attr (desc ! i) (values ! i))"

definition null_bitmap :: "bool list \<Rightarrow> byte list" where
  "null_bitmap isnull = map (\<lambda>j. horner_sum of_bool 2
       (map (\<lambda>k. 8 * j + k < length isnull \<and> \<not> isnull ! (8 * j + k)) [0..<8]))
     [0..<BitmapSize (length isnull)]"

definition data_image :: "TupleDescriptor \<Rightarrow> Datum list \<Rightarrow> bool list \<Rightarrow> nat \<Rightarrow> byte list" where
  "data_image desc values isnull n =
     concat (map (\<lambda>i. if isnull ! i then [] else attr_image (desc ! i) (values ! i)) [0..<n])"

definition tuple_image :: "TupleDescriptor \<Rightarrow> Datum list \<Rightarrow> bool list \<Rightarrow> byte list" where
  "tuple_image desc values isnull =
     (if True \<in> set isnull then null_bitmap isnull else []) @
     data_image desc values isnull (length desc)"

text \<open>A datum read back: the scalar sign extended from its width, or a pointer to the same bytes.\<close>

definition same_datum :: "AttributeDescriptor \<Rightarrow> Datum \<Rightarrow> Datum \<Rightarrow> bool" where
  "same_datum attr d d' \<longleftrightarrow> (case (d, d') of
     (Scalar v, Scalar v') \<Rightarrow> v' = signed_take_bit (8 * nat (ad_length attr) - 1) v
   | (Ref p, Ref p') \<Rightarrow> attr_image attr (Ref p') = attr_image attr (Ref p)
   | _ \<Rightarrow> False)"

definition same_tuple :: "TupleDescriptor \<Rightarrow> Datum list \<Rightarrow> bool list \<Rightarrow> DeserializedTuple \<Rightarrow> bool" where
  "same_tuple desc values isnull dt \<longleftrightarrow>
     dt_IsNull dt = isnull \<and> length (dt_Values dt) = length desc \<and>
     (\<forall>i<length desc. if isnull ! i then dt_Values dt ! i = Scalar 0
        else same_datum (desc ! i) (values ! i) (dt_Values dt ! i))"

section \<open>The passes against the specification\<close>

lemma GetMaxAttrNumber_small [simp]:
  "length desc < 65535 \<Longrightarrow> unat (GetMaxAttrNumber desc) = length desc"
  by (simp add: GetMaxAttrNumber_def unat_of_nat)

lemma data_image_Suc:
  "data_image desc values isnull (Suc n) = data_image desc values isnull n @
     (if isnull ! n then [] else attr_image (desc ! n) (values ! n))"
  by (simp add: data_image_def)

lemma data_image_0 [simp]: "data_image desc values isnull 0 = []"
  by (simp add: data_image_def)

lemma data_image_mono:
  "m \<le> n \<Longrightarrow> \<exists>rest. data_image desc values isnull n = data_image desc values isnull m @ rest"
  by (induction n rule: dec_induct) (auto simp: data_image_Suc)

lemma var_length_ok:
  assumes "4 \<le> length p"
  shows "\<exists>len. var_length p = Inr len \<and> unat len = var_size p"
proof -
  have "nat_of_le (take 4 p) < 256 ^ 4"
    using nat_of_le_bound [of "take 4 p"] assms by (simp add: min_absorb2)
  then show ?thesis
    using assms by (simp add: var_length_def var_size_def peek_def unat_of_nat)
qed

lemma var_size_bytes: "4 \<le> length p \<Longrightarrow> le_of_nat 4 (var_size p) = take 4 p"
  unfolding var_size_def by (rule le_of_nat_nat_of_le) simp

lemma length_attr_image_byVal [simp]: "length (attr_image attr (Scalar v)) = nat (ad_length attr)"
  by (simp add: attr_image_def)

lemma size_pass_step:
  assumes "wf_tuple desc values isnull" "i < length desc"
    "st = (length (data_image desc values isnull i), \<exists>j<i. isnull ! j)"
  shows "size_pass desc values isnull i st
    = Inr (length (data_image desc values isnull (Suc i)), \<exists>j<Suc i. isnull ! j)"
proof (cases "isnull ! i")
  case True
  then show ?thesis using assms
    by (auto simp: size_pass_def wf_tuple_def data_image_Suc)
next
  case False
  then have wf: "wf_attr (desc ! i) (values ! i)" using assms by (auto simp: wf_tuple_def)
  have ex: "(\<exists>j<Suc i. isnull ! j) = (\<exists>j<i. isnull ! j)" using False by (auto simp: less_Suc_eq)
  have len: "i < length isnull" "i < length values" using assms by (auto simp: wf_tuple_def)
  show ?thesis
  proof (cases "values ! i")
    case (Scalar v)
    then show ?thesis using assms(2,3) wf False len ex
      by (auto simp: size_pass_def data_image_Suc wf_attr_def)
  next
    case (Ref p)
    show ?thesis
    proof (cases "ad_length (desc ! i) > 0")
      case True
      then show ?thesis using assms(2,3) wf False len ex Ref
        by (auto simp: size_pass_def data_image_Suc wf_attr_def attr_image_def)
    next
      case varlen: False
      with wf Ref have p: "4 \<le> length p" "0 < var_size p" "4 + var_size p \<le> length p"
        "\<not> ad_byVal (desc ! i)" by (auto simp: wf_attr_def)
      obtain len where l: "var_length p = Inr len" "unat len = var_size p"
        using var_length_ok [OF p(1)] by auto
      have "0 < len" using l p by (simp add: word_less_nat_alt)
      then show ?thesis using assms(2,3) False len ex Ref varlen p l
        by (simp add: size_pass_def data_image_Suc attr_image_def getPointer_def)
    qed
  qed
qed

text \<open>
  The streaming null bitmap: before attribute \<open>i\<close> the mask names the bit of attribute \<open>i - 1\<close>, and
  exactly the bits of the non-null attributes below \<open>i\<close> are set.
\<close>

definition bitmap_inv :: "bool list \<Rightarrow> nat \<Rightarrow> nat \<Rightarrow> bitmap_cursor \<Rightarrow> bool" where
  "bitmap_inv isnull n i c \<longleftrightarrow>
     length (bc_buffer c) = n \<and>
     bc_bitmap c = (int i + 7) div 8 - 1 \<and>
     bc_bitmask c = 2 ^ ((i + 7) mod 8) \<and>
     (\<forall>j<n. \<forall>k<8. bit (bc_buffer c ! j) k \<longleftrightarrow> 8 * j + k < i \<and> \<not> isnull ! (8 * j + k))"

lemma bit_byte_pow: "k < 8 \<Longrightarrow> m < 8 \<Longrightarrow> bit (word_of_nat (2 ^ m) :: byte) k \<longleftrightarrow> k = m"
  by (auto simp: bit_simps possible_bit_def)

lemma div8_step:
  fixes i :: nat
  obtains (first) "i mod 8 = 0" "(i + 7) mod 8 = 7" "(int i + 7) div 8 = int (i div 8)"
  | (later) "i mod 8 = Suc ((i + 7) mod 8)" "(i + 7) mod 8 \<noteq> 7" "(int i + 7) div 8 = int (i div 8) + 1"
proof (cases "i mod 8")
  case 0
  then obtain q where i: "i = 8 * q" by (auto elim: dvdE)
  show ?thesis by (rule first) (simp_all add: i)
next
  case (Suc r)
  define q where "q = i div 8"
  have i: "i = Suc r + 8 * q" using Suc by (metis mod_mult_div_eq q_def)
  have r: "r < 7" using Suc mod_less_divisor [of 8 i] by linarith
  have "i + 7 = r + 8 * Suc q" by (simp add: i)
  then have d: "(i + 7) mod 8 = r" "(i + 7) div 8 = Suc q"
    using r by (simp_all only: mod_mult_self2 div_mult_self2) simp_all
  have "(int i + 7) div 8 = int ((i + 7) div 8)" by (simp add: zdiv_int)
  then show ?thesis using d r Suc by (intro later) (simp_all add: q_def)
qed
lemma div8_pos: 
  fixes i k j :: nat
  assumes "k < 8"
  shows "8 * j + k = i \<longleftrightarrow> j = i div 8 \<and> k = i mod 8"
  using assms by (auto simp: mult_div_mod_eq)
lemma bitmap_step_cursor:
  assumes "bitmap_inv isnull n i c"
  defines "c1 \<equiv> (if bc_bitmask c = highbit then c\<lparr>bc_bitmask := 1, bc_bitmap := bc_bitmap c + 1\<rparr>
                else c\<lparr>bc_bitmask := 2 * bc_bitmask c\<rparr>)"
  shows "bc_buffer c1 = bc_buffer c" "bc_bitmap c1 = int (i div 8)" "bc_bitmask c1 = 2 ^ (i mod 8)"
proof -
  show "bc_buffer c1 = bc_buffer c" by (simp add: c1_def)
  have mask: "bc_bitmask c = 2 ^ ((i + 7) mod 8)" and pos: "bc_bitmap c = (int i + 7) div 8 - 1"
    using assms by (auto simp: bitmap_inv_def)
  have lt: "(i + 7) mod 8 < 8" by simp
  have eq: "bc_bitmask c = highbit \<longleftrightarrow> (i + 7) mod 8 = 7"
  proof -
    have "highbit = 2 ^ 7" by (simp add: highbit_def)
    then show ?thesis unfolding mask by (metis one_less_numeral_iff power_inject_exp semiring_norm(76))
  qed
  show "bc_bitmap c1 = int (i div 8)"
    by (cases rule: div8_step [of i]) (use eq pos in \<open>simp_all add: c1_def\<close>)
  show "bc_bitmask c1 = 2 ^ (i mod 8)"
    by (cases rule: div8_step [of i]) (use eq mask in \<open>simp_all add: c1_def\<close>)
qed

lemma bitmap_step_bits:
  assumes "i div 8 < length buf"
    and "\<forall>j<length buf. \<forall>k<8. bit ((buf ! j) :: byte) k \<longleftrightarrow> 8 * j + k < i \<and> \<not> isnull ! (8 * j + k)"
    and "\<not> isnull ! i" "j < length buf" "k < 8"
  shows "bit (buf[i div 8 := buf ! (i div 8) OR word_of_nat (2 ^ (i mod 8))] ! j) k
    \<longleftrightarrow> 8 * j + k < Suc i \<and> \<not> isnull ! (8 * j + k)"
proof (cases "j = i div 8")
  case True
  have k: "8 * (i div 8) + k = i \<longleftrightarrow> k = i mod 8"
    using div8_pos [OF assms(5)] by auto
  have "bit (buf[i div 8 := buf ! (i div 8) OR word_of_nat (2 ^ (i mod 8))] ! j) k
    \<longleftrightarrow> bit (buf ! j) k \<or> k = i mod 8"
    using assms(1,5) True bit_byte_pow [of k "i mod 8"] by (simp add: bit_or_iff)
  then show ?thesis using assms(2-5) True k by (auto simp: less_Suc_eq)
next
  case False
  then have "8 * j + k \<noteq> i" using div8_pos [OF assms(5)] by auto
  then show ?thesis using False assms(2,4,5) by (simp add: less_Suc_eq)
qed

lemma bitmap_pass_step:
  assumes inv: "bitmap_inv isnull n i c" and i: "i < length isnull" and n: "BitmapSize (length isnull) \<le> n"
  shows "\<exists>c'. bitmap_pass isnull i c = Inr c' \<and> bitmap_inv isnull n (Suc i) c'"
proof -
  define c1 where "c1 = (if bc_bitmask c = highbit then c\<lparr>bc_bitmask := 1, bc_bitmap := bc_bitmap c + 1\<rparr>
                else c\<lparr>bc_bitmask := 2 * bc_bitmask c\<rparr>)"
  note c1 = bitmap_step_cursor [OF inv, folded c1_def]
  have in_range: "i div 8 < n" using i n by (simp add: BitmapSize_def)
  have len: "length (bc_buffer c) = n" using inv by (simp add: bitmap_inv_def)
  have pos: "(int (Suc i) + 7) div 8 - 1 = int (i div 8)" "(Suc i + 7) mod 8 = i mod 8"
    by (simp_all add: zdiv_int)
  show ?thesis
  proof (cases "isnull ! i")
    case True
    then have "bitmap_pass isnull i c = Inr c1"
      using i by (simp add: bitmap_pass_def c1_def Let_def)
    moreover have "bitmap_inv isnull n (Suc i) c1"
      using inv True c1 pos by (auto simp: bitmap_inv_def less_Suc_eq)
    ultimately show ?thesis by blast
  next
    case False
    let ?c2 = "c1\<lparr>bc_buffer := (bc_buffer c)[i div 8 := bc_buffer c ! (i div 8) OR word_of_nat (2 ^ (i mod 8))]\<rparr>"
    have "bitmap_pass isnull i c = Inr ?c2"
      using i False in_range len unfolding bitmap_pass_def c1_def [symmetric] Let_def
      by (simp add: c1)
    moreover have "bitmap_inv isnull n (Suc i) ?c2"
      using inv False pos in_range len bitmap_step_bits [of i "bc_buffer c" isnull] c1
      by (simp add: bitmap_inv_def)
    ultimately show ?thesis by blast
  qed
qed

lemma length_null_bitmap [simp]: "length (null_bitmap isnull) = BitmapSize (length isnull)"
  by (simp add: null_bitmap_def)

lemma bit_null_bitmap:
  "j < BitmapSize (length isnull) \<Longrightarrow> k < 8 \<Longrightarrow>
    bit (null_bitmap isnull ! j) k \<longleftrightarrow> 8 * j + k < length isnull \<and> \<not> isnull ! (8 * j + k)"
  by (simp add: null_bitmap_def bit_horner_sum_bit_word_iff del: upt_rec_numeral)

lemma bitmap_inv_final:
  assumes "bitmap_inv isnull (BitmapSize (length isnull) + n) (length isnull) c"
  shows "bc_buffer c = null_bitmap isnull @ replicate n 0"
proof (rule nth_equalityI)
  show len: "length (bc_buffer c) = length (null_bitmap isnull @ replicate n 0)"
    using assms by (simp add: bitmap_inv_def)
  fix j assume "j < length (bc_buffer c)"
  then have j: "j < BitmapSize (length isnull) + n" using len by simp
  show "bc_buffer c ! j = (null_bitmap isnull @ replicate n 0) ! j"
  proof (rule bit_eqI)
    fix k assume "possible_bit TYPE(8 word) k"
    then have k: "k < 8" by (simp add: possible_bit_def)
    have c: "bit (bc_buffer c ! j) k \<longleftrightarrow> 8 * j + k < length isnull \<and> \<not> isnull ! (8 * j + k)"
      using assms j k by (simp add: bitmap_inv_def)
    show "bit (bc_buffer c ! j) k \<longleftrightarrow> bit ((null_bitmap isnull @ replicate n 0) ! j) k"
    proof (cases "j < BitmapSize (length isnull)")
      case True
      then show ?thesis using c k by (simp add: nth_append bit_null_bitmap)
    next
      case False
      then have "length isnull \<le> 8 * j" by (simp add: BitmapSize_def)
      then show ?thesis using c False j by (simp add: nth_append)
    qed
  qed
qed

lemma bitmap_loop:
  assumes "length isnull < 65535"
  shows "\<exists>c. attr_loop (word_of_nat (length isnull)) (bitmap_pass isnull)
      \<lparr>bc_buffer = replicate (BitmapSize (length isnull) + n) 0, bc_bitmap = - 1, bc_bitmask = highbit\<rparr>
      = Inr c \<and> bc_buffer c = null_bitmap isnull @ replicate n 0"
proof -
  let ?c0 = "\<lparr>bc_buffer = replicate (BitmapSize (length isnull) + n) 0, bc_bitmap = - 1, bc_bitmask = highbit\<rparr>"
  let ?n = "BitmapSize (length isnull) + n"
  have "bitmap_inv isnull ?n 0 ?c0"
    by (simp add: bitmap_inv_def highbit_def)
  then have "\<exists>c. foldR (bitmap_pass isnull) [0..<length isnull] ?c0 = Inr c
      \<and> bitmap_inv isnull ?n (length isnull) c"
    by (rule foldR_upt_invariant) (use bitmap_pass_step in auto)
  then show ?thesis
    using attr_loop_index [OF assms, of "bitmap_pass isnull"] bitmap_inv_final by fastforce
qed

lemma poke_zeros:
  "length bs \<le> n \<Longrightarrow> poke (xs @ replicate n 0) (length xs) bs = xs @ bs @ replicate (n - length bs) 0"
  by (simp add: poke_append_right)

lemma data_pass_attr:
  assumes "wf_attr (desc ! i) (values ! i)" "\<not> isnull ! i"
    "i < length desc" "length values = length desc" "length isnull = length desc"
    "length (attr_image (desc ! i) (values ! i)) \<le> n"
  shows "data_pass desc values isnull i (pre @ replicate n 0, length pre)
    = Inr (pre @ attr_image (desc ! i) (values ! i)
           @ replicate (n - length (attr_image (desc ! i) (values ! i))) 0,
           length pre + length (attr_image (desc ! i) (values ! i)))"
proof (cases "values ! i")
  case (Scalar v)
  then show ?thesis using assms
    by (auto simp: data_pass_def wf_attr_def attr_image_def getScalar_def poke_zeros Let_def
        simp del: le_of_nat_numeral)
next
  case (Ref p)
  show ?thesis
  proof (cases "ad_length (desc ! i) > 0")
    case True
    then show ?thesis using assms Ref
      by (simp add: data_pass_def wf_attr_def attr_image_def getPointer_def poke_zeros peek_def Let_def)
  next
    case varlen: False
    with assms Ref have p: "4 \<le> length p" "0 < var_size p" "var_size p < 2 ^ 31"
      "4 + var_size p \<le> length p" "\<not> ad_byVal (desc ! i)" by (auto simp: wf_attr_def)
    obtain len where l: "var_length p = Inr len" "unat len = var_size p"
      using var_length_ok [OF p(1)] by auto
    have sc: "unat (scast len :: u64) = var_size p"
      using l p(3) unat_scast_small [of len] by simp
    have im: "attr_image (desc ! i) (values ! i) = take 4 p @ take (var_size p) (drop 4 p)"
      using Ref varlen by (simp add: attr_image_def take_add)
    have n: "4 + var_size p \<le> n" using assms(6) p im by simp
    have s1: "storeR (pre @ replicate n 0) (length pre) (take 4 p)
        = Inr ((pre @ take 4 p) @ replicate (n - 4) 0)"
      using p n by (simp add: poke_zeros)
    have s2: "storeR ((pre @ take 4 p) @ replicate (n - 4) 0) (length pre + 4) (take (var_size p) (drop 4 p))
        = Inr ((pre @ take 4 p) @ take (var_size p) (drop 4 p) @ replicate (n - 4 - var_size p) 0)"
      using p n poke_zeros [of "take (var_size p) (drop 4 p)" "n - 4" "pre @ take 4 p"] by simp
    show ?thesis using assms Ref varlen p l sc s1 s2 im
      by (simp add: data_pass_def getPointer_def var_size_bytes Let_def peek_def
          del: le_of_nat_numeral storeR_ok append_assoc)
  qed
qed

lemma data_pass_step:
  assumes "wf_tuple desc values isnull" "i < length desc"
    "length (data_image desc values isnull (Suc i)) \<le> n"
    "st = (pre @ data_image desc values isnull i @ replicate (n - length (data_image desc values isnull i)) 0,
           length pre + length (data_image desc values isnull i))"
  shows "data_pass desc values isnull i st
    = Inr (pre @ data_image desc values isnull (Suc i)
             @ replicate (n - length (data_image desc values isnull (Suc i))) 0,
           length pre + length (data_image desc values isnull (Suc i)))"
proof (cases "isnull ! i")
  case True
  then show ?thesis using assms by (simp add: data_pass_def data_image_Suc wf_tuple_def)
next
  case False
  have "wf_attr (desc ! i) (values ! i)" "length values = length desc" "length isnull = length desc"
    using assms(1,2) False by (auto simp: wf_tuple_def)
  from data_pass_attr [OF this(1) False assms(2) this(2,3),
      of "n - length (data_image desc values isnull i)" "pre @ data_image desc values isnull i"]
  show ?thesis using assms(3,4) False by (simp add: data_image_Suc add.assoc)
qed

lemma data_loop:
  assumes wf: "wf_tuple desc values isnull"
  defines "n \<equiv> length (data_image desc values isnull (length desc))"
  shows "attr_loop (word_of_nat (length desc)) (data_pass desc values isnull) (pre @ replicate n 0, length pre)
    = Inr (pre @ data_image desc values isnull (length desc), length pre + n)"
proof -
  let ?st = "\<lambda>i. (pre @ data_image desc values isnull i @ replicate (n - length (data_image desc values isnull i)) 0,
           length pre + length (data_image desc values isnull i))"
  have "\<exists>s. foldR (data_pass desc values isnull) [0..<length desc] (?st 0) = Inr s \<and> s = ?st (length desc)"
  proof (rule foldR_upt_invariant)
    fix i s assume i: "i < length desc" and s: "s = ?st i"
    have "length (data_image desc values isnull (Suc i)) \<le> n"
      unfolding n_def using data_image_mono [of "Suc i" "length desc" desc "values" isnull] i by auto
    from data_pass_step [OF wf i this s]
    show "\<exists>s'. data_pass desc values isnull i s = Inr s' \<and> s' = ?st (Suc i)" by simp
  qed simp
  then show ?thesis
    using wf attr_loop_index [of "length desc" "data_pass desc values isnull"]
    by (simp add: wf_tuple_def n_def)
qed

lemma size_loop:
  assumes wf: "wf_tuple desc values isnull"
  shows "attr_loop (word_of_nat (length desc)) (size_pass desc values isnull) (0, False)
    = Inr (length (data_image desc values isnull (length desc)), True \<in> set isnull)"
proof -
  let ?st = "\<lambda>i. (length (data_image desc values isnull i), \<exists>j<i. isnull ! j)"
  have "\<exists>s. foldR (size_pass desc values isnull) [0..<length desc] (0, False) = Inr s \<and> s = ?st (length desc)"
    by (rule foldR_upt_invariant [where Inv = "\<lambda>i s. s = ?st i"])
      (use size_pass_step [OF wf] in auto)
  moreover have "(\<exists>j<length desc. isnull ! j) \<longleftrightarrow> True \<in> set isnull"
    using wf by (auto simp: wf_tuple_def in_set_conv_nth)
  ultimately show ?thesis
    using wf attr_loop_index [of "length desc" "size_pass desc values isnull"]
    by (simp add: wf_tuple_def)
qed

lemma Serialize_image:
  assumes wf: "wf_tuple desc values isnull"
  shows "Serialize desc values isnull =
    Inr \<lparr>sti_Tuple = tuple_image desc values isnull, sti_HasNulls = True \<in> set isnull\<rparr>"
proof -
  have len: "length desc < 65535" "length isnull = length desc" using wf by (auto simp: wf_tuple_def)
  let ?n = "length (data_image desc values isnull (length desc))"
  have mx: "GetMaxAttrNumber desc = word_of_nat (length desc)" "unat (word_of_nat (length desc) :: u16) = length desc"
    using len by (simp_all add: GetMaxAttrNumber_def unat_of_nat)
  have zero: "poke (replicate (?n + BitmapSize (length desc)) 0) 0 (replicate (BitmapSize (length desc)) 0)
      = (replicate (BitmapSize (length desc) + ?n) 0 :: byte list)"
    by (simp add: poke_def replicate_add [symmetric] add.commute)
  show ?thesis
  proof (cases "True \<in> set isnull")
    case True
    obtain c where c: "attr_loop (word_of_nat (length desc)) (bitmap_pass isnull)
      \<lparr>bc_buffer = replicate (BitmapSize (length desc) + ?n) 0, bc_bitmap = - 1, bc_bitmask = highbit\<rparr>
      = Inr c" "bc_buffer c = null_bitmap isnull @ replicate ?n 0"
      using bitmap_loop [of isnull ?n] len by auto
    show ?thesis
      using True data_loop [OF wf, of "null_bitmap isnull"] len
      by (simp add: Serialize_def mx size_loop [OF wf] zero c tuple_image_def Let_def)
  next
    case False
    then show ?thesis
      using data_loop [OF wf, of "[]"]
      by (simp add: Serialize_def mx size_loop [OF wf] tuple_image_def Let_def)
  qed
qed

section \<open>Deserialisation inverts serialisation\<close>

lemma read_scalar_image:
  assumes "n \<in> {1, 2, 4, 8}"
  shows "read_scalar (pre @ le_of_nat n (unat v) @ rest) (length pre) n
    = Inr (signed_take_bit (8 * n - 1) v)"
proof -
  have "nat_of_le (le_of_nat n (unat v)) = unat v mod 2 ^ (8 * n)"
    by (simp add: nat_of_le_le_of_nat power_mult)
  moreover have "word_of_nat (unat (take_bit (8 * n) v)) = take_bit (8 * n) v" by simp
  ultimately have "(word_of_nat (nat_of_le (le_of_nat n (unat v))) :: u64) = take_bit (8 * n) v"
    by (simp only: unsigned_take_bit_eq take_bit_eq_mod [of "8 * n" "unat v"])
  moreover have "\<not> 8 * n \<le> 8 * n - 1" using assms by auto
  ultimately have "signed_take_bit (8 * n - 1) (word_of_nat (nat_of_le (le_of_nat n (unat v))) :: u64)
      = signed_take_bit (8 * n - 1) v"
    by (simp only: signed_take_bit_take_bit if_False)
  then show ?thesis by (simp add: read_scalar_def peek_def)
qed

lemma extract_attr_image:
  assumes "wf_attr attr d"
  shows "\<exists>v. extract_attr_datum (pre @ attr_image attr d @ rest) (length pre) attr
      = Inr (v, length (attr_image attr d)) \<and> same_datum attr d v"
proof (cases d)
  case (Scalar v)
  define n where "n = nat (ad_length attr)"
  have n: "n \<in> {1, 2, 4, 8}" "ad_length attr \<in> {1, 2, 4, 8}" "ad_byVal attr"
    using assms Scalar by (auto simp: wf_attr_def n_def)
  have im: "attr_image attr d = le_of_nat n (unat v)" using Scalar by (simp add: attr_image_def n_def)
  have "extract_attr_datum (pre @ attr_image attr d @ rest) (length pre) attr
      = Inr (Scalar (signed_take_bit (8 * n - 1) v), n)"
    using n(2,3) read_scalar_image [OF n(1), of pre v rest]
    unfolding extract_attr_datum_def im Let_def n_def [symmetric] by (auto simp del: le_of_nat_numeral)
  then show ?thesis using Scalar im by (simp add: same_datum_def n_def)
next
  case (Ref p)
  show ?thesis
  proof (cases "ad_length attr > 0")
    case True
    then show ?thesis using assms Ref
      by (auto simp: extract_attr_datum_def wf_attr_def attr_image_def same_datum_def)
  next
    case False
    with assms Ref have p: "4 \<le> length p" "0 < var_size p" "var_size p < 2 ^ 31"
      "4 + var_size p \<le> length p" "\<not> ad_byVal attr" by (auto simp: wf_attr_def)
    let ?im = "take (4 + var_size p) p"
    have im: "attr_image attr d = ?im" using Ref False by (simp add: attr_image_def)
    have vs: "var_size (?im @ rest) = var_size p" using p by (simp add: var_size_def min_def)
    have "sint (word_of_nat (var_size p) :: u32) = int (var_size p)"
      using p(3) by (subst sint_nonneg_small) (simp_all add: unat_of_nat)
    then have "extract_attr_datum (pre @ attr_image attr d @ rest) (length pre) attr
      = Inr (Ref (?im @ rest), length ?im)"
      using False p vs im by (simp add: extract_attr_datum_def peek_def var_size_def)
    then show ?thesis using p im vs Ref False
      by (simp add: same_datum_def attr_image_def)
  qed
qed

lemma read_null_step:
  assumes "length desc < 65535" "length isnull = length desc" "i < length desc"
    "length s = length desc" "\<forall>j<i. s ! j = isnull ! j"
  shows "\<exists>s'. read_null (null_bitmap isnull @ rest) i s = Inr s' \<and> length s' = length desc
    \<and> (\<forall>j<Suc i. s' ! j = isnull ! j)"
proof -
  have idx: "drop_bit 3 i = i div 8" "i AND 7 = i mod 8"
    using take_bit_eq_mask [of 3 i] by (simp_all add: drop_bit_eq_div take_bit_eq_mod mask_eq_exp_minus_1)
  have r: "i div 8 < BitmapSize (length isnull)" using assms by (simp add: BitmapSize_def)
  have "bit ((null_bitmap isnull @ rest) ! (i div 8)) (i mod 8) \<longleftrightarrow> \<not> isnull ! i"
    using r assms bit_null_bitmap [OF r, of "i mod 8"] by (simp add: nth_append)
  then show ?thesis using r assms idx
    by (auto simp: read_null_def nth_list_update less_Suc_eq)
qed

lemma null_loop:
  assumes "length desc < 65535" "length isnull = length desc"
  shows "attr_loop (word_of_nat (length desc)) (read_null (null_bitmap isnull @ rest))
      (replicate (length desc) False) = Inr isnull"
proof -
  have "\<exists>s. foldR (read_null (null_bitmap isnull @ rest)) [0..<length desc] (replicate (length desc) False) = Inr s
      \<and> length s = length desc \<and> (\<forall>j<length desc. s ! j = isnull ! j)"
    by (rule foldR_upt_invariant
          [where Inv = "\<lambda>i s. length s = length desc \<and> (\<forall>j<i. s ! j = isnull ! j)"])
      (use read_null_step [OF assms] in auto)
  then show ?thesis
    using assms nth_equalityI [of _ isnull] by (auto simp: attr_loop_index)
qed

definition values_inv :: "TupleDescriptor \<Rightarrow> Datum list \<Rightarrow> bool list \<Rightarrow> nat \<Rightarrow> Datum list \<Rightarrow> bool" where
  "values_inv desc values isnull n vs \<longleftrightarrow> length vs = length desc \<and>
     (\<forall>j<length desc. if isnull ! j \<or> n \<le> j then vs ! j = Scalar 0
        else same_datum (desc ! j) (values ! j) (vs ! j))"

lemma read_attr_step:
  assumes wf: "wf_tuple desc values isnull" and i: "i < length desc"
    and hn: "hn \<or> True \<notin> set isnull"
    and mem: "mem = pre @ data_image desc values isnull (length desc) @ rest"
    and inv: "values_inv desc values isnull i vs"
  shows "\<exists>vs'. read_attr desc mem hn isnull i (vs, length pre + length (data_image desc values isnull i))
      = Inr (vs', length pre + length (data_image desc values isnull (Suc i)))
      \<and> values_inv desc values isnull (Suc i) vs'"
proof (cases "isnull ! i")
  case True
  moreover have "i < length isnull" using wf i by (simp add: wf_tuple_def)
  ultimately have "True \<in> set isnull" using nth_mem [of i isnull] by simp
  then have "hn" using hn by blast
  moreover have "isnull ! j \<or> Suc i \<le> j \<longleftrightarrow> isnull ! j \<or> i \<le> j" for j
    using True by (auto simp: Suc_le_eq le_less)
  ultimately show ?thesis using True inv by (simp add: read_attr_def data_image_Suc values_inv_def)
next
  case False
  then have wfa: "wf_attr (desc ! i) (values ! i)" using wf i by (auto simp: wf_tuple_def)
  obtain r2 where "data_image desc values isnull (length desc) =
      (data_image desc values isnull i @ attr_image (desc ! i) (values ! i)) @ r2"
    using data_image_mono [of "Suc i" "length desc" desc "values" isnull] i False
    by (auto simp: data_image_Suc)
  then have "mem = (pre @ data_image desc values isnull i) @ attr_image (desc ! i) (values ! i) @ (r2 @ rest)"
    using mem by simp
  then obtain v where v: "extract_attr_datum mem (length pre + length (data_image desc values isnull i)) (desc ! i)
      = Inr (v, length (attr_image (desc ! i) (values ! i)))" "same_datum (desc ! i) (values ! i) v"
    using extract_attr_image [OF wfa, of "pre @ data_image desc values isnull i" "r2 @ rest"] by auto
  have "values_inv desc values isnull (Suc i) (vs[i := v])"
    using inv v(2) False i by (auto simp: values_inv_def nth_list_update Suc_le_eq)
  then show ?thesis using v(1) False i by (simp add: read_attr_def data_image_Suc)
qed

lemma read_loop:
  assumes wf: "wf_tuple desc values isnull" and hn: "hn \<or> True \<notin> set isnull"
    and mem: "mem = pre @ data_image desc values isnull (length desc) @ rest"
  shows "\<exists>vs c. attr_loop (word_of_nat (length desc)) (read_attr desc mem hn isnull)
      (replicate (length desc) (Scalar 0), length pre) = Inr (vs, c)
      \<and> values_inv desc values isnull (length desc) vs"
proof -
  let ?Inv = "\<lambda>i st. snd st = length pre + length (data_image desc values isnull i)
    \<and> values_inv desc values isnull i (fst st)"
  have "\<exists>s. foldR (read_attr desc mem hn isnull) [0..<length desc] (replicate (length desc) (Scalar 0), length pre)
      = Inr s \<and> ?Inv (length desc) s"
  proof (rule foldR_upt_invariant)
    show "?Inv 0 (replicate (length desc) (Scalar 0), length pre)"
      by (simp add: values_inv_def)
    fix i st assume "i < length desc" "?Inv i st"
    then show "\<exists>s'. read_attr desc mem hn isnull i st = Inr s' \<and> ?Inv (Suc i) s'"
      using read_attr_step [OF wf _ hn mem, of i "fst st"] by (cases st) fastforce
  qed
  then show ?thesis using wf by (auto simp: wf_tuple_def attr_loop_index)
qed

lemma Deserialize_image:
  assumes wf: "wf_tuple desc values isnull"
  shows "\<exists>dt. Deserialize desc (tuple_image desc values isnull @ rest) (True \<in> set isnull) = Inr dt
    \<and> same_tuple desc values isnull dt"
proof -
  have len: "length desc < 65535" "length isnull = length desc" using wf by (auto simp: wf_tuple_def)
  have mx: "GetMaxAttrNumber desc = word_of_nat (length desc)" "unat (word_of_nat (length desc) :: u16) = length desc"
    using len by (simp_all add: GetMaxAttrNumber_def unat_of_nat)
  show ?thesis
  proof (cases "True \<in> set isnull")
    case True
    let ?mem = "null_bitmap isnull @ data_image desc values isnull (length desc) @ rest"
    obtain vs c where v: "attr_loop (word_of_nat (length desc)) (read_attr desc ?mem True isnull)
        (replicate (length desc) (Scalar 0), BitmapSize (length desc)) = Inr (vs, c)"
        "values_inv desc values isnull (length desc) vs"
      using read_loop [OF wf, of True ?mem "null_bitmap isnull" rest] len by auto
    show ?thesis using True v null_loop [OF len]
      by (simp add: Deserialize_def mx tuple_image_def Let_def same_tuple_def values_inv_def)
  next
    case False
    then have all: "replicate (length desc) False = isnull"
      using len by (auto simp: in_set_conv_nth intro!: nth_equalityI)
    obtain vs c where v: "attr_loop (word_of_nat (length desc))
        (read_attr desc (data_image desc values isnull (length desc) @ rest) False isnull)
        (replicate (length desc) (Scalar 0), 0) = Inr (vs, c)"
        "values_inv desc values isnull (length desc) vs"
      using read_loop [OF wf, of False _ "[]" rest] False by auto
    show ?thesis using False v all
      by (simp add: Deserialize_def mx tuple_image_def Let_def same_tuple_def values_inv_def)
  qed
qed

section \<open>Heap tuples stored in memory\<close>

lemma length_tuple_header_bytes [simp]: "length (tuple_header_bytes h) = 24"
  by (simp add: tuple_header_bytes_def)

lemma read_tuple_header_bytes [simp]:
  "read_tuple_header (tuple_header_bytes h @ rest) 0 = Inr h"
  by (simp add: read_tuple_header_def tuple_header_bytes_def SizeOfHeapPageTupleHeader_def peek_def
      word_of_le_bytes del: le_of_nat_numeral)

definition stored_header :: "HeapPageTuple \<Rightarrow> HeapPageTupleHeader" where
  "stored_header tup = (hpt_header tup)\<lparr>th_flags :=
     if True \<in> set (hpt_isnull tup) then HeapTupleFlags_HasNulls else 0\<rparr>"

definition wf_heap_tuple :: "TupleDescriptor \<Rightarrow> HeapPageTuple \<Rightarrow> bool" where
  "wf_heap_tuple desc tup \<longleftrightarrow> wf_tuple desc (hpt_values tup) (hpt_isnull tup)"

definition same_heap_tuple :: "TupleDescriptor \<Rightarrow> HeapPageTuple \<Rightarrow> HeapPageTuple \<Rightarrow> bool" where
  "same_heap_tuple desc tup tup' \<longleftrightarrow> hpt_header tup' = stored_header tup \<and>
     same_tuple desc (hpt_values tup) (hpt_isnull tup)
       \<lparr>dt_Values = hpt_values tup', dt_IsNull = hpt_isnull tup'\<rparr>"

lemma HeapTuple_Serialize_image:
  "wf_heap_tuple desc tup \<Longrightarrow> HeapTuple_Serialize tup desc =
    Inr (tuple_header_bytes (stored_header tup) @ tuple_image desc (hpt_values tup) (hpt_isnull tup))"
  by (simp add: HeapTuple_Serialize_def wf_heap_tuple_def Serialize_image stored_header_def)

lemma HeapTuple_Deserialize_image:
  assumes "wf_heap_tuple desc tup"
  shows "\<exists>tup'. HeapTuple_Deserialize (tuple_header_bytes (stored_header tup) @
      tuple_image desc (hpt_values tup) (hpt_isnull tup) @ rest) desc = Inr tup'
    \<and> same_heap_tuple desc tup tup'"
proof -
  have flag: "(th_flags (stored_header tup) AND HeapTupleFlags_HasNulls \<noteq> 0) = (True \<in> set (hpt_isnull tup))"
    by (simp add: stored_header_def HeapTupleFlags_HasNulls_def)
  obtain dt where "Deserialize desc (tuple_image desc (hpt_values tup) (hpt_isnull tup) @ rest)
      (True \<in> set (hpt_isnull tup)) = Inr dt" "same_tuple desc (hpt_values tup) (hpt_isnull tup) dt"
    using Deserialize_image assms wf_heap_tuple_def by blast
  then show ?thesis
    by (simp add: HeapTuple_Deserialize_def flag SizeOfHeapPageTupleHeader_def same_heap_tuple_def same_tuple_def)
qed

interpretation heap_tuple_codec: image_codec "wf_heap_tuple desc" "\<lambda>tup. HeapTuple_Serialize tup desc"
    "\<lambda>mem. HeapTuple_Deserialize mem desc" "same_heap_tuple desc"
  for desc
proof
  fix tup assume wf: "wf_heap_tuple desc tup"
  then show "\<exists>bs. HeapTuple_Serialize tup desc = Inr bs"
    by (simp add: HeapTuple_Serialize_image)
  fix bs rest assume "HeapTuple_Serialize tup desc = Inr bs"
  then show "\<exists>y. HeapTuple_Deserialize (bs @ rest) desc = Inr y \<and> same_heap_tuple desc tup y"
    using HeapTuple_Deserialize_image [OF wf, of rest] wf by (auto simp: HeapTuple_Serialize_image)
qed

section \<open>Properties\<close>

text \<open>
  C25. The three passes of \<open>TupleSerializer::Serialize\<close> produce exactly the specified image of a
  tuple whose values fit their descriptors: the null bitmap (present only when some attribute is
  NULL, bit set for every non-NULL attribute) followed by the bytes of the non-NULL attributes in
  order; every write stays in the buffer the size pass allocated and fills it completely.
\<close>

theorem serialize_refines_image:
  assumes "wf_tuple desc values isnull"
  shows "Serialize desc values isnull =
    Inr \<lparr>sti_Tuple = tuple_image desc values isnull, sti_HasNulls = True \<in> set isnull\<rparr>"
  using assms by (rule Serialize_image)

definition example_desc :: TupleDescriptor where
  "example_desc = [\<lparr>ad_typeId = 1, ad_length = 4, ad_byVal = True\<rparr>,
     \<lparr>ad_typeId = 3, ad_length = - 1, ad_byVal = False\<rparr>, \<lparr>ad_typeId = 2, ad_length = 8, ad_byVal = True\<rparr>]"

definition example_values :: "Datum list" where
  "example_values = [Scalar (- 1), Ref [2, 0, 0, 0, 104, 105], Scalar 0]"

lemma example_wf: "wf_tuple example_desc example_values [False, False, True]"
  by (simp add: wf_tuple_def example_desc_def example_values_def wf_attr_def var_size_def
      All_less_Suc)

lemma upt_to_8: "[0..<8] = [0, 1, 2, 3, 4, 5, 6, 7]"
  by (simp add: upt_conv_Cons)

theorem serialize_refines_image_witness:
  "Serialize example_desc example_values [False, False, True] =
    Inr \<lparr>sti_Tuple = tuple_image example_desc example_values [False, False, True], sti_HasNulls = True\<rparr>
   \<and> take 5 (tuple_image example_desc example_values [False, False, True]) = [3, 255, 255, 255, 255]"
proof
  show "take 5 (tuple_image example_desc example_values [False, False, True]) = [3, 255, 255, 255, 255]"
    by (simp add: tuple_image_def null_bitmap_def BitmapSize_def data_image_def example_desc_def upt_to_8
      example_values_def attr_image_def unsigned_minus_1_eq_mask mask_eq_exp_minus_1)
qed (use serialize_refines_image [OF example_wf] in simp)

text \<open>
  C9. A tuple is read back by \<open>Deserialize\<close> from its serialised bytes whatever follows them: the
  same NULL flags, every scalar sign extended from its width and every by-reference value as a
  pointer to the same bytes.
\<close>

theorem tuple_round_trip:
  assumes "wf_tuple desc values isnull"
    and "Serialize desc values isnull = Inr sti"
  shows "\<exists>dt. Deserialize desc (sti_Tuple sti @ rest) (sti_HasNulls sti) = Inr dt
    \<and> same_tuple desc values isnull dt"
  using assms Deserialize_image [OF assms(1), of rest] by (auto simp: Serialize_image)

theorem tuple_round_trip_witness:
  "\<exists>sti dt. Serialize example_desc example_values [False, False, True] = Inr sti \<and>
     Deserialize example_desc (sti_Tuple sti @ [7, 7]) (sti_HasNulls sti) = Inr dt \<and>
     same_tuple example_desc example_values [False, False, True] dt"
  using tuple_round_trip [OF example_wf Serialize_image [OF example_wf], of "[7, 7]"]
    Serialize_image [OF example_wf] by blast

text \<open>
  C28. A heap tuple written anywhere into a page, followed by any write to a disjoint range of the
  same page, is read back with its transaction id and undo position, with the flag word the
  serialiser computes, and with the same values.
\<close>

theorem heap_tuple_survives_writes:
  assumes "wf_heap_tuple desc tup" "HeapTuple_Serialize tup desc = Inr bs"
    and "off + length bs \<le> length mem" "off2 + length cs \<le> length mem"
    and "off + length bs \<le> off2 \<or> off2 + length cs \<le> off"
  shows "\<exists>tup'. HeapTuple_Deserialize (drop off (poke (poke mem off bs) off2 cs)) desc = Inr tup'
    \<and> same_heap_tuple desc tup tup'"
  using assms by (rule heap_tuple_codec.stored_survives_write)

definition example_heap_tuple :: HeapPageTuple where
  "example_heap_tuple = \<lparr>hpt_header = \<lparr>th_xid = 7, th_undo = 9, th_flags = 0\<rparr>,
     hpt_values = example_values, hpt_isnull = [False, False, True]\<rparr>"

lemma example_heap_tuple_bytes:
  "\<exists>bs. HeapTuple_Serialize example_heap_tuple example_desc = Inr bs \<and> length bs = 35"
proof -
  have wf: "wf_heap_tuple example_desc example_heap_tuple"
    using example_wf by (simp add: wf_heap_tuple_def example_heap_tuple_def)
  show ?thesis
    by (simp add: HeapTuple_Serialize_image [OF wf])
      (simp add: example_heap_tuple_def tuple_image_def data_image_def example_desc_def
        example_values_def attr_image_def BitmapSize_def var_size_def)
qed

theorem heap_tuple_survives_writes_witness:
  "\<exists>bs tup'. HeapTuple_Serialize example_heap_tuple example_desc = Inr bs \<and>
     HeapTuple_Deserialize (drop 8 (poke (poke (replicate 64 0) 8 bs) 0 [1, 2, 3])) example_desc = Inr tup' \<and>
     same_heap_tuple example_desc example_heap_tuple tup'"
proof -
  have wf: "wf_heap_tuple example_desc example_heap_tuple"
    using example_wf by (simp add: wf_heap_tuple_def example_heap_tuple_def)
  obtain bs where bs: "HeapTuple_Serialize example_heap_tuple example_desc = Inr bs" "length bs = 35"
    using example_heap_tuple_bytes by blast
  from heap_tuple_survives_writes [OF wf bs(1), of 8 "replicate 64 0" 0 "[1, 2, 3]"] bs
  show ?thesis by simp
qed

text \<open>
  A text value of length zero cannot be serialised: whatever precedes it, the size pass stops
  at its length with a failed assertion, so that storing an empty string aborts the server.
\<close>

theorem serialize_empty_text_asserts:
  assumes "wf_tuple (desc @ [a]) (values @ [d]) (isnull @ [True])" "length isnull = length desc"
    and "ad_length a = - 1" "\<not> ad_byVal a" "4 \<le> length p" "var_size p = 0"
  shows "Serialize (desc @ [a]) (values @ [Ref p]) (isnull @ [False]) = Inl (AssertFail ''length > 0'')"
proof -
  have len: "length desc + 1 < 65535" "length values = length desc"
    using assms(1) by (auto simp: wf_tuple_def)
  have same: "size_pass (desc @ [a]) (values @ [Ref p]) (isnull @ [False]) i st
      = size_pass desc values isnull i st" if "i < length desc" for i st
    using that assms(2) len by (simp add: size_pass_def nth_append split: prod.split)
  have wf: "wf_tuple desc values isnull"
    using assms(1,2) len by (auto simp: wf_tuple_def nth_append less_Suc_eq split: if_splits)
  have "foldR (size_pass (desc @ [a]) (values @ [Ref p]) (isnull @ [False])) [0..<length desc] (0, False)
      = foldR (size_pass desc values isnull) [0..<length desc] (0, False)"
    by (rule foldR_cong) (simp add: same)
  also have "\<dots> = Inr (length (data_image desc values isnull (length desc)), True \<in> set isnull)"
    using size_loop [OF wf] len by (simp add: attr_loop_index)
  finally have pre: "foldR (size_pass (desc @ [a]) (values @ [Ref p]) (isnull @ [False])) [0..<length desc] (0, False)
      = Inr (length (data_image desc values isnull (length desc)), True \<in> set isnull)" .
  obtain l where "var_length p = Inr l" "unat l = 0"
    using var_length_ok [OF assms(5)] assms(6) by auto
  then have "size_pass (desc @ [a]) (values @ [Ref p]) (isnull @ [False]) (length desc) (n, h)
      = Inl (AssertFail ''length > 0'')" for n h
    using assms len by (simp add: size_pass_def nth_append getPointer_def unat_eq_0)
  then have "foldR (size_pass (desc @ [a]) (values @ [Ref p]) (isnull @ [False])) [0..<Suc (length desc)] (0, False)
      = Inl (AssertFail ''length > 0'')"
    using pre by (simp add: foldR_append)
  then have "attr_loop (word_of_nat (Suc (length desc)))
      (size_pass (desc @ [a]) (values @ [Ref p]) (isnull @ [False])) (0, False) = Inl (AssertFail ''length > 0'')"
    using len by (subst attr_loop_index) simp_all
  then show ?thesis
    by (simp add: Serialize_def GetMaxAttrNumber_def Let_def del: of_nat_Suc)
qed

theorem serialize_empty_text_asserts_witness:
  "Serialize example_desc [Scalar 1, Scalar 1, Scalar 1] [False, True, False] \<noteq> Inl (AssertFail ''length > 0'') \<and>
   Serialize [\<lparr>ad_typeId = 1, ad_length = 4, ad_byVal = True\<rparr>, \<lparr>ad_typeId = 3, ad_length = - 1, ad_byVal = False\<rparr>]
     [Scalar 5, Ref [0, 0, 0, 0]] [False, False] = Inl (AssertFail ''length > 0'')"
proof
  have "wf_tuple example_desc [Scalar 1, Scalar 1, Scalar 1] [False, True, False]"
    by (simp add: wf_tuple_def example_desc_def wf_attr_def All_less_Suc)
  then show "Serialize example_desc [Scalar 1, Scalar 1, Scalar 1] [False, True, False] \<noteq> Inl (AssertFail ''length > 0'')"
    by (simp add: Serialize_image)
  show "Serialize [\<lparr>ad_typeId = 1, ad_length = 4, ad_byVal = True\<rparr>, \<lparr>ad_typeId = 3, ad_length = - 1, ad_byVal = False\<rparr>]
     [Scalar 5, Ref [0, 0, 0, 0]] [False, False] = Inl (AssertFail ''length > 0'')"
    using serialize_empty_text_asserts [of "[\<lparr>ad_typeId = 1, ad_length = 4, ad_byVal = True\<rparr>]"
        "\<lparr>ad_typeId = 3, ad_length = - 1, ad_byVal = False\<rparr>" "[Scalar 5]" "Scalar 0" "[False]" "[0, 0, 0, 0]"]
    by (simp add: wf_tuple_def wf_attr_def var_size_def All_less_Suc)
qed

end
