(* ===== verification/Mimi_HeapPage.thy ===== *)
theory Mimi_HeapPage
  imports Mimi_Tuple
begin

text \<open>
  Heap pages (\<open>access/heap/HeapPage.cpp\<close>, \<open>HeapPageHeader.hpp\<close>, \<open>ItemId.hpp\<close>): a page is its 8192
  bytes, with the header (lsn, lower, upper), the array of 4-byte item identifiers growing up from
  byte 12 and the tuples growing down from the end. A pointer to an item identifier is its index, a
  pointer to a tuple its offset. \<open>page_insert\<close> is the part of \<open>HeapTable::InsertTuple\<close> that changes
  the page. The invariant \<open>wf_page\<close> says that the header is consistent and that the tuples lie in
  the occupied part and do not overlap.
\<close>

unbundle bit_operations_syntax

declare le_of_nat_numeral [simp del]

section \<open>Item identifiers\<close>

datatype ItemState = Unused | Normal | Dead

definition ItemState_code :: "ItemState \<Rightarrow> 2 word" where
  "ItemState_code s = (case s of Unused \<Rightarrow> 0 | Normal \<Rightarrow> 1 | Dead \<Rightarrow> 2)"

record ItemId =
  ii_flags :: "2 word"
  ii_offset :: "15 word"
  ii_length :: "15 word"

definition isUnused :: "ItemId \<Rightarrow> bool" where "isUnused it \<longleftrightarrow> ii_flags it = ItemState_code Unused"
definition isNormal :: "ItemId \<Rightarrow> bool" where "isNormal it \<longleftrightarrow> ii_flags it = ItemState_code Normal"
definition isDead :: "ItemId \<Rightarrow> bool" where "isDead it \<longleftrightarrow> ii_flags it = ItemState_code Dead"

definition hasHeader :: "ItemId \<Rightarrow> bool" where
  "hasHeader it \<longleftrightarrow> ii_flags it = ItemState_code Normal \<or> ii_flags it = ItemState_code Dead"

definition getLength :: "ItemId \<Rightarrow> u16" where "getLength it = ucast (ii_length it)"
definition getOffset :: "ItemId \<Rightarrow> u16" where "getOffset it = ucast (ii_offset it)"

definition setLength :: "u16 \<Rightarrow> ItemId \<Rightarrow> ItemId res" where
  "setLength len it = (let it' = it\<lparr>ii_length := ucast (len AND 0x7FFF)\<rparr> in
     bindR (assertR ''this->length == length'' (ucast (ii_length it') = len)) (\<lambda>_. Inr it'))"

definition setOffset :: "u16 \<Rightarrow> ItemId \<Rightarrow> ItemId res" where
  "setOffset off it = (let it' = it\<lparr>ii_offset := ucast (off AND 0x7FFF)\<rparr> in
     bindR (assertR ''this->offset == offset'' (ucast (ii_offset it') = off)) (\<lambda>_. Inr it'))"

definition setDead :: "ItemId \<Rightarrow> ItemId" where
  "setDead it = it\<lparr>ii_flags := ItemState_code Dead, ii_offset := 0, ii_length := 0\<rparr>"

definition setNormal :: "u16 \<Rightarrow> u16 \<Rightarrow> ItemId \<Rightarrow> ItemId res" where
  "setNormal len off it =
     bindR (setLength len it) (\<lambda>it1.
     bindR (setOffset off it1) (\<lambda>it2.
     Inr (it2\<lparr>ii_flags := ItemState_code Normal\<rparr>)))"

text \<open>The bit-field layout in a 32-bit little-endian word: 2 bits, 15 bits, 15 bits.\<close>

definition item_bits :: "ItemId \<Rightarrow> nat" where
  "item_bits it = unat (ii_flags it) + 4 * unat (ii_offset it) + 2 ^ 17 * unat (ii_length it)"

definition item_of_bits :: "nat \<Rightarrow> ItemId" where
  "item_of_bits k = \<lparr>ii_flags = word_of_nat k, ii_offset = word_of_nat (k div 4),
     ii_length = word_of_nat (k div 2 ^ 17)\<rparr>"

section \<open>Pages\<close>

type_synonym page = "byte list"

record HeapPageHeader =
  ph_lsn :: LogSeqNumber
  ph_lower :: u16
  ph_upper :: u16

definition SizeOfHeapPageHeader :: nat where "SizeOfHeapPageHeader = 12"

text \<open>\<open>sizeof(HeapPageHeader)\<close>, with the tail padding of the struct.\<close>

definition sizeof_HeapPageHeader :: nat where "sizeof_HeapPageHeader = 16"

definition GetHeader :: "page \<Rightarrow> HeapPageHeader" where
  "GetHeader page = \<lparr>ph_lsn = word_of_nat (nat_of_le (peek page 0 8)),
     ph_lower = word_of_nat (nat_of_le (peek page 8 2)),
     ph_upper = word_of_nat (nat_of_le (peek page 10 2))\<rparr>"

definition set_lsn :: "LogSeqNumber \<Rightarrow> page \<Rightarrow> page" where
  "set_lsn l page = poke page 0 (le_of_nat 8 (unat l))"
definition set_lower :: "u16 \<Rightarrow> page \<Rightarrow> page" where
  "set_lower v page = poke page 8 (le_of_nat 2 (unat v))"
definition set_upper :: "u16 \<Rightarrow> page \<Rightarrow> page" where
  "set_upper v page = poke page 10 (le_of_nat 2 (unat v))"

definition page_nitems :: "HeapPageHeader \<Rightarrow> u16" where
  "page_nitems header = (let len = ucast (ph_lower header) - word_of_nat SizeOfHeapPageHeader :: u64
     in ucast (len div 4))"

definition ItemsCount :: "page \<Rightarrow> u16" where "ItemsCount page = page_nitems (GetHeader page)"

definition item_slot :: "nat \<Rightarrow> nat" where "item_slot index = SizeOfHeapPageHeader + 4 * index"

definition load_item :: "page \<Rightarrow> nat \<Rightarrow> ItemId res" where
  "load_item page index =
     bindR (loadR page (item_slot index) 4) (\<lambda>bs. Inr (item_of_bits (nat_of_le bs)))"

definition store_item :: "nat \<Rightarrow> ItemId \<Rightarrow> page \<Rightarrow> page res" where
  "store_item index it page = storeR page (item_slot index) (le_of_nat 4 (item_bits it))"

definition GetItemId :: "page \<Rightarrow> nat \<Rightarrow> ItemId res" where
  "GetItemId page index =
     bindR (assertR ''index < page_nitems(header)'' (index < unat (ItemsCount page))) (\<lambda>_.
     load_item page index)"

definition GetTuple :: "ItemId \<Rightarrow> nat res" where
  "GetTuple it =
     bindR (assertR ''itemId.isNormal()'' (isNormal it)) (\<lambda>_.
     let off = unat (getOffset it) in
     bindR (assertR ''offset < mi::Config::PageSize'' (off < PageSize)) (\<lambda>_.
     bindR (assertR ''sizeof(HeapPageHeader) < offset'' (sizeof_HeapPageHeader < off)) (\<lambda>_.
     Inr off)))"

definition GetFreeSpace :: "page \<Rightarrow> u64" where
  "GetFreeSpace page = ucast (ph_upper (GetHeader page)) - ucast (ph_lower (GetHeader page))"

definition IsNew :: "page \<Rightarrow> bool" where "IsNew page \<longleftrightarrow> ph_lower (GetHeader page) = 0"

definition Init :: "page \<Rightarrow> page" where
  "Init page = set_upper (word_of_nat PageSize)
     (set_lower (word_of_nat SizeOfHeapPageHeader) (set_lsn 0 page))"

text \<open>
  The page changes of \<open>HeapTable::InsertTuple\<close>, after the WAL record has been written: page lsn,
  item identifier, tuple bytes, then \<open>lower\<close> and \<open>upper\<close>.
\<close>

definition page_insert :: "LogSeqNumber \<Rightarrow> byte list \<Rightarrow> page \<Rightarrow> page res" where
  "page_insert lsn heapTuple page =
     (let page1 = set_lsn lsn page;
          idx = unat (ItemsCount page1);
          n = word_of_nat (length heapTuple) :: u64;
          off = ucast (ucast (ph_upper (GetHeader page1)) - MaxAlign n) :: u16 in
      bindR (load_item page1 idx) (\<lambda>it0.
      bindR (setLength (word_of_nat (length heapTuple)) (it0\<lparr>ii_flags := ItemState_code Normal\<rparr>)) (\<lambda>it1.
      bindR (setOffset off it1) (\<lambda>it2.
      bindR (store_item idx it2 page1) (\<lambda>page2.
      bindR (GetTuple it2) (\<lambda>ptr.
      bindR (storeR page2 ptr heapTuple) (\<lambda>page3.
      let page4 = set_lower (ph_lower (GetHeader page3) + 4) page3 in
      Inr (set_upper (ph_upper (GetHeader page4) - ucast (MaxAlign n)) page4))))))))"

section \<open>Reading back what was written\<close>

lemma word_of_nat_small_part:
  fixes w :: "'a::len word"
  shows "word_of_nat (unat w + 2 ^ LENGTH('a) * k) = w"
  by (simp add: word_unat_eq_iff unat_of_nat)

lemma item_of_bits_item_bits [simp]: "item_of_bits (item_bits it) = it"
proof -
  define f where "f = unat (ii_flags it)"
  define x where "x = unat (ii_offset it) + 2 ^ 15 * unat (ii_length it)"
  have f: "f < 4" using unsigned_less [of "ii_flags it"] by (simp add: f_def)
  have o': "unat (ii_offset it) < 2 ^ 15" using unsigned_less [of "ii_offset it"] by simp
  have bits: "item_bits it = f + 4 * x" by (simp add: item_bits_def f_def x_def)
  have "item_bits it div 4 = x" using f by (simp add: bits)
  moreover have "x div 2 ^ 15 = unat (ii_length it)" using o' by (simp add: x_def)
  moreover have "item_bits it div 2 ^ 17 = item_bits it div 4 div 2 ^ 15" by (simp add: div_mult2_eq [symmetric])
  moreover have "(word_of_nat (item_bits it) :: 2 word) = ii_flags it"
    using word_of_nat_small_part [of "ii_flags it" x] by (simp add: bits f_def)
  moreover have "(word_of_nat x :: 15 word) = ii_offset it"
    using word_of_nat_small_part [of "ii_offset it" "unat (ii_length it)"] by (simp add: x_def)
  ultimately show ?thesis by (simp add: item_of_bits_def)
qed

lemma item_bits_bound: "item_bits it < 256 ^ 4"
proof -
  have "unat (ii_flags it) < 4" using unsigned_less [of "ii_flags it"] by simp
  moreover have "unat (ii_offset it) < 2 ^ 15" using unsigned_less [of "ii_offset it"] by simp
  moreover have "unat (ii_length it) < 2 ^ 15" using unsigned_less [of "ii_length it"] by simp
  ultimately show ?thesis by (simp add: item_bits_def)
qed

lemma nat_of_le_item [simp]: "nat_of_le (le_of_nat 4 (item_bits it)) = item_bits it"
  using item_bits_bound [of it] by (simp add: nat_of_le_le_of_nat)

lemma word_le_2 [simp]: "word_of_nat (nat_of_le (le_of_nat 2 (unat (w::u16)))) = w"
  by (rule word_of_le_bytes) simp
lemma word_le_8 [simp]: "word_of_nat (nat_of_le (le_of_nat 8 (unat (w::u64)))) = w"
  by (rule word_of_le_bytes) simp

lemma length_set [simp]:
  "length (set_lsn l page) = length page" if "12 \<le> length page"
  using that by (simp add: set_lsn_def)
lemma length_set_lower [simp]: "12 \<le> length page \<Longrightarrow> length (set_lower v page) = length page"
  by (simp add: set_lower_def)
lemma length_set_upper [simp]: "12 \<le> length page \<Longrightarrow> length (set_upper v page) = length page"
  by (simp add: set_upper_def)

lemma GetHeader_set [simp]:
  assumes "12 \<le> length page"
  shows "GetHeader (set_lsn l page) = (GetHeader page)\<lparr>ph_lsn := l\<rparr>"
    and "GetHeader (set_lower v page) = (GetHeader page)\<lparr>ph_lower := v\<rparr>"
    and "GetHeader (set_upper v page) = (GetHeader page)\<lparr>ph_upper := v\<rparr>"
  using assms by (simp_all add: GetHeader_def set_lsn_def set_lower_def set_upper_def mem_simps
     )

lemma GetHeader_poke [simp]:
  "12 \<le> off \<Longrightarrow> off + length bs \<le> length page \<Longrightarrow> GetHeader (poke page off bs) = GetHeader page"
  by (simp add: GetHeader_def mem_simps)

lemma item_slot_ge [simp]: "12 \<le> item_slot i" by (simp add: item_slot_def SizeOfHeapPageHeader_def)

lemma peek_set_header [simp]:
  "12 \<le> length page \<Longrightarrow> 12 \<le> off \<Longrightarrow> peek (set_lsn l page) off n = peek page off n"
  "12 \<le> length page \<Longrightarrow> 12 \<le> off \<Longrightarrow> peek (set_lower v page) off n = peek page off n"
  "12 \<le> length page \<Longrightarrow> 12 \<le> off \<Longrightarrow> peek (set_upper v page) off n = peek page off n"
  by (simp_all add: set_lsn_def set_lower_def set_upper_def mem_simps)

lemma load_item_peek:
  "length p = length q \<Longrightarrow> peek p (item_slot i) 4 = peek q (item_slot i) 4 \<Longrightarrow> load_item p i = load_item q i"
  by (simp add: load_item_def loadR_def)

section \<open>The page invariant\<close>

definition lowerN :: "page \<Rightarrow> nat" where "lowerN page = unat (ph_lower (GetHeader page))"
definition upperN :: "page \<Rightarrow> nat" where "upperN page = unat (ph_upper (GetHeader page))"

definition nitems :: "page \<Rightarrow> nat" where "nitems page = (lowerN page - 12) div 4"

definition item_at :: "page \<Rightarrow> nat \<Rightarrow> ItemId" where
  "item_at page i = item_of_bits (nat_of_le (peek page (item_slot i) 4))"

definition extent :: "page \<Rightarrow> nat \<Rightarrow> nat \<times> nat" where
  "extent page i = (unat (ii_offset (item_at page i)), unat (ii_length (item_at page i)))"

definition in_data :: "page \<Rightarrow> nat \<Rightarrow> bool" where
  "in_data page i \<longleftrightarrow> (case extent page i of (off, len) \<Rightarrow>
     upperN page \<le> off \<and> sizeof_HeapPageHeader < off \<and> 24 \<le> len \<and> off + len \<le> PageSize)"

definition disjoint_extents :: "nat \<times> nat \<Rightarrow> nat \<times> nat \<Rightarrow> bool" where
  "disjoint_extents e f \<longleftrightarrow> fst e + snd e \<le> fst f \<or> fst f + snd f \<le> fst e"

definition wf_header :: "page \<Rightarrow> bool" where
  "wf_header page \<longleftrightarrow> length page = PageSize \<and> 12 \<le> lowerN page \<and> lowerN page mod 4 = 0 \<and>
     lowerN page \<le> upperN page \<and> upperN page \<le> PageSize \<and> upperN page mod 8 = 0"

definition wf_page :: "page \<Rightarrow> bool" where
  "wf_page page \<longleftrightarrow> wf_header page \<and>
     (\<forall>i<nitems page. isNormal (item_at page i) \<longrightarrow> in_data page i) \<and>
     (\<forall>i<nitems page. \<forall>j<nitems page. i \<noteq> j \<and> isNormal (item_at page i) \<and> isNormal (item_at page j) \<longrightarrow>
        disjoint_extents (extent page i) (extent page j))"

lemma ItemsCount_wf:
  assumes "wf_header page"
  shows "unat (ItemsCount page) = nitems page"
proof -
  have l: "12 \<le> lowerN page" "lowerN page < 65536"
    using assms unsigned_less [of "ph_lower (GetHeader page)"] by (auto simp: wf_header_def lowerN_def)
  have "unat (ucast (ph_lower (GetHeader page)) - word_of_nat SizeOfHeapPageHeader :: u64) = lowerN page - 12"
    using l by (simp add: unat_sub word_le_nat_alt lowerN_def SizeOfHeapPageHeader_def unat_ucast_up)
  then show ?thesis using l
    by (simp add: ItemsCount_def page_nitems_def nitems_def Let_def unat_ucast_mod unat_div)
qed

section \<open>Inserting a tuple on a page\<close>

definition new_item :: "nat \<Rightarrow> nat \<Rightarrow> ItemId" where
  "new_item off len = \<lparr>ii_flags = ItemState_code Normal, ii_offset = word_of_nat off, ii_length = word_of_nat len\<rparr>"

definition inserted_page :: "LogSeqNumber \<Rightarrow> byte list \<Rightarrow> page \<Rightarrow> page" where
  "inserted_page lsn bs page =
     (let off = upperN page - align8 (length bs) in
      set_upper (word_of_nat off) (set_lower (word_of_nat (lowerN page + 4))
        (poke (poke (set_lsn lsn page) (lowerN page) (le_of_nat 4 (item_bits (new_item off (length bs))))) off bs)))"

lemma and_7FFF: "(x :: u16) AND 0x7FFF = take_bit 15 x"
  by (simp add: take_bit_eq_mask mask_eq_exp_minus_1)

lemma set15:
  assumes "k < 2 ^ 15"
  shows "(ucast ((word_of_nat k :: u16) AND 0x7FFF) :: 15 word) = word_of_nat k"
    and "(ucast (word_of_nat k :: 15 word) :: u16) = word_of_nat k"
proof -
  have "unat ((word_of_nat k :: u16) AND 0x7FFF) = k"
    using assms unfolding and_7FFF by (simp add: unsigned_take_bit_eq unat_of_nat take_bit_nat_eq_self)
  then show "(ucast ((word_of_nat k :: u16) AND 0x7FFF) :: 15 word) = word_of_nat k"
    using assms by (simp add: word_unat_eq_iff unat_ucast_mod unat_of_nat)
  show "(ucast (word_of_nat k :: 15 word) :: u16) = word_of_nat k"
    using assms by (simp add: word_unat_eq_iff unat_ucast_mod unat_of_nat)
qed

lemma setLength_ok: "k < 2 ^ 15 \<Longrightarrow> setLength (word_of_nat k) it = Inr (it\<lparr>ii_length := word_of_nat k\<rparr>)"
  by (simp add: setLength_def Let_def set15)

lemma setOffset_ok: "k < 2 ^ 15 \<Longrightarrow> setOffset (word_of_nat k) it = Inr (it\<lparr>ii_offset := word_of_nat k\<rparr>)"
  by (simp add: setOffset_def Let_def set15)

lemma isNormal_new_item [simp]: "isNormal (new_item off len)"
  by (simp add: isNormal_def new_item_def)

lemma GetTuple_new_item:
  "off < PageSize \<Longrightarrow> 16 < off \<Longrightarrow> GetTuple (new_item off len) = Inr off"
  by (simp add: GetTuple_def getOffset_def sizeof_HeapPageHeader_def PageSize_def)
    (simp add: new_item_def unat_ucast_up unat_of_nat)

lemma item_slot_nitems: "wf_header page \<Longrightarrow> item_slot (nitems page) = lowerN page"
  by (auto simp: item_slot_def nitems_def SizeOfHeapPageHeader_def wf_header_def)

lemma ucast16_of_nat: "k < 65536 \<Longrightarrow> ucast (word_of_nat k :: u16) = (word_of_nat k :: u64)"
  by (simp add: word_unat_eq_iff unat_ucast_mod unat_of_nat)

lemma header_words:
  "ph_lower (GetHeader page) = word_of_nat (lowerN page)"
  "ph_upper (GetHeader page) = word_of_nat (upperN page)"
  by (simp_all add: lowerN_def upperN_def)

lemma page_insert_eq:
  assumes wf: "wf_header page" and n: "24 \<le> length bs" "length bs \<le> PageSize"
    and fits: "lowerN page + align8 (length bs) \<le> upperN page" and off16: "16 + align8 (length bs) < upperN page"
  shows "page_insert lsn bs page = Inr (inserted_page lsn bs page)"
proof -
  define off where "off = upperN page - align8 (length bs)"
  have len: "length page = 8192" "12 \<le> length page" and U: "upperN page \<le> 8192"
    using wf by (simp_all add: wf_header_def PageSize_def)
  have A: "unat (MaxAlign (word_of_nat (length bs))) = align8 (length bs)"
    using n unat_MaxAlign [of "length bs"] by (simp add: PageSize_def align8_def)
  have offb: "off < 2 ^ 15" "lowerN page + 4 \<le> 8192" "16 < off" "off + length bs \<le> 8192"
    using fits off16 U n align8_le [of "length bs"] by (auto simp: off_def)
  have offw: "(ucast (ucast (word_of_nat (upperN page) :: u16) - MaxAlign (word_of_nat (length bs)) :: u64) :: u16) = word_of_nat off"
  proof -
    have "unat (ucast (word_of_nat (upperN page) :: u16) :: u64) = upperN page"
      using U by (simp add: unat_ucast_up unat_of_nat)
    then have "unat (ucast (word_of_nat (upperN page) :: u16) - MaxAlign (word_of_nat (length bs)) :: u64) = off"
      using A fits by (simp add: unat_sub word_le_nat_alt off_def)
    then show ?thesis using offb(1) by (simp add: word_unat_eq_iff unat_ucast_mod unat_of_nat)
  qed
  have count: "unat (ItemsCount (set_lsn lsn page)) = nitems page"
    using ItemsCount_wf [OF wf] len by (simp add: ItemsCount_def page_nitems_def)
  have load: "load_item (set_lsn lsn page) (nitems page) = Inr (item_at page (nitems page))"
    using wf len offb by (simp add: load_item_def item_at_def item_slot_nitems wf_header_def)
  have item: "(item_at page (nitems page))\<lparr>ii_flags := ItemState_code Normal, ii_length := word_of_nat (length bs),
      ii_offset := word_of_nat off\<rparr> = new_item off (length bs)"
    by (simp add: new_item_def)
  define page2 where "page2 = poke (set_lsn lsn page) (lowerN page) (le_of_nat 4 (item_bits (new_item off (length bs))))"
  have L12: "12 \<le> lowerN page" using wf by (simp add: wf_header_def)
  have p2: "length page2 = 8192" "GetHeader page2 = (GetHeader page)\<lparr>ph_lsn := lsn\<rparr>"
    using len offb L12 by (simp_all add: page2_def)
  have up: "(word_of_nat (upperN page) :: u16) - ucast (MaxAlign (word_of_nat (length bs))) = word_of_nat off"
  proof -
    have "(ucast (MaxAlign (word_of_nat (length bs))) :: u16) = word_of_nat (align8 (length bs))"
      using A by (simp add: word_unat_eq_iff unat_ucast_mod unat_of_nat)
    then show ?thesis using fits by (simp add: off_def of_nat_diff)
  qed
  have st: "store_item (nitems page) (new_item off (length bs)) (set_lsn lsn page) = Inr page2"
    using len offb wf by (simp add: store_item_def item_slot_nitems page2_def)
  have gt: "GetTuple (new_item off (length bs)) = Inr off"
  proof (rule GetTuple_new_item)
    show "off < PageSize" using U fits align8_le [of "length bs"] off16 n(1) by (simp add: off_def PageSize_def)
  qed (use offb in simp)
  have sl: "setLength (word_of_nat (length bs)) it = Inr (it\<lparr>ii_length := word_of_nat (length bs)\<rparr>)" for it
    using n by (intro setLength_ok) (simp add: PageSize_def)
  show ?thesis
    unfolding page_insert_def Let_def count load bindR_simps sl
    using offb p2 len
    by (simp add: header_words [of page] offw setOffset_ok item st gt)
      (simp add: inserted_page_def header_words [of page] up Let_def off_def [symmetric] page2_def [symmetric])
qed

lemma inserted_page_header:
  fixes lsn :: LogSeqNumber
  assumes wf: "wf_header page" and n: "24 \<le> length bs"
    and fits: "lowerN page + 4 + align8 (length bs) \<le> upperN page"
  defines "p' \<equiv> inserted_page lsn bs page" and "off \<equiv> upperN page - align8 (length bs)"
  shows "length p' = PageSize" "lowerN p' = lowerN page + 4" "upperN p' = off" "ph_lsn (GetHeader p') = lsn"
    "wf_header p'" "nitems p' = Suc (nitems page)"
proof -
  have len: "length page = 8192" "12 \<le> length page" "12 \<le> lowerN page" and U: "upperN page \<le> 8192"
    using wf by (simp_all add: wf_header_def PageSize_def)
  have offb: "off < 2 ^ 15" "lowerN page + 4 \<le> off" "16 \<le> off" "off + length bs \<le> 8192"
    using fits U len align8_le [of "length bs"] by (auto simp: off_def)
  define q where "q = poke (poke (set_lsn lsn page) (lowerN page) (le_of_nat 4 (item_bits (new_item off (length bs))))) off bs"
  have q: "length q = 8192" "GetHeader q = (GetHeader page)\<lparr>ph_lsn := lsn\<rparr>"
    using len offb by (simp_all add: q_def)
  have p': "p' = set_upper (word_of_nat off) (set_lower (word_of_nat (lowerN page + 4)) q)"
    by (simp add: p'_def inserted_page_def off_def q_def Let_def)
  show l: "length p' = PageSize" "lowerN p' = lowerN page + 4" "upperN p' = off" "ph_lsn (GetHeader p') = lsn"
    using q offb by (simp_all add: p' lowerN_def upperN_def PageSize_def unat_of_nat del: of_nat_add)
  have "off mod 8 = 0"
    using wf fits align8_le(3) [of "length bs"] unfolding off_def wf_header_def
    by (metis dvd_diff_nat mod_0_imp_dvd dvd_imp_mod_0)
  then show "wf_header p'" using l wf offb by (simp add: wf_header_def PageSize_def mod_add_eq [symmetric])
  show "nitems p' = Suc (nitems page)" using l len by (simp add: nitems_def)
qed

lemma inserted_page_peek:
  assumes wf: "wf_header page" and fits: "lowerN page + 4 + align8 (length bs) \<le> upperN page"
    and o1: "12 \<le> o1"
  defines "off \<equiv> upperN page - align8 (length bs)"
  shows "o1 + k \<le> lowerN page \<or> off + length bs \<le> o1 \<Longrightarrow>
      peek (inserted_page lsn bs page) o1 k = peek page o1 k"
    and "o1 = lowerN page \<Longrightarrow> k = 4 \<Longrightarrow>
      peek (inserted_page lsn bs page) o1 k = le_of_nat 4 (item_bits (new_item off (length bs)))"
    and "o1 = off \<Longrightarrow> k = length bs \<Longrightarrow> peek (inserted_page lsn bs page) o1 k = bs"
proof -
  have len: "length page = 8192" "12 \<le> length page" "12 \<le> lowerN page" and U: "upperN page \<le> 8192"
    using wf by (simp_all add: wf_header_def PageSize_def)
  have offb: "lowerN page + 4 \<le> off" "off + length bs \<le> 8192"
    using fits U len align8_le [of "length bs"] by (auto simp: off_def)
  define q where "q = poke (set_lsn lsn page) (lowerN page) (le_of_nat 4 (item_bits (new_item off (length bs))))"
  have q: "length q = 8192" using len offb by (simp add: q_def)
  have p': "peek (inserted_page lsn bs page) o1 k = peek (poke q off bs) o1 k"
    using o1 q offb by (simp add: inserted_page_def Let_def off_def [symmetric] q_def [symmetric])
  show "o1 + k \<le> lowerN page \<or> off + length bs \<le> o1 \<Longrightarrow>
      peek (inserted_page lsn bs page) o1 k = peek page o1 k"
    using offb q len o1 unfolding p'
    by (auto simp: mem_simps q_def)
  show "o1 = lowerN page \<Longrightarrow> k = 4 \<Longrightarrow>
      peek (inserted_page lsn bs page) o1 k = le_of_nat 4 (item_bits (new_item off (length bs)))"
    using offb q len unfolding p' by (simp add: mem_simps q_def)
  show "o1 = off \<Longrightarrow> k = length bs \<Longrightarrow> peek (inserted_page lsn bs page) o1 k = bs"
    using offb q unfolding p' by (simp add: mem_simps)
qed

section \<open>The abstract page\<close>

text \<open>A page holds a sequence of slots, each with the bytes of a tuple or nothing.\<close>

definition tuple_bytes :: "page \<Rightarrow> nat \<Rightarrow> byte list" where
  "tuple_bytes page i = (case extent page i of (off, len) \<Rightarrow> peek page off len)"

definition abs_page :: "page \<Rightarrow> byte list option list" where
  "abs_page page = map (\<lambda>i. if isNormal (item_at page i) then Some (tuple_bytes page i) else None)
     [0..<nitems page]"

lemma item_at_new:
  assumes "wf_header page" "lowerN page + 4 + align8 (length bs) \<le> upperN page" "24 \<le> length bs"
  shows "item_at (inserted_page lsn bs page) (nitems page)
    = new_item (upperN page - align8 (length bs)) (length bs)"
  using assms inserted_page_peek(2) [OF assms(1,2), of "lowerN page" 4 lsn]
  by (simp add: item_at_def item_slot_nitems wf_header_def)

lemma item_slot_old: "i < nitems page \<Longrightarrow> item_slot i + 4 \<le> lowerN page"
  by (simp add: item_slot_def nitems_def SizeOfHeapPageHeader_def)

lemma item_at_old:
  assumes "wf_header page" "lowerN page + 4 + align8 (length bs) \<le> upperN page" "i < nitems page"
  shows "item_at (inserted_page lsn bs page) i = item_at page i"
    and "extent (inserted_page lsn bs page) i = extent page i"
proof -
  show "item_at (inserted_page lsn bs page) i = item_at page i"
    using assms item_slot_old [OF assms(3)]
      inserted_page_peek(1) [OF assms(1,2), of "item_slot i" 4 lsn]
    by (simp add: item_at_def)
  then show "extent (inserted_page lsn bs page) i = extent page i" by (simp add: extent_def)
qed

lemma extent_new:
  assumes "wf_header page" "lowerN page + 4 + align8 (length bs) \<le> upperN page" "24 \<le> length bs"
  shows "extent (inserted_page lsn bs page) (nitems page) = (upperN page - align8 (length bs), length bs)"
proof -
  have "upperN page \<le> 8192" using assms(1) by (simp add: wf_header_def PageSize_def)
  then have "upperN page - align8 (length bs) < 2 ^ 15" "length bs < 2 ^ 15"
    using assms(2) align8_le [of "length bs"] by auto
  then show ?thesis
    by (simp add: extent_def item_at_new [OF assms]) (simp add: new_item_def unat_of_nat)
qed

lemma tuple_bytes_old:
  assumes "wf_page page" "lowerN page + 4 + align8 (length bs) \<le> upperN page" "i < nitems page"
    "isNormal (item_at page i)"
  shows "tuple_bytes (inserted_page lsn bs page) i = tuple_bytes page i"
proof -
  have wf: "wf_header page" and "in_data page i" using assms by (auto simp: wf_page_def)
  then obtain off len where e: "extent page i = (off, len)" "upperN page \<le> off"
    by (auto simp: in_data_def split: prod.splits)
  have "12 \<le> upperN page" using wf by (simp add: wf_header_def)
  then show ?thesis
    using e inserted_page_peek(1) [OF wf assms(2), of off len lsn] align8_le(1) [of "length bs"] assms(2)
    by (simp add: tuple_bytes_def item_at_old [OF wf assms(2,3)])
qed

lemma inserted_page_wf:
  assumes wfp: "wf_page page" and n: "24 \<le> length bs"
    and fits: "lowerN page + 4 + align8 (length bs) \<le> upperN page" and off16: "16 + align8 (length bs) < upperN page"
  shows "wf_page (inserted_page lsn bs page)"
proof -
  let ?p = "inserted_page lsn bs page"
  have wf: "wf_header page" using wfp by (simp add: wf_page_def)
  note h = inserted_page_header [OF wf n fits, of lsn]
  note new = extent_new [OF wf fits n, of lsn]
  note old = item_at_old [OF wf fits, of _ lsn]
  have U: "upperN page \<le> PageSize" using wf by (simp add: wf_header_def)
  have old_data: "in_data page i" if "i < nitems page" "isNormal (item_at page i)" for i
    using wfp that by (auto simp: wf_page_def)
  have dis_new: "disjoint_extents (extent page i) (extent ?p (nitems page))"
    "disjoint_extents (extent ?p (nitems page)) (extent page i)"
    if "i < nitems page" "isNormal (item_at page i)" for i
    using old_data [OF that] fits align8_le(1) [of "length bs"]
    by (auto simp: new disjoint_extents_def in_data_def split: prod.splits)
  have data: "in_data ?p i" if i: "i < nitems ?p" "isNormal (item_at ?p i)" for i
  proof (cases "i = nitems page")
    case True
    then show ?thesis using fits U align8_le(1) [of "length bs"] n off16
      by (simp add: in_data_def new h(3) sizeof_HeapPageHeader_def) linarith
  next
    case False
    then have "i < nitems page" using i h(6) by simp
    with old_data [of i] i(2) show ?thesis
      by (auto simp: in_data_def old h(3) split: prod.splits)
  qed
  have "disjoint_extents (extent ?p i) (extent ?p j)"
    if ij: "i < nitems ?p" "j < nitems ?p" "i \<noteq> j" "isNormal (item_at ?p i)" "isNormal (item_at ?p j)" for i j
  proof (cases "i = nitems page \<or> j = nitems page")
    case True
    then show ?thesis using ij h(6) dis_new by (auto simp: less_Suc_eq old)
  next
    case False
    then have "i < nitems page" "j < nitems page" using ij h(6) by auto
    then show ?thesis using ij wfp by (auto simp: old wf_page_def)
  qed
  then show ?thesis using h(5) data by (simp add: wf_page_def)
qed

lemma inserted_page_abs:
  assumes wfp: "wf_page page" and n: "24 \<le> length bs"
    and fits: "lowerN page + 4 + align8 (length bs) \<le> upperN page"
  shows "abs_page (inserted_page lsn bs page) = abs_page page @ [Some bs]"
proof -
  let ?p = "inserted_page lsn bs page"
  have wf: "wf_header page" using wfp by (simp add: wf_page_def)
  have "12 \<le> upperN page - align8 (length bs)" using fits wf unfolding wf_header_def by linarith
  then have "tuple_bytes ?p (nitems page) = bs"
    using inserted_page_peek(3) [OF wf fits, of "upperN page - align8 (length bs)" "length bs" lsn]
    by (simp add: tuple_bytes_def extent_new [OF wf fits n])
  moreover have "isNormal (item_at ?p (nitems page))"
    by (simp add: item_at_new [OF wf fits n])
  moreover have "map (\<lambda>i. if isNormal (item_at ?p i) then Some (tuple_bytes ?p i) else None) [0..<nitems page]
      = map (\<lambda>i. if isNormal (item_at page i) then Some (tuple_bytes page i) else None) [0..<nitems page]"
    by (auto simp: item_at_old [OF wf fits] tuple_bytes_old [OF wfp fits])
  ultimately show ?thesis
    by (simp add: abs_page_def inserted_page_header(6) [OF wf n fits])
qed

section \<open>Item states and in-place changes\<close>

definition page_set_dead :: "nat \<Rightarrow> page \<Rightarrow> page res" where
  "page_set_dead index page = bindR (GetItemId page index) (\<lambda>it. store_item index (setDead it) page)"

definition page_overwrite :: "nat \<Rightarrow> byte list \<Rightarrow> page \<Rightarrow> page res" where
  "page_overwrite index bs page =
     bindR (GetItemId page index) (\<lambda>it. bindR (GetTuple it) (\<lambda>off. storeR page off bs))"

lemma load_item_wf:
  assumes "wf_header page" "i < nitems page"
  shows "load_item page i = Inr (item_at page i)"
  using assms item_slot_old [OF assms(2)]
  by (simp add: load_item_def item_at_def wf_header_def)

lemma GetItemId_wf:
  assumes "wf_header page" "i < nitems page"
  shows "GetItemId page i = Inr (item_at page i)"
  using assms by (simp add: GetItemId_def ItemsCount_wf load_item_wf)

lemma GetTuple_wf:
  assumes "wf_page page" "i < nitems page" "isNormal (item_at page i)"
  shows "GetTuple (item_at page i) = Inr (fst (extent page i))"
proof -
  have d: "in_data page i" and h: "wf_header page" using assms by (auto simp: wf_page_def)
  have "fst (extent page i) < PageSize" "16 < fst (extent page i)"
    using d by (auto simp: in_data_def sizeof_HeapPageHeader_def split: prod.splits)
  then show ?thesis using assms(3)
    by (simp add: GetTuple_def getOffset_def extent_def unat_ucast_up sizeof_HeapPageHeader_def Let_def)
qed

text \<open>
  Changing bytes of a page outside the header and the item array: the header and all items stay,
  and so does every tuple whose extent is disjoint from the written range.
\<close>

lemma poke_data_frame:
  assumes wf: "wf_header page" and lo: "lowerN page \<le> off" and hi: "off + length bs \<le> PageSize"
  defines "p' \<equiv> poke page off bs"
  shows "GetHeader p' = GetHeader page" "wf_header p'" "lowerN p' = lowerN page" "upperN p' = upperN page"
    "nitems p' = nitems page" "i < nitems page \<Longrightarrow> item_at p' i = item_at page i"
    "i < nitems page \<Longrightarrow> extent p' i = extent page i"
proof -
  have len: "length page = PageSize" "12 \<le> off" using wf lo by (auto simp: wf_header_def)
  show h: "GetHeader p' = GetHeader page" using len hi by (simp add: p'_def)
  then show l: "lowerN p' = lowerN page" "upperN p' = upperN page" "nitems p' = nitems page"
    by (simp_all add: lowerN_def upperN_def nitems_def)
  then show "wf_header p'" using wf len hi by (simp add: wf_header_def p'_def)
  show it: "item_at p' i = item_at page i" if "i < nitems page"
    using item_slot_old [OF that] lo len hi by (simp add: item_at_def p'_def mem_simps)
  show "extent p' i = extent page i" if "i < nitems page"
    using it [OF that] by (simp add: extent_def)
qed

lemma page_overwrite_ok:
  assumes wfp: "wf_page page" and i: "i < nitems page" "isNormal (item_at page i)"
    and n: "length bs \<le> snd (extent page i)"
  shows "\<exists>p'. page_overwrite i bs page = Inr p' \<and> wf_page p' \<and>
    abs_page p' = (abs_page page)[i := Some (bs @ drop (length bs) (tuple_bytes page i))]"
proof -
  have wf: "wf_header page" and d: "in_data page i" using wfp i by (auto simp: wf_page_def)
  obtain off len where e: "extent page i = (off, len)" by fastforce
  have b: "lowerN page \<le> off" "off + len \<le> PageSize" "length bs \<le> len" "length page = PageSize"
    using d e n wf by (auto simp: in_data_def wf_header_def)
  let ?p = "poke page off bs"
  note fr = poke_data_frame [OF wf b(1), of bs]
  have hi: "off + length bs \<le> PageSize" using b by simp
  have eq: "page_overwrite i bs page = Inr ?p"
    using i wf wfp e b by (simp add: page_overwrite_def GetItemId_wf GetTuple_wf)
  have wf': "wf_page ?p"
    using wfp fr [OF hi] by (auto simp: wf_page_def in_data_def)
  have other: "tuple_bytes ?p j = tuple_bytes page j" if "j < nitems page" "isNormal (item_at page j)" "j \<noteq> i" for j
  proof -
    obtain o2 l2 where e2: "extent page j = (o2, l2)" by fastforce
    have dis: "disjoint_extents (extent page i) (extent page j)" using wfp i that by (auto simp: wf_page_def)
    then show ?thesis
      using e e2 b fr(7) [OF hi, of j] that
      by (auto simp: tuple_bytes_def disjoint_extents_def peek_poke_before peek_poke_after)
  qed
  have self: "tuple_bytes ?p i = bs @ drop (length bs) (tuple_bytes page i)"
    using e b fr(7) [OF hi i(1)]
    by (simp add: tuple_bytes_def peek_def poke_def drop_take add.commute)
  have "abs_page ?p = (abs_page page)[i := Some (bs @ drop (length bs) (tuple_bytes page i))]"
    by (rule nth_equalityI) (use fr [OF hi] i other self in \<open>auto simp: abs_page_def nth_list_update\<close>)
  with eq wf' show ?thesis by blast
qed

lemma item_at_store:
  assumes "wf_header page" "i < nitems page" "j < nitems page"
  shows "item_at (poke page (item_slot i) (le_of_nat 4 (item_bits it))) j = (if j = i then it else item_at page j)"
proof -
  have b: "item_slot i + 4 \<le> length page"
    using assms item_slot_old [OF assms(2)] by (simp add: wf_header_def)
  show ?thesis
  proof (cases "j = i")
    case True
    then show ?thesis using b by (simp add: item_at_def mem_simps)
  next
    case False
    then have "item_slot j + 4 \<le> item_slot i \<or> item_slot i + 4 \<le> item_slot j"
      by (auto simp: item_slot_def)
    then show ?thesis using False b by (auto simp: item_at_def mem_simps)
  qed
qed

lemma page_set_dead_ok:
  assumes wfp: "wf_page page" and i: "i < nitems page"
  shows "\<exists>p'. page_set_dead i page = Inr p' \<and> wf_page p' \<and> abs_page p' = (abs_page page)[i := None]"
proof -
  have wf: "wf_header page" using wfp by (simp add: wf_page_def)
  let ?p = "poke page (item_slot i) (le_of_nat 4 (item_bits (setDead (item_at page i))))"
  have b: "item_slot i + 4 \<le> lowerN page" "lowerN page \<le> upperN page" "length page = PageSize"
    "item_slot i + 4 \<le> length page"
    using wf item_slot_old [OF i] by (auto simp: wf_header_def)
  have eq: "page_set_dead i page = Inr ?p"
    using b i wf by (simp add: page_set_dead_def GetItemId_wf store_item_def)
  have h: "GetHeader ?p = GetHeader page" using b by simp
  then have l: "lowerN ?p = lowerN page" "upperN ?p = upperN page" "nitems ?p = nitems page"
    by (simp_all add: lowerN_def upperN_def nitems_def)
  have it: "item_at ?p j = (if j = i then setDead (item_at page i) else item_at page j)" if "j < nitems page" for j
    using item_at_store [OF wf i that] by simp
  have dead: "\<not> isNormal (setDead x)" for x
    by (simp add: isNormal_def setDead_def ItemState_code_def)
  have ext: "extent ?p j = extent page j" "isNormal (item_at page j)" "j \<noteq> i"
    if "j < nitems page" "isNormal (item_at ?p j)" for j
    using that it [OF that(1)] dead by (auto simp: extent_def split: if_splits)
  have wf': "wf_page ?p"
    using wfp l b ext by (simp add: wf_page_def wf_header_def in_data_def)
  have bytes: "tuple_bytes ?p j = tuple_bytes page j" if j: "j < nitems page" "isNormal (item_at ?p j)" for j
  proof -
    obtain off len where e: "extent page j = (off, len)" by fastforce
    have "in_data page j" using wfp j(1) ext(2) [OF j] by (auto simp: wf_page_def)
    then have "upperN page \<le> off" using e by (simp add: in_data_def)
    then show ?thesis using e ext(1) [OF j] b by (simp add: tuple_bytes_def mem_simps)
  qed
  have "abs_page ?p = (abs_page page)[i := None]"
    by (rule nth_equalityI)
      (use l i it dead bytes in \<open>auto simp: abs_page_def nth_list_update split: if_splits\<close>)
  with eq wf' show ?thesis by blast
qed

section \<open>The interface of a page to its table\<close>

text \<open>
  What a table relies on: a page that satisfies \<open>wf\<close> shows a sequence of slots, an insert that fits
  into the room appends a slot and uses up its cost, a slot can be emptied and rewritten. Sequences
  of inserts are then proved once.
\<close>

locale slotted_page =
  fixes wf :: "'p \<Rightarrow> bool"
    and slots :: "'p \<Rightarrow> byte list option list"
    and room :: "'p \<Rightarrow> nat"
    and cost :: "byte list \<Rightarrow> nat"
    and valid :: "byte list \<Rightarrow> bool"
    and ins :: "byte list \<Rightarrow> 'p \<Rightarrow> 'p res"
    and kill :: "nat \<Rightarrow> 'p \<Rightarrow> 'p res"
  assumes ins_ok: "wf p \<Longrightarrow> valid bs \<Longrightarrow> cost bs \<le> room p \<Longrightarrow>
      \<exists>q. ins bs p = Inr q \<and> wf q \<and> slots q = slots p @ [Some bs] \<and> room q = room p - cost bs"
    and kill_ok: "wf p \<Longrightarrow> i < length (slots p) \<Longrightarrow> \<exists>q. kill i p = Inr q \<and> wf q \<and> slots q = (slots p)[i := None]"
begin

lemma insert_all:
  assumes "wf p" "\<forall>bs\<in>set bss. valid bs" "sum_list (map cost bss) \<le> room p"
  shows "\<exists>q. foldR ins bss p = Inr q \<and> wf q \<and> slots q = slots p @ map Some bss \<and>
    room q = room p - sum_list (map cost bss)"
  using assms
proof (induction bss arbitrary: p)
  case Nil
  then show ?case by simp
next
  case (Cons bs bss)
  then obtain q where q: "ins bs p = Inr q" "wf q" "slots q = slots p @ [Some bs]" "room q = room p - cost bs"
    using ins_ok [of p bs] by auto
  with Cons obtain r where "foldR ins bss q = Inr r" "wf r" "slots r = slots q @ map Some bss"
    "room r = room q - sum_list (map cost bss)" by fastforce
  with q show ?case by simp
qed

lemma insert_then_kill:
  assumes "wf p" "valid bs" "cost bs \<le> room p"
  shows "\<exists>q r. ins bs p = Inr q \<and> kill (length (slots p)) q = Inr r \<and> wf r \<and> slots r = slots p @ [None]"
proof -
  obtain q where q: "ins bs p = Inr q" "wf q" "slots q = slots p @ [Some bs]" using ins_ok [OF assms] by blast
  with kill_ok [of q "length (slots p)"] show ?thesis by (auto simp: list_update_append)
qed

end

definition page_room :: "page \<Rightarrow> nat" where "page_room page = upperN page - lowerN page - 1"
definition insert_cost :: "byte list \<Rightarrow> nat" where "insert_cost bs = 4 + align8 (length bs)"

lemma page_insert_ok:
  assumes "wf_page page" "24 \<le> length bs" "insert_cost bs \<le> page_room page"
  shows "\<exists>q. page_insert lsn bs page = Inr q \<and> wf_page q \<and> abs_page q = abs_page page @ [Some bs] \<and>
    page_room q = page_room page - insert_cost bs"
proof -
  have wf: "wf_header page" using assms(1) by (simp add: wf_page_def)
  have "lowerN page + 4 + align8 (length bs) < upperN page"
    using assms(3) by (auto simp: insert_cost_def page_room_def)
  then have fits: "lowerN page + 4 + align8 (length bs) \<le> upperN page" "16 + align8 (length bs) < upperN page"
    "length bs \<le> PageSize" using wf align8_le(1) [of "length bs"] by (auto simp: wf_header_def)
  then have "page_insert lsn bs page = Inr (inserted_page lsn bs page)"
    using wf assms(2) by (intro page_insert_eq) auto
  moreover have "page_room (inserted_page lsn bs page) = page_room page - insert_cost bs"
    using inserted_page_header(2,3) [OF wf assms(2) fits(1), of lsn]
    by (simp add: page_room_def insert_cost_def)
  ultimately show ?thesis
    using inserted_page_wf [OF assms(1,2) fits(1,2)] inserted_page_abs [OF assms(1,2) fits(1)] by blast
qed

interpretation heap_page: slotted_page wf_page abs_page page_room insert_cost "\<lambda>bs. 24 \<le> length bs"
    "page_insert lsn" page_set_dead
  for lsn
  by unfold_locales (use page_insert_ok page_set_dead_ok in \<open>auto simp: abs_page_def\<close>)

lemma Init_bounds:
  "length page = PageSize \<Longrightarrow> lowerN (Init page) = 12 \<and> upperN (Init page) = 8192"
  by (simp add: Init_def lowerN_def upperN_def PageSize_def SizeOfHeapPageHeader_def)

lemma Init_wf:
  assumes "length page = PageSize"
  shows "wf_page (Init page)" "abs_page (Init page) = []" "page_room (Init page) = 8179"
proof -
  have h: "lowerN (Init page) = 12" "upperN (Init page) = 8192"
    using Init_bounds [OF assms] by simp_all
  moreover have "length (Init page) = PageSize" using assms by (simp add: Init_def PageSize_def)
  ultimately show "wf_page (Init page)" "abs_page (Init page) = []" "page_room (Init page) = 8179"
    by (simp_all add: wf_page_def wf_header_def nitems_def PageSize_def abs_page_def page_room_def)
qed

section \<open>Properties\<close>

text \<open>
  C10. Inserting a tuple that fits with its padding appends exactly that tuple to the slots of the
  page: the result is again well formed (tuples in the data area, pairwise disjoint, lower below
  upper), no other slot changes, the page carries the new lsn and the free space shrinks by the
  item identifier and the padded length.
\<close>

theorem page_insert_correct:
  assumes "wf_page page" "24 \<le> length bs" "lowerN page + 4 + align8 (length bs) \<le> upperN page"
    and "16 + align8 (length bs) < upperN page"
  shows "\<exists>q. page_insert lsn bs page = Inr q \<and> wf_page q \<and> abs_page q = abs_page page @ [Some bs] \<and>
    ph_lsn (GetHeader q) = lsn \<and> upperN q - lowerN q = upperN page - lowerN page - (4 + align8 (length bs))"
proof -
  have wf: "wf_header page" using assms(1) by (simp add: wf_page_def)
  then have "length bs \<le> PageSize" using assms(3) align8_le(1) [of "length bs"] by (auto simp: wf_header_def)
  then have "page_insert lsn bs page = Inr (inserted_page lsn bs page)"
    using wf assms by (intro page_insert_eq) auto
  then show ?thesis
    using inserted_page_wf [OF assms] inserted_page_abs [OF assms(1-3)] inserted_page_header [OF wf assms(2,3)]
    by fastforce
qed

theorem page_insert_correct_witness:
  "\<exists>q. page_insert 5 (replicate 28 1) (Init (replicate PageSize 0)) = Inr q \<and> wf_page q \<and>
     abs_page q = [Some (replicate 28 1)] \<and> ph_lsn (GetHeader q) = 5 \<and> upperN q - lowerN q = 8144"
proof -
  let ?p = "Init (replicate PageSize 0)"
  have h: "lowerN ?p = 12" "upperN ?p = 8192" "wf_page ?p" "abs_page ?p = []"
    by (simp_all add: Init_bounds Init_wf)
  show ?thesis
    using page_insert_correct [of ?p "replicate 28 1" 5] h by (simp add: align8_def)
qed

text \<open>
  C27. A page that has been initialised accepts any sequence of tuples whose padded sizes and item
  identifiers fit, and afterwards holds exactly these tuples in order.
\<close>

theorem page_fill:
  assumes "length page = PageSize" "\<forall>bs\<in>set bss. 24 \<le> length bs" "sum_list (map insert_cost bss) \<le> 8179"
  shows "\<exists>q. foldR (page_insert lsn) bss (Init page) = Inr q \<and> wf_page q \<and> abs_page q = map Some bss"
  using heap_page.insert_all [of "Init page" bss lsn] assms Init_wf [OF assms(1)] by auto

theorem page_fill_witness:
  "\<exists>q. foldR (page_insert 1) [replicate 24 7, replicate 30 8] (Init (replicate PageSize 0)) = Inr q \<and>
     wf_page q \<and> abs_page q = [Some (replicate 24 7), Some (replicate 30 8)]"
  using page_fill [of "replicate PageSize 0" "[replicate 24 7, replicate 30 8]" 1]
  by (simp add: insert_cost_def align8_def)

text \<open>
  C26. Marking an item dead empties exactly that slot, and rewriting a live tuple in place with no
  more bytes than its extent replaces exactly these bytes; both keep the page well formed.
\<close>

theorem page_slot_updates:
  assumes "wf_page page" "i < length (abs_page page)"
  shows "(\<exists>q. page_set_dead i page = Inr q \<and> wf_page q \<and> abs_page q = (abs_page page)[i := None]) \<and>
    (\<forall>old bs. abs_page page ! i = Some old \<and> length bs \<le> length old \<longrightarrow>
      (\<exists>q. page_overwrite i bs page = Inr q \<and> wf_page q \<and>
        abs_page q = (abs_page page)[i := Some (bs @ drop (length bs) old)]))"
proof -
  have i: "i < nitems page" using assms(2) by (simp add: abs_page_def)
  have "\<exists>q. page_overwrite i bs page = Inr q \<and> wf_page q \<and>
        abs_page q = (abs_page page)[i := Some (bs @ drop (length bs) old)]"
    if "abs_page page ! i = Some old" "length bs \<le> length old" for old bs
  proof -
    have n: "isNormal (item_at page i)" "old = tuple_bytes page i"
      using that i by (auto simp: abs_page_def split: if_splits)
    have "length bs \<le> snd (extent page i)"
      using that(2) n(2) by (auto simp: tuple_bytes_def split: prod.splits)
    then show ?thesis using page_overwrite_ok [OF assms(1) i n(1)] n(2) by blast
  qed
  then show ?thesis using page_set_dead_ok [OF assms(1) i] by blast
qed

theorem page_slot_updates_witness:
  "\<exists>p q. page_insert 1 (replicate 24 7) (Init (replicate PageSize 0)) = Inr p \<and>
     page_set_dead 0 p = Inr q \<and> abs_page q = [None]"
proof -
  obtain p where p: "page_insert 1 (replicate 24 7) (Init (replicate PageSize 0)) = Inr p" "wf_page p"
    "abs_page p = [Some (replicate 24 7)]"
    using page_insert_ok [of "Init (replicate PageSize 0)" "replicate 24 7" 1]
    by (auto simp: Init_wf insert_cost_def align8_def)
  with page_slot_updates [of p 0] show ?thesis by auto
qed

text \<open>
  C29. The free-space test of \<open>InsertTuple\<close> uses the unpadded size. When exactly the padding does
  not fit, the test passes and the insert runs to its end, but the tuple is copied over its own item
  identifier, \<open>upper\<close> ends 4 bytes below \<open>lower\<close>, and the free space the page reports afterwards
  wraps around to more than any page has.
\<close>

theorem page_insert_padding_overlap:
  assumes wf: "wf_page page" and n: "24 \<le> length bs"
    and check: "\<not> GetFreeSpace page < word_of_nat (length bs + 4)"
    and pad: "upperN page - lowerN page < align8 (length bs) + 4" and off16: "16 + align8 (length bs) < upperN page"
  shows "\<exists>q. page_insert lsn bs page = Inr q \<and> lowerN q = upperN q + 4 \<and>
    peek q (item_slot (nitems page)) 4 = take 4 bs \<and> GetFreeSpace q = - 4"
proof -
  have h: "wf_header page" and len: "length page = 8192" "12 \<le> lowerN page" "lowerN page \<le> upperN page" "upperN page \<le> 8192"
    using wf by (auto simp: wf_page_def wf_header_def PageSize_def)
  have m: "lowerN page mod 4 = 0" "upperN page mod 8 = 0" using h by (auto simp: wf_header_def)
  have fs: "unat (GetFreeSpace page) = upperN page - lowerN page"
    using len(3) by (simp add: GetFreeSpace_def unat_sub word_le_nat_alt unat_ucast_up lowerN_def upperN_def)
  have nb: "length bs \<le> 8192" using off16 len(4) align8_le(1) [of "length bs"] by simp
  have size: "length bs + 4 \<le> upperN page - lowerN page"
    using check fs nb by (simp add: word_less_nat_alt unat_of_nat del: of_nat_add)
  have off: "upperN page - align8 (length bs) = lowerN page"
  proof -
    obtain a where a: "align8 (length bs) = 4 * a" by (simp add: align8_def)
    obtain l where l: "lowerN page = 4 * l" using m(1) by (auto elim: dvdE)
    obtain v where v: "upperN page = 8 * v" using m(2) by (auto elim: dvdE)
    define u where "u = 2 * v"
    have u: "upperN page = 4 * u" by (simp add: v u_def)
    have "l \<le> u" "length bs + 4 \<le> 4 * (u - l)" "4 * (u - l) < 4 * a + 4" "4 * a < length bs + 8"
      using size pad align8_le(2) [of "length bs"] len(3) unfolding a l u by (simp_all add: diff_mult_distrib2)
    then have "l \<le> u" "u - l < a + 1" "a < u - l + 1" by linarith+
    then show ?thesis unfolding a l u by simp
  qed
  have fits: "lowerN page + align8 (length bs) \<le> upperN page" using off off16 by simp
  have eq: "page_insert lsn bs page = Inr (inserted_page lsn bs page)"
    using page_insert_eq [OF h n _ fits off16] nb by (simp add: PageSize_def)
  define q0 where "q0 = poke (poke (set_lsn lsn page) (lowerN page)
      (le_of_nat 4 (item_bits (new_item (lowerN page) (length bs))))) (lowerN page) bs"
  have b: "lowerN page + length bs \<le> 8192" "lowerN page + 4 \<le> 8192" using size len n by auto
  have q0: "length q0 = 8192" "GetHeader q0 = (GetHeader page)\<lparr>ph_lsn := lsn\<rparr>"
    using len b by (simp_all add: q0_def)
  have ip: "inserted_page lsn bs page = set_upper (word_of_nat (lowerN page)) (set_lower (word_of_nat (lowerN page + 4)) q0)"
    by (simp add: inserted_page_def off q0_def Let_def)
  have lu: "lowerN (inserted_page lsn bs page) = lowerN page + 4" "upperN (inserted_page lsn bs page) = lowerN page"
    using q0 b unfolding ip by (simp_all add: lowerN_def [of "set_upper _ _"] upperN_def [of "set_upper _ _"] unat_of_nat del: of_nat_add)
  have "peek (inserted_page lsn bs page) (lowerN page) 4 = peek q0 (lowerN page) 4"
    using q0 len unfolding ip by simp
  also have "\<dots> = take 4 bs"
    using b len n by (simp add: q0_def mem_simps) (simp add: peek_def)
  finally have "peek (inserted_page lsn bs page) (lowerN page) 4 = take 4 bs" .
  moreover have "GetFreeSpace (inserted_page lsn bs page) = word_of_nat (lowerN page) - word_of_nat (lowerN page + 4)"
    using q0 b unfolding ip by (simp add: GetFreeSpace_def ucast16_of_nat del: of_nat_add)
  then have "GetFreeSpace (inserted_page lsn bs page) = - 4" by simp
  ultimately show ?thesis using eq lu item_slot_nitems [OF h] by auto
qed

theorem page_insert_padding_overlap_witness:
  "\<exists>p q. foldR (page_insert 1) [replicate 24 7, replicate 24 7, replicate 8088 7] (Init (replicate PageSize 0)) = Inr p \<and>
     wf_page p \<and> \<not> GetFreeSpace p < word_of_nat (length (replicate 28 9 :: byte list) + 4) \<and>
     page_insert 2 (replicate 28 9) p = Inr q \<and> lowerN q = upperN q + 4 \<and> GetFreeSpace q = - 4"
proof -
  let ?base = "Init (replicate PageSize 0)"
  let ?ts = "[replicate 24 7, replicate 24 7, replicate 8088 7] :: byte list list"
  have al: "align8 24 = 24" "align8 8088 = 8088" "align8 28 = 32" by (simp_all add: align8_def)
  obtain p where p: "foldR (page_insert 1) ?ts ?base = Inr p" "wf_page p" "abs_page p = map Some ?ts" "page_room p = 31"
    using heap_page.insert_all [of ?base ?ts 1] Init_wf [of "replicate PageSize 0"]
    by (auto simp: insert_cost_def al)
  have "length (abs_page p) = 3" by (simp add: p(3))
  then have "nitems p = 3" by (simp add: abs_page_def)
  moreover have "lowerN p mod 4 = 0" "12 \<le> lowerN p" using p(2) by (auto simp: wf_page_def wf_header_def)
  ultimately have lo: "lowerN p = 24" by (auto simp: nitems_def elim!: dvdE)
  have up: "upperN p = 56" using p(4) lo by (simp add: page_room_def)
  have "GetFreeSpace p = 32"
    using lo up by (simp add: GetFreeSpace_def header_words)
  then have chk: "\<not> GetFreeSpace p < word_of_nat (length (replicate 28 9 :: byte list) + 4)" by simp
  obtain q where "page_insert 2 (replicate 28 9) p = Inr q" "lowerN q = upperN q + 4" "GetFreeSpace q = - 4"
    using page_insert_padding_overlap [OF p(2) _ chk, of 2] lo up al(3) by auto
  with p(1,2) chk show ?thesis by blast
qed

end
