(* ===== verification/Mimi_Buffer.thy ===== *)
theory Mimi_Buffer
  imports Mimi_Undo Mimi_Dll Mimi_HeapPage
begin

text \<open>
  The buffer manager (\<open>storage/buffer/BufferManager.cpp\<close>) with its cache entries
  (\<open>internal/CacheEntry.cpp\<close>), the page table (\<open>adt/HashTable.hpp\<close>), the stack of free buffers
  (\<open>adt/LinkedList.hpp\<close>) and the handles given to callers (\<open>Buffer\<close>, \<open>BufferPin\<close>). The model is the
  run of one worker: latches are free when taken, a compare-and-swap succeeds, and a wait that only
  another worker could end is an error. Cache entries and buffers are named by their index; a null
  pointer is \<open>None\<close>.
\<close>

unbundle bit_operations_syntax

section \<open>HashTable\<close>

text \<open>The partitions of the page table; the hash function is a parameter.\<close>

record ('k, 'v) HashTable =
  ht_hash :: "'k \<Rightarrow> nat"
  ht_maps :: "('k \<Rightarrow> 'v option) list"

definition getElementIndex :: "('k, 'v) HashTable \<Rightarrow> 'k \<Rightarrow> nat" where
  "getElementIndex h k = ht_hash h k mod length (ht_maps h)"

definition ht_Get :: "('k, 'v) HashTable \<Rightarrow> 'k \<Rightarrow> 'v option" where
  "ht_Get h k = (ht_maps h ! getElementIndex h k) k"

definition ht_Has :: "('k, 'v) HashTable \<Rightarrow> 'k \<Rightarrow> bool" where
  "ht_Has h k \<longleftrightarrow> (ht_maps h ! getElementIndex h k) k \<noteq> None"

text \<open>The value stored under the key afterwards, whether it was inserted, and the table.\<close>

definition ht_Insert :: "'k \<Rightarrow> 'v \<Rightarrow> ('k, 'v) HashTable \<Rightarrow> 'v \<times> bool \<times> ('k, 'v) HashTable" where
  "ht_Insert k v h = (let i = getElementIndex h k in
     case (ht_maps h ! i) k of
       Some old \<Rightarrow> (old, False, h)
     | None \<Rightarrow> (v, True, h\<lparr>ht_maps := (ht_maps h)[i := (ht_maps h ! i)(k \<mapsto> v)]\<rparr>))"

definition ht_Remove :: "'k \<Rightarrow> ('k, 'v) HashTable \<Rightarrow> bool \<times> ('k, 'v) HashTable" where
  "ht_Remove k h = (let i = getElementIndex h k in
     ((ht_maps h ! i) k \<noteq> None, h\<lparr>ht_maps := (ht_maps h)[i := (ht_maps h ! i)(k := None)]\<rparr>))"

section \<open>Cache entries\<close>

definition Locked :: u32 where "Locked = push_bit 31 1"
definition TagValid :: u32 where "TagValid = push_bit 30 1"
definition IsTopList :: u32 where "IsTopList = push_bit 29 1"
definition IsFrequencyList :: u32 where "IsFrequencyList = push_bit 28 1"
definition IoInProgress :: u32 where "IoInProgress = push_bit 27 1"
definition IoErrorFlag :: u32 where "IoErrorFlag = push_bit 26 1"
definition DataValid :: u32 where "DataValid = push_bit 25 1"
definition Dirty :: u32 where "Dirty = push_bit 26 1"

definition CacheEntryListMask :: u32 where "CacheEntryListMask = IsTopList OR IsFrequencyList"
definition BufferRefCountMask :: u32 where "BufferRefCountMask = push_bit 20 1 - 1"
definition BufferRefCountOne :: u32 where "BufferRefCountOne = 1"

record CacheEntry =
  ce_Tag :: PageTag
  ce_BlockId :: nat
  ce_State :: u32
  ce_Buffer :: "nat option"
  ce_Prev :: "nat option"
  ce_Next :: "nat option"

definition IsRouge :: "CacheEntry \<Rightarrow> bool" where
  "IsRouge e \<longleftrightarrow> ce_Prev e = None \<and> ce_Next e = None"

record CacheEntryList =
  cl_head :: "nat option"
  cl_tail :: "nat option"
  cl_size :: u32

datatype list_id = T1 | T2 | B1 | B2 | FreeList

record buffer_state = undo_state +
  bm_map :: "(PageTag, nat) HashTable"
  bm_npages :: u32
  bm_entries :: "nat \<Rightarrow> CacheEntry"
  bm_pages :: "nat \<Rightarrow> page"
  bm_freeBuffers :: "nat list"
  bm_lists :: "list_id \<Rightarrow> CacheEntryList"
  bm_P :: u32

definition entry :: "nat \<Rightarrow> ('x buffer_state_scheme, CacheEntry) cm" where
  "entry i = getM (\<lambda>s. bm_entries s i)"

definition upd_entry :: "nat \<Rightarrow> (CacheEntry \<Rightarrow> CacheEntry) \<Rightarrow> ('x buffer_state_scheme, unit) cm" where
  "upd_entry i f = updM (\<lambda>s. s\<lparr>bm_entries := (bm_entries s)(i := f (bm_entries s i))\<rparr>)"

definition upd_state :: "nat \<Rightarrow> (u32 \<Rightarrow> u32) \<Rightarrow> ('x buffer_state_scheme, unit) cm" where
  "upd_state i f = upd_entry i (\<lambda>e. e\<lparr>ce_State := f (ce_State e)\<rparr>)"

definition state_of :: "nat \<Rightarrow> ('x buffer_state_scheme, u32) cm" where
  "state_of i = getM (\<lambda>s. ce_State (bm_entries s i))"

definition CE_Pin :: "nat \<Rightarrow> ('x buffer_state_scheme, unit) cm" where
  "CE_Pin i = bindM (state_of i) (\<lambda>old.
     thenM (upd_state i (\<lambda>st. st + BufferRefCountOne))
     (assertM ''(old & BufferRefCountMask) != BufferRefCountMask'' (old AND BufferRefCountMask \<noteq> BufferRefCountMask)))"

definition CE_Unpin :: "nat \<Rightarrow> ('x buffer_state_scheme, unit) cm" where
  "CE_Unpin i = bindM (state_of i) (\<lambda>old.
     thenM (upd_state i (\<lambda>st. st - BufferRefCountOne))
     (assertM ''(old & BufferRefCountMask) > 0'' (old AND BufferRefCountMask > 0)))"

definition CE_Lock :: "nat \<Rightarrow> ('x buffer_state_scheme, u32) cm" where
  "CE_Lock i = bindM (state_of i) (\<lambda>old.
     if old AND Locked \<noteq> 0 then raiseM (Undefined ''entry lock is never released'')
     else thenM (upd_state i (\<lambda>st. st OR Locked)) (retM (old OR Locked)))"

definition CE_Unlock :: "nat \<Rightarrow> ('x buffer_state_scheme, unit) cm" where
  "CE_Unlock i = bindM (state_of i) (\<lambda>prev.
     thenM (upd_state i (\<lambda>st. st - Locked)) (assertM ''prev & CacheEntryFlags::Locked'' (prev AND Locked \<noteq> 0)))"

definition CE_TearDown :: "nat \<Rightarrow> ('x buffer_state_scheme, unit) cm" where
  "CE_TearDown i = bindM (state_of i) (\<lambda>st.
     thenM (assertM ''!(State & IsTopList)'' (st AND IsTopList = 0))
     (thenM (assertM ''!(State & Locked)'' (st AND Locked = 0))
     (upd_state i (\<lambda>_. 0))))"

definition TerminateBufferIO :: "nat \<Rightarrow> u32 \<Rightarrow> u32 \<Rightarrow> ('x buffer_state_scheme, unit) cm" where
  "TerminateBufferIO i setFlags unsetFlags =
     thenM (assertM ''(setFlags & unsetFlags) == 0'' (setFlags AND unsetFlags = 0))
     (bindM (CE_Lock i) (\<lambda>st.
      thenM (assertM ''state & IoInProgress'' (st AND IoInProgress \<noteq> 0))
      (thenM (upd_state i (\<lambda>x. x AND NOT (IoInProgress OR IoErrorFlag)))
      (thenM (upd_state i (\<lambda>x. x AND NOT unsetFlags))
      (thenM (upd_state i (\<lambda>x. x OR setFlags))
      (thenM (CE_Unlock i)
      (bindM (entry i) (\<lambda>e. assertM ''this->Buffer != nullptr'' (ce_Buffer e \<noteq> None)))))))))"

definition ShouldStartIO :: "nat \<Rightarrow> bool \<Rightarrow> ('x buffer_state_scheme, bool) cm" where
  "ShouldStartIO i forInput =
     bindM (CE_Lock i) (\<lambda>st.
     if st AND IoInProgress \<noteq> 0 then raiseM (Undefined ''IO of another worker never ends'')
     else if (if forInput then st AND DataValid \<noteq> 0 else st AND Dirty = 0)
     then thenM (CE_Unlock i) (retM False)
     else thenM (upd_state i (\<lambda>x. x OR IoInProgress)) (thenM (CE_Unlock i) (retM True)))"

definition buffer_of :: "nat \<Rightarrow> ('x buffer_state_scheme, nat) cm" where
  "buffer_of i = bindM (entry i) (\<lambda>e. case ce_Buffer e of
     None \<Rightarrow> raiseM (AssertFail ''Buffer != nullptr'') | Some b \<Rightarrow> retM b)"

definition set_page :: "nat \<Rightarrow> page \<Rightarrow> ('x buffer_state_scheme, unit) cm" where
  "set_page b p = updM (\<lambda>s. s\<lparr>bm_pages := (bm_pages s)(b := p)\<rparr>)"

definition CE_ReadBuffer :: "nat \<Rightarrow> ('x buffer_state_scheme, unit) cm" where
  "CE_ReadBuffer i = bindM (state_of i) (\<lambda>st.
     if st AND DataValid \<noteq> 0 then retM ()
     else bindM (ShouldStartIO i True) (\<lambda>start.
       if \<not> start then retM ()
       else bindM (buffer_of i) (\<lambda>b.
         bindM (entry i) (\<lambda>e.
         thenM (onErrorM
           (bindM (RelFile_Open (Relid (ce_Tag e))) (\<lambda>file.
            bindM (RelFile_Read file (PageNo (ce_Tag e))) (\<lambda>p. set_page b p)))
           (TerminateBufferIO i IoErrorFlag 0))
         (TerminateBufferIO i DataValid 0)))))"

definition CE_FlushBuffer :: "nat \<Rightarrow> ('x buffer_state_scheme, unit) cm" where
  "CE_FlushBuffer i = bindM (ShouldStartIO i False) (\<lambda>start.
     if \<not> start then retM ()
     else bindM (buffer_of i) (\<lambda>b.
       bindM (entry i) (\<lambda>e.
       thenM (onErrorM
         (bindM (RelFile_Open (Relid (ce_Tag e))) (\<lambda>file.
          bindM (getM (\<lambda>s. bm_pages s b)) (\<lambda>p.
          thenM (RelFile_Write file p (PageNo (ce_Tag e))) (RelFile_Fsync file))))
         (TerminateBufferIO i IoErrorFlag 0))
       (TerminateBufferIO i DataValid Dirty))))"

section \<open>CacheEntryList\<close>

definition list_of :: "list_id \<Rightarrow> ('x buffer_state_scheme, CacheEntryList) cm" where
  "list_of l = getM (\<lambda>s. bm_lists s l)"

definition upd_list :: "list_id \<Rightarrow> (CacheEntryList \<Rightarrow> CacheEntryList) \<Rightarrow> ('x buffer_state_scheme, unit) cm" where
  "upd_list l f = updM (\<lambda>s. s\<lparr>bm_lists := (bm_lists s)(l := f (bm_lists s l))\<rparr>)"

definition InsertMRU :: "list_id \<Rightarrow> nat \<Rightarrow> ('x buffer_state_scheme, unit) cm" where
  "InsertMRU l i =
     bindM (entry i) (\<lambda>e.
     thenM (assertM ''entry->IsRouge()'' (IsRouge e))
     (bindM (list_of l) (\<lambda>q.
      thenM (if cl_size q = 0 then upd_list l (\<lambda>q. q\<lparr>cl_head := Some i, cl_tail := Some i\<rparr>)
             else case cl_head q of
               None \<Rightarrow> raiseM (Undefined ''null list head'')
             | Some h \<Rightarrow> thenM (upd_entry h (\<lambda>e. e\<lparr>ce_Prev := Some i\<rparr>))
                 (thenM (upd_entry i (\<lambda>e. e\<lparr>ce_Next := Some h\<rparr>))
                 (upd_list l (\<lambda>q. q\<lparr>cl_head := Some i\<rparr>))))
      (upd_list l (\<lambda>q. q\<lparr>cl_size := cl_size q + 1\<rparr>)))))"

definition RemoveEntry :: "list_id \<Rightarrow> nat \<Rightarrow> ('x buffer_state_scheme, unit) cm" where
  "RemoveEntry l i =
     bindM (list_of l) (\<lambda>q.
     thenM (assertM ''this->_size > 0'' (cl_size q > 0))
     (bindM (entry i) (\<lambda>e.
      thenM (if cl_size q = 1 then
          thenM (assertM ''entry->IsRouge()'' (IsRouge e))
          (thenM (assertM ''_head == _tail && _tail == entry'' (cl_head q = cl_tail q \<and> cl_tail q = Some i))
          (upd_list l (\<lambda>q. q\<lparr>cl_head := None, cl_tail := None\<rparr>)))
        else
          thenM (assertM ''!entry->IsRouge()'' (\<not> IsRouge e))
          (thenM (if ce_Next e = None then assertM ''_tail == entry'' (cl_tail q = Some i)
                  else if ce_Prev e = None then assertM ''_head == entry'' (cl_head q = Some i) else retM ())
          (thenM (case ce_Prev e of None \<Rightarrow> retM () | Some p \<Rightarrow> upd_entry p (\<lambda>x. x\<lparr>ce_Next := ce_Next e\<rparr>))
          (thenM (case ce_Next e of None \<Rightarrow> retM () | Some n \<Rightarrow> upd_entry n (\<lambda>x. x\<lparr>ce_Prev := ce_Prev e\<rparr>))
          (if cl_head q = Some i then upd_list l (\<lambda>q. q\<lparr>cl_head := ce_Next e\<rparr>)
           else if cl_tail q = Some i then upd_list l (\<lambda>q. q\<lparr>cl_tail := ce_Prev e\<rparr>)
           else retM ())))))
      (thenM (upd_entry i (\<lambda>x. x\<lparr>ce_Prev := None, ce_Next := None\<rparr>))
      (upd_list l (\<lambda>q. q\<lparr>cl_size := cl_size q - 1\<rparr>))))))"

definition MoveMRU :: "list_id \<Rightarrow> nat \<Rightarrow> ('x buffer_state_scheme, unit) cm" where
  "MoveMRU l i =
     bindM (list_of l) (\<lambda>q.
     thenM (assertM ''this->_size > 0'' (cl_size q > 0))
     (bindM (entry i) (\<lambda>e.
      if cl_size q = 1 then assertM ''entry->IsRouge()'' (IsRouge e)
      else thenM (assertM ''!entry->IsRouge()'' (\<not> IsRouge e)) (thenM (RemoveEntry l i) (InsertMRU l i)))))"

text \<open>
  The loops from the tail towards the head: the body returns \<open>Some\<close> to leave the loop. There are
  twice as many entries as pages, so a walk that takes more rounds meets an entry again and never
  ends.
\<close>

fun rfor :: "nat \<Rightarrow> (nat \<Rightarrow> ('x buffer_state_scheme, 'a option) cm) \<Rightarrow> nat option \<Rightarrow> ('x buffer_state_scheme, 'a option) cm" where
  "rfor fuel body None = retM None"
| "rfor 0 body (Some i) = raiseM (Undefined ''endless list traversal'')"
| "rfor (Suc n) body (Some i) = bindM (body i) (\<lambda>r. case r of
     Some a \<Rightarrow> retM (Some a)
   | None \<Rightarrow> bindM (entry i) (\<lambda>e. rfor n body (ce_Prev e)))"

definition rounds :: "'x buffer_state_scheme \<Rightarrow> nat" where "rounds s = 2 * unat (bm_npages s)"

definition for_each_reverse :: "list_id \<Rightarrow> (nat \<Rightarrow> ('x buffer_state_scheme, 'a option) cm) \<Rightarrow> ('x buffer_state_scheme, 'a option) cm" where
  "for_each_reverse l body = bindM (list_of l) (\<lambda>q. bindM (getM rounds) (\<lambda>n. rfor n body (cl_tail q)))"

definition PopTail :: "list_id \<Rightarrow> ('x buffer_state_scheme, nat option) cm" where
  "PopTail l = for_each_reverse l (\<lambda>i.
     bindM (CE_Lock i) (\<lambda>st.
     if st AND BufferRefCountMask \<noteq> 0 then thenM (CE_Unlock i) (retM None)
     else thenM (RemoveEntry l i) (thenM (CE_Unlock i)
       (thenM (upd_list l (\<lambda>q. q\<lparr>cl_size := cl_size q - 1\<rparr>)) (retM (Some i))))))"

definition list_size :: "list_id \<Rightarrow> ('x buffer_state_scheme, u32) cm" where
  "list_size l = getM (\<lambda>s. cl_size (bm_lists s l))"

section \<open>Free buffers\<close>

definition free_Add :: "nat \<Rightarrow> ('x buffer_state_scheme, unit) cm" where
  "free_Add b = updM (\<lambda>s. s\<lparr>bm_freeBuffers := b # bm_freeBuffers s\<rparr>)"

definition free_Get :: "('x buffer_state_scheme, nat option) cm" where
  "free_Get = bindM (getM bm_freeBuffers) (\<lambda>bs. case bs of
     [] \<Rightarrow> retM None | b # rest \<Rightarrow> thenM (updM (\<lambda>s. s\<lparr>bm_freeBuffers := rest\<rparr>)) (retM (Some b)))"

section \<open>BufferManager\<close>

definition map_Remove :: "PageTag \<Rightarrow> ('x buffer_state_scheme, bool) cm" where
  "map_Remove tag s = (case ht_Remove tag (bm_map s) of (b, h) \<Rightarrow> (Inr b, s\<lparr>bm_map := h\<rparr>))"

definition map_Insert :: "PageTag \<Rightarrow> nat \<Rightarrow> ('x buffer_state_scheme, nat \<times> bool) cm" where
  "map_Insert tag v s = (case ht_Insert tag v (bm_map s) of (x, b, h) \<Rightarrow> (Inr (x, b), s\<lparr>bm_map := h\<rparr>))"

definition tryVacateEntry :: "nat \<Rightarrow> bool \<Rightarrow> ('x buffer_state_scheme, bool) cm" where
  "tryVacateEntry i isFrequency =
     bindM (CE_Lock i) (\<lambda>st.
     if st AND BufferRefCountMask > 0 then thenM (CE_Unlock i) (retM False)
     else
       thenM (CE_Pin i) (thenM (CE_Unlock i) (thenM (CE_FlushBuffer i) (
       let l = (if isFrequency then B2 else B1) in
       bindM (CE_Lock i) (\<lambda>st1.
       thenM (CE_Unlock i) (
       if st1 AND BufferRefCountMask \<noteq> 1 then retM False
       else bindM (CE_Lock i) (\<lambda>st2.
         if st2 AND BufferRefCountMask \<noteq> 1 then thenM (CE_Unlock i) (retM False)
         else bindM (buffer_of i) (\<lambda>b.
           thenM (upd_entry i (\<lambda>e. e\<lparr>ce_Buffer := None\<rparr>)) (
           thenM (CE_Unpin i) (
           thenM (upd_state i (\<lambda>x. x AND NOT IsTopList)) (
           thenM (if isFrequency then upd_state i (\<lambda>x. x OR IsFrequencyList)
                  else upd_state i (\<lambda>x. x AND NOT IsFrequencyList)) (
           thenM (InsertMRU l i) (
           thenM (CE_Unlock i) (
           thenM (free_Add b) (retM True)))))))))))))))"

definition vacate_one :: "list_id \<Rightarrow> bool \<Rightarrow> ('x buffer_state_scheme, unit) cm" where
  "vacate_one l isFrequency = thenM (for_each_reverse l (\<lambda>i.
     bindM (tryVacateEntry i isFrequency) (\<lambda>ok. retM (if ok then Some () else None)))) (retM ())"

definition adjust :: "u32 \<Rightarrow> bool \<Rightarrow> ('x buffer_state_scheme, unit) cm" where
  "adjust p fromB2 = bindM (list_size T1) (\<lambda>t1size.
     if t1size > 0 \<and> (t1size > p \<or> t1size = p \<and> fromB2) then vacate_one T1 False
     else vacate_one T2 True)"

definition evict_from :: "list_id \<Rightarrow> ('x buffer_state_scheme, nat option) cm" where
  "evict_from l = for_each_reverse l (\<lambda>i.
     bindM (CE_Lock i) (\<lambda>st.
     thenM (CE_Unlock i) (
     if st AND BufferRefCountMask \<noteq> 0 then retM None
     else bindM (state_of i) (\<lambda>st1.
       if st1 AND BufferRefCountMask \<noteq> 0 then retM None
       else bindM (entry i) (\<lambda>e.
         bindM (map_Remove (ce_Tag e)) (\<lambda>removed.
         if \<not> removed then raiseM (RuntimeError ''buffer page map is broken - entry is not presented in list'')
         else thenM (RemoveEntry l i) (thenM (CE_TearDown i) (retM (Some i)))))))))"

definition evictCacheEntry :: "('x buffer_state_scheme, nat option) cm" where
  "evictCacheEntry =
     bindM (PopTail FreeList) (\<lambda>x. case x of
       Some i \<Rightarrow> thenM (CE_TearDown i) (retM (Some i))
     | None \<Rightarrow> bindM (evict_from B1) (\<lambda>y. case y of
         Some i \<Rightarrow> retM (Some i)
       | None \<Rightarrow> evict_from B2))"

definition forgetAnyEntry :: "list_id \<Rightarrow> ('x buffer_state_scheme, unit) cm" where
  "forgetAnyEntry l = thenM (for_each_reverse l (\<lambda>i.
     bindM (state_of i) (\<lambda>st.
     if st AND BufferRefCountMask \<noteq> 0 then retM None
     else bindM (entry i) (\<lambda>e.
       bindM (map_Remove (ce_Tag e)) (\<lambda>removed.
       if \<not> removed then raiseM (RuntimeError ''page table is broken - cache entry must be in map but absent'')
       else thenM (InsertMRU FreeList i) (retM (Some ()))))))) (retM ())"

definition preinsertCleanup :: "('x buffer_state_scheme, unit) cm" where
  "preinsertCleanup =
     bindM (list_size T1) (\<lambda>t1size.
     bindM (list_size B1) (\<lambda>b1size.
     bindM (getM bm_npages) (\<lambda>npages.
     bindM (getM bm_P) (\<lambda>p.
     if t1size + b1size \<ge> npages then
       (if t1size < npages then thenM (forgetAnyEntry B1) (adjust p False)
        else vacate_one T1 False)
     else
       bindM (list_size T2) (\<lambda>t2size.
       bindM (list_size B2) (\<lambda>b2size.
       let sum = t1size + b1size + t2size + b2size in
       if sum \<ge> npages then
         thenM (if sum = npages * 2 then forgetAnyEntry B2 else retM ()) (adjust p False)
       else retM ()))))))"

definition handleCacheHit :: "nat \<Rightarrow> ('x buffer_state_scheme, unit) cm" where
  "handleCacheHit i =
     bindM (state_of i) (\<lambda>st.
     thenM (assertM ''state & CacheEntryFlags::IsTopList'' (st AND IsTopList \<noteq> 0)) (
     if st AND IsFrequencyList \<noteq> 0 then
       bindM (CE_Lock i) (\<lambda>st1.
       thenM (assertM ''entry in T2'' (st1 AND CacheEntryListMask = IsTopList OR IsFrequencyList)) (
       thenM (MoveMRU T2 i) (CE_Unlock i)))
     else
       bindM (CE_Lock i) (\<lambda>st1.
       thenM (if st1 AND CacheEntryListMask \<noteq> IsFrequencyList then
           thenM (RemoveEntry T1 i) (thenM (InsertMRU T2 i) (upd_state i (\<lambda>x. x OR IsFrequencyList)))
         else MoveMRU T2 i)
       (CE_Unlock i))))"

definition divU :: "u32 \<Rightarrow> u32 \<Rightarrow> u32 res" where
  "divU a b = (if b = 0 then Inl (Undefined ''division by zero'') else Inr (a div b))"

definition handleGhostHit :: "nat \<Rightarrow> bool \<Rightarrow> ('x buffer_state_scheme, unit) cm" where
  "handleGhostHit i isFrequency =
     bindM (list_size B1) (\<lambda>b1size.
     bindM (list_size B2) (\<lambda>b2size.
     bindM (getM bm_P) (\<lambda>p.
     bindM (getM bm_npages) (\<lambda>npages.
     bindM (if isFrequency then
         bindM (liftR (if b1size \<ge> b2size then Inr 1 else divU b2size b1size)) (\<lambda>delta. retM (min (p + delta) npages))
       else
         bindM (liftR (if b2size \<ge> b1size then Inr 1 else divU b1size b2size)) (\<lambda>delta. retM (max (p - delta) 0))) (\<lambda>newP.
     thenM (updM (\<lambda>s. s\<lparr>bm_P := newP\<rparr>)) (
     thenM (adjust p isFrequency) (
     let oldList = (if isFrequency then B1 else B2);
         oldListMask = (if isFrequency then IsFrequencyList else 0) in
     bindM (CE_Lock i) (\<lambda>st.
     thenM (if st AND CacheEntryListMask = oldListMask then
         thenM (RemoveEntry oldList i) (thenM (InsertMRU T2 i) (upd_state i (\<lambda>x. x OR (IsTopList OR IsFrequencyList))))
       else retM ())
     (CE_Unlock i)))))))))"

record Buffer =
  bf_blockId :: nat

definition Buffer_IsValid :: "Buffer \<Rightarrow> bool" where "Buffer_IsValid b \<longleftrightarrow> bf_blockId b \<noteq> 0"

record BufferPin =
  bp_tag :: PageTag
  bp_buffer :: Buffer

definition makeBufferPin :: "nat \<Rightarrow> ('x buffer_state_scheme, BufferPin) cm" where
  "makeBufferPin i = bindM (entry i) (\<lambda>e.
     thenM (assertM ''State & DataValid'' (ce_State e AND DataValid \<noteq> 0)) (
     thenM (assertM ''refcount > 0'' (ce_State e AND BufferRefCountMask > 0)) (
     thenM (assertM ''entry->Buffer != nullptr'' (ce_Buffer e \<noteq> None)) (
     retM \<lparr>bp_tag = ce_Tag e, bp_buffer = \<lparr>bf_blockId = ce_BlockId e + 1\<rparr>\<rparr>))))"

text \<open>The miss branch of \<open>GetBuffer\<close>: the entry and whether it was created.\<close>

definition get_new_entry :: "PageTag \<Rightarrow> ('x buffer_state_scheme, nat \<times> bool) cm" where
  "get_new_entry tag =
     thenM preinsertCleanup (
     bindM evictCacheEntry (\<lambda>evicted. case evicted of
       Some i \<Rightarrow>
         thenM (upd_entry i (\<lambda>e. e\<lparr>ce_Tag := tag, ce_State := TagValid\<rparr>)) (
         bindM (entry i) (\<lambda>e.
         thenM (assertM ''entry->Buffer == nullptr'' (ce_Buffer e = None)) (
         bindM (map_Insert tag (ce_BlockId e)) (\<lambda>(existing, inserted).
         if inserted then
           thenM (upd_state i (\<lambda>x. x OR IsTopList)) (thenM (CE_Pin i) (
           bindM free_Get (\<lambda>buffer. case buffer of
             None \<Rightarrow>
               bindM (map_Remove tag) (\<lambda>removed.
               thenM (assertM ''removed'' removed) (
               bindM (state_of i) (\<lambda>st.
               thenM (assertM ''refcount == 1'' (st AND BufferRefCountMask = 1)) (
               thenM (InsertMRU FreeList i) (raiseM (RuntimeError ''can not get buffer: no free pages''))))))
           | Some b \<Rightarrow>
               thenM (upd_entry i (\<lambda>e. e\<lparr>ce_Buffer := Some b\<rparr>)) (
               thenM (CE_Lock i) (thenM (InsertMRU T1 i) (thenM (CE_Unlock i) (retM (i, True))))))))
         else
           thenM (CE_Pin existing) (thenM (InsertMRU FreeList i) (retM (existing, False)))))))
     | None \<Rightarrow> bindM (getM (\<lambda>s. ht_Get (bm_map s) tag)) (\<lambda>blk. case blk of
         None \<Rightarrow> raiseM (RuntimeError ''no free cache entries found'')
       | Some j \<Rightarrow> thenM (CE_Pin j) (retM (j, False)))))"

definition GetBuffer :: "PageTag \<Rightarrow> ('x buffer_state_scheme, BufferPin) cm" where
  "GetBuffer tag =
     bindM (getM (\<lambda>s. ht_Get (bm_map s) tag)) (\<lambda>blkId.
     bindM (case blkId of None \<Rightarrow> get_new_entry tag | Some j \<Rightarrow> thenM (CE_Pin j) (retM (j, False))) (\<lambda>(i, created).
     thenM (if \<not> created then
         thenM (CE_Lock i) (thenM (CE_Unlock i) (
         bindM (state_of i) (\<lambda>st.
         if st AND IsTopList \<noteq> 0 then handleCacheHit i
         else handleGhostHit i (st AND IsFrequencyList \<noteq> 0))))
       else retM ()) (
     bindM (entry i) (\<lambda>e.
     thenM (assertM ''entry->Buffer != nullptr'' (ce_Buffer e \<noteq> None)) (
     if ce_State e AND DataValid \<noteq> 0 then makeBufferPin i
     else thenM (CE_ReadBuffer i) (
       bindM (state_of i) (\<lambda>st.
       thenM (assertM ''State & DataValid'' (st AND DataValid \<noteq> 0)) (makeBufferPin i))))))))"

definition ReturnBuffer :: "Buffer \<Rightarrow> ('x buffer_state_scheme, unit) cm" where
  "ReturnBuffer buffer =
     thenM (assertM ''buffer.IsValid()'' (Buffer_IsValid buffer)) (
     let i = bf_blockId buffer - 1 in
     bindM (state_of i) (\<lambda>st.
     thenM (assertM ''refcount != 0'' (st AND BufferRefCountMask \<noteq> 0)) (CE_Unpin i)))"

text \<open>The branches of \<open>ExtendRelation\<close>: the page is new in the table, it was there, and the IO of both.\<close>

definition extend_new :: "PageTag \<Rightarrow> nat \<Rightarrow> ('x buffer_state_scheme, nat) cm" where
  "extend_new tag i =
     bindM (state_of i) (\<lambda>st.
     thenM (assertM ''entry state is clear'' (st AND (DataValid OR TagValid OR Dirty) = 0)) (
     thenM (upd_entry i (\<lambda>e. e\<lparr>ce_Tag := tag, ce_State := ce_State e OR TagValid\<rparr>)) (
     thenM (CE_Pin i) (
     bindM free_Get (\<lambda>buffer. case buffer of
       None \<Rightarrow>
         bindM (map_Remove tag) (\<lambda>removed.
         thenM (assertM ''removed'' removed) (
         thenM (InsertMRU FreeList i) (raiseM (RuntimeError ''could not get buffer: no free pages''))))
     | Some b \<Rightarrow>
         thenM (upd_entry i (\<lambda>e. e\<lparr>ce_Buffer := Some b\<rparr>)) (
         thenM (InsertMRU T1 i) (
         thenM (upd_state i (\<lambda>x. x OR IsTopList)) (
         thenM (CE_Lock i) (
         thenM (InsertMRU T1 i) (
         thenM (upd_state i (\<lambda>x. x OR IsTopList)) (
         thenM (CE_Unlock i) (
         bindM (ShouldStartIO i True) (\<lambda>shouldStart.
         thenM (assertM ''shouldStart'' shouldStart) (retM i))))))))))))))"

definition extend_existing :: "nat \<Rightarrow> nat \<Rightarrow> ('x buffer_state_scheme, nat) cm" where
  "extend_existing old i =
     thenM (CE_Pin i) (
     thenM (InsertMRU FreeList old) (
     bindM (state_of i) (\<lambda>st.
     thenM (if st AND IsTopList = 0 then handleGhostHit i (st AND IsFrequencyList \<noteq> 0) else retM ()) (
     thenM (CE_Lock i) (
     thenM (upd_state i (\<lambda>x. x AND NOT DataValid)) (
     thenM (CE_Unlock i) (
     bindM (ShouldStartIO i True) (\<lambda>started.
     if started then retM i else raiseM (Undefined ''IO of another worker never ends'')))))))))"

definition extend_io :: "File \<Rightarrow> PageNumber \<Rightarrow> nat \<Rightarrow> ('x buffer_state_scheme, BufferPin) cm" where
  "extend_io relfile nblocks i =
     bindM (buffer_of i) (\<lambda>b.
     thenM (onErrorM (RelFile_Extend relfile nblocks) (TerminateBufferIO i IoErrorFlag 0)) (
     thenM (set_page b (replicate PageSize 0)) (
     thenM (TerminateBufferIO i DataValid 0) (makeBufferPin i))))"

definition ExtendRelation :: "Oid \<Rightarrow> ('x buffer_state_scheme, BufferPin) cm" where
  "ExtendRelation relid =
     thenM (assertM ''relid.IsValid()'' (Oid_IsValid relid)) (
     thenM preinsertCleanup (
     bindM evictCacheEntry (\<lambda>evicted. case evicted of
       None \<Rightarrow> raiseM (RuntimeError ''no free cache entry found'')
     | Some i0 \<Rightarrow>
       bindM (RelFile_Open relid) (\<lambda>relfile.
       bindM (RelFile_GetPagesCount relfile) (\<lambda>nblocks.
       let tag = \<lparr>Relid = relid, PageNo = nblocks\<rparr> in
       bindM (entry i0) (\<lambda>e0.
       bindM (map_Insert tag (ce_BlockId e0)) (\<lambda>(existing, inserted).
       bindM (if inserted then extend_new tag i0 else extend_existing i0 existing) (\<lambda>i.
       extend_io relfile nblocks i))))))))"

text \<open>The constructor: all entries free, inserted in index order, all buffers free.\<close>

definition blank_entry :: "nat \<Rightarrow> CacheEntry" where
  "blank_entry i = \<lparr>ce_Tag = \<lparr>Relid = Oid_Invalid, PageNo = PageNumber_Invalid\<rparr>, ce_BlockId = i, ce_State = 0,
     ce_Buffer = None, ce_Prev = None, ce_Next = None\<rparr>"

definition empty_lists :: "list_id \<Rightarrow> CacheEntryList" where
  "empty_lists = (\<lambda>_. \<lparr>cl_head = None, cl_tail = None, cl_size = 0\<rparr>)"

primrec insert_free :: "nat list \<Rightarrow> ('x buffer_state_scheme, unit) cm" where
  "insert_free [] = retM ()"
| "insert_free (i # is) = thenM (InsertMRU FreeList i) (insert_free is)"

definition BufferManager_init :: "(PageTag \<Rightarrow> nat) \<Rightarrow> u32 \<Rightarrow> ('x buffer_state_scheme, unit) cm" where
  "BufferManager_init hash npages =
     (if 2 ^ 32 - 1 \<le> unat npages * 2 then raiseM (RuntimeError ''too many blocks in buffer'')
      else thenM (updM (\<lambda>s. s\<lparr>bm_map := \<lparr>ht_hash = hash, ht_maps = replicate 8 Map.empty\<rparr>, bm_npages := npages,
          bm_entries := blank_entry, bm_pages := (\<lambda>_. replicate PageSize 0), bm_freeBuffers := [],
          bm_lists := empty_lists, bm_P := 0\<rparr>)) (
        thenM (insert_free [0..<2 * unat npages])
        (updM (\<lambda>s. s\<lparr>bm_freeBuffers := rev [0..<unat npages]\<rparr>))))"

section \<open>Handles\<close>

definition Buffer_GetContents :: "Buffer \<Rightarrow> ('x buffer_state_scheme, page) cm" where
  "Buffer_GetContents b =
     thenM (assertM ''this->IsValid()'' (Buffer_IsValid b)) (
     bindM (buffer_of (bf_blockId b - 1)) (\<lambda>k. getM (\<lambda>s. bm_pages s k)))"

text \<open>Writing through the pointer \<open>GetContents\<close> returned.\<close>

definition Buffer_SetContents :: "Buffer \<Rightarrow> page \<Rightarrow> ('x buffer_state_scheme, unit) cm" where
  "Buffer_SetContents b p =
     thenM (assertM ''this->IsValid()'' (Buffer_IsValid b)) (
     bindM (buffer_of (bf_blockId b - 1)) (\<lambda>k. set_page k p))"

definition Buffer_MarkDirty :: "Buffer \<Rightarrow> ('x buffer_state_scheme, unit) cm" where
  "Buffer_MarkDirty b =
     thenM (assertM ''this->IsValid()'' (Buffer_IsValid b)) (
     upd_state (bf_blockId b - 1) (\<lambda>x. x OR Dirty))"

definition BufferPin_IsValid :: "BufferPin \<Rightarrow> bool" where
  "BufferPin_IsValid p \<longleftrightarrow> Buffer_IsValid (bp_buffer p)"

definition BufferPin_destroy :: "BufferPin \<Rightarrow> ('x buffer_state_scheme, unit) cm" where
  "BufferPin_destroy p = (if BufferPin_IsValid p then ReturnBuffer (bp_buffer p) else retM ())"

section \<open>State words\<close>

lemma and_flag: "(x::u32) AND push_bit k 1 = 0 \<longleftrightarrow> \<not> bit x k" if "k < 32"
  using that by (auto simp: word_bits_eq bit_simps)

lemma flag_tests [simp]:
  "x AND Locked = 0 \<longleftrightarrow> \<not> bit x 31" "x AND TagValid = 0 \<longleftrightarrow> \<not> bit x 30" "x AND IsTopList = 0 \<longleftrightarrow> \<not> bit x 29"
  "x AND IsFrequencyList = 0 \<longleftrightarrow> \<not> bit x 28" "x AND IoInProgress = 0 \<longleftrightarrow> \<not> bit x 27"
  "x AND IoErrorFlag = 0 \<longleftrightarrow> \<not> bit x 26" "x AND DataValid = 0 \<longleftrightarrow> \<not> bit x 25" "x AND Dirty = 0 \<longleftrightarrow> \<not> bit x 26"
  unfolding Locked_def TagValid_def IsTopList_def IsFrequencyList_def IoInProgress_def IoErrorFlag_def DataValid_def Dirty_def
  by (simp_all only: and_flag less_numeral_simps arith_simps rel_simps simp_thms)

lemma ce_bit_flag: "bit (push_bit k 1 :: u32) n \<longleftrightarrow> n = k \<and> k < 32"
  by (auto simp: bit_simps)

lemma ce_flag_bits [simp]:
  "bit Locked n \<longleftrightarrow> n = 31" "bit TagValid n \<longleftrightarrow> n = 30" "bit IsTopList n \<longleftrightarrow> n = 29"
  "bit IsFrequencyList n \<longleftrightarrow> n = 28" "bit IoInProgress n \<longleftrightarrow> n = 27"
  "bit IoErrorFlag n \<longleftrightarrow> n = 26" "bit DataValid n \<longleftrightarrow> n = 25" "bit Dirty n \<longleftrightarrow> n = 26"
  unfolding Locked_def TagValid_def IsTopList_def IsFrequencyList_def IoInProgress_def IoErrorFlag_def DataValid_def Dirty_def
  by (simp_all only: ce_bit_flag less_numeral_simps arith_simps rel_simps simp_thms)

lemma refcount_mask [simp]: "x AND BufferRefCountMask = take_bit 20 x"
  by (simp add: BufferRefCountMask_def take_bit_eq_mask mask_eq_exp_minus_1 push_bit_eq_mult)

lemma flag_low [simp]:
  "take_bit 20 Locked = 0" "take_bit 20 TagValid = 0" "take_bit 20 IsTopList = 0" "take_bit 20 IsFrequencyList = 0"
  "take_bit 20 IoInProgress = 0" "take_bit 20 IoErrorFlag = 0" "take_bit 20 DataValid = 0" "take_bit 20 Dirty = 0"
  by (auto simp: word_bits_eq bit_simps)

lemma unlock_bits: "bit x 31 \<Longrightarrow> x - Locked = x AND NOT Locked"
proof -
  assume "bit x 31"
  then have "(x AND NOT Locked) AND Locked = 0" "(x AND NOT Locked) OR Locked = x"
    by (auto simp: word_bits_eq bit_simps)
  then have "(x AND NOT Locked) + Locked = x" using disjunctive_add_eq_or [of "x AND NOT Locked" Locked] by simp
  then show ?thesis by (simp add: diff_eq_eq)
qed

lemma lock_unlock [simp]:
  "\<not> bit x 31 \<Longrightarrow> (x OR Locked) AND NOT Locked = x"
  "\<not> bit x 31 \<Longrightarrow> \<not> bit y 31 \<Longrightarrow> ((x OR Locked) OR y) AND NOT Locked = x OR y"
  by (auto simp: word_bits_eq bit_simps)

lemma mask_of_refcount: "BufferRefCountMask = mask 20"
  by (simp add: BufferRefCountMask_def mask_eq_exp_minus_1 push_bit_eq_mult)

lemma refcount_room: "take_bit 20 x \<noteq> BufferRefCountMask \<longleftrightarrow> take_bit 20 x < (mask 20 :: u32)"
  unfolding mask_of_refcount by (metis less_le take_bit_eq_mask word_and_le1)

lemmas pin_state [simp] = low_add_one [of 20 "x :: u32" for x, folded refcount_room]

lemma pinned_nonzero:
  assumes "take_bit 20 x \<noteq> BufferRefCountMask"
  shows "take_bit 20 (x + 1) \<noteq> 0"
proof
  assume "take_bit 20 (x + 1) = 0"
  then have "take_bit 20 x + 1 = 0" using pin_state(1) [OF assms] by (simp only:)
  then have "take_bit 20 x = - 1" by (simp only: eq_neg_iff_add_eq_0)
  moreover have "take_bit 20 x < (mask 20 :: u32)" using assms by (simp only: refcount_room)
  ultimately show False by (simp only: word_order.extremum_strict)
qed

section \<open>Effects of the entry operations\<close>

abbreviation set_entry :: "nat \<Rightarrow> (CacheEntry \<Rightarrow> CacheEntry) \<Rightarrow> 'x buffer_state_scheme \<Rightarrow> 'x buffer_state_scheme" where
  "set_entry i f s \<equiv> s\<lparr>bm_entries := (bm_entries s)(i := f (bm_entries s i))\<rparr>"

abbreviation set_State :: "nat \<Rightarrow> u32 \<Rightarrow> 'x buffer_state_scheme \<Rightarrow> 'x buffer_state_scheme" where
  "set_State i st s \<equiv> set_entry i (ce_State_update (\<lambda>_. st)) s"

abbreviation stat :: "'x buffer_state_scheme \<Rightarrow> nat \<Rightarrow> u32" where
  "stat s i \<equiv> ce_State (bm_entries s i)"

lemma run_simple [run_simps]:
  "entry i s = (Inr (bm_entries s i), s)"
  "state_of i s = (Inr (stat s i), s)"
  "list_of l s = (Inr (bm_lists s l), s)"
  "list_size l s = (Inr (cl_size (bm_lists s l)), s)"
  "upd_entry i f s = (Inr (), set_entry i f s)"
  "upd_state i g s = (Inr (), set_State i (g (stat s i)) s)"
  "upd_list l q s = (Inr (), s\<lparr>bm_lists := (bm_lists s)(l := q (bm_lists s l))\<rparr>)"
  "set_page b p s = (Inr (), s\<lparr>bm_pages := (bm_pages s)(b := p)\<rparr>)"
  by (simp_all add: entry_def state_of_def list_of_def list_size_def upd_entry_def upd_state_def upd_list_def set_page_def cm_simps)

lemma pin_run [run_simps]:
  "take_bit 20 (stat s i) \<noteq> BufferRefCountMask \<Longrightarrow> CE_Pin i s = (Inr (), set_State i (stat s i + 1) s)"
  by (simp add: CE_Pin_def BufferRefCountOne_def cm_simps run_simps)

lemma unpin_run [run_simps]:
  "take_bit 20 (stat s i) \<noteq> 0 \<Longrightarrow> CE_Unpin i s = (Inr (), set_State i (stat s i - 1) s)"
  by (simp add: CE_Unpin_def BufferRefCountOne_def cm_simps run_simps word_gt_0)

lemma lock_run [run_simps]:
  "\<not> bit (stat s i) 31 \<Longrightarrow> CE_Lock i s = (Inr (stat s i OR Locked), set_State i (stat s i OR Locked) s)"
  by (simp add: CE_Lock_def cm_simps run_simps)

lemma unlock_run [run_simps]:
  "bit (stat s i) 31 \<Longrightarrow> CE_Unlock i s = (Inr (), set_State i (stat s i AND NOT Locked) s)"
  by (simp add: CE_Unlock_def cm_simps run_simps unlock_bits)

lemma set_State_same: "st = stat s i \<Longrightarrow> set_State i st s = s"
  by simp

lemma startIO_run:
  assumes "\<not> bit (stat s i) 31" "\<not> bit (stat s i) 27"
  shows "ShouldStartIO i forInput s =
    (if (if forInput then bit (stat s i) 25 else \<not> bit (stat s i) 26) then (Inr False, s)
     else (Inr True, set_State i (stat s i OR IoInProgress) s))"
  using assms
  by (auto simp: ShouldStartIO_def cm_simps run_simps bit_simps)


section \<open>The lists as sequences\<close>

definition ce_core :: "CacheEntry \<Rightarrow> PageTag \<times> nat \<times> u32 \<times> nat option" where
  "ce_core e = (ce_Tag e, ce_BlockId e, ce_State e, ce_Buffer e)"

text \<open>The pointers of a list represent the sequence (most recent first); \<open>clist\<close> also has the right size.\<close>

definition chain :: "'x buffer_state_scheme \<Rightarrow> list_id \<Rightarrow> nat list \<Rightarrow> bool" where
  "chain s l xs \<longleftrightarrow> dll (\<lambda>i. ce_Next (bm_entries s i)) (\<lambda>i. ce_Prev (bm_entries s i)) (cl_head (bm_lists s l)) (cl_tail (bm_lists s l)) xs"

definition clist :: "'x buffer_state_scheme \<Rightarrow> list_id \<Rightarrow> nat list \<Rightarrow> bool" where
  "clist s l xs \<longleftrightarrow> chain s l xs \<and> length xs < 2 ^ 32 \<and> cl_size (bm_lists s l) = word_of_nat (length xs)"

definition unlinked :: "'x buffer_state_scheme \<Rightarrow> nat \<Rightarrow> bool" where
  "unlinked s i \<longleftrightarrow> IsRouge (bm_entries s i)"

definition same_rest :: "'x buffer_state_scheme \<Rightarrow> 'x buffer_state_scheme \<Rightarrow> bool" where
  "same_rest s s' \<longleftrightarrow> (\<exists>E L. s' = s\<lparr>bm_entries := E, bm_lists := L\<rparr>)"

lemma same_rest_refl [simp]: "same_rest s s"
  unfolding same_rest_def by (rule exI [of _ "bm_entries s"], rule exI [of _ "bm_lists s"]) simp

lemma same_rest_upd [simp]:
  "same_rest s (s\<lparr>bm_entries := E, bm_lists := L\<rparr>)" "same_rest s (s\<lparr>bm_lists := L\<rparr>)" "same_rest s (s\<lparr>bm_entries := E\<rparr>)"
  unfolding same_rest_def by (blast, rule exI [of _ "bm_entries s"], rule exI [of _ L], simp, rule exI [of _ E], rule exI [of _ "bm_lists s"], simp)

lemma same_rest_trans: "same_rest s s1 \<Longrightarrow> same_rest s1 s2 \<Longrightarrow> same_rest s s2"
  unfolding same_rest_def by (elim exE, rule exI, rule exI) simp

lemma same_rest_fields: "same_rest s s' \<Longrightarrow> bm_map s' = bm_map s \<and> bm_pages s' = bm_pages s \<and> bm_npages s' = bm_npages s
    \<and> bm_P s' = bm_P s \<and> bm_freeBuffers s' = bm_freeBuffers s \<and> os_files s' = os_files s \<and> os_script s' = os_script s"
  unfolding same_rest_def by auto

text \<open>What list operations may change: links of the entries in \<open>A\<close> and the lists in \<open>L\<close>.\<close>

definition list_step :: "list_id set \<Rightarrow> nat set \<Rightarrow> 'x buffer_state_scheme \<Rightarrow> 'x buffer_state_scheme \<Rightarrow> bool" where
  "list_step L A s s' \<longleftrightarrow> same_rest s s' \<and>
     (\<forall>j. ce_core (bm_entries s' j) = ce_core (bm_entries s j)) \<and>
     (\<forall>j. j \<notin> A \<longrightarrow> bm_entries s' j = bm_entries s j) \<and> (\<forall>k. k \<notin> L \<longrightarrow> bm_lists s' k = bm_lists s k)"

lemma chain_frame:
  assumes "list_step L A s s'" "chain s k xs" "k \<notin> L" "set xs \<inter> A = {}"
  shows "chain s' k xs"
proof -
  have "\<And>x. x \<in> set xs \<Longrightarrow> bm_entries s' x = bm_entries s x" using assms unfolding list_step_def by blast
  moreover have "bm_lists s' k = bm_lists s k" using assms unfolding list_step_def by blast
  ultimately show ?thesis using assms(2) unfolding chain_def by (auto elim!: dll_cong)
qed

lemma clist_frame:
  "list_step L A s s' \<Longrightarrow> clist s k xs \<Longrightarrow> k \<notin> L \<Longrightarrow> set xs \<inter> A = {} \<Longrightarrow> clist s' k xs"
  by (auto simp: clist_def intro: chain_frame) (auto simp: list_step_def)

lemma list_step_core: "list_step L A s s' \<Longrightarrow> stat s' i = stat s i \<and> ce_Tag (bm_entries s' i) = ce_Tag (bm_entries s i)
    \<and> ce_Buffer (bm_entries s' i) = ce_Buffer (bm_entries s i) \<and> ce_BlockId (bm_entries s' i) = ce_BlockId (bm_entries s i)"
  by (auto simp: list_step_def ce_core_def)

lemma list_step_rest: "list_step L A s s' \<Longrightarrow> same_rest s s'"
  by (simp add: list_step_def)

lemma clist_empty_size: "clist s l xs \<Longrightarrow> cl_size (bm_lists s l) = 0 \<longleftrightarrow> xs = []"
  by (auto simp: clist_def word_of_nat_eq_0_iff nat_dvd_not_less)

lemma InsertMRU_ok:
  assumes c: "clist s l xs" and i: "i \<notin> set xs" "unlinked s i" and room: "length xs < 2 ^ 32 - 1"
  shows "\<exists>s'. InsertMRU l i s = (Inr (), s') \<and> clist s' l (i # xs) \<and> list_step {l} (insert i (set xs)) s s'"
proof (cases xs)
  case Nil
  have "cl_size (bm_lists s l) = 0" using clist_empty_size [OF c] Nil by simp
  then show ?thesis using c i Nil
    by (auto simp: InsertMRU_def unlinked_def cm_simps run_simps clist_def chain_def list_step_def IsRouge_def dll_def Cons_eq_append_conv)
next
  case (Cons h ys)
  have nz: "cl_size (bm_lists s l) \<noteq> 0" using clist_empty_size [OF c] Cons by simp
  have d: "dll (\<lambda>i. ce_Next (bm_entries s i)) (\<lambda>i. ce_Prev (bm_entries s i)) (Some h) (cl_tail (bm_lists s l)) xs"
    and hd: "cl_head (bm_lists s l) = Some h" using c Cons dll_ends by (fastforce simp: clist_def chain_def)+
  obtain t where tl: "cl_tail (bm_lists s l) = Some t" using dll_ends [OF d] Cons by (cases "hd_opt (rev xs)") auto
  let ?E = "(bm_entries s)(h := (bm_entries s h)\<lparr>ce_Prev := Some i\<rparr>, i := (bm_entries s i)\<lparr>ce_Next := Some h\<rparr>)"
  let ?q = "(bm_lists s l)\<lparr>cl_head := Some i, cl_size := cl_size (bm_lists s l) + 1\<rparr>"
  let ?s = "s\<lparr>bm_entries := ?E, bm_lists := (bm_lists s)(l := ?q)\<rparr>"
  have hi: "h \<noteq> i" using i Cons by auto
  have "InsertMRU l i s = (Inr (), ?s)"
    using i nz hd hi by (simp add: InsertMRU_def unlinked_def cm_simps run_simps)
  moreover have "chain ?s l (i # xs)"
  proof -
    have "dll (\<lambda>j. ce_Next (?E j)) (\<lambda>j. ce_Prev (?E j)) (Some i)
        (if cl_tail (bm_lists s l) = None then Some i else cl_tail (bm_lists s l)) (i # xs)"
      by (rule dll_push_front [OF d i(1)]) (use i hi in \<open>auto simp: unlinked_def IsRouge_def\<close>)
    with tl show ?thesis by (simp add: chain_def)
  qed
  moreover have "clist ?s l (i # xs) \<longleftrightarrow> chain ?s l (i # xs)"
    using c room by (simp add: clist_def add.commute)
  moreover have "list_step {l} (insert i (set xs)) s ?s"
    using Cons by (auto simp: list_step_def ce_core_def)
  ultimately show ?thesis by blast
qed


lemma RemoveEntry_ok:
  assumes c: "chain s l (as @ i # bs)" and sz: "cl_size (bm_lists s l) > 0" "cl_size (bm_lists s l) = 1 \<longleftrightarrow> as @ bs = []"
  shows "\<exists>s'. RemoveEntry l i s = (Inr (), s') \<and> chain s' l (as @ bs) \<and> unlinked s' i \<and>
    cl_size (bm_lists s' l) = cl_size (bm_lists s l) - 1 \<and> list_step {l} (set (as @ i # bs)) s s'"
proof -
  let ?e = "bm_entries s i" and ?q = "bm_lists s l"
  have d: "dll (\<lambda>i. ce_Next (bm_entries s i)) (\<lambda>i. ce_Prev (bm_entries s i)) (cl_head ?q) (cl_tail ?q) (as @ i # bs)"
    using c by (simp add: chain_def)
  have at: "ce_Next ?e = hd_opt bs" "ce_Prev ?e = hd_opt (rev as)" using dll_at [OF d] by auto
  have ends: "cl_head ?q = hd_opt (as @ i # bs)" "cl_tail ?q = hd_opt (rev (as @ i # bs))" using dll_ends [OF d] by auto
  have dis: "distinct (as @ i # bs)" using dll_distinct [OF d] .
  show ?thesis
  proof (cases "as @ bs = []")
    case True
    then have "RemoveEntry l i s = (Inr (), s\<lparr>bm_entries := (bm_entries s)(i := ?e\<lparr>ce_Prev := None, ce_Next := None\<rparr>),
        bm_lists := (bm_lists s)(l := ?q\<lparr>cl_head := None, cl_tail := None, cl_size := cl_size ?q - 1\<rparr>)\<rparr>)"
      using sz at ends by (simp add: RemoveEntry_def IsRouge_def cm_simps run_simps)
    with True show ?thesis
      by (auto simp: chain_def list_step_def ce_core_def unlinked_def IsRouge_def)
  next
    case False
    have side: "ce_Next ?e = Some y \<Longrightarrow> y \<in> set bs" "ce_Prev ?e = Some y \<Longrightarrow> y \<in> set as" for y
      using at hd_opt_in [of bs y] hd_opt_in [of "rev as" y] by auto
    have rouge: "\<not> IsRouge ?e" using at False by (auto simp: IsRouge_def)
    define E1 where "E1 = (case ce_Prev ?e of None \<Rightarrow> bm_entries s | Some p \<Rightarrow> (bm_entries s)(p := (bm_entries s p)\<lparr>ce_Next := ce_Next ?e\<rparr>))"
    define E2 where "E2 = (case ce_Next ?e of None \<Rightarrow> E1 | Some n \<Rightarrow> E1(n := (E1 n)\<lparr>ce_Prev := ce_Prev ?e\<rparr>))"
    define E3 where "E3 = E2(i := (E2 i)\<lparr>ce_Prev := None, ce_Next := None\<rparr>)"
    define q where "q = (if cl_head ?q = Some i then ?q\<lparr>cl_head := ce_Next ?e\<rparr>
      else if cl_tail ?q = Some i then ?q\<lparr>cl_tail := ce_Prev ?e\<rparr> else ?q)"
    let ?s = "s\<lparr>bm_entries := E3, bm_lists := (bm_lists s)(l := q\<lparr>cl_size := cl_size ?q - 1\<rparr>)\<rparr>"
    have nm: "(ce_Next ?e = None \<longrightarrow> cl_tail ?q = Some i) \<and> (ce_Next ?e \<noteq> None \<longrightarrow> ce_Prev ?e = None \<longrightarrow> cl_head ?q = Some i)"
      using at ends by (auto simp: hd_opt_append)
    have "RemoveEntry l i s = (Inr (), ?s)"
      using sz False rouge nm
      by (cases "ce_Prev ?e"; cases "ce_Next ?e"; cases "cl_head ?q = Some i"; cases "cl_tail ?q = Some i")
        (simp_all add: RemoveEntry_def cm_simps run_simps E3_def E2_def E1_def q_def fun_upd_same del: fun_upd_apply)
    moreover have "dll (\<lambda>j. ce_Next (E3 j)) (\<lambda>j. ce_Prev (E3 j)) (if cl_head ?q = Some i then ce_Next ?e else cl_head ?q)
        (if cl_tail ?q = Some i then ce_Prev ?e else cl_tail ?q) (as @ bs)"
      by (rule dll_remove [OF d]) (use side dis in \<open>auto simp: E3_def E2_def E1_def split: option.splits\<close>)
    moreover have "\<not> (cl_head ?q = Some i \<and> cl_tail ?q = Some i)"
      using ends False dis by (cases as; cases bs rule: rev_cases) auto
    moreover have "cl_head q = (if cl_head ?q = Some i then ce_Next ?e else cl_head ?q) \<and> cl_tail q = (if cl_tail ?q = Some i then ce_Prev ?e else cl_tail ?q)"
      using calculation(3) by (auto simp: q_def)
    moreover have "ce_core (E3 j) = ce_core (bm_entries s j)" for j
      by (auto simp: E3_def E2_def E1_def ce_core_def split: option.splits)
    moreover have "E3 j = bm_entries s j" if "j \<notin> set (as @ i # bs)" for j
      using that side by (auto simp: E3_def E2_def E1_def split: option.splits)
    ultimately show ?thesis
      unfolding chain_def list_step_def unlinked_def IsRouge_def
      by (intro exI [of _ ?s]) (simp add: E3_def)
  qed
qed


lemma list_step_refl [simp]: "list_step L A s s"
  by (simp add: list_step_def)

lemma list_step_trans:
  "list_step K A s s1 \<Longrightarrow> list_step L B s1 s2 \<Longrightarrow> A \<subseteq> C \<Longrightarrow> B \<subseteq> C \<Longrightarrow> K \<subseteq> M \<Longrightarrow> L \<subseteq> M \<Longrightarrow> list_step M C s s2"
  unfolding list_step_def using same_rest_trans by (metis subsetD)

text \<open>Lists do not depend on the other parts of an entry, so they may be read with the entry locked.\<close>

lemma chain_set_State [simp]: "chain (set_State i st s) l xs = chain s l xs"
proof -
  have "(\<lambda>j. ce_Next (((bm_entries s)(i := (bm_entries s i)\<lparr>ce_State := st\<rparr>)) j)) = (\<lambda>j. ce_Next (bm_entries s j))"
    "(\<lambda>j. ce_Prev (((bm_entries s)(i := (bm_entries s i)\<lparr>ce_State := st\<rparr>)) j)) = (\<lambda>j. ce_Prev (bm_entries s j))" by auto
  then show ?thesis by (simp add: chain_def del: fun_upd_apply)
qed

lemma clist_set_State [simp]: "clist (set_State i st s) l xs = clist s l xs"
  by (simp only: clist_def chain_set_State) simp

lemma unlinked_set_State [simp]: "unlinked (set_State i st s) j = unlinked s j"
  by (simp add: unlinked_def IsRouge_def)

lemma list_step_locked:
  assumes "list_step L A (set_State i x s) s2" "i \<in> A"
  shows "list_step L A s (set_State i (stat s i) s2)"
proof -
  have "same_rest s (set_State i (stat s i) s2)"
    using same_rest_trans [OF same_rest_trans [OF same_rest_upd(3) list_step_rest [OF assms(1)]] same_rest_upd(3)] .
  then show ?thesis using assms unfolding list_step_def by (auto simp: ce_core_def)
qed


lemma clist_size: "clist s l xs \<Longrightarrow> unat (cl_size (bm_lists s l)) = length xs"
  by (simp add: clist_def unat_of_nat)

lemma chain_distinct: "chain s l xs \<Longrightarrow> distinct xs"
  unfolding chain_def by (rule dll_distinct)

lemma clist_distinct: "clist s l xs \<Longrightarrow> distinct xs"
  by (auto simp: clist_def dest: chain_distinct)

lemma RemoveEntry_clist:
  assumes c: "clist s l xs" and i: "i \<in> set xs"
  shows "\<exists>s'. RemoveEntry l i s = (Inr (), s') \<and> clist s' l (remove1 i xs) \<and> unlinked s' i \<and> list_step {l} (set xs) s s'"
proof -
  obtain as bs where xs: "xs = as @ i # bs" "i \<notin> set as" using split_list_first [OF i] by blast
  have sz: "unat (cl_size (bm_lists s l)) = Suc (length (as @ bs))" using clist_size [OF c] xs by simp
  have sz0: "cl_size (bm_lists s l) > 0" using sz by (metis nat.discI unat_0 word_gt_0)
  have sz1: "cl_size (bm_lists s l) = 1 \<longleftrightarrow> as @ bs = []"
    using sz by (metis One_nat_def length_0_conv nat.inject unat_1 word_unat_eq_iff)
  obtain s' where s': "RemoveEntry l i s = (Inr (), s')" "chain s' l (as @ bs)" "unlinked s' i"
    "cl_size (bm_lists s' l) = cl_size (bm_lists s l) - 1" "list_step {l} (set (as @ i # bs)) s s'"
    using RemoveEntry_ok [OF _ sz0 sz1] c xs by (auto simp: clist_def)
  moreover have "clist s' l (as @ bs)"
    using s'(2,4) c xs by (simp add: clist_def)
  ultimately show ?thesis using xs by (auto simp: remove1_append)
qed

lemma MoveMRU_ok:
  assumes c: "clist s l xs" and i: "i \<in> set xs"
  shows "\<exists>s'. MoveMRU l i s = (Inr (), s') \<and> clist s' l (i # remove1 i xs) \<and> list_step {l} (set xs) s s'"
proof (cases "xs = [i]")
  case True
  then have "IsRouge (bm_entries s i)" "cl_size (bm_lists s l) = 1"
    using c dll_at [of _ _ _ _ "[]" i "[]"] by (auto simp: clist_def chain_def IsRouge_def)
  then show ?thesis using True c by (simp add: MoveMRU_def cm_simps run_simps)
next
  case False
  obtain as bs where xs: "xs = as @ i # bs" "i \<notin> set as" using split_list_first [OF i] by blast
  then have ne: "as @ bs \<noteq> []" using False by auto
  have "\<not> IsRouge (bm_entries s i)"
    using c xs ne dll_at [of _ _ _ _ as i bs] by (fastforce simp: clist_def chain_def IsRouge_def)
  moreover have "unat (cl_size (bm_lists s l)) = Suc (length (as @ bs))" using clist_size [OF c] xs by simp
  then have "cl_size (bm_lists s l) \<noteq> 1" "cl_size (bm_lists s l) > 0"
    using ne by (metis One_nat_def length_0_conv nat.inject unat_1, metis nat.discI unat_0 word_gt_0)
  moreover obtain s1 where s1: "RemoveEntry l i s = (Inr (), s1)" "clist s1 l (remove1 i xs)" "unlinked s1 i" "list_step {l} (set xs) s s1"
    using RemoveEntry_clist [OF c i] by blast
  moreover have "length xs < 2 ^ 32" "length (remove1 i xs) = length xs - 1" "length xs > 0" using c i by (auto simp: clist_def length_remove1)
  then have "length (remove1 i xs) < 2 ^ 32 - 1" by linarith
  then obtain s2 where "InsertMRU l i s1 = (Inr (), s2)" "clist s2 l (i # remove1 i xs)" "list_step {l} (insert i (set (remove1 i xs))) s1 s2"
    using InsertMRU_ok [OF s1(2) _ s1(3)] clist_distinct [OF c] by auto
  moreover have "insert i (set (remove1 i xs)) \<subseteq> set xs" using i set_remove1_subset by fastforce
  ultimately show ?thesis
    using list_step_trans [OF s1(4), of "{l}" _ _ "set xs" "{l}"] by (auto simp: MoveMRU_def cm_simps run_simps)
qed

text \<open>The tail is popped when nobody has it pinned; the size counts it twice.\<close>

lemma PopTail_ok:
  assumes c: "chain s l (xs @ [i])" and sz: "cl_size (bm_lists s l) > 0" "cl_size (bm_lists s l) = 1 \<longleftrightarrow> xs = []"
    and st: "\<not> bit (stat s i) 31" "take_bit 20 (stat s i) = 0" and n: "bm_npages s \<noteq> 0"
  shows "\<exists>s'. PopTail l s = (Inr (Some i), s') \<and> chain s' l xs \<and> unlinked s' i \<and>
    cl_size (bm_lists s' l) = cl_size (bm_lists s l) - 2 \<and> list_step {l} (set (xs @ [i])) s s'"
proof -
  let ?s1 = "set_State i (stat s i OR Locked) s"
  obtain r where r: "rounds s = Suc r" using n by (cases "rounds s") (auto simp: rounds_def unat_eq_zero)
  have tl: "cl_tail (bm_lists s l) = Some i" using c dll_ends by (fastforce simp: chain_def)
  obtain s2 where s2: "RemoveEntry l i ?s1 = (Inr (), s2)" "chain s2 l xs" "unlinked s2 i"
    "cl_size (bm_lists s2 l) = cl_size (bm_lists s l) - 1" "list_step {l} (set (xs @ [i])) ?s1 s2"
    using RemoveEntry_ok [of ?s1 l xs i "[]"] c sz by auto
  have st2: "stat s2 i = stat s i OR Locked" using list_step_core [OF s2(5), of i] by simp
  let ?s3 = "set_State i (stat s i) s2"
  let ?s4 = "?s3\<lparr>bm_lists := (bm_lists ?s3)(l := (bm_lists ?s3 l)\<lparr>cl_size := cl_size (bm_lists ?s3 l) - 1\<rparr>)\<rparr>"
  have "PopTail l s = (Inr (Some i), ?s4)"
    using r tl st s2(1) st2 by (simp add: PopTail_def for_each_reverse_def cm_simps run_simps bit_simps)
  moreover have "list_step {l} (set (xs @ [i])) s ?s3" using list_step_locked [OF s2(5)] by simp
  then have "list_step {l} (set (xs @ [i])) s ?s4"
    by (rule list_step_trans [where B = "{}" and L = "{l}"]) (auto simp: list_step_def)
  moreover have "chain ?s3 l xs" using s2(2) by (simp only: chain_set_State)
  then have "chain ?s4 l xs" by (simp add: chain_def)
  moreover have "unlinked ?s4 i" using s2(3) by (simp add: unlinked_def IsRouge_def)
  moreover have "cl_size (bm_lists ?s4 l) = cl_size (bm_lists s l) - 2" using s2(4) by simp
  ultimately show ?thesis by blast
qed

section \<open>The page table as a map\<close>

text \<open>What the buffer manager relies on of the page table.\<close>

locale keyed_table =
  fixes wf :: "'t \<Rightarrow> bool"
    and lookup :: "'t \<Rightarrow> 'k \<Rightarrow> 'v option"
    and ins :: "'k \<Rightarrow> 'v \<Rightarrow> 't \<Rightarrow> 'v \<times> bool \<times> 't"
    and rem :: "'k \<Rightarrow> 't \<Rightarrow> bool \<times> 't"
  assumes ins_new: "wf t \<Longrightarrow> lookup t k = None \<Longrightarrow> \<exists>t'. ins k v t = (v, True, t') \<and> wf t' \<and> lookup t' = (lookup t)(k \<mapsto> v)"
    and ins_old: "wf t \<Longrightarrow> lookup t k = Some w \<Longrightarrow> ins k v t = (w, False, t)"
    and rem_any: "wf t \<Longrightarrow> \<exists>t'. rem k t = (lookup t k \<noteq> None, t') \<and> wf t' \<and> lookup t' = (lookup t)(k := None)"
begin

lemma ins_total: "wf t \<Longrightarrow> \<exists>w b t'. ins k v t = (w, b, t') \<and> wf t' \<and> lookup t' k = Some w \<and> (\<forall>j. j \<noteq> k \<longrightarrow> lookup t' j = lookup t j)"
  by (cases "lookup t k") (use ins_new [of t k v] ins_old [of t k _ v] in auto)

lemma ins_rem:
  assumes "wf t" "lookup t k = None"
  shows "\<exists>t1 t2. ins k v t = (v, True, t1) \<and> rem k t1 = (True, t2) \<and> wf t2 \<and> lookup t2 = lookup t"
proof -
  obtain t1 where t1: "ins k v t = (v, True, t1)" "wf t1" "lookup t1 = (lookup t)(k \<mapsto> v)" using ins_new [OF assms] by blast
  obtain t2 where "rem k t1 = (lookup t1 k \<noteq> None, t2)" "wf t2" "lookup t2 = (lookup t1)(k := None)" using rem_any [OF t1(2)] by blast
  with t1 assms show ?thesis by (auto simp: fun_upd_idem)
qed

lemma rem_twice: "wf t \<Longrightarrow> \<exists>b t1. rem k t = (b, t1) \<and> fst (rem k t1) = False"
proof -
  assume "wf t"
  then obtain t1 where t1: "rem k t = (lookup t k \<noteq> None, t1)" "wf t1" "lookup t1 = (lookup t)(k := None)" using rem_any by blast
  then show ?thesis using rem_any [OF t1(2), of k] by auto
qed

end

definition ht_wf :: "('k, 'v) HashTable \<Rightarrow> bool" where
  "ht_wf h \<longleftrightarrow> ht_maps h \<noteq> []"

lemma ht_index: "ht_wf h \<Longrightarrow> getElementIndex h k < length (ht_maps h)"
  by (simp add: ht_wf_def getElementIndex_def)

lemma ht_Get_update:
  assumes "ht_wf h"
  shows "ht_Get (h\<lparr>ht_maps := (ht_maps h)[getElementIndex h k := (ht_maps h ! getElementIndex h k)(k := v)]\<rparr>) = (ht_Get h)(k := v)"
  using ht_index [OF assms] by (auto simp: fun_eq_iff ht_Get_def getElementIndex_def nth_list_update)

interpretation page_table: keyed_table ht_wf ht_Get ht_Insert ht_Remove
proof
  fix h :: "('a, 'b) HashTable" and k v w assume wf: "ht_wf h"
  show "\<exists>h'. ht_Remove k h = (ht_Get h k \<noteq> None, h') \<and> ht_wf h' \<and> ht_Get h' = (ht_Get h)(k := None)"
    using wf ht_Get_update [OF wf, of k None] by (auto simp: ht_Remove_def Let_def ht_Get_def ht_wf_def)
  show "ht_Get h k = Some w \<Longrightarrow> ht_Insert k v h = (w, False, h)"
    by (simp add: ht_Insert_def ht_Get_def Let_def)
  show "\<exists>h'. ht_Insert k v h = (v, True, h') \<and> ht_wf h' \<and> ht_Get h' = (ht_Get h)(k \<mapsto> v)" if "ht_Get h k = None"
    using wf ht_Get_update [OF wf, of k "Some v"] that by (auto simp: ht_Insert_def Let_def ht_Get_def ht_wf_def)
qed

section \<open>The lists against their contract\<close>

definition cm_res :: "('s, unit) cm \<Rightarrow> 's \<Rightarrow> 's res" where
  "cm_res m s = (case m s of (Inl e, _) \<Rightarrow> Inl e | (Inr _, s') \<Rightarrow> Inr s')"

definition sized :: "'x buffer_state_scheme \<Rightarrow> bool" where
  "sized s \<longleftrightarrow> 2 * unat (bm_npages s) < 2 ^ 32 - 1"

definition list_rep :: "list_id \<Rightarrow> 'x buffer_state_scheme \<Rightarrow> nat list \<Rightarrow> bool" where
  "list_rep l s xs \<longleftrightarrow> clist s l xs \<and> sized s \<and> set xs \<subseteq> {..<2 * unat (bm_npages s)}"

definition entry_free :: "'x buffer_state_scheme \<Rightarrow> nat \<Rightarrow> bool" where
  "entry_free s i \<longleftrightarrow> unlinked s i \<and> i < 2 * unat (bm_npages s)"

lemma distinct_bounded_length: "distinct xs \<Longrightarrow> set xs \<subseteq> {..<n} \<Longrightarrow> length xs \<le> n"
  by (metis card_lessThan card_mono distinct_card finite_lessThan)

lemma list_rep_room:
  assumes "list_rep l s xs" "i \<notin> set xs" "entry_free s i"
  shows "length xs < 2 ^ 32 - 1"
  using assms distinct_bounded_length [of "i # xs" "2 * unat (bm_npages s)"] clist_distinct [of s l xs]
  by (auto simp: list_rep_def sized_def entry_free_def)

lemma list_step_unlinked: "list_step L A s s' \<Longrightarrow> j \<notin> A \<Longrightarrow> unlinked s' j = unlinked s j"
  by (auto simp: list_step_def unlinked_def)

interpretation cache_list: intrusive_list "list_rep l" entry_free "\<lambda>i. cm_res (InsertMRU l i)" "\<lambda>i. cm_res (RemoveEntry l i)" "(#)" for l
proof
  fix s :: "'x buffer_state_scheme" and xs i
  assume r: "list_rep l s xs"
  then have c: "clist s l xs" by (simp add: list_rep_def)
  show "distinct xs" using clist_distinct [OF c] .
  show "\<exists>s'. cm_res (InsertMRU l i) s = Inr s' \<and> list_rep l s' (i # xs) \<and> (\<forall>j. j \<noteq> i \<longrightarrow> j \<notin> set xs \<longrightarrow> entry_free s j \<longrightarrow> entry_free s' j)"
    if i: "i \<notin> set xs" "entry_free s i"
  proof -
    obtain s' where s': "InsertMRU l i s = (Inr (), s')" "clist s' l (i # xs)" "list_step {l} (insert i (set xs)) s s'"
      using InsertMRU_ok [OF c i(1) _ list_rep_room [OF r i]] i by (auto simp: entry_free_def)
    moreover have "bm_npages s' = bm_npages s" using same_rest_fields list_step_rest s'(3) by blast
    ultimately show ?thesis using r i list_step_unlinked [OF s'(3)]
      by (auto simp: cm_res_def list_rep_def entry_free_def sized_def)
  qed
  show "\<exists>s'. cm_res (RemoveEntry l i) s = Inr s' \<and> list_rep l s' (remove1 i xs) \<and> entry_free s' i" if i: "i \<in> set xs"
  proof -
    obtain s' where s': "RemoveEntry l i s = (Inr (), s')" "clist s' l (remove1 i xs)" "unlinked s' i" "list_step {l} (set xs) s s'"
      using RemoveEntry_clist [OF c i] by blast
    moreover have "bm_npages s' = bm_npages s" using same_rest_fields list_step_rest s'(4) by blast
    moreover have "set (remove1 i xs) \<subseteq> set xs" by (rule set_remove1_subset)
    ultimately show ?thesis using r i by (auto simp: cm_res_def list_rep_def entry_free_def sized_def)
  qed
qed auto

end
