(* ===== verification/Mimi_BufferOps.thy ===== *)
theory Mimi_BufferOps
  imports Mimi_Buffer
begin

text \<open>
  What the operations of the buffer manager do on the lists, the page table and the files: hits,
  misses, construction, replacement, ghost hits and relation extension. The lists are read as
  sequences (\<open>clist\<close>, with the right size, and \<open>chain\<close>, pointers only), most recent entry first.
\<close>

unbundle bit_operations_syntax

section \<open>A hit in the cache\<close>

lemma handleCacheHit_frequent:
  assumes c: "clist s T2 xs" "i \<in> set xs" and st: "\<not> bit (stat s i) 31" "bit (stat s i) 29" "bit (stat s i) 28"
  shows "\<exists>s'. handleCacheHit i s = (Inr (), s') \<and> clist s' T2 (i # remove1 i xs) \<and> list_step {T2} (set xs) s s'"
proof -
  let ?s1 = "set_State i (stat s i OR Locked) s"
  obtain s2 where s2: "MoveMRU T2 i ?s1 = (Inr (), s2)" "clist s2 T2 (i # remove1 i xs)" "list_step {T2} (set xs) ?s1 s2"
    using MoveMRU_ok [of ?s1 T2 xs i] c by auto
  have st2: "stat s2 i = stat s i OR Locked" using list_step_core [OF s2(3), of i] by simp
  have "(stat s i OR Locked) AND CacheEntryListMask = IsTopList OR IsFrequencyList"
    using st by (auto simp: word_bits_eq bit_simps CacheEntryListMask_def)
  then have "handleCacheHit i s = (Inr (), set_State i (stat s i) s2)"
    using st s2(1) st2 by (simp add: handleCacheHit_def cm_simps run_simps bit_simps)
  moreover have "clist (set_State i (stat s i) s2) T2 (i # remove1 i xs)" using s2(2) by simp
  moreover have "list_step {T2} (set xs) s (set_State i (stat s i) s2)"
    using list_step_locked [OF s2(3)] c by simp
  ultimately show ?thesis by blast
qed

lemma set_State_twice [simp]: "set_State i x (set_State i y s) = set_State i x s"
  by simp

lemma handleCacheHit_recent:
  assumes c: "clist s T1 xs" "clist s T2 ys" "i \<in> set xs" "set xs \<inter> set ys = {}" "length ys < 2 ^ 32 - 1"
    and st: "\<not> bit (stat s i) 31" "bit (stat s i) 29" "\<not> bit (stat s i) 28"
  shows "\<exists>s'. handleCacheHit i s = (Inr (), s') \<and> clist s' T1 (remove1 i xs) \<and> clist s' T2 (i # ys) \<and>
    list_step {T1, T2} (set xs \<union> set ys) (set_State i (stat s i OR IsFrequencyList) s) s'"
proof -
  let ?s1 = "set_State i (stat s i OR Locked) s"
  obtain s2 where s2: "RemoveEntry T1 i ?s1 = (Inr (), s2)" "clist s2 T1 (remove1 i xs)" "unlinked s2 i" "list_step {T1} (set xs) ?s1 s2"
    using RemoveEntry_clist [of ?s1 T1 xs i] c by auto
  have "clist s2 T2 ys" using clist_frame [OF s2(4), of T2 ys] c by auto
  then obtain s3 where s3: "InsertMRU T2 i s2 = (Inr (), s3)" "clist s3 T2 (i # ys)" "list_step {T2} (insert i (set ys)) s2 s3"
    using InsertMRU_ok [of s2 T2 ys i] s2(3) c by auto
  have "set (remove1 i xs) \<inter> insert i (set ys) = {}" using c clist_distinct [OF c(1)] by auto
  then have t1: "clist s3 T1 (remove1 i xs)" using clist_frame [OF s3(3) s2(2)] by simp
  have ls: "list_step {T1, T2} (set xs \<union> set ys) ?s1 s3"
    by (rule list_step_trans [OF s2(4) s3(3)]) (use c in auto)
  then have st3: "stat s3 i = stat s i OR Locked" using list_step_core [OF ls, of i] by simp
  have "(stat s i OR Locked) AND CacheEntryListMask \<noteq> IsFrequencyList"
  proof
    assume "(stat s i OR Locked) AND CacheEntryListMask = IsFrequencyList"
    then have "bit ((stat s i OR Locked) AND CacheEntryListMask) 29 = bit IsFrequencyList 29" by simp
    then show False using st by (simp add: bit_simps CacheEntryListMask_def)
  qed
  then have "handleCacheHit i s = (Inr (), set_State i (stat s i OR IsFrequencyList) s3)"
    using st s2(1) s3(1) st3 by (simp add: handleCacheHit_def cm_simps run_simps bit_simps)
  moreover have "list_step {T1, T2} (set xs \<union> set ys) (set_State i (stat s i OR IsFrequencyList) s)
      (set_State i (stat s i OR IsFrequencyList) s3)"
    using list_step_locked [where i = i and x = "stat s i OR Locked" and s = "set_State i (stat s i OR IsFrequencyList) s"] ls c(3)
    by (simp del: fun_upd_apply add: fun_upd_same)
  moreover have "clist (set_State i (stat s i OR IsFrequencyList) s3) T1 (remove1 i xs)"
    "clist (set_State i (stat s i OR IsFrequencyList) s3) T2 (i # ys)" using t1 s3(2) by simp_all
  ultimately show ?thesis by blast
qed

text \<open>The effect of a hit on the four parts of the cache, on either list.\<close>

lemma handleCacheHit_ok:
  assumes c: "clist s T1 xs" "clist s T2 ys" "set xs \<inter> set ys = {}" "length ys < 2 ^ 32 - 1"
    and i: "i \<in> (if bit (stat s i) 28 then set ys else set xs)"
    and st: "\<not> bit (stat s i) 31" "bit (stat s i) 29"
  shows "\<exists>s'. handleCacheHit i s = (Inr (), s') \<and> clist s' T1 (remove1 i xs) \<and> clist s' T2 (i # remove1 i ys) \<and>
    list_step {T1, T2} (set xs \<union> set ys) (set_State i (stat s i OR IsFrequencyList) s) s'"
proof (cases "bit (stat s i) 28")
  case True
  then obtain s' where s': "handleCacheHit i s = (Inr (), s')" "clist s' T2 (i # remove1 i ys)" "list_step {T2} (set ys) s s'"
    using handleCacheHit_frequent [OF c(2)] i st by auto
  have "i \<notin> set xs" using i c(3) True by auto
  then have "clist s' T1 (remove1 i xs)" using clist_frame [OF s'(3) c(1)] c(3) by (simp add: remove1_idem)
  moreover have "list_step {T1, T2} (set xs \<union> set ys) s s'"
    by (rule list_step_trans [OF list_step_refl [of "{}" "{}"] s'(3)]) auto
  moreover have "stat s i OR IsFrequencyList = stat s i" using True by (auto simp: word_bits_eq bit_simps)
  ultimately show ?thesis using s' by auto
next
  case False
  have "i \<notin> set ys" using i c(3) False by auto
  then show ?thesis using handleCacheHit_recent [OF c(1,2) _ c(3,4) st] i False by (simp add: remove1_idem)
qed

lemma GetBuffer_hit:
  assumes c: "clist s T1 xs" "clist s T2 ys" "set xs \<inter> set ys = {}" "length ys < 2 ^ 32 - 1"
    and t: "ht_Get (bm_map s) tag = Some i" "i \<in> (if bit (stat s i) 28 then set ys else set xs)"
    and st: "\<not> bit (stat s i) 31" "bit (stat s i) 29" "bit (stat s i) 25" "take_bit 20 (stat s i) \<noteq> BufferRefCountMask"
      "ce_Buffer (bm_entries s i) \<noteq> None"
  shows "\<exists>s'. GetBuffer tag s = (Inr \<lparr>bp_tag = ce_Tag (bm_entries s i), bp_buffer = \<lparr>bf_blockId = ce_BlockId (bm_entries s i) + 1\<rparr>\<rparr>, s') \<and>
    clist s' T1 (remove1 i xs) \<and> clist s' T2 (i # remove1 i ys) \<and>
    list_step {T1, T2} (set xs \<union> set ys) (set_State i ((stat s i + 1) OR IsFrequencyList) s) s'"
proof -
  let ?s1 = "set_State i (stat s i + 1) s"
  obtain s' where s': "handleCacheHit i ?s1 = (Inr (), s')" "clist s' T1 (remove1 i xs)" "clist s' T2 (i # remove1 i ys)"
    "list_step {T1, T2} (set xs \<union> set ys) (set_State i ((stat s i + 1) OR IsFrequencyList) s) s'"
    using handleCacheHit_ok [of ?s1 xs ys i] c t(2) st by (auto simp del: fun_upd_apply simp: fun_upd_same)
  have e: "stat s' i = (stat s i + 1) OR IsFrequencyList" "ce_Tag (bm_entries s' i) = ce_Tag (bm_entries s i)"
    "ce_Buffer (bm_entries s' i) = ce_Buffer (bm_entries s i)" "ce_BlockId (bm_entries s' i) = ce_BlockId (bm_entries s i)"
    using list_step_core [OF s'(4), of i] by simp_all
  have cnt: "take_bit 20 (stat s i + 1) \<noteq> 0"
    using pinned_nonzero st by blast
  have "makeBufferPin i s' = (Inr \<lparr>bp_tag = ce_Tag (bm_entries s i), bp_buffer = \<lparr>bf_blockId = ce_BlockId (bm_entries s i) + 1\<rparr>\<rparr>, s')"
    using e st cnt by (simp add: makeBufferPin_def cm_simps run_simps bit_simps word_gt_0 take_bit_or)
  then have "GetBuffer tag s = (Inr \<lparr>bp_tag = ce_Tag (bm_entries s i), bp_buffer = \<lparr>bf_blockId = ce_BlockId (bm_entries s i) + 1\<rparr>\<rparr>, s')"
    using t(1) st s'(1) e by (simp add: GetBuffer_def cm_simps run_simps bit_simps)
  with s' show ?thesis by blast
qed

section \<open>Construction\<close>

lemma insert_free_ok:
  assumes "clist s FreeList xs" "distinct is" "set is \<inter> set xs = {}" "\<forall>i\<in>set is. unlinked s i" "length is + length xs < 2 ^ 32 - 1"
  shows "\<exists>s'. insert_free is s = (Inr (), s') \<and> clist s' FreeList (rev is @ xs) \<and> list_step {FreeList} (set is \<union> set xs) s s'"
  using assms
proof (induction "is" arbitrary: s xs)
  case Nil
  then show ?case by (simp add: cm_simps)
next
  case (Cons i ks)
  then obtain s1 where s1: "InsertMRU FreeList i s = (Inr (), s1)" "clist s1 FreeList (i # xs)"
    "list_step {FreeList} (insert i (set xs)) s s1"
    using InsertMRU_ok [of s FreeList xs i] by auto
  have "unlinked s1 k" if k: "k \<in> set ks" for k
  proof -
    have "k \<notin> insert i (set xs)" using Cons.prems k by auto
    then show ?thesis using list_step_unlinked [OF s1(3)] Cons.prems k by auto
  qed
  then obtain s2 where s2: "insert_free ks s1 = (Inr (), s2)" "clist s2 FreeList (rev ks @ i # xs)"
    "list_step {FreeList} (set ks \<union> set (i # xs)) s1 s2"
    using Cons.IH [OF s1(2)] Cons.prems by auto
  have "list_step {FreeList} (set (i # ks) \<union> set xs) s s2"
    by (rule list_step_trans [OF s1(3) s2(3)]) auto
  then show ?case using s1(1) s2 by (simp add: thenM_ok)
qed

lemma BufferManager_init_ok:
  assumes n: "2 * unat n < 2 ^ 32 - 1"
  shows "\<exists>s'. BufferManager_init hash n s = (Inr (), s') \<and> sized s' \<and> bm_npages s' = n \<and>
    clist s' FreeList (rev [0..<2 * unat n]) \<and> (\<forall>l. l \<noteq> FreeList \<longrightarrow> clist s' l []) \<and>
    (\<forall>i. ce_core (bm_entries s' i) = ce_core (blank_entry i)) \<and> bm_freeBuffers s' = rev [0..<unat n] \<and>
    ht_wf (bm_map s') \<and> (\<forall>t. ht_Get (bm_map s') t = None) \<and> os_files s' = os_files s \<and> os_script s' = os_script s"
proof -
  let ?s0 = "s\<lparr>bm_map := \<lparr>ht_hash = hash, ht_maps = replicate 8 Map.empty\<rparr>, bm_npages := n, bm_entries := blank_entry,
    bm_pages := (\<lambda>_. replicate PageSize 0), bm_freeBuffers := [], bm_lists := empty_lists, bm_P := 0\<rparr>"
  have e: "clist ?s0 l []" for l by (simp add: clist_def chain_def empty_lists_def)
  obtain s1 where s1: "insert_free [0..<2 * unat n] ?s0 = (Inr (), s1)" "clist s1 FreeList (rev [0..<2 * unat n] @ [])"
    "list_step {FreeList} (set [0..<2 * unat n] \<union> set []) ?s0 s1"
    using insert_free_ok [OF e [of FreeList], of "[0..<2 * unat n]"] n
    by (auto simp: unlinked_def IsRouge_def blank_entry_def)
  let ?s2 = "s1\<lparr>bm_freeBuffers := rev [0..<unat n]\<rparr>"
  have "BufferManager_init hash n s = (Inr (), ?s2)"
    using n s1(1) by (simp add: BufferManager_init_def thenM_ok updM_def)
  moreover have c: "clist ?s2 l xs = clist s1 l xs" for l xs by (simp add: clist_def chain_def)
  then have "clist ?s2 l []" if "l \<noteq> FreeList" for l
    using clist_frame [OF s1(3) e [of l]] that by simp
  moreover have "clist ?s2 FreeList (rev [0..<2 * unat n])" using c s1(2) by simp
  moreover have "ce_core (bm_entries ?s2 i) = ce_core (blank_entry i)" for i using s1(3) by (simp add: list_step_def)
  moreover have "bm_map s1 = \<lparr>ht_hash = hash, ht_maps = replicate 8 Map.empty\<rparr>" "bm_npages s1 = n" "os_files s1 = os_files s" "os_script s1 = os_script s"
    using same_rest_fields [OF list_step_rest [OF s1(3)]] by simp_all
  ultimately show ?thesis using n by (simp add: ht_wf_def ht_Get_def getElementIndex_def sized_def)
qed

text \<open>\<open>PopTail\<close> repeated, with the entries it returned.\<close>

primrec pop_times :: "nat \<Rightarrow> list_id \<Rightarrow> ('x buffer_state_scheme, nat list) cm" where
  "pop_times 0 l = retM []"
| "pop_times (Suc k) l = bindM (PopTail l) (\<lambda>x. case x of
     None \<Rightarrow> retM [] | Some i \<Rightarrow> bindM (pop_times k l) (\<lambda>ys. retM (i # ys)))"

lemma PopTail_empty_size:
  assumes c: "chain s l (xs @ [i])" and sz: "cl_size (bm_lists s l) = 0"
    and st: "\<not> bit (stat s i) 31" "take_bit 20 (stat s i) = 0" and n: "bm_npages s \<noteq> 0"
  shows "fst (PopTail l s) = Inl (AssertFail ''this->_size > 0'')"
proof -
  obtain r where r: "rounds s = Suc r" using n by (cases "rounds s") (auto simp: rounds_def unat_eq_zero)
  have tl: "cl_tail (bm_lists s l) = Some i" using c dll_ends by (fastforce simp: chain_def)
  show ?thesis using r tl sz st
    by (simp add: PopTail_def for_each_reverse_def RemoveEntry_def cm_simps run_simps bit_simps)
qed

lemma pop_times_ok:
  assumes "chain s l (xs @ rev ys)" "cl_size (bm_lists s l) = word_of_nat (2 * length ys)" "2 * length ys < 2 ^ 32"
    and "length ys \<le> length xs" "bm_npages s \<noteq> 0"
    and "\<And>i. \<not> bit (stat s i) 31" "\<And>i. take_bit 20 (stat s i) = 0"
  shows "\<exists>s'. pop_times (length ys) l s = (Inr ys, s') \<and> chain s' l xs \<and> cl_size (bm_lists s' l) = 0 \<and>
    bm_npages s' = bm_npages s \<and> (\<forall>i. stat s' i = stat s i)"
  using assms
proof (induction ys arbitrary: s)
  case Nil
  then show ?case by (simp add: cm_simps)
next
  case (Cons y ys)
  have u: "unat (cl_size (bm_lists s l)) = 2 * Suc (length ys)" 
  proof -
    have "unat (word_of_nat (2 * length (y # ys)) :: u32) = 2 * length (y # ys)"
      using Cons.prems(3) by (simp only: unat_of_nat len_num1 len_num0 len_bit0 len_bit1 mod_less) simp
    then show ?thesis using Cons.prems(2) by simp
  qed
  have sz: "cl_size (bm_lists s l) > 0" "cl_size (bm_lists s l) \<noteq> 1"
    using u by (auto simp: word_gt_0)
  have "chain s l ((xs @ rev ys) @ [y])" "xs \<noteq> []" using Cons.prems by auto
  then obtain s1 where s1: "PopTail l s = (Inr (Some y), s1)" "chain s1 l (xs @ rev ys)"
    "cl_size (bm_lists s1 l) = cl_size (bm_lists s l) - 2" "list_step {l} (set ((xs @ rev ys) @ [y])) s s1"
    using PopTail_ok [of s l "xs @ rev ys" y] sz Cons.prems(4-7) by auto
  have st: "stat s1 i = stat s i" for i using list_step_core [OF s1(4)] by simp
  have np: "bm_npages s1 = bm_npages s" using same_rest_fields [OF list_step_rest [OF s1(4)]] by simp
  have "cl_size (bm_lists s1 l) = word_of_nat (2 * length ys)" using s1(3) Cons.prems(2) by simp
  then obtain s2 where "pop_times (length ys) l s1 = (Inr ys, s2)" "chain s2 l xs" "cl_size (bm_lists s2 l) = 0"
    "bm_npages s2 = bm_npages s1" "\<forall>i. stat s2 i = stat s1 i"
    using Cons.IH [OF s1(2)] Cons.prems st np by auto
  then show ?case using s1(1) st np by (simp add: bindM_ok cm_simps)
qed

section \<open>A miss with room in the cache\<close>

lemma terminate_run:
  assumes "\<not> bit (stat s i) 31" "bit (stat s i) 27" "sf AND uf = 0" "\<not> bit sf 31" "\<not> bit uf 31" "ce_Buffer (bm_entries s i) \<noteq> None"
  shows "TerminateBufferIO i sf uf s =
    (Inr (), set_State i (((stat s i AND NOT (IoInProgress OR IoErrorFlag)) AND NOT uf) OR sf) s)"
proof -
  have "(((((stat s i OR Locked) AND NOT (IoInProgress OR IoErrorFlag)) AND NOT uf) OR sf) AND NOT Locked) =
    ((stat s i AND NOT (IoInProgress OR IoErrorFlag)) AND NOT uf) OR sf"
    using assms by (auto simp: word_bits_eq bit_simps)
  then show ?thesis using assms
    by (simp add: TerminateBufferIO_def cm_simps run_simps bit_simps)
qed

text \<open>The file of the relation has the page, and the kernel delivers it.\<close>

definition readable :: "'x os_state_scheme \<Rightarrow> PageTag \<Rightarrow> page \<Rightarrow> bool" where
  "readable s tag p \<longleftrightarrow> PageNumber_IsValid (PageNo tag) \<and> os_script s = [] \<and>
     (\<exists>c. os_files s (rel_path (Relid tag)) = Some c \<and> (unat (PageNo tag) + 1) * PageSize \<le> length c \<and>
        p = peek c (PageSize * unat (PageNo tag)) PageSize)"

lemma readable_read:
  assumes "readable s tag p"
  shows "RelFile_Open (Relid tag) s = (Inr (rel_path (Relid tag)), s)" "RelFile_Read (rel_path (Relid tag)) (PageNo tag) s = (Inr p, s)"
proof -
  obtain c where c: "os_files s (rel_path (Relid tag)) = Some c" "(unat (PageNo tag) + 1) * PageSize \<le> length c"
    "p = peek c (PageSize * unat (PageNo tag)) PageSize" using assms by (auto simp: readable_def)
  show "RelFile_Open (Relid tag) s = (Inr (rel_path (Relid tag)), s)"
    using File_Open_ok [OF c(1)] by (simp add: RelFile_Open_def)
  have "length p = PageSize" using c by (simp add: algebra_simps)
  then show "RelFile_Read (rel_path (Relid tag)) (PageNo tag) s = (Inr p, s)"
    using assms c by (simp add: readable_def RelFile_Read_def cm_simps File_Read_ok read_offset_def file_of_def nat_mult_distrib)
qed

lemma readable_cong: "os_files s' = os_files s \<Longrightarrow> os_script s' = os_script s \<Longrightarrow> readable s' tag p = readable s tag p"
  by (simp add: readable_def)

lemma ReadBuffer_ok:
  assumes st: "\<not> bit (stat s i) 31" "\<not> bit (stat s i) 27" "\<not> bit (stat s i) 26" "\<not> bit (stat s i) 25"
    and b: "ce_Buffer (bm_entries s i) = Some b" and r: "readable s (ce_Tag (bm_entries s i)) p"
  shows "CE_ReadBuffer i s = (Inr (), (set_State i (stat s i OR DataValid) s)\<lparr>bm_pages := (bm_pages s)(b := p)\<rparr>)"
proof -
  let ?s1 = "set_State i (stat s i OR IoInProgress) s" and ?tag = "ce_Tag (bm_entries s i)"
  have "readable ?s1 ?tag p" using r by (simp add: readable_def)
  note rd = readable_read [OF this]
  let ?s2 = "?s1\<lparr>bm_pages := (bm_pages s)(b := p)\<rparr>"
  have "((stat s i OR IoInProgress) AND NOT (IoInProgress OR IoErrorFlag)) AND NOT 0 OR DataValid = stat s i OR DataValid"
    using st by (auto simp: word_bits_eq bit_simps)
  then have t: "TerminateBufferIO i DataValid 0 ?s2 = (Inr (), (set_State i (stat s i OR DataValid) s)\<lparr>bm_pages := (bm_pages s)(b := p)\<rparr>)"
    using terminate_run [of ?s2 i DataValid 0] st b by (simp add: bit_simps)
  have "onErrorM (bindM (RelFile_Open (Relid ?tag)) (\<lambda>file. bindM (RelFile_Read file (PageNo ?tag)) (\<lambda>p. set_page b p)))
      (TerminateBufferIO i IoErrorFlag 0) ?s1 = (Inr (), ?s2)"
    using rd by (simp add: onErrorM_def bindM_def run_simps)
  then show ?thesis
    using st b t by (simp add: CE_ReadBuffer_def cm_simps run_simps startIO_run buffer_of_def)
qed

definition has_room :: "'x buffer_state_scheme \<Rightarrow> bool" where
  "has_room s \<longleftrightarrow> (let t1 = cl_size (bm_lists s T1); b1 = cl_size (bm_lists s B1); t2 = cl_size (bm_lists s T2); b2 = cl_size (bm_lists s B2) in
     \<not> bm_npages s \<le> t1 + b1 \<and> \<not> bm_npages s \<le> t1 + b1 + t2 + b2)"

lemma preinsertCleanup_room: "has_room s \<Longrightarrow> preinsertCleanup s = (Inr (), s)"
  by (simp add: has_room_def preinsertCleanup_def cm_simps run_simps Let_def)

text \<open>The tail of the free list is an entry that a miss may take.\<close>

definition free_tail :: "'x buffer_state_scheme \<Rightarrow> nat list \<Rightarrow> nat \<Rightarrow> bool" where
  "free_tail s xs i \<longleftrightarrow> chain s FreeList (xs @ [i]) \<and> cl_size (bm_lists s FreeList) > 0 \<and>
     (cl_size (bm_lists s FreeList) = 1 \<longleftrightarrow> xs = []) \<and> stat s i = 0 \<and> ce_Buffer (bm_entries s i) = None \<and> bm_npages s \<noteq> 0"

lemma evict_free:
  assumes f: "free_tail s xs i"
  shows "\<exists>s'. evictCacheEntry s = (Inr (Some i), s') \<and> chain s' FreeList xs \<and> unlinked s' i \<and> list_step {FreeList} (set (xs @ [i])) s s' \<and>
    cl_size (bm_lists s' FreeList) = cl_size (bm_lists s FreeList) - 2"
proof -
  obtain s1 where s1: "PopTail FreeList s = (Inr (Some i), s1)" "chain s1 FreeList xs" "unlinked s1 i"
    "list_step {FreeList} (set (xs @ [i])) s s1" "cl_size (bm_lists s1 FreeList) = cl_size (bm_lists s FreeList) - 2"
    using PopTail_ok [of s FreeList xs i] f by (auto simp: free_tail_def)
  have st: "stat s1 i = 0" using list_step_core [OF s1(4), of i] f by (simp add: free_tail_def)
  have "CE_TearDown i s1 = (Inr (), s1)" using st set_State_same [of 0 s1 i] by (simp add: CE_TearDown_def cm_simps run_simps)
  then have "evictCacheEntry s = (Inr (Some i), s1)"
    using s1(1) by (simp add: evictCacheEntry_def bindM_ok thenM_ok cm_simps)
  with s1 show ?thesis by blast
qed

definition new_state :: u32 where "new_state = ((TagValid OR IsTopList) + 1) OR DataValid"

lemma new_entry_bits:
  "take_bit 20 (TagValid OR IsTopList) = 0" "(TagValid OR IsTopList) + 1 = (TagValid OR IsTopList) OR 1"
proof -
  show t: "take_bit 20 (TagValid OR IsTopList) = 0" by simp
  have "\<not> bit (TagValid OR IsTopList) 0" by (simp add: bit_simps)
  then show "(TagValid OR IsTopList) + 1 = (TagValid OR IsTopList) OR 1"
    by (intro disjunctive_add_eq_or) (auto simp: word_bits_eq bit_simps)
qed

text \<open>
  An entry taken from the free list for a page: linked in front of T1, in the page table, with a buffer; the rest
  of the manager is as before.
\<close>

definition entered :: "PageTag \<Rightarrow> nat list \<Rightarrow> nat list \<Rightarrow> nat \<Rightarrow> nat \<Rightarrow> nat list \<Rightarrow> 'x buffer_state_scheme \<Rightarrow> 'x buffer_state_scheme \<Rightarrow> bool" where
  "entered tag xs ys i b rest s s' \<longleftrightarrow>
    clist s' T1 (i # ys) \<and> chain s' FreeList xs \<and> ht_wf (bm_map s') \<and> ht_Get (bm_map s') = (ht_Get (bm_map s))(tag \<mapsto> ce_BlockId (bm_entries s i)) \<and>
    ce_Tag (bm_entries s' i) = tag \<and> ce_Buffer (bm_entries s' i) = Some b \<and> bm_freeBuffers s' = rest \<and> os_files s' = os_files s \<and>
    (\<forall>j. j \<noteq> i \<longrightarrow> ce_core (bm_entries s' j) = ce_core (bm_entries s j)) \<and> ce_BlockId (bm_entries s' i) = ce_BlockId (bm_entries s i) \<and>
    cl_size (bm_lists s' FreeList) = cl_size (bm_lists s FreeList) - 2 \<and>
    (\<forall>l. l \<notin> {T1, FreeList} \<longrightarrow> bm_lists s' l = bm_lists s l) \<and> bm_npages s' = bm_npages s \<and> os_script s' = os_script s \<and>
    (\<forall>l zs. l \<notin> {T1, FreeList} \<longrightarrow> clist s l zs \<longrightarrow> set zs \<inter> set (i # xs @ ys) = {} \<longrightarrow> clist s' l zs)"

lemma get_new_entry_free:
  assumes room: "has_room s" and t: "ht_wf (bm_map s)" "ht_Get (bm_map s) tag = None"
    and f: "free_tail s xs i" and b: "bm_freeBuffers s = b # rest"
    and c: "clist s T1 ys" "length ys < 2 ^ 32 - 1" "set ys \<inter> set (xs @ [i]) = {}"
  shows "\<exists>s'. get_new_entry tag s = (Inr (i, True), s') \<and> stat s' i = (TagValid OR IsTopList) + 1 \<and> bm_pages s' = bm_pages s \<and> entered tag xs ys i b rest s s'"
proof -
  obtain s1 where s1: "evictCacheEntry s = (Inr (Some i), s1)" "chain s1 FreeList xs" "unlinked s1 i"
    "list_step {FreeList} (set (xs @ [i])) s s1" "cl_size (bm_lists s1 FreeList) = cl_size (bm_lists s FreeList) - 2"
    using evict_free [OF f] by blast
  note rest1 = same_rest_fields [OF list_step_rest [OF s1(4)]]
  note core1 = list_step_core [OF s1(4), of i]
  have t1: "ht_wf (bm_map s1)" "ht_Get (bm_map s1) tag = None" using t rest1 by simp_all
  obtain h where h: "ht_Insert tag (ce_BlockId (bm_entries s i)) (bm_map s1) = (ce_BlockId (bm_entries s i), True, h)" "ht_wf h"
    "ht_Get h = (ht_Get (bm_map s))(tag \<mapsto> ce_BlockId (bm_entries s i))"
    using page_table.ins_new [OF t1, of "ce_BlockId (bm_entries s i)"] rest1 by auto
  let ?st = "(TagValid OR IsTopList) + 1"
  let ?e = "(bm_entries s1 i)\<lparr>ce_Tag := tag, ce_State := ?st, ce_Buffer := Some b\<rparr>"
  define s2 where "s2 = s1\<lparr>bm_map := h, bm_freeBuffers := rest, bm_entries := (bm_entries s1)(i := ?e)\<rparr>"
  have c2: "clist s2 l zs = clist s1 l zs" "chain s2 l zs = chain s1 l zs" for l zs
    by (auto simp: s2_def clist_def chain_def elim!: dll_cong)
  have st2: "stat s2 i = ?st" by (simp add: s2_def)
  have u2: "unlinked s2 i" using s1(3) by (simp add: s2_def unlinked_def IsRouge_def)
  have cT: "clist s2 T1 ys" using c2 clist_frame [OF s1(4) c(1)] c(3) by simp
  let ?s3 = "set_State i (?st OR Locked) s2"
  obtain s4 where s4: "InsertMRU T1 i ?s3 = (Inr (), s4)" "clist s4 T1 (i # ys)" "list_step {T1} (insert i (set ys)) ?s3 s4"
    using InsertMRU_ok [of ?s3 T1 ys i] cT u2 c by auto
  have ub: "\<not> bit ?st 31" using new_entry_bits(2) by (auto simp: bit_simps)
  have st4: "stat s4 i = ?st OR Locked" using list_step_core [OF s4(3), of i] by simp
  let ?s5 = "set_State i ?st s4"
  have ls5: "list_step {T1} (insert i (set ys)) s2 ?s5"
    using list_step_locked [OF s4(3)] st2 by simp
  note core5 = list_step_core [OF ls5, of i] and rest5 = same_rest_fields [OF list_step_rest [OF ls5]]
  have s3: "?s3 = s1\<lparr>bm_map := h, bm_freeBuffers := rest, bm_entries := (bm_entries s1)(i := ?e\<lparr>ce_State := ?st OR Locked\<rparr>)\<rparr>"
    by (simp add: s2_def)
  have new: "get_new_entry tag s = (Inr (i, True), ?s5)"
  proof -
    have "bm_freeBuffers s1 = b # rest" "ce_Buffer (bm_entries s1 i) = None" "ce_BlockId (bm_entries s1 i) = ce_BlockId (bm_entries s i)"
      using b rest1 core1 f by (simp_all add: free_tail_def)
    then show ?thesis
      using preinsertCleanup_room [OF room] s1(1) s4(1) [unfolded s3] h(1) ub st4
      by (simp add: get_new_entry_def bindM_ok thenM_ok cm_simps run_simps map_Insert_def free_Get_def mask_of_refcount bit_simps)
  qed
  define s5 where "s5 = ?s5"
  note new = new [folded s5_def] and core5 = core5 [folded s5_def] and rest5 = rest5 [folded s5_def] and ls5 = ls5 [folded s5_def]
  have top: "clist s5 T1 (i # ys)" using s4(2) by (simp add: s5_def)
  have i: "i \<notin> set xs" using f by (auto simp: free_tail_def dest!: chain_distinct)
  have "clist s5 l zs" if "l \<notin> {T1, FreeList}" "clist s l zs" "set zs \<inter> set (i # xs @ ys) = {}" for l zs
  proof -
    have "clist s1 l zs" using clist_frame [OF s1(4) that(2)] that by (auto simp: disjoint_iff)
    then show ?thesis using clist_frame [OF ls5, of l zs] c2 that by (auto simp: disjoint_iff)
  qed
  moreover have "chain s5 FreeList xs"
    by (intro chain_frame [OF ls5]) (use c2 s1(2) c(3) i in \<open>auto simp: disjoint_iff\<close>)
  moreover have "ce_core (bm_entries s5 j) = ce_core (bm_entries s j)" if "j \<noteq> i" for j
    using that s1(4) ls5 by (simp add: list_step_def s2_def)
  moreover have "bm_lists s5 l = (if l = FreeList then bm_lists s1 l else bm_lists s l)" if "l \<noteq> T1" for l
    using that ls5 s1(4) by (simp add: list_step_def s2_def)
  ultimately have "entered tag xs ys i b rest s s5"
    unfolding entered_def using top h s1(5) core5 core1 rest5 rest1 by (intro conjI) (simp_all add: s2_def)
  then show ?thesis using new core5 rest5 rest1 by (intro exI [of _ s5]) (simp add: s2_def)
qed

lemma GetBuffer_miss:
  assumes room: "has_room s" and t: "ht_wf (bm_map s)" "ht_Get (bm_map s) tag = None"
    and f: "free_tail s xs i" and b: "bm_freeBuffers s = b # rest"
    and c: "clist s T1 ys" "length ys < 2 ^ 32 - 1" "set ys \<inter> set (xs @ [i]) = {}"
    and r: "readable s tag p"
  shows "\<exists>s'. GetBuffer tag s = (Inr \<lparr>bp_tag = tag, bp_buffer = \<lparr>bf_blockId = ce_BlockId (bm_entries s i) + 1\<rparr>\<rparr>, s') \<and>
    clist s' T1 (i # ys) \<and> chain s' FreeList xs \<and> ht_wf (bm_map s') \<and> ht_Get (bm_map s') = (ht_Get (bm_map s))(tag \<mapsto> ce_BlockId (bm_entries s i)) \<and>
    stat s' i = new_state \<and> ce_Tag (bm_entries s' i) = tag \<and> ce_Buffer (bm_entries s' i) = Some b \<and>
    bm_freeBuffers s' = rest \<and> bm_pages s' = (bm_pages s)(b := p) \<and> os_files s' = os_files s \<and>
    (\<forall>j. j \<noteq> i \<longrightarrow> ce_core (bm_entries s' j) = ce_core (bm_entries s j)) \<and> ce_BlockId (bm_entries s' i) = ce_BlockId (bm_entries s i) \<and>
    cl_size (bm_lists s' FreeList) = cl_size (bm_lists s FreeList) - 2 \<and>
    (\<forall>l. l \<notin> {T1, FreeList} \<longrightarrow> bm_lists s' l = bm_lists s l) \<and> bm_npages s' = bm_npages s \<and> os_script s' = os_script s \<and>
    (\<forall>l zs. l \<notin> {T1, FreeList} \<longrightarrow> clist s l zs \<longrightarrow> set zs \<inter> set (i # xs @ ys) = {} \<longrightarrow> clist s' l zs)"
proof -
  let ?st = "(TagValid OR IsTopList) + 1"
  obtain s5 where s5: "get_new_entry tag s = (Inr (i, True), s5)" "stat s5 i = ?st" "bm_pages s5 = bm_pages s" "entered tag xs ys i b rest s s5"
    using get_new_entry_free [OF room t f b c] by blast
  have e5: "ce_Tag (bm_entries s5 i) = tag" "ce_Buffer (bm_entries s5 i) = Some b" "ce_BlockId (bm_entries s5 i) = ce_BlockId (bm_entries s i)"
    using s5(4) by (simp_all add: entered_def)
  have ub: "\<not> bit ?st n" if "n \<in> {31, 28, 27, 26, 25}" for n
    using that new_entry_bits(2) by (auto simp: bit_simps)
  have rd: "readable s5 (ce_Tag (bm_entries s5 i)) p"
    using r readable_cong [of s5 s tag p] s5(4) by (simp add: entered_def)
  define s6 where "s6 = (set_State i (stat s5 i OR DataValid) s5)\<lparr>bm_pages := (bm_pages s5)(b := p)\<rparr>"
  have read: "CE_ReadBuffer i s5 = (Inr (), s6)"
    unfolding s6_def by (rule ReadBuffer_ok) (use s5(2) e5 ub rd in auto)
  have e6: "stat s6 i = new_state" "ce_Buffer (bm_entries s6 i) = Some b" "ce_Tag (bm_entries s6 i) = tag"
    "ce_BlockId (bm_entries s6 i) = ce_BlockId (bm_entries s i)"
    using s5(2) e5 by (simp_all add: s6_def new_state_def)
  have "take_bit 20 ?st \<noteq> 0" using pinned_nonzero [of "TagValid OR IsTopList"] new_entry_bits(1)
    by (simp add: mask_of_refcount)
  then have "take_bit 20 new_state \<noteq> 0" "bit new_state 25" by (simp_all add: new_state_def bit_simps)
  then have "makeBufferPin i s6 = (Inr \<lparr>bp_tag = tag, bp_buffer = \<lparr>bf_blockId = ce_BlockId (bm_entries s i) + 1\<rparr>\<rparr>, s6)"
    using e6 by (simp add: makeBufferPin_def cm_simps run_simps word_gt_0)
  then have "GetBuffer tag s = (Inr \<lparr>bp_tag = tag, bp_buffer = \<lparr>bf_blockId = ce_BlockId (bm_entries s i) + 1\<rparr>\<rparr>, s6)"
    using t(2) s5(1,2) e5 ub [of 25] read e6 \<open>bit new_state 25\<close>
    by (simp add: GetBuffer_def bindM_ok thenM_ok cm_simps run_simps)
  moreover have "clist s6 l zs = clist s5 l zs" "chain s6 l zs = chain s5 l zs" for l zs
    by (auto simp: s6_def clist_def chain_def elim!: dll_cong)
  moreover have "ce_core (bm_entries s6 j) = ce_core (bm_entries s5 j)" if "j \<noteq> i" for j
    using that by (simp add: s6_def)
  moreover have "bm_map s6 = bm_map s5" "bm_freeBuffers s6 = bm_freeBuffers s5" "bm_pages s6 = (bm_pages s)(b := p)" "os_files s6 = os_files s5"
    "bm_npages s6 = bm_npages s5" "os_script s6 = os_script s5" "bm_lists s6 = bm_lists s5"
    using s5(3) by (simp_all add: s6_def)
  ultimately show ?thesis using e6 s5(4) unfolding entered_def by (intro exI [of _ s6]) simp
qed

section \<open>Replacement and extension\<close>

lemma InsertMRU_linked: "\<not> unlinked s i \<Longrightarrow> InsertMRU l i s = (Inl (AssertFail ''entry->IsRouge()''), s)"
  by (simp add: InsertMRU_def unlinked_def cm_simps run_simps)

lemma tryVacate_linked:
  assumes st: "\<not> bit (stat s i) 31" "\<not> bit (stat s i) 27" "\<not> bit (stat s i) 26" "take_bit 20 (stat s i) = 0"
    and b: "ce_Buffer (bm_entries s i) = Some b" and l: "\<not> unlinked s i"
  shows "fst (tryVacateEntry i isFrequency s) = Inl (AssertFail ''entry->IsRouge()'')"
proof -
  have ne: "take_bit 20 (stat s i) \<noteq> BufferRefCountMask" using st(4) by (simp add: mask_of_refcount)
  have one: "take_bit 20 (stat s i + 1) = 1" using pin_state(1) [OF ne] st(4) by simp
  have bits: "bit (stat s i + 1) n = bit (stat s i) n" if "20 \<le> n" for n using pin_state(2) [OF ne that] .
  have "x OR Locked = x + Locked" if "\<not> bit x 31" for x :: u32
    by (rule disjunctive_add_eq_or [symmetric]) (use that in simp)
  then have lo: "(stat s i OR Locked) + 1 = (stat s i + 1) OR Locked"
    using st(1) bits [of 31] by (simp add: algebra_simps)
  have fl: "CE_FlushBuffer i (set_State i (stat s i + 1) s) = (Inr (), set_State i (stat s i + 1) s)"
    using st bits by (simp add: CE_FlushBuffer_def cm_simps startIO_run)
  have l': "\<not> (ce_Prev (bm_entries s i) = None \<and> ce_Next (bm_entries s i) = None)" using l by (simp add: unlinked_def IsRouge_def)
  show ?thesis
    using st ne bits fl b l' lo one
    by (simp add: tryVacateEntry_def bindM_ok thenM_ok cm_simps run_simps bit_simps Let_def buffer_of_def InsertMRU_linked unlinked_def IsRouge_def)
qed

text \<open>An entry of a list of several is linked.\<close>

lemma chain_linked: "chain s l (as @ i # bs) \<Longrightarrow> as @ bs \<noteq> [] \<Longrightarrow> \<not> unlinked s i"
  using dll_at [of "\<lambda>i. ce_Next (bm_entries s i)" "\<lambda>i. ce_Prev (bm_entries s i)" _ _ as i bs]
  by (auto simp: chain_def unlinked_def IsRouge_def)

lemma vacate_one_linked:
  assumes c: "chain s l (xs @ [i])" "xs \<noteq> []" and n: "bm_npages s \<noteq> 0"
    and st: "\<not> bit (stat s i) 31" "\<not> bit (stat s i) 27" "\<not> bit (stat s i) 26" "take_bit 20 (stat s i) = 0"
    and b: "ce_Buffer (bm_entries s i) \<noteq> None"
  shows "fst (vacate_one l isFrequency s) = Inl (AssertFail ''entry->IsRouge()'')"
proof -
  obtain r where r: "rounds s = Suc r" using n by (cases "rounds s") (auto simp: rounds_def unat_eq_zero)
  have tl: "cl_tail (bm_lists s l) = Some i" using c(1) dll_ends by (fastforce simp: chain_def)
  have "fst (tryVacateEntry i isFrequency s) = Inl (AssertFail ''entry->IsRouge()'')"
    using tryVacate_linked [OF st _ chain_linked [of s l xs i "[]"]] b c by auto
  then show ?thesis using r tl by (simp add: vacate_one_def for_each_reverse_def cm_simps run_simps)
qed

definition clean_state :: u32 where "clean_state = (TagValid OR IsTopList) OR DataValid"

lemma clean_bits:
  "take_bit 20 clean_state = 0" "\<not> bit clean_state 31" "\<not> bit clean_state 27" "\<not> bit clean_state 26" "new_state = clean_state + 1"
proof -
  show t: "take_bit 20 clean_state = 0" by (simp add: clean_state_def)
  show "\<not> bit clean_state 31" "\<not> bit clean_state 27" "\<not> bit clean_state 26" by (simp_all add: clean_state_def bit_simps)
  have "clean_state + 1 = clean_state OR 1"
    by (intro disjunctive_add_eq_or) (auto simp: clean_state_def word_bits_eq bit_simps)
  then show "new_state = clean_state + 1"
    by (simp add: new_state_def new_entry_bits(2)) (auto simp: clean_state_def word_bits_eq bit_simps)
qed

text \<open>A pin that is taken and given back, as a caller that only looks at the page does.\<close>

definition fetch :: "PageTag \<Rightarrow> ('x buffer_state_scheme, unit) cm" where
  "fetch tag = bindM (GetBuffer tag) BufferPin_destroy"

primrec fetch_all :: "PageTag list \<Rightarrow> ('x buffer_state_scheme, unit) cm" where
  "fetch_all [] = retM ()"
| "fetch_all (t # ts) = thenM (fetch t) (fetch_all ts)"

text \<open>A manager for \<open>n\<close> pages into which \<open>k\<close> pages (\<open>ts\<close>) have been read once.\<close>

definition filled :: "nat \<Rightarrow> nat \<Rightarrow> PageTag list \<Rightarrow> 'x buffer_state_scheme \<Rightarrow> bool" where
  "filled n k ts s \<longleftrightarrow> 0 < n \<and> 2 * n < 2 ^ 32 - 1 \<and> k \<le> n \<and> bm_npages s = word_of_nat n \<and>
     clist s T1 (rev [0..<k]) \<and> chain s FreeList (rev [k..<2 * n]) \<and> cl_size (bm_lists s FreeList) = word_of_nat (2 * (n - k)) \<and>
     cl_size (bm_lists s B1) = 0 \<and> cl_size (bm_lists s T2) = 0 \<and> cl_size (bm_lists s B2) = 0 \<and> length (bm_freeBuffers s) = n - k \<and>
     (\<forall>j. ce_BlockId (bm_entries s j) = j \<and> (if j < k then stat s j = clean_state \<and> ce_Buffer (bm_entries s j) \<noteq> None
        else stat s j = 0 \<and> ce_Buffer (bm_entries s j) = None)) \<and>
     ht_wf (bm_map s) \<and> dom (ht_Get (bm_map s)) \<subseteq> set ts"

lemma filled_init:
  assumes "0 < n" "2 * n < 2 ^ 32 - 1"
  shows "\<exists>s'. BufferManager_init hash (word_of_nat n) s = (Inr (), s') \<and> filled n 0 [] s' \<and> os_files s' = os_files s \<and> os_script s' = os_script s"
proof -
  have n: "unat (word_of_nat n :: u32) = n" using assms by (simp add: unat_of_nat)
  obtain s' where s': "BufferManager_init hash (word_of_nat n) s = (Inr (), s')" "bm_npages s' = word_of_nat n"
    "clist s' FreeList (rev [0..<2 * n])" "\<forall>l. l \<noteq> FreeList \<longrightarrow> clist s' l []"
    "\<forall>i. ce_core (bm_entries s' i) = ce_core (blank_entry i)" "bm_freeBuffers s' = rev [0..<n]"
    "ht_wf (bm_map s')" "\<forall>t. ht_Get (bm_map s') t = None" "os_files s' = os_files s" "os_script s' = os_script s"
    using BufferManager_init_ok [of "word_of_nat n" hash s] assms n by auto
  have "cl_size (bm_lists s' l) = 0" if "l \<noteq> FreeList" for l using s'(4) that clist_empty_size by blast
  then have "filled n 0 [] s'" unfolding filled_def
    using s' assms by (auto simp: ce_core_def blank_entry_def clist_def)
  with s' show ?thesis by blast
qed

lemma fetch_filled:
  assumes f: "filled n k ts s" and k: "k < n" and t: "tag \<notin> set ts" and r: "readable s tag p"
  shows "\<exists>s'. fetch tag s = (Inr (), s') \<and> filled n (Suc k) (tag # ts) s' \<and> os_files s' = os_files s \<and> os_script s' = os_script s"
proof -
  let ?xs = "rev [Suc k..<2 * n]"
  have up: "[k..<2 * n] = k # [Suc k..<2 * n]" using k by (simp add: upt_conv_Cons)
  have nu: "unat (word_of_nat n :: u32) = n" "unat (word_of_nat k :: u32) = k" "unat (word_of_nat (2 * (n - k)) :: u32) = 2 * (n - k)"
  proof -
    have "n < 2 ^ LENGTH(32)" "k < 2 ^ LENGTH(32)" "2 * (n - k) < 2 ^ LENGTH(32)" using f k by (auto simp: filled_def)
    then show "unat (word_of_nat n :: u32) = n" "unat (word_of_nat k :: u32) = k" "unat (word_of_nat (2 * (n - k)) :: u32) = 2 * (n - k)"
      using unat_of_nat_small [where 'a = 32] by blast+
  qed
  have "cl_size (bm_lists s T1) = word_of_nat k" using f by (simp add: filled_def clist_def)
  then have room: "has_room s" using f k nu by (simp add: has_room_def filled_def Let_def word_le_nat_alt)
  have "(word_of_nat (2 * (n - k)) :: u32) > 0" "(word_of_nat (2 * (n - k)) :: u32) \<noteq> 1"
    using nu(3) k by (auto simp: word_gt_0 simp del: of_nat_mult dest!: arg_cong [where f = unat])
  then have ft: "free_tail s ?xs k"
    using f up k nu by (auto simp: free_tail_def filled_def simp del: of_nat_mult)
  obtain b rest where b: "bm_freeBuffers s = b # rest" "length rest = n - Suc k"
    using f k by (cases "bm_freeBuffers s") (auto simp: filled_def)
  have none: "ht_Get (bm_map s) tag = None" "ht_wf (bm_map s)" using f t by (auto simp: filled_def)
  have cT: "clist s T1 (rev [0..<k])" and id: "\<And>j. ce_BlockId (bm_entries s j) = j" using f by (auto simp: filled_def)
  obtain s1 where s1: "GetBuffer tag s = (Inr \<lparr>bp_tag = tag, bp_buffer = \<lparr>bf_blockId = k + 1\<rparr>\<rparr>, s1)"
    "clist s1 T1 (k # rev [0..<k])" "chain s1 FreeList ?xs" "ht_wf (bm_map s1)" "ht_Get (bm_map s1) = (ht_Get (bm_map s))(tag \<mapsto> k)"
    "stat s1 k = new_state" "ce_Buffer (bm_entries s1 k) = Some b" "bm_freeBuffers s1 = rest" "os_files s1 = os_files s"
    "\<forall>j. j \<noteq> k \<longrightarrow> ce_core (bm_entries s1 j) = ce_core (bm_entries s j)" "ce_BlockId (bm_entries s1 k) = k"
    "cl_size (bm_lists s1 FreeList) = cl_size (bm_lists s FreeList) - 2"
    "\<forall>l. l \<notin> {T1, FreeList} \<longrightarrow> bm_lists s1 l = bm_lists s l" "bm_npages s1 = bm_npages s" "os_script s1 = os_script s"
    using GetBuffer_miss [OF room none(2,1) ft b(1) cT _ _ r] k f id by (auto simp: filled_def)
  let ?s2 = "set_State k clean_state s1"
  have "take_bit 20 new_state \<noteq> 0"
    using pinned_nonzero [of clean_state] clean_bits by (simp add: mask_of_refcount)
  moreover have "new_state - 1 = clean_state" by (simp add: clean_bits(5))
  ultimately have "BufferPin_destroy \<lparr>bp_tag = tag, bp_buffer = \<lparr>bf_blockId = k + 1\<rparr>\<rparr> s1 = (Inr (), ?s2)"
    using s1(6) by (simp add: BufferPin_destroy_def BufferPin_IsValid_def Buffer_IsValid_def ReturnBuffer_def cm_simps run_simps)
  then have "fetch tag s = (Inr (), ?s2)" using s1(1) by (simp add: fetch_def bindM_ok)
  moreover have "(word_of_nat (2 * (n - k)) :: u32) - 2 = word_of_nat (2 * (n - Suc k))"
  proof -
    have "2 * (n - k) = 2 * (n - Suc k) + 2" using k by simp
    then show ?thesis by (simp only: of_nat_add) simp
  qed
  moreover have "\<forall>j. j \<noteq> k \<longrightarrow> ce_BlockId (bm_entries s1 j) = j \<and> stat s1 j = stat s j \<and> ce_Buffer (bm_entries s1 j) = ce_Buffer (bm_entries s j)"
    using s1(10) id by (simp add: ce_core_def)
  moreover have "filled n (Suc k) (tag # ts) ?s2"
    unfolding filled_def
  proof (intro conjI)
    show "clist ?s2 T1 (rev [0..<Suc k])" using s1(2) by simp
    show "chain ?s2 FreeList (rev [Suc k..<2 * n])" using s1(3) by (simp only: chain_set_State)
    show "cl_size (bm_lists ?s2 FreeList) = word_of_nat (2 * (n - Suc k))"
      using s1(12) f calculation(2) by (simp add: filled_def del: of_nat_mult)
    show "dom (ht_Get (bm_map ?s2)) \<subseteq> set (tag # ts)" using f s1(5) by (auto simp: filled_def)
    show "\<forall>j. ce_BlockId (bm_entries ?s2 j) = j \<and> (if j < Suc k then stat ?s2 j = clean_state \<and> ce_Buffer (bm_entries ?s2 j) \<noteq> None
        else stat ?s2 j = 0 \<and> ce_Buffer (bm_entries ?s2 j) = None)"
    proof
      fix j
      have "if j < k then stat s j = clean_state \<and> ce_Buffer (bm_entries s j) \<noteq> None else stat s j = 0 \<and> ce_Buffer (bm_entries s j) = None"
        using f unfolding filled_def by blast
      then show "ce_BlockId (bm_entries ?s2 j) = j \<and> (if j < Suc k then stat ?s2 j = clean_state \<and> ce_Buffer (bm_entries ?s2 j) \<noteq> None
        else stat ?s2 j = 0 \<and> ce_Buffer (bm_entries ?s2 j) = None)"
        using s1(7,11) calculation(3) by (cases "j = k") (simp_all add: less_Suc_eq split: if_splits)
    qed
  qed (use f s1 k b in \<open>simp_all add: filled_def\<close>)
  ultimately show ?thesis using s1 by auto
qed

lemma fetch_all_filled:
  assumes "filled n k ts s" "k + length us = n" "distinct us" "set us \<inter> set ts = {}" "\<forall>t\<in>set us. \<exists>p. readable s t p"
  shows "\<exists>s'. fetch_all us s = (Inr (), s') \<and> filled n n (rev us @ ts) s' \<and> os_files s' = os_files s \<and> os_script s' = os_script s"
  using assms
proof (induction us arbitrary: k ts s)
  case Nil
  then show ?case by (simp add: cm_simps)
next
  case (Cons u us)
  then obtain p where p: "readable s u p" by auto
  obtain s1 where s1: "fetch u s = (Inr (), s1)" "filled n (Suc k) (u # ts) s1" "os_files s1 = os_files s" "os_script s1 = os_script s"
    using fetch_filled [OF Cons.prems(1) _ _ p] Cons.prems by auto
  have "\<forall>t\<in>set us. \<exists>p. readable s1 t p" using Cons.prems(5) s1(3,4) readable_cong [of s1 s] by auto
  then obtain s2 where "fetch_all us s1 = (Inr (), s2)" "filled n n (rev us @ u # ts) s2" "os_files s2 = os_files s1" "os_script s2 = os_script s1"
    using Cons.IH [OF s1(2)] Cons.prems by auto
  with s1 show ?case by (simp add: thenM_ok)
qed

lemma full_aborts:
  assumes f: "filled n n ts s" and n: "2 \<le> n" and t: "tag \<notin> set ts"
  shows "fst (GetBuffer tag s) = Inl (AssertFail ''entry->IsRouge()'')"
proof -
  have c: "clist s T1 (rev [0..<n])" and np: "bm_npages s = word_of_nat n" and sz: "cl_size (bm_lists s B1) = 0"
    using f by (simp_all add: filled_def)
  have r: "rev [0..<n] = rev [1..<n] @ [0]" using n by (simp add: upt_conv_Cons)
  have sT: "cl_size (bm_lists s T1) = bm_npages s" using c np by (simp add: clist_def)
  have ne: "bm_npages s \<noteq> 0" using np f n unat_of_nat_small [of n, where 'a = 32] by (auto simp: filled_def)
  have "fst (vacate_one T1 False s) = Inl (AssertFail ''entry->IsRouge()'')"
  proof (rule vacate_one_linked)
    show "chain s T1 (rev [1..<n] @ [0])" "rev [1..<n] \<noteq> []" using c r n by (simp_all add: clist_def)
    have "stat s 0 = clean_state" "ce_Buffer (bm_entries s 0) \<noteq> None" using f n by (auto simp: filled_def)
    then show "\<not> bit (stat s 0) 31" "\<not> bit (stat s 0) 27" "\<not> bit (stat s 0) 26" "take_bit 20 (stat s 0) = 0" "ce_Buffer (bm_entries s 0) \<noteq> None"
      using clean_bits by simp_all
  qed (rule ne)
  then have "fst (preinsertCleanup s) = Inl (AssertFail ''entry->IsRouge()'')"
    using sT sz by (simp add: preinsertCleanup_def cm_simps run_simps Let_def)
  moreover have "ht_Get (bm_map s) tag = None" using f t by (auto simp: filled_def)
  ultimately show ?thesis by (simp add: GetBuffer_def get_new_entry_def cm_simps)
qed

section \<open>Ghost entries\<close>

definition no_buffer :: "nat \<Rightarrow> 'x buffer_state_scheme \<Rightarrow> bool" where
  "no_buffer i s \<longleftrightarrow> ce_Buffer (bm_entries s i) = None"

lemma keeps_upd_entry: "(\<And>e. ce_Buffer e = None \<Longrightarrow> ce_Buffer (f e) = None) \<Longrightarrow> keeps (no_buffer i) (upd_entry j f)"
  by (simp add: keeps_def no_buffer_def run_simps)

lemma keeps_upd_list [keep_intros]: "keeps (no_buffer i) (upd_list l f)"
  by (simp add: keeps_def no_buffer_def run_simps)

lemma keeps_outside [keep_intros]:
  "keeps (no_buffer i) (set_page b p)" "keeps (no_buffer i) (map_Remove tag)" "keeps (no_buffer i) (free_Add b)"
  "keeps (no_buffer i) (updM (\<lambda>s. s\<lparr>bm_P := q\<rparr>))"
  by (auto simp: keeps_def no_buffer_def run_simps map_Remove_def free_Add_def cm_simps split: prod.splits)

lemma keeps_reads [keep_intros]:
  "keeps (no_buffer i) (entry j)" "keeps (no_buffer i) (state_of j)" "keeps (no_buffer i) (list_of l)" "keeps (no_buffer i) (list_size l)"
  by (simp_all add: keeps_def run_simps)

lemma keeps_upd_state [keep_intros]: "keeps (no_buffer i) (upd_state j f)"
  unfolding upd_state_def by (rule keeps_upd_entry) simp

lemma keeps_next_outcome [keep_intros]: "keeps (no_buffer i) next_outcome"
  by (auto simp: keeps_def next_outcome_def no_buffer_def split: list.splits)

lemma keeps_os [keep_intros]:
  "keeps (no_buffer i) (updM (\<lambda>s. put_file f (c s) s))" "keeps (no_buffer i) (updM (put_file f d))" "keeps (no_buffer i) (updM (\<lambda>s. s\<lparr>os_synced := y s\<rparr>))"
  by (simp_all add: keeps_def no_buffer_def put_file_def cm_simps)

lemma keeps_files [keep_intros]:
  "keeps (no_buffer i) (RelFile_Open r)" "keeps (no_buffer i) (RelFile_Write f bs p)" "keeps (no_buffer i) (RelFile_Fsync f)"
  unfolding RelFile_Open_def RelFile_Write_def RelFile_Fsync_def File_Open_def File_Write_def File_Fsync_def throw_error_def
  by (intro keep_intros)+


lemma keeps_entry_ops [keep_intros]:
  "keeps (no_buffer i) (CE_Pin j)" "keeps (no_buffer i) (CE_Unpin j)" "keeps (no_buffer i) (CE_Lock j)" "keeps (no_buffer i) (CE_Unlock j)"
  unfolding CE_Pin_def CE_Unpin_def CE_Lock_def CE_Unlock_def by (intro keep_intros)+

lemma keeps_io_ops [keep_intros]:
  "keeps (no_buffer i) (TerminateBufferIO j a b)" "keeps (no_buffer i) (ShouldStartIO j inp)" "keeps (no_buffer i) (buffer_of j)"
  unfolding TerminateBufferIO_def ShouldStartIO_def buffer_of_def by (intro keep_intros)+

lemma keeps_flush [keep_intros]: "keeps (no_buffer i) (CE_FlushBuffer j)"
  unfolding CE_FlushBuffer_def by (intro keep_intros)

lemma keeps_insert [keep_intros]: "keeps (no_buffer i) (InsertMRU l j)"
  unfolding InsertMRU_def by (intro keep_intros keeps_upd_entry) simp_all

lemma keeps_remove [keep_intros]: "keeps (no_buffer i) (RemoveEntry l j)"
  unfolding RemoveEntry_def by (intro keep_intros keeps_upd_entry) simp_all

lemma keeps_rfor: "(\<And>j. keeps P (body j)) \<Longrightarrow> (\<And>j. keeps P (entry j)) \<Longrightarrow> keeps P (rfor n body x)"
  by (induction n body x rule: rfor.induct) (auto intro!: keep_intros)

lemma keeps_vacate [keep_intros]: "keeps (no_buffer i) (tryVacateEntry j isFrequency)"
  unfolding tryVacateEntry_def Let_def by (intro keep_intros keeps_upd_entry) simp_all

lemma keeps_adjust [keep_intros]: "keeps (no_buffer i) (adjust p fromB2)"
  unfolding adjust_def vacate_one_def for_each_reverse_def by (intro keep_intros keeps_rfor)

lemma keeps_ghost [keep_intros]: "keeps (no_buffer i) (handleGhostHit j isFrequency)"
  unfolding handleGhostHit_def Let_def by (intro keep_intros)

lemma GetBuffer_ghost:
  assumes t: "ht_Get (bm_map s) tag = Some i" and b: "no_buffer i s"
    and st: "take_bit 20 (stat s i) \<noteq> BufferRefCountMask" "\<not> bit (stat s i) 31" "\<not> bit (stat s i) 29"
  shows "\<exists>e. fst (GetBuffer tag s) = Inl e"
proof -
  let ?s1 = "set_State i (stat s i + 1) s"
  have b1: "no_buffer i ?s1" using b by (simp add: no_buffer_def)
  obtain r s2 where h: "handleGhostHit i (bit (stat s i) 28) ?s1 = (r, s2)" by (cases "handleGhostHit i (bit (stat s i) 28) ?s1")
  then have "no_buffer i s2" using keepsD [OF keeps_ghost h b1] by simp
  then show ?thesis using h t st
    by (cases r) (simp_all add: GetBuffer_def cm_simps run_simps bit_simps no_buffer_def)
qed

lemma ghost_hit_divides_by_zero:
  assumes "cl_size (bm_lists s B1) = 0" "cl_size (bm_lists s B2) > 0"
  shows "handleGhostHit i True s = (Inl (Undefined ''division by zero''), s)"
  using assms by (simp add: handleGhostHit_def cm_simps run_simps divU_def word_gt_0)

section \<open>Extending a relation\<close>

text \<open>What an extension finds: a free entry and buffer, room, and a page number nobody has cached.\<close>

definition can_extend :: "Oid \<Rightarrow> nat list \<Rightarrow> nat \<Rightarrow> nat \<Rightarrow> nat list \<Rightarrow> byte list \<Rightarrow> 'x buffer_state_scheme \<Rightarrow> bool" where
  "can_extend relid xs i b rest c s \<longleftrightarrow> Oid_IsValid relid \<and> has_room s \<and> free_tail s xs i \<and> ce_BlockId (bm_entries s i) = i \<and>
     bm_freeBuffers s = b # rest \<and> os_files s (rel_path relid) = Some c \<and> ht_wf (bm_map s) \<and>
     ht_Get (bm_map s) \<lparr>Relid = relid, PageNo = word_of_int (int (length c) div int PageSize)\<rparr> = None"

text \<open>The prefix of an extension up to the first insertion into \<open>T1\<close>: the state it starts from.\<close>

lemma extend_prefix:
  assumes e: "can_extend relid xs i b rest c s" and T: "clist s T1 ys" "length ys < 2 ^ 32 - 2" "set ys \<inter> set (xs @ [i]) = {}"
  defines "tag \<equiv> \<lparr>Relid = relid, PageNo = word_of_int (int (length c) div int PageSize)\<rparr>"
  shows "\<exists>s1 h. evictCacheEntry s = (Inr (Some i), s1) \<and> chain s1 FreeList xs \<and> unlinked s1 i \<and> clist s1 T1 ys \<and> same_rest s s1 \<and>
    stat s1 i = 0 \<and> ce_BlockId (bm_entries s1 i) = i \<and> ht_Insert tag i (bm_map s1) = (i, True, h) \<and> ht_wf h \<and>
    ht_Get h = (ht_Get (bm_map s))(tag \<mapsto> i) \<and> list_step {FreeList} (set (xs @ [i])) s s1"
proof -
  obtain s1 where s1: "evictCacheEntry s = (Inr (Some i), s1)" "chain s1 FreeList xs" "unlinked s1 i"
    "list_step {FreeList} (set (xs @ [i])) s s1" using evict_free e by (fastforce simp: can_extend_def)
  note rest1 = same_rest_fields [OF list_step_rest [OF s1(4)]] and core1 = list_step_core [OF s1(4), of i]
  have t1: "ht_wf (bm_map s1)" "ht_Get (bm_map s1) tag = None" using e rest1 by (simp_all add: can_extend_def tag_def)
  moreover have "clist s1 T1 ys" using clist_frame [OF s1(4) T(1)] T(3) by simp
  ultimately show ?thesis using s1 page_table.ins_new [OF t1, of i] e core1 rest1 list_step_rest [OF s1(4)]
    by (auto simp: can_extend_def free_tail_def)
qed

lemma extend_new_linked:
  assumes "stat s i = 0" "unlinked s i" "bm_freeBuffers s = b # rest" "clist s T1 ys" "i \<notin> set ys" "ys \<noteq> []" "length ys < 2 ^ 32 - 1"
  shows "fst (extend_new tag i s) = Inl (AssertFail ''entry->IsRouge()'')"
proof -
  define s2 where "s2 = s\<lparr>bm_freeBuffers := rest, bm_entries := (bm_entries s)(i := (bm_entries s i)\<lparr>ce_Tag := tag, ce_State := TagValid + 1, ce_Buffer := Some b\<rparr>)\<rparr>"
  have "clist s2 T1 ys" using assms(4) by (auto simp: s2_def clist_def chain_def elim!: dll_cong)
  moreover have "unlinked s2 i" using assms(2) by (simp add: s2_def unlinked_def IsRouge_def)
  ultimately obtain s3 where s3: "InsertMRU T1 i s2 = (Inr (), s3)" "clist s3 T1 (i # ys)" "list_step {T1} (insert i (set ys)) s2 s3"
    using InsertMRU_ok [of s2 T1 ys i] assms by auto
  have tv: "TagValid + 1 = TagValid OR 1" by (rule disjunctive_add_eq_or) (auto simp: word_bits_eq bit_simps)
  have st3: "stat s3 i = TagValid OR 1" using list_step_core [OF s3(3), of i] by (simp add: s2_def tv)
  have "\<not> unlinked s3 i" using chain_linked [of s3 T1 "[]" i ys] s3(2) assms(6) by (simp add: clist_def)
  then have lk: "InsertMRU T1 i (set_State i st s3) = (Inl (AssertFail ''entry->IsRouge()''), set_State i st s3)" for st
    using InsertMRU_linked [of "set_State i st s3" i T1] by simp
  show ?thesis using assms s3(1) [unfolded s2_def] st3 lk
    by (simp add: extend_new_def cm_simps run_simps free_Get_def mask_of_refcount tv bit_simps)
qed

lemma extend_aborts:
  assumes e: "can_extend relid xs i b rest c s" and T: "clist s T1 ys" "length ys < 2 ^ 32 - 2" "set ys \<inter> set (xs @ [i]) = {}" "ys \<noteq> []"
  shows "fst (ExtendRelation relid s) = Inl (AssertFail ''entry->IsRouge()'')"
proof -
  let ?tag = "\<lparr>Relid = relid, PageNo = word_of_int (int (length c) div int PageSize)\<rparr>"
  obtain s1 h where s1: "evictCacheEntry s = (Inr (Some i), s1)" "unlinked s1 i" "clist s1 T1 ys" "same_rest s s1"
    "stat s1 i = 0" "ce_BlockId (bm_entries s1 i) = i" "ht_Insert ?tag i (bm_map s1) = (i, True, h)"
    using extend_prefix [OF e T(1-3)] by blast
  note rest1 = same_rest_fields [OF s1(4)]
  let ?s2 = "s1\<lparr>bm_map := h\<rparr>"
  have c2: "clist ?s2 T1 ys" "unlinked ?s2 i" using s1(2,3) by (simp_all add: clist_def chain_def unlinked_def)
  have f: "os_files s1 (rel_path relid) = Some c" "bm_freeBuffers s1 = b # rest" using e rest1 by (simp_all add: can_extend_def)
  then have "fst (extend_new ?tag i ?s2) = Inl (AssertFail ''entry->IsRouge()'')"
    using extend_new_linked [OF _ c2(2) _ c2(1), of b rest] s1(5) T by auto
  then show ?thesis
    using e s1(1,6,7) f preinsertCleanup_room [of s]
    by (simp add: ExtendRelation_def can_extend_def cm_simps run_simps RelFile_Open_def File_Open_ok
        RelFile_GetPagesCount_def File_Size_def file_of_def map_Insert_def Let_def)
qed

lemma extend_new_loop:
  assumes "stat s i = 0" "unlinked s i" "bm_freeBuffers s = b # rest" "clist s T1 []"
  shows "extend_new tag i s = (Inr i, s\<lparr>bm_freeBuffers := rest,
    bm_lists := (bm_lists s)(T1 := \<lparr>cl_head = Some i, cl_tail = Some i, cl_size = 2\<rparr>),
    bm_entries := (bm_entries s)(i := (bm_entries s i)\<lparr>ce_Tag := tag, ce_Buffer := Some b, ce_Prev := Some i, ce_Next := Some i,
      ce_State := (TagValid OR 1 OR IsTopList) OR IoInProgress\<rparr>)\<rparr>)"
proof -
  have tv: "TagValid + 1 = TagValid OR 1" by (rule disjunctive_add_eq_or) (auto simp: word_bits_eq bit_simps)
  have q: "bm_lists s T1 = \<lparr>cl_head = None, cl_tail = None, cl_size = 0\<rparr>"
    using assms(4) dll_ends [of _ _ _ _ "[]"] by (cases "bm_lists s T1") (fastforce simp: clist_def chain_def)
  have w: "((((TagValid OR 1) OR IsTopList) OR Locked) OR IsTopList) AND NOT Locked = TagValid OR 1 OR IsTopList"
    by (auto simp: word_bits_eq bit_simps)
  show ?thesis
    using assms q
    by (simp add: extend_new_def unlinked_def IsRouge_def InsertMRU_def cm_simps run_simps free_Get_def mask_of_refcount tv w startIO_run bit_simps)
qed

lemma extend_first:
  assumes e: "can_extend relid xs i b rest c s" and T: "clist s T1 []"
    and io: "os_script s = []" "length c = PageSize * k" "k < 524288"
  shows "\<exists>s'. ExtendRelation relid s = (Inr \<lparr>bp_tag = \<lparr>Relid = relid, PageNo = word_of_nat k\<rparr>, bp_buffer = \<lparr>bf_blockId = i + 1\<rparr>\<rparr>, s') \<and>
    os_files s' (rel_path relid) = Some (c @ replicate PageSize 0) \<and> bm_pages s' b = replicate PageSize 0 \<and>
    ce_Next (bm_entries s' i) = Some i \<and> ce_Prev (bm_entries s' i) = Some i \<and>
    bm_lists s' T1 = \<lparr>cl_head = Some i, cl_tail = Some i, cl_size = 2\<rparr>"
proof -
  have pn: "word_of_int (int (length c) div int PageSize) = (word_of_nat k :: PageNumber)"
    using io(2) by (simp add: PageSize_def)
  let ?tag = "\<lparr>Relid = relid, PageNo = word_of_nat k\<rparr>"
  obtain s1 h where s1: "evictCacheEntry s = (Inr (Some i), s1)" "unlinked s1 i" "clist s1 T1 []" "same_rest s s1"
    "stat s1 i = 0" "ce_BlockId (bm_entries s1 i) = i" "ht_Insert ?tag i (bm_map s1) = (i, True, h)"
    using extend_prefix [OF e T] pn by auto
  note rest1 = same_rest_fields [OF s1(4)]
  let ?s2 = "s1\<lparr>bm_map := h\<rparr>"
  have c2: "clist ?s2 T1 []" "unlinked ?s2 i" using s1(2,3) by (simp_all add: clist_def chain_def unlinked_def)
  have f: "os_files s1 (rel_path relid) = Some c" "bm_freeBuffers s1 = b # rest" using e rest1 by (simp_all add: can_extend_def)
  define s3 where "s3 = snd (extend_new ?tag i ?s2)"
  have n: "extend_new ?tag i ?s2 = (Inr i, s3)" and e3: "bm_entries s3 i = (bm_entries s1 i)\<lparr>ce_Tag := ?tag, ce_Buffer := Some b, ce_Prev := Some i, ce_Next := Some i, ce_State := (TagValid OR 1 OR IsTopList) OR IoInProgress\<rparr>"
    and l3: "bm_lists s3 T1 = \<lparr>cl_head = Some i, cl_tail = Some i, cl_size = 2\<rparr>" and f3: "os_files s3 = os_files s1" "os_script s3 = []"
    using extend_new_loop [OF _ c2(2) _ c2(1), of b rest ?tag] s1(5) f rest1 io by (auto simp: s3_def)
  have un: "unat (word_of_nat k :: PageNumber) = k" using io(3) by (simp add: unat_of_nat)
  define s4 where "s4 = put_file (rel_path relid) (c @ replicate PageSize 0) s3"
  have "RelFile_Extend (rel_path relid) (word_of_nat k) s3 = (Inr (), s4)"
    using f3 f io un PageNumber_small_valid [of "word_of_nat k"]
    by (simp add: RelFile_Extend_def RelFile_Write_def File_Write_ok write_offset_small s4_def file_of_def file_pwrite_append nat_mult_distrib)
  moreover have e4: "bm_entries s4 = bm_entries s3" "bm_lists s4 = bm_lists s3" by (simp_all add: s4_def put_file_def)
  define st where "st = TagValid OR 1 OR IsTopList OR DataValid"
  have stb: "bit st 25" "take_bit 20 st \<noteq> 0"
  proof -
    show "bit st 25" by (simp add: st_def bit_simps)
    have "bit (take_bit 20 st) 0" by (simp add: st_def bit_simps)
    then show "take_bit 20 st \<noteq> 0" by auto
  qed
  have "(((TagValid OR 1 OR IsTopList) OR IoInProgress) AND NOT (IoInProgress OR IoErrorFlag)) AND NOT 0 OR DataValid = st"
    by (auto simp: word_bits_eq bit_simps st_def)
  then have "TerminateBufferIO i DataValid 0 (s4\<lparr>bm_pages := (bm_pages s4)(b := replicate PageSize 0)\<rparr>) =
      (Inr (), (set_State i st s4)\<lparr>bm_pages := (bm_pages s4)(b := replicate PageSize 0)\<rparr>)"
    using terminate_run [of "s4\<lparr>bm_pages := (bm_pages s4)(b := replicate PageSize 0)\<rparr>" i DataValid 0] e3 e4 by (simp add: bit_simps)
  ultimately have "extend_io (rel_path relid) (word_of_nat k) i s3 =
      (Inr \<lparr>bp_tag = ?tag, bp_buffer = \<lparr>bf_blockId = i + 1\<rparr>\<rparr>, (set_State i st s4)\<lparr>bm_pages := (bm_pages s4)(b := replicate PageSize 0)\<rparr>)"
    using e3 e4 stb s1(6)
    by (simp add: extend_io_def buffer_of_def onErrorM_def cm_simps run_simps makeBufferPin_def word_gt_0)
  then have "ExtendRelation relid s = (Inr \<lparr>bp_tag = ?tag, bp_buffer = \<lparr>bf_blockId = i + 1\<rparr>\<rparr>, (set_State i st s4)\<lparr>bm_pages := (bm_pages s4)(b := replicate PageSize 0)\<rparr>)"
    using e s1(1,6,7) f n pn preinsertCleanup_room [of s]
    by (simp add: ExtendRelation_def can_extend_def cm_simps run_simps RelFile_Open_def File_Open_ok
        RelFile_GetPagesCount_def File_Size_def file_of_def map_Insert_def Let_def)
  moreover have "os_files s4 (rel_path relid) = Some (c @ replicate PageSize 0)" by (simp add: s4_def put_file_def)
  ultimately show ?thesis using e3 e4 l3 by auto
qed

section \<open>Properties\<close>

text \<open>The system before its first request: relation 1 with three pages, four buffers.\<close>

definition example_buffers :: buffer_state where
  "example_buffers = \<lparr>os_files = [''data/1'' \<mapsto> replicate (3 * PageSize) 7], os_synced = Map.empty, os_script = [],
     ws_wal = \<lparr>wal_path = ''wal'', wal_end = 0, wal_flushed = 0\<rparr>, us_undo = us_undo example_undo, us_registry = us_registry example_undo,
     bm_map = \<lparr>ht_hash = (\<lambda>t. unat (PageNo t)), ht_maps = [Map.empty]\<rparr>, bm_npages = 0, bm_entries = blank_entry,
     bm_pages = (\<lambda>_. []), bm_freeBuffers = [], bm_lists = empty_lists, bm_P = 0\<rparr>"

lemma example_readable:
  "os_files s = os_files example_buffers \<Longrightarrow> os_script s = [] \<Longrightarrow> unat k < 3 \<Longrightarrow>
    readable s \<lparr>Relid = 1, PageNo = k\<rparr> (replicate PageSize 7)"
proof -
  assume s: "os_files s = os_files example_buffers" "os_script s = []" "unat k < 3"
  then have "(unat k + 1) * PageSize \<le> 3 * PageSize" by (intro mult_le_mono1) simp
  moreover have "peek (replicate (3 * PageSize) 7) (PageSize * unat k) PageSize = replicate PageSize (7::byte)"
    using s(3) by (simp add: peek_def PageSize_def min_def)
  moreover note rel_path_1
  ultimately show ?thesis
    using s PageNumber_small_valid [of k] by (simp add: readable_def example_buffers_def)
qed

lemma example_can_extend:
  "\<exists>s0. BufferManager_init (\<lambda>t. unat (PageNo t)) 4 example_buffers = (Inr (), s0) \<and> (\<forall>l. l \<noteq> FreeList \<longrightarrow> clist s0 l []) \<and> (\<forall>t. ht_Get (bm_map s0) t = None) \<and>
    os_files s0 = os_files example_buffers \<and> os_script s0 = [] \<and> can_extend 1 (rev [1..<8]) 0 3 (rev [0..<3]) (replicate (3 * PageSize) 7) s0"
proof -
  obtain s0 where s0: "BufferManager_init (\<lambda>t. unat (PageNo t)) 4 example_buffers = (Inr (), s0)" "bm_npages s0 = 4"
    "clist s0 FreeList (rev [0..<8])" "\<forall>l. l \<noteq> FreeList \<longrightarrow> clist s0 l []" "\<forall>i. ce_core (bm_entries s0 i) = ce_core (blank_entry i)"
    "bm_freeBuffers s0 = rev [0..<4]" "ht_wf (bm_map s0)" "\<forall>t. ht_Get (bm_map s0) t = None" "os_files s0 = os_files example_buffers" "os_script s0 = os_script example_buffers"
    using BufferManager_init_ok [of 4 "\<lambda>t. unat (PageNo t)" example_buffers] by auto
  have sz: "cl_size (bm_lists s0 l) = 0" if "l \<noteq> FreeList" for l using s0(4) that clist_empty_size by blast
  have "rev [0..<8] = rev [1..<8] @ [0::nat]" by (simp add: upt_conv_Cons)
  then have "free_tail s0 (rev [1..<8]) 0"
    using s0(2,3,5) by (simp add: free_tail_def clist_def ce_core_def blank_entry_def upt_conv_Cons)
  moreover have "has_room s0" using sz s0(2) by (simp add: has_room_def)
  moreover have "ce_BlockId (bm_entries s0 0) = 0" using s0(5) by (simp add: ce_core_def blank_entry_def)
  moreover have "bm_freeBuffers s0 = 3 # rev [0..<3]" using s0(6) by (simp add: upt_conv_Cons)
  moreover note rel_path_1
  ultimately have "can_extend 1 (rev [1..<8]) 0 3 (rev [0..<3]) (replicate (3 * PageSize) 7) s0"
    using s0(7-9) by (simp add: can_extend_def example_buffers_def Oid_IsValid_def Oid_Invalid_def)
  then show ?thesis using s0 by (auto simp: example_buffers_def)
qed

text \<open>
  C20. While the cache has room, asking for a page that is not cached reads it from the relation file
  into the next free buffer, enters it in the page table, puts its entry at the most recent end of
  \<open>T1\<close> and returns a pin on it; asking for the same page again returns the same pin without touching
  the page, moves the entry to the most recent end of \<open>T2\<close>, leaves the order of the other entries as
  it was, and counts a second reference. Both pins read the bytes of the file.
\<close>

theorem getbuffer_miss_then_hit:
  assumes room: "has_room s" and t: "ht_wf (bm_map s)" "ht_Get (bm_map s) tag = None"
    and f: "free_tail s xs i" "ce_BlockId (bm_entries s i) = i" and b: "bm_freeBuffers s = b # rest"
    and c: "clist s T1 ys" "length ys < 2 ^ 32 - 1" "set ys \<inter> set (xs @ [i]) = {}"
    and d: "clist s T2 zs" "length zs < 2 ^ 32 - 1" "set zs \<inter> set (i # xs @ ys) = {}"
    and r: "readable s tag p"
  shows "\<exists>pin s1 s2. GetBuffer tag s = (Inr pin, s1) \<and> bp_tag pin = tag \<and> clist s1 T1 (i # ys) \<and> clist s1 T2 zs \<and>
    Buffer_GetContents (bp_buffer pin) s1 = (Inr p, s1) \<and> GetBuffer tag s1 = (Inr pin, s2) \<and>
    clist s2 T1 ys \<and> clist s2 T2 (i # zs) \<and> Buffer_GetContents (bp_buffer pin) s2 = (Inr p, s2) \<and> take_bit 20 (stat s2 i) = 2"
proof -
  let ?pin = "\<lparr>bp_tag = tag, bp_buffer = \<lparr>bf_blockId = i + 1\<rparr>\<rparr>"
  obtain s1 where s1: "GetBuffer tag s = (Inr ?pin, s1)" "clist s1 T1 (i # ys)" "ht_Get (bm_map s1) = (ht_Get (bm_map s))(tag \<mapsto> i)"
    "stat s1 i = new_state" "ce_Tag (bm_entries s1 i) = tag" "ce_Buffer (bm_entries s1 i) = Some b" "bm_pages s1 = (bm_pages s)(b := p)"
    "ce_BlockId (bm_entries s1 i) = i"
    "\<forall>l zs. l \<notin> {T1, FreeList} \<longrightarrow> clist s l zs \<longrightarrow> set zs \<inter> set (i # xs @ ys) = {} \<longrightarrow> clist s1 l zs"
    using GetBuffer_miss [OF room t f(1) b c r] f(2) by auto
  have T2: "clist s1 T2 zs" using s1(9) d by auto
  have nb: "take_bit 20 new_state = 1" "\<not> bit new_state 31" "bit new_state 29" "bit new_state 25" "\<not> bit new_state 28"
    using new_entry_bits(2) pin_state(1) [of clean_state] clean_bits
    by (simp_all add: mask_of_refcount) (simp_all add: new_state_def new_entry_bits(2) bit_simps flip: clean_bits(5))
  have room2: "take_bit 20 new_state \<noteq> BufferRefCountMask" by (simp add: nb(1) mask_of_refcount mask_eq_exp_minus_1)
  have two: "take_bit 20 (new_state + 1) = 2" using pin_state(1) [OF room2] nb(1) by simp
  have "set (i # ys) \<inter> set zs = {}" using c d by auto
  then obtain s2 where s2: "GetBuffer tag s1 = (Inr ?pin, s2)" "clist s2 T1 ys" "clist s2 T2 (i # remove1 i zs)"
    "list_step {T1, T2} (set (i # ys) \<union> set zs) (set_State i ((stat s1 i + 1) OR IsFrequencyList) s1) s2"
    using GetBuffer_hit [OF s1(2) T2 _ d(2), of tag i] s1 nb room2 by auto
  have "i \<notin> set zs" using d(3) by auto
  then have c2: "clist s2 T2 (i # zs)" using s2(3) by (simp add: remove1_idem)
  have e2: "stat s2 i = (new_state + 1) OR IsFrequencyList" "ce_Buffer (bm_entries s2 i) = Some b" "bm_pages s2 = bm_pages s1"
    using list_step_core [OF s2(4), of i] same_rest_fields [OF list_step_rest [OF s2(4)]] s1 by simp_all
  have con: "Buffer_GetContents (bp_buffer ?pin) u = (Inr p, u)" if "ce_Buffer (bm_entries u i) = Some b" "bm_pages u b = p" for u :: "'a buffer_state_scheme"
    using that by (simp add: Buffer_GetContents_def Buffer_IsValid_def buffer_of_def cm_simps run_simps)
  show ?thesis
    using s1(1,2) T2 s2(1,2) c2 e2 con [of s1] con [of s2] s1(6,7) two
    by (intro exI [of _ ?pin] exI [of _ s1] exI [of _ s2]) simp
qed

theorem getbuffer_miss_then_hit_witness:
  "\<exists>s0 pin s1 s2. BufferManager_init (\<lambda>t. unat (PageNo t)) 4 example_buffers = (Inr (), s0) \<and>
    GetBuffer \<lparr>Relid = 1, PageNo = 2\<rparr> s0 = (Inr pin, s1) \<and> Buffer_GetContents (bp_buffer pin) s1 = (Inr (replicate PageSize 7), s1) \<and>
    clist s1 T1 [0] \<and> GetBuffer \<lparr>Relid = 1, PageNo = 2\<rparr> s1 = (Inr pin, s2) \<and> clist s2 T1 [] \<and> clist s2 T2 [0]"
proof -
  obtain s0 where s0: "BufferManager_init (\<lambda>t. unat (PageNo t)) 4 example_buffers = (Inr (), s0)" "\<forall>l. l \<noteq> FreeList \<longrightarrow> clist s0 l []"
    "\<forall>t. ht_Get (bm_map s0) t = None" "os_files s0 = os_files example_buffers" "os_script s0 = []"
    "can_extend 1 (rev [1..<8]) 0 3 (rev [0..<3]) (replicate (3 * PageSize) 7) s0" using example_can_extend by blast
  then show ?thesis
    using getbuffer_miss_then_hit [of s0 "\<lparr>Relid = 1, PageNo = 2\<rparr>" "rev [1..<8]" 0 3 "rev [0..<3]" "[]" "[]" "replicate PageSize 7"]
      example_readable [of s0 2] by (auto simp: can_extend_def)
qed


text \<open>
  C21. The four lists and the free list refine sequences: on a list that represents \<open>xs\<close>, \<open>InsertMRU\<close> of
  an entry that is in no list makes it represent \<open>i # xs\<close>, \<open>RemoveEntry\<close> of a member \<open>remove1 i xs\<close>, and
  \<open>MoveMRU\<close> of a member \<open>i # remove1 i xs\<close>; none of them fails, the recorded size is the length, and
  every other list that shares no entry is left as it was.
\<close>

theorem cache_list_refines:
  assumes "clist s l xs" "sized s" "set xs \<subseteq> {..<2 * unat (bm_npages s)}" "k \<noteq> l" "clist s k zs" "set zs \<inter> set (i # xs) = {}"
  shows "(i \<notin> set xs \<and> unlinked s i \<and> i < 2 * unat (bm_npages s) \<longrightarrow>
      (\<exists>s'. InsertMRU l i s = (Inr (), s') \<and> clist s' l (i # xs) \<and> clist s' k zs)) \<and>
    (i \<in> set xs \<longrightarrow> (\<exists>s'. RemoveEntry l i s = (Inr (), s') \<and> clist s' l (remove1 i xs) \<and> unlinked s' i \<and> clist s' k zs)) \<and>
    (i \<in> set xs \<longrightarrow> (\<exists>s'. MoveMRU l i s = (Inr (), s') \<and> clist s' l (i # remove1 i xs) \<and> clist s' k zs))"
proof (intro conjI impI)
  have keep: "clist s' k zs" if "list_step {l} A s s'" "A \<subseteq> set (i # xs)" for s' A
    using clist_frame [OF that(1) assms(5)] assms(4,6) that(2) by auto
  show "\<exists>s'. InsertMRU l i s = (Inr (), s') \<and> clist s' l (i # xs) \<and> clist s' k zs"
    if i: "i \<notin> set xs \<and> unlinked s i \<and> i < 2 * unat (bm_npages s)"
  proof -
    have "length xs < 2 ^ 32 - 1"
      by (rule list_rep_room [of l s xs i]) (use assms i in \<open>auto simp: list_rep_def entry_free_def\<close>)
    then show ?thesis using InsertMRU_ok [OF assms(1)] i keep by fastforce
  qed
  show "\<exists>s'. RemoveEntry l i s = (Inr (), s') \<and> clist s' l (remove1 i xs) \<and> unlinked s' i \<and> clist s' k zs" if "i \<in> set xs"
    using RemoveEntry_clist [OF assms(1) that] keep by fastforce
  show "\<exists>s'. MoveMRU l i s = (Inr (), s') \<and> clist s' l (i # remove1 i xs) \<and> clist s' k zs" if "i \<in> set xs"
    using MoveMRU_ok [OF assms(1) that] keep by fastforce
qed

theorem cache_list_refines_witness:
  "\<exists>s0 s1. BufferManager_init (\<lambda>t. unat (PageNo t)) 4 example_buffers = (Inr (), s0) \<and> clist s0 FreeList (rev [0..<8]) \<and>
    MoveMRU FreeList 3 s0 = (Inr (), s1) \<and> clist s1 FreeList [3, 7, 6, 5, 4, 2, 1, 0] \<and> clist s1 T1 []"
proof -
  obtain s0 where s0: "BufferManager_init (\<lambda>t. unat (PageNo t)) 4 example_buffers = (Inr (), s0)" "sized s0" "bm_npages s0 = 4"
    "clist s0 FreeList (rev [0..<8])" "clist s0 T1 []"
    using BufferManager_init_ok [of 4 "\<lambda>t. unat (PageNo t)" example_buffers] by auto
  moreover have "rev [0..<8] = [7, 6, 5, 4, 3, 2, 1, 0::nat]" by (simp add: upt_conv_Cons)
  ultimately show ?thesis
    using cache_list_refines [of s0 FreeList "rev [0..<8]" T1 "[]" 3] by auto
qed

text \<open>
  The partitioned page table is a map: lookups after an insertion or a removal see exactly the
  change of that key, an insertion of a key that is there returns the old value and changes nothing,
  and a key that was inserted can be removed once, which restores the table.
\<close>

theorem page_table_refines_map:
  assumes "ht_wf h"
  shows "(\<exists>w b h'. ht_Insert k v h = (w, b, h') \<and> ht_wf h' \<and>
      ht_Get h' = (if ht_Get h k = None then (ht_Get h)(k \<mapsto> v) else ht_Get h) \<and> (b \<longleftrightarrow> ht_Get h k = None) \<and> ht_Get h' k = Some w) \<and>
    (\<exists>h'. ht_Remove k h = (ht_Has h k, h') \<and> ht_wf h' \<and> ht_Get h' = (ht_Get h)(k := None)) \<and>
    (ht_Get h k = None \<longrightarrow> (\<exists>h1 h2. ht_Insert k v h = (v, True, h1) \<and> ht_Remove k h1 = (True, h2) \<and> ht_Get h2 = ht_Get h))"
proof (intro conjI impI)
  show "\<exists>w b h'. ht_Insert k v h = (w, b, h') \<and> ht_wf h' \<and>
      ht_Get h' = (if ht_Get h k = None then (ht_Get h)(k \<mapsto> v) else ht_Get h) \<and> (b \<longleftrightarrow> ht_Get h k = None) \<and> ht_Get h' k = Some w"
    using page_table.ins_new [OF assms, of k v] page_table.ins_old [OF assms, of k _ v] assms by (cases "ht_Get h k") auto
  show "\<exists>h'. ht_Remove k h = (ht_Has h k, h') \<and> ht_wf h' \<and> ht_Get h' = (ht_Get h)(k := None)"
    using page_table.rem_any [OF assms, of k] by (simp add: ht_Has_def ht_Get_def)
  show "ht_Get h k = None \<Longrightarrow> \<exists>h1 h2. ht_Insert k v h = (v, True, h1) \<and> ht_Remove k h1 = (True, h2) \<and> ht_Get h2 = ht_Get h"
    using page_table.ins_rem [OF assms] by blast
qed

theorem page_table_refines_map_witness:
  "\<exists>h1 h2. ht_Insert (5::nat) (1::nat) \<lparr>ht_hash = (\<lambda>k. k), ht_maps = [Map.empty, Map.empty]\<rparr> = (1, True, h1) \<and>
    ht_Remove 5 h1 = (True, h2) \<and> ht_Get h2 5 = None"
proof -
  let ?h = "\<lparr>ht_hash = (\<lambda>k. k), ht_maps = [Map.empty, Map.empty]\<rparr> :: (nat, nat) HashTable"
  have "ht_wf ?h" "ht_Get ?h 5 = None" by (simp_all add: ht_wf_def ht_Get_def getElementIndex_def flip: numeral_2_eq_2)
  then show ?thesis using page_table_refines_map [of ?h 5 1] by metis
qed


text \<open>
  C33. The cache never replaces a page: after a manager for \<open>n\<close> pages (at least two) has been
  constructed and \<open>n\<close> different pages have been read and released, a request for any other page
  aborts, because \<open>tryVacateEntry\<close> inserts the victim into a ghost list while it is still linked in
  \<open>T1\<close>.
\<close>

theorem cache_cannot_replace:
  assumes "2 \<le> n" "2 * n < 2 ^ 32 - 1" "length ts = n" "distinct ts" "tag \<notin> set ts" "\<forall>t\<in>set ts. \<exists>p. readable s t p"
  shows "\<exists>s1 s2. BufferManager_init hash (word_of_nat n) s = (Inr (), s1) \<and> fetch_all ts s1 = (Inr (), s2) \<and>
    fst (GetBuffer tag s2) = Inl (AssertFail ''entry->IsRouge()'')"
proof -
  obtain s1 where s1: "BufferManager_init hash (word_of_nat n) s = (Inr (), s1)" "filled n 0 [] s1" "os_files s1 = os_files s" "os_script s1 = os_script s"
    using filled_init [of n hash s] assms by auto
  have "\<forall>t\<in>set ts. \<exists>p. readable s1 t p" using assms(6) readable_cong [OF s1(3,4)] by simp
  then obtain s2 where "fetch_all ts s1 = (Inr (), s2)" "filled n n (rev ts @ []) s2"
    using fetch_all_filled [OF s1(2), of ts] assms by auto
  then show ?thesis using s1(1) full_aborts [of n "rev ts" s2 tag] assms by auto
qed

theorem cache_cannot_replace_witness:
  "\<exists>s1 s2. BufferManager_init (\<lambda>t. unat (PageNo t)) 2 example_buffers = (Inr (), s1) \<and>
    fetch_all [\<lparr>Relid = 1, PageNo = 0\<rparr>, \<lparr>Relid = 1, PageNo = 1\<rparr>] s1 = (Inr (), s2) \<and>
    fst (GetBuffer \<lparr>Relid = 1, PageNo = 2\<rparr> s2) = Inl (AssertFail ''entry->IsRouge()'')"
  using cache_cannot_replace [of 2 "[\<lparr>Relid = 1, PageNo = 0\<rparr>, \<lparr>Relid = 1, PageNo = 1\<rparr>]" "\<lparr>Relid = 1, PageNo = 2\<rparr>" example_buffers "\<lambda>t. unat (PageNo t)"]
    example_readable [of example_buffers 0] example_readable [of example_buffers 1]
  by (auto simp: example_buffers_def)

text \<open>
  A ghost hit never succeeds: a request for a page whose entry is in the table as a ghost (its
  buffer was taken away, it is in no top list) ends with an error, as nothing assigns a buffer to the
  entry before the assertion that it has one.
\<close>

theorem ghost_hit_fails:
  assumes "ht_Get (bm_map s) tag = Some i" "ce_Buffer (bm_entries s i) = None" "stat s i AND IsTopList = 0"
    "stat s i AND Locked = 0" "stat s i AND BufferRefCountMask \<noteq> BufferRefCountMask"
  shows "\<exists>e. fst (GetBuffer tag s) = Inl e"
  using GetBuffer_ghost [of s tag i] assms by (simp add: no_buffer_def)

theorem ghost_hit_fails_witness:
  "\<exists>e. fst (GetBuffer \<lparr>Relid = 1, PageNo = 0\<rparr>
    (example_buffers\<lparr>bm_map := \<lparr>ht_hash = (\<lambda>t. 0), ht_maps = [[\<lparr>Relid = 1, PageNo = 0\<rparr> \<mapsto> 3]]\<rparr>\<rparr>)) = Inl e"
  by (rule ghost_hit_fails [of _ _ 3])
    (simp_all add: ht_Get_def getElementIndex_def example_buffers_def blank_entry_def mask_of_refcount)

text \<open>
  C34. Extending a relation links the new entry into \<open>T1\<close> twice. On an empty \<open>T1\<close> the extension
  succeeds (the file has one more page of zeros, and so has the buffer) but leaves the entry pointing
  to itself in both directions with a recorded size of two; on any other \<open>T1\<close> the second insertion
  aborts.
\<close>

theorem extend_links_twice:
  assumes "can_extend relid xs i b rest c s" "clist s T1 ys" "length ys < 2 ^ 32 - 2" "set ys \<inter> set (xs @ [i]) = {}"
    "os_script s = []" "length c = PageSize * k" "k < 524288"
  shows "if ys = [] then \<exists>pin s'. ExtendRelation relid s = (Inr pin, s') \<and> bp_tag pin = \<lparr>Relid = relid, PageNo = word_of_nat k\<rparr> \<and>
      os_files s' (rel_path relid) = Some (c @ replicate PageSize 0) \<and> bm_pages s' b = replicate PageSize 0 \<and>
      ce_Next (bm_entries s' i) = Some i \<and> ce_Prev (bm_entries s' i) = Some i \<and>
      bm_lists s' T1 = \<lparr>cl_head = Some i, cl_tail = Some i, cl_size = 2\<rparr>
    else fst (ExtendRelation relid s) = Inl (AssertFail ''entry->IsRouge()'')"
proof (cases "ys = []")
  case True
  then show ?thesis using extend_first [OF assms(1) _ assms(5-7)] assms(2) by fastforce
next
  case False
  then show ?thesis using extend_aborts [OF assms(1-4)] by simp
qed

theorem extend_links_twice_witness:
  "\<exists>s0 pin s'. BufferManager_init (\<lambda>t. unat (PageNo t)) 4 example_buffers = (Inr (), s0) \<and>
    ExtendRelation 1 s0 = (Inr pin, s') \<and> bp_tag pin = \<lparr>Relid = 1, PageNo = 3\<rparr> \<and>
    ce_Next (bm_entries s' 0) = Some 0 \<and> ce_Prev (bm_entries s' 0) = Some 0"
proof -
  obtain s0 where s0: "BufferManager_init (\<lambda>t. unat (PageNo t)) 4 example_buffers = (Inr (), s0)" "\<forall>l. l \<noteq> FreeList \<longrightarrow> clist s0 l []" "os_script s0 = []"
    "can_extend 1 (rev [1..<8]) 0 3 (rev [0..<3]) (replicate (3 * PageSize) 7) s0" using example_can_extend by blast
  then show ?thesis using extend_links_twice [OF s0(4), of "[]" 3] by auto
qed

text \<open>
  The list of free entries gives out only half of its entries: a fresh manager for \<open>n\<close> pages has
  \<open>2 * n\<close> free entries, \<open>n\<close> calls of \<open>PopTail\<close> return the first \<open>n\<close> of them, and the next call
  aborts in the assertion of \<open>RemoveEntry\<close> that the list is not empty, because \<open>PopTail\<close> decrements the
  size that \<open>RemoveEntry\<close> has already decremented.
\<close>

theorem free_list_exhausts:
  assumes "0 < unat n" "2 * unat n < 2 ^ 32 - 1"
  shows "\<exists>s1 s2. BufferManager_init hash n s = (Inr (), s1) \<and> clist s1 FreeList (rev [0..<2 * unat n]) \<and>
    pop_times (unat n) FreeList s1 = (Inr [0..<unat n], s2) \<and> chain s2 FreeList (rev [unat n..<2 * unat n]) \<and>
    fst (PopTail FreeList s2) = Inl (AssertFail ''this->_size > 0'')"
proof -
  let ?n = "unat n"
  obtain s1 where s1: "BufferManager_init hash n s = (Inr (), s1)" "bm_npages s1 = n" "clist s1 FreeList (rev [0..<2 * ?n])"
    "\<forall>i. ce_core (bm_entries s1 i) = ce_core (blank_entry i)" using BufferManager_init_ok [OF assms(2)] by blast
  have split: "rev [0..<2 * ?n] = rev [?n..<2 * ?n] @ rev [0..<?n]"
    using upt_add_eq_append [of 0 ?n ?n] by (simp add: mult_2)
  have st: "stat s1 i = 0" for i using s1(4) by (simp add: ce_core_def blank_entry_def)
  have ne: "n \<noteq> 0" using assms(1) by (auto simp: unat_gt_0)
  obtain s2 where s2: "pop_times (length [0..<?n]) FreeList s1 = (Inr [0..<?n], s2)" "chain s2 FreeList (rev [?n..<2 * ?n])"
    "cl_size (bm_lists s2 FreeList) = 0" "bm_npages s2 = bm_npages s1" "\<forall>i. stat s2 i = stat s1 i"
    using pop_times_ok [of s1 FreeList "rev [?n..<2 * ?n]" "[0..<?n]"] s1 split st assms ne
    by (auto simp: clist_def)
  have "rev [?n..<2 * ?n] = rev [Suc ?n..<2 * ?n] @ [?n]" using assms(1) by (simp add: upt_conv_Cons)
  then have "fst (PopTail FreeList s2) = Inl (AssertFail ''this->_size > 0'')"
    using PopTail_empty_size [of s2 FreeList "rev [Suc ?n..<2 * ?n]" ?n] s2 s1(2) st ne by simp
  then show ?thesis using s1 s2 by auto
qed

theorem free_list_exhausts_witness:
  "\<exists>s1 s2. BufferManager_init (\<lambda>t. unat (PageNo t)) 4 example_buffers = (Inr (), s1) \<and>
    pop_times 4 FreeList s1 = (Inr [0, 1, 2, 3], s2) \<and> fst (PopTail FreeList s2) = Inl (AssertFail ''this->_size > 0'')"
  using free_list_exhausts [of 4 "\<lambda>t. unat (PageNo t)" example_buffers] by (auto simp: upt_conv_Cons)

end
