(* ===== verification/Mimi_Trans.thy ===== *)
theory Mimi_Trans
  imports Mimi_BufferOps
begin

text \<open>
  Transactions (\<open>trans/Transaction.cpp\<close>, \<open>trans/TransactionManager.cpp\<close>, \<open>trans/Snapshot.hpp\<close>) and the
  visibility test of the table scan (\<open>tuple_is_visible\<close> in \<open>access/heap/HeapTableScan.cpp\<close>). The
  thread-local \<open>MyWorker\<close> is the worker number that every operation takes. \<open>tm_mutex\<close> is the latch of
  the manager: the latch grants one holder at a time in either mode, so it is held or free, and an
  operation that finds it held is \<open>Blocked\<close>. \<open>ts_contents\<close> says which buffers' content latches are
  held.
\<close>

unbundle bit_operations_syntax

section \<open>Snapshots and transactions\<close>

record Snapshot =
  sn_CSN :: CommitSeqNumber
  sn_CommandId :: UndoSeqNumber

datatype TransactionStatus = RUNNING | COMMITTED | ABORTED

text \<open>\<open>tr_latched\<close>: the latch of the transaction is held in exclusive mode by the worker that runs it.\<close>

record Transaction =
  tr_xid :: TransactionId
  tr_latched :: bool
  tr_snapshot :: "Snapshot option"
  tr_status :: TransactionStatus
  tr_csn :: CommitSeqNumber
  tr_undoLog :: "VirtualUndoLog option"
  tr_lastLsn :: LogSeqNumber
  tr_workerId :: nat

definition new_Transaction :: "TransactionId \<Rightarrow> nat \<Rightarrow> Transaction" where
  "new_Transaction xid workerId = \<lparr>tr_xid = xid, tr_latched = True, tr_snapshot = None, tr_status = RUNNING,
     tr_csn = Csn_Invalid, tr_undoLog = None, tr_lastLsn = Lsn_Invalid, tr_workerId = workerId\<rparr>"

text \<open>The last assigned numbers, the transaction of each worker, and the two maps under the mutex.\<close>

record TransactionManager =
  tm_csn :: CommitSeqNumber
  tm_xid :: TransactionId
  tm_mutex :: bool
  tm_transactions :: "Transaction option list"
  tm_xidToWorker :: "TransactionId \<Rightarrow> nat option"
  tm_history :: "TransactionId \<Rightarrow> CommitSeqNumber option"

record trans_state = buffer_state +
  ts_tm :: TransactionManager
  ts_contents :: "nat \<Rightarrow> bool"

definition new_TransactionManager :: "nat \<Rightarrow> TransactionManager" where
  "new_TransactionManager workersCount = \<lparr>tm_csn = Csn_Min, tm_xid = Xid_Min, tm_mutex = False,
     tm_transactions = replicate workersCount None, tm_xidToWorker = Map.empty, tm_history = Map.empty\<rparr>"

definition get_tm :: "(TransactionManager \<Rightarrow> 'a) \<Rightarrow> ('x trans_state_scheme, 'a) cm" where
  "get_tm f = getM (\<lambda>s. f (ts_tm s))"

definition upd_tm :: "(TransactionManager \<Rightarrow> TransactionManager) \<Rightarrow> ('x trans_state_scheme, unit) cm" where
  "upd_tm f = updM (\<lambda>s. s\<lparr>ts_tm := f (ts_tm s)\<rparr>)"

definition set_history :: "TransactionId \<Rightarrow> CommitSeqNumber \<Rightarrow> TransactionManager \<Rightarrow> TransactionManager" where
  "set_history xid csn m = m\<lparr>tm_history := (tm_history m)(xid \<mapsto> csn)\<rparr>"

definition set_slot :: "nat \<Rightarrow> Transaction option \<Rightarrow> TransactionManager \<Rightarrow> TransactionManager" where
  "set_slot w t m = m\<lparr>tm_transactions := (tm_transactions m)[w := t]\<rparr>"

definition slot :: "nat \<Rightarrow> ('x trans_state_scheme, Transaction option) cm" where
  "slot w = bindM (get_tm tm_transactions) (\<lambda>ts. liftR (vec_at ts w))"

text \<open>
  \<open>MyTransaction\<close> of a worker is the transaction in the worker's slot: both are set and cleared
  together.
\<close>

definition MyTransaction :: "nat \<Rightarrow> ('x trans_state_scheme, Transaction) cm" where
  "MyTransaction w = bindM (slot w) (\<lambda>t. case t of
     None \<Rightarrow> raiseM (Undefined ''null MyTransaction'') | Some tr \<Rightarrow> retM tr)"

definition set_MyTransaction :: "nat \<Rightarrow> Transaction \<Rightarrow> ('x trans_state_scheme, unit) cm" where
  "set_MyTransaction w t = upd_tm (set_slot w (Some t))"

definition lock_mutex :: "('x trans_state_scheme, unit) cm" where
  "lock_mutex = bindM (get_tm tm_mutex) (\<lambda>held.
     if held then raiseM (Blocked ''TransactionManager::_mutex'') else upd_tm (\<lambda>m. m\<lparr>tm_mutex := True\<rparr>))"

definition unlock_mutex :: "('x trans_state_scheme, unit) cm" where
  "unlock_mutex = upd_tm (\<lambda>m. m\<lparr>tm_mutex := False\<rparr>)"

section \<open>Transaction\<close>

definition GetCurrentCSN :: "('x trans_state_scheme, CommitSeqNumber) cm" where
  "GetCurrentCSN = get_tm tm_csn"

definition GetCurrentXID :: "('x trans_state_scheme, TransactionId) cm" where
  "GetCurrentXID = get_tm tm_xid"

definition BeginNewStatement :: "nat \<Rightarrow> ('x trans_state_scheme, unit) cm" where
  "BeginNewStatement w =
     bindM (MyTransaction w) (\<lambda>t.
     case tr_snapshot t of
       None \<Rightarrow> bindM GetCurrentCSN (\<lambda>csn.
         set_MyTransaction w (t\<lparr>tr_snapshot := Some \<lparr>sn_CSN = csn, sn_CommandId = Usn_Invalid\<rparr>\<rparr>))
     | Some sn \<Rightarrow> (case tr_undoLog t of
         None \<Rightarrow> retM ()
       | Some log \<Rightarrow> let lastUsn = VUndo_LastUSN log in
           if Usn_IsValid lastUsn
           then set_MyTransaction w (t\<lparr>tr_snapshot := Some \<lparr>sn_CSN = sn_CSN sn, sn_CommandId = lastUsn + 1\<rparr>\<rparr>)
           else retM ()))"

definition Transaction_Wait :: "nat \<Rightarrow> Transaction \<Rightarrow> ('x trans_state_scheme, unit) cm" where
  "Transaction_Wait w t =
     bindM (MyTransaction w) (\<lambda>mine.
     thenM (assertM ''this->_xid != MyTransaction->GetXID()'' (tr_xid t \<noteq> tr_xid mine))
     (if tr_latched t then raiseM (Blocked ''Transaction::_latch'') else retM ()))"

definition Transaction_WriteWAL :: "nat \<Rightarrow> HeapWALRecord \<Rightarrow> ('x trans_state_scheme, unit) cm" where
  "Transaction_WriteWAL w record =
     bindM (MyTransaction w) (\<lambda>t.
     bindM (WriteLogRecord (tr_xid t) record) (\<lambda>lsn.
     set_MyTransaction w (t\<lparr>tr_lastLsn := lsn\<rparr>)))"

definition Transaction_Commit :: "CommitSeqNumber \<Rightarrow> Transaction \<Rightarrow> Transaction res" where
  "Transaction_Commit csn t = bindR (assertR ''csn.IsNormal()'' (Csn_IsNormal csn)) (\<lambda>_.
     Inr (t\<lparr>tr_csn := csn, tr_status := COMMITTED, tr_latched := False\<rparr>))"

definition Transaction_Abort :: "Transaction \<Rightarrow> Transaction" where
  "Transaction_Abort t = t\<lparr>tr_status := ABORTED, tr_latched := False\<rparr>"

definition SetStatus :: "nat \<Rightarrow> TransactionStatus \<Rightarrow> ('x trans_state_scheme, unit) cm" where
  "SetStatus w status = bindM (MyTransaction w) (\<lambda>t. set_MyTransaction w (t\<lparr>tr_status := status\<rparr>))"

text \<open>\<open>MyTransaction->GetUndoLog().InsertRecord(record)\<close>\<close>

definition InsertUndo :: "nat \<Rightarrow> HeapUndoRecord \<Rightarrow> ('x trans_state_scheme, UndoSeqNumber) cm" where
  "InsertUndo w record =
     bindM (MyTransaction w) (\<lambda>t.
     let log = (case tr_undoLog t of None \<Rightarrow> [] | Some l \<Rightarrow> l) in
     thenM (set_MyTransaction w (t\<lparr>tr_undoLog := Some log\<rparr>)) (
     bindM (VUndo_InsertRecord (tr_xid t) record log) (\<lambda>(usn, log').
     thenM (set_MyTransaction w (t\<lparr>tr_undoLog := Some log'\<rparr>)) (retM usn))))"

section \<open>TransactionManager\<close>

text \<open>
  \<open>this->_history[xid]\<close> inserts the default value (an invalid number) for a key that is missing. When
  the number says that the transaction is being committed, the loop calls \<open>lock.release()\<close>, which
  gives up the ownership of the shared latch without unlocking it, and the next round waits for the
  latch that the worker holds itself.
\<close>

definition history_at :: "TransactionId \<Rightarrow> ('x trans_state_scheme, CommitSeqNumber) cm" where
  "history_at xid = bindM (get_tm (\<lambda>m. tm_history m xid)) (\<lambda>c. case c of
     Some csn \<Rightarrow> retM csn
   | None \<Rightarrow> thenM (upd_tm (set_history xid Csn_Invalid)) (retM Csn_Invalid))"

definition GetTransactionCsn :: "TransactionId \<Rightarrow> ('x trans_state_scheme, CommitSeqNumber) cm" where
  "GetTransactionCsn xid =
     thenM lock_mutex (
     bindM (history_at xid) (\<lambda>csn.
     if csn \<noteq> Csn_Committing then thenM unlock_mutex (retM csn)
     else raiseM (Blocked ''TransactionManager::_mutex'')))"

text \<open>
  \<open>this->_transactions[workerId]\<close> is the owner of the transaction: an assignment destroys the
  transaction that was there, and the destructor of its latch asserts that nobody holds the latch. (A
  worker inside \<open>WaitTransactionEnd\<close> holds a second reference, which delays the destructor until the
  wait ends; a waiting worker is not part of the state.) The running transaction of a worker is latched,
  so a worker that begins a transaction while its slot still holds one ends the server.
\<close>

definition destroy_Transaction :: "Transaction option \<Rightarrow> ('x trans_state_scheme, unit) cm" where
  "destroy_Transaction t = (case t of None \<Rightarrow> retM ()
   | Some tr \<Rightarrow> assertM ''(this->_state.load() & LockCountMask) == 0'' (\<not> tr_latched tr))"

definition clear_slot :: "nat \<Rightarrow> Transaction \<Rightarrow> ('x trans_state_scheme, unit) cm" where
  "clear_slot w t = thenM (upd_tm (set_slot w None)) (destroy_Transaction (Some t))"

definition BeginNewTransaction :: "nat \<Rightarrow> ('x trans_state_scheme, unit) cm" where
  "BeginNewTransaction w =
     bindM (get_tm tm_xid) (\<lambda>xid.
     thenM (upd_tm (\<lambda>m. m\<lparr>tm_xid := xid + 1\<rparr>)) (
     bindM (slot w) (\<lambda>displaced.
     thenM (set_MyTransaction w (new_Transaction xid w)) (
     thenM (destroy_Transaction displaced) (
     thenM lock_mutex (
     thenM (upd_tm (\<lambda>m. m\<lparr>tm_xidToWorker := (tm_xidToWorker m)(xid \<mapsto> w)\<rparr>)) (
     thenM (upd_tm (set_history xid Csn_InProgress))
     unlock_mutex)))))))"

text \<open>The latched sections of \<open>CommitTransaction\<close>, then their composition.\<close>

definition own_transaction :: "nat \<Rightarrow> ('x trans_state_scheme, Transaction) cm" where
  "own_transaction w =
     bindM (slot w) (\<lambda>t. case t of
       None \<Rightarrow> raiseM (AssertFail ''transaction != nullptr'')
     | Some tr \<Rightarrow> thenM (assertM ''transaction->GetWorkerId() == MyWorker->GetId()'' (tr_workerId tr = w)) (retM tr))"

definition Commit_mark :: "nat \<Rightarrow> ('x trans_state_scheme, TransactionId) cm" where
  "Commit_mark w =
     bindM (own_transaction w) (\<lambda>t.
     thenM (if Lsn_IsValid (tr_lastLsn t) then WAL_Flush (tr_lastLsn t) else retM ()) (
     thenM lock_mutex (
     thenM (upd_tm (set_history (tr_xid t) Csn_Committing)) (
     thenM unlock_mutex
     (retM (tr_xid t))))))"

definition Commit_number :: "('x trans_state_scheme, CommitSeqNumber) cm" where
  "Commit_number = bindM (get_tm tm_csn) (\<lambda>csn. thenM (upd_tm (\<lambda>m. m\<lparr>tm_csn := csn + 1\<rparr>)) (retM csn))"

definition end_in_table :: "TransactionId \<Rightarrow> CommitSeqNumber \<Rightarrow> string \<Rightarrow> ('x trans_state_scheme, unit) cm" where
  "end_in_table xid csn message =
     thenM lock_mutex (
     thenM (upd_tm (set_history xid csn)) (
     bindM (get_tm (\<lambda>m. tm_xidToWorker m xid)) (\<lambda>it. case it of
       None \<Rightarrow> thenM unlock_mutex (raiseM (RuntimeError message))
     | Some _ \<Rightarrow> thenM (upd_tm (\<lambda>m. m\<lparr>tm_xidToWorker := (tm_xidToWorker m)(xid := None)\<rparr>)) unlock_mutex)))"

definition Commit_publish :: "TransactionId \<Rightarrow> CommitSeqNumber \<Rightarrow> ('x trans_state_scheme, unit) cm" where
  "Commit_publish xid csn = end_in_table xid csn ''XidToWorker transaction table is broken - no entry found''"

definition Commit_finish :: "nat \<Rightarrow> CommitSeqNumber \<Rightarrow> ('x trans_state_scheme, unit) cm" where
  "Commit_finish w csn =
     bindM (MyTransaction w) (\<lambda>t.
     bindM (liftR (Transaction_Commit csn t)) (\<lambda>t'.
     thenM (set_MyTransaction w t') (clear_slot w t')))"

definition CommitTransaction :: "nat \<Rightarrow> ('x trans_state_scheme, unit) cm" where
  "CommitTransaction w =
     bindM (Commit_mark w) (\<lambda>xid.
     bindM Commit_number (\<lambda>csn.
     thenM (Commit_publish xid csn)
     (Commit_finish w csn)))"

type_synonym 'x undo_applier = "HeapUndoRecord \<Rightarrow> UndoSeqNumber \<Rightarrow> ('x trans_state_scheme, unit) cm"

definition AbortTransaction :: "'x undo_applier \<Rightarrow> nat \<Rightarrow> ('x trans_state_scheme, unit) cm" where
  "AbortTransaction apply_undo w =
     bindM (MyTransaction w) (\<lambda>mine.
     thenM (case tr_undoLog mine of
        None \<Rightarrow> retM ()
      | Some log \<Rightarrow> bindM (VUndo_UndoAllRecords apply_undo log) (\<lambda>log'.
          bindM (MyTransaction w) (\<lambda>t. set_MyTransaction w (t\<lparr>tr_undoLog := Some log'\<rparr>)))) (
     bindM (own_transaction w) (\<lambda>t.
     thenM (end_in_table (tr_xid t) Csn_Aborted ''XidToWorker tnx table is broken - no transaction entry found'') (
     bindM (MyTransaction w) (\<lambda>t.
     thenM (set_MyTransaction w (Transaction_Abort t))
     (clear_slot w (Transaction_Abort t)))))))"

definition WaitTransactionEnd :: "nat \<Rightarrow> TransactionId \<Rightarrow> ('x trans_state_scheme, unit) cm" where
  "WaitTransactionEnd w xid =
     thenM lock_mutex (
     bindM (get_tm (\<lambda>m. tm_xidToWorker m xid)) (\<lambda>it.
     thenM unlock_mutex (
     case it of
       None \<Rightarrow> retM ()
     | Some workerId \<Rightarrow> bindM (slot workerId) (\<lambda>t. case t of
         None \<Rightarrow> retM ()
       | Some tr \<Rightarrow> if tr_xid tr \<noteq> xid then retM ()
           else thenM (assertM ''transaction->GetWorkerId() == workerId'' (tr_workerId tr = workerId))
             (Transaction_Wait w tr)))))"

section \<open>Visibility\<close>

definition tuple_is_visible :: "nat \<Rightarrow> Snapshot \<Rightarrow> HeapPageTupleHeader \<Rightarrow> ('x trans_state_scheme, bool) cm" where
  "tuple_is_visible w snapshot header =
     bindM (MyTransaction w) (\<lambda>mine.
     if th_xid header = tr_xid mine then
       (if sn_CommandId snapshot <=s th_undo header then retM False else retM True)
     else
       bindM (GetTransactionCsn (th_xid header)) (\<lambda>csn.
       thenM (assertM ''!(csn.IsInvalid() || csn.IsCommitting())'' (csn \<noteq> Csn_Invalid \<and> csn \<noteq> Csn_Committing)) (
       if csn = Csn_InProgress \<or> csn = Csn_Aborted then retM False
       else thenM (assertM ''csn.IsFrozen() || csn.IsNormal()'' (csn = Csn_Frozen \<or> Csn_IsNormal csn))
         (retM (csn = Csn_Frozen \<or> csn < sn_CSN snapshot)))))"

end
