(* ===== verification/Mimi_TransOps.thy ===== *)
theory Mimi_TransOps
  imports Mimi_Trans
begin

text \<open>
  The transaction manager under any interleaving of its workers: the step relation \<open>tm_step\<close> with the
  latched sections of a commit as separate steps, the effect of each operation on the manager, the
  invariant \<open>tm_inv\<close> of its tables with one preservation lemma per operation, the monotonicity of what
  a snapshot sees (\<open>early\<close> and \<open>late\<close>), and the blocking of everything once a reader has lost the
  manager's latch. The code that applies undo records is behind the locale \<open>undo_applying\<close>.
\<close>

section \<open>Workers in parallel\<close>

text \<open>
  The workers run the operations in any interleaving. A commit is four steps, since another worker
  can act between its latched sections; \<open>Waiting\<close> is a worker that blocked in \<open>GetTransactionCsn\<close>.
  An insert into the undo log counts whether it succeeds or fails, since it creates the log first.
  Everything else a worker does (pages, logs, files) leaves the transaction manager alone.
\<close>

datatype commit_pc = Resting | Marked TransactionId | Numbered TransactionId CommitSeqNumber | Published CommitSeqNumber | Waiting

type_synonym 'x tm_conf = "'x trans_state_scheme \<times> (nat \<Rightarrow> commit_pc)"

inductive tm_step :: "'x undo_applier \<Rightarrow> 'x tm_conf \<Rightarrow> 'x tm_conf \<Rightarrow> bool" for apply_undo where
  start: "pc w = Resting \<Longrightarrow> BeginNewTransaction w s = (Inr (), s') \<Longrightarrow>
    tm_step apply_undo (s, pc) (s', pc)"
| statement: "pc w = Resting \<Longrightarrow> BeginNewStatement w s = (Inr (), s') \<Longrightarrow> tm_step apply_undo (s, pc) (s', pc)"
| undo: "pc w = Resting \<Longrightarrow> InsertUndo w record s = (r, s') \<Longrightarrow> tm_step apply_undo (s, pc) (s', pc)"
| wal: "pc w = Resting \<Longrightarrow> Transaction_WriteWAL w logRecord s = (r, s') \<Longrightarrow> tm_step apply_undo (s, pc) (s', pc)"
| status: "pc w = Resting \<Longrightarrow> SetStatus w status s = (r, s') \<Longrightarrow> tm_step apply_undo (s, pc) (s', pc)"
| read: "pc w = Resting \<Longrightarrow> GetTransactionCsn x s = (Inr c, s') \<Longrightarrow> tm_step apply_undo (s, pc) (s', pc)"
| stuck: "pc w = Resting \<Longrightarrow> GetTransactionCsn x s = (Inl (Blocked msg), s') \<Longrightarrow> tm_step apply_undo (s, pc) (s', pc(w := Waiting))"
| mark: "pc w = Resting \<Longrightarrow> Commit_mark w s = (Inr x, s') \<Longrightarrow> tm_step apply_undo (s, pc) (s', pc(w := Marked x))"
| number: "pc w = Marked x \<Longrightarrow> Commit_number s = (Inr c, s') \<Longrightarrow> tm_step apply_undo (s, pc) (s', pc(w := Numbered x c))"
| publish: "pc w = Numbered x c \<Longrightarrow> Commit_publish x c s = (Inr (), s') \<Longrightarrow> tm_step apply_undo (s, pc) (s', pc(w := Published c))"
| finish: "pc w = Published c \<Longrightarrow> Commit_finish w c s = (Inr (), s') \<Longrightarrow> tm_step apply_undo (s, pc) (s', pc(w := Resting))"
| abort: "pc w = Resting \<Longrightarrow> AbortTransaction apply_undo w s = (Inr (), s') \<Longrightarrow> tm_step apply_undo (s, pc) (s', pc)"
| elsewhere: "ts_tm s' = ts_tm s \<Longrightarrow> tm_step apply_undo (s, pc) (s', pc)"

inductive tm_run :: "'x undo_applier \<Rightarrow> nat \<Rightarrow> 'x tm_conf \<Rightarrow> 'x tm_conf \<Rightarrow> bool" for apply_undo where
  stop: "tm_run apply_undo 0 c c"
| more: "tm_run apply_undo n c c' \<Longrightarrow> tm_step apply_undo c' c'' \<Longrightarrow> tm_run apply_undo (Suc n) c c''"

definition trans_of :: "TransactionManager \<Rightarrow> nat \<Rightarrow> Transaction option" where
  "trans_of m w = (if w < length (tm_transactions m) then tm_transactions m ! w else None)"

section \<open>Effects on the transaction manager\<close>

lemma keeps_same: "(\<And>v. keeps (\<lambda>s. f s = v) m) \<Longrightarrow> m s = (r, s') \<Longrightarrow> f s' = f s"
  using keepsD [of "\<lambda>s'. f s' = f s" m s] by blast

lemmas tm_simps = cm_simps get_tm_def upd_tm_def slot_def MyTransaction_def set_MyTransaction_def lock_mutex_def unlock_mutex_def
  vec_at_def set_slot_def set_history_def own_transaction_def destroy_Transaction_def
  clear_slot_def

lemma trans_of_slot: "w < length (tm_transactions m) \<Longrightarrow>
    trans_of (m\<lparr>tm_transactions := (tm_transactions m)[w := t]\<rparr>) = (trans_of m)(w := t)"
  by (auto simp: trans_of_def fun_eq_iff nth_list_update)

lemma slot_eq: "slot w s = (Inr t, s') \<Longrightarrow> w < length (tm_transactions (ts_tm s)) \<and> trans_of (ts_tm s) w = t \<and> s' = s"
  by (auto simp: tm_simps trans_of_def split: if_splits)

lemma MyTransaction_eq: "MyTransaction w s = (Inr t, s') \<Longrightarrow> w < length (tm_transactions (ts_tm s)) \<and> trans_of (ts_tm s) w = Some t \<and> s' = s"
  by (auto simp: tm_simps trans_of_def split: if_splits option.splits)

lemma MyTransaction_snd [simp]: "snd (MyTransaction w s) = s"
  by (simp add: tm_simps split: option.splits)

lemma MyTransaction_run: "trans_of (ts_tm s) w = Some t \<Longrightarrow> MyTransaction w s = (Inr t, s)"
  by (auto simp: tm_simps trans_of_def split: if_splits)

lemma trans_of_len: "trans_of m w = Some t \<Longrightarrow> w < length (tm_transactions m)"
  by (simp add: trans_of_def split: if_splits)

lemma set_slot_same: "trans_of m w = Some t \<Longrightarrow> set_slot w (Some t) m = m"
  using list_update_id [of "tm_transactions m" w] by (auto simp: set_slot_def trans_of_def simp del: list_update_id split: if_splits)

lemma own_transaction_eq: "own_transaction w s = (Inr t, s') \<Longrightarrow> trans_of (ts_tm s) w = Some t \<and> tr_workerId t = w \<and> s' = s"
  by (auto simp: tm_simps trans_of_def split: if_splits option.splits)

lemma Begin_effect:
  assumes "BeginNewTransaction w s = (Inr (), s')" 
  defines "m \<equiv> ts_tm s"
  shows "w < length (tm_transactions m) \<and> ts_tm s' = m\<lparr>tm_xid := tm_xid m + 1, tm_mutex := False,
    tm_transactions := (tm_transactions m)[w := Some (new_Transaction (tm_xid m) w)],
    tm_xidToWorker := (tm_xidToWorker m)(tm_xid m \<mapsto> w), tm_history := (tm_history m)(tm_xid m \<mapsto> Csn_InProgress)\<rparr> \<and>
    \<not> tm_mutex m \<and> (\<forall>t. trans_of m w = Some t \<longrightarrow> \<not> tr_latched t)"
  using assms by (auto simp: BeginNewTransaction_def tm_simps trans_of_def split: if_splits option.splits)

text \<open>A transaction that goes on: same owner, and a snapshot that is new or has the old number.\<close>

definition continues :: "CommitSeqNumber \<Rightarrow> Transaction \<Rightarrow> Transaction \<Rightarrow> bool" where
  "continues now t t' \<longleftrightarrow> tr_xid t' = tr_xid t \<and> tr_workerId t' = tr_workerId t \<and> tr_latched t' = tr_latched t \<and>
     (\<forall>sn'. tr_snapshot t' = Some sn' \<longrightarrow> sn_CSN sn' = now \<or> (\<exists>sn. tr_snapshot t = Some sn \<and> sn_CSN sn' = sn_CSN sn))"

definition slot_step :: "nat \<Rightarrow> TransactionManager \<Rightarrow> TransactionManager \<Rightarrow> bool" where
  "slot_step w m m' \<longleftrightarrow> (\<exists>t t'. trans_of m w = Some t \<and> m' = set_slot w (Some t') m \<and> continues (tm_csn m) t t')"

lemma slot_step_same: "trans_of m w = Some t \<Longrightarrow> slot_step w m m"
  unfolding slot_step_def by (rule exI [of _ t], rule exI [of _ t]) (simp add: set_slot_same continues_def)

lemma slot_stepI: "trans_of m w = Some t \<Longrightarrow> continues (tm_csn m) t t' \<Longrightarrow> slot_step w m (set_slot w (Some t') m)"
  by (auto simp: slot_step_def)

lemma set_MyTransaction_run: "thenM (set_MyTransaction w t) k s = k (s\<lparr>ts_tm := set_slot w (Some t) (ts_tm s)\<rparr>)"
  by (simp add: set_MyTransaction_def upd_tm_def cm_simps)

lemma clear_slot_run: "\<not> tr_latched t \<Longrightarrow> clear_slot w t s = (Inr (), s\<lparr>ts_tm := set_slot w None (ts_tm s)\<rparr>)"
  by (simp add: clear_slot_def destroy_Transaction_def upd_tm_def cm_simps)

lemma ended_unlatched [simp]: "\<not> tr_latched (Transaction_Abort t)"
  by (simp add: Transaction_Abort_def)

lemma Statement_effect:
  assumes "BeginNewStatement w s = (Inr (), s')"
  shows "slot_step w (ts_tm s) (ts_tm s')"
proof -
  obtain t where t: "MyTransaction w s = (Inr t, s)" "trans_of (ts_tm s) w = Some t"
    using assms MyTransaction_eq by (fastforce simp: BeginNewStatement_def elim: bindM_eq_okE)
  show ?thesis using assms [unfolded BeginNewStatement_def bindM_ok [where m = "MyTransaction w" and s = s, OF t(1)]] t slot_step_same [OF t(2)]
    by (auto simp: bindM_run get_tm_def upd_tm_def set_MyTransaction_def getM_def updM_def retM_def continues_def
        GetCurrentCSN_def Let_def intro!: slot_stepI [OF t(2)] split: option.splits if_splits)
qed

lemma InsertUndo_tm: "keeps (\<lambda>s::'x trans_state_scheme. ts_tm s = m) (UndoLog_InsertUndoRecord xid r)"
  unfolding UndoLog_InsertUndoRecord_def File_Open_def File_Write_def File_Fsync_def throw_error_def
  by (intro keep_intros) (auto simp: keeps_def cm_simps next_outcome_def put_file_def split: list.splits)

definition slot_may_step :: "nat \<Rightarrow> TransactionManager \<Rightarrow> TransactionManager \<Rightarrow> bool" where
  "slot_may_step w m m' \<longleftrightarrow> m' = m \<or> slot_step w m m'"

text \<open>The operations that change the fields of the own transaction, or fail before they do.\<close>

lemma with_MyTransaction:
  assumes "bindM (MyTransaction w) f s = (r, s')"
    and "\<And>t. trans_of (ts_tm s) w = Some t \<Longrightarrow> f t s = (r, s') \<Longrightarrow> slot_may_step w (ts_tm s) (ts_tm s')"
  shows "slot_may_step w (ts_tm s) (ts_tm s')"
proof (cases "MyTransaction w s")
  case (Pair r0 s0)
  show ?thesis
  proof (cases r0)
    case (Inl e)
    then show ?thesis using assms(1) Pair MyTransaction_snd [of w s] by (simp add: bindM_def slot_may_step_def)
  next
    case (Inr t)
    then show ?thesis using assms Pair MyTransaction_eq [of w s t s0] by (simp add: bindM_def)
  qed
qed

lemma InsertUndo_effect:
  fixes s :: "'x trans_state_scheme"
  assumes "InsertUndo w r s = (res, s')"
  shows "slot_may_step w (ts_tm s) (ts_tm s')"
proof (rule with_MyTransaction [OF assms [unfolded InsertUndo_def]])
  fix t assume t: "trans_of (ts_tm s) w = Some t"
  define log where "log = (case tr_undoLog t of None \<Rightarrow> [] | Some l \<Rightarrow> l)"
  define s1 where "s1 = s\<lparr>ts_tm := set_slot w (Some (t\<lparr>tr_undoLog := Some log\<rparr>)) (ts_tm s)\<rparr>"
  assume "(let log = case tr_undoLog t of None \<Rightarrow> [] | Some l \<Rightarrow> l in thenM (set_MyTransaction w (t\<lparr>tr_undoLog := Some log\<rparr>))
      (bindM (VUndo_InsertRecord (tr_xid t) r log) (\<lambda>(usn, log'). thenM (set_MyTransaction w (t\<lparr>tr_undoLog := Some log'\<rparr>)) (retM usn)))) s = (res, s')"
  then have run: "bindM (VUndo_InsertRecord (tr_xid t) r log) (\<lambda>(usn, log'). thenM (set_MyTransaction w (t\<lparr>tr_undoLog := Some log'\<rparr>)) (retM usn)) s1 = (res, s')"
    by (simp only: Let_def log_def [symmetric] s1_def set_MyTransaction_run)
  obtain y s2 where y: "VUndo_InsertRecord (tr_xid t) r log s1 = (y, s2)" by fastforce
  have "keeps (\<lambda>s::'x trans_state_scheme. ts_tm s = m) (VUndo_InsertRecord (tr_xid t) r log)" for m
    unfolding VUndo_InsertRecord_def by (intro keep_intros InsertUndo_tm)
  from keeps_same [OF this y] have "ts_tm s2 = ts_tm s1" .
  then show "slot_may_step w (ts_tm s) (ts_tm s')" using run y t
    by (cases y) (auto simp: slot_may_step_def slot_step_def s1_def cm_simps set_MyTransaction_def upd_tm_def set_slot_def continues_def split: prod.splits)
qed

lemma WriteLogRecord_tm: "keeps (\<lambda>s::'x trans_state_scheme. ts_tm s = m) (WriteLogRecord xid r)"
  unfolding WriteLogRecord_def Let_def File_Open_def File_Write_def throw_error_def
  by (intro keep_intros) (auto simp: keeps_def cm_simps next_outcome_def put_file_def split: list.splits io_outcome.splits)

lemma WriteWAL_effect:
  fixes s :: "'x trans_state_scheme"
  assumes "Transaction_WriteWAL w e s = (r, s')"
  shows "slot_may_step w (ts_tm s) (ts_tm s')"
proof (rule with_MyTransaction [OF assms [unfolded Transaction_WriteWAL_def]])
  fix t assume t: "trans_of (ts_tm s) w = Some t"
    and run: "bindM (WriteLogRecord (tr_xid t) e) (\<lambda>lsn. set_MyTransaction w (t\<lparr>tr_lastLsn := lsn\<rparr>)) s = (r, s')"
  obtain y s2 where y: "WriteLogRecord (tr_xid t) e s = (y, s2)" by fastforce
  have "ts_tm s2 = ts_tm s" by (rule keeps_same [OF WriteLogRecord_tm y])
  then show "slot_may_step w (ts_tm s) (ts_tm s')" using run y t
    by (cases y) (auto simp: slot_may_step_def slot_step_def cm_simps set_MyTransaction_def upd_tm_def set_slot_def continues_def)
qed

lemma SetStatus_effect:
  assumes "SetStatus w st s = (r, s')"
  shows "slot_may_step w (ts_tm s) (ts_tm s')"
  by (rule with_MyTransaction [OF assms [unfolded SetStatus_def]])
    (auto simp: slot_may_step_def slot_step_def set_MyTransaction_def upd_tm_def updM_def continues_def)

lemma history_at_effect: "history_at x s = (Inr c, s') \<Longrightarrow>
    ts_tm s' = (case tm_history (ts_tm s) x of Some _ \<Rightarrow> ts_tm s | None \<Rightarrow> set_history x Csn_Invalid (ts_tm s)) \<and> c = (case tm_history (ts_tm s) x of Some v \<Rightarrow> v | None \<Rightarrow> Csn_Invalid)"
  by (auto simp: history_at_def tm_simps split: option.splits)

lemma GetTransactionCsn_effect:
  assumes "GetTransactionCsn x s = (r, s')"
  defines "m \<equiv> ts_tm s" 
  defines "m1 \<equiv> (case tm_history m x of Some _ \<Rightarrow> m | None \<Rightarrow> set_history x Csn_Invalid m)"
    and "c \<equiv> (case tm_history m x of Some v \<Rightarrow> v | None \<Rightarrow> Csn_Invalid)"
  shows "if tm_mutex m then ts_tm s' = m \<and> r = Inl (Blocked ''TransactionManager::_mutex'')
    else if c = Csn_Committing then ts_tm s' = m1\<lparr>tm_mutex := True\<rparr> \<and> r = Inl (Blocked ''TransactionManager::_mutex'')
    else ts_tm s' = m1\<lparr>tm_mutex := False\<rparr> \<and> r = Inr c"
  using assms by (auto simp: GetTransactionCsn_def history_at_def tm_simps split: option.splits if_splits)

lemma Number_effect: "Commit_number s = (Inr c, s') \<Longrightarrow> c = tm_csn (ts_tm s) \<and> ts_tm s' = (ts_tm s)\<lparr>tm_csn := c + 1\<rparr>"
  by (auto simp: Commit_number_def tm_simps)

lemma end_in_table_effect:
  assumes "end_in_table x c msg s = (Inr (), s')"
  defines "m \<equiv> ts_tm s"
  shows "\<not> tm_mutex m \<and> tm_xidToWorker m x \<noteq> None \<and> ts_tm s' = m\<lparr>tm_mutex := False, tm_xidToWorker := (tm_xidToWorker m)(x := None), tm_history := (tm_history m)(x \<mapsto> c)\<rparr>"
  using assms by (auto simp: end_in_table_def tm_simps split: if_splits option.splits)

lemma Finish_effect:
  assumes "Commit_finish w c s = (Inr (), s')"
  shows "w < length (tm_transactions (ts_tm s)) \<and> ts_tm s' = set_slot w None (ts_tm s)"
  using assms by (auto simp: Commit_finish_def Transaction_Commit_def tm_simps split: if_splits option.splits sum.splits)

lemma Flush_tm [keep_intros]: "keeps (\<lambda>s::'x trans_state_scheme. ts_tm s = m) (WAL_Flush lsn)"
  unfolding WAL_Flush_def Let_def File_Fsync_def next_outcome_def throw_error_def
  by (auto simp: keeps_def cm_simps split: if_splits list.splits io_outcome.splits)

lemma Mark_effect:
  assumes "Commit_mark w s = (Inr x, s')"
  defines "m \<equiv> ts_tm s"
  shows "\<not> tm_mutex m \<and> (\<exists>t. trans_of m w = Some t \<and> tr_xid t = x) \<and> ts_tm s' = m\<lparr>tm_mutex := False, tm_history := (tm_history m)(x \<mapsto> Csn_Committing)\<rparr>"
proof -
  obtain t s0 where 0: "own_transaction w s = (Inr t, s0)"
    and run: "thenM (if Lsn_IsValid (tr_lastLsn t) then WAL_Flush (tr_lastLsn t) else retM ()) (thenM lock_mutex
      (thenM (upd_tm (set_history (tr_xid t) Csn_Committing)) (thenM unlock_mutex (retM (tr_xid t))))) s0 = (Inr x, s')"
    using assms(1) unfolding Commit_mark_def by (rule bindM_eq_okE)
  have t: "trans_of m w = Some t" "s0 = s" using own_transaction_eq [OF 0] by (simp_all add: m_def)
  obtain u s1 where s1: "(if Lsn_IsValid (tr_lastLsn t) then WAL_Flush (tr_lastLsn t) else retM ()) s = (Inr u, s1)"
    and run1: "thenM lock_mutex (thenM (upd_tm (set_history (tr_xid t) Csn_Committing)) (thenM unlock_mutex (retM (tr_xid t)))) s1 = (Inr x, s')"
    using run unfolding thenM_def [of "if _ then _ else _"] t(2) by (rule bindM_eq_okE)
  have "keeps (\<lambda>s::'a trans_state_scheme. ts_tm s = v) (if Lsn_IsValid (tr_lastLsn t) then WAL_Flush (tr_lastLsn t) else retM ())" for v
    by (intro keep_intros)
  from keeps_same [OF this s1] have "ts_tm s1 = m" by (simp add: m_def)
  then show ?thesis using run1 t(1) by (auto simp: tm_simps split: if_splits)
qed

text \<open>What the transaction manager relies on of the code that applies an undo record.\<close>

locale undo_applying =
  fixes apply_undo :: "'x undo_applier"
  assumes apply_tm: "keeps (\<lambda>s. ts_tm s = m) (apply_undo record usn)"
begin

lemma read_record_tm: "keeps (\<lambda>s::'x trans_state_scheme. ts_tm s = m) (read_record usn)"
  unfolding read_record_def read_header_def Let_def File_Open_def File_Read_def throw_error_def
  by (intro keep_intros) (auto simp: keeps_def cm_simps next_outcome_def put_file_def split: list.splits)

lemma undo_each_tm: "keeps (\<lambda>s. ts_tm s = m) (undo_each apply_undo usns)"
proof (induction usns)
  case (Cons u us)
  have "keeps (\<lambda>s. ts_tm s = m) (UndoLog_PerformUndo apply_undo u)"
    unfolding UndoLog_PerformUndo_def
    by (intro keep_intros read_record_tm) (auto split: prod.splits IResourceManager.splits intro: apply_tm)
  with Cons show ?case by (simp add: keeps_thenM)
qed (simp add: keep_intros)

lemma undo_all_tm: "keeps (\<lambda>s. ts_tm s = m) (VUndo_UndoAllRecords apply_undo log)"
  unfolding VUndo_UndoAllRecords_def by (intro keep_intros undo_each_tm)

lemma Abort_effect:
  assumes "AbortTransaction apply_undo w s = (Inr (), s')"
  defines "m \<equiv> ts_tm s"
  shows "\<exists>t. trans_of m w = Some t \<and> \<not> tm_mutex m \<and> tm_xidToWorker m (tr_xid t) \<noteq> None \<and>
    ts_tm s' = m\<lparr>tm_mutex := False, tm_transactions := (tm_transactions m)[w := None],
      tm_xidToWorker := (tm_xidToWorker m)(tr_xid t := None), tm_history := (tm_history m)(tr_xid t \<mapsto> Csn_Aborted)\<rparr>"
proof -
  obtain t s0 where 0: "MyTransaction w s = (Inr t, s0)" and r0: "thenM (case tr_undoLog t of None \<Rightarrow> retM ()
      | Some log \<Rightarrow> bindM (VUndo_UndoAllRecords apply_undo log) (\<lambda>log'. bindM (MyTransaction w) (\<lambda>t. set_MyTransaction w (t\<lparr>tr_undoLog := Some log'\<rparr>))))
    (bindM (own_transaction w) (\<lambda>t. thenM (end_in_table (tr_xid t) Csn_Aborted ''XidToWorker tnx table is broken - no transaction entry found'') (
     bindM (MyTransaction w) (\<lambda>t. thenM (set_MyTransaction w (Transaction_Abort t)) (clear_slot w (Transaction_Abort t)))))) s0 = (Inr (), s')"
    using assms(1) unfolding AbortTransaction_def by (rule bindM_eq_okE)
  have t: "trans_of m w = Some t" "s0 = s" using MyTransaction_eq [OF 0] by (simp_all add: m_def)
  obtain u1 s1 where 1: "(case tr_undoLog t of None \<Rightarrow> retM ()
      | Some log \<Rightarrow> bindM (VUndo_UndoAllRecords apply_undo log) (\<lambda>log'. bindM (MyTransaction w) (\<lambda>t. set_MyTransaction w (t\<lparr>tr_undoLog := Some log'\<rparr>)))) s = (Inr u1, s1)"
    and r1: "bindM (own_transaction w) (\<lambda>t. thenM (end_in_table (tr_xid t) Csn_Aborted ''XidToWorker tnx table is broken - no transaction entry found'') (
     bindM (MyTransaction w) (\<lambda>t. thenM (set_MyTransaction w (Transaction_Abort t)) (clear_slot w (Transaction_Abort t))))) s1 = (Inr (), s')"
    using r0 unfolding thenM_def [of "case_option _ _ _"] t(2) by (rule bindM_eq_okE)
  have "\<exists>t'. tr_xid t' = tr_xid t \<and> ts_tm s1 = set_slot w (Some t') m"
  proof (cases "tr_undoLog t")
    case None
    then show ?thesis using 1 t(1) by (auto simp: retM_def m_def set_slot_same intro!: exI [of _ t])
  next
    case (Some log)
    with 1 obtain log' s2 where s2: "VUndo_UndoAllRecords apply_undo log s = (Inr log', s2)"
      and r2: "bindM (MyTransaction w) (\<lambda>t. set_MyTransaction w (t\<lparr>tr_undoLog := Some log'\<rparr>)) s2 = (Inr u1, s1)"
      by (auto elim: bindM_eq_okE)
    have "ts_tm s2 = m" unfolding m_def by (rule keeps_same [OF undo_all_tm s2])
    moreover then have "MyTransaction w s2 = (Inr t, s2)" using t(1) by (simp add: MyTransaction_run)
    ultimately have "ts_tm s1 = set_slot w (Some (t\<lparr>tr_undoLog := Some log'\<rparr>)) m"
      using r2 by (auto simp: bindM_run set_MyTransaction_def upd_tm_def updM_def)
    then show ?thesis by (intro exI [of _ "t\<lparr>tr_undoLog := Some log'\<rparr>"]) simp
  qed
  then obtain t1 where t1: "tr_xid t1 = tr_xid t" "ts_tm s1 = set_slot w (Some t1) m" by blast
  obtain t2 s2 where 2: "own_transaction w s1 = (Inr t2, s2)"
    and r2: "thenM (end_in_table (tr_xid t2) Csn_Aborted ''XidToWorker tnx table is broken - no transaction entry found'') (
     bindM (MyTransaction w) (\<lambda>t. thenM (set_MyTransaction w (Transaction_Abort t)) (clear_slot w (Transaction_Abort t)))) s2 = (Inr (), s')"
    using r1 by (rule bindM_eq_okE)
  have t2: "t2 = t1" "s2 = s1" using own_transaction_eq [OF 2] trans_of_len [OF t(1)] by (auto simp: t1(2) set_slot_def trans_of_def)
  obtain u s3 where 3: "end_in_table (tr_xid t1) Csn_Aborted ''XidToWorker tnx table is broken - no transaction entry found'' s1 = (Inr u, s3)"
    and r3: "bindM (MyTransaction w) (\<lambda>t. thenM (set_MyTransaction w (Transaction_Abort t)) (clear_slot w (Transaction_Abort t))) s3 = (Inr (), s')"
    using r2 unfolding thenM_def [of "end_in_table _ _ _"] t2 by (rule bindM_eq_okE)
  from 3 have "end_in_table (tr_xid t1) Csn_Aborted ''XidToWorker tnx table is broken - no transaction entry found'' s1 = (Inr (), s3)" by simp
  note e = end_in_table_effect [OF this]
  show ?thesis using e r3 t(1) t1
    by (auto simp: bindM_run set_MyTransaction_run clear_slot_run set_slot_def split: sum.splits)
qed

end

section \<open>The invariant of the transaction manager\<close>

definition phase_ok :: "commit_pc \<Rightarrow> TransactionId \<Rightarrow> nat \<Rightarrow> TransactionManager \<Rightarrow> bool" where
  "phase_ok p x w m = (case p of
     Resting \<Rightarrow> tm_history m x = Some Csn_InProgress \<and> tm_xidToWorker m x = Some w
   | Waiting \<Rightarrow> tm_history m x = Some Csn_InProgress \<and> tm_xidToWorker m x = Some w
   | Marked y \<Rightarrow> y = x \<and> tm_history m x = Some Csn_Committing \<and> tm_xidToWorker m x = Some w
   | Numbered y c \<Rightarrow> y = x \<and> tm_history m x = Some Csn_Committing \<and> tm_xidToWorker m x = Some w
   | Published c \<Rightarrow> tm_history m x = Some c \<and> Csn_IsNormal c)"

definition slot_ok :: "TransactionManager \<Rightarrow> commit_pc \<Rightarrow> nat \<Rightarrow> Transaction \<Rightarrow> bool" where
  "slot_ok m p w t \<longleftrightarrow> tr_xid t < tm_xid m \<and> tr_workerId t = w \<and> tr_latched t \<and>
     (\<forall>sn. tr_snapshot t = Some sn \<longrightarrow> sn_CSN sn \<le> tm_csn m) \<and> phase_ok p (tr_xid t) w m"

definition slots_ok :: "TransactionManager \<Rightarrow> (nat \<Rightarrow> commit_pc) \<Rightarrow> bool" where
  "slots_ok m pc \<longleftrightarrow>
     (\<forall>w t. trans_of m w = Some t \<longrightarrow> slot_ok m (pc w) w t) \<and>
     (\<forall>w. trans_of m w = None \<longrightarrow> pc w = Resting \<or> pc w = Waiting) \<and>
     (\<forall>w v t u. trans_of m w = Some t \<and> trans_of m v = Some u \<and> tr_xid t = tr_xid u \<longrightarrow> w = v)"

definition history_ok :: "TransactionManager \<Rightarrow> (nat \<Rightarrow> commit_pc) \<Rightarrow> bool" where
  "history_ok m pc \<longleftrightarrow>
     (\<forall>x c. tm_history m x = Some c \<and> c \<noteq> Csn_Invalid \<longrightarrow> x < tm_xid m) \<and>
     (\<forall>x c. tm_history m x = Some c \<and> Csn_IsNormal c \<longrightarrow> c < tm_csn m) \<and>
     (\<forall>x y c. tm_history m x = Some c \<and> tm_history m y = Some c \<and> Csn_IsNormal c \<longrightarrow> x = y) \<and>
     (\<forall>w x c. pc w = Numbered x c \<longrightarrow> Csn_IsNormal c \<and> c < tm_csn m \<and> (\<forall>y. tm_history m y \<noteq> Some c) \<and>
        (\<forall>v y. pc v = Numbered y c \<longrightarrow> v = w)) \<and>
     (\<forall>x. tm_history m x \<noteq> Some Csn_Frozen)"

definition workers_ok :: "TransactionManager \<Rightarrow> bool" where
  "workers_ok m \<longleftrightarrow>
     (\<forall>x w. tm_xidToWorker m x = Some w \<longrightarrow> (\<exists>t. trans_of m w = Some t \<and> tr_xid t = x)) \<and>
     (\<forall>x. tm_history m x = Some Csn_InProgress \<or> tm_history m x = Some Csn_Committing \<longleftrightarrow> tm_xidToWorker m x \<noteq> None)"

definition tm_inv :: "nat \<Rightarrow> TransactionManager \<Rightarrow> (nat \<Rightarrow> commit_pc) \<Rightarrow> bool" where
  "tm_inv n m pc \<longleftrightarrow> 5 \<le> unat (tm_csn m) \<and> unat (tm_csn m) \<le> 5 + n \<and> 1 \<le> unat (tm_xid m) \<and> unat (tm_xid m) \<le> 1 + n \<and>
     slots_ok m pc \<and> history_ok m pc \<and> workers_ok m"

lemmas csn_defs = Csn_Invalid_def Csn_Frozen_def Csn_InProgress_def Csn_Aborted_def Csn_Committing_def Csn_Min_def Csn_IsNormal_def
lemmas inv_defs = slots_ok_def history_ok_def workers_ok_def

lemma special_not_normal [simp]:
  "\<not> Csn_IsNormal Csn_Invalid" "\<not> Csn_IsNormal Csn_InProgress" "\<not> Csn_IsNormal Csn_Aborted" "\<not> Csn_IsNormal Csn_Committing"
  "Csn_InProgress \<noteq> Csn_Committing" "Csn_Aborted \<noteq> Csn_InProgress" "Csn_Aborted \<noteq> Csn_Committing" "Csn_Invalid \<noteq> Csn_InProgress"
  "Csn_Invalid \<noteq> Csn_Committing" "Csn_Invalid \<noteq> Csn_Aborted" "Csn_Committing \<noteq> Csn_InProgress" "Csn_InProgress \<noteq> Csn_Aborted"
  "Csn_Committing \<noteq> Csn_Aborted" "Csn_InProgress \<noteq> Csn_Invalid" "Csn_Committing \<noteq> Csn_Invalid" "Csn_Aborted \<noteq> Csn_Invalid"
  "Csn_Frozen \<noteq> Csn_InProgress" "Csn_Frozen \<noteq> Csn_Aborted" "Csn_Frozen \<noteq> Csn_Committing" "Csn_Frozen \<noteq> Csn_Invalid" "\<not> Csn_IsNormal Csn_Frozen"
  "Csn_InProgress \<noteq> Csn_Frozen" "Csn_Aborted \<noteq> Csn_Frozen" "Csn_Committing \<noteq> Csn_Frozen" "Csn_Invalid \<noteq> Csn_Frozen"
  by (simp_all add: csn_defs word_le_nat_alt)

lemma normal_not_special:
  "Csn_IsNormal c \<Longrightarrow> c \<noteq> Csn_InProgress \<and> c \<noteq> Csn_Committing \<and> c \<noteq> Csn_Aborted \<and> c \<noteq> Csn_Invalid \<and> c \<noteq> Csn_Frozen"
  using special_not_normal by metis

lemma less_succ: "unat (x :: u64) < 2 ^ 64 - 1 \<Longrightarrow> y < x + 1 \<longleftrightarrow> y \<le> x"
  by (simp add: word_less_nat_alt word_le_nat_alt unat_word_ariths less_Suc_eq_le)

lemma succ_nat: "unat (x :: u64) < 2 ^ 64 - 1 \<Longrightarrow> unat (x + 1) = unat x + 1"
  by (simp add: unat_word_ariths)

lemma trans_of_upd [simp]:
  "trans_of (m\<lparr>tm_csn := a\<rparr>) = trans_of m" "trans_of (m\<lparr>tm_xid := a\<rparr>) = trans_of m" "trans_of (m\<lparr>tm_mutex := b\<rparr>) = trans_of m"
  "trans_of (m\<lparr>tm_xidToWorker := X\<rparr>) = trans_of m" "trans_of (m\<lparr>tm_history := H\<rparr>) = trans_of m"
  by (simp_all add: trans_of_def fun_eq_iff)

lemma phase_cong: "tm_history m' x = tm_history m x \<Longrightarrow> tm_xidToWorker m' x = tm_xidToWorker m x \<Longrightarrow> phase_ok p x w m' = phase_ok p x w m"
  by (simp add: phase_ok_def split: commit_pc.splits)

lemma slotsD:
  assumes "slots_ok m pc"
  shows "trans_of m w = Some t \<Longrightarrow> slot_ok m (pc w) w t"
    and "trans_of m w = None \<Longrightarrow> pc w = Resting \<or> pc w = Waiting"
    and "trans_of m w = Some t \<Longrightarrow> trans_of m v = Some u \<Longrightarrow> tr_xid t = tr_xid u \<Longrightarrow> w = v"
  using assms unfolding slots_ok_def by blast+

lemma slots_okI:
  assumes "\<And>w t. trans_of m w = Some t \<Longrightarrow> slot_ok m (pc w) w t"
    and "\<And>w. trans_of m w = None \<Longrightarrow> pc w = Resting \<or> pc w = Waiting"
    and "\<And>w v t u. trans_of m w = Some t \<Longrightarrow> trans_of m v = Some u \<Longrightarrow> tr_xid t = tr_xid u \<Longrightarrow> w = v"
  shows "slots_ok m pc"
  using assms unfolding slots_ok_def by blast

lemma workersD:
  assumes "workers_ok m"
  shows "tm_xidToWorker m x = Some w \<Longrightarrow> \<exists>t. trans_of m w = Some t \<and> tr_xid t = x"
    and "tm_history m x = Some Csn_InProgress \<or> tm_history m x = Some Csn_Committing \<longleftrightarrow> tm_xidToWorker m x \<noteq> None"
  using assms unfolding workers_ok_def by blast+

lemma workers_okI:
  assumes "\<And>x w. tm_xidToWorker m x = Some w \<Longrightarrow> \<exists>t. trans_of m w = Some t \<and> tr_xid t = x"
    and "\<And>x. tm_history m x = Some Csn_InProgress \<or> tm_history m x = Some Csn_Committing \<longleftrightarrow> tm_xidToWorker m x \<noteq> None"
  shows "workers_ok m"
  using assms unfolding workers_ok_def by blast

lemma historyD:
  assumes "history_ok m pc"
  shows "tm_history m x = Some c \<Longrightarrow> c \<noteq> Csn_Invalid \<Longrightarrow> x < tm_xid m"
    and "tm_history m x = Some c \<Longrightarrow> Csn_IsNormal c \<Longrightarrow> c < tm_csn m"
    and "tm_history m x = Some c \<Longrightarrow> tm_history m y = Some c \<Longrightarrow> Csn_IsNormal c \<Longrightarrow> x = y"
    and "pc w = Numbered x c \<Longrightarrow> Csn_IsNormal c"
    and "pc w = Numbered x c \<Longrightarrow> c < tm_csn m"
    and "pc w = Numbered x c \<Longrightarrow> tm_history m y \<noteq> Some c"
    and "pc w = Numbered x c \<Longrightarrow> pc v = Numbered y c \<Longrightarrow> v = w"
    and "tm_history m x \<noteq> Some Csn_Frozen"
  using assms unfolding history_ok_def by blast+

lemma history_okI:
  assumes "\<And>x c. tm_history m x = Some c \<Longrightarrow> c \<noteq> Csn_Invalid \<Longrightarrow> x < tm_xid m"
    and "\<And>x c. tm_history m x = Some c \<Longrightarrow> Csn_IsNormal c \<Longrightarrow> c < tm_csn m"
    and "\<And>x y c. tm_history m x = Some c \<Longrightarrow> tm_history m y = Some c \<Longrightarrow> Csn_IsNormal c \<Longrightarrow> x = y"
    and "\<And>w x c. pc w = Numbered x c \<Longrightarrow> Csn_IsNormal c \<and> c < tm_csn m"
    and "\<And>w x c y. pc w = Numbered x c \<Longrightarrow> tm_history m y \<noteq> Some c"
    and "\<And>w x c v y. pc w = Numbered x c \<Longrightarrow> pc v = Numbered y c \<Longrightarrow> v = w"
    and "\<And>x. tm_history m x \<noteq> Some Csn_Frozen"
  shows "history_ok m pc"
proof -
  have "\<forall>x c. tm_history m x = Some c \<and> c \<noteq> Csn_Invalid \<longrightarrow> x < tm_xid m" using assms(1) by blast
  moreover have "\<forall>x c. tm_history m x = Some c \<and> Csn_IsNormal c \<longrightarrow> c < tm_csn m" using assms(2) by blast
  moreover have "\<forall>x y c. tm_history m x = Some c \<and> tm_history m y = Some c \<and> Csn_IsNormal c \<longrightarrow> x = y" using assms(3) by blast
  moreover have "\<forall>w x c. pc w = Numbered x c \<longrightarrow> Csn_IsNormal c \<and> c < tm_csn m \<and> (\<forall>y. tm_history m y \<noteq> Some c) \<and>
      (\<forall>v y. pc v = Numbered y c \<longrightarrow> v = w)" using assms(4-6) by blast
  ultimately show ?thesis unfolding history_ok_def using assms(7) by (intro conjI) simp_all
qed

lemma slot_cong:
  "tm_csn m' = tm_csn m \<Longrightarrow> tm_xid m' = tm_xid m \<Longrightarrow> tm_history m' (tr_xid t) = tm_history m (tr_xid t) \<Longrightarrow>
    tm_xidToWorker m' (tr_xid t) = tm_xidToWorker m (tr_xid t) \<Longrightarrow> slot_ok m' p w t = slot_ok m p w t"
  using phase_cong [of m' "tr_xid t" m] by (simp add: slot_ok_def)

lemma slot_ok_mono:
  assumes "slot_ok m p v t" "tm_csn m \<le> tm_csn m'" "tm_xid m \<le> tm_xid m'" "phase_ok p' (tr_xid t) v m'"
  shows "slot_ok m' p' v t"
  using assms unfolding slot_ok_def by (meson order_less_le_trans order_trans)

lemma inv_slot_step:
  assumes "tm_inv n m pc" "slot_step w m m'"
  shows "tm_inv n m' pc"
proof -
  obtain t t' where t: "trans_of m w = Some t" "m' = set_slot w (Some t') m" "continues (tm_csn m) t t'"
    using assms(2) by (auto simp: slot_step_def)
  have T: "trans_of m' = (trans_of m)(w := Some t')" using trans_of_slot trans_of_len [OF t(1)] by (simp add: t(2) set_slot_def)
  have f: "tm_csn m' = tm_csn m" "tm_xid m' = tm_xid m" "tm_history m' = tm_history m" "tm_xidToWorker m' = tm_xidToWorker m"
    by (simp_all add: t(2) set_slot_def)
  have s: "slots_ok m pc" using assms(1) by (simp add: tm_inv_def)
  have ok: "slot_ok m' p v u = slot_ok m p v u" for p v u using f by (intro slot_cong) simp_all
  have "slot_ok m (pc w) w t'" using slotsD(1) [OF s t(1)] t(3) by (auto simp: slot_ok_def continues_def)
  then have "slots_ok m' pc"
    using slotsD [OF s] t(1,3) by (intro slots_okI) (auto simp: T ok continues_def split: if_splits)
  moreover have "workers_ok m'" using workersD [of m] assms(1) t(1,3)
    by (intro workers_okI) (fastforce simp: T f continues_def tm_inv_def)+
  moreover have "history_ok m' pc = history_ok m pc" by (simp add: history_ok_def f)
  ultimately show ?thesis using assms(1) by (simp add: tm_inv_def f)
qed


lemma inv_Suc: "tm_inv n m pc \<Longrightarrow> tm_inv (Suc n) m pc"
  by (simp add: tm_inv_def)

lemma inv_mutex: "tm_inv n (m\<lparr>tm_mutex := b\<rparr>) pc = tm_inv n m pc"
proof -
  have "slots_ok (m\<lparr>tm_mutex := b\<rparr>) pc = slots_ok m pc"
    using slot_cong [of "m\<lparr>tm_mutex := b\<rparr>" m] by (simp add: slots_ok_def)
  moreover have "history_ok (m\<lparr>tm_mutex := b\<rparr>) pc = history_ok m pc" by (simp add: history_ok_def)
  moreover have "workers_ok (m\<lparr>tm_mutex := b\<rparr>) = workers_ok m" by (simp add: workers_ok_def)
  ultimately show ?thesis by (simp add: tm_inv_def)
qed

lemma inv_default:
  assumes "tm_inv n m pc" "tm_history m x = None"
  shows "tm_inv n (set_history x Csn_Invalid m) pc"
proof -
  let ?m = "set_history x Csn_Invalid m"
  have f: "tm_csn ?m = tm_csn m" "tm_xid ?m = tm_xid m" "tm_history ?m = (tm_history m)(x \<mapsto> Csn_Invalid)" "tm_xidToWorker ?m = tm_xidToWorker m" "trans_of ?m = trans_of m"
    by (simp_all add: set_history_def)
  have s: "slots_ok m pc" and h: "history_ok m pc" and w: "workers_ok m" using assms(1) by (simp_all add: tm_inv_def)
  have "slot_ok ?m (pc v) v t" if "trans_of m v = Some t" for v t
  proof -
    have "slot_ok m (pc v) v t" using slotsD(1) [OF s that] .
    moreover then have "tr_xid t \<noteq> x" using assms(2) by (auto simp: slot_ok_def phase_ok_def split: commit_pc.splits)
    ultimately show ?thesis using slot_cong [of ?m m t] by (simp add: f)
  qed
  then have "slots_ok ?m pc" using slotsD(2,3) [OF s] by (intro slots_okI) (simp_all add: f)
  moreover have "history_ok ?m pc" using historyD [OF h] by (intro history_okI) (auto simp: f dest!: historyD(4) [OF h] split: if_splits)
  moreover have "workers_ok ?m" using workersD [OF w] workersD(2) [OF w, of x] assms(2) by (intro workers_okI) (auto simp: f)
  ultimately show ?thesis using assms(1) by (simp add: tm_inv_def f)
qed

lemma inv_csn:
  assumes "GetTransactionCsn x s = (r, s')" "tm_inv n (ts_tm s) pc"
  shows "tm_inv n (ts_tm s') pc"
  using GetTransactionCsn_effect [OF assms(1)] assms(2) inv_default [OF assms(2), of x] inv_mutex
  by (auto split: if_splits option.splits)

lemma inv_waiting:
  assumes "tm_inv n m pc" "pc w = Resting"
  shows "tm_inv n m (pc(w := Waiting))"
proof -
  have s: "slots_ok m pc" and h: "history_ok m pc" using assms(1) by (simp_all add: tm_inv_def)
  have ph: "slot_ok m Waiting w t = slot_ok m (pc w) w t" for t using assms(2) by (simp add: slot_ok_def phase_ok_def)
  have "slots_ok m (pc(w := Waiting))"
    using slotsD [OF s] by (intro slots_okI) (auto simp: ph)
  moreover have "history_ok m (pc(w := Waiting))" using historyD [OF h] by (intro history_okI) (auto split: if_splits)
  ultimately show ?thesis using assms(1) by (simp add: tm_inv_def)
qed


lemma inv_begin:
  assumes "tm_inv n m pc" "n < 2 ^ 62" "pc w = Resting" "trans_of m w = None" "w < length (tm_transactions m)"
  defines "x \<equiv> tm_xid m"
  defines "m' \<equiv> m\<lparr>tm_xid := x + 1, tm_mutex := False, tm_transactions := (tm_transactions m)[w := Some (new_Transaction x w)],
    tm_xidToWorker := (tm_xidToWorker m)(x \<mapsto> w), tm_history := (tm_history m)(x \<mapsto> Csn_InProgress)\<rparr>"
  shows "tm_inv (Suc n) m' pc"
proof -
  have s: "slots_ok m pc" and h: "history_ok m pc" and ww: "workers_ok m" using assms(1) by (simp_all add: tm_inv_def)
  have u: "unat x < 2 ^ 64 - 1" using assms(1,2) by (simp add: tm_inv_def x_def)
  have f: "tm_csn m' = tm_csn m" "tm_xid m' = x + 1" "tm_history m' = (tm_history m)(x \<mapsto> Csn_InProgress)" "tm_xidToWorker m' = (tm_xidToWorker m)(x \<mapsto> w)"
    by (simp_all add: m'_def)
  have T: "trans_of m' = (trans_of m)(w := Some (new_Transaction x w))"
    using assms(5) by (auto simp: m'_def trans_of_def fun_eq_iff nth_list_update)
  have lt: "y < x \<Longrightarrow> y < x + 1 \<and> y \<noteq> x" "x < x + 1" for y using less_succ [OF u, of y] less_succ [OF u, of x] by auto
  have old: "slot_ok m' (pc v) v t \<and> tr_xid t \<noteq> x" if "trans_of m v = Some t" for v t
  proof -
    have o: "slot_ok m (pc v) v t" by (rule slotsD(1) [OF s that])
    then have "tr_xid t < x" by (simp add: slot_ok_def x_def)
    moreover then have "phase_ok (pc v) (tr_xid t) v m' = phase_ok (pc v) (tr_xid t) v m" by (intro phase_cong) (auto simp: f)
    ultimately show ?thesis using o lt by (auto simp: slot_ok_def f)
  qed
  have "slot_ok m' Resting w (new_Transaction x w)" by (simp add: slot_ok_def new_Transaction_def f phase_ok_def lt)
  then have "slots_ok m' pc"
    using slotsD(2,3) [OF s] old assms(3) by (intro slots_okI) (auto simp: T new_Transaction_def dest: old split: if_splits)
  moreover have "history_ok m' pc"
    using historyD [OF h] lt by (intro history_okI) (auto simp: f x_def [symmetric] dest!: historyD(4) [OF h] split: if_splits)
  moreover have "workers_ok m'"
    using assms(4) by (intro workers_okI) (auto simp: f T new_Transaction_def workersD(2) [OF ww] split: if_splits dest!: workersD(1) [OF ww])
  ultimately show ?thesis using assms(1) succ_nat [OF u] by (simp add: tm_inv_def f) (simp add: x_def)
qed


lemma inv_mark:
  assumes "tm_inv n m pc" "pc w = Resting" "trans_of m w = Some t"
  defines "x \<equiv> tr_xid t"
  defines "m' \<equiv> m\<lparr>tm_mutex := False, tm_history := (tm_history m)(x \<mapsto> Csn_Committing)\<rparr>"
  shows "tm_inv n m' (pc(w := Marked x))"
proof -
  let ?pc = "pc(w := Marked x)"
  have s: "slots_ok m pc" and h: "history_ok m pc" and ww: "workers_ok m" using assms(1) by (simp_all add: tm_inv_def)
  have f: "tm_csn m' = tm_csn m" "tm_xid m' = tm_xid m" "tm_history m' = (tm_history m)(x \<mapsto> Csn_Committing)" "tm_xidToWorker m' = tm_xidToWorker m"
    "trans_of m' = trans_of m" by (simp_all add: m'_def)
  have o: "slot_ok m Resting w t" using slotsD(1) [OF s assms(3)] assms(2) by simp
  have old: "slot_ok m' (?pc v) v u" if "trans_of m v = Some u" for v u
  proof (cases "v = w")
    case True
    then show ?thesis using o that assms(3) by (auto simp: slot_ok_def phase_ok_def f x_def)
  next
    case False
    then have "tr_xid u \<noteq> x" using slotsD(3) [OF s that assms(3)] by (auto simp: x_def)
    then show ?thesis using slotsD(1) [OF s that] slot_cong [of m' m u] False by (simp add: f)
  qed
  have ne: "?pc v = Numbered y c \<Longrightarrow> pc v = Numbered y c" for v y c by (simp split: if_splits)
  have "slots_ok m' ?pc" using slotsD(2,3) [OF s] old assms(3) by (intro slots_okI) (auto simp: f split: if_splits)
  moreover have "history_ok m' ?pc"
    using historyD [OF h] o by (intro history_okI) (auto simp: f x_def slot_ok_def dest!: ne historyD(4) [OF h] split: if_splits)
  moreover have "workers_ok m'"
    using workersD [OF ww] o by (intro workers_okI) (auto simp: f x_def slot_ok_def phase_ok_def)
  ultimately show ?thesis using assms(1) by (simp add: tm_inv_def f)
qed

lemma inv_number:
  assumes "tm_inv n m pc" "n < 2 ^ 62" "pc w = Marked x"
  defines "m' \<equiv> m\<lparr>tm_csn := tm_csn m + 1\<rparr>" and "pc' \<equiv> pc(w := Numbered x (tm_csn m))"
  shows "tm_inv (Suc n) m' pc'"
proof -
  have s: "slots_ok m pc" and h: "history_ok m pc" and ww: "workers_ok m" using assms(1) by (simp_all add: tm_inv_def)
  have u: "unat (tm_csn m) < 2 ^ 64 - 1" "Csn_IsNormal (tm_csn m)" using assms(1,2) by (simp_all add: tm_inv_def csn_defs word_le_nat_alt)
  have f: "tm_csn m' = tm_csn m + 1" "tm_xid m' = tm_xid m" "tm_history m' = tm_history m" "tm_xidToWorker m' = tm_xidToWorker m"
    "trans_of m' = trans_of m" by (simp_all add: m'_def)
  have lt: "y < tm_csn m \<Longrightarrow> y < tm_csn m + 1" "y \<le> tm_csn m \<Longrightarrow> y \<le> tm_csn m + 1" "tm_csn m < tm_csn m + 1" for y
    using less_succ [OF u(1), of y] less_succ [OF u(1), of "tm_csn m"] by auto
  have ph: "phase_ok p x v m' = phase_ok p x v m" for p x v by (rule phase_cong) (simp_all add: f)
  have old: "slot_ok m' (pc' v) v t" if "trans_of m v = Some t" for v t
  proof -
    have o: "slot_ok m (pc v) v t" by (rule slotsD(1) [OF s that])
    have "phase_ok (pc' v) (tr_xid t) v m" using o assms(3) by (cases "v = w") (simp_all add: slot_ok_def pc'_def phase_ok_def)
    then show ?thesis using o by (rule_tac slot_ok_mono [of m "pc v"]) (simp_all add: ph f lt)
  qed
  have new: "tm_history m y \<noteq> Some (tm_csn m)" "pc v \<noteq> Numbered y (tm_csn m)" for v y
    using historyD(2) [OF h, of y "tm_csn m"] u(2) historyD(5) [OF h, of v y "tm_csn m"] by auto
  have "slots_ok m' pc'" using slotsD(2,3) [OF s] old assms(3) by (intro slots_okI) (auto simp: f pc'_def dest: slotsD(2) [OF s, of w] split: if_splits)
  moreover have "history_ok m' pc'"
    using historyD [OF h] lt u(2) new by (intro history_okI) (auto simp: f pc'_def split: if_splits)
  moreover have "workers_ok m'" using workersD [OF ww] by (intro workers_okI) (simp_all add: f)
  ultimately show ?thesis using assms(1) succ_nat [OF u(1)] by (simp add: tm_inv_def f)
qed


lemma inv_publish:
  assumes "tm_inv n m pc" "pc w = Numbered x c"
  defines "m' \<equiv> m\<lparr>tm_mutex := False, tm_xidToWorker := (tm_xidToWorker m)(x := None), tm_history := (tm_history m)(x \<mapsto> c)\<rparr>"
  shows "tm_inv n m' (pc(w := Published c))"
proof -
  let ?pc = "pc(w := Published c)"
  have s: "slots_ok m pc" and h: "history_ok m pc" and ww: "workers_ok m" using assms(1) by (simp_all add: tm_inv_def)
  have f: "tm_csn m' = tm_csn m" "tm_xid m' = tm_xid m" "tm_history m' = (tm_history m)(x \<mapsto> c)" "tm_xidToWorker m' = (tm_xidToWorker m)(x := None)"
    "trans_of m' = trans_of m" by (simp_all add: m'_def)
  obtain t where t: "trans_of m w = Some t" using slotsD(2) [OF s, of w] assms(2) by (cases "trans_of m w") auto
  have o: "slot_ok m (Numbered x c) w t" using slotsD(1) [OF s t] assms(2) by simp
  then have x: "tr_xid t = x" "x < tm_xid m" by (auto simp: slot_ok_def phase_ok_def)
  have c: "Csn_IsNormal c" "c < tm_csn m" "tm_history m y \<noteq> Some c" for y
    using historyD(4-6) [OF h assms(2)] by auto
  have old: "slot_ok m' (?pc v) v u" if "trans_of m v = Some u" for v u
  proof (cases "v = w")
    case True
    then show ?thesis using o that t c x by (auto simp: slot_ok_def phase_ok_def f)
  next
    case False
    then have "tr_xid u \<noteq> x" using slotsD(3) [OF s that t] x by auto
    then show ?thesis using slotsD(1) [OF s that] slot_cong [of m' m u] False by (simp add: f)
  qed
  have uniq: "pc v = Numbered y c \<Longrightarrow> v = w" for v y using historyD(7) [OF h assms(2)] by simp
  have "slots_ok m' ?pc" using slotsD(2,3) [OF s] old t by (intro slots_okI) (auto simp: f split: if_splits)
  moreover have "history_ok m' ?pc"
  proof (rule history_okI)
    show "tm_history m' y = Some d \<Longrightarrow> d \<noteq> Csn_Invalid \<Longrightarrow> y < tm_xid m'" for y d
      using historyD(1) [OF h, of y d] x by (simp add: f split: if_splits)
    show "tm_history m' y = Some d \<Longrightarrow> Csn_IsNormal d \<Longrightarrow> d < tm_csn m'" for y d
      using historyD(2) [OF h, of y d] c by (simp add: f split: if_splits)
    show "tm_history m' y = Some d \<Longrightarrow> tm_history m' z = Some d \<Longrightarrow> Csn_IsNormal d \<Longrightarrow> y = z" for y z d
      using historyD(3) [OF h, of y d z] c by (auto simp: f split: if_splits)
    show "?pc v = Numbered y d \<Longrightarrow> Csn_IsNormal d \<and> d < tm_csn m'" for v y d
      using historyD(4,5) [OF h, of v y d] by (auto simp: f split: if_splits)
    show "?pc v = Numbered y d \<Longrightarrow> tm_history m' z \<noteq> Some d" for v y d z
      using historyD(6) [OF h, of v y d z] uniq [of v y] by (auto simp: f split: if_splits)
    show "?pc v1 = Numbered y d \<Longrightarrow> ?pc v2 = Numbered z d \<Longrightarrow> v2 = v1" for v1 v2 y z d
      using historyD(7) [OF h, of v1 y d v2 z] by (auto split: if_splits)
    show "tm_history m' y \<noteq> Some Csn_Frozen" for y using historyD(8) [OF h, of y] c(1) by (auto simp: f)
  qed
  moreover have "workers_ok m'"
    using normal_not_special [OF c(1)] by (intro workers_okI) (auto simp: f workersD(2) [OF ww] split: if_splits dest!: workersD(1) [OF ww])
  ultimately show ?thesis using assms(1) by (simp add: tm_inv_def f)
qed

text \<open>A slot that is cleared when its transaction is in no map any more.\<close>

lemma inv_clear:
  assumes "tm_inv n m pc" "trans_of m w = Some t" "pc w = Published c"
  shows "tm_inv n (set_slot w None m) (pc(w := Resting))"
proof -
  let ?m = "set_slot w None m" and ?pc = "pc(w := Resting)"
  have s: "slots_ok m pc" and h: "history_ok m pc" and ww: "workers_ok m" using assms(1) by (simp_all add: tm_inv_def)
  have f: "tm_csn ?m = tm_csn m" "tm_xid ?m = tm_xid m" "tm_history ?m = tm_history m" "tm_xidToWorker ?m = tm_xidToWorker m"
    by (simp_all add: set_slot_def)
  have T: "trans_of ?m = (trans_of m)(w := None)" using trans_of_slot trans_of_len [OF assms(2)] by (simp add: set_slot_def)
  have "slot_ok m (Published c) w t" using slotsD(1) [OF s assms(2)] assms(3) by simp
  then have "tm_xidToWorker m (tr_xid t) = None"
    using workersD(2) [OF ww, of "tr_xid t"] normal_not_special [of c] by (auto simp: slot_ok_def phase_ok_def)
  then have nw: "tm_xidToWorker m y \<noteq> Some w" for y using workersD(1) [OF ww, of y w] assms(2) by auto
  have sc: "slot_ok ?m p v u = slot_ok m p v u" for p v u by (rule slot_cong) (simp_all add: f)
  have "slots_ok ?m ?pc" using slotsD [OF s] by (intro slots_okI) (auto simp: T sc split: if_splits)
  moreover have "history_ok ?m ?pc"
    using historyD [OF h] by (intro history_okI) (auto simp: f split: if_splits)
  moreover have "workers_ok ?m"
  proof (rule workers_okI)
    show "tm_xidToWorker ?m y = Some v \<Longrightarrow> \<exists>t. trans_of ?m v = Some t \<and> tr_xid t = y" for y v
      using nw [of y] workersD(1) [OF ww, of y v] by (auto simp: f T)
  qed (use workersD(2) [OF ww] in \<open>simp add: f\<close>)
  ultimately show ?thesis using assms(1) by (simp add: tm_inv_def f)
qed

lemma inv_abort:
  assumes "tm_inv n m pc" "trans_of m w = Some t" "pc w = Resting"
  defines "x \<equiv> tr_xid t"
  defines "m' \<equiv> m\<lparr>tm_mutex := False, tm_transactions := (tm_transactions m)[w := None],
      tm_xidToWorker := (tm_xidToWorker m)(x := None), tm_history := (tm_history m)(x \<mapsto> Csn_Aborted)\<rparr>"
  shows "tm_inv n m' pc"
proof -
  have s: "slots_ok m pc" and h: "history_ok m pc" and ww: "workers_ok m" using assms(1) by (simp_all add: tm_inv_def)
  have f: "tm_csn m' = tm_csn m" "tm_xid m' = tm_xid m" "tm_history m' = (tm_history m)(x \<mapsto> Csn_Aborted)" "tm_xidToWorker m' = (tm_xidToWorker m)(x := None)"
    by (simp_all add: m'_def)
  have T: "trans_of m' = (trans_of m)(w := None)"
    using trans_of_len [OF assms(2)] by (auto simp: m'_def trans_of_def fun_eq_iff nth_list_update)
  have o: "slot_ok m Resting w t" using slotsD(1) [OF s assms(2)] assms(3) by simp
  have old: "slot_ok m' (pc v) v u" if "trans_of m v = Some u" "v \<noteq> w" for v u
  proof -
    have "tr_xid u \<noteq> x" using slotsD(3) [OF s that(1) assms(2)] that(2) by (auto simp: x_def)
    then show ?thesis using slotsD(1) [OF s that(1)] slot_cong [of m' m u] by (simp add: f)
  qed
  have nw: "tm_xidToWorker m y = Some w \<Longrightarrow> y = x" for y using workersD(1) [OF ww, of y w] assms(2) by (auto simp: x_def)
  have "slots_ok m' pc" using slotsD(2,3) [OF s] old assms(3) by (intro slots_okI) (auto simp: T split: if_splits)
  moreover have "history_ok m' pc"
    using historyD [OF h] o by (intro history_okI) (auto simp: f x_def slot_ok_def dest!: historyD(4) [OF h] split: if_splits)
  moreover have "workers_ok m'"
  proof (rule workers_okI)
    show "tm_xidToWorker m' y = Some v \<Longrightarrow> \<exists>t. trans_of m' v = Some t \<and> tr_xid t = y" for y v
      using nw [of y] workersD(1) [OF ww, of y v] by (auto simp: f T split: if_splits)
  qed (use workersD(2) [OF ww] in \<open>simp add: f\<close>)
  ultimately show ?thesis using assms(1) by (simp add: tm_inv_def f)
qed

lemma numbered_committing:
  assumes "tm_inv n m pc" "pc w = Numbered x c"
  shows "tm_history m x = Some Csn_Committing"
proof -
  have s: "slots_ok m pc" using assms(1) by (simp add: tm_inv_def)
  obtain t where t: "trans_of m w = Some t" using slotsD(2) [OF s, of w] assms(2) by (cases "trans_of m w") auto
  show ?thesis using slotsD(1) [OF s t] assms(2) by (simp add: slot_ok_def phase_ok_def)
qed

text \<open>How one step can change what the history says of a transaction.\<close>

inductive history_step :: "TransactionManager \<Rightarrow> (nat \<Rightarrow> commit_pc) \<Rightarrow> TransactionId \<Rightarrow> CommitSeqNumber option \<Rightarrow> (nat \<Rightarrow> commit_pc) \<Rightarrow> bool"
  for m pc x where
  same: "history_step m pc x (tm_history m x) pc'"
| fresh: "tm_history m x = None \<or> tm_history m x = Some Csn_Invalid \<Longrightarrow> history_step m pc x h pc'"
| committing: "tm_history m x = Some Csn_InProgress \<Longrightarrow> (\<And>w d. pc' w \<noteq> Numbered x d) \<Longrightarrow> history_step m pc x (Some Csn_Committing) pc'"
| aborted: "tm_history m x = Some Csn_InProgress \<Longrightarrow> history_step m pc x (Some Csn_Aborted) pc'"
| committed: "pc w = Numbered x c \<Longrightarrow> history_step m pc x (Some c) pc'"

definition numbers_grow :: "TransactionManager \<Rightarrow> (nat \<Rightarrow> commit_pc) \<Rightarrow> TransactionManager \<Rightarrow> (nat \<Rightarrow> commit_pc) \<Rightarrow> bool" where
  "numbers_grow m pc m' pc' \<longleftrightarrow> tm_csn m \<le> tm_csn m' \<and> (\<forall>v x d. pc' v = Numbered x d \<longrightarrow> pc v = Numbered x d \<or> tm_csn m \<le> d)"

text \<open>A transaction is late for a number when it can only become visible to later ones, early when it is visible.\<close>

definition late :: "CommitSeqNumber \<Rightarrow> TransactionId \<Rightarrow> TransactionManager \<Rightarrow> (nat \<Rightarrow> commit_pc) \<Rightarrow> bool" where
  "late b x m pc \<longleftrightarrow> b \<le> tm_csn m \<and> (\<exists>c. tm_history m x = Some c \<and>
     (c = Csn_InProgress \<or> c = Csn_Aborted \<or> c = Csn_Committing \<and> (\<forall>w d. pc w = Numbered x d \<longrightarrow> b \<le> d) \<or> Csn_IsNormal c \<and> b \<le> c))"

definition early :: "CommitSeqNumber \<Rightarrow> TransactionId \<Rightarrow> TransactionManager \<Rightarrow> bool" where
  "early b x m \<longleftrightarrow> (\<exists>c. tm_history m x = Some c \<and> Csn_IsNormal c \<and> c < b)"

lemma late_step:
  assumes "late b x m pc" "history_step m pc x (tm_history m' x) pc'" "numbers_grow m pc m' pc'" "tm_inv n m pc"
  shows "late b x m' pc'"
proof -
  obtain c where c: "tm_history m x = Some c" and b: "b \<le> tm_csn m" "tm_csn m \<le> tm_csn m'"
    and alt: "c = Csn_InProgress \<or> c = Csn_Aborted \<or> c = Csn_Committing \<and> (\<forall>w d. pc w = Numbered x d \<longrightarrow> b \<le> d) \<or> Csn_IsNormal c \<and> b \<le> c"
    using assms(1,3) by (auto simp: late_def numbers_grow_def)
  have b': "b \<le> tm_csn m'" using b by (rule order_trans)
  have grow: "pc' v = Numbered x d \<Longrightarrow> pc v = Numbered x d \<or> b \<le> d" for v d
    using assms(3) b(1) unfolding numbers_grow_def by (meson order_trans)
  have num: "pc w = Numbered x d \<Longrightarrow> c = Csn_Committing \<and> Csn_IsNormal d" for w d
    using numbered_committing [OF assms(4), of w x d] historyD(4) [of m pc w x d] assms(4) c by (auto simp: tm_inv_def)
  from assms(2) show ?thesis
  proof cases
    case same
    then show ?thesis using c alt b' grow by (auto simp: late_def)
  next
    case (committed w d)
    then show ?thesis using num [of w d] alt b' by (auto simp: late_def)
  qed (use c alt b' in \<open>auto simp: late_def\<close>)
qed

lemma early_step:
  assumes "early b x m" "history_step m pc x (tm_history m' x) pc'" "tm_inv n m pc"
  shows "early b x m'"
proof -
  obtain c where c: "tm_history m x = Some c" "Csn_IsNormal c" "c < b" using assms(1) by (auto simp: early_def)
  from assms(2) show ?thesis
  proof cases
    case (committed w d)
    then show ?thesis using numbered_committing [OF assms(3), of w x d] c by simp
  qed (use c in \<open>auto simp: early_def\<close>)
qed

lemma resting_in_progress:
  assumes "tm_inv n m pc" "trans_of m w = Some t" "pc w = Resting"
  shows "tm_history m (tr_xid t) = Some Csn_InProgress" "pc v \<noteq> Numbered (tr_xid t) c"
proof -
  have s: "slots_ok m pc" using assms(1) by (simp add: tm_inv_def)
  show p: "tm_history m (tr_xid t) = Some Csn_InProgress" using slotsD(1) [OF s assms(2)] assms(3) by (simp add: slot_ok_def phase_ok_def)
  show "pc v \<noteq> Numbered (tr_xid t) c" using numbered_committing [OF assms(1), of v "tr_xid t" c] p by auto
qed

lemma fresh_xid: "tm_inv n m pc \<Longrightarrow> tm_history m (tm_xid m) = None \<or> tm_history m (tm_xid m) = Some Csn_Invalid"
  using historyD(1) [of m pc "tm_xid m"] by (cases "tm_history m (tm_xid m)") (auto simp: tm_inv_def)

lemma default_step: "history_step m pc y (tm_history (case tm_history m x of None \<Rightarrow> set_history x Csn_Invalid m | Some _ \<Rightarrow> m) y) pc'"
  by (cases "tm_history m x"; cases "y = x") (use history_step.same [of m pc y pc'] in \<open>auto simp: set_history_def intro: history_step.fresh\<close>)

lemma slot_facts:
  assumes "tm_inv n m pc" "slot_may_step w m m'"
  shows "tm_inv (Suc n) m' pc \<and> history_step m pc y (tm_history m' y) pc \<and> numbers_grow m pc m' pc"
proof (cases "m' = m")
  case True
  then show ?thesis using inv_Suc [OF assms(1)] history_step.same [of m pc y] by (simp add: numbers_grow_def)
next
  case False
  then have e: "slot_step w m m'" using assms(2) by (simp add: slot_may_step_def)
  then show ?thesis using inv_Suc [OF inv_slot_step [OF assms(1) e]] history_step.same [of m pc y]
    by (auto simp: numbers_grow_def slot_step_def set_slot_def)
qed

context undo_applying
begin

lemma step_facts:
  assumes "tm_step apply_undo (s, pc) (s', pc')" "tm_inv n (ts_tm s) pc" "n < 2 ^ 62"
  shows "tm_inv (Suc n) (ts_tm s') pc' \<and> history_step (ts_tm s) pc y (tm_history (ts_tm s') y) pc' \<and> numbers_grow (ts_tm s) pc (ts_tm s') pc'"
  using assms(1)
proof cases
  case (start w)
  note e = Begin_effect [OF start(3)]
  have "slots_ok (ts_tm s) pc" using assms(2) by (simp add: tm_inv_def)
  then have "trans_of (ts_tm s) w = Some t \<Longrightarrow> tr_latched t" for t using slotsD(1) [of "ts_tm s" pc w t] by (simp add: slot_ok_def)
  then have 1: "trans_of (ts_tm s) w = None" "w < length (tm_transactions (ts_tm s))" using e by (cases "trans_of (ts_tm s) w"; auto)+
  show ?thesis using e inv_begin [OF assms(2,3) start(2) 1] fresh_xid [OF assms(2)] start(1) history_step.same [of "ts_tm s" pc y]
    by (auto simp: numbers_grow_def intro: history_step.fresh)
next
  case (statement w)
  have "slot_may_step w (ts_tm s) (ts_tm s')" using Statement_effect [OF statement(3)] by (simp add: slot_may_step_def)
  from slot_facts [OF assms(2) this] show ?thesis using statement(1) by simp
next
  case (undo w r0 r)
  show ?thesis using slot_facts [OF assms(2) InsertUndo_effect [OF undo(3)]] undo(1) by simp
next
  case (wal w logRecord r)
  show ?thesis using slot_facts [OF assms(2) WriteWAL_effect [OF wal(3)]] wal(1) by simp
next
  case (status w st r)
  show ?thesis using slot_facts [OF assms(2) SetStatus_effect [OF status(3)]] status(1) by simp
next
  case (read w x c)
  show ?thesis using GetTransactionCsn_effect [OF read(3)] inv_Suc [OF inv_csn [OF read(3) assms(2)]] read(1) default_step [of "ts_tm s" pc y x pc']
    by (auto simp: numbers_grow_def set_history_def split: if_splits option.splits)
next
  case (stuck w x msg)
  show ?thesis using GetTransactionCsn_effect [OF stuck(3)] inv_Suc [OF inv_waiting [OF inv_csn [OF stuck(3) assms(2)] stuck(2)]] stuck(1)
      default_step [of "ts_tm s" pc y x pc'] history_step.same [of "ts_tm s" pc y pc']
    by (auto simp: numbers_grow_def set_history_def split: if_splits option.splits)
next
  case (mark w x)
  obtain t where t: "trans_of (ts_tm s) w = Some t" "tr_xid t = x"
    and e: "ts_tm s' = (ts_tm s)\<lparr>tm_mutex := False, tm_history := (tm_history (ts_tm s))(x \<mapsto> Csn_Committing)\<rparr>"
    using Mark_effect [OF mark(3)] by auto
  show ?thesis using inv_Suc [OF inv_mark [OF assms(2) mark(2) t(1)]] t(2) e resting_in_progress [OF assms(2) t(1) mark(2)] mark(1)
      history_step.same [of "ts_tm s" pc y pc']
    by (auto simp: numbers_grow_def intro!: history_step.committing split: if_splits)
next
  case (number w x c)
  note e = Number_effect [OF number(3)]
  have "tm_csn (ts_tm s) \<le> tm_csn (ts_tm s) + 1"
    using assms(2,3) less_succ [of "tm_csn (ts_tm s)" "tm_csn (ts_tm s)"] by (simp add: tm_inv_def)
  then show ?thesis using e inv_number [OF assms(2,3) number(2)] number(1) history_step.same [of "ts_tm s" pc y pc']
    by (auto simp: numbers_grow_def split: if_splits)
next
  case (publish w x c)
  note e = end_in_table_effect [OF publish(3) [unfolded Commit_publish_def]]
  show ?thesis using e inv_Suc [OF inv_publish [OF assms(2) publish(2)]] publish(1,2) history_step.same [of "ts_tm s" pc y pc']
    by (auto simp: numbers_grow_def intro: history_step.committed split: if_splits)
next
  case (finish w c)
  note e = Finish_effect [OF finish(3)]
  have "slots_ok (ts_tm s) pc" using assms(2) by (simp add: tm_inv_def)
  then obtain t where "trans_of (ts_tm s) w = Some t" using slotsD(2) [of "ts_tm s" pc w] finish(2) by (cases "trans_of (ts_tm s) w") auto
  then show ?thesis using e inv_Suc [OF inv_clear [OF assms(2) _ finish(2)]] finish(1) history_step.same [of "ts_tm s" pc y pc']
    by (auto simp: numbers_grow_def set_slot_def split: if_splits)
next
  case (abort w)
  obtain t where t: "trans_of (ts_tm s) w = Some t" and e: "ts_tm s' = (ts_tm s)\<lparr>tm_mutex := False, tm_transactions := (tm_transactions (ts_tm s))[w := None],
      tm_xidToWorker := (tm_xidToWorker (ts_tm s))(tr_xid t := None), tm_history := (tm_history (ts_tm s))(tr_xid t \<mapsto> Csn_Aborted)\<rparr>"
    using Abort_effect [OF abort(3)] by auto
  show ?thesis using inv_Suc [OF inv_abort [OF assms(2) t abort(2)]] e resting_in_progress(1) [OF assms(2) t abort(2)] abort(1)
      history_step.same [of "ts_tm s" pc y pc']
    by (auto simp: numbers_grow_def intro: history_step.aborted)
next
  case elsewhere
  then show ?thesis using inv_Suc [OF assms(2)] history_step.same [of "ts_tm s" pc y pc'] by (simp add: numbers_grow_def)
qed

end

section \<open>Runs\<close>

lemma new_inv: "tm_inv 0 (new_TransactionManager n) (\<lambda>_. Resting)"
proof -
  have "trans_of (new_TransactionManager n) w = None" for w by (simp add: trans_of_def new_TransactionManager_def)
  then show ?thesis
    by (auto simp: tm_inv_def intro!: slots_okI history_okI workers_okI) (simp_all add: new_TransactionManager_def Csn_Min_def Xid_Min_def)
qed

lemma visible_verdict:
  assumes "tuple_is_visible w sn h s = (Inr r, s')" "trans_of (ts_tm s) w = Some t" "tr_xid t \<noteq> th_xid h" "tm_inv n (ts_tm s) pc"
    and "sn_CSN sn \<le> tm_csn (ts_tm s)"
  shows "tm_inv n (ts_tm s') pc \<and> tm_csn (ts_tm s') = tm_csn (ts_tm s) \<and>
    (if r then early (sn_CSN sn) (th_xid h) (ts_tm s) \<and> early (sn_CSN sn) (th_xid h) (ts_tm s')
     else late (sn_CSN sn) (th_xid h) (ts_tm s) pc \<and> late (sn_CSN sn) (th_xid h) (ts_tm s') pc)"
proof -
  have "MyTransaction w s = (Inr t, s)" using assms(2) by (rule MyTransaction_run)
  then have run: "bindM (GetTransactionCsn (th_xid h)) (\<lambda>csn.
       thenM (assertM ''!(csn.IsInvalid() || csn.IsCommitting())'' (csn \<noteq> Csn_Invalid \<and> csn \<noteq> Csn_Committing)) (
       if csn = Csn_InProgress \<or> csn = Csn_Aborted then retM False
       else thenM (assertM ''csn.IsFrozen() || csn.IsNormal()'' (csn = Csn_Frozen \<or> Csn_IsNormal csn))
         (retM (csn = Csn_Frozen \<or> csn < sn_CSN sn)))) s = (Inr r, s')"
    using assms(1,3) by (simp add: tuple_is_visible_def bindM_def)
  then obtain c s1 where g: "GetTransactionCsn (th_xid h) s = (Inr c, s1)" and r: "thenM (assertM ''!(csn.IsInvalid() || csn.IsCommitting())'' (c \<noteq> Csn_Invalid \<and> c \<noteq> Csn_Committing)) (
       if c = Csn_InProgress \<or> c = Csn_Aborted then retM False
       else thenM (assertM ''csn.IsFrozen() || csn.IsNormal()'' (c = Csn_Frozen \<or> Csn_IsNormal c))
         (retM (c = Csn_Frozen \<or> c < sn_CSN sn))) s1 = (Inr r, s')" by (rule bindM_eq_okE)
  have c: "c \<noteq> Csn_Invalid" "s' = s1" "r \<longleftrightarrow> c \<noteq> Csn_InProgress \<and> c \<noteq> Csn_Aborted \<and> (c = Csn_Frozen \<or> Csn_IsNormal c \<and> c < sn_CSN sn)"
    "c = Csn_InProgress \<or> c = Csn_Aborted \<or> c = Csn_Frozen \<or> Csn_IsNormal c"
    using r by (auto simp: cm_simps split: if_splits)
  have h: "tm_history (ts_tm s) (th_xid h) = Some c" "tm_history (ts_tm s1) (th_xid h) = Some c" "tm_csn (ts_tm s1) = tm_csn (ts_tm s)"
    using GetTransactionCsn_effect [OF g] c(1) by (auto split: if_splits option.splits)
  have "c \<noteq> Csn_Frozen" using historyD(8) [of "ts_tm s" pc "th_xid h"] assms(4) h(1) by (auto simp: tm_inv_def)
  then show ?thesis using inv_csn [OF g assms(4)] c h assms(5) by (auto simp: early_def late_def not_less)
qed

lemma early_late: "early b x m \<Longrightarrow> \<not> late b x m pc"
  by (auto simp: early_def late_def)

lemma blocked_GetTransactionCsn: "tm_mutex (ts_tm s) \<Longrightarrow> GetTransactionCsn x s = (Inl (Blocked ''TransactionManager::_mutex''), s)"
  by (simp add: GetTransactionCsn_def tm_simps)

context undo_applying
begin

lemma run_facts:
  assumes "tm_run apply_undo n c c'" "tm_inv k (ts_tm (fst c)) (snd c)" "k + n \<le> 2 ^ 62"
  shows "tm_inv (k + n) (ts_tm (fst c')) (snd c') \<and> tm_csn (ts_tm (fst c)) \<le> tm_csn (ts_tm (fst c')) \<and>
    (late b x (ts_tm (fst c)) (snd c) \<longrightarrow> late b x (ts_tm (fst c')) (snd c')) \<and> (early b x (ts_tm (fst c)) \<longrightarrow> early b x (ts_tm (fst c')))"
  using assms
proof (induction rule: tm_run.induct)
  case (more n c c' c'')
  then have ih: "tm_inv (k + n) (ts_tm (fst c')) (snd c')" "tm_csn (ts_tm (fst c)) \<le> tm_csn (ts_tm (fst c'))"
    "late b x (ts_tm (fst c)) (snd c) \<longrightarrow> late b x (ts_tm (fst c')) (snd c')" "early b x (ts_tm (fst c)) \<longrightarrow> early b x (ts_tm (fst c'))"
    by (simp_all add: add.assoc)
  have "tm_step apply_undo (fst c', snd c') (fst c'', snd c'')" using more.hyps(2) by simp
  note f = step_facts [OF this ih(1)]
  have "tm_csn (ts_tm (fst c)) \<le> tm_csn (ts_tm (fst c''))"
    using ih(2) f [of x] more.prems(2) by (auto simp: numbers_grow_def intro: order_trans)
  then show ?case using f [of x] more.prems(2) ih late_step [of b x "ts_tm (fst c')" "snd c'" "ts_tm (fst c'')" "snd c''"]
      early_step [of b x "ts_tm (fst c')" "snd c'" "ts_tm (fst c'')" "snd c''"] by simp
qed simp

lemma visibility_stable:
  assumes "tm_run apply_undo n (s0, \<lambda>_. Resting) (s, pc)" "ts_tm s0 = new_TransactionManager k" "n + n' \<le> 2 ^ 62"
    and "trans_of (ts_tm s) w = Some t" "tr_snapshot t = Some sn" "tuple_is_visible w sn h s = (Inr r, s1)"
    and "tm_run apply_undo n' (s1, pc) (s2, pc2)" "trans_of (ts_tm s2) w = Some t2" "tr_xid t2 = tr_xid t" "tuple_is_visible w sn h s2 = (Inr r2, s3)"
  shows "r2 = r"
proof (cases "tr_xid t = th_xid h")
  case True
  have "MyTransaction w s = (Inr t, s)" "MyTransaction w s2 = (Inr t2, s2)" using MyTransaction_run assms(4,8) by blast+
  then show ?thesis using assms(6,9,10) True by (auto simp: tuple_is_visible_def bindM_def retM_def split: if_splits)
next
  case False
  have inv: "tm_inv n (ts_tm s) pc" using run_facts [OF assms(1), of 0] new_inv assms(2,3) by simp
  then have "slot_ok (ts_tm s) (pc w) w t" using slotsD(1) assms(4) by (simp add: tm_inv_def)
  then have b: "sn_CSN sn \<le> tm_csn (ts_tm s)" using assms(5) by (simp add: slot_ok_def)
  note v = visible_verdict [OF assms(6,4) False inv b]
  note f = run_facts [OF assms(7), of n "sn_CSN sn" "th_xid h"]
  have inv2: "tm_inv (n + n') (ts_tm s2) pc2" using f v assms(3) by simp
  have "tm_csn (ts_tm s1) \<le> tm_csn (ts_tm s2)" using f v assms(3) by simp
  then have b2: "sn_CSN sn \<le> tm_csn (ts_tm s2)" using b v by (auto intro: order_trans)
  have d: "if r then early (sn_CSN sn) (th_xid h) (ts_tm s2) else late (sn_CSN sn) (th_xid h) (ts_tm s2) pc2"
    using f v assms(3) by (auto split: if_splits)
  have "tr_xid t2 \<noteq> th_xid h" using False assms(9) by simp
  from visible_verdict [OF assms(10,8) this inv2 b2] d show ?thesis
    by (auto dest: early_late split: if_splits)
qed

lemma blocked_step:
  assumes "tm_step apply_undo (s, pc) (s', pc')" "tm_mutex (ts_tm s)"
  shows "tm_mutex (ts_tm s') \<and> tm_history (ts_tm s') = tm_history (ts_tm s)"
  using assms(1)
proof cases
  case (start w)
  then show ?thesis using assms(2) Begin_effect by blast
next
  case (publish w x c)
  then show ?thesis using assms(2) end_in_table_effect by (fastforce simp: Commit_publish_def)
next
  case (mark w x)
  then show ?thesis using assms(2) Mark_effect by fastforce
next
  case (abort w)
  then show ?thesis using assms(2) Abort_effect by fastforce
next
  case (read w x c)
  then show ?thesis using assms(2) blocked_GetTransactionCsn [of s x] by simp
next
  case (stuck w x msg)
  then show ?thesis using assms(2) blocked_GetTransactionCsn [of s x] by simp
qed (use assms(2) Statement_effect InsertUndo_effect WriteWAL_effect SetStatus_effect Number_effect Finish_effect in
  \<open>fastforce simp: slot_may_step_def slot_step_def set_slot_def\<close>)+

lemma blocked_run:
  assumes "tm_run apply_undo n c c'" "tm_mutex (ts_tm (fst c))"
  shows "tm_mutex (ts_tm (fst c')) \<and> tm_history (ts_tm (fst c')) = tm_history (ts_tm (fst c))"
  using assms
proof (induction rule: tm_run.induct)
  case (more n c c' c'')
  then show ?case using blocked_step [of "fst c'" "snd c'" "fst c''" "snd c''"] by simp
qed simp

end

end
