(* ===== verification/Mimi_HeapTable.thy ===== *)
theory Mimi_HeapTable
  imports Mimi_TransOps
begin

text \<open>
  Heap tables: run-time tuples (\<open>executor/VirtualTuple.hpp\<close>, \<open>access/heap/HeapTuple.cpp\<close>), the operations of
  \<open>access/heap/HeapTable.cpp\<close>, the application of undo records (\<open>undo/UndoApplierVisitor.cpp\<close>,
  \<open>HeapResourceManager.cpp\<close>) and the scan (\<open>HeapTableScan.cpp\<close>). Scopes of pins and latches are the
  combinators \<open>with_pin\<close> and \<open>with_lock\<close>, which release on return and on exceptions. A latch that the
  worker already holds, or that another one holds, is \<open>Blocked\<close>. A datum by reference carries the bytes
  it pointed to when it was read.
\<close>

unbundle bit_operations_syntax

section \<open>Tuples at run time\<close>

record HeapTuple =
  hp_descriptor :: TupleDescriptor
  hp_tuple :: HeapPageTuple
  hp_tid :: TupleId

datatype ITuple = VirtualTuple "Datum list" "bool list" | HeapITuple HeapTuple

definition VirtualTuple_Get :: "Datum list \<Rightarrow> bool list \<Rightarrow> AttrNumber \<Rightarrow> Datum option res" where
  "VirtualTuple_Get values isnull attno =
     bindR (ToIndex attno) (\<lambda>idx.
     bindR (vec_at isnull idx) (\<lambda>null.
     if null then Inr None else bindR (vec_at values idx) (\<lambda>d. Inr (Some d))))"

definition HeapTuple_GetAttribute :: "HeapTuple \<Rightarrow> AttrNumber \<Rightarrow> Datum option res" where
  "HeapTuple_GetAttribute t attno =
     (if GetMaxAttrNumber (hp_descriptor t) < attno
      then Inl (RuntimeError ''provided attribute number greater than available'')
      else VirtualTuple_Get (hpt_values (hp_tuple t)) (hpt_isnull (hp_tuple t)) attno)"

definition GetAttribute :: "ITuple \<Rightarrow> AttrNumber \<Rightarrow> Datum option res" where
  "GetAttribute tup attno = (case tup of
     VirtualTuple values isnull \<Rightarrow> VirtualTuple_Get values isnull attno
   | HeapITuple t \<Rightarrow> HeapTuple_GetAttribute t attno)"

definition GetMaxAttno :: "ITuple \<Rightarrow> AttrNumber" where
  "GetMaxAttno tup = (case tup of VirtualTuple values isnull \<Rightarrow> word_of_nat (length values)
     | HeapITuple t \<Rightarrow> GetMaxAttrNumber (hp_descriptor t))"

text \<open>\<open>dynamic_cast<HeapTuple &>\<close>\<close>

definition as_HeapTuple :: "ITuple \<Rightarrow> HeapTuple res" where
  "as_HeapTuple tup = (case tup of HeapITuple t \<Rightarrow> Inr t | VirtualTuple _ _ \<Rightarrow> Inl (LogicError ''std::bad_cast''))"

section \<open>Latches and pins with their scopes\<close>

definition contents_latch :: "Buffer \<Rightarrow> ('x trans_state_scheme, nat) cm" where
  "contents_latch b =
     thenM (assertM ''this->IsValid()'' (Buffer_IsValid b)) (
     bindM (entry (bf_blockId b - 1)) (\<lambda>e. case ce_Buffer e of
       None \<Rightarrow> raiseM (Undefined ''latch of a null buffer'') | Some k \<Rightarrow> retM k))"

definition Buffer_Lock :: "Buffer \<Rightarrow> ('x trans_state_scheme, unit) cm" where
  "Buffer_Lock b = bindM (contents_latch b) (\<lambda>k. bindM (getM (\<lambda>s. ts_contents s k)) (\<lambda>held.
     if held then raiseM (Blocked ''buffer latch'')
     else updM (\<lambda>s. s\<lparr>ts_contents := (ts_contents s)(k := True)\<rparr>)))"

definition Buffer_Unlock :: "Buffer \<Rightarrow> ('x trans_state_scheme, unit) cm" where
  "Buffer_Unlock b = bindM (contents_latch b) (\<lambda>k. updM (\<lambda>s. s\<lparr>ts_contents := (ts_contents s)(k := False)\<rparr>))"

definition with_lock :: "Buffer \<Rightarrow> ('x trans_state_scheme, 'a) cm \<Rightarrow> ('x trans_state_scheme, 'a) cm" where
  "with_lock b m = thenM (Buffer_Lock b) (finallyM m (Buffer_Unlock b))"

definition with_pin :: "PageTag \<Rightarrow> (BufferPin \<Rightarrow> ('x trans_state_scheme, 'a) cm) \<Rightarrow> ('x trans_state_scheme, 'a) cm" where
  "with_pin tag f = bindM (GetBuffer tag) (\<lambda>pin. finallyM (f pin) (BufferPin_destroy pin))"

definition page_of_pin :: "BufferPin \<Rightarrow> ('x trans_state_scheme, page) cm" where
  "page_of_pin pin = Buffer_GetContents (bp_buffer pin)"

definition set_page_of_pin :: "BufferPin \<Rightarrow> page \<Rightarrow> ('x trans_state_scheme, unit) cm" where
  "set_page_of_pin pin p = Buffer_SetContents (bp_buffer pin) p"

section \<open>HeapTable\<close>

record HeapTable =
  tb_tableId :: Oid
  tb_descriptor :: TupleDescriptor

definition form_attr :: "ITuple \<Rightarrow> AttrNumber \<Rightarrow> Datum list \<times> bool list \<times> bool \<Rightarrow> (Datum list \<times> bool list \<times> bool) res" where
  "form_attr tup attno st = (case st of (values, isnull, anyNull) \<Rightarrow>
     bindR (GetAttribute tup attno) (\<lambda>datum.
     bindR (ToIndex attno) (\<lambda>idx. case datum of
       Some d \<Rightarrow> Inr (values[idx := d], isnull, anyNull)
     | None \<Rightarrow> Inr (values, isnull[idx := True], True))))"

definition formHeapPageTuple :: "nat \<Rightarrow> HeapTable \<Rightarrow> ITuple \<Rightarrow> ('x trans_state_scheme, HeapPageTuple) cm" where
  "formHeapPageTuple w tb tup =
     (let maxAttr = GetMaxAttrNumber (tb_descriptor tb) in
      bindM (liftR (foldR (form_attr tup) (attr_nums maxAttr)
        (replicate (unat maxAttr) (Scalar 0), replicate (unat maxAttr) False, False))) (\<lambda>(values, isnull, anyNull).
      let flags = (if anyNull then HeapTupleFlags_HasNulls else 0) in
      bindM (MyTransaction w) (\<lambda>mine.
      retM \<lparr>hpt_header = \<lparr>th_xid = tr_xid mine, th_undo = Usn_Invalid, th_flags = flags\<rparr>,
        hpt_values = values, hpt_isnull = isnull\<rparr>)))"

primrec search_pages :: "HeapTable \<Rightarrow> u64 \<Rightarrow> nat list \<Rightarrow> ('x trans_state_scheme, BufferPin option) cm" where
  "search_pages tb freeSpace [] = retM None"
| "search_pages tb freeSpace (p # ps) =
     bindM (GetBuffer \<lparr>Relid = tb_tableId tb, PageNo = word_of_nat p\<rparr>) (\<lambda>pin.
     thenM (page_of_pin pin) (
     bindM (with_lock (bp_buffer pin) (bindM (page_of_pin pin) (\<lambda>page. retM (GetFreeSpace page < freeSpace)))) (\<lambda>full.
     if full then thenM (BufferPin_destroy pin) (search_pages tb freeSpace ps)
     else retM (Some pin))))"

definition searchPageFreeSpace :: "HeapTable \<Rightarrow> u64 \<Rightarrow> ('x trans_state_scheme, BufferPin) cm" where
  "searchPageFreeSpace tb freeSpace =
     bindM (RelFile_Open (tb_tableId tb)) (\<lambda>file.
     bindM (RelFile_GetPagesCount file) (\<lambda>npages.
     bindM (search_pages tb freeSpace [0..<unat npages]) (\<lambda>found. case found of
       Some pin \<Rightarrow> retM pin
     | None \<Rightarrow>
         bindM (ExtendRelation (tb_tableId tb)) (\<lambda>pin.
         thenM (page_of_pin pin) (
         thenM (with_lock (bp_buffer pin) (bindM (page_of_pin pin) (\<lambda>page.
           if IsNew page then set_page_of_pin pin (Init page) else retM ()))) (
         thenM (with_lock (bp_buffer pin) (bindM (page_of_pin pin) (\<lambda>page.
           assertM ''page.GetFreeSpace() < freeSpace'' (GetFreeSpace page < freeSpace))))
         (retM pin)))))))"

text \<open>
  One round of the insertion loop: whether the tuple was inserted. The serialised tuple was made
  before the undo record exists, and is not made again.
\<close>

definition insert_on_page :: "nat \<Rightarrow> HeapTable \<Rightarrow> byte list \<Rightarrow> BufferPin \<Rightarrow> ('x trans_state_scheme, unit) cm" where
  "insert_on_page w tb heapTuple pin =
     bindM (page_of_pin pin) (\<lambda>page.
     let newTupId = \<lparr>tid_pageno = PageNo (bp_tag pin), tid_itemid = ItemsCount page\<rparr> in
     bindM (InsertUndo w (DeleteUndoRecord (tb_tableId tb) newTupId)) (\<lambda>usn.
     bindM (MyTransaction w) (\<lambda>mine.
     bindM (WriteLogRecord (tr_xid mine) (InsertHeapWALRecord newTupId heapTuple)) (\<lambda>lsn.
     bindM (liftR (page_insert lsn heapTuple page)) (\<lambda>page'.
     set_page_of_pin pin page')))))"

definition insert_round :: "nat \<Rightarrow> HeapTable \<Rightarrow> byte list \<Rightarrow> ('x trans_state_scheme, bool) cm" where
  "insert_round w tb heapTuple =
     (let freeSpace = word_of_nat (length heapTuple) + 4 in
      bindM (searchPageFreeSpace tb freeSpace) (\<lambda>pin.
      finallyM (with_lock (bp_buffer pin) (bindM (page_of_pin pin) (\<lambda>page.
        if GetFreeSpace page < freeSpace then retM False
        else thenM (insert_on_page w tb heapTuple pin) (retM True)))) (BufferPin_destroy pin)))"

primrec insert_loop :: "nat \<Rightarrow> nat \<Rightarrow> HeapTable \<Rightarrow> byte list \<Rightarrow> ('x trans_state_scheme, unit) cm" where
  "insert_loop 0 w tb heapTuple = raiseM (Undefined ''endless insertion loop'')"
| "insert_loop (Suc n) w tb heapTuple = bindM (insert_round w tb heapTuple) (\<lambda>inserted.
     if inserted then retM () else insert_loop n w tb heapTuple)"

definition InsertTuple :: "nat \<Rightarrow> nat \<Rightarrow> HeapTable \<Rightarrow> ITuple \<Rightarrow> ('x trans_state_scheme, unit) cm" where
  "InsertTuple fuel w tb tup =
     bindM (formHeapPageTuple w tb tup) (\<lambda>heapPageTuple.
     bindM (liftR (HeapTuple_Serialize heapPageTuple (tb_descriptor tb))) (\<lambda>heapTuple.
     insert_loop fuel w tb heapTuple))"

definition wait_tnx_end :: "nat \<Rightarrow> TransactionId \<Rightarrow> ('x trans_state_scheme, unit) cm" where
  "wait_tnx_end w xid =
     bindM (GetTransactionCsn xid) (\<lambda>csn0.
     bindM (if csn0 = Csn_InProgress then thenM (WaitTransactionEnd w xid) (GetTransactionCsn xid) else retM csn0) (\<lambda>csn.
     thenM (assertM ''!(csn.IsInvalid() || csn.IsCommitting())'' (csn \<noteq> Csn_Invalid \<and> csn \<noteq> Csn_Committing)) (
     if csn = Csn_Aborted then retM ()
     else if csn = Csn_Frozen \<or> Csn_IsNormal csn then raiseM (RuntimeError ''tuple was concurrently modified'')
     else raiseM (AssertFail ''false''))))"

definition GetPageCount :: "HeapTable \<Rightarrow> ('x trans_state_scheme, PageNumber) cm" where
  "GetPageCount tb = bindM (RelFile_Open (tb_tableId tb)) RelFile_GetPagesCount"

section \<open>Updating and deleting tuples\<close>

text \<open>\<open>header_get_tuple\<close> of the tuple behind an item, and its header.\<close>

definition item_header :: "page \<Rightarrow> ItemId \<Rightarrow> (nat \<times> HeapPageTupleHeader) res" where
  "item_header page it = bindR (GetTuple it) (\<lambda>off. bindR (read_tuple_header page off) (\<lambda>h. Inr (off, h)))"

text \<open>
  Where an updated tuple goes when its page has no room: a loop over pages from the search. The
  assignment to \<open>newPin\<close> returns the buffer of the pin it held and swaps it into the temporary, whose
  destructor returns it again.
\<close>

primrec update_place :: "nat \<Rightarrow> HeapTable \<Rightarrow> u64 \<Rightarrow> BufferPin option \<Rightarrow> ('x trans_state_scheme, BufferPin \<times> TupleId) cm" where
  "update_place 0 tb needed cur = raiseM (Undefined ''endless search for a page'')"
| "update_place (Suc n) tb needed cur =
     (let cleanup = (case cur of None \<Rightarrow> retM () | Some q \<Rightarrow> thenM (Buffer_Unlock (bp_buffer q)) (BufferPin_destroy q)) in
      bindM (onErrorM (searchPageFreeSpace tb needed) cleanup) (\<lambda>pin.
      thenM (case cur of None \<Rightarrow> retM () | Some q \<Rightarrow> thenM (BufferPin_destroy q) (BufferPin_destroy q)) (
      thenM (Buffer_Lock (bp_buffer pin)) (
      thenM (case cur of None \<Rightarrow> retM () | Some q \<Rightarrow> Buffer_Unlock (bp_buffer q)) (
      bindM (page_of_pin pin) (\<lambda>newPage.
      if needed \<le> GetFreeSpace newPage
      then retM (pin, \<lparr>tid_pageno = PageNo (bp_tag pin), tid_itemid = ItemsCount newPage\<rparr>)
      else update_place n tb needed (Some pin)))))))"

text \<open>The new tuple in a slot of its own, on the old page or on another one.\<close>

definition page_add_version :: "u16 \<Rightarrow> byte list \<Rightarrow> page \<Rightarrow> page res" where
  "page_add_version index bs page =
     bindR (GetItemId page (unat index)) (\<lambda>it.
     let offset = ucast (ucast (ph_upper (GetHeader page)) - word_of_nat (length bs) :: u64) :: u16 in
     bindR (setNormal (word_of_nat (length bs)) offset it) (\<lambda>it'.
     bindR (store_item (unat index) it' page) (\<lambda>page1.
     let page2 = set_lower (ph_lower (GetHeader page1) + 4) page1 in
     bindR (GetTuple it') (\<lambda>off.
     storeR page2 off bs))))"

definition page_mark_updated :: "u16 \<Rightarrow> TransactionId \<Rightarrow> UndoSeqNumber \<Rightarrow> page \<Rightarrow> page res" where
  "page_mark_updated index xid usn page =
     bindR (GetItemId page (unat index)) (\<lambda>it.
     bindR (item_header page it) (\<lambda>(off, h).
     storeR page off (tuple_header_bytes
       \<lparr>th_xid = xid, th_undo = usn, th_flags = th_flags h OR HeapTupleFlags_Deleted\<rparr>)))"

definition mod_page :: "BufferPin \<Rightarrow> (page \<Rightarrow> page res) \<Rightarrow> ('x trans_state_scheme, unit) cm" where
  "mod_page pin f = bindM (page_of_pin pin) (\<lambda>p. bindM (liftR (f p)) (set_page_of_pin pin))"

definition update_write :: "nat \<Rightarrow> HeapTable \<Rightarrow> HeapTuple \<Rightarrow> HeapPageTuple \<Rightarrow> TupleId \<Rightarrow> TupleId \<Rightarrow> BufferPin \<Rightarrow> BufferPin option
    \<Rightarrow> ('x trans_state_scheme, unit) cm" where
  "update_write w tb old newTuple oldTID newTID oldPin newPin =
     bindM (liftR (HeapTuple_Serialize (hp_tuple old) (tb_descriptor tb))) (\<lambda>buffer.
     bindM (InsertUndo w (UpdateUndoRecord (tb_tableId tb) oldTID newTID buffer)) (\<lambda>usn.
     bindM (liftR (HeapTuple_Serialize (newTuple\<lparr>hpt_header := (hpt_header newTuple)\<lparr>th_undo := usn\<rparr>\<rparr>) (tb_descriptor tb))) (\<lambda>ser.
     thenM (assertM ''newHeapPageTupleSerialized.size() < UINT16_MAX'' (length ser < 65535)) (
     bindM (MyTransaction w) (\<lambda>mine.
     bindM (WriteLogRecord (tr_xid mine) (UpdateHeapWALRecord (tb_tableId tb) newTID oldTID ser)) (\<lambda>lsn.
     thenM (if newTID = oldTID then mod_page oldPin (page_overwrite (unat (tid_itemid newTID)) ser)
       else case newPin of
         None \<Rightarrow> mod_page oldPin (page_add_version (tid_itemid newTID) ser)
       | Some np \<Rightarrow> if tid_pageno newTID = tid_pageno oldTID then mod_page oldPin (page_add_version (tid_itemid newTID) ser)
           else mod_page np (page_add_version (tid_itemid newTID) ser)) (
     thenM (if newTID \<noteq> oldTID then mod_page oldPin (page_mark_updated (tid_itemid oldTID) (tr_xid mine) usn) else retM ()) (
     thenM (mod_page oldPin (\<lambda>p. Inr (set_lsn lsn p))) (
     thenM (case newPin of Some np \<Rightarrow> if tid_pageno newTID \<noteq> tid_pageno oldTID then mod_page np (\<lambda>p. Inr (set_lsn lsn p)) else retM ()
       | None \<Rightarrow> retM ()) (
     thenM (Buffer_MarkDirty (bp_buffer oldPin)) (
     case newPin of Some np \<Rightarrow> Buffer_MarkDirty (bp_buffer np) | None \<Rightarrow> retM ())))))))))))"

definition UpdateTuple :: "nat \<Rightarrow> nat \<Rightarrow> HeapTable \<Rightarrow> ITuple \<Rightarrow> ITuple \<Rightarrow> ('x trans_state_scheme, unit) cm" where
  "UpdateTuple fuel w tb oldTuple newTuple =
     bindM (liftR (as_HeapTuple oldTuple)) (\<lambda>old.
     bindM (formHeapPageTuple w tb newTuple) (\<lambda>newHeapPageTuple.
     bindM (liftR (HeapTuple_Serialize newHeapPageTuple (tb_descriptor tb))) (\<lambda>newTup.
     let oldTID = hp_tid old; needed = word_of_nat (length newTup) + 4 :: u64 in
     with_pin \<lparr>Relid = tb_tableId tb, PageNo = tid_pageno oldTID\<rparr> (\<lambda>oldPin.
     thenM (Buffer_Lock (bp_buffer oldPin)) (
     bindM (page_of_pin oldPin) (\<lambda>page.
     bindM (liftR (bindR (GetItemId page (unat (tid_itemid oldTID))) (item_header page))) (\<lambda>(off, header).
     thenM (if th_xid header \<noteq> th_xid (hpt_header (hp_tuple old))
       then thenM (Buffer_Unlock (bp_buffer oldPin)) (thenM (wait_tnx_end w (th_xid header)) (Buffer_Lock (bp_buffer oldPin)))
       else retM ()) (
     finallyM (
       bindM (page_of_pin oldPin) (\<lambda>page.
       bindM (liftR (load_item page (unat (tid_itemid oldTID)))) (\<lambda>itemId.
       if length newTup \<le> unat (getLength itemId) then update_write w tb old newHeapPageTuple oldTID oldTID oldPin None
       else if needed \<le> GetFreeSpace page
       then update_write w tb old newHeapPageTuple oldTID (oldTID\<lparr>tid_itemid := ItemsCount page\<rparr>) oldPin None
       else bindM (update_place fuel tb needed None) (\<lambda>(newPin, newTID).
         finallyM (update_write w tb old newHeapPageTuple oldTID newTID oldPin (Some newPin))
           (thenM (Buffer_Unlock (bp_buffer newPin)) (BufferPin_destroy newPin))))))
     (Buffer_Unlock (bp_buffer oldPin))))))))))"

definition DeleteTuple :: "nat \<Rightarrow> HeapTable \<Rightarrow> ITuple \<Rightarrow> ('x trans_state_scheme, unit) cm" where
  "DeleteTuple w tb tup =
     bindM (liftR (as_HeapTuple tup)) (\<lambda>t.
     let tid = hp_tid t in
     with_pin \<lparr>Relid = tb_tableId tb, PageNo = tid_pageno tid\<rparr> (\<lambda>pin.
     thenM (Buffer_Lock (bp_buffer pin)) (
     bindM (page_of_pin pin) (\<lambda>page.
     bindM (liftR (bindR (GetItemId page (unat (tid_itemid tid))) (item_header page))) (\<lambda>(off, header).
     thenM (if th_xid header \<noteq> th_xid (hpt_header (hp_tuple t))
       then thenM (Buffer_Unlock (bp_buffer pin)) (thenM (wait_tnx_end w (th_xid header)) (Buffer_Lock (bp_buffer pin)))
       else retM ()) (
     finallyM (
       bindM (page_of_pin pin) (\<lambda>page.
       bindM (MyTransaction w) (\<lambda>mine.
       bindM (liftR (bindR (load_item page (unat (tid_itemid tid))) (\<lambda>it. loadR page off (unat (getLength it))))) (\<lambda>oldTupleSer.
       bindM (InsertUndo w (InsertUndoRecord (tb_tableId tb) tid oldTupleSer)) (\<lambda>usn.
       bindM (WriteLogRecord (tr_xid mine) (DeleteHeapWALRecord (tb_tableId tb) tid)) (\<lambda>lsn.
       thenM (mod_page pin (\<lambda>p. storeR p off (tuple_header_bytes
           \<lparr>th_xid = tr_xid mine, th_undo = usn, th_flags = HeapTupleFlags_Deleted\<rparr>)))
         (mod_page pin (\<lambda>p. Inr (set_lsn lsn p)))))))))
     (Buffer_Unlock (bp_buffer pin))))))))"

section \<open>Undoing\<close>

definition undo_overwrite :: "nat \<Rightarrow> byte list \<Rightarrow> page \<Rightarrow> page res" where
  "undo_overwrite off data page = storeR page off data"

text \<open>
  \<open>oldTuple == currentTuple\<close> compares the address of the record's data with an address in a page, so
  it is false.
\<close>

definition undo_delete_record :: "Oid \<Rightarrow> TupleId \<Rightarrow> UndoSeqNumber \<Rightarrow> ('x trans_state_scheme, unit) cm" where
  "undo_delete_record tableId tid usn =
     with_pin \<lparr>Relid = tableId, PageNo = tid_pageno tid\<rparr> (\<lambda>pin. with_lock (bp_buffer pin) (
     bindM (page_of_pin pin) (\<lambda>page.
     bindM (liftR (GetItemId page (unat (tid_itemid tid)))) (\<lambda>itemId.
     if \<not> isNormal itemId then retM ()
     else bindM (liftR (item_header page itemId)) (\<lambda>(off, h).
       if th_undo h \<noteq> usn then retM ()
       else thenM (mod_page pin (page_set_dead (unat (tid_itemid tid)))) (Buffer_MarkDirty (bp_buffer pin)))))))"

definition undo_same_place :: "Oid \<Rightarrow> TupleId \<Rightarrow> byte list \<Rightarrow> UndoSeqNumber \<Rightarrow> ('x trans_state_scheme, unit) cm" where
  "undo_same_place tableId tid data usn =
     with_pin \<lparr>Relid = tableId, PageNo = tid_pageno tid\<rparr> (\<lambda>pin. with_lock (bp_buffer pin) (
     bindM (page_of_pin pin) (\<lambda>page.
     bindM (liftR (bindR (GetItemId page (unat (tid_itemid tid))) (item_header page))) (\<lambda>(off, h).
     if th_undo h \<noteq> usn then raiseM (RuntimeError ''can not undo update: tuple was concurrently modified'')
     else mod_page pin (undo_overwrite off data)))))"

definition undo_same_page :: "Oid \<Rightarrow> TupleId \<Rightarrow> TupleId \<Rightarrow> byte list \<Rightarrow> UndoSeqNumber \<Rightarrow> ('x trans_state_scheme, unit) cm" where
  "undo_same_page tableId oldTID newTID data usn =
     with_pin \<lparr>Relid = tableId, PageNo = tid_pageno oldTID\<rparr> (\<lambda>pin. with_lock (bp_buffer pin) (
     bindM (page_of_pin pin) (\<lambda>page.
     bindM (liftR (bindR (GetItemId page (unat (tid_itemid oldTID))) (item_header page))) (\<lambda>(off, h).
     if th_undo h \<noteq> usn then raiseM (RuntimeError ''can not undo update: old tuple was concurrently modified'')
     else bindM (liftR (bindR (GetItemId page (unat (tid_itemid newTID))) (item_header page))) (\<lambda>(_, h').
       if th_undo h' \<noteq> usn then raiseM (RuntimeError ''can not undo update: new tuple was concurrently modified'')
       else thenM (mod_page pin (undo_overwrite off data)) (mod_page pin (page_set_dead (unat (tid_itemid newTID)))))))))"

definition undo_other_page :: "Oid \<Rightarrow> TupleId \<Rightarrow> TupleId \<Rightarrow> byte list \<Rightarrow> UndoSeqNumber \<Rightarrow> ('x trans_state_scheme, unit) cm" where
  "undo_other_page tableId oldTID newTID data usn =
     with_pin \<lparr>Relid = tableId, PageNo = tid_pageno oldTID\<rparr> (\<lambda>oldPin. with_lock (bp_buffer oldPin) (
     bindM (page_of_pin oldPin) (\<lambda>oldPage.
     bindM (liftR (bindR (GetItemId oldPage (unat (tid_itemid oldTID))) (item_header oldPage))) (\<lambda>(off, h).
     if th_undo h \<noteq> usn then raiseM (RuntimeError ''can not undo update: old tuple was concurrently modified'')
     else with_pin \<lparr>Relid = tableId, PageNo = tid_pageno newTID\<rparr> (\<lambda>newPin. with_lock (bp_buffer newPin) (
       bindM (page_of_pin newPin) (\<lambda>newPage.
       bindM (liftR (bindR (GetItemId newPage (unat (tid_itemid newTID))) (item_header newPage))) (\<lambda>(_, h').
       if th_undo h' \<noteq> usn then raiseM (RuntimeError ''can not undo update: new tuple was concurrently modified'')
       else thenM (mod_page oldPin (undo_overwrite off data)) (mod_page newPin (page_set_dead (unat (tid_itemid newTID))))))))))))"

definition undo_insert_record :: "Oid \<Rightarrow> TupleId \<Rightarrow> byte list \<Rightarrow> UndoSeqNumber \<Rightarrow> ('x trans_state_scheme, unit) cm" where
  "undo_insert_record tableId tid data usn =
     with_pin \<lparr>Relid = tableId, PageNo = tid_pageno tid\<rparr> (\<lambda>pin. with_lock (bp_buffer pin) (
     bindM (page_of_pin pin) (\<lambda>page.
     bindM (liftR (GetItemId page (unat (tid_itemid tid)))) (\<lambda>itemId.
     bindM (liftR (item_header page itemId)) (\<lambda>(off, h).
     if th_undo h \<noteq> usn then retM ()
     else thenM (assertM ''record.TupleData.size() <= itemId->getLength()'' (length data \<le> unat (getLength itemId)))
       (mod_page pin (undo_overwrite off data)))))))"

definition ApplyUndo :: "HeapUndoRecord \<Rightarrow> UndoSeqNumber \<Rightarrow> ('x trans_state_scheme, unit) cm" where
  "ApplyUndo record usn = (case record of
     DeleteUndoRecord tableId tid \<Rightarrow> undo_delete_record tableId tid usn
   | UpdateUndoRecord tableId oldTID newTID data \<Rightarrow>
       if newTID = oldTID then undo_same_place tableId oldTID data usn
       else if tid_pageno newTID = tid_pageno oldTID then undo_same_page tableId oldTID newTID data usn
       else undo_other_page tableId oldTID newTID data usn
   | InsertUndoRecord tableId tid data \<Rightarrow> undo_insert_record tableId tid data usn)"

definition ApplyRedo :: "HeapWALRecord \<Rightarrow> LogSeqNumber \<Rightarrow> ('x trans_state_scheme, unit) cm" where
  "ApplyRedo record lsn = raiseM (RuntimeError ''not implemented'')"

section \<open>Scans\<close>

record HeapTableScan =
  hs_tupleId :: TupleId
  hs_lastPageNumber :: PageNumber
  hs_snapshot :: Snapshot
  hs_table :: HeapTable
  hs_end :: bool

definition StartScan :: "HeapTable \<Rightarrow> Snapshot \<Rightarrow> HeapTableScan" where
  "StartScan tb snapshot = \<lparr>hs_tupleId = \<lparr>tid_pageno = PageNumber_Invalid, tid_itemid = 0\<rparr>,
     hs_lastPageNumber = PageNumber_Invalid, hs_snapshot = snapshot, hs_table = tb, hs_end = False\<rparr>"

definition BeginScan :: "HeapTableScan \<Rightarrow> ('x trans_state_scheme, HeapTableScan) cm" where
  "BeginScan sc =
     bindM (GetPageCount (hs_table sc)) (\<lambda>last.
     thenM (assertM ''_lastPageNumber.IsValid()'' (PageNumber_IsValid last))
     (retM (sc\<lparr>hs_tupleId := \<lparr>tid_pageno = 0, tid_itemid = 0\<rparr>, hs_lastPageNumber := last,
        hs_end := (if last = 0 then True else hs_end sc)\<rparr>)))"

definition build_heap_tuple :: "TupleDescriptor \<Rightarrow> byte list \<Rightarrow> TupleId \<Rightarrow> HeapTuple res" where
  "build_heap_tuple desc mem tid = bindR (HeapTuple_Deserialize mem desc) (\<lambda>t.
     Inr \<lparr>hp_descriptor = desc, hp_tuple = t, hp_tid = tid\<rparr>)"

text \<open>
  The versions of a tuple along its undo records. A walk longer than the log has bytes meets a record
  twice and never ends.
\<close>

primrec find_visible :: "nat \<Rightarrow> nat \<Rightarrow> TupleDescriptor \<Rightarrow> Snapshot \<Rightarrow> UndoSeqNumber \<Rightarrow> ('x trans_state_scheme, HeapTuple option) cm" where
  "find_visible 0 w desc sn usn = (if Usn_IsValid usn then raiseM (Undefined ''endless undo chain'') else retM None)"
| "find_visible (Suc n) w desc sn usn = (if \<not> Usn_IsValid usn then retM None else
     bindM (UndoLog_GetRecord usn) (\<lambda>record. case record of
       DeleteUndoRecord _ _ \<Rightarrow> retM None
     | UpdateUndoRecord _ oldLocation newLocation data \<Rightarrow>
         if newLocation \<noteq> oldLocation then retM None
         else bindM (liftR (read_tuple_header data 0)) (\<lambda>h.
           bindM (tuple_is_visible w sn h) (\<lambda>vis.
           if vis then bindM (liftR (build_heap_tuple desc data newLocation)) (\<lambda>t. retM (Some t))
           else find_visible n w desc sn (th_undo h)))
     | InsertUndoRecord _ location data \<Rightarrow>
         bindM (liftR (read_tuple_header data 0)) (\<lambda>h.
           bindM (tuple_is_visible w sn h) (\<lambda>vis.
           if vis then bindM (liftR (build_heap_tuple desc data location)) (\<lambda>t. retM (Some t))
           else find_visible n w desc sn (th_undo h)))))"

definition find_visible_tuple_page :: "nat \<Rightarrow> HeapPageTupleHeader \<Rightarrow> TupleDescriptor \<Rightarrow> Snapshot \<Rightarrow> ('x trans_state_scheme, HeapTuple option) cm" where
  "find_visible_tuple_page w header desc sn =
     bindM (getM (\<lambda>s. nat (ul_size (us_undo s)))) (\<lambda>n. find_visible (Suc n) w desc sn (th_undo header))"

primrec scan_items :: "nat \<Rightarrow> HeapTableScan \<Rightarrow> page \<Rightarrow> nat list \<Rightarrow> ('x trans_state_scheme, (nat \<times> HeapTuple) option) cm" where
  "scan_items w sc page [] = retM None"
| "scan_items w sc page (i # is) =
     bindM (liftR (GetItemId page i)) (\<lambda>itemid.
     if \<not> isNormal itemid then scan_items w sc page is
     else thenM (assertM ''itemid->hasHeader()'' (hasHeader itemid)) (
       bindM (liftR (item_header page itemid)) (\<lambda>(off, header).
       bindM (tuple_is_visible w (hs_snapshot sc) header) (\<lambda>vis.
       if vis then
         (if th_flags header AND HeapTupleFlags_Deleted \<noteq> 0 then scan_items w sc page is
          else bindM (liftR (build_heap_tuple (tb_descriptor (hs_table sc)) (drop off page)
              \<lparr>tid_pageno = tid_pageno (hs_tupleId sc), tid_itemid = word_of_nat i\<rparr>)) (\<lambda>t. retM (Some (i, t))))
       else bindM (find_visible_tuple_page w header (tb_descriptor (hs_table sc)) (hs_snapshot sc)) (\<lambda>found.
         case found of Some t \<Rightarrow> retM (Some (i, t)) | None \<Rightarrow> scan_items w sc page is)))))"

definition scan_advance :: "HeapTableScan \<Rightarrow> nat \<Rightarrow> (nat \<times> HeapTuple) option \<Rightarrow> HeapTableScan" where
  "scan_advance sc count found = (case found of
     Some (i, _) \<Rightarrow> sc\<lparr>hs_tupleId := (hs_tupleId sc)\<lparr>tid_itemid := word_of_nat (i + 1)\<rparr>\<rparr>
   | None \<Rightarrow> let newPageno = tid_pageno (hs_tupleId sc) + 1 in
       sc\<lparr>hs_tupleId := \<lparr>tid_pageno = newPageno, tid_itemid = 0\<rparr>,
          hs_end := (if hs_lastPageNumber sc \<le> newPageno then True else hs_end sc)\<rparr>)"

definition GetNextTuple :: "nat \<Rightarrow> HeapTableScan \<Rightarrow> ('x trans_state_scheme, HeapTuple option \<times> HeapTableScan) cm" where
  "GetNextTuple w sc =
     (if hs_end sc then retM (None, sc)
      else with_pin \<lparr>Relid = tb_tableId (hs_table sc), PageNo = tid_pageno (hs_tupleId sc)\<rparr> (\<lambda>pin.
        with_lock (bp_buffer pin) (bindM (page_of_pin pin) (\<lambda>page.
        let count = unat (ItemsCount page) in
        bindM (scan_items w sc page [unat (tid_itemid (hs_tupleId sc))..<count]) (\<lambda>found.
        retM (map_option snd found, scan_advance sc count found))))))"

definition EndScan :: "HeapTableScan \<Rightarrow> HeapTableScan" where
  "EndScan sc = sc\<lparr>hs_end := True, hs_tupleId := \<lparr>tid_pageno = PageNumber_Invalid, tid_itemid = 0\<rparr>\<rparr>"

section \<open>Pages do not touch the transaction manager\<close>

definition tm_is :: "TransactionManager \<Rightarrow> 'x trans_state_scheme \<Rightarrow> bool" where
  "tm_is m s \<longleftrightarrow> ts_tm s = m"

lemma tm_basic [keep_intros]:
  "keeps (tm_is m) (upd_entry i f)" "keeps (tm_is m) (upd_state i g)" "keeps (tm_is m) (upd_list l h)" "keeps (tm_is m) (set_page b p)"
  "keeps (tm_is m) (map_Remove tag)" "keeps (tm_is m) (map_Insert tag v)" "keeps (tm_is m) (free_Add b)" "keeps (tm_is m) free_Get"
  "keeps (tm_is m) (updM (\<lambda>s. s\<lparr>bm_P := q\<rparr>))" "keeps (tm_is m) (updM (\<lambda>s. s\<lparr>ts_contents := c s\<rparr>))" "keeps (tm_is m) (entry i)" "keeps (tm_is m) (state_of i)"
  "keeps (tm_is m) (list_of l)" "keeps (tm_is m) (list_size l)"
  by (auto simp: keeps_def tm_is_def run_simps cm_simps map_Remove_def map_Insert_def free_Add_def free_Get_def split: prod.splits list.splits)

lemma tm_os [keep_intros]:
  "keeps (tm_is m) next_outcome" "keeps (tm_is m) (updM (\<lambda>s. put_file f (c s) s))" "keeps (tm_is m) (updM (put_file f d))"
  "keeps (tm_is m) (updM (\<lambda>s. s\<lparr>os_synced := y s\<rparr>))"
  by (auto simp: keeps_def tm_is_def next_outcome_def put_file_def cm_simps split: list.splits)

lemma tm_files [keep_intros]:
  "keeps (tm_is m) (RelFile_Open r)" "keeps (tm_is m) (RelFile_Write f bs p)" "keeps (tm_is m) (RelFile_Read f p)" "keeps (tm_is m) (RelFile_Fsync f)"
  unfolding RelFile_Open_def RelFile_Write_def RelFile_Fsync_def RelFile_Read_def File_Open_def File_Write_def File_Read_def File_Fsync_def throw_error_def
  by (intro keep_intros)+

lemma tm_entry_ops [keep_intros]:
  "keeps (tm_is m) (CE_Pin i)" "keeps (tm_is m) (CE_Unpin i)" "keeps (tm_is m) (CE_Lock i)" "keeps (tm_is m) (CE_Unlock i)"
  "keeps (tm_is m) (CE_TearDown i)"
  unfolding CE_Pin_def CE_Unpin_def CE_Lock_def CE_Unlock_def CE_TearDown_def by (intro keep_intros)+

lemma tm_io [keep_intros]:
  "keeps (tm_is m) (TerminateBufferIO i a b)" "keeps (tm_is m) (ShouldStartIO i inp)" "keeps (tm_is m) (buffer_of i)"
  unfolding TerminateBufferIO_def ShouldStartIO_def buffer_of_def by (intro keep_intros)+

lemma tm_buffer_io [keep_intros]: "keeps (tm_is m) (CE_FlushBuffer i)" "keeps (tm_is m) (CE_ReadBuffer i)"
  unfolding CE_FlushBuffer_def CE_ReadBuffer_def by (intro keep_intros)+

lemma tm_lists [keep_intros]: "keeps (tm_is m) (InsertMRU l i)" "keeps (tm_is m) (RemoveEntry l i)"
  unfolding InsertMRU_def RemoveEntry_def by (intro keep_intros)+

lemma tm_move [keep_intros]: "keeps (tm_is m) (MoveMRU l i)"
  unfolding MoveMRU_def by (intro keep_intros)

lemma tm_reverse [keep_intros]: "(\<And>i. keeps (tm_is m) (body i)) \<Longrightarrow> keeps (tm_is m) (for_each_reverse l body)"
  unfolding for_each_reverse_def by (intro keep_intros keeps_rfor)

lemma tm_vacate [keep_intros]: "keeps (tm_is m) (tryVacateEntry i q)" "keeps (tm_is m) (forgetAnyEntry l)"
  unfolding tryVacateEntry_def forgetAnyEntry_def Let_def by (intro keep_intros)+

lemma tm_adjust [keep_intros]: "keeps (tm_is m) (vacate_one l q)" "keeps (tm_is m) (adjust p q)"
  unfolding adjust_def vacate_one_def by (intro keep_intros)+

lemma tm_evict [keep_intros]: "keeps (tm_is m) evictCacheEntry" "keeps (tm_is m) preinsertCleanup"
  unfolding evictCacheEntry_def PopTail_def evict_from_def preinsertCleanup_def Let_def by (intro keep_intros)+

lemma tm_hits [keep_intros]: "keeps (tm_is m) (handleCacheHit i)" "keeps (tm_is m) (handleGhostHit i q)"
  unfolding handleCacheHit_def handleGhostHit_def Let_def by (intro keep_intros)+

lemma keeps_pair [keep_intros]: "(\<And>a b. keeps P (f a b)) \<Longrightarrow> keeps P (case z of (a, b) \<Rightarrow> f a b)"
  by (cases z) simp

lemma tm_get [keep_intros]: "keeps (tm_is m) (get_new_entry tag)" "keeps (tm_is m) (makeBufferPin i)"
  unfolding get_new_entry_def makeBufferPin_def by (intro keep_intros)+

lemma tm_GetBuffer [keep_intros]: "keeps (tm_is m) (GetBuffer tag)" "keeps (tm_is m) (ReturnBuffer b)"
  unfolding GetBuffer_def ReturnBuffer_def Let_def by (intro keep_intros)+

lemma tm_pins [keep_intros]:
  "keeps (tm_is m) (BufferPin_destroy p)" "keeps (tm_is m) (page_of_pin p)" "keeps (tm_is m) (set_page_of_pin p pg)" "keeps (tm_is m) (Buffer_MarkDirty b)"
  "keeps (tm_is m) (Buffer_Lock b)" "keeps (tm_is m) (Buffer_Unlock b)"
  unfolding BufferPin_destroy_def page_of_pin_def set_page_of_pin_def Buffer_GetContents_def Buffer_SetContents_def Buffer_MarkDirty_def
    Buffer_Lock_def Buffer_Unlock_def contents_latch_def
  by (intro keep_intros)+

lemma tm_scopes [keep_intros]:
  "keeps (tm_is m) k \<Longrightarrow> keeps (tm_is m) (with_lock b k)" "(\<And>p. keeps (tm_is m) (f p)) \<Longrightarrow> keeps (tm_is m) (with_pin tag f)"
  "keeps (tm_is m) (mod_page p g)"
  unfolding with_lock_def with_pin_def mod_page_def by (intro keep_intros; assumption?)+

lemma tm_undo [keep_intros]:
  "keeps (tm_is m) (undo_delete_record x t usn)" "keeps (tm_is m) (undo_same_place x t d usn)" "keeps (tm_is m) (undo_same_page x t t2 d usn)"
  "keeps (tm_is m) (undo_other_page x t t2 d usn)" "keeps (tm_is m) (undo_insert_record x t d usn)"
  unfolding undo_delete_record_def undo_same_place_def undo_same_page_def undo_other_page_def undo_insert_record_def
  by (intro keep_intros)+

lemma tm_ApplyUndo: "keeps (tm_is m) (ApplyUndo r usn)"
  unfolding ApplyUndo_def by (cases r) (simp_all add: keep_intros)

interpretation heap_undo: undo_applying "ApplyUndo :: 'x undo_applier"
proof
  fix m r usn
  show "keeps (\<lambda>s::'x trans_state_scheme. ts_tm s = m) (ApplyUndo r usn)"
    using tm_ApplyUndo [of m r usn] by (simp add: tm_is_def [abs_def])
qed

end
