(* ===== verification/Mimi_Visibility.thy ===== *)
theory Mimi_Visibility
  imports Mimi_HeapTable
begin

text \<open>
  The properties of the transaction manager with the undo code of the heap: snapshots are stable, the
  tables agree, and a reader of a transaction that is being committed blocks the system.
\<close>

section \<open>Properties of transactions\<close>

text \<open>
  C7. A snapshot is stable: in every run of the workers from the start, whatever verdict the
  visibility test gives on a tuple for the snapshot of a running transaction, it gives the same
  verdict at any later time while the transaction runs, however many transactions begin, commit or
  abort in between and wherever in a commit the other workers are.
\<close>

theorem snapshot_stable:
  assumes "tm_run ApplyUndo n (s0, \<lambda>_. Resting) (s, pc)" "ts_tm s0 = new_TransactionManager k" "n + n' \<le> 2 ^ 62"
    and "trans_of (ts_tm s) w = Some t" "tr_snapshot t = Some sn" "tuple_is_visible w sn h s = (Inr r, s1)"
    and "tm_run ApplyUndo n' (s1, pc) (s2, pc2)" "trans_of (ts_tm s2) w = Some t2" "tr_xid t2 = tr_xid t"
    and "tuple_is_visible w sn h s2 = (Inr r2, s3)"
  shows "r2 = r"
  using heap_undo.visibility_stable assms by blast

text \<open>
  C19. The tables of the transaction manager agree in every run from the start: a transaction is in
  the worker table exactly while the history says that it runs or commits, and its worker's slot holds
  it; no two workers run the same transaction; the snapshots in use are below the counter; and the
  numbers of committed transactions are below the counter and different.
\<close>

theorem transaction_tables:
  assumes "tm_run ApplyUndo n (s0, \<lambda>_. Resting) (s, pc)" "ts_tm s0 = new_TransactionManager k" "n \<le> 2 ^ 62"
  defines "m \<equiv> ts_tm s"
  shows "(tm_xidToWorker m x \<noteq> None \<longleftrightarrow> tm_history m x = Some Csn_InProgress \<or> tm_history m x = Some Csn_Committing) \<and>
    (tm_xidToWorker m x = Some w \<longrightarrow> (\<exists>t. trans_of m w = Some t \<and> tr_xid t = x \<and> tr_latched t)) \<and>
    (trans_of m w = Some t \<and> trans_of m v = Some u \<and> w \<noteq> v \<longrightarrow> tr_xid t \<noteq> tr_xid u) \<and>
    (trans_of m w = Some t \<and> tr_snapshot t = Some sn \<longrightarrow> sn_CSN sn \<le> tm_csn m) \<and>
    (tm_history m x = Some c \<and> Csn_IsNormal c \<longrightarrow> c < tm_csn m \<and> (\<forall>y. tm_history m y = Some c \<longrightarrow> y = x))"
proof -
  have inv: "tm_inv n m pc" using heap_undo.run_facts [OF assms(1), of 0] new_inv assms(2,3) by (simp add: m_def)
  then have s: "slots_ok m pc" and h: "history_ok m pc" and ww: "workers_ok m" by (simp_all add: tm_inv_def)
  have "tm_xidToWorker m x = Some w \<Longrightarrow> \<exists>t. trans_of m w = Some t \<and> tr_xid t = x \<and> tr_latched t"
    using workersD(1) [OF ww] slotsD(1) [OF s] by (metis slot_ok_def)
  moreover have "trans_of m w = Some t \<Longrightarrow> tr_snapshot t = Some sn \<Longrightarrow> sn_CSN sn \<le> tm_csn m"
    using slotsD(1) [OF s, of w t] by (simp add: slot_ok_def)
  moreover have "trans_of m w = Some t \<Longrightarrow> trans_of m v = Some u \<Longrightarrow> tr_xid t = tr_xid u \<Longrightarrow> w = v" by (rule slotsD(3) [OF s])
  moreover have "tm_history m x = Some c \<Longrightarrow> Csn_IsNormal c \<Longrightarrow> c < tm_csn m \<and> (\<forall>y. tm_history m y = Some c \<longrightarrow> y = x)"
    using historyD(2,3) [OF h] by blast
  ultimately show ?thesis using workersD(2) [OF ww, of x] by blast
qed

text \<open>
  C35. A reader that looks at a transaction which is being committed stops the system: the test blocks
  with the manager's latch lost, and from then on, whatever the workers do, the transaction stays
  half committed, every other lookup blocks, and no transaction can begin.
\<close>

theorem committing_reader_deadlocks:
  fixes s :: "'x trans_state_scheme"
  assumes "tm_history (ts_tm s) x = Some Csn_Committing" "\<not> tm_mutex (ts_tm s)"
  shows "\<exists>s1. GetTransactionCsn x s = (Inl (Blocked ''TransactionManager::_mutex''), s1) \<and>
    (\<forall>n pc pc2 (s2::'x trans_state_scheme). tm_run ApplyUndo n (s1, pc) (s2, pc2) \<longrightarrow>
      tm_history (ts_tm s2) x = Some Csn_Committing \<and>
      (\<forall>y. fst (GetTransactionCsn y s2) = Inl (Blocked ''TransactionManager::_mutex'')) \<and>
      (\<forall>w. fst (BeginNewTransaction w s2) \<noteq> Inr ()))"
proof -
  obtain r s1 where g: "GetTransactionCsn x s = (r, s1)" by (cases "GetTransactionCsn x s")
  have e: "r = Inl (Blocked ''TransactionManager::_mutex'')" "tm_mutex (ts_tm s1)" "tm_history (ts_tm s1) x = Some Csn_Committing"
    using GetTransactionCsn_effect [OF g] assms by auto
  have "tm_history (ts_tm s2) x = Some Csn_Committing \<and> (\<forall>y. fst (GetTransactionCsn y s2) = Inl (Blocked ''TransactionManager::_mutex'')) \<and>
      (\<forall>w. fst (BeginNewTransaction w s2) \<noteq> Inr ())"
    if run: "tm_run ApplyUndo n (s1, pc) (s2, pc2)" for n pc pc2 s2
  proof -
    have m: "tm_mutex (ts_tm s2)" "tm_history (ts_tm s2) x = Some Csn_Committing"
      using heap_undo.blocked_run [OF run] e(2,3) by simp_all
    moreover have "fst (BeginNewTransaction w s2) \<noteq> Inr ()" for w
      using m(1) Begin_effect [of w s2] by (cases "BeginNewTransaction w s2") auto
    ultimately show ?thesis using blocked_GetTransactionCsn [OF m(1)] by simp
  qed
  then show ?thesis using g e(1) by blast
qed

lemma tm_run_trans: "tm_run a n c c' \<Longrightarrow> tm_run a k c' c'' \<Longrightarrow> tm_run a (n + k) c c''"
proof (induction k arbitrary: c'')
  case 0
  then show ?case by (auto elim: tm_run.cases)
next
  case (Suc k)
  from Suc.prems(2) obtain d where "tm_run a k c' d" "tm_step a d c''" by (auto elim: tm_run.cases)
  then show ?case using tm_run.more [OF Suc.IH [OF Suc.prems(1)]] by simp
qed

definition example_trans :: trans_state where
  "example_trans = \<lparr>os_files = [''data/1'' \<mapsto> Init (replicate PageSize 0), ''undo'' \<mapsto> [], ''wal'' \<mapsto> []], os_synced = Map.empty, os_script = [],
     ws_wal = \<lparr>wal_path = ''wal'', wal_end = 0, wal_flushed = 0\<rparr>, us_undo = us_undo example_undo, us_registry = us_registry example_undo,
     bm_map = \<lparr>ht_hash = (\<lambda>t. unat (PageNo t)), ht_maps = [Map.empty]\<rparr>, bm_npages = 0, bm_entries = blank_entry,
     bm_pages = (\<lambda>_. []), bm_freeBuffers = [], bm_lists = empty_lists, bm_P = 0,
     ts_tm = new_TransactionManager 2, ts_contents = (\<lambda>_. False)\<rparr>"

text \<open>Worker 0 begins and takes its snapshot, then worker 1 begins, and commits.\<close>

definition tm_after :: "TransactionManager \<Rightarrow> trans_state" where
  "tm_after m = example_trans\<lparr>ts_tm := m\<rparr>"

definition m_two :: TransactionManager where
  "m_two = \<lparr>tm_csn = 5, tm_xid = 3, tm_mutex = False,
     tm_transactions = [Some ((new_Transaction 1 0)\<lparr>tr_snapshot := Some \<lparr>sn_CSN = 5, sn_CommandId = 0\<rparr>\<rparr>), Some (new_Transaction 2 1)],
     tm_xidToWorker = [1 \<mapsto> 0, 2 \<mapsto> 1], tm_history = [1 \<mapsto> Csn_InProgress, 2 \<mapsto> Csn_InProgress]\<rparr>"

definition m_done :: TransactionManager where
  "m_done = m_two\<lparr>tm_csn := 6, tm_transactions := [tm_transactions m_two ! 0, None], tm_xidToWorker := [1 \<mapsto> 0],
     tm_history := [1 \<mapsto> Csn_InProgress, 2 \<mapsto> 5]\<rparr>"

lemma example_run_two: "tm_run a 3 (example_trans, \<lambda>_. Resting) (tm_after m_two, \<lambda>_. Resting)"
proof -
  let ?m1 = "\<lparr>tm_csn = 5, tm_xid = 2, tm_mutex = False, tm_transactions = [Some (new_Transaction 1 0), None], tm_xidToWorker = [1 \<mapsto> 0], tm_history = [1 \<mapsto> Csn_InProgress]\<rparr>"
  let ?m2 = "?m1\<lparr>tm_transactions := [tm_transactions m_two ! 0, None]\<rparr>"
  have 1: "tm_step a (example_trans, \<lambda>_. Resting) (tm_after ?m1, \<lambda>_. Resting)"
    by (rule tm_step.start [of _ 0]) (simp_all add: BeginNewTransaction_def tm_simps tm_after_def example_trans_def new_TransactionManager_def numeral_2_eq_2 Csn_Min_def Xid_Min_def)
  have 2: "tm_step a (tm_after ?m1, \<lambda>_. Resting) (tm_after ?m2, \<lambda>_. Resting)"
    by (rule tm_step.statement [of _ 0])
      (simp_all add: BeginNewStatement_def GetCurrentCSN_def tm_simps tm_after_def m_two_def new_Transaction_def Usn_Invalid_def)
  have 3: "tm_step a (tm_after ?m2, \<lambda>_. Resting) (tm_after m_two, \<lambda>_. Resting)"
    by (rule tm_step.start [of _ 1]) (simp_all add: BeginNewTransaction_def tm_simps tm_after_def m_two_def fun_upd_twist)
  have "tm_run a (Suc (Suc (Suc 0))) (example_trans, \<lambda>_. Resting) (tm_after m_two, \<lambda>_. Resting)"
    by (rule tm_run.more [OF tm_run.more [OF tm_run.more [OF tm_run.stop 1] 2] 3])
  then show ?thesis by (simp add: numeral_3_eq_3)
qed


lemma example_run_commit: "tm_run a 4 (tm_after m_two, \<lambda>_. Resting) (tm_after m_done, \<lambda>_. Resting)"
proof -
  let ?m1 = "m_two\<lparr>tm_history := [1 \<mapsto> Csn_InProgress, 2 \<mapsto> Csn_Committing]\<rparr>"
  let ?m2 = "?m1\<lparr>tm_csn := 6\<rparr>"
  let ?m3 = "?m2\<lparr>tm_xidToWorker := [1 \<mapsto> 0], tm_history := [1 \<mapsto> Csn_InProgress, 2 \<mapsto> 5]\<rparr>"
  let ?p1 = "(\<lambda>_. Resting)(1 := Marked 2)" and ?p2 = "(\<lambda>_. Resting)(1 := Numbered 2 5)" and ?p3 = "(\<lambda>_. Resting)(1 := Published 5)"
  have 1: "tm_step a (tm_after m_two, \<lambda>_. Resting) (tm_after ?m1, ?p1)"
    by (rule tm_step.mark) (simp_all add: Commit_mark_def tm_simps tm_after_def m_two_def new_Transaction_def Lsn_IsValid_def)
  have 2: "tm_step a (tm_after ?m1, ?p1) (tm_after ?m2, ?p2)"
    using tm_step.number [of ?p1 1 2 "tm_after ?m1" 5 "tm_after ?m2" a] by (simp add: Commit_number_def tm_simps tm_after_def m_two_def)
  have 3: "tm_step a (tm_after ?m2, ?p2) (tm_after ?m3, ?p3)"
    using tm_step.publish [of ?p2 1 2 5 "tm_after ?m2" "tm_after ?m3" a]
    by (simp add: Commit_publish_def end_in_table_def tm_simps tm_after_def m_two_def fun_upd_twist)
  have 4: "tm_step a (tm_after ?m3, ?p3) (tm_after m_done, \<lambda>_. Resting)"
    using tm_step.finish [of ?p3 1 5 "tm_after ?m3" "tm_after m_done" a] fun_upd_idem [of "\<lambda>_. Resting" "Suc 0" Resting]
    by (simp add: Commit_finish_def Transaction_Commit_def tm_simps tm_after_def m_two_def m_done_def csn_defs word_le_nat_alt)
  have "tm_run a (Suc (Suc (Suc (Suc 0)))) (tm_after m_two, \<lambda>_. Resting) (tm_after m_done, \<lambda>_. Resting)"
    by (rule tm_run.more [OF tm_run.more [OF tm_run.more [OF tm_run.more [OF tm_run.stop 1] 2] 3] 4])
  then show ?thesis by (simp add: eval_nat_numeral)
qed

lemma example_slot: "trans_of m_two 0 = Some ((new_Transaction 1 0)\<lparr>tr_snapshot := Some \<lparr>sn_CSN = 5, sn_CommandId = 0\<rparr>\<rparr>)"
  "trans_of m_done 0 = trans_of m_two 0"
  by (simp_all add: trans_of_def m_two_def m_done_def)

lemma example_invisible:
  "tuple_is_visible 0 \<lparr>sn_CSN = 5, sn_CommandId = 0\<rparr> \<lparr>th_xid = 2, th_undo = 0, th_flags = 0\<rparr> (tm_after m_two) = (Inr False, tm_after m_two)"
  "tuple_is_visible 0 \<lparr>sn_CSN = 5, sn_CommandId = 0\<rparr> \<lparr>th_xid = 2, th_undo = 0, th_flags = 0\<rparr> (tm_after m_done) = (Inr False, tm_after m_done)"
  by (simp_all add: tuple_is_visible_def GetTransactionCsn_def history_at_def tm_simps tm_after_def m_two_def m_done_def new_Transaction_def csn_defs word_le_nat_alt)

theorem snapshot_stable_witness:
  "\<exists>s2 s3. tm_run ApplyUndo 4 (tm_after m_two, \<lambda>_. Resting) (s2, \<lambda>_. Resting) \<and> tm_history (ts_tm s2) 2 = Some 5 \<and>
    tuple_is_visible 0 \<lparr>sn_CSN = 5, sn_CommandId = 0\<rparr> \<lparr>th_xid = 2, th_undo = 0, th_flags = 0\<rparr> s2 = (Inr False, s3)"
proof -
  have "ts_tm example_trans = new_TransactionManager 2" by (simp add: example_trans_def)
  moreover have "ts_tm (tm_after m) = m" for m by (simp add: tm_after_def)
  ultimately have "False = False" if "tuple_is_visible 0 \<lparr>sn_CSN = 5, sn_CommandId = 0\<rparr> \<lparr>th_xid = 2, th_undo = 0, th_flags = 0\<rparr> (tm_after m_done) = (Inr r, s3)" for r s3
    by simp
  have "\<exists>r s3. tuple_is_visible 0 \<lparr>sn_CSN = 5, sn_CommandId = 0\<rparr> \<lparr>th_xid = 2, th_undo = 0, th_flags = 0\<rparr> (tm_after m_done) = (Inr r, s3)"
    using example_invisible(2) by blast
  then obtain r s3 where r: "tuple_is_visible 0 \<lparr>sn_CSN = 5, sn_CommandId = 0\<rparr> \<lparr>th_xid = 2, th_undo = 0, th_flags = 0\<rparr> (tm_after m_done) = (Inr r, s3)" by blast
  have "r = False"
    by (rule snapshot_stable [OF example_run_two _ _ _ _ example_invisible(1) example_run_commit _ _ r, of 2])
      (simp_all add: example_slot tm_after_def example_trans_def new_Transaction_def)
  then show ?thesis using example_run_commit r
    by (intro exI [of _ "tm_after m_done"] exI [of _ s3]) (simp add: tm_after_def m_done_def)
qed

theorem transaction_tables_witness:
  "tm_xidToWorker m_done 2 = None \<and> tm_history m_done 2 = Some 5 \<and> {y. tm_history m_done y = Some 5} = {2}"
proof -
  have r: "tm_run ApplyUndo 7 (example_trans, \<lambda>_. Resting) (tm_after m_done, \<lambda>_. Resting)"
    using tm_run_trans [OF example_run_two example_run_commit] by simp
  have e: "ts_tm example_trans = new_TransactionManager 2" "ts_tm (tm_after m_done) = m_done" by (simp_all add: example_trans_def tm_after_def)
  have le: "7 \<le> (2::nat) ^ 62" by simp
  note f = transaction_tables [OF r e(1) le, unfolded e(2)]
  have h: "tm_history m_done 2 = Some 5" by (simp add: m_done_def)
  have c: "Csn_IsNormal 5" "(5::u64) \<noteq> Csn_InProgress" "(5::u64) \<noteq> Csn_Committing" by (simp_all add: csn_defs word_le_nat_alt)
  have "tm_xidToWorker m_done 2 = None" using conjunct1 [OF f, of 2] h c by simp
  moreover have "\<forall>y. tm_history m_done y = Some 5 \<longrightarrow> y = 2"
    using conjunct2 [OF conjunct2 [OF conjunct2 [OF conjunct2 [OF f]]], of 2 5] h c by simp
  ultimately show ?thesis using h by blast
qed

theorem committing_reader_deadlocks_witness:
  "\<exists>s1. GetTransactionCsn 2 (tm_after (m_two\<lparr>tm_history := [1 \<mapsto> Csn_InProgress, 2 \<mapsto> Csn_Committing]\<rparr>)) =
      (Inl (Blocked ''TransactionManager::_mutex''), s1) \<and>
    fst (BeginNewTransaction 0 s1) \<noteq> Inr ()"
proof -
  let ?s = "tm_after (m_two\<lparr>tm_history := [1 \<mapsto> Csn_InProgress, 2 \<mapsto> Csn_Committing]\<rparr>)"
  have "tm_history (ts_tm ?s) 2 = Some Csn_Committing" "\<not> tm_mutex (ts_tm ?s)" by (simp_all add: tm_after_def m_two_def)
  from committing_reader_deadlocks [OF this] show ?thesis using tm_run.stop by blast
qed

end
