(* ===== verification/Mimi_HeapOps.thy ===== *)
theory Mimi_HeapOps
  imports Mimi_Visibility
begin

text \<open>
  What the heap operations do on a page that the buffer manager holds: pins and latches taken and
  given back, and the insertion of a tuple into the first page of a table.
\<close>

unbundle bit_operations_syntax

section \<open>Pages in the cache\<close>

text \<open>
  The page with the tag is in entry \<open>i\<close> with buffer \<open>b\<close> and \<open>n\<close> pins, and the cache is in order around it.
\<close>

definition cached :: "nat \<Rightarrow> 'x buffer_state_scheme \<Rightarrow> PageTag \<Rightarrow> nat \<Rightarrow> nat \<Rightarrow> bool" where
  "cached n s tag i b \<longleftrightarrow>
     (\<exists>xs ys. clist s T1 xs \<and> clist s T2 ys \<and> set xs \<inter> set ys = {} \<and> set xs \<union> set ys \<subseteq> {..<2 * unat (bm_npages s)} \<and>
        i \<in> (if bit (stat s i) 28 then set ys else set xs)) \<and> sized s \<and> ht_Get (bm_map s) tag = Some i \<and>
     \<not> bit (stat s i) 31 \<and> bit (stat s i) 29 \<and> bit (stat s i) 25 \<and> unat (take_bit 20 (stat s i)) = n \<and>
     ce_Buffer (bm_entries s i) = Some b \<and> ce_Tag (bm_entries s i) = tag \<and> ce_BlockId (bm_entries s i) = i"

definition same_cache :: "'x buffer_state_scheme \<Rightarrow> 'x buffer_state_scheme \<Rightarrow> bool" where
  "same_cache s s' \<longleftrightarrow> bm_map s' = bm_map s \<and> bm_npages s' = bm_npages s \<and> bm_entries s' = bm_entries s \<and> bm_lists s' = bm_lists s"

lemma cached_cong: "same_cache s s' \<Longrightarrow> cached n s' tag i b = cached n s tag i b"
  by (simp add: same_cache_def cached_def clist_def chain_def sized_def)

lemma low_sub_one:
  fixes x :: u32
  assumes "take_bit 20 x \<noteq> 0"
  shows "take_bit 20 (x - 1) = take_bit 20 x - 1" "20 \<le> n \<Longrightarrow> bit (x - 1) n = bit x n"
proof -
  have t: "unat (take_bit 20 y) = unat y mod 2 ^ 20" for y :: u32
    by (simp only: unsigned_take_bit_eq take_bit_eq_mod [of 20 "unat y"])
  have "take_bit 20 (x - 1) \<noteq> mask 20"
  proof
    assume "take_bit 20 (x - 1) = mask 20"
    then have "unat (x - 1) mod 2 ^ 20 = 2 ^ 20 - 1" using t [of "x - 1"] by (simp add: mask_eq_exp_minus_1)
    then have "(unat (x - 1) + 1) mod 2 ^ 20 = 0" using mod_Suc [of "unat (x - 1)" "2 ^ 20"] by simp
    moreover have "unat x = (unat (x - 1) + 1) mod 2 ^ 32" using unat_word_ariths(1) [of "x - 1" 1] by simp
    ultimately have "unat x mod 2 ^ 20 = 0" using mod_mod_cancel [of "2 ^ 20" "2 ^ 32" "unat (x - 1) + 1"] by simp
    then show False using assms t [of x] by (simp add: unat_eq_zero)
  qed
  then have m: "take_bit 20 (x - 1) < mask 20" by (simp add: refcount_room [unfolded mask_of_refcount])
  show "take_bit 20 (x - 1) = take_bit 20 x - 1" using low_add_one(1) [OF m] by (simp add: eq_diff_eq)
  show "20 \<le> n \<Longrightarrow> bit (x - 1) n = bit x n" using low_add_one(2) [OF m] by simp
qed

lemma pins_room: "unat (take_bit 20 (x::u32)) < 2 ^ 20 - 1 \<Longrightarrow> take_bit 20 x < mask 20"
  by (simp add: word_less_nat_alt mask_eq_exp_minus_1)

lemma cached_pin:
  assumes c: "cached n s tag i b" and n: "n < 2 ^ 20 - 1"
  shows "\<exists>s'. GetBuffer tag s = (Inr \<lparr>bp_tag = tag, bp_buffer = \<lparr>bf_blockId = i + 1\<rparr>\<rparr>, s') \<and> cached (Suc n) s' tag i b \<and> same_rest s s'"
proof -
  obtain xs ys where l: "clist s T1 xs" "clist s T2 ys" "set xs \<inter> set ys = {}" "set xs \<union> set ys \<subseteq> {..<2 * unat (bm_npages s)}"
    "i \<in> (if bit (stat s i) 28 then set ys else set xs)" using c by (auto simp: cached_def)
  have st: "\<not> bit (stat s i) 31" "bit (stat s i) 29" "bit (stat s i) 25" "unat (take_bit 20 (stat s i)) = n" "ce_Buffer (bm_entries s i) = Some b"
    "ce_Tag (bm_entries s i) = tag" "ce_BlockId (bm_entries s i) = i" "ht_Get (bm_map s) tag = Some i" "sized s"
    using c by (simp_all add: cached_def)
  have lt: "take_bit 20 (stat s i) < mask 20" using st(4) n by (intro pins_room) simp
  have ne: "take_bit 20 (stat s i) \<noteq> BufferRefCountMask" using lt by (simp add: mask_of_refcount)
  have d: "distinct xs" "distinct ys" using l(1,2) dll_distinct by (auto simp: clist_def chain_def)
  have sx: "set (remove1 i xs) = set xs - {i}" "set (remove1 i ys) = set ys - {i}" using d by simp_all
  have ib: "i < 2 * unat (bm_npages s)" using l(4,5) by (auto split: if_splits)
  have "length ys \<le> 2 * unat (bm_npages s)" using distinct_bounded_length [OF d(2)] l(4) by simp
  then have len: "length ys < 2 ^ 32 - 1" using st(9) by (simp add: sized_def)
  obtain s' where s': "GetBuffer tag s = (Inr \<lparr>bp_tag = tag, bp_buffer = \<lparr>bf_blockId = i + 1\<rparr>\<rparr>, s')"
    "clist s' T1 (remove1 i xs)" "clist s' T2 (i # remove1 i ys)"
    "list_step {T1, T2} (set xs \<union> set ys) (set_State i ((stat s i + 1) OR IsFrequencyList) s) s'"
    using GetBuffer_hit [OF l(1-3) len st(8) l(5) st(1-3) ne] st(5-7) by auto
  note core = list_step_core [OF s'(4), of i] and rest = list_step_rest [OF s'(4)]
  have stat': "stat s' i = (stat s i + 1) OR IsFrequencyList" using core by simp
  have hi: "bit (stat s i + 1) k = bit (stat s i) k" if "20 \<le> k" for k using low_add_one(2) [OF lt that] .
  have bits: "\<not> bit (stat s' i) 31" "bit (stat s' i) 29" "bit (stat s' i) 25" "bit (stat s' i) 28"
    using st(1-3) hi [of 31] hi [of 29] hi [of 25] by (simp_all add: stat' bit_simps)
  have "take_bit 20 (stat s' i) = take_bit 20 (stat s i) + 1"
    using low_add_one(1) [OF lt] by (simp add: stat' take_bit_or)
  moreover have "unat (take_bit 20 (stat s i) + 1) = Suc n" using st(4) n by (simp add: unat_word_ariths)
  ultimately have cnt: "unat (take_bit 20 (stat s' i)) = Suc n" by simp
  have "same_rest s s'" using same_rest_trans [OF same_rest_upd(3) rest] .
  moreover note same_rest_fields [OF this]
  moreover have "cached (Suc n) s' tag i b"
  proof -
    have np: "bm_npages s' = bm_npages s" "bm_map s' = bm_map s" using calculation by simp_all
    have "clist s' T1 (remove1 i xs) \<and> clist s' T2 (i # remove1 i ys) \<and> set (remove1 i xs) \<inter> set (i # remove1 i ys) = {} \<and>
        set (remove1 i xs) \<union> set (i # remove1 i ys) \<subseteq> {..<2 * unat (bm_npages s')} \<and>
        i \<in> (if bit (stat s' i) 28 then set (i # remove1 i ys) else set (remove1 i xs))"
      using s'(2,3) l(3,4) ib bits(4) by (simp add: sx np) blast
    then have "\<exists>as bs. clist s' T1 as \<and> clist s' T2 bs \<and> set as \<inter> set bs = {} \<and> set as \<union> set bs \<subseteq> {..<2 * unat (bm_npages s')} \<and>
        i \<in> (if bit (stat s' i) 28 then set bs else set as)" by blast
    moreover have "sized s'" using st(9) np by (simp add: sized_def)
    ultimately show ?thesis unfolding cached_def using bits(1-3) cnt core st np by simp
  qed
  ultimately show ?thesis using s'(1) by blast
qed

lemma cached_unpin:
  assumes c: "cached (Suc n) s tag i b"
  shows "BufferPin_destroy \<lparr>bp_tag = t, bp_buffer = \<lparr>bf_blockId = i + 1\<rparr>\<rparr> s = (Inr (), set_State i (stat s i - 1) s)"
    and "cached n (set_State i (stat s i - 1) s) tag i b"
proof -
  have ne: "take_bit 20 (stat s i) \<noteq> 0" using c by (auto simp: cached_def)
  then show "BufferPin_destroy \<lparr>bp_tag = t, bp_buffer = \<lparr>bf_blockId = i + 1\<rparr>\<rparr> s = (Inr (), set_State i (stat s i - 1) s)"
    by (simp add: BufferPin_destroy_def BufferPin_IsValid_def Buffer_IsValid_def ReturnBuffer_def cm_simps run_simps)
  have "unat (take_bit 20 (stat s i - 1)) = n"
    using low_sub_one(1) [OF ne] c by (simp add: cached_def unat_minus_one [OF ne])
  then show "cached n (set_State i (stat s i - 1) s) tag i b"
    using c low_sub_one(2) [OF ne] by (auto simp: cached_def sized_def)
qed

lemma cached_page:
  assumes "cached n s tag i b"
  shows "page_of_pin \<lparr>bp_tag = t, bp_buffer = \<lparr>bf_blockId = i + 1\<rparr>\<rparr> s = (Inr (bm_pages s b), s)"
    "set_page_of_pin \<lparr>bp_tag = t, bp_buffer = \<lparr>bf_blockId = i + 1\<rparr>\<rparr> p s = (Inr (), s\<lparr>bm_pages := (bm_pages s)(b := p)\<rparr>)"
  using assms by (simp_all add: page_of_pin_def set_page_of_pin_def Buffer_GetContents_def Buffer_SetContents_def Buffer_IsValid_def buffer_of_def cached_def cm_simps run_simps)

lemma cached_latch:
  fixes s :: "'x trans_state_scheme"
  assumes "cached n s tag i b"
  shows "\<not> ts_contents s b \<Longrightarrow> Buffer_Lock \<lparr>bf_blockId = i + 1\<rparr> s = (Inr (), s\<lparr>ts_contents := (ts_contents s)(b := True)\<rparr>)"
    "ts_contents s b \<Longrightarrow> Buffer_Lock \<lparr>bf_blockId = i + 1\<rparr> s = (Inl (Blocked ''buffer latch''), s)"
    "Buffer_Unlock \<lparr>bf_blockId = i + 1\<rparr> s = (Inr (), s\<lparr>ts_contents := (ts_contents s)(b := False)\<rparr>)"
  using assms by (simp_all add: Buffer_Lock_def Buffer_Unlock_def contents_latch_def Buffer_IsValid_def cached_def cm_simps run_simps)

section \<open>Scopes on a cached page\<close>

abbreviation pin_of :: "PageTag \<Rightarrow> nat \<Rightarrow> BufferPin" where
  "pin_of tag i \<equiv> \<lparr>bp_tag = tag, bp_buffer = \<lparr>bf_blockId = i + 1\<rparr>\<rparr>"

definition latched :: "nat \<Rightarrow> bool \<Rightarrow> 'x trans_state_scheme \<Rightarrow> 'x trans_state_scheme" where
  "latched b h s = s\<lparr>ts_contents := (ts_contents s)(b := h)\<rparr>"

lemma cached_latched [simp]: "cached n (latched b h s) tag i k = cached n s tag i k"
  by (rule cached_cong) (simp add: same_cache_def latched_def)

lemma with_lock_ok:
  assumes c: "cached n s tag i b" and f: "\<not> ts_contents s b"
    and m: "m (latched b True s) = (Inr x, s2)" "same_cache s s2"
  shows "with_lock (bp_buffer (pin_of t i)) m s = (Inr x, latched b False s2)"
proof -
  have "cached n s2 tag i b" using cached_cong [OF m(2)] c by simp
  then show ?thesis using cached_latch(1) [OF c f] m(1) cached_latch(3) [of n s2 tag i b]
    by (simp add: with_lock_def thenM_ok finallyM_ok latched_def)
qed

lemma with_lock_err:
  assumes c: "cached n s tag i b" and f: "\<not> ts_contents s b"
    and m: "m (latched b True s) = (Inl e, s2)" "\<not> unwinds e"
  shows "with_lock (bp_buffer (pin_of t i)) m s = (Inl e, s2)"
  using cached_latch(1) [OF c f] m by (simp add: with_lock_def thenM_ok finallyM_stop latched_def)

text \<open>What a scope leaves: pages, logs and transactions as the body left them, the cache in order, the latch free.\<close>

definition leaves :: "'x trans_state_scheme \<Rightarrow> 'x trans_state_scheme \<Rightarrow> bool" where
  "leaves s s' \<longleftrightarrow> (\<exists>E L. s' = s\<lparr>bm_entries := E, bm_lists := L\<rparr>)"

lemma leaves_fields: "leaves s s' \<Longrightarrow> bm_pages s' = bm_pages s \<and> ts_contents s' = ts_contents s \<and> ts_tm s' = ts_tm s \<and> us_undo s' = us_undo s \<and>
    ws_wal s' = ws_wal s \<and> os_files s' = os_files s \<and> os_script s' = os_script s \<and> us_registry s' = us_registry s"
  by (auto simp: leaves_def)

lemma leaves_refl: "leaves s s"
  unfolding leaves_def by (intro exI [of _ "bm_entries s"] exI [of _ "bm_lists s"]) simp

lemma leaves_trans: "leaves s s1 \<Longrightarrow> leaves s1 s2 \<Longrightarrow> leaves s s2"
  unfolding leaves_def by (elim exE, rule exI, rule exI) simp

lemma same_rest_leaves: "same_rest s s' \<Longrightarrow> leaves s s'"
  by (simp add: same_rest_def leaves_def)

lemma leaves_State: "leaves s (set_State i st s)"
  using same_rest_leaves [OF same_rest_upd(3)] .

lemma with_pin_ok:
  fixes s :: "'x trans_state_scheme"
  assumes c: "cached n s tag i b" "n < 2 ^ 20 - 1"
    and body: "\<And>s1. cached (Suc n) s1 tag i b \<Longrightarrow> leaves s s1 \<Longrightarrow> \<exists>s2. f (pin_of tag i) s1 = (Inr x, s2) \<and> cached (Suc n) s2 tag i b \<and> Q s2"
  shows "\<exists>s2 s3. with_pin tag f s = (Inr x, s3) \<and> Q s2 \<and> leaves s2 s3 \<and> cached n s3 tag i b"
proof -
  obtain s1 where s1: "GetBuffer tag s = (Inr (pin_of tag i), s1)" "cached (Suc n) s1 tag i b" "same_rest s s1"
    using cached_pin [OF c] by blast
  obtain s2 where s2: "f (pin_of tag i) s1 = (Inr x, s2)" "cached (Suc n) s2 tag i b" "Q s2"
    using body [OF s1(2) same_rest_leaves [OF s1(3)]] by blast
  have "with_pin tag f s = (Inr x, set_State i (stat s2 i - 1) s2)"
    using s1(1) s2(1) cached_unpin(1) [OF s2(2)] by (simp add: with_pin_def bindM_def finallyM_def)
  then show ?thesis using s2(3) leaves_State cached_unpin(2) [OF s2(2)] by blast
qed

section \<open>Inserting into the first page\<close>

definition undo_log_of :: "Transaction \<Rightarrow> VirtualUndoLog" where
  "undo_log_of t = (case tr_undoLog t of None \<Rightarrow> [] | Some l \<Rightarrow> l)"

lemma set_slot_twice [simp]: "set_slot w a (set_slot w b m) = set_slot w a m"
  by (simp add: set_slot_def)

lemma InsertUndo_eq:
  assumes t: "trans_of (ts_tm s) w = Some t" and inv: "undo_inv room s es" "undo_cost r \<le> room"
  defines "u \<equiv> us_undo s"
  defines "c \<equiv> file_of (ul_path u) s @ undo_image (tr_xid t) r"
  shows "InsertUndo w r s = (Inr (getCurrentUSN u), s\<lparr>os_files := (os_files s)(ul_path u \<mapsto> c), os_synced := (os_synced s)(ul_path u := Some c),
    us_undo := u\<lparr>ul_size := ul_size u + int (length (undo_image (tr_xid t) r))\<rparr>\<rparr>
      \<lparr>ts_tm := set_slot w (Some (t\<lparr>tr_undoLog := Some (undo_log_of t @ [getCurrentUSN u])\<rparr>)) (ts_tm s)\<rparr>)"
proof -
  let ?s1 = "s\<lparr>ts_tm := set_slot w (Some (t\<lparr>tr_undoLog := Some (undo_log_of t)\<rparr>)) (ts_tm s)\<rparr>"
  have "undo_inv room ?s1 es" using inv(1) by (simp add: undo_inv_def)
  moreover have "24 + align8 (undo_CalculateSize r) \<le> room" using inv(2) by (simp add: undo_cost_def)
  moreover have "file_of p ?s1 = file_of p s" for p by (simp add: file_of_def)
  ultimately have "UndoLog_InsertUndoRecord (tr_xid t) r ?s1 = (Inr (getCurrentUSN u), ?s1\<lparr>os_files := (os_files s)(ul_path u \<mapsto> c),
      os_synced := (os_synced s)(ul_path u := Some c), us_undo := u\<lparr>ul_size := ul_size u + int (length (undo_image (tr_xid t) r))\<rparr>\<rparr>)"
    using InsertUndoRecord_eq [of room ?s1 es r "tr_xid t"] by (simp add: u_def c_def)
  then show ?thesis
    by (simp add: InsertUndo_def bindM_ok [where m = "MyTransaction w" and s = s, OF MyTransaction_run [OF t]] Let_def undo_log_of_def [symmetric] set_MyTransaction_run
        VUndo_InsertRecord_def bindM_def retM_def MyTransaction_run [OF t])
qed

definition delete_record :: "HeapTable \<Rightarrow> PageTag \<Rightarrow> page \<Rightarrow> HeapUndoRecord" where
  "delete_record tb tag page = DeleteUndoRecord (tb_tableId tb) \<lparr>tid_pageno = PageNo tag, tid_itemid = ItemsCount page\<rparr>"

text \<open>What an insertion takes: room on the page and in the log; other files stay.\<close>

definition insert_frame :: "nat \<Rightarrow> byte list \<Rightarrow> 'x trans_state_scheme \<Rightarrow> 'x trans_state_scheme \<Rightarrow> bool" where
  "insert_frame b bs s s' \<longleftrightarrow> lowerN (bm_pages s' b) = lowerN (bm_pages s b) + 4 \<and> upperN (bm_pages s' b) = upperN (bm_pages s b) - align8 (length bs) \<and>
     wal_path (ws_wal s') = wal_path (ws_wal s) \<and> ul_path (us_undo s') = ul_path (us_undo s) \<and>
     unat (wal_end (ws_wal s')) = unat (wal_end (ws_wal s)) + 32 + length bs \<and>
     (\<forall>f. f \<noteq> wal_path (ws_wal s) \<and> f \<noteq> ul_path (us_undo s) \<longrightarrow> os_files s' f = os_files s f)"

lemma insert_on_page_ok:
  assumes c: "cached n s tag i b" and t: "trans_of (ts_tm s) w = Some t"
    and u: "undo_inv room s es" "40 \<le> room" and wal: "wal_ok s" "unat (wal_end (ws_wal s)) + 32 + length bs < 2 ^ 62" "wal_path (ws_wal s) \<noteq> ul_path (us_undo s)"
    and p: "wf_page (bm_pages s b)" "24 \<le> length bs" "lowerN (bm_pages s b) + 4 + align8 (length bs) \<le> upperN (bm_pages s b)" "16 + align8 (length bs) < upperN (bm_pages s b)"
  defines "usn \<equiv> getCurrentUSN (us_undo s)"
  shows "\<exists>s' q. insert_on_page w tb bs (pin_of tag i) s = (Inr (), s') \<and> same_cache s s' \<and> ts_contents s' = ts_contents s \<and>
    bm_pages s' = (bm_pages s)(b := q) \<and> wf_page q \<and> abs_page q = abs_page (bm_pages s b) @ [Some bs] \<and>
    ts_tm s' = set_slot w (Some (t\<lparr>tr_undoLog := Some (undo_log_of t @ [usn])\<rparr>)) (ts_tm s) \<and>
    undo_inv (room - 40) s' (es @ [(usn, delete_record tb tag (bm_pages s b))]) \<and> wal_ok s' \<and> insert_frame b bs s s'"
proof -
  let ?r = "delete_record tb tag (bm_pages s b)" and ?tid = "\<lparr>tid_pageno = PageNo tag, tid_itemid = ItemsCount (bm_pages s b)\<rparr>"
  have cost: "undo_cost ?r = 40" "24 + align8 (undo_CalculateSize ?r) = 40" by (simp_all add: undo_cost_def delete_record_def undo_CalculateSize_def align8_def)
  define s1 where "s1 = snd (InsertUndo w ?r s)"
  have i: "InsertUndo w ?r s = (Inr usn, s1)"
    using InsertUndo_eq [OF t u(1), of ?r] cost u(2) by (simp add: s1_def usn_def)
  have s1: "bm_pages s1 = bm_pages s" "same_cache s s1" "ts_contents s1 = ts_contents s" "ws_wal s1 = ws_wal s" "us_undo s1 = (us_undo s)\<lparr>ul_size := ul_size (us_undo s) + int (length (undo_image (tr_xid t) ?r))\<rparr>"
    "ts_tm s1 = set_slot w (Some (t\<lparr>tr_undoLog := Some (undo_log_of t @ [usn])\<rparr>)) (ts_tm s)" "os_script s1 = os_script s" "us_registry s1 = us_registry s"
    "os_files s1 = (os_files s)(ul_path (us_undo s) \<mapsto> file_of (ul_path (us_undo s)) s @ undo_image (tr_xid t) ?r)"
    using InsertUndo_eq [OF t u(1), of ?r] cost u(2) by (simp_all add: s1_def usn_def same_cache_def)
  have "trans_of (ts_tm s1) w = Some (t\<lparr>tr_undoLog := Some (undo_log_of t @ [usn])\<rparr>)"
    using trans_of_len [OF t] by (simp add: s1(6) set_slot_def trans_of_def)
  then have my: "MyTransaction w s1 = (Inr (t\<lparr>tr_undoLog := Some (undo_log_of t @ [usn])\<rparr>), s1)" by (rule MyTransaction_run)
  have w1: "wal_ok s1" using wal(1,3) by (simp add: wal_ok_def s1 file_of_def)
  define s2 where "s2 = snd (WriteLogRecord (tr_xid t) (InsertHeapWALRecord ?tid bs) s1)"
  define lsn where "lsn = wal_end (ws_wal s) + word_of_nat (length (wal_image (tr_xid t) (InsertHeapWALRecord ?tid bs))) + 1"
  have sz: "unat (wal_end (ws_wal s1)) + 24 + wal_CalculateSize (InsertHeapWALRecord ?tid bs) < 2 ^ 62" using wal(2) by (simp add: s1 wal_CalculateSize_def)
  note we = WriteLogRecord_eq [OF w1 sz, of "tr_xid t"]
  have l: "WriteLogRecord (tr_xid t) (InsertHeapWALRecord ?tid bs) s1 = (Inr lsn, s2)" unfolding s2_def lsn_def we by (simp add: s1)
  have s2: "bm_pages s2 = bm_pages s1" "same_cache s1 s2" "ts_contents s2 = ts_contents s1" "ts_tm s2 = ts_tm s1" "us_undo s2 = us_undo s1" "us_registry s2 = us_registry s1"
    "os_script s2 = os_script s1" "os_files s2 (ul_path (us_undo s)) = os_files s1 (ul_path (us_undo s))"
    unfolding s2_def we using wal(3) by (simp_all add: same_cache_def put_file_def s1)
  have "unat (wal_end (ws_wal s) + word_of_nat (32 + length bs)) = unat (wal_end (ws_wal s)) + (32 + length bs)" using wal(2) by (intro unat_add_small) simp
  then have f2: "wal_path (ws_wal s2) = wal_path (ws_wal s)" "unat (wal_end (ws_wal s2)) = unat (wal_end (ws_wal s)) + 32 + length bs"
    "\<forall>f. f \<noteq> wal_path (ws_wal s) \<and> f \<noteq> ul_path (us_undo s) \<longrightarrow> os_files s2 f = os_files s f"
    unfolding s2_def we by (simp_all add: put_file_def s1 length_wal_image wal_CalculateSize_def add.assoc)
  have w2: "wal_ok s2" using wal_write_ok [OF w1 sz, of "tr_xid t"] l by simp
  obtain q where q: "page_insert lsn bs (bm_pages s b) = Inr q" "wf_page q" "abs_page q = abs_page (bm_pages s b) @ [Some bs]"
    and hq: "lowerN q = lowerN (bm_pages s b) + 4" "upperN q = upperN (bm_pages s b) - align8 (length bs)"
  proof -
    have h: "wf_header (bm_pages s b)" using p(1) by (simp add: wf_page_def)
    then have "length bs \<le> PageSize" using p(3) align8_le(1) [of "length bs"] by (simp add: wf_header_def)
    then have "page_insert lsn bs (bm_pages s b) = Inr (inserted_page lsn bs (bm_pages s b))"
      using page_insert_eq [OF h p(2) _ _ p(4), of lsn] p(3) by simp
    then show thesis using that inserted_page_wf [OF p(1,2,3,4)] inserted_page_abs [OF p(1,2,3)] inserted_page_header(2,3) [OF h p(2,3)] by blast
  qed
  have c2: "cached n s2 tag i b" using cached_cong [OF s1(2)] cached_cong [OF s2(2)] c by simp
  define s3 where "s3 = s2\<lparr>bm_pages := (bm_pages s2)(b := q)\<rparr>"
  have "insert_on_page w tb bs (pin_of tag i) s = (Inr (), s3)"
    unfolding insert_on_page_def
    using cached_page(1) [OF c, of tag] i my l q(1) cached_page(2) [OF c2, of tag q]
    by (simp add: bindM_def Let_def delete_record_def liftR_def s3_def)
  moreover have "undo_inv (room - 40) s3 (es @ [(usn, ?r)])"
    using undo_inv_insert [OF u(1), of ?r s3 "tr_xid t"] cost u s1 s2 by (simp add: s3_def usn_def) (simp add: undo_inv_def)
  moreover have "wal_ok s3" using w2 by (simp add: s3_def wal_ok_def file_of_def)
  moreover have "same_cache s s3" using s1(2) s2(2) by (simp add: same_cache_def s3_def)
  moreover have "insert_frame b bs s s3" using f2 hq s1(5) s2(5) by (simp add: insert_frame_def s3_def)
  ultimately show ?thesis using q(2,3) s1 s2 by (intro exI [of _ s3] exI [of _ q]) (simp add: s3_def)
qed

text \<open>The header of a tuple on a page is the header of its bytes.\<close>

lemma item_header_abs:
  assumes wf: "wf_page p" and i: "i < nitems p" "abs_page p ! i = Some bs" and h: "read_tuple_header bs 0 = Inr h"
  shows "GetItemId p i = Inr (item_at p i) \<and> isNormal (item_at p i) \<and> item_header p (item_at p i) = Inr (fst (extent p i), h)"
proof -
  have n: "isNormal (item_at p i)" "bs = tuple_bytes p i" using i by (auto simp: abs_page_def split: if_splits)
  obtain off len where e: "extent p i = (off, len)" by (cases "extent p i")
  have d: "24 \<le> len" "off + len \<le> PageSize" using wf i(1) n(1) e by (auto simp: wf_page_def in_data_def)
  have l: "length p = PageSize" "wf_header p" using wf by (simp_all add: wf_page_def wf_header_def)
  have "bs = peek p off len" using n(2) e by (simp add: tuple_bytes_def)
  then have "peek bs 0 24 = peek p off 24" "length bs = len" using d l by (simp_all add: peek_peek)
  then have "read_tuple_header p off = Inr h"
    using h d l by (simp add: read_tuple_header_def SizeOfHeapPageTupleHeader_def)
  then show ?thesis using GetItemId_wf [OF l(2) i(1)] GetTuple_wf [OF wf i(1) n(1)] n(1) e by (simp add: item_header_def)
qed

lemma nitems_abs: "length (abs_page p) = nitems p"
  by (simp add: abs_page_def)

lemma GetFreeSpace_enough:
  assumes "wf_header p" "lowerN p + k \<le> upperN p" "k < 65536"
  shows "\<not> GetFreeSpace p < word_of_nat k"
proof -
  have "upperN p < 65536" "lowerN p < 65536" using unsigned_less [of "ph_upper (GetHeader p)"] unsigned_less [of "ph_lower (GetHeader p)"] by (simp_all add: upperN_def lowerN_def)
  then have "unat (GetFreeSpace p) = upperN p - lowerN p" using assms(1)
    by (simp add: GetFreeSpace_def wf_header_def upperN_def lowerN_def unat_sub word_le_nat_alt unat_ucast_up)
  then show ?thesis using assms by (simp add: word_less_nat_alt unat_of_nat)
qed

lemma npages_list:
  assumes "os_files s (rel_path r) = Some c" "PageSize \<le> length c" "length c < 2 ^ 32 * PageSize"
  shows "\<exists>np. RelFile_Open r s = (Inr (rel_path r), s) \<and> RelFile_GetPagesCount (rel_path r) s = (Inr np, s) \<and> [0..<unat np] = 0 # [1..<unat np] \<and>
    np = word_of_int (int (length c) div int PageSize) \<and> unat np = length c div PageSize"
proof -
  let ?k = "length c div PageSize"
  have k: "1 \<le> ?k" "?k < 2 ^ 32" using assms(2,3) by (simp_all add: PageSize_def less_mult_imp_div_less)
  have "word_of_int (int (length c) div int PageSize) = (word_of_nat ?k :: u32)" by (simp add: zdiv_int [symmetric])
  then have "unat (word_of_int (int (length c) div int PageSize) :: u32) = ?k" using k by (simp add: unat_of_nat)
  then show ?thesis using assms(1) k
    by (simp add: RelFile_Open_def File_Open_ok RelFile_GetPagesCount_def File_Size_def file_of_def cm_simps upt_conv_Cons)
qed

lemma search_first_page:
  assumes c: "cached n s \<lparr>Relid = tb_tableId tb, PageNo = 0\<rparr> i b" "n < 2 ^ 20 - 1" "\<not> ts_contents s b"
    and f: "os_files s (rel_path (tb_tableId tb)) = Some file" "PageSize \<le> length file" "length file < 2 ^ 32 * PageSize"
    and room: "\<not> GetFreeSpace (bm_pages s b) < needed"
  shows "\<exists>s1. searchPageFreeSpace tb needed s = (Inr (pin_of \<lparr>Relid = tb_tableId tb, PageNo = 0\<rparr> i), s1) \<and>
    cached (Suc n) s1 \<lparr>Relid = tb_tableId tb, PageNo = 0\<rparr> i b \<and> leaves s s1"
proof -
  let ?tag = "\<lparr>Relid = tb_tableId tb, PageNo = 0\<rparr>"
  obtain s1 where s1: "GetBuffer ?tag s = (Inr (pin_of ?tag i), s1)" "cached (Suc n) s1 ?tag i b" "same_rest s s1"
    using cached_pin [OF c(1,2)] by blast
  note l = leaves_fields [OF same_rest_leaves [OF s1(3)]]
  let ?m = "bindM (page_of_pin (pin_of ?tag i)) (\<lambda>page. retM (GetFreeSpace page < needed))"
  have cl: "cached (Suc n) (latched b True s1) ?tag i b" using s1(2) by simp
  have "?m (latched b True s1) = (Inr False, latched b True s1)"
    using cached_page(1) [OF cl, of ?tag] room l by (simp add: bindM_def retM_def) (simp add: latched_def)
  then have "with_lock (bp_buffer (pin_of ?tag i)) ?m s1 = (Inr False, latched b False (latched b True s1))"
    using with_lock_ok [OF s1(2), of ?m False "latched b True s1" ?tag] c(3) l by (simp add: same_cache_def latched_def)
  moreover have "latched b False (latched b True s1) = s1" using c(3) l by (simp add: latched_def fun_upd_idem)
  ultimately have wl: "with_lock (bp_buffer (pin_of ?tag i)) ?m s1 = (Inr False, s1)" by simp
  have pg: "page_of_pin (pin_of ?tag i) s1 = (Inr (bm_pages s1 b), s1)" using cached_page(1) [OF s1(2)] .
  obtain np where np: "RelFile_Open (tb_tableId tb) s = (Inr (rel_path (tb_tableId tb)), s)"
    "RelFile_GetPagesCount (rel_path (tb_tableId tb)) s = (Inr np, s)" "[0..<unat np] = 0 # [1..<unat np]"
    using npages_list [OF f] by blast
  have "search_pages tb needed (0 # [1..<unat np]) s = (Inr (Some (pin_of ?tag i)), s1)"
    using s1(1) pg wl by (simp add: bindM_def thenM_def retM_def)
  then have "searchPageFreeSpace tb needed s = (Inr (pin_of ?tag i), s1)"
    using np by (simp add: searchPageFreeSpace_def bindM_def retM_def)
  then show ?thesis using s1(2) same_rest_leaves [OF s1(3)] by blast
qed

text \<open>What an insertion into the first page starts from.\<close>

definition can_insert :: "nat \<Rightarrow> nat \<Rightarrow> HeapTable \<Rightarrow> ITuple \<Rightarrow> byte list \<Rightarrow> nat \<Rightarrow> nat \<Rightarrow> nat \<Rightarrow> (UndoSeqNumber \<times> HeapUndoRecord) list \<Rightarrow>
    Transaction \<Rightarrow> 'x trans_state_scheme \<Rightarrow> bool" where
  "can_insert n w tb tup bs i b room es t s \<longleftrightarrow>
     cached n s \<lparr>Relid = tb_tableId tb, PageNo = 0\<rparr> i b \<and> n < 2 ^ 20 - 1 \<and> \<not> ts_contents s b \<and>
     (\<exists>file. os_files s (rel_path (tb_tableId tb)) = Some file \<and> PageSize \<le> length file \<and> length file < 2 ^ 32 * PageSize) \<and>
     trans_of (ts_tm s) w = Some t \<and> undo_inv room s es \<and> 40 \<le> room \<and> wal_ok s \<and>
     unat (wal_end (ws_wal s)) + 32 + length bs < 2 ^ 62 \<and> wal_path (ws_wal s) \<noteq> ul_path (us_undo s) \<and>
     (\<exists>hpt. formHeapPageTuple w tb tup s = (Inr hpt, s) \<and> HeapTuple_Serialize hpt (tb_descriptor tb) = Inr bs) \<and>
     wf_page (bm_pages s b) \<and> lowerN (bm_pages s b) + 4 + align8 (length bs) \<le> upperN (bm_pages s b) \<and>
     16 + align8 (length bs) < upperN (bm_pages s b)"

lemma serialized_header:
  assumes "formHeapPageTuple w tb tup s = (Inr hpt, s')" "HeapTuple_Serialize hpt desc = Inr bs"
  shows "24 \<le> length bs \<and> (\<exists>h. read_tuple_header bs 0 = Inr h \<and> th_undo h = Usn_Invalid)"
proof -
  have "th_undo (hpt_header hpt) = Usn_Invalid"
    using assms(1) by (auto simp: formHeapPageTuple_def cm_simps Let_def split: sum.splits prod.splits)
  moreover obtain rest fl where "bs = tuple_header_bytes ((hpt_header hpt)\<lparr>th_flags := fl\<rparr>) @ rest"
    using assms(2) by (auto simp: HeapTuple_Serialize_def bindR_def Let_def split: sum.splits if_splits)
  ultimately show ?thesis by (auto simp: tuple_header_bytes_def [of "_\<lparr>th_flags := _\<rparr>", THEN arg_cong, of length])
qed

definition inserted :: "nat \<Rightarrow> nat \<Rightarrow> HeapTable \<Rightarrow> byte list \<Rightarrow> nat \<Rightarrow> nat \<Rightarrow> nat \<Rightarrow> (UndoSeqNumber \<times> HeapUndoRecord) list \<Rightarrow> Transaction \<Rightarrow>
    'x trans_state_scheme \<Rightarrow> UndoSeqNumber \<Rightarrow> 'x trans_state_scheme \<Rightarrow> bool" where
  "inserted n w tb bs i b room es t s usn s' \<longleftrightarrow>
     cached n s' \<lparr>Relid = tb_tableId tb, PageNo = 0\<rparr> i b \<and> \<not> ts_contents s' b \<and>
     wf_page (bm_pages s' b) \<and> abs_page (bm_pages s' b) = abs_page (bm_pages s b) @ [Some bs] \<and> (\<forall>k. k \<noteq> b \<longrightarrow> bm_pages s' k = bm_pages s k) \<and>
     ts_tm s' = set_slot w (Some (t\<lparr>tr_undoLog := Some (undo_log_of t @ [usn])\<rparr>)) (ts_tm s) \<and>
     undo_inv (room - 40) s' (es @ [(usn, delete_record tb \<lparr>Relid = tb_tableId tb, PageNo = 0\<rparr> (bm_pages s b))]) \<and> wal_ok s' \<and> insert_frame b bs s s'"

lemma InsertTuple_first_page:
  assumes r: "can_insert n w tb tup bs i b room es t s"
  shows "\<exists>usn s'. InsertTuple (Suc k) w tb tup s = (Inr (), s') \<and> inserted n w tb bs i b room es t s usn s'"
proof -
  let ?tag = "\<lparr>Relid = tb_tableId tb, PageNo = 0\<rparr>" and ?usn = "getCurrentUSN (us_undo s)"
  let ?pin = "pin_of ?tag i"
  obtain hpt fc where h: "formHeapPageTuple w tb tup s = (Inr hpt, s)" "HeapTuple_Serialize hpt (tb_descriptor tb) = Inr bs"
    and f: "os_files s (rel_path (tb_tableId tb)) = Some fc" "PageSize \<le> length fc" "length fc < 2 ^ 32 * PageSize"
    using r by (auto simp: can_insert_def)
  have c: "cached n s ?tag i b" "n < 2 ^ 20 - 1" "\<not> ts_contents s b" and t: "trans_of (ts_tm s) w = Some t"
    and u: "undo_inv room s es" "40 \<le> room" and wal: "wal_ok s" "unat (wal_end (ws_wal s)) + 32 + length bs < 2 ^ 62" "wal_path (ws_wal s) \<noteq> ul_path (us_undo s)"
    and p: "wf_page (bm_pages s b)" "lowerN (bm_pages s b) + 4 + align8 (length bs) \<le> upperN (bm_pages s b)" "16 + align8 (length bs) < upperN (bm_pages s b)"
    using r by (simp_all add: can_insert_def)
  have b24: "24 \<le> length bs" using serialized_header [OF h] by simp
  define needed where "needed = (word_of_nat (length bs) + 4 :: u64)"
  have n4: "needed = word_of_nat (length bs + 4)" by (simp add: needed_def)
  have hd: "wf_header (bm_pages s b)" "upperN (bm_pages s b) \<le> PageSize" using p(1) by (simp_all add: wf_page_def wf_header_def)
  have fit: "lowerN (bm_pages s b) + (length bs + 4) \<le> upperN (bm_pages s b)" using p(2) align8_le(1) [of "length bs"] by simp
  then have free: "\<not> GetFreeSpace (bm_pages s b) < needed"
    unfolding n4 using GetFreeSpace_enough [OF hd(1) fit] hd(2) by (simp add: PageSize_def)
  obtain s1 where s1: "searchPageFreeSpace tb needed s = (Inr ?pin, s1)" "cached (Suc n) s1 ?tag i b" "leaves s s1"
    using search_first_page [OF c f free] by blast
  note l1 = leaves_fields [OF s1(3)]
  let ?s2 = "latched b True s1"
  have l2: "bm_pages ?s2 = bm_pages s" "ts_tm ?s2 = ts_tm s" "us_undo ?s2 = us_undo s" "ws_wal ?s2 = ws_wal s" "os_files ?s2 = os_files s" "os_script ?s2 = os_script s" "us_registry ?s2 = us_registry s"
    using l1 by (simp_all add: latched_def)
  have c2: "cached (Suc n) ?s2 ?tag i b" using s1(2) by simp
  have inv2: "undo_inv room ?s2 es" "wal_ok ?s2" using u(1) wal(1) l2 by (simp_all add: undo_inv_def wal_ok_def file_of_def)
  obtain s3 q where s3: "insert_on_page w tb bs ?pin ?s2 = (Inr (), s3)" "same_cache ?s2 s3" "ts_contents s3 = ts_contents ?s2" "bm_pages s3 = (bm_pages s)(b := q)"
    "wf_page q" "abs_page q = abs_page (bm_pages s b) @ [Some bs]" "ts_tm s3 = set_slot w (Some (t\<lparr>tr_undoLog := Some (undo_log_of t @ [?usn])\<rparr>)) (ts_tm s)"
    "undo_inv (room - 40) s3 (es @ [(?usn, delete_record tb ?tag (bm_pages s b))])" "wal_ok s3" "insert_frame b bs ?s2 s3"
    using insert_on_page_ok [OF c2, of w t room es bs tb] t u(2) wal p b24 inv2 unfolding l2 by blast
  let ?m = "bindM (page_of_pin ?pin) (\<lambda>page. if GetFreeSpace page < needed then retM False else thenM (insert_on_page w tb bs ?pin) (retM True))"
  have "?m ?s2 = (Inr True, s3)" using cached_page(1) [OF c2, of ?tag] free s3(1) l2(1) by (simp add: bindM_def thenM_def retM_def)
  moreover have "same_cache s1 s3" using s3(2) by (simp add: same_cache_def latched_def)
  ultimately have wl: "with_lock (bp_buffer ?pin) ?m s1 = (Inr True, latched b False s3)" using with_lock_ok [OF s1(2), of ?m True s3 ?tag] c(3) l1 by simp
  have c3: "cached (Suc n) (latched b False s3) ?tag i b" using cached_cong [OF s3(2)] c2 by simp
  let ?s4 = "latched b False s3"
  let ?s5 = "set_State i (stat ?s4 i - 1) ?s4"
  have un: "finallyM (with_lock (bp_buffer ?pin) ?m) (BufferPin_destroy ?pin) s1 = (Inr True, ?s5)"
    unfolding finallyM_def wl prod.case sum.case cached_unpin(1) [OF c3, of ?tag] by simp
  have round: "insert_round w tb bs s = (Inr True, ?s5)"
    unfolding insert_round_def Let_def needed_def [symmetric] bindM_def s1(1) prod.case sum.case
    by (rule un [unfolded bindM_def])
  have "InsertTuple (Suc k) w tb tup s = (Inr (), ?s5)"
    using h round by (simp add: InsertTuple_def bindM_def liftR_def retM_def)
  moreover have fr: "insert_frame b bs s ?s5" using s3(10) l2 by (simp add: insert_frame_def) (simp add: latched_def)
  moreover have "inserted n w tb bs i b room es t s ?usn ?s5"
    unfolding inserted_def using cached_unpin(2) [OF c3] s3(4-9) fr
    by (simp add: latched_def undo_inv_def wal_ok_def file_of_def)
  ultimately show ?thesis by blast
qed

end
