(* ===== verification/Mimi_Scan.thy ===== *)
theory Mimi_Scan
  imports Mimi_HeapOps
begin

text \<open>
  The scan of a page that the cache holds (\<open>access/heap/HeapTableScan.cpp\<close>) as the list of the tuples that
  the snapshot sees: on the page itself, or, where the current version is not visible, the newest
  visible older version in the undo log.
\<close>

unbundle bit_operations_syntax

section \<open>Verdicts\<close>

text \<open>Whose tuples the snapshot of the transaction sees, and the tuples whose verdict is settled.\<close>

definition sees :: "TransactionManager \<Rightarrow> TransactionId \<Rightarrow> Snapshot \<Rightarrow> HeapPageTupleHeader \<Rightarrow> bool" where
  "sees m xid sn h \<longleftrightarrow> (if th_xid h = xid then \<not> sn_CommandId sn <=s th_undo h
     else (case tm_history m (th_xid h) of Some c \<Rightarrow> c = Csn_Frozen \<or> Csn_IsNormal c \<and> c < sn_CSN sn | None \<Rightarrow> False))"

definition settled :: "TransactionManager \<Rightarrow> TransactionId \<Rightarrow> HeapPageTupleHeader \<Rightarrow> bool" where
  "settled m xid h \<longleftrightarrow> th_xid h = xid \<or> (\<exists>c. tm_history m (th_xid h) = Some c \<and>
     (c = Csn_InProgress \<or> c = Csn_Aborted \<or> c = Csn_Frozen \<or> Csn_IsNormal c))"

lemma tuple_is_visible_settled:
  assumes "trans_of (ts_tm s) w = Some t" "\<not> tm_mutex (ts_tm s)" "settled (ts_tm s) (tr_xid t) h"
  shows "tuple_is_visible w sn h s = (Inr (sees (ts_tm s) (tr_xid t) sn h), s)"
proof (cases "th_xid h = tr_xid t")
  case True
  then show ?thesis using MyTransaction_run [OF assms(1)] by (simp add: tuple_is_visible_def bindM_def sees_def retM_def)
next
  case False
  then obtain c where c: "tm_history (ts_tm s) (th_xid h) = Some c" "c = Csn_InProgress \<or> c = Csn_Aborted \<or> c = Csn_Frozen \<or> Csn_IsNormal c"
    using assms(3) by (auto simp: settled_def)
  have ne: "c \<noteq> Csn_Invalid" "c \<noteq> Csn_Committing" using c(2) by (auto simp: csn_defs word_le_nat_alt)
  have "s\<lparr>ts_tm := ts_tm s\<lparr>tm_mutex := False\<rparr>\<rparr> = s" using assms(2) by simp
  then have g: "GetTransactionCsn (th_xid h) s = (Inr c, s)"
    using assms(2) c(1) ne by (simp add: GetTransactionCsn_def history_at_def tm_simps)
  have "\<not> Csn_IsNormal Csn_InProgress" "\<not> Csn_IsNormal Csn_Aborted" "Csn_InProgress \<noteq> Csn_Frozen" "Csn_Aborted \<noteq> Csn_Frozen" by (simp_all add: csn_defs word_le_nat_alt)
  then show ?thesis using MyTransaction_run [OF assms(1)] g c ne False
    by (auto simp: tuple_is_visible_def bindM_def sees_def retM_def thenM_def assertM_def)
qed

section \<open>Older versions\<close>

text \<open>
  The versions of a tuple before the one whose undo position is given, newest first, as the records
  of the undo log tell them: a record of an insertion ends the chain, and so does one of an update that
  moved the tuple.
\<close>

record Version =
  vr_usn :: UndoSeqNumber
  vr_header :: HeapPageTupleHeader
  vr_data :: "byte list"
  vr_location :: TupleId

inductive older :: "(UndoSeqNumber \<Rightarrow> HeapUndoRecord option) \<Rightarrow> UndoSeqNumber \<Rightarrow> Version list \<Rightarrow> bool" for log where
  created: "\<not> Usn_IsValid usn \<Longrightarrow> older log usn []"
| inserted_here: "Usn_IsValid usn \<Longrightarrow> log usn = Some (DeleteUndoRecord tableId tid) \<Longrightarrow> older log usn []"
| moved_here: "Usn_IsValid usn \<Longrightarrow> log usn = Some (UpdateUndoRecord tableId oldTid newTid bs) \<Longrightarrow> newTid \<noteq> oldTid \<Longrightarrow> older log usn []"
| updated: "Usn_IsValid usn \<Longrightarrow> log usn = Some (UpdateUndoRecord tableId tid tid bs) \<Longrightarrow> read_tuple_header bs 0 = Inr h \<Longrightarrow>
    older log (th_undo h) vs \<Longrightarrow> older log usn (\<lparr>vr_usn = usn, vr_header = h, vr_data = bs, vr_location = tid\<rparr> # vs)"
| deleted: "Usn_IsValid usn \<Longrightarrow> log usn = Some (InsertUndoRecord tableId tid bs) \<Longrightarrow> read_tuple_header bs 0 = Inr h \<Longrightarrow>
    older log (th_undo h) vs \<Longrightarrow> older log usn (\<lparr>vr_usn = usn, vr_header = h, vr_data = bs, vr_location = tid\<rparr> # vs)"

inductive_cases older_ConsE: "older log usn (v # vs)"
inductive_cases older_NilE: "older log usn []"

lemma older_unique: "older log usn vs \<Longrightarrow> older log usn ws \<Longrightarrow> vs = ws"
proof (induction arbitrary: ws rule: older.induct)
  case (updated usn tableId tid bs h vs)
  obtain ws' where "ws = \<lparr>vr_usn = usn, vr_header = h, vr_data = bs, vr_location = tid\<rparr> # ws'" "older log (th_undo h) ws'"
    using updated.prems by (cases rule: older.cases) (use updated.hyps(1-3) in simp_all)
  then show ?case using updated.IH by simp
next
  case (deleted usn tableId tid bs h vs)
  obtain ws' where "ws = \<lparr>vr_usn = usn, vr_header = h, vr_data = bs, vr_location = tid\<rparr> # ws'" "older log (th_undo h) ws'"
    using deleted.prems by (cases rule: older.cases) (use deleted.hyps(1-3) in simp_all)
  then show ?case using deleted.IH by simp
qed (erule older.cases, simp_all)+

lemma older_head: "older log usn (v # vs) \<Longrightarrow> vr_usn v = usn \<and> log usn \<noteq> None \<and> older log (th_undo (vr_header v)) vs"
  by (auto elim: older_ConsE)

lemma older_suffix: "older log usn vs \<Longrightarrow> k < length vs \<Longrightarrow> older log (vr_usn (vs ! k)) (drop k vs)"
proof (induction k arbitrary: usn vs)
  case 0
  then obtain v ws where "vs = v # ws" by (cases vs) auto
  then show ?case using 0(1) older_head [of log usn v ws] by simp
next
  case (Suc k)
  then obtain v ws where vs: "vs = v # ws" by (cases vs) auto
  have "older log (th_undo (vr_header v)) ws" using Suc.prems(1) older_head [of log usn v ws] vs by simp
  then show ?case using Suc.IH [of "th_undo (vr_header v)" ws] Suc.prems(2) vs by simp
qed

lemma older_distinct:
  assumes "older log usn vs"
  shows "distinct (map vr_usn vs)" "vr_usn ` set vs \<subseteq> dom log"
proof -
  have "i = j" if "i < length vs" "j < length vs" "vr_usn (vs ! i) = vr_usn (vs ! j)" for i j
  proof -
    have "drop i vs = drop j vs" using older_suffix [OF assms that(1)] older_suffix [OF assms that(2)] that(3) older_unique by simp
    from arg_cong [OF this, of length] show "i = j" using that(1,2) by simp
  qed
  then show "distinct (map vr_usn vs)" by (simp add: distinct_conv_nth) blast
  show "vr_usn ` set vs \<subseteq> dom log" using assms by (induction rule: older.induct) auto
qed

text \<open>The log is readable: it has no records of interest, or the invariant of the undo log holds.\<close>

definition undo_readable :: "(UndoSeqNumber \<times> HeapUndoRecord) list \<Rightarrow> 'x undo_state_scheme \<Rightarrow> bool" where
  "undo_readable es s \<longleftrightarrow> es = [] \<or> (\<exists>room. undo_inv room s es)"

lemma undo_readable_cong:
  "undo_readable es s \<Longrightarrow> us_undo s' = us_undo s \<Longrightarrow> us_registry s' = us_registry s \<Longrightarrow> os_files s' = os_files s \<Longrightarrow> os_script s' = os_script s \<Longrightarrow>
    undo_readable es s'"
  by (simp add: undo_readable_def undo_inv_def)

lemma readable_record: "undo_readable es s \<Longrightarrow> map_of es usn = Some r \<Longrightarrow> UndoLog_GetRecord usn s = (Inr r, s)"
  using UndoLog_GetRecord_entry [OF _ map_of_SomeD] by (auto simp: undo_readable_def)

text \<open>Different records begin at different bytes of the file, so a chain is no longer than the file.\<close>

lemma older_bounded:
  assumes "undo_readable es s" "older (map_of es) usn vs"
  shows "length vs \<le> nat (ul_size (us_undo s))"
proof (cases "es = []")
  case True
  then have "vr_usn ` set vs = {}" using older_distinct(2) [OF assms(2)] by auto
  then show ?thesis by simp
next
  case False
  then obtain c where c: "ul_size (us_undo s) = int (length c)" "\<forall>(usn, r)\<in>set es. entry_at c usn r"
    using assms(1) by (auto simp: undo_readable_def undo_inv_def)
  have "vr_usn ` set vs \<subseteq> word_of_nat ` {1..length c}"
  proof
    fix u assume "u \<in> vr_usn ` set vs"
    then obtain r where "(u, r) \<in> set es" using older_distinct(2) [OF assms(2)] by (auto dest: map_of_SomeD)
    then obtain off xid where "u = word_of_nat (off + 1)" "off + length (undo_image xid r) \<le> length c"
      using c(2) by (auto simp: entry_at_def)
    then show "u \<in> word_of_nat ` {1..length c}" by (intro image_eqI [of _ _ "off + 1"]) (simp_all add: length_undo_image)
  qed
  then have "card (vr_usn ` set vs) \<le> length c"
    using card_mono [of "word_of_nat ` {1..length c}" "vr_usn ` set vs"] card_image_le [of "{1..length c}" "word_of_nat :: nat \<Rightarrow> UndoSeqNumber"] by simp
  then show ?thesis using distinct_card [OF older_distinct(1) [OF assms(2)]] c(1) by simp
qed

text \<open>The tuple the code builds of a version, and the newest version that the snapshot sees.\<close>

definition version_tuple :: "TupleDescriptor \<Rightarrow> Version \<Rightarrow> HeapTuple option" where
  "version_tuple desc v = (case build_heap_tuple desc (vr_data v) (vr_location v) of Inl _ \<Rightarrow> None | Inr t \<Rightarrow> Some t)"

definition newest_seen :: "TransactionManager \<Rightarrow> TransactionId \<Rightarrow> Snapshot \<Rightarrow> TupleDescriptor \<Rightarrow> Version list \<Rightarrow> HeapTuple option" where
  "newest_seen m xid sn desc vs = Option.bind (find (\<lambda>v. sees m xid sn (vr_header v)) vs) (version_tuple desc)"

definition versions_ok :: "TransactionManager \<Rightarrow> TransactionId \<Rightarrow> TupleDescriptor \<Rightarrow> Version list \<Rightarrow> bool" where
  "versions_ok m xid desc vs \<longleftrightarrow> (\<forall>v\<in>set vs. settled m xid (vr_header v) \<and> version_tuple desc v \<noteq> None)"

lemma find_visible_older:
  assumes "older (map_of es) usn vs" "undo_readable es s" "trans_of (ts_tm s) w = Some t" "\<not> tm_mutex (ts_tm s)"
    and "versions_ok (ts_tm s) (tr_xid t) desc vs" "length vs \<le> k"
  shows "find_visible (Suc k) w desc sn usn s = (Inr (newest_seen (ts_tm s) (tr_xid t) sn desc vs), s)"
  using assms(1,5,6)
proof (induction arbitrary: k rule: older.induct)
  case (updated usn tableId tid bs h vs)
  let ?v = "\<lparr>vr_usn = usn, vr_header = h, vr_data = bs, vr_location = tid\<rparr>"
  obtain k' where k: "k = Suc k'" "length vs \<le> k'" using updated.prems(2) by (cases k) auto
  have "settled (ts_tm s) (tr_xid t) h" "version_tuple desc ?v \<noteq> None" using updated.prems(1) by (simp_all add: versions_ok_def)
  then obtain tup where v: "tuple_is_visible w sn h s = (Inr (sees (ts_tm s) (tr_xid t) sn h), s)" "build_heap_tuple desc bs tid = Inr tup"
    using tuple_is_visible_settled [OF assms(3,4)] by (auto simp: version_tuple_def split: sum.splits)
  have "find_visible (Suc k') w desc sn (th_undo h) s = (Inr (newest_seen (ts_tm s) (tr_xid t) sn desc vs), s)"
    by (rule updated.IH [OF _ k(2)]) (use updated.prems(1) in \<open>simp add: versions_ok_def\<close>)
  then show ?case using updated.hyps(1,3) readable_record [OF assms(2) updated.hyps(2)] v k(1)
    by (simp add: bindM_def liftR_def retM_def newest_seen_def version_tuple_def del: find_visible.simps) (simp add: bindM_def liftR_def retM_def)
next
  case (deleted usn tableId tid bs h vs)
  let ?v = "\<lparr>vr_usn = usn, vr_header = h, vr_data = bs, vr_location = tid\<rparr>"
  obtain k' where k: "k = Suc k'" "length vs \<le> k'" using deleted.prems(2) by (cases k) auto
  have "settled (ts_tm s) (tr_xid t) h" "version_tuple desc ?v \<noteq> None" using deleted.prems(1) by (simp_all add: versions_ok_def)
  then obtain tup where v: "tuple_is_visible w sn h s = (Inr (sees (ts_tm s) (tr_xid t) sn h), s)" "build_heap_tuple desc bs tid = Inr tup"
    using tuple_is_visible_settled [OF assms(3,4)] by (auto simp: version_tuple_def split: sum.splits)
  have "find_visible (Suc k') w desc sn (th_undo h) s = (Inr (newest_seen (ts_tm s) (tr_xid t) sn desc vs), s)"
    by (rule deleted.IH [OF _ k(2)]) (use deleted.prems(1) in \<open>simp add: versions_ok_def\<close>)
  then show ?case using deleted.hyps(1,3) readable_record [OF assms(2) deleted.hyps(2)] v k(1)
    by (simp add: bindM_def liftR_def retM_def newest_seen_def version_tuple_def del: find_visible.simps) (simp add: bindM_def liftR_def retM_def)
qed (use readable_record [OF assms(2)] in \<open>simp_all add: bindM_def retM_def newest_seen_def\<close>)

lemma find_visible_tuple_page_older:
  assumes "older (map_of es) (th_undo h) vs" "undo_readable es s" "trans_of (ts_tm s) w = Some t" "\<not> tm_mutex (ts_tm s)"
    and "versions_ok (ts_tm s) (tr_xid t) desc vs"
  shows "find_visible_tuple_page w h desc sn s = (Inr (newest_seen (ts_tm s) (tr_xid t) sn desc vs), s)"
  using find_visible_older [OF assms older_bounded [OF assms(2,1)]]
  by (simp add: find_visible_tuple_page_def bindM_def getM_def del: find_visible.simps)

section \<open>Scanning a page\<close>

definition slot_header :: "page \<Rightarrow> nat \<Rightarrow> HeapPageTupleHeader res" where
  "slot_header p i = (case abs_page p ! i of None \<Rightarrow> Inl (RuntimeError '''') | Some bs \<Rightarrow> read_tuple_header bs 0)"

definition slot_tuple :: "HeapTable \<Rightarrow> PageNumber \<Rightarrow> page \<Rightarrow> nat \<Rightarrow> HeapTuple res" where
  "slot_tuple tb pg p i = build_heap_tuple (tb_descriptor tb) (drop (fst (extent p i)) p) \<lparr>tid_pageno = pg, tid_itemid = word_of_nat i\<rparr>"

text \<open>
  What the statement sees of a slot: the tuple on the page if its version there is visible and not deleted,
  otherwise, if that version is invisible, the newest visible of its older versions \<open>vs\<close>.
\<close>

definition shown_at :: "TransactionManager \<Rightarrow> TransactionId \<Rightarrow> Snapshot \<Rightarrow> HeapTable \<Rightarrow> PageNumber \<Rightarrow> page \<Rightarrow> (nat \<Rightarrow> Version list) \<Rightarrow> nat \<Rightarrow> HeapTuple option" where
  "shown_at m xid sn tb pg p vs i = (case slot_header p i of
     Inl _ \<Rightarrow> None
   | Inr h \<Rightarrow> if sees m xid sn h
       then (if th_flags h AND HeapTupleFlags_Deleted \<noteq> 0 then None else case slot_tuple tb pg p i of Inl _ \<Rightarrow> None | Inr t \<Rightarrow> Some t)
       else newest_seen m xid sn (tb_descriptor tb) (vs i))"

text \<open>
  A page that a scan can decide: no transaction whose tuple is looked at is in the middle of its commit,
  the tuples it returns can be deserialised, and the older versions of an invisible tuple are in the
  undo log.
\<close>

definition slot_ready :: "(UndoSeqNumber \<times> HeapUndoRecord) list \<Rightarrow> TransactionManager \<Rightarrow> TransactionId \<Rightarrow> Snapshot \<Rightarrow> HeapTable \<Rightarrow> PageNumber \<Rightarrow> page \<Rightarrow>
    (nat \<Rightarrow> Version list) \<Rightarrow> nat \<Rightarrow> HeapPageTupleHeader \<Rightarrow> bool" where
  "slot_ready es m xid sn tb pg p vs i h \<longleftrightarrow> slot_header p i = Inr h \<and> settled m xid h \<and>
     (if sees m xid sn h then th_flags h AND HeapTupleFlags_Deleted = 0 \<longrightarrow> (\<exists>t. slot_tuple tb pg p i = Inr t)
      else older (map_of es) (th_undo h) (vs i) \<and> versions_ok m xid (tb_descriptor tb) (vs i))"

definition scan_ready :: "(UndoSeqNumber \<times> HeapUndoRecord) list \<Rightarrow> TransactionManager \<Rightarrow> TransactionId \<Rightarrow> Snapshot \<Rightarrow> HeapTable \<Rightarrow> PageNumber \<Rightarrow> page \<Rightarrow>
    (nat \<Rightarrow> Version list) \<Rightarrow> bool" where
  "scan_ready es m xid sn tb pg p vs \<longleftrightarrow> wf_page p \<and> (\<forall>i<nitems p. abs_page p ! i \<noteq> None \<longrightarrow> (\<exists>h. slot_ready es m xid sn tb pg p vs i h))"

text \<open>The first slot of a list that shows something.\<close>

definition first_found :: "(nat \<Rightarrow> 'b option) \<Rightarrow> nat list \<Rightarrow> (nat \<times> 'b) option" where
  "first_found f is = (case List.map_filter (\<lambda>i. map_option (Pair i) (f i)) is of [] \<Rightarrow> None | x # _ \<Rightarrow> Some x)"

lemma first_found_simps [simp]:
  "first_found f [] = None"
  "first_found f (i # is) = (case f i of None \<Rightarrow> first_found f is | Some x \<Rightarrow> Some (i, x))"
  by (auto simp: first_found_def List.map_filter_simps split: option.splits)

lemma shown_at_empty: "abs_page p ! i = None \<Longrightarrow> shown_at m xid sn tb pg p vs i = None"
  by (simp add: shown_at_def slot_header_def)

lemma scan_items_first:
  assumes p: "scan_ready es (ts_tm s) (tr_xid t) (hs_snapshot sc) (hs_table sc) (tid_pageno (hs_tupleId sc)) p vs" and u: "undo_readable es s"
    and t: "trans_of (ts_tm s) w = Some t" "\<not> tm_mutex (ts_tm s)" and i: "set is \<subseteq> {..<nitems p}"
  shows "scan_items w sc p is s =
    (Inr (first_found (shown_at (ts_tm s) (tr_xid t) (hs_snapshot sc) (hs_table sc) (tid_pageno (hs_tupleId sc)) p vs) is), s)"
  using i
proof (induction "is")
  case Nil
  then show ?case by (simp add: retM_def)
next
  case (Cons i js)
  let ?sn = "hs_snapshot sc" and ?m = "ts_tm s" and ?x = "tr_xid t" and ?tb = "hs_table sc" and ?pg = "tid_pageno (hs_tupleId sc)"
  let ?f = "shown_at ?m ?x ?sn ?tb ?pg p vs"
  have lt: "i < nitems p" and IH: "scan_items w sc p js s = (Inr (first_found ?f js), s)" using Cons by simp_all
  have wf: "wf_page p" "wf_header p" using p by (simp_all add: scan_ready_def wf_page_def)
  have a: "abs_page p ! i = (if isNormal (item_at p i) then Some (tuple_bytes p i) else None)" using lt by (simp add: abs_page_def)
  show ?case
  proof (cases "isNormal (item_at p i)")
    case False
    then show ?thesis using a IH GetItemId_wf [OF wf(2) lt] shown_at_empty [of p i] by (simp add: bindM_def liftR_def)
  next
    case True
    obtain h where "slot_ready es ?m ?x ?sn ?tb ?pg p vs i h" using p lt a True by (auto simp: scan_ready_def)
    then have h: "slot_header p i = Inr h" "settled ?m ?x h"
      and seen: "sees ?m ?x ?sn h \<Longrightarrow> th_flags h AND HeapTupleFlags_Deleted = 0 \<Longrightarrow> \<exists>t. slot_tuple ?tb ?pg p i = Inr t"
      and unseen: "\<not> sees ?m ?x ?sn h \<Longrightarrow> older (map_of es) (th_undo h) (vs i) \<and> versions_ok ?m ?x (tb_descriptor ?tb) (vs i)"
      by (auto simp: slot_ready_def)
    have "read_tuple_header (tuple_bytes p i) 0 = Inr h" using h(1) a True by (simp add: slot_header_def)
    then have it: "GetItemId p i = Inr (item_at p i)" "item_header p (item_at p i) = Inr (fst (extent p i), h)"
      using item_header_abs [OF wf(1) lt, of "tuple_bytes p i" h] a True by simp_all
    have hh: "hasHeader (item_at p i)" using True by (simp add: hasHeader_def isNormal_def)
    note v = tuple_is_visible_settled [OF t h(2), of ?sn]
    have fi: "?f i = (if sees ?m ?x ?sn h then (if th_flags h AND HeapTupleFlags_Deleted \<noteq> 0 then None
        else case slot_tuple ?tb ?pg p i of Inl _ \<Rightarrow> None | Inr t \<Rightarrow> Some t) else newest_seen ?m ?x ?sn (tb_descriptor ?tb) (vs i))"
      by (simp add: shown_at_def h(1))
    show ?thesis
    proof (cases "sees ?m ?x ?sn h")
      case True
      show ?thesis
      proof (cases "th_flags h AND HeapTupleFlags_Deleted = 0")
        case True
        then obtain tup where "slot_tuple ?tb ?pg p i = Inr tup" using seen \<open>sees ?m ?x ?sn h\<close> by blast
        then show ?thesis using it hh v \<open>sees ?m ?x ?sn h\<close> \<open>isNormal (item_at p i)\<close> True fi
          by (simp add: bindM_def thenM_def liftR_def assertM_def retM_def slot_tuple_def)
      next
        case False
        then show ?thesis using it hh v \<open>sees ?m ?x ?sn h\<close> \<open>isNormal (item_at p i)\<close> fi IH
          by (simp add: bindM_def thenM_def liftR_def assertM_def retM_def)
      qed
    next
      case False
      have "find_visible_tuple_page w h (tb_descriptor ?tb) ?sn s = (Inr (newest_seen ?m ?x ?sn (tb_descriptor ?tb) (vs i)), s)"
        using find_visible_tuple_page_older [OF _ u t] unseen [OF False] by blast
      then show ?thesis using it hh v False \<open>isNormal (item_at p i)\<close> fi IH
        by (simp add: bindM_def thenM_def liftR_def assertM_def retM_def split: option.splits)
    qed
  qed
qed

text \<open>The cache holds the page, its latch is free, and the transaction manager is at rest.\<close>

definition at_page :: "nat \<Rightarrow> PageTag \<Rightarrow> nat \<Rightarrow> nat \<Rightarrow> page \<Rightarrow> TransactionManager \<Rightarrow> 'x trans_state_scheme \<Rightarrow> bool" where
  "at_page n tag i b p m s \<longleftrightarrow> cached n s tag i b \<and> n < 2 ^ 20 - 1 \<and> \<not> ts_contents s b \<and> bm_pages s b = p \<and> ts_tm s = m"

lemma with_lock_read:
  assumes c: "cached n s tag i b" "\<not> ts_contents s b" and m: "m (latched b True s) = (Inr x, latched b True s)"
  shows "with_lock (bp_buffer (pin_of t i)) m s = (Inr x, s)"
proof -
  have "latched b False (latched b True s) = s" using c(2) by (simp add: latched_def fun_upd_idem)
  moreover have "same_cache s (latched b True s)" by (simp add: same_cache_def latched_def)
  ultimately show ?thesis using with_lock_ok [OF c, of m x "latched b True s" t] m by simp
qed

lemma with_page_read:
  assumes a: "at_page n tag i b p m s"
    and f: "\<And>s1. ts_tm s1 = m \<Longrightarrow> us_undo s1 = us_undo s \<Longrightarrow> us_registry s1 = us_registry s \<Longrightarrow> os_files s1 = os_files s \<Longrightarrow> os_script s1 = os_script s \<Longrightarrow>
      f (pin_of tag i) p s1 = (Inr x, s1)"
  shows "\<exists>s2. with_pin tag (\<lambda>pin. with_lock (bp_buffer pin) (bindM (page_of_pin pin) (f pin))) s = (Inr x, s2) \<and> at_page n tag i b p m s2 \<and> leaves s s2"
proof -
  have c: "cached n s tag i b" "n < 2 ^ 20 - 1" using a by (simp_all add: at_page_def)
  have "\<exists>s2. with_lock (bp_buffer (pin_of tag i)) (bindM (page_of_pin (pin_of tag i)) (f (pin_of tag i))) s1 = (Inr x, s2) \<and> cached (Suc n) s2 tag i b \<and> (\<not> ts_contents s2 b \<and> bm_pages s2 b = p \<and> ts_tm s2 = m \<and> leaves s s2)"
    if s1: "cached (Suc n) s1 tag i b" "leaves s s1" for s1
  proof -
    note l = leaves_fields [OF s1(2)]
    have h: "\<not> ts_contents s1 b" "bm_pages s1 b = p" "ts_tm s1 = m" using l a by (simp_all add: at_page_def)
    have cl: "cached (Suc n) (latched b True s1) tag i b" using s1(1) by simp
    have "bindM (page_of_pin (pin_of tag i)) (f (pin_of tag i)) (latched b True s1) = (Inr x, latched b True s1)"
      using cached_page(1) [OF cl, of tag] f [of "latched b True s1"] h l by (simp add: bindM_def latched_def)
    then have "with_lock (bp_buffer (pin_of tag i)) (bindM (page_of_pin (pin_of tag i)) (f (pin_of tag i))) s1 = (Inr x, s1)"
      by (rule with_lock_read [OF s1(1) h(1)])
    then show ?thesis using s1 h by blast
  qed
  from with_pin_ok [OF c, of "\<lambda>pin. with_lock (bp_buffer pin) (bindM (page_of_pin pin) (f pin))" x
      "\<lambda>s2. \<not> ts_contents s2 b \<and> bm_pages s2 b = p \<and> ts_tm s2 = m \<and> leaves s s2", OF this]
  obtain s2 s3 where "with_pin tag (\<lambda>pin. with_lock (bp_buffer pin) (bindM (page_of_pin pin) (f pin))) s = (Inr x, s3)"
    "\<not> ts_contents s2 b \<and> bm_pages s2 b = p \<and> ts_tm s2 = m \<and> leaves s s2" "leaves s2 s3" "cached n s3 tag i b" by blast
  then show ?thesis using leaves_fields [of s2 s3] leaves_trans [of s s2 s3] c(2) by (auto simp: at_page_def)
qed

lemma GetNextTuple_page:
  fixes s :: "'a trans_state_scheme"
  assumes a: "at_page n \<lparr>Relid = tb_tableId (hs_table sc), PageNo = tid_pageno (hs_tupleId sc)\<rparr> i b p m s" and u: "undo_readable es s"
    and t: "trans_of m w = Some t" "\<not> tm_mutex m" and p: "scan_ready es m (tr_xid t) (hs_snapshot sc) (hs_table sc) (tid_pageno (hs_tupleId sc)) p vs"
    and e: "\<not> hs_end sc"
  defines "r \<equiv> first_found (shown_at m (tr_xid t) (hs_snapshot sc) (hs_table sc) (tid_pageno (hs_tupleId sc)) p vs) [unat (tid_itemid (hs_tupleId sc))..<nitems p]"
  shows "\<exists>s2. GetNextTuple w sc s = (Inr (map_option snd r, scan_advance sc (nitems p) r), s2) \<and>
    at_page n \<lparr>Relid = tb_tableId (hs_table sc), PageNo = tid_pageno (hs_tupleId sc)\<rparr> i b p m s2 \<and> leaves s s2"
proof -
  have h: "wf_header p" using p by (simp add: scan_ready_def wf_page_def)
  define f where "f = (\<lambda>page. let count = unat (ItemsCount page) in
        bindM (scan_items w sc page [unat (tid_itemid (hs_tupleId sc))..<count]) (\<lambda>found.
        retM (map_option snd found, scan_advance sc count found :: HeapTableScan) :: ('a trans_state_scheme, _) cm))"
  have "f p s1 = (Inr (map_option snd r, scan_advance sc (nitems p) r), s1)"
    if s1: "ts_tm s1 = m" "us_undo s1 = us_undo s" "us_registry s1 = us_registry s" "os_files s1 = os_files s" "os_script s1 = os_script s" for s1
  proof -
    have "set [unat (tid_itemid (hs_tupleId sc))..<nitems p] \<subseteq> {..<nitems p}" by auto
    from scan_items_first [OF _ undo_readable_cong [OF u s1(2-5)] _ _ this, of t sc vs w] show ?thesis using s1(1) t p
      by (simp add: f_def ItemsCount_wf [OF h] Let_def bindM_def retM_def r_def)
  qed
  then show ?thesis using with_page_read [where f = "\<lambda>_. f" and x = "(map_option snd r, scan_advance sc (nitems p) r)", OF a] e
    by (simp add: GetNextTuple_def f_def)
qed

text \<open>The caller's loop: tuples until the scan returns \<open>nullptr\<close>.\<close>

primrec scan_until_null :: "nat \<Rightarrow> nat \<Rightarrow> HeapTableScan \<Rightarrow> ('x trans_state_scheme, HeapTuple list \<times> HeapTableScan) cm" where
  "scan_until_null 0 w sc = raiseM (Undefined ''endless scan'')"
| "scan_until_null (Suc n) w sc = bindM (GetNextTuple w sc) (\<lambda>(found, sc'). case found of
     None \<Rightarrow> retM ([], sc')
   | Some t \<Rightarrow> bindM (scan_until_null n w sc') (\<lambda>(ts, sc''). retM (t # ts, sc'')))"

lemma first_found_upt: "first_found f [a..<n] = Some (i, x) \<Longrightarrow>
    a \<le> i \<and> i < n \<and> f i = Some x \<and> List.map_filter f [a..<n] = x # List.map_filter f [Suc i..<n]"
proof (induction "n - a" arbitrary: a)
  case 0
  then show ?case by simp
next
  case (Suc k)
  then have a: "a < n" "k = n - Suc a" by simp_all
  show ?case
  proof (cases "f a")
    case None
    then have "first_found f [Suc a..<n] = Some (i, x)" using Suc.prems a by (simp add: upt_rec [of a])
    from Suc.hyps(1) [OF a(2) this] show ?thesis using None a by (simp add: upt_rec [of a] List.map_filter_simps)
  next
    case (Some y)
    then have "i = a" "x = y" using Suc.prems a by (simp_all add: upt_rec [of a])
    then show ?thesis using Some a by (simp add: upt_rec [of a] List.map_filter_simps)
  qed
qed

lemma first_found_none: "first_found f is = None \<Longrightarrow> List.map_filter f is = []"
  by (induction "is") (auto simp: List.map_filter_simps split: option.splits)

lemma scan_until_null_page:
  assumes "at_page n \<lparr>Relid = tb_tableId (hs_table sc), PageNo = tid_pageno (hs_tupleId sc)\<rparr> i b p m s" "undo_readable es s"
    and t: "trans_of m w = Some t" "\<not> tm_mutex m" and p: "scan_ready es m (tr_xid t) (hs_snapshot sc) (hs_table sc) (tid_pageno (hs_tupleId sc)) p vs"
    and "\<not> hs_end sc" "nitems p - unat (tid_itemid (hs_tupleId sc)) < k"
  shows "\<exists>s2. scan_until_null k w sc s =
      (Inr (List.map_filter (shown_at m (tr_xid t) (hs_snapshot sc) (hs_table sc) (tid_pageno (hs_tupleId sc)) p vs) [unat (tid_itemid (hs_tupleId sc))..<nitems p],
        scan_advance sc (nitems p) None), s2) \<and>
    at_page n \<lparr>Relid = tb_tableId (hs_table sc), PageNo = tid_pageno (hs_tupleId sc)\<rparr> i b p m s2 \<and> leaves s s2"
  using assms(1,2,5-7)
proof (induction k arbitrary: sc s)
  case 0
  then show ?case by simp
next
  case (Suc k)
  let ?f = "shown_at m (tr_xid t) (hs_snapshot sc) (hs_table sc) (tid_pageno (hs_tupleId sc)) p vs"
  let ?first = "first_found ?f [unat (tid_itemid (hs_tupleId sc))..<nitems p]"
  note next1 = GetNextTuple_page [OF Suc.prems(1,2) t Suc.prems(3,4)]
  show ?case
  proof (cases ?first)
    case None
    then show ?thesis using next1 first_found_none [OF None] by (auto simp: bindM_def retM_def)
  next
    case (Some jx)
    then obtain j x where jx: "?first = Some (j, x)" by (cases jx) auto
    note j = first_found_upt [OF jx]
    let ?sc = "scan_advance sc (nitems p) (Some (j, x))"
    have sc: "hs_table ?sc = hs_table sc" "hs_snapshot ?sc = hs_snapshot sc" "hs_end ?sc = hs_end sc"
      "tid_pageno (hs_tupleId ?sc) = tid_pageno (hs_tupleId sc)" "scan_advance ?sc (nitems p) None = scan_advance sc (nitems p) None"
      by (simp_all add: scan_advance_def Let_def)
    have "wf_header p" using Suc.prems(3) by (simp add: scan_ready_def wf_page_def)
    then have "nitems p < 65536" by (auto simp: wf_header_def nitems_def PageSize_def)
    then have it: "unat (tid_itemid (hs_tupleId ?sc)) = Suc j" using j
      by (simp add: scan_advance_def) (simp only: of_nat_Suc [symmetric] unat_of_nat, simp)
    obtain s2 where s2: "GetNextTuple w sc s = (Inr (Some x, ?sc), s2)"
      "at_page n \<lparr>Relid = tb_tableId (hs_table sc), PageNo = tid_pageno (hs_tupleId sc)\<rparr> i b p m s2" "leaves s s2"
      using next1 jx by auto
    have u2: "undo_readable es s2" 
      by (rule undo_readable_cong [OF Suc.prems(2)]) (use leaves_fields [OF s2(3)] in simp_all)
    have "nitems p - unat (tid_itemid (hs_tupleId ?sc)) < k" using Suc.prems(5) j it by linarith
    then obtain s3 where "scan_until_null k w ?sc s2 = (Inr (List.map_filter ?f [Suc j..<nitems p], scan_advance sc (nitems p) None), s3)"
      "at_page n \<lparr>Relid = tb_tableId (hs_table sc), PageNo = tid_pageno (hs_tupleId sc)\<rparr> i b p m s3" "leaves s2 s3"
      using Suc.IH [of ?sc s2] s2(2) u2 Suc.prems(3,4) unfolding sc it by auto
    then show ?thesis using s2(1) j leaves_trans [OF s2(3)] by (auto simp: bindM_def retM_def)
  qed
qed

section \<open>Pages without older versions\<close>

definition slot_shown :: "TransactionManager \<Rightarrow> TransactionId \<Rightarrow> Snapshot \<Rightarrow> page \<Rightarrow> nat \<Rightarrow> bool" where
  "slot_shown m xid sn p i = (case slot_header p i of Inl _ \<Rightarrow> False | Inr h \<Rightarrow> sees m xid sn h \<and> th_flags h AND HeapTupleFlags_Deleted = 0)"

definition scannable :: "TransactionManager \<Rightarrow> TransactionId \<Rightarrow> Snapshot \<Rightarrow> HeapTable \<Rightarrow> PageNumber \<Rightarrow> page \<Rightarrow> bool" where
  "scannable m xid sn tb pg p \<longleftrightarrow> wf_page p \<and> (\<forall>i<nitems p. abs_page p ! i \<noteq> None \<longrightarrow>
     (\<exists>h. slot_header p i = Inr h \<and> settled m xid h \<and> (\<not> sees m xid sn h \<longrightarrow> th_undo h = Usn_Invalid)) \<and>
     (slot_shown m xid sn p i \<longrightarrow> (\<exists>t. slot_tuple tb pg p i = Inr t)))"

definition the_slot :: "HeapTable \<Rightarrow> PageNumber \<Rightarrow> page \<Rightarrow> nat \<Rightarrow> HeapTuple" where
  "the_slot tb pg p i = (case slot_tuple tb pg p i of Inr t \<Rightarrow> t | Inl _ \<Rightarrow> \<lparr>hp_descriptor = tb_descriptor tb,
     hp_tuple = \<lparr>hpt_header = \<lparr>th_xid = 0, th_undo = 0, th_flags = 0\<rparr>, hpt_values = [], hpt_isnull = []\<rparr>, hp_tid = \<lparr>tid_pageno = pg, tid_itemid = 0\<rparr>\<rparr>)"

lemma scannable_ready:
  assumes "scannable m xid sn tb pg p"
  shows "scan_ready [] m xid sn tb pg p (\<lambda>_. [])"
  unfolding scan_ready_def
proof (intro conjI allI impI)
  show "wf_page p" using assms by (simp add: scannable_def)
  fix i assume "i < nitems p" "abs_page p ! i \<noteq> None"
  then obtain h where h: "slot_header p i = Inr h" "settled m xid h" "\<not> sees m xid sn h \<Longrightarrow> th_undo h = Usn_Invalid"
    "slot_shown m xid sn p i \<Longrightarrow> \<exists>t. slot_tuple tb pg p i = Inr t" using assms by (auto simp: scannable_def)
  have "slot_ready [] m xid sn tb pg p (\<lambda>_. []) i h"
    using h by (auto simp: slot_ready_def slot_shown_def versions_ok_def Usn_IsValid_def intro: older.created)
  then show "\<exists>h. slot_ready [] m xid sn tb pg p (\<lambda>_. []) i h" by blast
qed

lemma scannable_shown:
  assumes p: "scannable m xid sn tb pg p" and i: "set is \<subseteq> {..<nitems p}"
  shows "List.map_filter (shown_at m xid sn tb pg p (\<lambda>_. [])) is = map (the_slot tb pg p) (filter (slot_shown m xid sn p) is)"
  using i
proof (induction "is")
  case (Cons i js)
  have "shown_at m xid sn tb pg p (\<lambda>_. []) i = (if slot_shown m xid sn p i then Some (the_slot tb pg p i) else None)"
  proof (cases "abs_page p ! i")
    case None
    then show ?thesis by (simp add: shown_at_def slot_shown_def slot_header_def)
  next
    case (Some bs)
    then obtain h where "slot_header p i = Inr h" "slot_shown m xid sn p i \<Longrightarrow> \<exists>t. slot_tuple tb pg p i = Inr t"
      using p Cons.prems by (auto simp: scannable_def)
    then show ?thesis by (auto simp: shown_at_def slot_shown_def newest_seen_def the_slot_def)
  qed
  then show ?case using Cons by (simp add: List.map_filter_simps)
qed (simp add: List.map_filter_simps)

end
