(* ===== verification/Mimi_Tables.thy ===== *)
theory Mimi_Tables
  imports Mimi_Scan
begin

text \<open>
  What the operations of a heap table do together, on a page that the cache holds: the undo of an
  insertion, and an insertion read back by a scan; with the properties of tables.
\<close>

unbundle bit_operations_syntax

section \<open>Undoing an insertion\<close>

lemma undo_delete_ignored:
  fixes s :: "'a trans_state_scheme"
  assumes a: "at_page n \<lparr>Relid = tableId, PageNo = tid_pageno tid\<rparr> i b p m s"
    and p: "wf_page p" "unat (tid_itemid tid) < nitems p" "abs_page p ! unat (tid_itemid tid) = Some bs"
      "read_tuple_header bs 0 = Inr h" "th_undo h \<noteq> usn"
  shows "\<exists>s2. undo_delete_record tableId tid usn s = (Inr (), s2) \<and> at_page n \<lparr>Relid = tableId, PageNo = tid_pageno tid\<rparr> i b p m s2 \<and> leaves s s2"
proof -
  define f where "f = (\<lambda>pin page. bindM (liftR (GetItemId page (unat (tid_itemid tid)))) (\<lambda>itemId.
     if \<not> isNormal itemId then retM ()
     else bindM (liftR (item_header page itemId)) (\<lambda>(off, h).
       if th_undo h \<noteq> usn then retM ()
       else thenM (mod_page pin (page_set_dead (unat (tid_itemid tid)))) (Buffer_MarkDirty (bp_buffer pin)) :: ('a trans_state_scheme, unit) cm)))"
  have "f pin p s1 = (Inr (), s1)" for pin s1
    using item_header_abs [OF p(1-4)] p(5) by (simp add: f_def bindM_def liftR_def retM_def)
  then show ?thesis using with_page_read [where f = f and x = "()", OF a] by (simp add: undo_delete_record_def f_def)
qed

lemma AbortTransaction_one:
  assumes t: "trans_of (ts_tm s) w = Some t" "tr_undoLog t = Some [usn]" "tr_workerId t = w" "\<not> tm_mutex (ts_tm s)" "tm_xidToWorker (ts_tm s) (tr_xid t) = Some w'"
    and r: "read_record usn s = (Inr (rec, HeapResourceManager), s)"
    and u: "apply_undo rec usn s = (Inr (), s1)" "ts_tm s1 = ts_tm s"
  shows "AbortTransaction apply_undo w s = (Inr (), s1\<lparr>ts_tm := (set_slot w None (ts_tm s))\<lparr>tm_xidToWorker := (tm_xidToWorker (ts_tm s))(tr_xid t := None),
    tm_history := (tm_history (ts_tm s))(tr_xid t \<mapsto> Csn_Aborted)\<rparr>\<rparr>)"
proof -
  have w: "w < length (tm_transactions (ts_tm s))" "tm_transactions (ts_tm s) ! w = Some t" using t(1) trans_of_len [OF t(1)] by (simp_all add: trans_of_def)
  have ua: "VUndo_UndoAllRecords apply_undo [usn] s = (Inr [], s1)"
    using r u(1) by (simp add: VUndo_UndoAllRecords_def UndoLog_PerformUndo_def bindM_def thenM_def retM_def)
  show ?thesis using w t ua u(2)
    by (simp add: AbortTransaction_def own_transaction_def end_in_table_def tm_simps vec_at_def set_history_def set_slot_def Transaction_Abort_def)
qed

lemma insert_then_abort:
  assumes r: "can_insert n w tb tup bs i b room es t s" and t: "tr_undoLog t = None" "tr_workerId t = w" "\<not> tm_mutex (ts_tm s)" "tm_xidToWorker (ts_tm s) (tr_xid t) = Some w'"
  shows "\<exists>s1 s2. InsertTuple (Suc k) w tb tup s = (Inr (), s1) \<and> AbortTransaction ApplyUndo w s1 = (Inr (), s2) \<and>
    abs_page (bm_pages s2 b) = abs_page (bm_pages s b) @ [Some bs] \<and> tm_history (ts_tm s2) (tr_xid t) = Some Csn_Aborted"
proof -
  let ?tag = "\<lparr>Relid = tb_tableId tb, PageNo = 0\<rparr>" and ?p = "bm_pages s b"
  obtain usn s1 where i: "InsertTuple (Suc k) w tb tup s = (Inr (), s1)" "inserted n w tb bs i b room es t s usn s1"
    using InsertTuple_first_page [OF r] by blast
  let ?t = "t\<lparr>tr_undoLog := Some [usn]\<rparr>" and ?rec = "delete_record tb ?tag ?p"
  obtain hpt where hp: "formHeapPageTuple w tb tup s = (Inr hpt, s)" "HeapTuple_Serialize hpt (tb_descriptor tb) = Inr bs"
    using r by (auto simp: can_insert_def)
  obtain h where h: "read_tuple_header bs 0 = Inr h" "th_undo h = Usn_Invalid" using serialized_header [OF hp] by blast
  have wf: "wf_page ?p" and n: "n < 2 ^ 20 - 1" and tw: "trans_of (ts_tm s) w = Some t" using r by (simp_all add: can_insert_def)
  have q: "cached n s1 ?tag i b" "\<not> ts_contents s1 b" "wf_page (bm_pages s1 b)" "abs_page (bm_pages s1 b) = abs_page ?p @ [Some bs]"
    "ts_tm s1 = set_slot w (Some ?t) (ts_tm s)" "undo_inv (room - 40) s1 (es @ [(usn, ?rec)])"
    using i(2) t(1) by (simp_all add: inserted_def undo_log_of_def)
  have rr: "read_record usn s1 = (Inr (?rec, HeapResourceManager), s1)" "Usn_IsValid usn" using read_record_entry [OF q(6), of usn ?rec] by simp_all
  have k: "unat (ItemsCount ?p) = nitems ?p" using wf by (simp add: ItemsCount_wf wf_page_def)
  have nn: "nitems (bm_pages s1 b) = Suc (nitems ?p)" using arg_cong [OF q(4), of length] by (simp add: nitems_abs)
  have at: "at_page n ?tag i b (bm_pages s1 b) (ts_tm s1) s1" using q n by (simp add: at_page_def)
  let ?tid = "\<lparr>tid_pageno = 0, tid_itemid = ItemsCount ?p\<rparr>"
  have "abs_page (bm_pages s1 b) ! unat (ItemsCount ?p) = Some bs" using q(4) k by (simp add: nth_append nitems_abs)
  then obtain s2 where s2: "undo_delete_record (tb_tableId tb) ?tid usn s1 = (Inr (), s2)" "at_page n ?tag i b (bm_pages s1 b) (ts_tm s1) s2"
    using undo_delete_ignored [of n "tb_tableId tb" ?tid i b "bm_pages s1 b" "ts_tm s1" s1 bs h usn] at q(3) nn k h rr(2)
    by (auto simp: Usn_IsValid_def)
  have "trans_of (ts_tm s1) w = Some ?t" using trans_of_len [OF tw] by (simp add: q(5) set_slot_def trans_of_def)
  moreover have "ApplyUndo ?rec usn s1 = (Inr (), s2)" using s2(1) by (simp add: ApplyUndo_def delete_record_def)
  moreover have "ts_tm s2 = ts_tm s1" "bm_pages s2 b = bm_pages s1 b" using s2(2) by (simp_all add: at_page_def)
  moreover have "\<not> tm_mutex (ts_tm s1)" "tm_xidToWorker (ts_tm s1) (tr_xid ?t) = Some w'" using t q(5) by (simp_all add: set_slot_def)
  ultimately have "AbortTransaction ApplyUndo w s1 = (Inr (), s2\<lparr>ts_tm := (set_slot w None (ts_tm s1))\<lparr>tm_xidToWorker := (tm_xidToWorker (ts_tm s1))(tr_xid ?t := None),
      tm_history := (tm_history (ts_tm s1))(tr_xid ?t \<mapsto> Csn_Aborted)\<rparr>\<rparr>)"
    using AbortTransaction_one [of s1 w ?t usn w' ?rec ApplyUndo s2] rr(1) t(2) by simp
  then show ?thesis using i(1) q(4) \<open>bm_pages s2 b = bm_pages s1 b\<close>
    by (intro exI [of _ s1] exI [of _ "s2\<lparr>ts_tm := (set_slot w None (ts_tm s1))\<lparr>tm_xidToWorker := (tm_xidToWorker (ts_tm s1))(tr_xid ?t := None),
      tm_history := (tm_history (ts_tm s1))(tr_xid ?t \<mapsto> Csn_Aborted)\<rparr>\<rparr>"]) simp
qed

section \<open>An insertion read back by a scan\<close>

lemma slot_deserialized:
  assumes p: "wf_page p" "j < nitems p" and wf: "wf_heap_tuple (tb_descriptor tb) hpt"
    and a: "abs_page p ! j = Some (tuple_header_bytes (stored_header hpt) @ tuple_image (tb_descriptor tb) (hpt_values hpt) (hpt_isnull hpt))"
  shows "slot_header p j = Inr (stored_header hpt)"
    and "\<exists>t. slot_tuple tb pg p j = Inr \<lparr>hp_descriptor = tb_descriptor tb, hp_tuple = t, hp_tid = \<lparr>tid_pageno = pg, tid_itemid = word_of_nat j\<rparr>\<rparr> \<and>
      same_heap_tuple (tb_descriptor tb) hpt t"
proof -
  let ?bs = "tuple_header_bytes (stored_header hpt) @ tuple_image (tb_descriptor tb) (hpt_values hpt) (hpt_isnull hpt)"
  show "slot_header p j = Inr (stored_header hpt)" by (simp add: slot_header_def a)
  have norm: "isNormal (item_at p j)" "tuple_bytes p j = ?bs" using a p(2) by (auto simp: abs_page_def split: if_splits)
  obtain off len where ex: "extent p j = (off, len)" by (cases "extent p j")
  have "off + len \<le> length p" using p norm(1) ex by (auto simp: wf_page_def wf_header_def in_data_def)
  then have "drop off p = ?bs @ drop (off + len) p" using norm(2) ex append_take_drop_id [of len "drop off p"]
    by (simp add: tuple_bytes_def peek_def add.commute)
  then obtain t where "HeapTuple_Deserialize (drop off p) (tb_descriptor tb) = Inr t" "same_heap_tuple (tb_descriptor tb) hpt t"
    using HeapTuple_Deserialize_image [OF wf, of "drop (off + len) p"] by auto
  then show "\<exists>t. slot_tuple tb pg p j = Inr \<lparr>hp_descriptor = tb_descriptor tb, hp_tuple = t, hp_tid = \<lparr>tid_pageno = pg, tid_itemid = word_of_nat j\<rparr>\<rparr> \<and>
      same_heap_tuple (tb_descriptor tb) hpt t" using ex by (simp add: slot_tuple_def build_heap_tuple_def)
qed

lemma undo_position:
  assumes "undo_inv room s es" "(usn, r) \<in> set es"
  shows "\<not> usn + 1 <=s 0" "Usn_IsValid usn"
proof -
  obtain c where c: "length c + room < 2 ^ 62" "\<forall>(usn, r)\<in>set es. entry_at c usn r" using assms(1) by (auto simp: undo_inv_def)
  then have "length c < 2 ^ 62" "entry_at c usn r" using assms(2) by auto
  then obtain off where "usn = word_of_nat (off + 1)" "off + 1 < 2 ^ 62"
    by (auto simp: entry_at_def length_undo_image)
  then have "unat (usn + 1) = off + 2" "off + 2 < 2 ^ 63" by (simp_all add: unat_of_nat unat_word_ariths)
  moreover from this have "sint (usn + 1) = int (off + 2)" by (simp add: sint_small64)
  ultimately show "\<not> usn + 1 <=s 0" by (simp add: word_sle_eq)
  show "Usn_IsValid usn" using read_record_entry [OF assms] by simp
qed

lemma form_header:
  "formHeapPageTuple w tb tup s = (Inr hpt, s') \<Longrightarrow> trans_of (ts_tm s) w = Some t \<Longrightarrow>
    th_xid (hpt_header hpt) = tr_xid t \<and> th_undo (hpt_header hpt) = Usn_Invalid"
  using MyTransaction_run [of s w t] by (auto simp: formHeapPageTuple_def bindM_def retM_def liftR_def Let_def split: sum.splits prod.splits)

lemma BeginNewStatement_again:
  assumes "trans_of (ts_tm s) w = Some t" "tr_snapshot t = Some sn" "tr_undoLog t = Some log" "Usn_IsValid (VUndo_LastUSN log)"
  shows "BeginNewStatement w s = (Inr (), s\<lparr>ts_tm := set_slot w (Some (t\<lparr>tr_snapshot := Some \<lparr>sn_CSN = sn_CSN sn, sn_CommandId = VUndo_LastUSN log + 1\<rparr>\<rparr>)) (ts_tm s)\<rparr>)"
  using MyTransaction_run [OF assms(1)] assms(2-4) by (simp add: BeginNewStatement_def bindM_def set_MyTransaction_def upd_tm_def updM_def Let_def)

lemma insert_then_scan:
  assumes r: "can_insert n w tb tup bs i b room es t s" and e: "abs_page (bm_pages s b) = []"
    and f: "formHeapPageTuple w tb tup s = (Inr hpt, s)" and wf: "wf_heap_tuple (tb_descriptor tb) hpt" and m: "\<not> tm_mutex (ts_tm s)" "tr_snapshot t = Some sn"
  shows "\<exists>s1 s2 sn' ht s3. InsertTuple (Suc k) w tb tup s = (Inr (), s1) \<and> BeginNewStatement w s1 = (Inr (), s2) \<and>
    (\<exists>t'. trans_of (ts_tm s2) w = Some t' \<and> tr_snapshot t' = Some sn') \<and>
    scan_until_null 2 w \<lparr>hs_tupleId = \<lparr>tid_pageno = 0, tid_itemid = 0\<rparr>, hs_lastPageNumber = lastPage, hs_snapshot = sn', hs_table = tb, hs_end = False\<rparr> s2 =
      (Inr ([ht], \<lparr>hs_tupleId = \<lparr>tid_pageno = 1, tid_itemid = 0\<rparr>, hs_lastPageNumber = lastPage, hs_snapshot = sn', hs_table = tb, hs_end = (lastPage \<le> 1)\<rparr>), s3) \<and>
    same_heap_tuple (tb_descriptor tb) hpt (hp_tuple ht) \<and> hp_tid ht = \<lparr>tid_pageno = 0, tid_itemid = 0\<rparr>"
proof -
  let ?tag = "\<lparr>Relid = tb_tableId tb, PageNo = 0\<rparr>"
  obtain usn s1 where s1: "InsertTuple (Suc k) w tb tup s = (Inr (), s1)" "inserted n w tb bs i b room es t s usn s1"
    using InsertTuple_first_page [OF r] by blast
  define p where "p = bm_pages s1 b"
  let ?t = "t\<lparr>tr_undoLog := Some (undo_log_of t @ [usn])\<rparr>"
  let ?sn = "\<lparr>sn_CSN = sn_CSN sn, sn_CommandId = usn + 1\<rparr>"
  let ?t2 = "?t\<lparr>tr_snapshot := Some ?sn\<rparr>"
  have tw: "trans_of (ts_tm s) w = Some t" and n: "n < 2 ^ 20 - 1" using r by (simp_all add: can_insert_def)
  have i: "cached n s1 ?tag i b" "\<not> ts_contents s1 b" "wf_page p" "abs_page p = [Some bs]" "ts_tm s1 = set_slot w (Some ?t) (ts_tm s)"
    "undo_inv (room - 40) s1 (es @ [(usn, delete_record tb ?tag (bm_pages s b))])"
    using s1(2) e by (simp_all add: inserted_def p_def)
  have u: "\<not> usn + 1 <=s 0" "Usn_IsValid usn" using undo_position [OF i(6), of usn "delete_record tb ?tag (bm_pages s b)"] by simp_all
  define s2 where "s2 = s1\<lparr>ts_tm := set_slot w (Some ?t2) (ts_tm s1)\<rparr>"
  have t1: "trans_of (ts_tm s1) w = Some ?t" using trans_of_len [OF tw] by (simp add: i(5) set_slot_def trans_of_def)
  have b: "BeginNewStatement w s1 = (Inr (), s2)"
    using BeginNewStatement_again [OF t1, of sn "undo_log_of t @ [usn]"] m(2) u(2) by (simp add: VUndo_LastUSN_def s2_def)
  have m2: "ts_tm s2 = set_slot w (Some ?t2) (ts_tm s)" by (simp add: s2_def i(5))
  have t2: "trans_of (ts_tm s2) w = Some ?t2" using trans_of_len [OF tw] by (simp add: m2 set_slot_def trans_of_def)
  have mx: "\<not> tm_mutex (ts_tm s2)" using m(1) by (simp add: m2 set_slot_def)
  have "cached n s2 ?tag i b" using cached_cong [of s1 s2] i(1) by (simp add: same_cache_def s2_def)
  then have at: "at_page n ?tag i b p (ts_tm s2) s2" using n i(2) by (simp add: at_page_def s2_def p_def)
  have ser: "HeapTuple_Serialize hpt (tb_descriptor tb) = Inr bs" using r f by (auto simp: can_insert_def)
  have bs: "bs = tuple_header_bytes (stored_header hpt) @ tuple_image (tb_descriptor tb) (hpt_values hpt) (hpt_isnull hpt)"
    using HeapTuple_Serialize_image [OF wf] ser by simp
  let ?h = "stored_header hpt"
  have h: "read_tuple_header bs 0 = Inr ?h" by (simp add: bs)
  have hf: "th_xid ?h = tr_xid t" "th_undo ?h = 0" "th_flags ?h AND HeapTupleFlags_Deleted = 0"
    using form_header [OF f tw] by (simp_all add: stored_header_def Usn_Invalid_def HeapTupleFlags_HasNulls_def HeapTupleFlags_Deleted_def)
  have nn: "nitems p = 1" using arg_cong [OF i(4), of length] by (simp add: nitems_abs)
  have hd0: "slot_header p 0 = Inr ?h" using i(4) h by (simp add: slot_header_def)
  have see: "sees (ts_tm s2) (tr_xid t) ?sn ?h" using hf u(1) by (simp add: sees_def)
  have shown: "slot_shown (ts_tm s2) (tr_xid t) ?sn p 0" using see hf hd0 by (simp add: slot_shown_def)
  have a0: "abs_page p ! 0 = Some (tuple_header_bytes ?h @ tuple_image (tb_descriptor tb) (hpt_values hpt) (hpt_isnull hpt))" using i(4) bs by simp
  obtain hpt' where st': "slot_tuple tb 0 p 0 = Inr \<lparr>hp_descriptor = tb_descriptor tb, hp_tuple = hpt', hp_tid = \<lparr>tid_pageno = 0, tid_itemid = word_of_nat 0\<rparr>\<rparr>"
    and d2: "same_heap_tuple (tb_descriptor tb) hpt hpt'"
    using slot_deserialized(2) [OF i(3) _ wf a0, of 0] nn by auto
  let ?ht = "\<lparr>hp_descriptor = tb_descriptor tb, hp_tuple = hpt', hp_tid = \<lparr>tid_pageno = 0, tid_itemid = 0\<rparr>\<rparr>"
  have st: "slot_tuple tb 0 p 0 = Inr ?ht" using st' by simp
  have "settled (ts_tm s2) (tr_xid t) ?h" using hf by (simp add: settled_def)
  then have sc: "scannable (ts_tm s2) (tr_xid ?t2) ?sn tb 0 p" using i(3) nn hd0 see st by (simp add: scannable_def)
  have rows: "List.map_filter (shown_at (ts_tm s2) (tr_xid ?t2) ?sn tb 0 p (\<lambda>_. [])) [0..<nitems p] = [?ht]"
    by (subst scannable_shown [OF sc]) (use shown nn st in \<open>auto simp: the_slot_def\<close>)
  let ?sc = "\<lparr>hs_tupleId = \<lparr>tid_pageno = 0, tid_itemid = 0\<rparr>, hs_lastPageNumber = lastPage, hs_snapshot = ?sn, hs_table = tb, hs_end = False\<rparr>"
  obtain s3 where "scan_until_null 2 w ?sc s2 = (Inr ([?ht], scan_advance ?sc (nitems p) None), s3)"
    using scan_until_null_page [of n ?sc i b p "ts_tm s2" s2 "[]" w ?t2 "\<lambda>_. []" 2] at t2 mx scannable_ready [OF sc] nn rows by (auto simp: undo_readable_def)
  moreover have "scan_advance ?sc (nitems p) None = \<lparr>hs_tupleId = \<lparr>tid_pageno = 1, tid_itemid = 0\<rparr>, hs_lastPageNumber = lastPage, hs_snapshot = ?sn, hs_table = tb, hs_end = (lastPage \<le> 1)\<rparr>"
    by (simp add: scan_advance_def)
  ultimately have "scan_until_null 2 w ?sc s2 = (Inr ([?ht], \<lparr>hs_tupleId = \<lparr>tid_pageno = 1, tid_itemid = 0\<rparr>, hs_lastPageNumber = lastPage, hs_snapshot = ?sn, hs_table = tb, hs_end = (lastPage \<le> 1)\<rparr>), s3)" by simp
  then show ?thesis
    by (intro exI [of _ s1] exI [of _ s2] exI [of _ ?sn] exI [of _ ?ht] exI [of _ s3] conjI exI [of _ ?t2] s1(1) b t2 d2) (simp_all add: d2)
qed

section \<open>An example\<close>

text \<open>Table 1 with an empty page, which the cache holds in its first buffer; worker 0 runs transaction 1.\<close>

definition example_table :: HeapTable where
  "example_table = \<lparr>tb_tableId = 1, tb_descriptor = example_desc\<rparr>"

definition example_writer :: Transaction where
  "example_writer = (new_Transaction 1 0)\<lparr>tr_snapshot := Some \<lparr>sn_CSN = 5, sn_CommandId = 0\<rparr>\<rparr>"

definition example_heap :: trans_state where
  "example_heap = example_trans\<lparr>bm_map := \<lparr>ht_hash = (\<lambda>t. unat (PageNo t)), ht_maps = [[\<lparr>Relid = 1, PageNo = 0\<rparr> \<mapsto> 0]]\<rparr>,
     bm_npages := 1, bm_entries := blank_entry(0 := \<lparr>ce_Tag = \<lparr>Relid = 1, PageNo = 0\<rparr>, ce_BlockId = 0, ce_State = TagValid OR IsTopList OR DataValid,
       ce_Buffer = Some 0, ce_Prev = None, ce_Next = None\<rparr>),
     bm_lists := empty_lists(T1 := \<lparr>cl_head = Some 0, cl_tail = Some 0, cl_size = 1\<rparr>),
     bm_pages := (\<lambda>_. [])(0 := Init (replicate PageSize 0)), ts_tm := m_two\<rparr>"

lemma example_cached: "cached 0 example_heap \<lparr>Relid = 1, PageNo = 0\<rparr> 0 0"
proof -
  have "clist example_heap T1 [0]" "clist example_heap T2 []"
    by (simp_all add: clist_def chain_def dll_def example_heap_def empty_lists_def Cons_eq_append_conv)
  moreover have "take_bit 20 (TagValid OR IsTopList OR DataValid) = 0" by (simp add: take_bit_or)
  ultimately show ?thesis
    unfolding cached_def
    by (intro conjI exI [of _ "[0]"] exI [of _ "[]"])
      (simp_all add: example_heap_def sized_def ht_Get_def getElementIndex_def bit_simps)
qed

lemma example_form:
  "formHeapPageTuple 0 example_table (VirtualTuple example_values [False, False, True]) example_heap =
    (Inr \<lparr>hpt_header = \<lparr>th_xid = 1, th_undo = 0, th_flags = 2\<rparr>, hpt_values = example_values, hpt_isnull = [False, False, True]\<rparr>, example_heap)"
proof -
  have a: "attr_nums 3 = [1, 2, 3]" using attr_nums_small [of 3] by (simp add: upt_conv_Cons)
  show ?thesis
    by (simp add: formHeapPageTuple_def example_table_def example_desc_def GetMaxAttrNumber_def a form_attr_def GetAttribute_def VirtualTuple_Get_def
      ToIndex_def vec_at_def AttrNumber_Invalid_def example_values_def cm_simps liftR_def assertR_def)
      (simp add: numeral_3_eq_3 tm_simps example_heap_def m_two_def new_Transaction_def HeapTupleFlags_HasNulls_def Usn_Invalid_def vec_at_def)
qed

definition example_page_tuple :: HeapPageTuple where
  "example_page_tuple = \<lparr>hpt_header = \<lparr>th_xid = 1, th_undo = 0, th_flags = 2\<rparr>, hpt_values = example_values, hpt_isnull = [False, False, True]\<rparr>"

lemma example_page_tuple_ok:
  "wf_heap_tuple example_desc example_page_tuple"
  "\<exists>bs. HeapTuple_Serialize example_page_tuple example_desc = Inr bs \<and> length bs = 35"
proof -
  show wf: "wf_heap_tuple example_desc example_page_tuple"
    using example_wf by (simp add: wf_heap_tuple_def example_page_tuple_def)
  show "\<exists>bs. HeapTuple_Serialize example_page_tuple example_desc = Inr bs \<and> length bs = 35"
    by (simp add: HeapTuple_Serialize_image [OF wf])
      (simp add: example_page_tuple_def tuple_image_def data_image_def example_desc_def example_values_def attr_image_def BitmapSize_def var_size_def)
qed

lemma example_page: "bm_pages example_heap 0 = Init (replicate PageSize 0)" "ts_tm example_heap = m_two"
  "trans_of (ts_tm example_heap) 0 = Some example_writer"
  by (simp_all add: example_heap_def example_slot example_writer_def)

lemma example_can_insert:
  "\<exists>bs. can_insert 0 0 example_table (VirtualTuple example_values [False, False, True]) bs 0 0 1000 [] example_writer example_heap"
proof -
  obtain bs where bs: "HeapTuple_Serialize example_page_tuple example_desc = Inr bs" "length bs = 35" using example_page_tuple_ok by blast
  note r = rel_path_1
  have p: "lowerN (Init (replicate PageSize 0)) = 12" "upperN (Init (replicate PageSize 0)) = 8192" "wf_page (Init (replicate PageSize 0))"
    using Init_bounds [of "replicate PageSize 0"] Init_wf [of "replicate PageSize 0"] by simp_all
  have len: "length (Init (replicate PageSize 0)) = PageSize" using p(3) by (simp add: wf_page_def wf_header_def)
  have t: "tb_tableId example_table = 1" "tb_descriptor example_table = example_desc" by (simp_all add: example_table_def)
  have o: "undo_inv 1000 example_heap []" "wal_ok example_heap" "wal_path (ws_wal example_heap) = ''wal''" "wal_end (ws_wal example_heap) = 0"
    "ul_path (us_undo example_heap) = ''undo''" "os_files example_heap ''data/1'' = Some (Init (replicate PageSize 0))" "\<not> ts_contents example_heap 0"
    by (simp_all add: undo_inv_def wal_ok_def file_of_def example_heap_def example_trans_def example_undo_def MaxResourceManagers_def)
  have "can_insert 0 0 example_table (VirtualTuple example_values [False, False, True]) bs 0 0 1000 [] example_writer example_heap"
    unfolding can_insert_def t r
    using example_cached example_page(3) example_form [folded example_page_tuple_def] bs p len o
    by (simp add: example_page(1) align8_def) (simp add: PageSize_def)
  then show ?thesis by blast
qed

section \<open>A page with an invisible current version\<close>

text \<open>
  A table of two integers, with two rows. Transaction 3 committed both; transaction 2, which runs, has
  updated the second one in place, so that its old version is in the undo log.
\<close>

definition example_columns :: TupleDescriptor where
  "example_columns = [\<lparr>ad_typeId = 2, ad_length = 4, ad_byVal = True\<rparr>, \<lparr>ad_typeId = 3, ad_length = 2, ad_byVal = True\<rparr>]"

definition example_row :: "TransactionId \<Rightarrow> UndoSeqNumber \<Rightarrow> u64 \<Rightarrow> u64 \<Rightarrow> HeapPageTuple" where
  "example_row xid usn x y = \<lparr>hpt_header = \<lparr>th_xid = xid, th_undo = usn, th_flags = 0\<rparr>, hpt_values = [Scalar x, Scalar y], hpt_isnull = [False, False]\<rparr>"

definition example_bytes :: "HeapPageTuple \<Rightarrow> byte list" where
  "example_bytes t = tuple_header_bytes (stored_header t) @ tuple_image example_columns (hpt_values t) (hpt_isnull t)"

lemma example_row_facts:
  "wf_heap_tuple example_columns (example_row xid usn x y)" "stored_header (example_row xid usn x y) = \<lparr>th_xid = xid, th_undo = usn, th_flags = 0\<rparr>"
  "length (example_bytes (example_row xid usn x y)) = 30"
  by (auto simp: wf_heap_tuple_def wf_tuple_def example_row_def example_columns_def wf_attr_def less_Suc_eq stored_header_def example_bytes_def tuple_image_def
      data_image_def attr_image_def upt_rec)

lemma example_row_read:
  assumes "same_heap_tuple example_columns (example_row xid usn x y) t"
  shows "hpt_values t = [Scalar (signed_take_bit 31 x), Scalar (signed_take_bit 15 y)]" "hpt_isnull t = [False, False]"
proof -
  have l: "length (hpt_values t) = 2" "hpt_isnull t = [False, False]" and i: "\<forall>i<2. same_datum (example_columns ! i) ([Scalar x, Scalar y] ! i) (hpt_values t ! i)"
    using assms by (auto simp: same_heap_tuple_def same_tuple_def example_row_def example_columns_def less_2_cases_iff split: if_splits)
  obtain p q where v: "hpt_values t = [p, q]" using l(1) by (auto simp: numeral_2_eq_2 length_Suc_conv)
  have "same_datum (example_columns ! 0) (Scalar x) p" "same_datum (example_columns ! 1) (Scalar y) q" using i [rule_format, of 0] i [rule_format, of 1] v by simp_all
  then show "hpt_values t = [Scalar (signed_take_bit 31 x), Scalar (signed_take_bit 15 y)]" "hpt_isnull t = [False, False]"
    using v l(2) by (auto simp: same_datum_def example_columns_def split: Datum.splits)
qed

definition example_pair :: HeapTable where
  "example_pair = \<lparr>tb_tableId = 1, tb_descriptor = example_columns\<rparr>"

definition example_spot :: TupleId where
  "example_spot = \<lparr>tid_pageno = 0, tid_itemid = 1\<rparr>"

definition example_update :: HeapUndoRecord where
  "example_update = UpdateUndoRecord 1 example_spot example_spot (example_bytes (example_row 3 0 6 7))"

definition example_versions_page :: page where
  "example_versions_page = (case foldR (page_insert 1) [example_bytes (example_row 3 0 4 5), example_bytes (example_row 2 1 8 9)] (Init (replicate PageSize 0)) of
     Inr q \<Rightarrow> q | Inl _ \<Rightarrow> [])"

definition example_versions :: "TransactionManager \<Rightarrow> trans_state" where
  "example_versions m = example_heap\<lparr>bm_pages := (\<lambda>_. [])(0 := example_versions_page), ts_tm := m,
     os_files := (os_files example_heap)(''undo'' \<mapsto> undo_image 2 example_update), us_undo := (us_undo example_heap)\<lparr>ul_size := int (length (undo_image 2 example_update))\<rparr>\<rparr>"

text \<open>A transaction manager in which transaction 3 has committed and transaction 2 runs.\<close>

definition example_times :: "TransactionManager \<Rightarrow> TransactionId \<Rightarrow> Snapshot \<Rightarrow> bool" where
  "example_times m xid sn \<longleftrightarrow> tm_history m 3 = Some 5 \<and> tm_history m 2 = Some Csn_InProgress \<and> xid \<noteq> 2 \<and> xid \<noteq> 3 \<and> 5 < sn_CSN sn"

definition example_older :: Version where
  "example_older = \<lparr>vr_usn = 1, vr_header = \<lparr>th_xid = 3, th_undo = 0, th_flags = 0\<rparr>, vr_data = example_bytes (example_row 3 0 6 7), vr_location = example_spot\<rparr>"

lemma example_versions_page:
  "wf_page example_versions_page" "abs_page example_versions_page = [Some (example_bytes (example_row 3 0 4 5)), Some (example_bytes (example_row 2 1 8 9))]"
  "nitems example_versions_page = 2"
proof -
  obtain q where q: "foldR (page_insert 1) [example_bytes (example_row 3 0 4 5), example_bytes (example_row 2 1 8 9)] (Init (replicate PageSize 0)) = Inr q" "wf_page q"
    "abs_page q = [Some (example_bytes (example_row 3 0 4 5)), Some (example_bytes (example_row 2 1 8 9))]"
    using heap_page.insert_all [of "Init (replicate PageSize 0)" "[example_bytes (example_row 3 0 4 5), example_bytes (example_row 2 1 8 9)]" 1] Init_wf [of "replicate PageSize 0"]
    by (auto simp: insert_cost_def align8_def example_row_facts(3))
  then have e: "example_versions_page = q" by (simp add: example_versions_page_def)
  show "wf_page example_versions_page" "abs_page example_versions_page = [Some (example_bytes (example_row 3 0 4 5)), Some (example_bytes (example_row 2 1 8 9))]"
    unfolding e by (rule q)+
  then show "nitems example_versions_page = 2" using nitems_abs [of example_versions_page] by simp
qed

lemma example_versions_state:
  "undo_inv 1000 (example_versions m) [(1, example_update)]" "cached 0 (example_versions m) \<lparr>Relid = 1, PageNo = 0\<rparr> 0 0"
  "bm_pages (example_versions m) 0 = example_versions_page" "ts_tm (example_versions m) = m" "\<not> ts_contents (example_versions m) b"
  "os_files (example_versions m) ''data/1'' = Some (Init (replicate PageSize 0))"
proof -
  have u: "undo_inv 1080 example_heap []" by (simp add: undo_inv_def file_of_def example_heap_def example_trans_def example_undo_def MaxResourceManagers_def)
  have l: "undo_CalculateSize example_update = 50" by (simp add: example_update_def undo_CalculateSize_def example_row_facts(3))
  have g: "getCurrentUSN (us_undo example_heap) = 1" "ul_path (us_undo example_heap) = ''undo''" "ul_size (us_undo example_heap) = 0"
    "file_of ''undo'' example_heap = []" "os_script example_heap = []"
    by (simp_all add: getCurrentUSN_def example_heap_def example_trans_def example_undo_def file_of_def)
  have c: "24 + align8 (undo_CalculateSize example_update) = 80" by (simp add: l align8_def)
  have e: "os_files (example_versions m) (ul_path (us_undo example_heap)) = Some (file_of (ul_path (us_undo example_heap)) example_heap @ undo_image 2 example_update)"
    "os_script (example_versions m) = []" "us_registry (example_versions m) = us_registry example_heap"
    "us_undo (example_versions m) = (us_undo example_heap)\<lparr>ul_size := ul_size (us_undo example_heap) + int (length (undo_image 2 example_update))\<rparr>"
    unfolding g by (simp_all only: example_versions_def) (simp_all add: g)
  have "undo_inv (1080 - (24 + align8 (undo_CalculateSize example_update))) (example_versions m) ([] @ [(getCurrentUSN (us_undo example_heap), example_update)])"
    by (rule undo_inv_insert [OF u _ e(1,2,4,3)]) (simp add: c)
  then show "undo_inv 1000 (example_versions m) [(1, example_update)]" by (simp only: c g) simp
  show "cached 0 (example_versions m) \<lparr>Relid = 1, PageNo = 0\<rparr> 0 0"
    using example_cached cached_cong [of example_heap "example_versions m"] by (simp add: same_cache_def example_versions_def)
  show "bm_pages (example_versions m) 0 = example_versions_page" "ts_tm (example_versions m) = m" by (simp_all add: example_versions_def)
  show "\<not> ts_contents (example_versions m) b" "os_files (example_versions m) ''data/1'' = Some (Init (replicate PageSize 0))"
    by (simp_all add: example_versions_def example_heap_def example_trans_def)
qed

lemma example_versions_scan:
  assumes "example_times m xid sn"
  shows "scan_ready [(1, example_update)] m xid sn example_pair 0 example_versions_page (\<lambda>_. [example_older])"
    and "\<exists>t u. List.map_filter (shown_at m xid sn example_pair 0 example_versions_page (\<lambda>_. [example_older])) [0..<2] = [t, u] \<and>
      hpt_values (hp_tuple t) = [Scalar 4, Scalar 5] \<and> hpt_isnull (hp_tuple t) = [False, False] \<and>
      hpt_values (hp_tuple u) = [Scalar 6, Scalar 7] \<and> hpt_isnull (hp_tuple u) = [False, False] \<and> hp_descriptor t = example_columns \<and> hp_descriptor u = example_columns"
proof -
  note p = example_versions_page and r = example_row_facts
  have d: "tb_descriptor example_pair = example_columns" by (simp add: example_pair_def)
  have hd: "slot_header example_versions_page 0 = Inr \<lparr>th_xid = 3, th_undo = 0, th_flags = 0\<rparr>" "slot_header example_versions_page 1 = Inr \<lparr>th_xid = 2, th_undo = 1, th_flags = 0\<rparr>"
    by (simp_all add: slot_header_def p(2) example_bytes_def r(2))
  have s: "sees m xid sn \<lparr>th_xid = 3, th_undo = 0, th_flags = 0\<rparr>" "settled m xid \<lparr>th_xid = 3, th_undo = 0, th_flags = 0\<rparr>"
    "\<not> sees m xid sn \<lparr>th_xid = 2, th_undo = 1, th_flags = 0\<rparr>" "settled m xid \<lparr>th_xid = 2, th_undo = 1, th_flags = 0\<rparr>"
    using assms by (auto simp: example_times_def sees_def settled_def csn_defs word_le_nat_alt)
  have a0: "abs_page example_versions_page ! 0 = Some (tuple_header_bytes (stored_header (example_row 3 0 4 5)) @
      tuple_image (tb_descriptor example_pair) (hpt_values (example_row 3 0 4 5)) (hpt_isnull (example_row 3 0 4 5)))"
    by (simp add: p(2) example_bytes_def d)
  obtain hpt where t: "slot_tuple example_pair 0 example_versions_page 0 = Inr \<lparr>hp_descriptor = example_columns, hp_tuple = hpt, hp_tid = \<lparr>tid_pageno = 0, tid_itemid = word_of_nat 0\<rparr>\<rparr>"
    "same_heap_tuple example_columns (example_row 3 0 4 5) hpt"
    using slot_deserialized(2) [OF p(1) _ _ a0, of 0] r(1) p(3) by (auto simp: d)
  obtain hpt' where "HeapTuple_Deserialize (example_bytes (example_row 3 0 6 7)) example_columns = Inr hpt'" and u: "same_heap_tuple example_columns (example_row 3 0 6 7) hpt'"
    using HeapTuple_Deserialize_image [OF r(1), of 3 0 6 7 "[]"] by (auto simp: example_bytes_def)
  then have o: "version_tuple example_columns example_older = Some \<lparr>hp_descriptor = example_columns, hp_tuple = hpt', hp_tid = example_spot\<rparr>"
    by (simp add: version_tuple_def example_older_def build_heap_tuple_def)
  have v: "Usn_IsValid 1" by (simp add: Usn_IsValid_def Usn_Invalid_def Usn_Max_def mask_eq_exp_minus_1 word_sle_eq)
  have chain: "older (map_of [(1, example_update)]) 1 [example_older]"
    unfolding example_older_def
    by (rule older.updated [OF v _ _ older.created]) (simp_all add: example_update_def example_bytes_def r(2) Usn_IsValid_def Usn_Invalid_def)
  have ok: "versions_ok m xid example_columns [example_older]" using s(2) o by (simp add: versions_ok_def example_older_def)
  have "\<exists>h. slot_ready [(1, example_update)] m xid sn example_pair 0 example_versions_page (\<lambda>_. [example_older]) i h" if i: "i < 2" for i
  proof (cases "i = 0")
    case True
    then show ?thesis using hd s t by (intro exI) (auto simp: slot_ready_def)
  next
    case False
    then have "i = 1" using i by simp
    then show ?thesis using hd s chain ok d by (intro exI) (auto simp: slot_ready_def)
  qed
  then show "scan_ready [(1, example_update)] m xid sn example_pair 0 example_versions_page (\<lambda>_. [example_older])"
    using p by (simp add: scan_ready_def)
  have "shown_at m xid sn example_pair 0 example_versions_page (\<lambda>_. [example_older]) 0 = Some \<lparr>hp_descriptor = example_columns, hp_tuple = hpt, hp_tid = \<lparr>tid_pageno = 0, tid_itemid = word_of_nat 0\<rparr>\<rparr>"
    using hd s t by (simp add: shown_at_def)
  moreover have "shown_at m xid sn example_pair 0 example_versions_page (\<lambda>_. [example_older]) 1 = Some \<lparr>hp_descriptor = example_columns, hp_tuple = hpt', hp_tid = example_spot\<rparr>"
    using hd s o d by (simp add: shown_at_def newest_seen_def) (simp add: example_older_def)
  ultimately show "\<exists>t u. List.map_filter (shown_at m xid sn example_pair 0 example_versions_page (\<lambda>_. [example_older])) [0..<2] = [t, u] \<and>
      hpt_values (hp_tuple t) = [Scalar 4, Scalar 5] \<and> hpt_isnull (hp_tuple t) = [False, False] \<and>
      hpt_values (hp_tuple u) = [Scalar 6, Scalar 7] \<and> hpt_isnull (hp_tuple u) = [False, False] \<and> hp_descriptor t = example_columns \<and> hp_descriptor u = example_columns"
    using example_row_read [OF t(2)] example_row_read [OF u] by (simp add: upt_rec List.map_filter_simps)
qed

definition example_reader :: TransactionManager where
  "example_reader = \<lparr>tm_csn = 6, tm_xid = 4, tm_mutex = False,
     tm_transactions = [Some ((new_Transaction 1 0)\<lparr>tr_snapshot := Some \<lparr>sn_CSN = 6, sn_CommandId = 0\<rparr>\<rparr>), Some (new_Transaction 2 1)],
     tm_xidToWorker = [1 \<mapsto> 0, 2 \<mapsto> 1], tm_history = [1 \<mapsto> Csn_InProgress, 2 \<mapsto> Csn_InProgress, 3 \<mapsto> 5]\<rparr>"

section \<open>Properties of tables\<close>

text \<open>
  Inserting a tuple for which the first page of the table has room serialises it, records how to undo it
  and logs it, and appends exactly its bytes to the slots of that page: every earlier slot and every
  other page stay, the undo record reads back as the deletion of the new slot and is the last one of
  the transaction, and the latch and the pin taken on the way are given back.
\<close>

theorem insert_into_first_page:
  assumes "can_insert n w tb tup bs i b room es t s"
  shows "\<exists>usn s'. InsertTuple (Suc k) w tb tup s = (Inr (), s') \<and>
    wf_page (bm_pages s' b) \<and> abs_page (bm_pages s' b) = abs_page (bm_pages s b) @ [Some bs] \<and> (\<forall>k. k \<noteq> b \<longrightarrow> bm_pages s' k = bm_pages s k) \<and>
    UndoLog_GetRecord usn s' = (Inr (DeleteUndoRecord (tb_tableId tb) \<lparr>tid_pageno = 0, tid_itemid = ItemsCount (bm_pages s b)\<rparr>), s') \<and>
    trans_of (ts_tm s') w = Some (t\<lparr>tr_undoLog := Some (undo_log_of t @ [usn])\<rparr>) \<and>
    \<not> ts_contents s' b \<and> unat (take_bit 20 (stat s' i)) = unat (take_bit 20 (stat s i))"
proof -
  obtain usn s' where i: "InsertTuple (Suc k) w tb tup s = (Inr (), s')" "inserted n w tb bs i b room es t s usn s'"
    using InsertTuple_first_page [OF assms] by blast
  have c: "cached n s \<lparr>Relid = tb_tableId tb, PageNo = 0\<rparr> i b" and t: "trans_of (ts_tm s) w = Some t" using assms by (simp_all add: can_insert_def)
  have "UndoLog_GetRecord usn s' = (Inr (delete_record tb \<lparr>Relid = tb_tableId tb, PageNo = 0\<rparr> (bm_pages s b)), s')"
    by (rule UndoLog_GetRecord_entry [where room = "room - 40" and es = "es @ [(usn, delete_record tb \<lparr>Relid = tb_tableId tb, PageNo = 0\<rparr> (bm_pages s b))]"])
      (use i(2) in \<open>simp_all add: inserted_def\<close>)
  moreover have "trans_of (ts_tm s') w = Some (t\<lparr>tr_undoLog := Some (undo_log_of t @ [usn])\<rparr>)"
    using i(2) trans_of_len [OF t] by (simp add: inserted_def set_slot_def trans_of_def)
  moreover have "unat (take_bit 20 (stat s' i)) = unat (take_bit 20 (stat s i))" using c i(2) by (simp add: inserted_def cached_def)
  ultimately show ?thesis using i by (intro exI [of _ usn] exI [of _ s']) (simp add: inserted_def delete_record_def)
qed

theorem insert_into_first_page_witness:
  "\<exists>bs s'. InsertTuple 1 0 example_table (VirtualTuple example_values [False, False, True]) example_heap = (Inr (), s') \<and>
    abs_page (bm_pages s' 0) = [Some bs]"
proof -
  obtain bs where c: "can_insert 0 0 example_table (VirtualTuple example_values [False, False, True]) bs 0 0 1000 [] example_writer example_heap"
    using example_can_insert by blast
  have "abs_page (bm_pages example_heap 0) = []" using Init_wf(2) [of "replicate PageSize 0"] by (simp add: example_page)
  then show ?thesis using insert_into_first_page [OF c, of 0] by auto
qed

text \<open>
  C5. What a transaction inserted into a page, its later statements read back: a scan of the page
  returns one tuple, with the same values and NULL flags, the header of the inserting transaction and
  the right identifier, and then says that the page is at an end and steps to the next one.
\<close>

theorem insert_scan_round_trip:
  assumes "can_insert n w tb tup bs i b room es t s" "abs_page (bm_pages s b) = []" "tr_snapshot t = Some sn" "\<not> tm_mutex (ts_tm s)"
    and "formHeapPageTuple w tb tup s = (Inr hpt, s)" "wf_heap_tuple (tb_descriptor tb) hpt"
  shows "\<exists>s1 s2 sn' ht s3. InsertTuple (Suc k) w tb tup s = (Inr (), s1) \<and> BeginNewStatement w s1 = (Inr (), s2) \<and>
    (\<exists>t'. trans_of (ts_tm s2) w = Some t' \<and> tr_snapshot t' = Some sn') \<and>
    scan_until_null 2 w \<lparr>hs_tupleId = \<lparr>tid_pageno = 0, tid_itemid = 0\<rparr>, hs_lastPageNumber = lastPage, hs_snapshot = sn', hs_table = tb, hs_end = False\<rparr> s2 =
      (Inr ([ht], \<lparr>hs_tupleId = \<lparr>tid_pageno = 1, tid_itemid = 0\<rparr>, hs_lastPageNumber = lastPage, hs_snapshot = sn', hs_table = tb, hs_end = (lastPage \<le> 1)\<rparr>), s3) \<and>
    same_heap_tuple (tb_descriptor tb) hpt (hp_tuple ht) \<and> hp_tid ht = \<lparr>tid_pageno = 0, tid_itemid = 0\<rparr>"
  using insert_then_scan [OF assms(1,2,5,6,4,3)] by blast

theorem insert_scan_round_trip_witness:
  "\<exists>s1 (ht::HeapTuple). InsertTuple 1 0 example_table (VirtualTuple example_values [False, False, True]) example_heap = (Inr (), s1) \<and>
    same_heap_tuple example_desc example_page_tuple (hp_tuple ht)"
proof -
  obtain bs where c: "can_insert 0 0 example_table (VirtualTuple example_values [False, False, True]) bs 0 0 1000 [] example_writer example_heap"
    using example_can_insert by blast
  have "abs_page (bm_pages example_heap 0) = []" "tr_snapshot example_writer = Some \<lparr>sn_CSN = 5, sn_CommandId = 0\<rparr>" "\<not> tm_mutex (ts_tm example_heap)"
    "wf_heap_tuple (tb_descriptor example_table) example_page_tuple"
    using Init_wf(2) [of "replicate PageSize 0"] example_page_tuple_ok(1) by (simp_all add: example_page example_writer_def m_two_def example_table_def)
  from insert_scan_round_trip [OF c this(1-3) example_form [folded example_page_tuple_def] this(4), of 0 0]
  obtain s1 and ht :: HeapTuple where "InsertTuple (Suc 0) 0 example_table (VirtualTuple example_values [False, False, True]) example_heap = (Inr (), s1)"
    "same_heap_tuple (tb_descriptor example_table) example_page_tuple (hp_tuple ht)" by blast
  moreover have "tb_descriptor example_table = example_desc" by (simp add: example_table_def)
  ultimately show ?thesis by (intro exI [of _ s1] exI [of _ ht]) simp
qed

text \<open>
  C36. Aborting a transaction after an insertion leaves the tuple on the page: the stored bytes carry
  no undo position, so that the undo record does not recognise its tuple and does nothing; the
  history says that the transaction aborted.
\<close>

theorem abort_keeps_inserted_tuple:
  assumes "can_insert n w tb tup bs i b room es t s" "tr_undoLog t = None" "tr_workerId t = w" "\<not> tm_mutex (ts_tm s)"
    and "tm_xidToWorker (ts_tm s) (tr_xid t) = Some w'"
  shows "\<exists>s1 s2. InsertTuple (Suc k) w tb tup s = (Inr (), s1) \<and> AbortTransaction ApplyUndo w s1 = (Inr (), s2) \<and>
    abs_page (bm_pages s2 b) = abs_page (bm_pages s b) @ [Some bs] \<and> tm_history (ts_tm s2) (tr_xid t) = Some Csn_Aborted"
  using insert_then_abort [OF assms] by blast

theorem abort_keeps_inserted_tuple_witness:
  "\<exists>bs s1 s2. InsertTuple 1 0 example_table (VirtualTuple example_values [False, False, True]) example_heap = (Inr (), s1) \<and>
    AbortTransaction ApplyUndo 0 s1 = (Inr (), s2) \<and> abs_page (bm_pages s2 0) = [Some bs] \<and> tm_history (ts_tm s2) 1 = Some Csn_Aborted"
proof -
  obtain bs where c: "can_insert 0 0 example_table (VirtualTuple example_values [False, False, True]) bs 0 0 1000 [] example_writer example_heap"
    using example_can_insert by blast
  have "tr_undoLog example_writer = None" "tr_workerId example_writer = 0" "\<not> tm_mutex (ts_tm example_heap)"
    "tm_xidToWorker (ts_tm example_heap) (tr_xid example_writer) = Some 0" "abs_page (bm_pages example_heap 0) = []" "tr_xid example_writer = 1"
    using Init_wf(2) [of "replicate PageSize 0"] by (simp_all add: example_page example_writer_def m_two_def new_Transaction_def)
  from abort_keeps_inserted_tuple [OF c this(1-4), of 0] this(5,6)
  show ?thesis by auto
qed

text \<open>
  C13. Calling a scan until it returns \<open>nullptr\<close> yields, for a page that the cache holds, for each slot from the
  current one on what the snapshot sees there, in slot order: the tuple on the page, with its identifier,
  if that version is visible and not deleted; nothing if it is visible and deleted; and if it is
  invisible, the newest visible of the older versions that the undo log tells of this slot, if any. It
  leaves the page, its latch and its pins as they were, and with them every other page, the files, the
  logs and the transactions. The page is one that can be decided (\<open>scan_ready\<close>): no transaction that it
  asks for is in the middle of a commit, the tuples it returns can be deserialised, and the undo log
  holds the older versions. A value that is stored by reference is given as the bytes it was read from; the
  code keeps a pointer to them, which for an older version is into the record that it has freed. The
  \<open>nullptr\<close> marks the end of the page, not of the table: the scan has moved
  on to the next page.
\<close>

theorem scan_page_equivalence:
  assumes "at_page n \<lparr>Relid = tb_tableId (hs_table sc), PageNo = tid_pageno (hs_tupleId sc)\<rparr> i b p m s" "undo_inv room s es"
    and "trans_of m w = Some t" "\<not> tm_mutex m" "scan_ready es m (tr_xid t) (hs_snapshot sc) (hs_table sc) (tid_pageno (hs_tupleId sc)) p vs" "\<not> hs_end sc"
  shows "\<exists>s2. scan_until_null (Suc (nitems p)) w sc s =
      (Inr (List.map_filter (shown_at m (tr_xid t) (hs_snapshot sc) (hs_table sc) (tid_pageno (hs_tupleId sc)) p vs) [unat (tid_itemid (hs_tupleId sc))..<nitems p],
        sc\<lparr>hs_tupleId := \<lparr>tid_pageno = tid_pageno (hs_tupleId sc) + 1, tid_itemid = 0\<rparr>, hs_end := (hs_lastPageNumber sc \<le> tid_pageno (hs_tupleId sc) + 1)\<rparr>), s2) \<and>
    at_page n \<lparr>Relid = tb_tableId (hs_table sc), PageNo = tid_pageno (hs_tupleId sc)\<rparr> i b p m s2 \<and> leaves s s2"
proof -
  have "scan_advance sc (nitems p) None = sc\<lparr>hs_tupleId := \<lparr>tid_pageno = tid_pageno (hs_tupleId sc) + 1, tid_itemid = 0\<rparr>, hs_end := (hs_lastPageNumber sc \<le> tid_pageno (hs_tupleId sc) + 1)\<rparr>"
    using assms(6) by (simp add: scan_advance_def Let_def)
  moreover have "undo_readable es s" using assms(2) by (auto simp: undo_readable_def)
  ultimately show ?thesis using scan_until_null_page [OF assms(1) _ assms(3-6), of "Suc (nitems p)"] by simp
qed

theorem scan_page_equivalence_witness:
  "\<exists>t u sc s2. scan_until_null 3 0 \<lparr>hs_tupleId = \<lparr>tid_pageno = 0, tid_itemid = 0\<rparr>, hs_lastPageNumber = 1, hs_snapshot = \<lparr>sn_CSN = 6, sn_CommandId = 0\<rparr>,
      hs_table = example_pair, hs_end = False\<rparr> (example_versions example_reader) = (Inr ([t, u], sc), s2) \<and> hs_end sc \<and>
    hpt_values (hp_tuple t) = [Scalar 4, Scalar 5] \<and> hpt_values (hp_tuple u) = [Scalar 6, Scalar 7]"
proof -
  let ?sc = "\<lparr>hs_tupleId = \<lparr>tid_pageno = 0, tid_itemid = 0\<rparr>, hs_lastPageNumber = 1, hs_snapshot = \<lparr>sn_CSN = 6, sn_CommandId = 0\<rparr>,
      hs_table = example_pair, hs_end = False\<rparr>" and ?s = "example_versions example_reader"
  let ?t = "(new_Transaction 1 0)\<lparr>tr_snapshot := Some \<lparr>sn_CSN = 6, sn_CommandId = 0\<rparr>\<rparr>"
  note st = example_versions_state [of example_reader]
  have at: "at_page 0 \<lparr>Relid = tb_tableId (hs_table ?sc), PageNo = tid_pageno (hs_tupleId ?sc)\<rparr> 0 0 example_versions_page example_reader ?s"
    using st by (simp add: at_page_def example_pair_def)
  have tr: "trans_of example_reader 0 = Some ?t" "\<not> tm_mutex example_reader" "tr_xid ?t = 1"
    by (simp_all add: example_reader_def trans_of_def new_Transaction_def)
  have times: "example_times example_reader (tr_xid ?t) (hs_snapshot ?sc)" by (simp add: example_times_def example_reader_def tr(3))
  have ready: "scan_ready [(1, example_update)] example_reader (tr_xid ?t) (hs_snapshot ?sc) (hs_table ?sc) (tid_pageno (hs_tupleId ?sc)) example_versions_page (\<lambda>_. [example_older])"
    using example_versions_scan(1) [OF times] by simp
  have e: "\<not> hs_end ?sc" by simp
  have three: "Suc (nitems example_versions_page) = 3" by (simp add: example_versions_page(3))
  from scan_page_equivalence [OF at st(1) tr(1,2) ready e] example_versions_scan(2) [OF times] show ?thesis
    unfolding three example_versions_page(3) by auto
qed

end
