(* ===== verification/Mimi_Executor.thy ===== *)
theory Mimi_Executor
  imports Mimi_Tables
begin

text \<open>
  The executor: arrays of datums (\<open>utils/DatumArray.hpp\<close>), the builtin functions (\<open>db/builtin\<close>), the
  expressions (\<open>executor/expr\<close>) and the plan nodes (\<open>executor/plan\<close>). A function called with an argument
  that is missing or NULL dereferences an empty \<open>std::optional\<close>; a sum that the promoted type
  cannot hold is a signed overflow; both are \<open>Undefined\<close>.
\<close>

unbundle bit_operations_syntax

section \<open>DatumArray\<close>

record DatumArray =
  da_values :: "Datum list"
  da_isnull :: "bool list"
  da_size :: nat

definition new_DatumArray :: DatumArray where
  "new_DatumArray = \<lparr>da_values = [], da_isnull = [], da_size = 0\<rparr>"

definition sized_DatumArray :: "nat \<Rightarrow> DatumArray" where
  "sized_DatumArray n = \<lparr>da_values = replicate n (Scalar 0), da_isnull = replicate n False, da_size = 0\<rparr>"

definition DatumArray_of :: "Datum list \<Rightarrow> bool list \<Rightarrow> DatumArray res" where
  "DatumArray_of values isnull =
     (if length values \<noteq> length isnull then Inl (RuntimeError ''datum array and isnull bitmap have different sizes'')
      else Inr \<lparr>da_values = values, da_isnull = isnull, da_size = length values\<rparr>)"

definition AddValue :: "Datum \<Rightarrow> DatumArray \<Rightarrow> DatumArray" where
  "AddValue d a = \<lparr>da_values = da_values a @ [d], da_isnull = da_isnull a @ [False], da_size = da_size a + 1\<rparr>"

definition AddNull :: "DatumArray \<Rightarrow> DatumArray" where
  "AddNull a = \<lparr>da_values = da_values a @ [Scalar 0], da_isnull = da_isnull a @ [True], da_size = da_size a + 1\<rparr>"

definition DatumArray_Add :: "Datum option \<Rightarrow> DatumArray \<Rightarrow> DatumArray" where
  "DatumArray_Add v a = (case v of Some d \<Rightarrow> AddValue d a | None \<Rightarrow> AddNull a)"

definition vec_set :: "nat \<Rightarrow> 'a \<Rightarrow> 'a list \<Rightarrow> 'a list res" where
  "vec_set i x xs = (if i < length xs then Inr (xs[i := x]) else Inl (Undefined ''vector index''))"

definition SetValue :: "nat \<Rightarrow> Datum \<Rightarrow> DatumArray \<Rightarrow> DatumArray res" where
  "SetValue i d a = bindR (vec_set i d (da_values a)) (\<lambda>vs. bindR (vec_set i False (da_isnull a)) (\<lambda>ns.
     Inr (a\<lparr>da_values := vs, da_isnull := ns\<rparr>)))"

definition SetNull :: "nat \<Rightarrow> DatumArray \<Rightarrow> DatumArray res" where
  "SetNull i a = bindR (vec_set i (Scalar 0) (da_values a)) (\<lambda>vs. bindR (vec_set i True (da_isnull a)) (\<lambda>ns.
     Inr (a\<lparr>da_values := vs, da_isnull := ns\<rparr>)))"

definition DatumArray_Set :: "nat \<Rightarrow> Datum option \<Rightarrow> DatumArray \<Rightarrow> DatumArray res" where
  "DatumArray_Set i v a = (case v of Some d \<Rightarrow> SetValue i d a | None \<Rightarrow> SetNull i a)"

definition DatumArray_Get :: "nat \<Rightarrow> DatumArray \<Rightarrow> Datum option res" where
  "DatumArray_Get i a = bindR (vec_at (da_isnull a) i) (\<lambda>null.
     if null then Inr None else bindR (vec_at (da_values a) i) (\<lambda>d. Inr (Some d)))"

definition DatumArray_Size :: "DatumArray \<Rightarrow> nat" where
  "DatumArray_Size a = length (da_values a)"

definition Decompose :: "DatumArray \<Rightarrow> Datum list \<times> bool list" where
  "Decompose a = (da_values a, da_isnull a)"

section \<open>Builtin functions\<close>

text \<open>\<open>args.GetArg(i)->\<close>\<close>

definition fn_arg :: "nat \<Rightarrow> DatumArray \<Rightarrow> Datum res" where
  "fn_arg i args = bindR (DatumArray_Get i args) (\<lambda>v. case v of
     None \<Rightarrow> Inl (Undefined ''empty std::optional'') | Some d \<Rightarrow> Inr d)"

definition two_args :: "DatumArray \<Rightarrow> (Datum \<Rightarrow> Datum \<Rightarrow> 'a res) \<Rightarrow> 'a res" where
  "two_args args f = bindR (assertR ''args.GetNArgs() == 2'' (DatumArray_Size args = 2)) (\<lambda>_.
     bindR (fn_arg 0 args) (\<lambda>a. bindR (fn_arg 1 args) (f a)))"

definition inteqgeneric :: "(u64 \<Rightarrow> 'w::len word) \<Rightarrow> DatumArray \<Rightarrow> Datum option res" where
  "inteqgeneric conv args = two_args args (\<lambda>first second.
     bindR (getScalar first) (\<lambda>a. bindR (getScalar second) (\<lambda>b. Inr (Some (bool_datum (conv a = conv b))))))"

definition Int16Eq :: "DatumArray \<Rightarrow> Datum option res" where "Int16Eq = inteqgeneric (ucast :: u64 \<Rightarrow> u16)"
definition Int32Eq :: "DatumArray \<Rightarrow> Datum option res" where "Int32Eq = inteqgeneric (ucast :: u64 \<Rightarrow> u32)"
definition Int64Eq :: "DatumArray \<Rightarrow> Datum option res" where "Int64Eq = inteqgeneric (\<lambda>v. v)"

text \<open>A sum in C++ is computed in the promoted type, of \<open>n\<close> bits.\<close>

definition intaddgeneric :: "nat \<Rightarrow> (u64 \<Rightarrow> 'w::len word) \<Rightarrow> DatumArray \<Rightarrow> Datum option res" where
  "intaddgeneric n conv args = two_args args (\<lambda>first second.
     bindR (getScalar first) (\<lambda>a. bindR (getScalar second) (\<lambda>b.
     let r = sint (conv a) + sint (conv b) in
     if - (2 ^ (n - 1)) \<le> r \<and> r < 2 ^ (n - 1) then Inr (Some (Scalar (word_of_int r)))
     else Inl (Undefined ''signed integer overflow''))))"

definition Int16Add :: "DatumArray \<Rightarrow> Datum option res" where "Int16Add = intaddgeneric 32 (ucast :: u64 \<Rightarrow> u16)"
definition Int32Add :: "DatumArray \<Rightarrow> Datum option res" where "Int32Add = intaddgeneric 32 (ucast :: u64 \<Rightarrow> u32)"
definition Int64Add :: "DatumArray \<Rightarrow> Datum option res" where "Int64Add = intaddgeneric 64 (\<lambda>v. v)"

definition Int16Output :: "Datum \<Rightarrow> string res" where
  "Int16Output d = bindR (getScalar d) (\<lambda>v. Inr (int_to_string (sint (ucast v :: u16))))"
definition Int32Output :: "Datum \<Rightarrow> string res" where
  "Int32Output d = bindR (getScalar d) (\<lambda>v. Inr (int_to_string (sint (ucast v :: u32))))"
definition Int64Output :: "Datum \<Rightarrow> string res" where
  "Int64Output d = bindR (getScalar d) (\<lambda>v. Inr (int_to_string (sint v)))"

text \<open>A text value: its length as \<open>uint32_t\<close>, then its characters.\<close>

definition Text_FromCString :: "byte list \<Rightarrow> Datum res" where
  "Text_FromCString str = (let length = length (takeWhile (\<lambda>c. c \<noteq> 0) str) in
     if 2 ^ 32 - 1 < length then Inl (RuntimeError ''too large c string'')
     else Inr (Ref (le_of_nat 4 length @ take length str @ [0])))"

definition Text_Length :: "byte list \<Rightarrow> nat res" where
  "Text_Length p = bindR (loadR p 0 4) (\<lambda>bs. Inr (nat_of_le bs))"

primrec strncmp_eq :: "nat \<Rightarrow> byte list \<Rightarrow> byte list \<Rightarrow> bool res" where
  "strncmp_eq 0 xs ys = Inr True"
| "strncmp_eq (Suc n) xs ys = bindR (vec_at xs 0) (\<lambda>x. bindR (vec_at ys 0) (\<lambda>y.
     if x \<noteq> y then Inr False else if x = 0 then Inr True else strncmp_eq n (tl xs) (tl ys)))"

definition TextEq :: "DatumArray \<Rightarrow> Datum option res" where
  "TextEq args = two_args args (\<lambda>a b. bindR (getPointer a) (\<lambda>first. bindR (getPointer b) (\<lambda>second.
     bindR (Text_Length first) (\<lambda>n1. bindR (Text_Length second) (\<lambda>n2.
     if n1 \<noteq> n2 then Inr (Some (bool_datum False))
     else bindR (strncmp_eq n1 (drop 4 first) (drop 4 second)) (\<lambda>eq. Inr (Some (bool_datum eq))))))))"

definition TextOutput :: "Datum \<Rightarrow> string res" where
  "TextOutput d = bindR (getPointer d) (\<lambda>p. bindR (Text_Length p) (\<lambda>n. bindR (loadR p 4 n) (\<lambda>bs. Inr (string_of_bytes bs))))"

section \<open>Expressions\<close>

datatype BoolOp = AndOp | OrOp | NotOp

record FunctionContext =
  fc_function :: "DatumArray \<Rightarrow> Datum option res"
  fc_strict :: bool
  fc_nargs :: nat

datatype IExpressionNode =
    AttributeExpressionNode AttrNumber
  | ConstantExpressionNode "Datum option"
  | BoolExpressionNode "IExpressionNode list" BoolOp
  | FunctionExpressionNode FunctionContext "IExpressionNode list"

definition new_BoolExpressionNode :: "IExpressionNode list \<Rightarrow> BoolOp \<Rightarrow> IExpressionNode res" where
  "new_BoolExpressionNode es bop =
     (if bop = NotOp \<and> length es \<noteq> 1 then Inl (RuntimeError ''For NOT only 1 expression is allowed'')
      else if es = [] then Inl (RuntimeError ''Expression array does not contain any element'')
      else Inr (BoolExpressionNode es bop))"

definition Invoke :: "FunctionContext \<Rightarrow> DatumArray \<Rightarrow> Datum option res" where
  "Invoke fc args = fc_function fc args"

fun Exec :: "IExpressionNode \<Rightarrow> ITuple \<Rightarrow> Datum option res"
  and exec_bool :: "IExpressionNode list \<Rightarrow> BoolOp \<Rightarrow> ITuple \<Rightarrow> Datum option res"
  and exec_args :: "IExpressionNode list \<Rightarrow> ITuple \<Rightarrow> DatumArray \<Rightarrow> DatumArray res" where
  "Exec (AttributeExpressionNode attno) tup = GetAttribute tup attno"
| "Exec (ConstantExpressionNode v) tup = Inr v"
| "Exec (BoolExpressionNode es bop) tup =
     bindR (assertR ''this->_expressions.size() > 0'' (es \<noteq> [])) (\<lambda>_. exec_bool es bop tup)"
| "Exec (FunctionExpressionNode fc es) tup =
     bindR (exec_args es tup new_DatumArray) (\<lambda>array.
     if fc_strict fc \<and> True \<in> set (da_isnull array) then Inr None else Invoke fc array)"
| "exec_bool [] bop tup = Inr (Some (bool_datum (bop = AndOp)))"
| "exec_bool (e # es) bop tup =
     bindR (Exec e tup) (\<lambda>result. case result of None \<Rightarrow> Inr None | Some d \<Rightarrow>
     bindR (getBool d) (\<lambda>val. case bop of
       AndOp \<Rightarrow> if \<not> val then Inr (Some (bool_datum False)) else exec_bool es bop tup
     | OrOp \<Rightarrow> if val then Inr (Some (bool_datum True)) else exec_bool es bop tup
     | NotOp \<Rightarrow> Inr (Some d)))"
| "exec_args [] tup array = Inr array"
| "exec_args (e # es) tup array = bindR (Exec e tup) (\<lambda>arg. exec_args es tup (DatumArray_Add arg array))"

definition ExecQual :: "IExpressionNode \<Rightarrow> ITuple \<Rightarrow> bool res" where
  "ExecQual e tup = bindR (Exec e tup) (\<lambda>value. case value of None \<Rightarrow> Inr False | Some d \<Rightarrow> getBool d)"

section \<open>Virtual tuples\<close>

definition SetAttribute :: "AttrNumber \<Rightarrow> Datum option \<Rightarrow> Datum list \<times> bool list \<Rightarrow> (Datum list \<times> bool list) res" where
  "SetAttribute attno value vt = (case vt of (values, isnull) \<Rightarrow>
     bindR (ToIndex attno) (\<lambda>idx.
     bindR (vec_set idx (case value of Some d \<Rightarrow> d | None \<Rightarrow> Scalar 0) values) (\<lambda>values'.
     bindR (vec_set idx (value = None) isnull) (\<lambda>isnull'. Inr (values', isnull')))))"

definition VirtualTuple_Copy :: "ITuple \<Rightarrow> (Datum list \<times> bool list) res" where
  "VirtualTuple_Copy tup = (let natts = GetMaxAttno tup in
     foldR (\<lambda>attno vt. bindR (GetAttribute tup attno) (\<lambda>attr. SetAttribute attno attr vt)) (attr_nums natts)
       (replicate (unat natts) (Scalar 0), replicate (unat natts) False))"

section \<open>Plan nodes\<close>

datatype CommandTag = SelectTag | UpdateTag | InsertTag | DeleteTag

text \<open>The table, the predicate, what the node does, its scan and the rows processed.\<close>

datatype PlanNode =
    SeqScan HeapTable "IExpressionNode option" "HeapTableScan option" int
  | InsertNode HeapTable "ITuple list" int
  | UpdateNode HeapTable IExpressionNode "(AttrNumber \<times> IExpressionNode) list" "HeapTableScan option" int
  | DeleteNode HeapTable IExpressionNode "HeapTableScan option" int

definition new_SeqScan :: "HeapTable \<Rightarrow> IExpressionNode option \<Rightarrow> PlanNode" where
  "new_SeqScan table qual = SeqScan table qual None 0"

definition new_InsertNode :: "HeapTable \<Rightarrow> ITuple list \<Rightarrow> PlanNode" where
  "new_InsertNode table tuples = InsertNode table tuples 0"

definition new_UpdateNode :: "HeapTable \<Rightarrow> IExpressionNode option \<Rightarrow> (AttrNumber \<times> IExpressionNode) list \<Rightarrow> PlanNode res" where
  "new_UpdateNode table qual updates = (case qual of
     None \<Rightarrow> Inl (RuntimeError ''qual is null'') | Some q \<Rightarrow> Inr (UpdateNode table q updates None 0))"

definition new_DeleteNode :: "HeapTable \<Rightarrow> IExpressionNode option \<Rightarrow> PlanNode res" where
  "new_DeleteNode table qual = (case qual of
     None \<Rightarrow> Inl (RuntimeError ''predicate is not provided'') | Some q \<Rightarrow> Inr (DeleteNode table q None 0))"

definition GetRowsProcessed :: "PlanNode \<Rightarrow> int" where
  "GetRowsProcessed node = (case node of SeqScan _ _ _ n \<Rightarrow> n | InsertNode _ _ n \<Rightarrow> n | UpdateNode _ _ _ _ n \<Rightarrow> n | DeleteNode _ _ _ n \<Rightarrow> n)"

definition PlanNode_Start :: "Snapshot \<Rightarrow> PlanNode \<Rightarrow> ('x trans_state_scheme, PlanNode) cm" where
  "PlanNode_Start snapshot node = (case node of
     SeqScan table qual _ n \<Rightarrow> bindM (BeginScan (StartScan table snapshot)) (\<lambda>sc. retM (SeqScan table qual (Some sc) n))
   | InsertNode table tuples n \<Rightarrow> retM node
   | UpdateNode table qual updates scan n \<Rightarrow>
       thenM (assertM ''this->_scan == nullptr'' (scan = None)) (
       bindM (BeginScan (StartScan table snapshot)) (\<lambda>sc. retM (UpdateNode table qual updates (Some sc) n)))
   | DeleteNode table qual _ n \<Rightarrow> bindM (BeginScan (StartScan table snapshot)) (\<lambda>sc. retM (DeleteNode table qual (Some sc) n)))"

definition PlanNode_End :: "PlanNode \<Rightarrow> PlanNode res" where
  "PlanNode_End node = (case node of
     SeqScan table qual scan n \<Rightarrow> (case scan of None \<Rightarrow> Inl (Undefined ''null _scan'') | Some sc \<Rightarrow> Inr (SeqScan table qual (Some (EndScan sc)) n))
   | InsertNode table tuples n \<Rightarrow> Inr node
   | UpdateNode table qual updates scan n \<Rightarrow> Inr (UpdateNode table qual updates None n)
   | DeleteNode table qual scan n \<Rightarrow> Inr (DeleteNode table qual None n))"

text \<open>
  \<open>while (auto tuple = scan->GetNextTuple())\<close>: the first tuple that passes the test, and the scan
  after it. The source of tuples is an argument.
\<close>

primrec next_passing :: "('sc \<Rightarrow> ('s, 't option \<times> 'sc) cm) \<Rightarrow> ('t \<Rightarrow> bool res) \<Rightarrow> nat \<Rightarrow> 'sc \<Rightarrow> ('s, 't option \<times> 'sc) cm" where
  "next_passing next test 0 sc = raiseM (Undefined ''endless scan'')"
| "next_passing next test (Suc k) sc = bindM (next sc) (\<lambda>(t, sc'). case t of
     None \<Rightarrow> retM (None, sc')
   | Some tup \<Rightarrow> bindM (liftR (test tup)) (\<lambda>ok. if ok then retM (Some tup, sc') else next_passing next test k sc'))"

text \<open>The loop of the nodes that change every tuple that passes.\<close>

primrec modify_passing :: "('sc \<Rightarrow> ('s, 't option \<times> 'sc) cm) \<Rightarrow> ('t \<Rightarrow> bool res) \<Rightarrow> ('t \<Rightarrow> ('s, unit) cm) \<Rightarrow> nat \<Rightarrow> 'sc \<Rightarrow> int \<Rightarrow> ('s, 'sc \<times> int) cm" where
  "modify_passing next test act 0 sc rows = raiseM (Undefined ''endless scan'')"
| "modify_passing next test act (Suc k) sc rows = bindM (next sc) (\<lambda>(t, sc'). case t of
     None \<Rightarrow> retM (sc', rows)
   | Some tup \<Rightarrow> bindM (liftR (test tup)) (\<lambda>ok.
       if ok then thenM (act tup) (modify_passing next test act k sc' (rows + 1)) else modify_passing next test act k sc' rows))"

primrec insert_tuples :: "nat \<Rightarrow> nat \<Rightarrow> HeapTable \<Rightarrow> ITuple list \<Rightarrow> int \<Rightarrow> ('x trans_state_scheme, int) cm" where
  "insert_tuples fuel w table [] rows = retM rows"
| "insert_tuples fuel w table (t # ts) rows = thenM (InsertTuple fuel w table t) (insert_tuples fuel w table ts (rows + 1))"

definition qual_passes :: "IExpressionNode option \<Rightarrow> HeapTuple \<Rightarrow> bool res" where
  "qual_passes qual t = (case qual of None \<Rightarrow> Inr True
   | Some e \<Rightarrow> bindR (Exec e (HeapITuple t)) (\<lambda>result. case result of None \<Rightarrow> Inr False | Some d \<Rightarrow> getBool d))"

definition updated_tuple :: "(AttrNumber \<times> IExpressionNode) list \<Rightarrow> HeapTuple \<Rightarrow> ITuple res" where
  "updated_tuple updates old =
     bindR (VirtualTuple_Copy (HeapITuple old)) (\<lambda>vt.
     bindR (foldR (\<lambda>(attno, e) vt. bindR (Exec e (HeapITuple old)) (\<lambda>newVal. SetAttribute attno newVal vt)) updates vt) (\<lambda>(values, isnull).
     Inr (VirtualTuple values isnull)))"

definition PlanNode_Execute :: "nat \<Rightarrow> nat \<Rightarrow> PlanNode \<Rightarrow> ('x trans_state_scheme, HeapTuple option \<times> PlanNode) cm" where
  "PlanNode_Execute fuel w node = (case node of
     SeqScan table qual scan n \<Rightarrow> (case scan of
       None \<Rightarrow> raiseM (Undefined ''null _scan'')
     | Some sc \<Rightarrow> bindM (next_passing (GetNextTuple w) (qual_passes qual) fuel sc) (\<lambda>(t, sc').
         retM (t, SeqScan table qual (Some sc') (if t = None then n else n + 1))))
   | InsertNode table tuples n \<Rightarrow> bindM (insert_tuples fuel w table tuples n) (\<lambda>n'. retM (None, InsertNode table tuples n'))
   | UpdateNode table qual updates scan n \<Rightarrow> (case scan of
       None \<Rightarrow> raiseM (RuntimeError ''scan is not started'')
     | Some sc \<Rightarrow> bindM (modify_passing (GetNextTuple w) (\<lambda>t. ExecQual qual (HeapITuple t))
           (\<lambda>t. bindM (liftR (updated_tuple updates t)) (\<lambda>new. UpdateTuple fuel w table (HeapITuple t) new)) fuel sc n) (\<lambda>(sc', n').
         retM (None, UpdateNode table qual updates (Some sc') n')))
   | DeleteNode table qual scan n \<Rightarrow> (case scan of
       None \<Rightarrow> raiseM (RuntimeError ''Start was not invoked'')
     | Some sc \<Rightarrow> bindM (modify_passing (GetNextTuple w) (\<lambda>t. ExecQual qual (HeapITuple t))
           (\<lambda>t. DeleteTuple w table (HeapITuple t)) fuel sc n) (\<lambda>(sc', n').
         retM (None, DeleteNode table qual (Some sc') n'))))"

end
