(* ===== verification/Mimi_ExecTypes.thy ===== *)
theory Mimi_ExecTypes
  imports Mimi_Executor
begin

text \<open>
  Types of values and expressions: what a datum must be for the code that reads it, the interface of
  the builtin functions, and type soundness of the evaluation of expressions.
\<close>

section \<open>Typed expressions do not fail\<close>

text \<open>What a datum must be for the code that reads it: a scalar, or a pointer to a text value.\<close>

datatype datum_type = IntT | TextT

definition datum_ok :: "datum_type \<Rightarrow> Datum \<Rightarrow> bool" where
  "datum_ok ty d = (case ty of IntT \<Rightarrow> (case d of Scalar _ \<Rightarrow> True | Ref _ \<Rightarrow> False)
     | TextT \<Rightarrow> (case d of Scalar _ \<Rightarrow> False | Ref p \<Rightarrow> 4 \<le> length p \<and> 4 + nat_of_le (take 4 p) \<le> length p))"

lemma datum_ok_IntT [simp]: "datum_ok IntT d \<longleftrightarrow> (\<exists>v. d = Scalar v)"
  by (cases d) (auto simp: datum_ok_def)

lemma datum_ok_TextT [simp]: "datum_ok TextT d \<longleftrightarrow> (\<exists>p. d = Ref p \<and> 4 \<le> length p \<and> 4 + nat_of_le (take 4 p) \<le> length p)"
  by (cases d) (auto simp: datum_ok_def)

definition opt_datum_ok :: "datum_type \<Rightarrow> Datum option \<Rightarrow> bool" where
  "opt_datum_ok ty v = (case v of None \<Rightarrow> True | Some d \<Rightarrow> datum_ok ty d)"

lemma opt_datum_ok_simps [simp]: "opt_datum_ok ty None" "opt_datum_ok ty (Some d) = datum_ok ty d"
  by (simp_all add: opt_datum_ok_def)

definition of_values :: "Datum list \<Rightarrow> DatumArray" where
  "of_values ds = \<lparr>da_values = ds, da_isnull = replicate (length ds) False, da_size = length ds\<rparr>"

lemma fn_arg_of_values [simp]: "i < length ds \<Longrightarrow> fn_arg i (of_values ds) = Inr (ds ! i)"
  by (simp add: fn_arg_def DatumArray_Get_def of_values_def)

lemma two_args_of_values [simp]: "two_args (of_values [a, b]) f = f a b"
  by (simp add: two_args_def DatumArray_Size_def) (simp add: of_values_def)

text \<open>The interface of a builtin function: on values of its argument types it returns one of its result type.\<close>

locale builtin =
  fixes f :: "DatumArray \<Rightarrow> Datum option res" and tys :: "datum_type list" and ty :: datum_type
  assumes total: "list_all2 datum_ok tys ds \<Longrightarrow> \<exists>v. f (of_values ds) = Inr v \<and> opt_datum_ok ty v"
begin

lemma strict_call:
  assumes "list_all2 datum_ok tys ds" "exec_args es tup new_DatumArray = Inr (of_values ds)"
  shows "\<exists>v. Exec (FunctionExpressionNode \<lparr>fc_function = f, fc_strict = True, fc_nargs = n\<rparr> es) tup = Inr v \<and> opt_datum_ok ty v"
  using total [OF assms(1)] assms(2) by (simp add: Invoke_def of_values_def)

end

lemma two_ints: "list_all2 datum_ok [IntT, IntT] ds \<longleftrightarrow> (\<exists>a b. ds = [Scalar a, Scalar b])"
  by (auto simp: list_all2_Cons1)

lemma inteq_total: "list_all2 datum_ok [IntT, IntT] ds \<Longrightarrow> \<exists>v. inteqgeneric conv (of_values ds) = Inr v \<and> opt_datum_ok IntT v"
  by (auto simp: two_ints inteqgeneric_def getScalar_def bool_datum_def)

interpretation int16_eq: builtin Int16Eq "[IntT, IntT]" IntT
  by unfold_locales (auto simp: Int16Eq_def intro!: inteq_total)

interpretation int32_eq: builtin Int32Eq "[IntT, IntT]" IntT
  by unfold_locales (auto simp: Int32Eq_def intro!: inteq_total)

interpretation int64_eq: builtin Int64Eq "[IntT, IntT]" IntT
  by unfold_locales (auto simp: Int64Eq_def intro!: inteq_total)

lemma strncmp_total: "n \<le> length xs \<Longrightarrow> n \<le> length ys \<Longrightarrow> \<exists>b. strncmp_eq n xs ys = Inr b"
proof (induction n arbitrary: xs ys)
  case 0
  then show ?case by auto
next
  case (Suc n)
  then have "xs \<noteq> []" "ys \<noteq> []" "\<exists>b. strncmp_eq n (tl xs) (tl ys) = Inr b" by auto
  then show ?case by auto
qed

lemma Text_Length_ok: "4 \<le> length p \<Longrightarrow> Text_Length p = Inr (nat_of_le (take 4 p))"
  by (simp add: Text_Length_def peek_def)

interpretation text_eq: builtin TextEq "[TextT, TextT]" IntT
proof unfold_locales
  fix ds assume "list_all2 datum_ok [TextT, TextT] ds"
  then obtain p q where d: "ds = [Ref p, Ref q]" "4 \<le> length p" "4 + nat_of_le (take 4 p) \<le> length p" "4 \<le> length q" "4 + nat_of_le (take 4 q) \<le> length q"
    by (auto simp: list_all2_Cons1)
  then have "nat_of_le (take 4 p) = nat_of_le (take 4 q) \<Longrightarrow> \<exists>b. strncmp_eq (nat_of_le (take 4 q)) (drop 4 p) (drop 4 q) = Inr b"
    by (intro strncmp_total) simp_all
  then show "\<exists>v. TextEq (of_values ds) = Inr v \<and> opt_datum_ok IntT v"
    using d by (auto simp: TextEq_def getPointer_def Text_Length_ok bool_datum_def)
qed

text \<open>Typing of expressions; the environment gives the types of the attributes.\<close>

type_synonym type_env = "AttrNumber \<Rightarrow> datum_type option"

inductive has_type :: "type_env \<Rightarrow> IExpressionNode \<Rightarrow> datum_type \<Rightarrow> bool" for env where
  attribute: "env attno = Some ty \<Longrightarrow> has_type env (AttributeExpressionNode attno) ty"
| literal: "opt_datum_ok ty v \<Longrightarrow> has_type env (ConstantExpressionNode v) ty"
| bool: "es \<noteq> [] \<Longrightarrow> list_all (\<lambda>e. has_type env e IntT) es \<Longrightarrow> has_type env (BoolExpressionNode es bop) IntT"
| strict: "builtin f tys ty \<Longrightarrow> list_all2 (has_type env) es tys \<Longrightarrow>
     has_type env (FunctionExpressionNode \<lparr>fc_function = f, fc_strict = True, fc_nargs = n\<rparr> es) ty"

inductive_cases has_type_elims: "has_type env (AttributeExpressionNode attno) ty" "has_type env (ConstantExpressionNode v) ty"
  "has_type env (BoolExpressionNode es bop) ty" "has_type env (FunctionExpressionNode fc es) ty"

definition tuple_ok :: "type_env \<Rightarrow> ITuple \<Rightarrow> bool" where
  "tuple_ok env tup \<longleftrightarrow> (\<forall>attno ty. env attno = Some ty \<longrightarrow> (\<exists>v. GetAttribute tup attno = Inr v \<and> opt_datum_ok ty v))"

lemma exec_bool_total:
  assumes "list_all (\<lambda>e. \<exists>v. Exec e tup = Inr v \<and> opt_datum_ok IntT v) es"
  shows "\<exists>v. exec_bool es bop tup = Inr v \<and> opt_datum_ok IntT v"
  using assms
proof (induction es)
  case Nil
  then show ?case by (simp add: bool_datum_def)
next
  case (Cons e es)
  then show ?case by (cases bop) (auto simp: getBool_def getScalar_def bool_datum_def split: option.splits)
qed

text \<open>The argument array of a call: the values when none is NULL, an array with a NULL flag otherwise.\<close>

lemma exec_args_total:
  assumes "list_all2 (\<lambda>e ty. \<exists>v. Exec e tup = Inr v \<and> opt_datum_ok ty v) es tys"
  shows "\<exists>array. exec_args es tup a = Inr array \<and>
    (True \<in> set (da_isnull array) \<or> (\<exists>ds. list_all2 datum_ok tys ds \<and>
      array = \<lparr>da_values = da_values a @ ds, da_isnull = da_isnull a @ replicate (length ds) False, da_size = da_size a + length ds\<rparr>))
    \<and> set (da_isnull a) \<subseteq> set (da_isnull array)"
  using assms
proof (induction es tys arbitrary: a rule: list_all2_induct)
  case Nil
  then show ?case by simp
next
  case (Cons e es ty tys)
  then obtain v where v: "Exec e tup = Inr v" "opt_datum_ok ty v" by blast
  from Cons.IH [of "DatumArray_Add v a"] obtain array where arr: "exec_args es tup (DatumArray_Add v a) = Inr array"
    "True \<in> set (da_isnull array) \<or> (\<exists>ds. list_all2 datum_ok tys ds \<and>
      array = \<lparr>da_values = da_values (DatumArray_Add v a) @ ds, da_isnull = da_isnull (DatumArray_Add v a) @ replicate (length ds) False,
        da_size = da_size (DatumArray_Add v a) + length ds\<rparr>)"
    "set (da_isnull (DatumArray_Add v a)) \<subseteq> set (da_isnull array)" by blast
  show ?case
  proof (cases v)
    case None
    then have "True \<in> set (da_isnull array) \<and> set (da_isnull a) \<subseteq> set (da_isnull array)"
      using arr(3) by (simp add: DatumArray_Add_def AddNull_def)
    then show ?thesis using arr(1) v(1) by simp
  next
    case (Some d)
    then have "True \<in> set (da_isnull array) \<or> (\<exists>ds. list_all2 datum_ok (ty # tys) (d # ds) \<and>
        array = \<lparr>da_values = da_values a @ d # ds, da_isnull = da_isnull a @ replicate (length (d # ds)) False, da_size = da_size a + length (d # ds)\<rparr>)"
      using arr(2) v by (auto simp: DatumArray_Add_def AddValue_def)
    moreover have "set (da_isnull a) \<subseteq> set (da_isnull array)" using arr(3) Some by (auto simp: DatumArray_Add_def AddValue_def)
    ultimately show ?thesis using arr(1) v(1) by (intro exI [of _ array]) auto
  qed
qed

lemma typed_Exec:
  "has_type env e ty \<Longrightarrow> tuple_ok env tup \<Longrightarrow> \<exists>v. Exec e tup = Inr v \<and> opt_datum_ok ty v"
proof (induction rule: has_type.induct)
  case (attribute attno ty)
  then show ?case by (simp add: tuple_ok_def)
next
  case (literal ty v)
  then show ?case by simp
next
  case (bool es bop)
  then have "list_all (\<lambda>e. \<exists>v. Exec e tup = Inr v \<and> opt_datum_ok IntT v) es" by (auto simp: list_all_iff)
  then show ?case using exec_bool_total bool.hyps(1) by simp
next
  case (strict f tys ty es n)
  then have "list_all2 (\<lambda>e ty. \<exists>v. Exec e tup = Inr v \<and> opt_datum_ok ty v) es tys" by (auto elim!: list_all2_mono)
  from exec_args_total [OF this, of new_DatumArray] obtain array where arr: "exec_args es tup new_DatumArray = Inr array"
    "True \<in> set (da_isnull array) \<or> (\<exists>ds. list_all2 datum_ok tys ds \<and> array = of_values ds)"
    by (auto simp: new_DatumArray_def of_values_def)
  show ?case
  proof (cases "True \<in> set (da_isnull array)")
    case True
    then show ?thesis using arr(1) by simp
  next
    case False
    then show ?thesis using arr builtin.strict_call [OF strict.hyps(1)] by blast
  qed
qed

end
