(* ===== verification/Mimi_ScanLoops.thy ===== *)
theory Mimi_ScanLoops
  imports Mimi_ExecTypes
begin

text \<open>
  The loops of the plan nodes over a scan: an interface of sources of tuples that come to an end, the
  loops proved once over it, and its instance for the scan of a heap table.
\<close>

section \<open>Loops over a scan end\<close>

text \<open>
  The two loops without fuel, where not returning is \<open>None\<close>, and the interface of a source of tuples
  that comes to an end: whatever the state, a tuple returned leaves less to scan. Over such a source
  both loops return, with the result of the loop with fuel once the fuel exceeds what is left.
\<close>

partial_function (option) next_loop :: "('sc \<Rightarrow> ('s, 't option \<times> 'sc) cm) \<Rightarrow> ('t \<Rightarrow> bool res) \<Rightarrow> 'sc \<Rightarrow> 's \<Rightarrow> (('t option \<times> 'sc) res \<times> 's) option" where
  "next_loop next test sc s = (case next sc s of
     (Inl e, s1) \<Rightarrow> Some (Inl e, s1)
   | (Inr (None, sc'), s1) \<Rightarrow> Some (Inr (None, sc'), s1)
   | (Inr (Some tup, sc'), s1) \<Rightarrow> (case test tup of
       Inl e \<Rightarrow> Some (Inl e, s1)
     | Inr ok \<Rightarrow> if ok then Some (Inr (Some tup, sc'), s1) else next_loop next test sc' s1))"

partial_function (option) modify_loop :: "('sc \<Rightarrow> ('s, 't option \<times> 'sc) cm) \<Rightarrow> ('t \<Rightarrow> bool res) \<Rightarrow> ('t \<Rightarrow> ('s, unit) cm) \<Rightarrow> 'sc \<Rightarrow> int \<Rightarrow> 's \<Rightarrow> (('sc \<times> int) res \<times> 's) option" where
  "modify_loop next test act sc rows s = (case next sc s of
     (Inl e, s1) \<Rightarrow> Some (Inl e, s1)
   | (Inr (None, sc'), s1) \<Rightarrow> Some (Inr (sc', rows), s1)
   | (Inr (Some tup, sc'), s1) \<Rightarrow> (case test tup of
       Inl e \<Rightarrow> Some (Inl e, s1)
     | Inr ok \<Rightarrow> if \<not> ok then modify_loop next test act sc' rows s1
         else (case act tup s1 of
           (Inl e, s2) \<Rightarrow> Some (Inl e, s2)
         | (Inr _, s2) \<Rightarrow> modify_loop next test act sc' (rows + 1) s2)))"

locale progressing =
  fixes next_tuple :: "'sc \<Rightarrow> ('s, 't option \<times> 'sc) cm" and good :: "'sc \<Rightarrow> bool" and left :: "'sc \<Rightarrow> nat"
  assumes progress: "good sc \<Longrightarrow> next_tuple sc s = (Inr (t, sc'), s') \<Longrightarrow> good sc' \<and> (t \<noteq> None \<longrightarrow> left sc' < left sc)"
begin

lemma next_loop_returns:
  "good sc \<Longrightarrow> left sc < k \<Longrightarrow> next_loop next_tuple test sc s = Some (next_passing next_tuple test k sc s)"
proof (induction k arbitrary: sc s)
  case 0
  then show ?case by simp
next
  case (Suc k)
  show ?case
  proof (cases "\<exists>tup sc1 s1. next_tuple sc s = (Inr (Some tup, sc1), s1)")
    case True
    then obtain tup sc1 s1 where t: "next_tuple sc s = (Inr (Some tup, sc1), s1)" by blast
    then have "good sc1" "left sc1 < k" using progress [OF Suc.prems(1) t] Suc.prems(2) by auto
    from Suc.IH [OF this] show ?thesis using t
      by (cases "test tup") (simp_all add: next_loop.simps [of next_tuple test sc] bindM_def liftR_def retM_def)
  next
    case False
    then show ?thesis
      by (cases "next_tuple sc s") (auto simp: next_loop.simps [of next_tuple test sc] bindM_def retM_def split: sum.splits option.splits)
  qed
qed

lemma next_passing_progress:
  "good sc \<Longrightarrow> next_passing next_tuple test k sc s = (Inr (t, sc'), s') \<Longrightarrow> good sc' \<and> (t \<noteq> None \<longrightarrow> left sc' < left sc)"
proof (induction k arbitrary: sc s)
  case 0
  then show ?case by (simp add: raiseM_def)
next
  case (Suc k)
  then obtain t1 sc1 s1 where t: "next_tuple sc s = (Inr (t1, sc1), s1)" and r: "(case t1 of None \<Rightarrow> retM (None, sc1)
   | Some tup \<Rightarrow> bindM (liftR (test tup)) (\<lambda>ok. if ok then retM (Some tup, sc1) else next_passing next_tuple test k sc1)) s1 = (Inr (t, sc'), s')"
    unfolding next_passing.simps by (auto elim!: bindM_eq_okE)
  note p = progress [OF Suc.prems(1) t]
  show ?case
  proof (cases t1)
    case None
    then show ?thesis using r p by (auto simp: retM_def)
  next
    case (Some tup)
    then obtain ok where ok: "test tup = Inr ok" using r by (cases "test tup") (auto simp: bindM_def liftR_def)
    show ?thesis
    proof (cases ok)
      case True
      then show ?thesis using r Some ok p by (auto simp: bindM_def liftR_def retM_def)
    next
      case False
      then have "next_passing next_tuple test k sc1 s1 = (Inr (t, sc'), s')" using r Some ok by (simp add: bindM_def liftR_def)
      from Suc.IH [OF _ this] show ?thesis using p Some by auto
    qed
  qed
qed

lemma modify_loop_returns:
  "good sc \<Longrightarrow> left sc < k \<Longrightarrow> modify_loop next_tuple test act sc rows s = Some (modify_passing next_tuple test act k sc rows s)"
proof (induction k arbitrary: sc s rows)
  case 0
  then show ?case by simp
next
  case (Suc k)
  show ?case
  proof (cases "\<exists>tup sc1 s1. next_tuple sc s = (Inr (Some tup, sc1), s1)")
    case True
    then obtain tup sc1 s1 where t: "next_tuple sc s = (Inr (Some tup, sc1), s1)" by blast
    then have "good sc1" "left sc1 < k" using progress [OF Suc.prems(1) t] Suc.prems(2) by auto
    note IH = Suc.IH [OF this]
    show ?thesis using t IH
      by (cases "test tup"; cases "act tup s1")
        (auto simp: modify_loop.simps [of next_tuple test act sc] bindM_def liftR_def thenM_def split: sum.splits)
  next
    case False
    then show ?thesis
      by (cases "next_tuple sc s") (auto simp: modify_loop.simps [of next_tuple test act sc] bindM_def retM_def split: sum.splits option.splits)
  qed
qed

end

text \<open>The positions a scan has left to visit.\<close>

definition scan_good :: "HeapTableScan \<Rightarrow> bool" where
  "scan_good sc \<longleftrightarrow> hs_end sc \<or> tid_pageno (hs_tupleId sc) < hs_lastPageNumber sc"

definition scan_left :: "HeapTableScan \<Rightarrow> nat" where
  "scan_left sc = (if hs_end sc then 0
     else (unat (hs_lastPageNumber sc) - unat (tid_pageno (hs_tupleId sc))) * 65536 + (65536 - unat (tid_itemid (hs_tupleId sc))))"

lemma scan_items_index: "scan_items w sc page is s = (Inr (Some (i, t)), s') \<Longrightarrow> i \<in> set is"
proof (induction "is" arbitrary: s)
  case Nil
  then show ?case by (simp add: retM_def)
next
  case (Cons j js)
  show ?case
  proof (rule ccontr)
    assume n: "i \<notin> set (j # js)"
    then have "\<And>s. scan_items w sc page js s \<noteq> (Inr (Some (i, t)), s')" using Cons.IH by auto
    then show False using Cons.prems n
      by (auto simp: liftR_def retM_def assertM_def thenM_def elim!: bindM_eq_okE split: if_splits option.splits prod.splits)
  qed
qed

lemma finallyM_okD: "finallyM m h s = (Inr x, s') \<Longrightarrow> \<exists>s1. m s = (Inr x, s1)"
  by (auto simp: finallyM_def split: prod.splits sum.splits if_splits)

lemma GetNextTuple_okD:
  fixes s :: "'x trans_state_scheme"
  assumes "GetNextTuple w sc s = (Inr (t, sc'), s')"
  shows "hs_end sc \<and> t = None \<and> sc' = sc \<or> \<not> hs_end sc \<and> (\<exists>count found. count < 65536 \<and> t = map_option snd found \<and> sc' = scan_advance sc count found \<and>
    (\<forall>i u. found = Some (i, u) \<longrightarrow> unat (tid_itemid (hs_tupleId sc)) \<le> i \<and> i < count))"
proof (cases "hs_end sc")
  case True
  then show ?thesis using assms by (simp add: GetNextTuple_def retM_def)
next
  case False
  then obtain pin s1 where "finallyM (with_lock (bp_buffer pin) (bindM (page_of_pin pin) (\<lambda>page.
        let count = unat (ItemsCount page) in
        bindM (scan_items w sc page [unat (tid_itemid (hs_tupleId sc))..<count]) (\<lambda>found.
        retM (map_option snd found, scan_advance sc count found))))) (BufferPin_destroy pin) s1 = (Inr (t, sc'), s')"
    using assms by (auto simp: GetNextTuple_def with_pin_def elim!: bindM_eq_okE)
  from finallyM_okD [OF this] obtain s2 s3 :: "'x trans_state_scheme" where "finallyM (bindM (page_of_pin pin) (\<lambda>page.
        let count = unat (ItemsCount page) in
        bindM (scan_items w sc page [unat (tid_itemid (hs_tupleId sc))..<count]) (\<lambda>found.
        retM (map_option snd found, scan_advance sc count found)))) (Buffer_Unlock (bp_buffer pin)) s2 = (Inr (t, sc'), s3)"
    by (auto simp: with_lock_def thenM_def elim!: bindM_eq_okE)
  from finallyM_okD [OF this] obtain page found and s4 s5 :: "'x trans_state_scheme" where "scan_items w sc page [unat (tid_itemid (hs_tupleId sc))..<unat (ItemsCount page)] s4 = (Inr found, s5)"
    "(map_option snd found, scan_advance sc (unat (ItemsCount page)) found) = (t, sc')"
    by (auto simp: Let_def retM_def elim!: bindM_eq_okE)
  moreover have "unat (ItemsCount page) < 65536" using unsigned_less [of "ItemsCount page"] by simp
  ultimately show ?thesis using False scan_items_index by (intro disjI2 conjI exI [of _ "unat (ItemsCount page)"] exI [of _ found]) fastforce+
qed

interpretation heap_scan: progressing "GetNextTuple w :: HeapTableScan \<Rightarrow> ('x trans_state_scheme, HeapTuple option \<times> HeapTableScan) cm" scan_good scan_left
  for w
proof unfold_locales
  fix sc sc' t and s s' :: "'x trans_state_scheme"
  assume g: "scan_good sc" and r: "GetNextTuple w sc s = (Inr (t, sc'), s')"
  show "scan_good sc' \<and> (t \<noteq> None \<longrightarrow> scan_left sc' < scan_left sc)"
  proof (cases "hs_end sc")
    case True
    then show ?thesis using GetNextTuple_okD [OF r] g by simp
  next
    case False
    then have lt: "unat (tid_pageno (hs_tupleId sc)) < unat (hs_lastPageNumber sc)" using g by (simp add: scan_good_def word_less_nat_alt)
    obtain count found where c: "count < 65536" "t = map_option snd found" "sc' = scan_advance sc count found"
      "\<forall>i u. found = Some (i, u) \<longrightarrow> unat (tid_itemid (hs_tupleId sc)) \<le> i \<and> i < count"
      using GetNextTuple_okD [OF r] False by blast
    show ?thesis
    proof (cases found)
      case None
      then show ?thesis using c by (auto simp: scan_good_def scan_advance_def Let_def not_le)
    next
      case (Some p)
      obtain i u where p: "p = (i, u)" by (cases p)
      then have i: "unat (tid_itemid (hs_tupleId sc)) \<le> i" "i + 1 < 65536" using c Some by auto
      then have "unat (word_of_nat (i + 1) :: u16) = i + 1" by (simp only: unat_of_nat) simp
      then show ?thesis using c Some p i lt False g by (simp add: scan_good_def scan_left_def scan_advance_def)
    qed
  qed
qed

lemma BeginScan_left:
  assumes "BeginScan (StartScan tb sn) s = (Inr sc, s')"
  shows "scan_good sc \<and> scan_left sc \<le> (unat (hs_lastPageNumber sc) + 1) * 65536"
proof -
  obtain pages where "sc = (StartScan tb sn)\<lparr>hs_tupleId := \<lparr>tid_pageno = 0, tid_itemid = 0\<rparr>, hs_lastPageNumber := pages,
        hs_end := (if pages = 0 then True else hs_end (StartScan tb sn))\<rparr>"
    using assms by (auto simp: BeginScan_def thenM_def retM_def elim!: bindM_eq_okE)
  then show ?thesis by (auto simp: scan_good_def scan_left_def StartScan_def word_neq_0_conv)
qed

text \<open>
  C11. The loops of the plan nodes end: from the scan that \<open>Start\<close> opened, whatever the predicate, the
  action on each tuple and the state of the server, the loop without fuel returns, and it returns what
  the loop with fuel returns once the fuel exceeds the number of positions in the pages of the table.
\<close>

theorem scan_loops_end:
  fixes s :: "'x trans_state_scheme"
  assumes "BeginScan (StartScan tb sn) s0 = (Inr sc, s1)"
    and "(unat (hs_lastPageNumber sc) + 1) * 65536 < fuel"
  shows "next_loop (GetNextTuple w) test sc s = Some (next_passing (GetNextTuple w) test fuel sc s) \<and>
    modify_loop (GetNextTuple w) test act sc rows s = Some (modify_passing (GetNextTuple w) test act fuel sc rows s)"
  using BeginScan_left [OF assms(1)] assms(2)
  by (auto intro!: heap_scan.next_loop_returns heap_scan.modify_loop_returns)

lemma example_begin_scan:
  "BeginScan (StartScan example_table sn) example_heap = (Inr \<lparr>hs_tupleId = \<lparr>tid_pageno = 0, tid_itemid = 0\<rparr>,
     hs_lastPageNumber = 1, hs_snapshot = sn, hs_table = example_table, hs_end = False\<rparr>, example_heap)"
proof -
  have "os_files example_heap ''data/1'' = Some (Init (replicate PageSize 0))"
    by (simp add: example_heap_def example_trans_def)
  moreover have "length (Init (replicate PageSize 0)) = PageSize" using Init_wf(1) [of "replicate PageSize 0"] by (simp add: wf_page_def wf_header_def)
  moreover have "nat_to_string (Suc 0) = ''1''" by (subst nat_to_string.simps) (simp add: char_of_def bit_0)
  ultimately show ?thesis
    by (simp add: BeginScan_def StartScan_def GetPageCount_def RelFile_Open_def RelFile_GetPagesCount_def File_Open_def File_Size_def
      file_of_def rel_path_def example_table_def cm_simps PageNumber_IsValid_def PageNumber_Invalid_def PageSize_def)
qed

theorem scan_loops_end_witness:
  "\<exists>sc s1. BeginScan (StartScan example_table \<lparr>sn_CSN = 5, sn_CommandId = 0\<rparr>) example_heap = (Inr sc, s1) \<and>
    next_loop (GetNextTuple 0) (\<lambda>t. Inr True) sc s1 = Some (next_passing (GetNextTuple 0) (\<lambda>t. Inr True) 131073 sc s1)"
proof -
  let ?sn = "\<lparr>sn_CSN = 5, sn_CommandId = 0\<rparr>"
  from example_begin_scan [of ?sn] scan_loops_end [OF example_begin_scan [of ?sn], of 131073 0 "\<lambda>t. Inr True" example_heap]
  show ?thesis by auto
qed

end
