(* ===== verification/Mimi_Planner.thy ===== *)
theory Mimi_Planner
  imports Mimi_ScanLoops
begin

text \<open>
  The catalog (\<open>db/Schema.cpp\<close>, \<open>db/Database.cpp\<close>, \<open>db/catalog\<close>), the planner (\<open>planner/Planner.cpp\<close>)
  and the fixed database of \<open>setupDatabase\<close> (\<open>cluster_state.cpp\<close>). Statements have the fields of the
  parser's structures that the planner reads; a null pointer is \<open>None\<close>.
\<close>

section \<open>Catalog\<close>

datatype OperatorStrategy = Equal | NotEqual | LessStrategy | LessEq | GreaterStrategy | GreaterEq

definition TypeId_Int64 :: Oid where "TypeId_Int64 = 1"
definition TypeId_Int32 :: Oid where "TypeId_Int32 = 2"
definition TypeId_Int16 :: Oid where "TypeId_Int16 = 3"
definition TypeId_Text :: Oid where "TypeId_Text = 4"
definition MainTableId :: Oid where "MainTableId = 1"
definition TypeSizeVariable :: int where "TypeSizeVariable = - 1"

record ColumnInfo =
  ci_typeId :: Oid
  ci_name :: string
  ci_attno :: AttrNumber

record TableInfo =
  ti_oid :: Oid
  ti_descriptor :: TupleDescriptor
  ti_columns :: "ColumnInfo list"

definition new_TableInfo :: "Oid \<Rightarrow> TupleDescriptor \<Rightarrow> ColumnInfo list \<Rightarrow> TableInfo res" where
  "new_TableInfo relid descriptor columns =
     bindR (assertR ''this->_descriptor->GetMaxAttrNumber() == this->_columns.size()'' (unat (GetMaxAttrNumber descriptor) = length columns)) (\<lambda>_.
     Inr \<lparr>ti_oid = relid, ti_descriptor = descriptor, ti_columns = columns\<rparr>)"

definition FindColumn :: "string \<Rightarrow> TableInfo \<Rightarrow> ColumnInfo option" where
  "FindColumn colname info = List.find (\<lambda>col. ci_name col = colname) (ti_columns info)"

record TypeInfo =
  ty_id :: Oid
  ty_size :: int
  ty_output :: "Datum \<Rightarrow> string res"

record OperatorInfo =
  op_id :: Oid
  op_leftType :: Oid
  op_rightType :: Oid
  op_strategy :: OperatorStrategy
  op_function :: "DatumArray \<Rightarrow> Datum option res"

text \<open>The operators are given in the order in which the hash table of operators is traversed.\<close>

record Schema =
  sc_tables :: "Oid \<Rightarrow> TableInfo option"
  sc_types :: "Oid \<Rightarrow> TypeInfo option"
  sc_operators :: "(Oid \<times> OperatorInfo) list"
  sc_index :: "Oid \<times> Oid \<times> OperatorStrategy \<Rightarrow> OperatorInfo option"

definition index_operator :: "Oid \<times> OperatorInfo \<Rightarrow> (Oid \<times> Oid \<times> OperatorStrategy \<Rightarrow> OperatorInfo option) \<Rightarrow>
    Oid \<times> Oid \<times> OperatorStrategy \<Rightarrow> OperatorInfo option" where
  "index_operator named idx = (case named of (_, opinfo) \<Rightarrow>
     let key = (op_leftType opinfo, op_rightType opinfo, op_strategy opinfo) in
     (case idx key of Some _ \<Rightarrow> idx | None \<Rightarrow> idx(key \<mapsto> opinfo)))"

definition new_Schema :: "(Oid \<Rightarrow> TableInfo option) \<Rightarrow> (Oid \<Rightarrow> TypeInfo option) \<Rightarrow> (Oid \<times> OperatorInfo) list \<Rightarrow> Schema" where
  "new_Schema tables types operators =
     \<lparr>sc_tables = tables, sc_types = types, sc_operators = operators, sc_index = fold index_operator operators Map.empty\<rparr>"

definition map_get_entry :: "Oid \<Rightarrow> (Oid \<Rightarrow> 'a option) \<Rightarrow> 'a res" where
  "map_get_entry oid m = (case m oid of Some x \<Rightarrow> Inr x | None \<Rightarrow> Inl (RuntimeError ''could not find entry with provided id''))"

definition GetTableInfo :: "Schema \<Rightarrow> Oid \<Rightarrow> TableInfo res" where
  "GetTableInfo schema tableId = map_get_entry tableId (sc_tables schema)"

definition GetTypeInfo :: "Schema \<Rightarrow> Oid \<Rightarrow> TypeInfo res" where
  "GetTypeInfo schema typeId = map_get_entry typeId (sc_types schema)"

definition FindOperatorInfo :: "Schema \<Rightarrow> Oid \<Rightarrow> Oid \<Rightarrow> OperatorStrategy \<Rightarrow> OperatorInfo option" where
  "FindOperatorInfo schema leftType rightType strategy = sc_index schema (leftType, rightType, strategy)"

record Database =
  db_schema :: Schema
  db_relations :: "Oid \<Rightarrow> HeapTable option"

definition OpenTable :: "Database \<Rightarrow> Oid \<Rightarrow> HeapTable res" where
  "OpenTable db relid = bindR (assertR ''relid.IsValid()'' (relid \<noteq> Oid_Invalid)) (\<lambda>_.
     case db_relations db relid of None \<Rightarrow> Inl (Undefined ''end iterator'') | Some t \<Rightarrow> Inr t)"

section \<open>Statements\<close>

datatype ExprType = kExprLiteralFloat | kExprLiteralString | kExprLiteralInt | kExprLiteralNull | kExprLiteralDate
  | kExprLiteralInterval | kExprStar | kExprParameter | kExprColumnRef | kExprFunctionRef | kExprOperator | kExprSelect
  | kExprHint | kExprArray | kExprArrayIndex | kExprExtract | kExprCast

definition ExprType_code :: "ExprType \<Rightarrow> nat" where
  "ExprType_code t = (case t of kExprLiteralFloat \<Rightarrow> 0 | kExprLiteralString \<Rightarrow> 1 | kExprLiteralInt \<Rightarrow> 2 | kExprLiteralNull \<Rightarrow> 3
     | kExprLiteralDate \<Rightarrow> 4 | kExprLiteralInterval \<Rightarrow> 5 | kExprStar \<Rightarrow> 6 | kExprParameter \<Rightarrow> 7 | kExprColumnRef \<Rightarrow> 8
     | kExprFunctionRef \<Rightarrow> 9 | kExprOperator \<Rightarrow> 10 | kExprSelect \<Rightarrow> 11 | kExprHint \<Rightarrow> 12 | kExprArray \<Rightarrow> 13
     | kExprArrayIndex \<Rightarrow> 14 | kExprExtract \<Rightarrow> 15 | kExprCast \<Rightarrow> 16)"

datatype OperatorType = kOpEquals | kOpNotEquals | kOpLess | kOpLessEq | kOpGreater | kOpGreaterEq | kOpUnsupported nat

datatype Expr = Expr ExprType OperatorType "Expr option" "Expr option" string u64

datatype TableRefType = kTableName | kTableSelect | kTableJoin | kTableCrossProduct

record SelectStatement =
  sel_fromTable :: "TableRefType option"
  sel_selectDistinct :: bool
  sel_whereClause :: "Expr option"
  sel_groupBy :: bool
  sel_setOperations :: bool
  sel_order :: bool
  sel_limit :: bool
  sel_lockings :: bool

datatype TransactionCommand = kBeginTransaction | kCommitTransaction | kRollbackTransaction

text \<open>An INSERT has its values, or none when it has a SELECT; an UPDATE its assignments and predicate.\<close>

datatype SQLStatement =
    kStmtSelect SelectStatement
  | kStmtInsert "Expr list option"
  | kStmtUpdate "(string \<times> Expr) list" "Expr option"
  | kStmtDelete "Expr option"
  | kStmtTransaction TransactionCommand
  | kStmtOther nat

definition statement_type :: "SQLStatement \<Rightarrow> nat" where
  "statement_type st = (case st of kStmtSelect _ \<Rightarrow> 1 | kStmtInsert _ \<Rightarrow> 3 | kStmtUpdate _ _ \<Rightarrow> 4 | kStmtDelete _ \<Rightarrow> 5
     | kStmtTransaction _ \<Rightarrow> 14 | kStmtOther n \<Rightarrow> n)"

section \<open>Planner\<close>

definition map_op_strategy :: "OperatorType \<Rightarrow> OperatorStrategy res" where
  "map_op_strategy ty = (case ty of kOpEquals \<Rightarrow> Inr Equal | kOpNotEquals \<Rightarrow> Inr NotEqual | kOpLess \<Rightarrow> Inr LessStrategy
     | kOpLessEq \<Rightarrow> Inr LessEq | kOpGreater \<Rightarrow> Inr GreaterStrategy | kOpGreaterEq \<Rightarrow> Inr GreaterEq
     | kOpUnsupported _ \<Rightarrow> Inl (RuntimeError ''Operator is not supported''))"

text \<open>The column loop: the number of the first column with the name, and whether there is one.\<close>

primrec find_attno :: "string \<Rightarrow> AttrNumber \<Rightarrow> ColumnInfo list \<Rightarrow> AttrNumber option" where
  "find_attno name attno [] = None"
| "find_attno name attno (col # cols) = (if ci_name col = name then Some attno else find_attno name (attno + 1) cols)"

definition parse_column :: "Schema \<Rightarrow> string \<Rightarrow> IExpressionNode res" where
  "parse_column schema name =
     bindR (GetTableInfo schema MainTableId) (\<lambda>tableInfo.
     case find_attno name 1 (ti_columns tableInfo) of
       None \<Rightarrow> Inl (RuntimeError (''could not find column: '' @ name))
     | Some attno \<Rightarrow> bindR (assertR ''attno <= tableInfo->GetDescriptor()->GetMaxAttrNumber()''
           (attno \<le> GetMaxAttrNumber (ti_descriptor tableInfo))) (\<lambda>_. Inr (AttributeExpressionNode attno)))"

definition make_operator :: "Schema \<Rightarrow> OperatorStrategy \<Rightarrow> IExpressionNode \<Rightarrow> IExpressionNode \<Rightarrow> IExpressionNode res" where
  "make_operator schema strategy l r = (case FindOperatorInfo schema TypeId_Int32 TypeId_Int32 strategy of
     None \<Rightarrow> Inl (RuntimeError ''Could not find operator'')
   | Some info \<Rightarrow> Inr (FunctionExpressionNode \<lparr>fc_function = op_function info, fc_strict = True, fc_nargs = 2\<rparr> [l, r]))"

fun parse_expr :: "Schema \<Rightarrow> Expr \<Rightarrow> IExpressionNode res" where
  "parse_expr schema (Expr ty opType e1 e2 name ival) =
     (if ty = kExprOperator then
        bindR (map_op_strategy opType) (\<lambda>strategy.
        bindR (case e1 of None \<Rightarrow> Inl (Undefined ''null expr'') | Some e \<Rightarrow> parse_expr schema e) (\<lambda>l.
        bindR (case e2 of None \<Rightarrow> Inl (Undefined ''null expr2'') | Some e \<Rightarrow> parse_expr schema e) (\<lambda>r.
        make_operator schema strategy l r)))
      else if ty = kExprLiteralInt then Inr (ConstantExpressionNode (Some (Scalar ival)))
      else if ty = kExprLiteralNull then Inr (ConstantExpressionNode None)
      else if ty = kExprColumnRef then parse_column schema name
      else Inl (RuntimeError (''expression is not supported: '' @ nat_to_string (ExprType_code ty))))"

definition parse_where :: "Schema \<Rightarrow> Expr option \<Rightarrow> IExpressionNode option res" where
  "parse_where schema w = (case w of None \<Rightarrow> Inr None | Some e \<Rightarrow> bindR (parse_expr schema e) (\<lambda>x. Inr (Some x)))"

definition not_supported :: "bool \<Rightarrow> string \<Rightarrow> unit res" where
  "not_supported present what = (if present then Inl (RuntimeError (what @ '' is not supported'')) else Inr ())"

definition plan_select :: "Database \<Rightarrow> SelectStatement \<Rightarrow> PlanNode res" where
  "plan_select db stmt =
     bindR (not_supported (sel_groupBy stmt) ''GROUP BY'') (\<lambda>_.
     bindR (not_supported (sel_limit stmt) ''LIMIT'') (\<lambda>_.
     bindR (not_supported (sel_order stmt) ''ORDER BY'') (\<lambda>_.
     bindR (not_supported (sel_lockings stmt) ''LOCKING'') (\<lambda>_.
     bindR (not_supported (sel_setOperations stmt) ''SET OPERATION'') (\<lambda>_.
     bindR (not_supported (sel_selectDistinct stmt) ''DISTINCT'') (\<lambda>_.
     bindR (case sel_fromTable stmt of
         None \<Rightarrow> Inl (Undefined ''null fromTable'')
       | Some kTableName \<Rightarrow> Inr ()
       | Some kTableSelect \<Rightarrow> Inl (RuntimeError ''subquery is not supported'')
       | Some kTableJoin \<Rightarrow> Inl (RuntimeError ''JOIN is not supported'')
       | Some kTableCrossProduct \<Rightarrow> Inl (RuntimeError ''JOIN is not supported'')) (\<lambda>_.
     bindR (OpenTable db MainTableId) (\<lambda>table.
     bindR (parse_where (db_schema db) (sel_whereClause stmt)) (\<lambda>qual.
     Inr (new_SeqScan table qual))))))))))"

text \<open>One value of an INSERT. The type test of the source is a disjunction of three inequations.\<close>

definition insert_value :: "TupleDescriptor \<Rightarrow> Expr list \<Rightarrow> AttrNumber \<Rightarrow> DatumArray \<Rightarrow> DatumArray res" where
  "insert_value desc values attno arrays =
     bindR (ToIndex attno) (\<lambda>idx.
     bindR (vec_at desc idx) (\<lambda>attDesc.
     bindR (if \<not> (ad_typeId attDesc \<noteq> TypeId_Int16 \<or> ad_typeId attDesc \<noteq> TypeId_Int32 \<or> ad_typeId attDesc \<noteq> TypeId_Int64)
       then Inl (RuntimeError ''only int types are supported by planner for now'') else Inr ()) (\<lambda>_.
     bindR (if idx < length values then Inr (values ! idx) else Inl (LogicError ''vector::_M_range_check'')) (\<lambda>value.
     case value of Expr ty _ _ _ _ ival \<Rightarrow>
       if ty = kExprLiteralInt then Inr (AddValue (Scalar ival) arrays)
       else if ty = kExprLiteralNull then Inr (AddNull arrays)
       else Inl (RuntimeError ''Expression in INSERT is not supported type'')))))"

definition plan_insert :: "Database \<Rightarrow> Expr list option \<Rightarrow> PlanNode res" where
  "plan_insert db stmt =
     bindR (GetTableInfo (db_schema db) MainTableId) (\<lambda>info.
     let desc = ti_descriptor info in
     bindR (case stmt of None \<Rightarrow> Inl (Undefined ''null values'') | Some vs \<Rightarrow> Inr vs) (\<lambda>values.
     if length values \<noteq> unat (GetMaxAttrNumber desc)
     then Inl (RuntimeError ''INSERT attributes and table descriptor are not the same size'')
     else bindR (foldR (insert_value desc values) (attr_nums (GetMaxAttrNumber desc)) new_DatumArray) (\<lambda>arrays.
       case Decompose arrays of (vals, isnull) \<Rightarrow>
       bindR (OpenTable db MainTableId) (\<lambda>table. Inr (new_InsertNode table [VirtualTuple vals isnull])))))"

definition plan_update :: "Database \<Rightarrow> (string \<times> Expr) list \<Rightarrow> Expr option \<Rightarrow> PlanNode res" where
  "plan_update db updates w =
     bindR (OpenTable db MainTableId) (\<lambda>table.
     bindR (GetTableInfo (db_schema db) MainTableId) (\<lambda>info.
     bindR (foldR (\<lambda>(colname, value) acc. case FindColumn colname info of
         None \<Rightarrow> Inl (RuntimeError (''could not find column: '' @ colname))
       | Some colinfo \<Rightarrow> bindR (parse_expr (db_schema db) value) (\<lambda>e. Inr (acc @ [(ci_attno colinfo, e)]))) updates []) (\<lambda>ups.
     bindR (parse_where (db_schema db) w) (\<lambda>qual. new_UpdateNode table qual ups))))"

definition plan_delete :: "Database \<Rightarrow> Expr option \<Rightarrow> PlanNode res" where
  "plan_delete db w =
     bindR (OpenTable db MainTableId) (\<lambda>table.
     bindR (parse_where (db_schema db) w) (\<lambda>qual. new_DeleteNode table qual))"

definition IsPlannableStatement :: "SQLStatement \<Rightarrow> bool" where
  "IsPlannableStatement st = (case st of kStmtSelect _ \<Rightarrow> True | kStmtInsert _ \<Rightarrow> True | kStmtUpdate _ _ \<Rightarrow> True | kStmtDelete _ \<Rightarrow> True
     | kStmtTransaction _ \<Rightarrow> False | kStmtOther _ \<Rightarrow> False)"

record PlannedStmt =
  ps_plan :: PlanNode
  ps_tag :: CommandTag

definition Plan :: "Database \<Rightarrow> SQLStatement \<Rightarrow> PlannedStmt res" where
  "Plan db st = bindR (assertR ''IsPlannableStatement(statement)'' (IsPlannableStatement st)) (\<lambda>_.
     case st of
       kStmtSelect stmt \<Rightarrow> bindR (plan_select db stmt) (\<lambda>n. Inr \<lparr>ps_plan = n, ps_tag = SelectTag\<rparr>)
     | kStmtInsert stmt \<Rightarrow> bindR (plan_insert db stmt) (\<lambda>n. Inr \<lparr>ps_plan = n, ps_tag = InsertTag\<rparr>)
     | kStmtUpdate ups w \<Rightarrow> bindR (plan_update db ups w) (\<lambda>n. Inr \<lparr>ps_plan = n, ps_tag = UpdateTag\<rparr>)
     | kStmtDelete w \<Rightarrow> bindR (plan_delete db w) (\<lambda>n. Inr \<lparr>ps_plan = n, ps_tag = DeleteTag\<rparr>)
     | kStmtTransaction _ \<Rightarrow> Inl (RuntimeError ''TCL must not reach here'')
     | kStmtOther n \<Rightarrow> Inl (RuntimeError (''statement is not supported: '' @ nat_to_string n)))"

section \<open>The fixed database\<close>

definition main_descriptor :: TupleDescriptor where
  "main_descriptor = [\<lparr>ad_typeId = TypeId_Int32, ad_length = 4, ad_byVal = True\<rparr>, \<lparr>ad_typeId = TypeId_Int16, ad_length = 2, ad_byVal = True\<rparr>]"

definition main_columns :: "ColumnInfo list" where
  "main_columns = [\<lparr>ci_typeId = TypeId_Int32, ci_name = ''a'', ci_attno = 1\<rparr>, \<lparr>ci_typeId = TypeId_Int16, ci_name = ''b'', ci_attno = 1 + 1\<rparr>]"

definition builtin_types :: "Oid \<Rightarrow> TypeInfo option" where
  "builtin_types = [TypeId_Int16 \<mapsto> \<lparr>ty_id = TypeId_Int16, ty_size = 2, ty_output = Int16Output\<rparr>,
     TypeId_Int32 \<mapsto> \<lparr>ty_id = TypeId_Int32, ty_size = 4, ty_output = Int32Output\<rparr>,
     TypeId_Int64 \<mapsto> \<lparr>ty_id = TypeId_Int64, ty_size = 8, ty_output = Int64Output\<rparr>,
     TypeId_Text \<mapsto> \<lparr>ty_id = TypeId_Text, ty_size = TypeSizeVariable, ty_output = TextOutput\<rparr>]"

definition equality :: "Oid \<Rightarrow> Oid \<Rightarrow> (DatumArray \<Rightarrow> Datum option res) \<Rightarrow> Oid \<times> OperatorInfo" where
  "equality opid typid func = (opid, \<lparr>op_id = opid, op_leftType = typid, op_rightType = typid, op_strategy = Equal, op_function = func\<rparr>)"

definition builtin_operators :: "(Oid \<times> OperatorInfo) list" where
  "builtin_operators = [equality 1 TypeId_Int16 Int16Eq, equality 2 TypeId_Int32 Int32Eq, equality 3 TypeId_Int64 Int64Eq, equality 4 TypeId_Text TextEq]"

definition setupDatabase :: "Database res" where
  "setupDatabase = (let table = \<lparr>tb_tableId = MainTableId, tb_descriptor = main_descriptor\<rparr> in
     bindR (new_TableInfo MainTableId (tb_descriptor table) main_columns) (\<lambda>info.
     Inr \<lparr>db_schema = new_Schema [MainTableId \<mapsto> info] builtin_types builtin_operators, db_relations = [MainTableId \<mapsto> table]\<rparr>))"

end
