(* ===== verification/Mimi_Planning.thy ===== *)
theory Mimi_Planning
  imports Mimi_Planner
begin

unbundle bit_operations_syntax

text \<open>
  What the planner builds over the fixed database: well-typed expressions, and the tuple of an INSERT.
\<close>

section \<open>What the planner builds\<close>

definition main_env :: type_env where
  "main_env attno = (if attno = 1 \<or> attno = 2 then Some IntT else None)"

definition main_database :: Database where
  "main_database = \<lparr>db_schema = new_Schema [MainTableId \<mapsto> \<lparr>ti_oid = MainTableId, ti_descriptor = main_descriptor, ti_columns = main_columns\<rparr>] builtin_types builtin_operators,
     db_relations = [MainTableId \<mapsto> \<lparr>tb_tableId = MainTableId, tb_descriptor = main_descriptor\<rparr>]\<rparr>"

lemma setupDatabase_eq: "setupDatabase = Inr main_database"
  by (simp add: setupDatabase_def new_TableInfo_def main_database_def main_descriptor_def main_columns_def GetMaxAttrNumber_def)

lemma main_operator: "FindOperatorInfo (db_schema main_database) TypeId_Int32 TypeId_Int32 strategy = Some info \<Longrightarrow> op_function info = Int32Eq"
  by (auto simp: FindOperatorInfo_def main_database_def new_Schema_def builtin_operators_def index_operator_def equality_def
      TypeId_Int16_def TypeId_Int32_def TypeId_Int64_def TypeId_Text_def split: if_splits)

lemma main_max: "GetMaxAttrNumber main_descriptor = 2"
  by (simp add: GetMaxAttrNumber_def main_descriptor_def)

lemma main_table_info: "GetTableInfo (db_schema main_database) MainTableId = Inr \<lparr>ti_oid = MainTableId, ti_descriptor = main_descriptor, ti_columns = main_columns\<rparr>"
  by (simp add: GetTableInfo_def map_get_entry_def main_database_def new_Schema_def)

lemma main_open: "OpenTable main_database MainTableId = Inr \<lparr>tb_tableId = MainTableId, tb_descriptor = main_descriptor\<rparr>"
  by (simp add: OpenTable_def main_database_def MainTableId_def Oid_Invalid_def)

lemma main_column: "parse_column (db_schema main_database) name = Inr x \<Longrightarrow> has_type main_env x IntT"
  by (auto simp: parse_column_def main_table_info main_columns_def main_env_def main_max bindR_eq_Inr_iff intro!: has_type.attribute split: if_splits)

lemma parse_expr_typed:
  assumes ops: "\<And>strategy info. FindOperatorInfo schema TypeId_Int32 TypeId_Int32 strategy = Some info \<Longrightarrow> builtin (op_function info) [IntT, IntT] IntT"
    and cols: "\<And>name x. parse_column schema name = Inr x \<Longrightarrow> has_type env x IntT"
  shows "parse_expr schema e = Inr x \<Longrightarrow> has_type env x IntT"
  using ops cols
proof (induction schema e arbitrary: x rule: parse_expr.induct)
  case (1 schema ty opType e1 e2 name ival)
  show ?case
  proof (cases "ty = kExprOperator")
    case True
    then obtain strategy l r where s: "map_op_strategy opType = Inr strategy" and
      l: "(case e1 of None \<Rightarrow> Inl (Undefined ''null expr'') | Some e \<Rightarrow> parse_expr schema e) = Inr l" and
      r: "(case e2 of None \<Rightarrow> Inl (Undefined ''null expr2'') | Some e \<Rightarrow> parse_expr schema e) = Inr r" and
      m: "make_operator schema strategy l r = Inr x"
      using 1(3) by (auto simp: bindR_eq_Inr_iff)
    have "has_type env l IntT" using l 1(1) [OF True] 1(4,5) by (auto split: option.splits)
    moreover have "has_type env r IntT" using r 1(2) [OF True] 1(4,5) by (auto split: option.splits)
    moreover obtain info where "FindOperatorInfo schema TypeId_Int32 TypeId_Int32 strategy = Some info"
      "x = FunctionExpressionNode \<lparr>fc_function = op_function info, fc_strict = True, fc_nargs = 2\<rparr> [l, r]"
      using m by (auto simp: make_operator_def split: option.splits)
    ultimately show ?thesis using 1(4) by (auto intro!: has_type.strict)
  next
    case False
    then show ?thesis using 1(3,5) by (auto split: if_splits intro!: has_type.literal)
  qed
qed

lemma main_typed: "parse_expr (db_schema main_database) e = Inr x \<Longrightarrow> has_type main_env x IntT"
  by (rule parse_expr_typed) (use main_operator main_column int32_eq.builtin_axioms in fastforce)+

text \<open>Tuples of the table: two scalar columns.\<close>

lemma main_tuple_ok:
  assumes "length (hpt_values (hp_tuple t)) = 2" "length (hpt_isnull (hp_tuple t)) = 2" "\<forall>d\<in>set (hpt_values (hp_tuple t)). \<exists>v. d = Scalar v"
    and "hp_descriptor t = main_descriptor"
  shows "tuple_ok main_env (HeapITuple t)"
proof -
  have "\<exists>v. GetAttribute (HeapITuple t) attno = Inr v \<and> opt_datum_ok IntT v" if a: "attno = 1 \<or> attno = 2" for attno
  proof -
    have "unat attno - 1 < 2" "attno \<noteq> 0" "attno \<le> 2" using a by (auto simp: word_le_nat_alt)
    then show ?thesis using assms nth_mem [of "unat attno - 1" "hpt_values (hp_tuple t)"]
      by (auto simp: GetAttribute_def HeapTuple_GetAttribute_def VirtualTuple_Get_def main_max not_less)
  qed
  then show ?thesis by (auto simp: tuple_ok_def main_env_def split: if_splits)
qed

text \<open>The tuple of a planned INSERT: each integer literal as it is, each NULL as a flag.\<close>

definition literal_value :: "Expr \<Rightarrow> Datum option" where
  "literal_value e = (case e of Expr ty _ _ _ _ ival \<Rightarrow> if ty = kExprLiteralInt then Some (Scalar ival) else None)"

definition is_literal :: "Expr \<Rightarrow> bool" where
  "is_literal e = (case e of Expr ty _ _ _ _ _ \<Rightarrow> ty = kExprLiteralInt \<or> ty = kExprLiteralNull)"

lemma insert_value_literal:
  "idx < length values \<Longrightarrow> idx < length desc \<Longrightarrow> idx < 65534 \<Longrightarrow> is_literal (values ! idx) \<Longrightarrow>
    insert_value desc values (word_of_nat (Suc idx)) a = Inr (DatumArray_Add (literal_value (values ! idx)) a)"
proof -
  assume a: "idx < length values" "idx < length desc" "idx < 65534" "is_literal (values ! idx)"
  have "ToIndex (word_of_nat (Suc idx)) = Inr idx" using a(3) by (subst ToIndex_ok) (auto simp: unat_of_nat word_unat_eq_iff simp del: of_nat_Suc)
  moreover have "TypeId_Int16 \<noteq> TypeId_Int32" by (simp add: TypeId_Int16_def TypeId_Int32_def)
  ultimately show ?thesis using a
    by (cases "values ! idx") (auto simp: insert_value_def is_literal_def literal_value_def DatumArray_Add_def simp del: of_nat_Suc)
qed

lemma plan_insert_main:
  assumes v: "length vs = 2" "list_all is_literal vs"
  shows "plan_insert main_database (Some vs) = Inr (InsertNode \<lparr>tb_tableId = MainTableId, tb_descriptor = main_descriptor\<rparr>
      [VirtualTuple (map (\<lambda>e. case literal_value e of None \<Rightarrow> Scalar 0 | Some d \<Rightarrow> d) vs) (map (\<lambda>e. literal_value e = None) vs)] 0)"
proof -
  obtain a b where vs: "vs = [a, b]" "is_literal a" "is_literal b" using v by (auto simp: length_Suc_conv numeral_2_eq_2)
  have nums: "attr_nums 2 = [word_of_nat (Suc 0), word_of_nat (Suc 1)]" using attr_nums_small [of 2] by (simp add: upt_conv_Cons)
  have "insert_value main_descriptor [a, b] (word_of_nat (Suc 0)) x = Inr (DatumArray_Add (literal_value a) x)"
    "insert_value main_descriptor [a, b] (word_of_nat (Suc 1)) x = Inr (DatumArray_Add (literal_value b) x)" for x
    using insert_value_literal [of 0 "[a, b]" main_descriptor x] insert_value_literal [of 1 "[a, b]" main_descriptor x] vs
    by (simp_all add: main_descriptor_def del: of_nat_Suc)
  then have "foldR (insert_value main_descriptor [a, b]) (attr_nums 2) new_DatumArray =
      Inr (DatumArray_Add (literal_value b) (DatumArray_Add (literal_value a) new_DatumArray))"
    by (simp add: nums del: of_nat_Suc)
  then show ?thesis using vs(1)
    by (simp add: plan_insert_def main_table_info main_open main_max Decompose_def new_InsertNode_def DatumArray_Add_def AddValue_def AddNull_def
      new_DatumArray_def split: option.splits)
qed

lemma main_storable:
  assumes "length values = 2" "length isnull = 2" "\<forall>d\<in>set values. \<exists>v. d = Scalar v"
  shows "wf_tuple main_descriptor values isnull"
proof -
  have "wf_attr (main_descriptor ! i) (values ! i)" if i: "i < 2" for i
  proof -
    obtain v where "values ! i = Scalar v" using assms i by force
    then show ?thesis using i by (auto simp: wf_attr_def main_descriptor_def less_2_cases_iff)
  qed
  then show ?thesis using assms by (simp add: wf_tuple_def main_descriptor_def)
qed

text \<open>
  C12. Typed expressions: every expression that the planner builds from a statement over the database of
  \<open>setupDatabase\<close> evaluates, on every tuple of the table, to NULL or to an integer, and the tuple either
  passes the predicate or does not: no exception, no missing attribute, no pointer read as an integer.
\<close>

theorem planned_expressions_total:
  assumes "setupDatabase = Inr db" and "parse_expr (db_schema db) e = Inr x"
    and "hp_descriptor t = main_descriptor" and "hpt_values (hp_tuple t) = [Scalar a, Scalar b]" and "hpt_isnull (hp_tuple t) = [na, nb]"
  shows "(\<exists>v. Exec x (HeapITuple t) = Inr v \<and> v \<in> {None} \<union> range (Some \<circ> Scalar)) \<and> (\<exists>b. qual_passes (Some x) t = Inr b) \<and> (\<exists>b. ExecQual x (HeapITuple t) = Inr b)"
proof -
  have "has_type main_env x IntT" using assms(1,2) by (simp add: setupDatabase_eq main_typed)
  moreover have "tuple_ok main_env (HeapITuple t)" using assms(3,4,5) by (intro main_tuple_ok) simp_all
  ultimately obtain v where v: "Exec x (HeapITuple t) = Inr v" "opt_datum_ok IntT v" using typed_Exec by blast
  show ?thesis
  proof (cases v)
    case None
    then show ?thesis using v by (auto simp: qual_passes_def ExecQual_def)
  next
    case (Some d)
    then show ?thesis using v by (auto simp: qual_passes_def ExecQual_def getBool_def getScalar_def)
  qed
qed

definition example_row :: HeapTuple where
  "example_row = \<lparr>hp_descriptor = main_descriptor, hp_tuple = \<lparr>hpt_header = \<lparr>th_xid = 1, th_undo = 0, th_flags = 0\<rparr>,
     hpt_values = [Scalar 5, Scalar 7], hpt_isnull = [False, False]\<rparr>, hp_tid = \<lparr>tid_pageno = 0, tid_itemid = 0\<rparr>\<rparr>"

theorem planned_expressions_total_witness:
  "\<exists>x b. parse_expr (db_schema main_database) (Expr kExprOperator kOpEquals (Some (Expr kExprColumnRef kOpEquals None None ''b'' 0))
      (Some (Expr kExprLiteralInt kOpEquals None None [] 7)) [] 0) = Inr x \<and> qual_passes (Some x) example_row = Inr b"
proof -
  let ?e = "Expr kExprOperator kOpEquals (Some (Expr kExprColumnRef kOpEquals None None ''b'' 0)) (Some (Expr kExprLiteralInt kOpEquals None None [] 7)) [] 0"
  have "\<exists>info. FindOperatorInfo (db_schema main_database) TypeId_Int32 TypeId_Int32 Equal = Some info"
    by (simp add: FindOperatorInfo_def main_database_def new_Schema_def builtin_operators_def index_operator_def equality_def
      TypeId_Int16_def TypeId_Int32_def TypeId_Int64_def TypeId_Text_def)
  then obtain x where x: "parse_expr (db_schema main_database) ?e = Inr x"
    by (auto simp: map_op_strategy_def parse_column_def main_table_info main_columns_def main_max make_operator_def)
  from planned_expressions_total [OF setupDatabase_eq x, of example_row 5 7 False False] x
  show ?thesis by (auto simp: example_row_def)
qed

end
