(* ===== verification/Mimi_Network.thy ===== *)
theory Mimi_Network
  imports Mimi_Prelude
begin

text \<open>
  The wire protocol of libmimi: \<open>NetworkWriter\<close> and \<open>NetworkReader\<close> (bounds-checked
  cursors over a byte buffer, integers in network order), the five packets of
  \<open>packets/\<close>, their serialisation (\<open>serialization.cpp\<close>) and the socket loops of
  \<open>MimiClient\<close>. A packet round trip is proved across any segmentation of the byte stream.
  \<open>size_t\<close> quantities are \<open>nat\<close>; fields written to the wire keep their width.
\<close>

section \<open>NetworkWriter\<close>

record writer =
  wbuf :: "byte list"
  wpos :: nat
  wmax :: nat

definition new_writer :: "byte list \<Rightarrow> writer" where
  "new_writer buf = \<lparr>wbuf = buf, wpos = 0, wmax = length buf\<rparr>"

definition w_checkBufferSize :: "nat \<Rightarrow> writer \<Rightarrow> unit res" where
  "w_checkBufferSize delta w =
     (if wmax w < wpos w + delta then Inl (RuntimeError ''could not write past buffer borders'')
      else Inr ())"

definition WriteBuffer :: "byte list \<Rightarrow> writer \<Rightarrow> writer res" where
  "WriteBuffer bs w = bindR (w_checkBufferSize (length bs) w)
     (\<lambda>_. Inr (w\<lparr>wbuf := poke (wbuf w) (wpos w) bs, wpos := wpos w + length bs\<rparr>))"

definition WriteUint8 :: "byte \<Rightarrow> writer \<Rightarrow> writer res" where
  "WriteUint8 v w = bindR (w_checkBufferSize 1 w)
     (\<lambda>_. Inr (w\<lparr>wbuf := poke (wbuf w) (wpos w) [v], wpos := wpos w + 1\<rparr>))"

definition WriteInt8 :: "byte \<Rightarrow> writer \<Rightarrow> writer res" where
  "WriteInt8 v w = bindR (w_checkBufferSize 1 w)
     (\<lambda>_. Inr (w\<lparr>wbuf := poke (wbuf w) (wpos w) [v], wpos := wpos w + 1\<rparr>))"

definition WriteUint32 :: "u32 \<Rightarrow> writer \<Rightarrow> writer res" where
  "WriteUint32 v w = bindR (w_checkBufferSize 4 w)
     (\<lambda>_. Inr (w\<lparr>wbuf := poke (wbuf w) (wpos w) (be_of_nat 4 (unat v)), wpos := wpos w + 4\<rparr>))"

definition WriteInt32 :: "u32 \<Rightarrow> writer \<Rightarrow> writer res" where
  "WriteInt32 v w = bindR (w_checkBufferSize 4 w)
     (\<lambda>_. Inr (w\<lparr>wbuf := poke (wbuf w) (wpos w) (be_of_nat 4 (unat v)), wpos := wpos w + 4\<rparr>))"

definition WriteInt64 :: "u64 \<Rightarrow> writer \<Rightarrow> writer res" where
  "WriteInt64 v w = bindR (w_checkBufferSize 8 w)
     (\<lambda>_. Inr (w\<lparr>wbuf := poke (wbuf w) (wpos w) (be_of_nat 8 (unat v)), wpos := wpos w + 8\<rparr>))"

definition WriteString :: "string \<Rightarrow> writer \<Rightarrow> writer res" where
  "WriteString s w = bindR (WriteUint32 (word_of_nat (length s)) w)
     (WriteBuffer (bytes_of_string s))"

section \<open>NetworkReader\<close>

record reader =
  rbuf :: "byte list"
  rpos :: nat
  rmax :: nat

definition new_reader :: "byte list \<Rightarrow> reader" where
  "new_reader buf = \<lparr>rbuf = buf, rpos = 0, rmax = length buf\<rparr>"

definition r_checkBufferSize :: "nat \<Rightarrow> reader \<Rightarrow> unit res" where
  "r_checkBufferSize delta r =
     (if rmax r < rpos r + delta then Inl (RuntimeError ''could not read past buffer borders'')
      else Inr ())"

definition ReadBuffer :: "nat \<Rightarrow> reader \<Rightarrow> (byte list \<times> reader) res" where
  "ReadBuffer len r = bindR (r_checkBufferSize len r)
     (\<lambda>_. Inr (peek (rbuf r) (rpos r) len, r\<lparr>rpos := rpos r + len\<rparr>))"

definition ReadUint8 :: "reader \<Rightarrow> (byte \<times> reader) res" where
  "ReadUint8 r = bindR (r_checkBufferSize 1 r)
     (\<lambda>_. Inr (word_of_nat (nat_of_be (peek (rbuf r) (rpos r) 1)), r\<lparr>rpos := rpos r + 1\<rparr>))"

definition ReadInt8 :: "reader \<Rightarrow> (byte \<times> reader) res" where
  "ReadInt8 r = bindR (r_checkBufferSize 1 r)
     (\<lambda>_. Inr (word_of_nat (nat_of_be (peek (rbuf r) (rpos r) 1)), r\<lparr>rpos := rpos r + 1\<rparr>))"

definition ReadUint32 :: "reader \<Rightarrow> (u32 \<times> reader) res" where
  "ReadUint32 r = bindR (r_checkBufferSize 4 r)
     (\<lambda>_. Inr (word_of_nat (nat_of_be (peek (rbuf r) (rpos r) 4)), r\<lparr>rpos := rpos r + 4\<rparr>))"

definition ReadInt32 :: "reader \<Rightarrow> (u32 \<times> reader) res" where
  "ReadInt32 r = bindR (r_checkBufferSize 4 r)
     (\<lambda>_. Inr (word_of_nat (nat_of_be (peek (rbuf r) (rpos r) 4)), r\<lparr>rpos := rpos r + 4\<rparr>))"

definition ReadInt64 :: "reader \<Rightarrow> (u64 \<times> reader) res" where
  "ReadInt64 r = bindR (r_checkBufferSize 8 r)
     (\<lambda>_. Inr (word_of_nat (nat_of_be (peek (rbuf r) (rpos r) 8)), r\<lparr>rpos := rpos r + 8\<rparr>))"

definition ReadString :: "reader \<Rightarrow> (string \<times> reader) res" where
  "ReadString r = bindR (ReadUint32 r) (\<lambda>(len, r1).
     bindR (ReadBuffer (unat len) r1) (\<lambda>(bs, r2). Inr (string_of_bytes bs, r2)))"

section \<open>Packets\<close>

datatype packet_type = Query | CommandComplete | TupleDescription | DataRow | ErrorResponse

fun packet_type_code :: "packet_type \<Rightarrow> byte" where
  "packet_type_code Query = 0x51"
| "packet_type_code CommandComplete = 0x43"
| "packet_type_code TupleDescription = 0x54"
| "packet_type_code DataRow = 0x44"
| "packet_type_code ErrorResponse = 0x45"

datatype packet =
    QueryPacket string
  | CommandCompletePacket string u64
  | TupleDescriptionPacket "string list"
  | DataRowPacket "string option list"
  | ErrorResponsePacket string

fun packet_Type :: "packet \<Rightarrow> packet_type" where
  "packet_Type (QueryPacket _) = Query"
| "packet_Type (CommandCompletePacket _ _) = CommandComplete"
| "packet_Type (TupleDescriptionPacket _) = TupleDescription"
| "packet_Type (DataRowPacket _) = DataRow"
| "packet_Type (ErrorResponsePacket _) = ErrorResponse"

section \<open>Serialisation\<close>

definition getStringSize :: "string \<Rightarrow> nat" where
  "getStringSize s = 4 + length s"

fun value_size :: "string option \<Rightarrow> nat" where
  "value_size (Some s) = 4 + length s"
| "value_size None = 4"

fun calculate_payload_size :: "packet \<Rightarrow> nat" where
  "calculate_payload_size (QueryPacket q) = getStringSize q"
| "calculate_payload_size (TupleDescriptionPacket attrs) =
     4 + sum_list (map getStringSize attrs)"
| "calculate_payload_size (DataRowPacket vals) = 4 + sum_list (map value_size vals)"
| "calculate_payload_size (ErrorResponsePacket m) = getStringSize m"
| "calculate_payload_size (CommandCompletePacket tag rows) = getStringSize tag + 8"

definition visit_base :: "packet \<Rightarrow> writer res" where
  "visit_base p =
     (let size = calculate_payload_size p;
          buffer = replicate (size + 1 + 4) 0
      in bindR (WriteUint8 (packet_type_code (packet_Type p)) (new_writer buffer))
           (WriteUint32 (word_of_nat (size + 4))))"

fun write_each :: "('a \<Rightarrow> writer \<Rightarrow> writer res) \<Rightarrow> 'a list \<Rightarrow> writer \<Rightarrow> writer res" where
  "write_each f [] w = Inr w"
| "write_each f (x # xs) w = bindR (f x w) (write_each f xs)"

fun write_value :: "string option \<Rightarrow> writer \<Rightarrow> writer res" where
  "write_value None w = WriteUint32 (-1) w"
| "write_value (Some v) w = bindR (WriteString v w) (\<lambda>w'.
     bindR (assertR ''val.size() != -1'' ((word_of_nat (length v) :: u32) \<noteq> -1)) (\<lambda>_. Inr w'))"

fun visit_body :: "packet \<Rightarrow> writer \<Rightarrow> writer res" where
  "visit_body (QueryPacket q) w = WriteString q w"
| "visit_body (TupleDescriptionPacket attrs) w =
     bindR (WriteUint32 (word_of_nat (length attrs)) w) (write_each WriteString attrs)"
| "visit_body (DataRowPacket vals) w =
     bindR (WriteUint32 (word_of_nat (length vals)) w) (write_each write_value vals)"
| "visit_body (ErrorResponsePacket m) w = WriteString m w"
| "visit_body (CommandCompletePacket tag rows) w = bindR (WriteString tag w) (WriteInt64 rows)"

definition serialize_packet :: "packet \<Rightarrow> byte list res" where
  "serialize_packet p = bindR (visit_base p) (\<lambda>w. bindR (visit_body p w) (\<lambda>w'. Inr (wbuf w')))"

section \<open>Deserialisation\<close>

fun read_each :: "nat \<Rightarrow> (reader \<Rightarrow> ('a \<times> reader) res) \<Rightarrow> reader \<Rightarrow> ('a list \<times> reader) res" where
  "read_each 0 f r = Inr ([], r)"
| "read_each (Suc n) f r = bindR (f r) (\<lambda>(x, r1).
     bindR (read_each n f r1) (\<lambda>(xs, r2). Inr (x # xs, r2)))"

definition read_value :: "reader \<Rightarrow> (string option \<times> reader) res" where
  "read_value r = bindR (ReadUint32 r) (\<lambda>(len, r1).
     if len = -1 then Inr (None, r1)
     else bindR (ReadBuffer (unat len) r1) (\<lambda>(bs, r2). Inr (Some (string_of_bytes bs), r2)))"

definition DeserializeQuery :: "byte list \<Rightarrow> packet res" where
  "DeserializeQuery buf = bindR (ReadString (new_reader buf)) (\<lambda>(q, _). Inr (QueryPacket q))"

definition DeserializeTupleDescription :: "byte list \<Rightarrow> packet res" where
  "DeserializeTupleDescription buf = bindR (ReadUint32 (new_reader buf)) (\<lambda>(n, r).
     bindR (read_each (unat n) ReadString r) (\<lambda>(attrs, _). Inr (TupleDescriptionPacket attrs)))"

definition DeserializeDataRow :: "byte list \<Rightarrow> packet res" where
  "DeserializeDataRow buf = bindR (ReadUint32 (new_reader buf)) (\<lambda>(n, r).
     bindR (read_each (unat n) read_value r) (\<lambda>(vals, _). Inr (DataRowPacket vals)))"

definition DeserializeErrorResponse :: "byte list \<Rightarrow> packet res" where
  "DeserializeErrorResponse buf =
     bindR (ReadString (new_reader buf)) (\<lambda>(m, _). Inr (ErrorResponsePacket m))"

definition DeserializeCommandComplete :: "byte list \<Rightarrow> packet res" where
  "DeserializeCommandComplete buf = bindR (ReadString (new_reader buf)) (\<lambda>(tag, r).
     bindR (ReadInt64 r) (\<lambda>(rows, _). Inr (CommandCompletePacket tag rows)))"

fun deserialize_packet :: "packet_type \<Rightarrow> byte list \<Rightarrow> packet res" where
  "deserialize_packet DataRow buf = DeserializeDataRow buf"
| "deserialize_packet ErrorResponse buf = DeserializeErrorResponse buf"
| "deserialize_packet Query buf = DeserializeQuery buf"
| "deserialize_packet TupleDescription buf = DeserializeTupleDescription buf"
| "deserialize_packet CommandComplete buf = DeserializeCommandComplete buf"

section \<open>MimiClient over a socket\<close>

text \<open>
  The kernel side of a connection: the segments still to arrive (one \<open>recv\<close> returns at most
  one of them), how the stream ends, how much each coming \<open>send\<close> accepts, and what was sent.
\<close>

datatype stream_end = PeerClosed | ConnError string

datatype send_outcome = Accept nat | SendFail

record sock =
  in_segs :: "byte list list"
  in_end :: stream_end
  send_plan :: "send_outcome list"
  out_bytes :: "byte list"
  sock_open :: bool

datatype recv_result = Got "byte list" | Eof | RecvErr string

definition sys_recv :: "nat \<Rightarrow> sock \<Rightarrow> recv_result \<times> sock" where
  "sys_recv n s = (case dropWhile (\<lambda>seg. seg = []) (in_segs s) of
     [] \<Rightarrow> (case in_end s of PeerClosed \<Rightarrow> Eof | ConnError e \<Rightarrow> RecvErr e, s\<lparr>in_segs := []\<rparr>)
   | seg # rest \<Rightarrow> (Got (take n seg),
       s\<lparr>in_segs := (if n < length seg then drop n seg # rest else rest)\<rparr>))"

lemma sys_recv_Got: "sys_recv n s = (Got bs, s') \<Longrightarrow> 0 < n \<Longrightarrow> 0 < length bs"
  by (auto simp: sys_recv_def dropWhile_eq_Cons_conv split: list.splits stream_end.splits)

function recvBuffer :: "nat \<Rightarrow> sock \<Rightarrow> byte list res \<times> sock" where
  "recvBuffer left s =
     (if left = 0 then (Inr [], s)
      else case sys_recv left s of
        (Got bs, s') \<Rightarrow> (case recvBuffer (left - length bs) s' of
            (Inl e, s'') \<Rightarrow> (Inl e, s'')
          | (Inr rest, s'') \<Rightarrow> (Inr (bs @ rest), s''))
      | (Eof, s') \<Rightarrow> (Inl (RuntimeError ''could not recv''), s')
      | (RecvErr _, s') \<Rightarrow> (Inl (RuntimeError ''could not recv''), s'))"
  by pat_completeness auto
termination
  by (relation "measure fst") (auto dest!: sys_recv_Got [OF sym])

declare recvBuffer.simps [simp del]

text \<open>
  The stream that builds the message is constructed with its first words and not opened at the end, so what
  \<open>strerror\<close> returns is written over them.
\<close>

function recvBufferOpt :: "nat \<Rightarrow> sock \<Rightarrow> byte list option res \<times> sock" where
  "recvBufferOpt left s =
     (if left = 0 then (Inr (Some []), s)
      else case sys_recv left s of
        (Got bs, s') \<Rightarrow> (case recvBufferOpt (left - length bs) s' of
            (Inl e, s'') \<Rightarrow> (Inl e, s'')
          | (Inr None, s'') \<Rightarrow> (Inr None, s'')
          | (Inr (Some rest), s'') \<Rightarrow> (Inr (Some (bs @ rest)), s''))
      | (Eof, s') \<Rightarrow> (Inr None, s')
      | (RecvErr e, s') \<Rightarrow> (Inl (RuntimeError (e @ drop (length e) ''could not recv: '')), s'))"
  by pat_completeness auto
termination
  by (relation "measure fst") (auto dest!: sys_recv_Got [OF sym])

declare recvBufferOpt.simps [simp del]

definition sys_send :: "byte list \<Rightarrow> sock \<Rightarrow> nat option \<times> sock" where
  "sys_send bs s = (case send_plan s of
     [] \<Rightarrow> (Some (length bs), s\<lparr>out_bytes := out_bytes s @ bs\<rparr>)
   | Accept k # rest \<Rightarrow> (Some (min k (length bs)),
       s\<lparr>send_plan := rest, out_bytes := out_bytes s @ take k bs\<rparr>)
   | SendFail # rest \<Rightarrow> (None, s\<lparr>send_plan := rest\<rparr>))"

function sendBuffer :: "byte list \<Rightarrow> sock \<Rightarrow> unit res \<times> sock" where
  "sendBuffer bs s =
     (if bs = [] then (Inr (), s)
      else case sys_send bs s of
        (Some n, s') \<Rightarrow> sendBuffer (drop n bs) s'
      | (None, s') \<Rightarrow> (Inl (RuntimeError ''could not send''), s'))"
  by pat_completeness auto
termination
  by (relation "measure (\<lambda>(bs, s). length bs + length (send_plan s))")
    (auto simp: sys_send_def split: list.splits send_outcome.splits)

declare sendBuffer.simps [simp del]

definition SendInt8 :: "byte \<Rightarrow> (sock, unit) cm" where
  "SendInt8 v = sendBuffer [v]"

definition SendInt16 :: "u16 \<Rightarrow> (sock, unit) cm" where
  "SendInt16 v = sendBuffer (be_of_nat 2 (unat v))"

definition SendInt32 :: "u32 \<Rightarrow> (sock, unit) cm" where
  "SendInt32 v = sendBuffer (be_of_nat 4 (unat v))"

definition SendInt64 :: "u64 \<Rightarrow> (sock, unit) cm" where
  "SendInt64 v = sendBuffer (be_of_nat 8 (unat v))"

definition SendString :: "string \<Rightarrow> (sock, unit) cm" where
  "SendString str = thenM (SendInt32 (word_of_nat (length str))) (sendBuffer (bytes_of_string str))"

definition ReceiveInt8Opt :: "(sock, byte option) cm" where
  "ReceiveInt8Opt = bindM (recvBufferOpt 1) (\<lambda>r. case r of
     None \<Rightarrow> retM None | Some bs \<Rightarrow> retM (Some (word_of_nat (nat_of_be bs))))"

definition ReceiveInt8 :: "(sock, byte) cm" where
  "ReceiveInt8 = bindM (recvBuffer 1) (\<lambda>bs. retM (word_of_nat (nat_of_be bs)))"

definition ReceiveInt16 :: "(sock, u16) cm" where
  "ReceiveInt16 = bindM (recvBuffer 2) (\<lambda>bs. retM (word_of_nat (nat_of_be bs)))"

definition ReceiveInt32 :: "(sock, u32) cm" where
  "ReceiveInt32 = bindM (recvBuffer 4) (\<lambda>bs. retM (word_of_nat (nat_of_be bs)))"

definition ReceiveInt64 :: "(sock, u64) cm" where
  "ReceiveInt64 = bindM (recvBuffer 8) (\<lambda>bs. retM (word_of_nat (nat_of_be bs)))"

text \<open>\<open>ReceiveString\<close> widens the signed length to \<open>size_t\<close>: a negative one asks for \<open>2^64 - k\<close> bytes.\<close>

definition ReceiveString :: "(sock, string) cm" where
  "ReceiveString = bindM ReceiveInt32 (\<lambda>len.
     bindM (recvBuffer (unat (scast len :: u64))) (\<lambda>bs. retM (string_of_bytes bs)))"

definition client_Close :: "(sock, unit) cm" where
  "client_Close = updM (\<lambda>s. if \<not> sock_open s then s else s\<lparr>sock_open := False\<rparr>)"

definition SendPacket :: "packet \<Rightarrow> (sock, unit) cm" where
  "SendPacket p = bindM (liftR (serialize_packet p)) (\<lambda>buffer.
     if length buffer \<le> 1 then raiseM (RuntimeError ''could not serialize packet'')
     else sendBuffer buffer)"

fun packet_type_of :: "byte \<Rightarrow> packet_type option" where
  "packet_type_of b =
     (if b = 0x44 then Some DataRow
      else if b = 0x45 then Some ErrorResponse
      else if b = 0x51 then Some Query
      else if b = 0x54 then Some TupleDescription
      else if b = 0x43 then Some CommandComplete
      else None)"

definition ReceivePacket :: "(sock, packet option) cm" where
  "ReceivePacket = bindM ReceiveInt8Opt (\<lambda>b. case b of
     None \<Rightarrow> retM None
   | Some b \<Rightarrow> (case packet_type_of b of
       None \<Rightarrow> raiseM (RuntimeError (''Unknown packet type: '' @ nat_to_string (unat b)))
     | Some t \<Rightarrow> bindM ReceiveInt32 (\<lambda>len.
         if len < 4 then raiseM (RuntimeError (''invalid length field value in packet: '' @ nat_to_string (unat len)))
         else bindM (recvBuffer (unat (len - 4))) (\<lambda>buffer.
           bindM (liftR (deserialize_packet t buffer)) (\<lambda>p. retM (Some p))))))"

section \<open>The image of a packet on the wire\<close>

text \<open>The abstract specification of the serialiser: the bytes of a packet as a plain list.\<close>

definition string_image :: "string \<Rightarrow> byte list" where
  "string_image s = be_of_nat 4 (length s) @ bytes_of_string s"

fun value_image :: "string option \<Rightarrow> byte list" where
  "value_image None = be_of_nat 4 (2 ^ 32 - 1)"
| "value_image (Some s) = string_image s"

fun payload_image :: "packet \<Rightarrow> byte list" where
  "payload_image (QueryPacket q) = string_image q"
| "payload_image (TupleDescriptionPacket attrs) =
     be_of_nat 4 (length attrs) @ concat (map string_image attrs)"
| "payload_image (DataRowPacket vals) =
     be_of_nat 4 (length vals) @ concat (map value_image vals)"
| "payload_image (ErrorResponsePacket m) = string_image m"
| "payload_image (CommandCompletePacket tag rows) = string_image tag @ be_of_nat 8 (unat rows)"

definition packet_image :: "packet \<Rightarrow> byte list" where
  "packet_image p = packet_type_code (packet_Type p) #
     be_of_nat 4 (calculate_payload_size p + 4) @ payload_image p"

text \<open>The values whose length field would be mistaken for the NULL marker.\<close>

fun null_clash :: "packet \<Rightarrow> bool" where
  "null_clash (DataRowPacket vals) \<longleftrightarrow>
     (\<exists>v \<in> set vals. case v of None \<Rightarrow> False | Some s \<Rightarrow> length s mod 2 ^ 32 = 2 ^ 32 - 1)"
| "null_clash _ \<longleftrightarrow> False"

text \<open>The packets whose length fields fit their 32 bits.\<close>

definition packet_fits :: "packet \<Rightarrow> bool" where
  "packet_fits p \<longleftrightarrow> calculate_payload_size p + 4 < 2 ^ 32"

lemma length_string_image [simp]: "length (string_image s) = getStringSize s"
  by (simp add: string_image_def getStringSize_def)

lemma length_value_image [simp]: "length (value_image v) = value_size v"
  by (cases v) (simp_all add: getStringSize_def)

lemma length_payload_image [simp]: "length (payload_image p) = calculate_payload_size p"
  by (cases p) (simp_all add: length_concat comp_def)

lemma be_of_nat_mod: "be_of_nat n (k mod 256 ^ n) = be_of_nat n k"
  by (metis be_of_nat_nat_of_be length_be_of_nat nat_of_be_be_of_nat)

lemma be_of_nat_u32 [simp]: "be_of_nat 4 (unat (word_of_nat k :: u32)) = be_of_nat 4 k"
  using be_of_nat_mod [of 4 k] by (simp add: unat_of_nat)

lemma unat_m1_u32: "unat (- 1 :: u32) = 2 ^ 32 - 1"
  by (simp add: unsigned_minus_1_eq_mask mask_eq_exp_minus_1)

subsection \<open>What a writer has written\<close>

definition wr_done :: "writer \<Rightarrow> byte list" where
  "wr_done w = take (wpos w) (wbuf w)"

definition wr_ok :: "writer \<Rightarrow> bool" where
  "wr_ok w \<longleftrightarrow> length (wbuf w) = wmax w \<and> wpos w \<le> wmax w"

definition wrote :: "writer \<Rightarrow> byte list \<Rightarrow> writer \<Rightarrow> bool" where
  "wrote w bs w' \<longleftrightarrow> wr_ok w' \<and> wmax w' = wmax w \<and> wpos w' = wpos w + length bs \<and>
     wr_done w' = wr_done w @ bs"

text \<open>\<open>writes f bs\<close>: \<open>f\<close> appends exactly \<open>bs\<close>, or fails when they do not fit.\<close>

definition writes :: "(writer \<Rightarrow> writer res) \<Rightarrow> byte list \<Rightarrow> bool" where
  "writes f bs \<longleftrightarrow> (\<forall>w. wr_ok w \<longrightarrow> wpos w + length bs \<le> wmax w \<longrightarrow>
     (\<exists>w'. f w = Inr w' \<and> wrote w bs w'))"

lemma writesI:
  "(\<And>w. wr_ok w \<Longrightarrow> wpos w + length bs \<le> wmax w \<Longrightarrow> \<exists>w'. f w = Inr w' \<and> wrote w bs w')
    \<Longrightarrow> writes f bs"
  by (simp add: writes_def)

lemma writesE:
  assumes "writes f bs" and "wr_ok w" and "wpos w + length bs \<le> wmax w"
  obtains w' where "f w = Inr w'" and "wrote w bs w'"
  using assms by (auto simp: writes_def)

lemma wrote_refl: "wr_ok w \<Longrightarrow> wrote w [] w"
  by (simp add: wrote_def)

lemma wrote_trans: "wrote w as w1 \<Longrightarrow> wrote w1 bs w2 \<Longrightarrow> wrote w (as @ bs) w2"
  by (simp add: wrote_def)

lemma wrote_poke:
  "wr_ok w \<Longrightarrow> wpos w + length bs \<le> wmax w \<Longrightarrow>
    wrote w bs (w\<lparr>wbuf := poke (wbuf w) (wpos w) bs, wpos := wpos w + length bs\<rparr>)"
  by (simp add: wrote_def wr_ok_def wr_done_def poke_def)

lemma writes_seq:
  assumes "writes f as" and "writes g bs"
  shows "writes (\<lambda>w. bindR (f w) g) (as @ bs)"
proof (rule writesI)
  fix w assume ok: "wr_ok w" and fit: "wpos w + length (as @ bs) \<le> wmax w"
  from assms(1) ok obtain w1 where f: "f w = Inr w1" and w1: "wrote w as w1"
    by (rule writesE) (use fit in simp)
  from assms(2) obtain w2 where "g w1 = Inr w2" and "wrote w1 bs w2"
    by (rule writesE) (use w1 fit in \<open>auto simp: wrote_def\<close>)
  with f w1 show "\<exists>w'. bindR (f w) g = Inr w' \<and> wrote w (as @ bs) w'"
    by (auto intro: wrote_trans)
qed

lemma writes_each: "(\<And>x. x \<in> set xs \<Longrightarrow> writes (f x) (img x)) \<Longrightarrow>
    writes (write_each f xs) (concat (map img xs))"
proof (induction xs)
  case Nil
  then show ?case by (auto intro!: writesI simp: wrote_refl)
next
  case (Cons x xs)
  then have "writes (\<lambda>w. bindR (f x w) (write_each f xs)) (img x @ concat (map img xs))"
    by (intro writes_seq) simp_all
  then show ?case by (simp add: writes_def)
qed

named_theorems writes_intros \<open>what each write operation appends\<close>

lemma writes_Uint8 [writes_intros]: "writes (WriteUint8 v) [v]"
  by (rule writesI)
    (use wrote_poke [where bs = "[v]"] in \<open>simp add: WriteUint8_def w_checkBufferSize_def\<close>)

lemma writes_Uint32 [writes_intros]: "writes (WriteUint32 v) (be_of_nat 4 (unat v))"
  by (rule writesI)
    (use wrote_poke [where bs = "be_of_nat 4 (unat v)"] in
      \<open>simp add: WriteUint32_def w_checkBufferSize_def\<close>)

lemma writes_Int64 [writes_intros]: "writes (WriteInt64 v) (be_of_nat 8 (unat v))"
  by (rule writesI)
    (use wrote_poke [where bs = "be_of_nat 8 (unat v)"] in
      \<open>simp add: WriteInt64_def w_checkBufferSize_def\<close>)

lemma writes_Buffer [writes_intros]: "writes (WriteBuffer bs) bs"
  by (rule writesI)
    (use wrote_poke [where bs = bs] in \<open>simp add: WriteBuffer_def w_checkBufferSize_def\<close>)

lemma writes_String [writes_intros]: "writes (WriteString s) (string_image s)"
  using writes_seq [OF writes_Uint32 [of "word_of_nat (length s)"]
      writes_Buffer [of "bytes_of_string s"]]
  by (simp add: WriteString_def [abs_def] string_image_def)

lemma writes_value:
  assumes "\<And>s. v = Some s \<Longrightarrow> length s mod 2 ^ 32 \<noteq> 2 ^ 32 - 1"
  shows "writes (write_value v) (value_image v)"
proof (cases v)
  case None
  then show ?thesis
    using writes_Uint32 [of "- 1"] by (simp add: writes_def unat_m1_u32)
next
  case (Some s)
  have "unat (word_of_nat (length s) :: u32) \<noteq> unat (- 1 :: u32)"
    using assms [OF Some] by (simp add: unat_of_nat unat_m1_u32)
  then have "(word_of_nat (length s) :: u32) \<noteq> - 1" by metis
  with Some show ?thesis
    using writes_String [of s] by (auto simp: writes_def bindR_def split: sum.splits)
qed

lemma writes_body: "\<not> null_clash p \<Longrightarrow> writes (visit_body p) (payload_image p)"
proof (cases p)
  case (QueryPacket q)
  then show ?thesis using writes_String [of q] by (simp add: writes_def)
next
  case (CommandCompletePacket tag rows)
  then show ?thesis
    using writes_seq [OF writes_String [of tag] writes_Int64 [of rows]] by (simp add: writes_def)
next
  case (TupleDescriptionPacket attrs)
  have "writes (write_each WriteString attrs) (concat (map string_image attrs))"
    by (rule writes_each) (rule writes_String)
  from writes_seq [OF writes_Uint32 [of "word_of_nat (length attrs)"] this] TupleDescriptionPacket
  show ?thesis by (simp add: writes_def)
next
  case (DataRowPacket vals)
  assume nc: "\<not> null_clash p"
  have "writes (write_each write_value vals) (concat (map value_image vals))"
    by (rule writes_each, rule writes_value) (use nc DataRowPacket in force)
  from writes_seq [OF writes_Uint32 [of "word_of_nat (length vals)"] this] DataRowPacket
  show ?thesis by (simp add: writes_def)
next
  case (ErrorResponsePacket m)
  then show ?thesis using writes_String [of m] by (simp add: writes_def)
qed

lemma visit_base_wrote:
  obtains w where "visit_base p = Inr w" and "wr_ok w" and "wmax w = calculate_payload_size p + 5"
    and "wr_done w = packet_type_code (packet_Type p) #
      be_of_nat 4 (calculate_payload_size p + 4)" and "wpos w = 5"
proof -
  let ?n = "calculate_payload_size p"
  let ?w = "new_writer (replicate (?n + 1 + 4) 0)"
  have ok: "wr_ok ?w" and fit: "wpos ?w + 5 \<le> wmax ?w"
    by (simp_all add: wr_ok_def new_writer_def)
  from writes_seq [OF writes_Uint8 [of "packet_type_code (packet_Type p)"]
      writes_Uint32 [of "word_of_nat (?n + 4)"]] ok
  obtain w where "bindR (WriteUint8 (packet_type_code (packet_Type p)) ?w)
      (WriteUint32 (word_of_nat (?n + 4))) = Inr w"
    and "wrote ?w ([packet_type_code (packet_Type p)] @
      be_of_nat 4 (unat (word_of_nat (?n + 4) :: u32))) w"
    by (rule writesE) (use fit in simp)
  with that show ?thesis
    by (auto simp: visit_base_def Let_def wrote_def wr_done_def new_writer_def
        simp del: of_nat_add)
qed

lemma serialize_packet_image:
  assumes "\<not> null_clash p"
  shows "serialize_packet p = Inr (packet_image p)"
proof -
  obtain w where base: "visit_base p = Inr w" and ok: "wr_ok w"
    and max: "wmax w = calculate_payload_size p + 5"
    and dn: "wr_done w = packet_type_code (packet_Type p) #
      be_of_nat 4 (calculate_payload_size p + 4)" and pos: "wpos w = 5"
    by (rule visit_base_wrote)
  from writes_body [OF assms] ok obtain w' where body: "visit_body p w = Inr w'"
    and w': "wrote w (payload_image p) w'"
    by (rule writesE) (simp add: max pos)
  from w' have "wr_done w' = wbuf w'"
    by (simp add: wrote_def wr_ok_def wr_done_def max pos)
  with w' dn have "wbuf w' = packet_image p"
    by (simp add: wrote_def packet_image_def)
  with base body show ?thesis by (simp add: serialize_packet_def)
qed

section \<open>Reading an image back\<close>

definition reads_at :: "reader \<Rightarrow> byte list \<Rightarrow> bool" where
  "reads_at r bs \<longleftrightarrow> rmax r = length (rbuf r) \<and> rpos r \<le> rmax r \<and> drop (rpos r) (rbuf r) = bs"

lemma reads_at_new [simp]: "reads_at (new_reader bs) bs"
  by (simp add: reads_at_def new_reader_def)

lemma reads_at_peek:
  assumes "reads_at r (bs @ rest)" and "n = length bs"
  shows "rpos r + n \<le> rmax r" and "peek (rbuf r) (rpos r) n = bs"
    and "reads_at (r\<lparr>rpos := rpos r + n\<rparr>) rest"
proof -
  have split: "drop (rpos r) (rbuf r) = bs @ rest" and max: "rmax r = length (rbuf r)"
    and le: "rpos r \<le> rmax r"
    using assms(1) by (simp_all add: reads_at_def)
  from arg_cong [OF split, of length] max le assms(2) show fit: "rpos r + n \<le> rmax r"
    by simp
  show "peek (rbuf r) (rpos r) n = bs"
    by (simp add: peek_def split assms(2))
  have "drop (rpos r + n) (rbuf r) = drop n (drop (rpos r) (rbuf r))"
    by (simp add: add.commute)
  then show "reads_at (r\<lparr>rpos := rpos r + n\<rparr>) rest"
    using fit max by (simp add: reads_at_def split assms(2))
qed

text \<open>
  The contract of a field codec: what the serialiser appends for an acceptable value, the
  deserialiser reads back, leaving the rest of the buffer for the next field.
\<close>

locale field_codec =
  fixes enc :: "'a \<Rightarrow> byte list"
    and dec :: "reader \<Rightarrow> ('a \<times> reader) res"
    and ok :: "'a \<Rightarrow> bool"
  assumes dec_enc: "ok x \<Longrightarrow> reads_at r (enc x @ rest) \<Longrightarrow>
    \<exists>r'. dec r = Inr (x, r') \<and> reads_at r' rest"
begin

lemma dec_enc_all:
  "(\<And>x. x \<in> set xs \<Longrightarrow> ok x) \<Longrightarrow> reads_at r (concat (map enc xs) @ rest) \<Longrightarrow>
    \<exists>r'. read_each (length xs) dec r = Inr (xs, r') \<and> reads_at r' rest"
proof (induction xs arbitrary: r)
  case Nil
  then show ?case by simp
next
  case (Cons x xs)
  from Cons.prems dec_enc [of x r "concat (map enc xs) @ rest"] obtain r1
    where r1: "dec r = Inr (x, r1)" "reads_at r1 (concat (map enc xs) @ rest)"
    by auto
  from Cons.IH [OF _ r1(2)] Cons.prems(1) obtain r2
    where "read_each (length xs) dec r1 = Inr (xs, r2)" "reads_at r2 rest"
    by auto
  with r1(1) show ?case by auto
qed

end

lemma be_u32_read [simp]: "nat_of_be (be_of_nat 4 k) = k mod 2 ^ 32"
  by (simp add: nat_of_be_be_of_nat)

interpretation u32_field: field_codec "\<lambda>v. be_of_nat 4 (unat v)" ReadUint32 "\<lambda>_. True"
proof
  fix x :: u32 and r rest
  assume "reads_at r (be_of_nat 4 (unat x) @ rest)"
  from reads_at_peek [OF this, of 4]
  show "\<exists>r'. ReadUint32 r = Inr (x, r') \<and> reads_at r' rest"
    by (simp add: ReadUint32_def r_checkBufferSize_def word_of_be_bytes del: be_u32_read)
qed

interpretation i64_field: field_codec "\<lambda>v. be_of_nat 8 (unat v)" ReadInt64 "\<lambda>_. True"
proof
  fix x :: u64 and r rest
  assume "reads_at r (be_of_nat 8 (unat x) @ rest)"
  from reads_at_peek [OF this, of 8]
  show "\<exists>r'. ReadInt64 r = Inr (x, r') \<and> reads_at r' rest"
    by (simp add: ReadInt64_def r_checkBufferSize_def word_of_be_bytes)
qed

lemma ReadBuffer_reads_at:
  assumes "reads_at r (bs @ rest)"
  shows "\<exists>r'. ReadBuffer (length bs) r = Inr (bs, r') \<and> reads_at r' rest"
  using reads_at_peek [OF assms] by (simp add: ReadBuffer_def r_checkBufferSize_def)

text \<open>A length field followed by that many bytes.\<close>

lemma read_counted:
  assumes "k < 2 ^ 32" and "reads_at r (be_of_nat 4 k @ rest)"
  shows "\<exists>r'. ReadUint32 r = Inr (word_of_nat k, r') \<and> reads_at r' rest"
  using u32_field.dec_enc [where x = "word_of_nat k" and r = r and rest = rest] assms by simp

interpretation string_field: field_codec string_image ReadString "\<lambda>s. length s < 2 ^ 32"
proof
  fix s :: string and r rest
  assume fit: "length s < 2 ^ 32" and "reads_at r (string_image s @ rest)"
  then have "reads_at r (be_of_nat 4 (length s) @ bytes_of_string s @ rest)"
    by (simp add: string_image_def)
  from read_counted [OF fit this] obtain r1 where r1: "ReadUint32 r = Inr (word_of_nat (length s), r1)"
    and at1: "reads_at r1 (bytes_of_string s @ rest)" by blast
  from ReadBuffer_reads_at [OF at1] obtain r2
    where r2: "ReadBuffer (length s) r1 = Inr (bytes_of_string s, r2)" "reads_at r2 rest" by auto
  from fit r1 r2 show "\<exists>r'. ReadString r = Inr (s, r') \<and> reads_at r' rest"
    by (simp add: ReadString_def unat_of_nat)
qed

definition value_ok :: "string option \<Rightarrow> bool" where
  "value_ok v \<longleftrightarrow> (case v of None \<Rightarrow> True | Some s \<Rightarrow> length s < 2 ^ 32 - 1)"

interpretation value_field: field_codec value_image read_value value_ok
proof
  fix v :: "string option" and r rest
  assume ok: "value_ok v" and at0: "reads_at r (value_image v @ rest)"
  show "\<exists>r'. read_value r = Inr (v, r') \<and> reads_at r' rest"
  proof (cases v)
    case None
    with at0 have "reads_at r (be_of_nat 4 (2 ^ 32 - 1) @ rest)" by simp
    from read_counted [OF _ this] obtain r1
      where "ReadUint32 r = Inr (word_of_nat (2 ^ 32 - 1), r1)" "reads_at r1 rest" by auto
    with None show ?thesis by (simp add: read_value_def)
  next
    case (Some s)
    with ok have fit: "length s < 2 ^ 32 - 1" by (simp add: value_ok_def)
    from at0 Some have "reads_at r (be_of_nat 4 (length s) @ bytes_of_string s @ rest)"
      by (simp add: string_image_def)
    from read_counted [OF _ this] fit obtain r1
      where r1: "ReadUint32 r = Inr (word_of_nat (length s), r1)"
        and at1: "reads_at r1 (bytes_of_string s @ rest)" by auto
    from ReadBuffer_reads_at [OF at1] obtain r2
      where r2: "ReadBuffer (length s) r1 = Inr (bytes_of_string s, r2)" "reads_at r2 rest" by auto
    have len: "unat (word_of_nat (length s) :: u32) = length s"
      using fit by (simp add: unat_of_nat)
    then have "(word_of_nat (length s) :: u32) \<noteq> - 1"
      using fit unat_m1_u32 by (metis less_irrefl)
    with Some r1 r2 len show ?thesis by (simp add: read_value_def)
  qed
qed

lemma sum_list_map_member_le: "x \<in> set xs \<Longrightarrow> f x \<le> sum_list (map f xs :: nat list)"
  by (induction xs) auto

lemma sum_list_map_ge_length: "(\<And>x. x \<in> set xs \<Longrightarrow> 1 \<le> f x) \<Longrightarrow>
    length xs \<le> sum_list (map f xs :: nat list)"
proof (induction xs)
  case Nil
  then show ?case by simp
next
  case (Cons x xs)
  from Cons.prems [of x] Cons.IH Cons.prems show ?case by fastforce
qed

lemma packet_fits_no_clash: "packet_fits p \<Longrightarrow> \<not> null_clash p"
proof (cases p)
  case (DataRowPacket vals)
  assume fits: "packet_fits p"
  have "value_size v < 2 ^ 32 - 4" if "v \<in> set vals" for v
    using sum_list_map_member_le [OF that, of value_size] fits DataRowPacket
    by (simp add: packet_fits_def)
  with DataRowPacket show ?thesis by (fastforce split: option.splits)
qed simp_all

lemma deserialize_payload:
  assumes "packet_fits p"
  shows "deserialize_packet (packet_Type p) (payload_image p) = Inr p"
proof (cases p)
  case (QueryPacket q)
  then show ?thesis
    using string_field.dec_enc [of q "new_reader (string_image q)" "[]"] assms
    by (auto simp: DeserializeQuery_def packet_fits_def getStringSize_def)
next
  case (ErrorResponsePacket m)
  then show ?thesis
    using string_field.dec_enc [of m "new_reader (string_image m)" "[]"] assms
    by (auto simp: DeserializeErrorResponse_def packet_fits_def getStringSize_def)
next
  case (CommandCompletePacket tag rows)
  let ?r = "new_reader (string_image tag @ be_of_nat 8 (unat rows))"
  from assms CommandCompletePacket string_field.dec_enc [of tag ?r "be_of_nat 8 (unat rows)"]
  obtain r1 where r1: "ReadString ?r = Inr (tag, r1)" "reads_at r1 (be_of_nat 8 (unat rows) @ [])"
    by (auto simp: packet_fits_def getStringSize_def)
  from i64_field.dec_enc [OF _ r1(2)] r1(1) CommandCompletePacket show ?thesis
    by (auto simp: DeserializeCommandComplete_def)
next
  case (TupleDescriptionPacket attrs)
  let ?body = "concat (map string_image attrs)"
  have small: "getStringSize a < 2 ^ 32" if "a \<in> set attrs" for a
    using sum_list_map_member_le [OF that, of getStringSize] assms TupleDescriptionPacket
    by (simp add: packet_fits_def)
  have "length attrs \<le> sum_list (map getStringSize attrs)"
    by (rule sum_list_map_ge_length) (simp add: getStringSize_def)
  then have n: "length attrs < 2 ^ 32" using assms TupleDescriptionPacket by (simp add: packet_fits_def)
  from read_counted [OF n, of "new_reader (be_of_nat 4 (length attrs) @ ?body)" ?body] obtain r1
    where r1: "ReadUint32 (new_reader (be_of_nat 4 (length attrs) @ ?body)) =
        Inr (word_of_nat (length attrs), r1)" "reads_at r1 (?body @ [])" by auto
  have "length s < 2 ^ 32" if "s \<in> set attrs" for s
    using small [OF that] by (simp add: getStringSize_def)
  from string_field.dec_enc_all [OF this r1(2)] r1(1) n TupleDescriptionPacket show ?thesis
    by (auto simp: DeserializeTupleDescription_def unat_of_nat)
next
  case (DataRowPacket vals)
  let ?body = "concat (map value_image vals)"
  have small: "value_ok v" if "v \<in> set vals" for v
    using sum_list_map_member_le [OF that, of value_size] assms DataRowPacket
    by (cases v) (simp_all add: packet_fits_def value_ok_def)
  have "length vals \<le> sum_list (map value_size vals)"
  proof (rule sum_list_map_ge_length)
    fix v show "1 \<le> value_size v" by (cases v) auto
  qed
  then have n: "length vals < 2 ^ 32" using assms DataRowPacket by (simp add: packet_fits_def)
  from read_counted [OF n, of "new_reader (be_of_nat 4 (length vals) @ ?body)" ?body] obtain r1
    where r1: "ReadUint32 (new_reader (be_of_nat 4 (length vals) @ ?body)) =
        Inr (word_of_nat (length vals), r1)" "reads_at r1 (?body @ [])" by auto
  from value_field.dec_enc_all [OF small r1(2)] r1(1) n DataRowPacket show ?thesis
    by (auto simp: DeserializeDataRow_def unat_of_nat)
qed

section \<open>The byte stream behind the socket\<close>

definition stream :: "sock \<Rightarrow> byte list" where
  "stream s = concat (in_segs s)"

lemma concat_dropWhile_Nil: "concat (dropWhile (\<lambda>x. x = []) xss) = concat xss"
  by (induction xss) auto

lemma sys_recv_data:
  assumes "stream s \<noteq> []" and "0 < n"
  obtains bs s' where "sys_recv n s = (Got bs, s')" and "bs \<noteq> []" and "length bs \<le> n"
    and "stream s = bs @ stream s'" and "in_end s' = in_end s"
proof -
  have "concat (dropWhile (\<lambda>x. x = []) (in_segs s)) \<noteq> []"
    using assms(1) by (simp add: stream_def concat_dropWhile_Nil)
  then obtain seg rest where eq: "dropWhile (\<lambda>x. x = []) (in_segs s) = seg # rest"
    by (cases "dropWhile (\<lambda>x. x = []) (in_segs s)") auto
  then have "seg \<noteq> []" by (auto simp: dropWhile_eq_Cons_conv)
  have "stream s = seg @ concat rest"
    using concat_dropWhile_Nil [of "in_segs s"] by (simp add: stream_def eq)
  with that [of "take n seg"] \<open>seg \<noteq> []\<close> assms(2) eq show ?thesis
    by (auto simp: sys_recv_def stream_def)
qed

lemma sys_recv_empty:
  assumes "stream s = []"
  shows "sys_recv n s = (case in_end s of PeerClosed \<Rightarrow> Eof | ConnError e \<Rightarrow> RecvErr e,
    s\<lparr>in_segs := []\<rparr>)"
proof -
  have "dropWhile (\<lambda>x. x = []) (in_segs s) = []"
    using assms by (simp add: stream_def)
  then show ?thesis by (simp only: sys_recv_def list.case)
qed

lemma recvBuffer_data:
  "n \<le> length (stream s) \<Longrightarrow> \<exists>s'. recvBuffer n s = (Inr (take n (stream s)), s') \<and>
    stream s' = drop n (stream s) \<and> in_end s' = in_end s"
proof (induction n arbitrary: s rule: less_induct)
  case (less n)
  show ?case
  proof (cases "n = 0")
    case True
    then show ?thesis by (simp add: recvBuffer.simps)
  next
    case False
    with less.prems obtain bs s1 where r: "sys_recv n s = (Got bs, s1)" "bs \<noteq> []"
      "length bs \<le> n" "stream s = bs @ stream s1" "in_end s1 = in_end s"
      by (rule_tac sys_recv_data [of s n]) auto
    have "n - length bs < n" "n - length bs \<le> length (stream s1)"
      using r False less.prems by simp_all
    from less.IH [OF this] obtain s2
      where "recvBuffer (n - length bs) s1 = (Inr (take (n - length bs) (stream s1)), s2)"
        "stream s2 = drop (n - length bs) (stream s1)" "in_end s2 = in_end s1" by auto
    with r False show ?thesis by (simp add: recvBuffer.simps [of n s])
  qed
qed

lemma recvBuffer_short:
  "length (stream s) < n \<Longrightarrow> \<exists>s'. recvBuffer n s = (Inl (RuntimeError ''could not recv''), s')"
proof (induction n arbitrary: s rule: less_induct)
  case (less n)
  show ?case
  proof (cases "stream s = []")
    case True
    with less.prems show ?thesis
      by (auto simp: recvBuffer.simps [of n s] sys_recv_empty split: stream_end.splits)
  next
    case False
    with less.prems obtain bs s1 where r: "sys_recv n s = (Got bs, s1)" "bs \<noteq> []"
      "length bs \<le> n" "stream s = bs @ stream s1"
      by (rule_tac sys_recv_data [of s n]) auto
    have "n - length bs < n" "length (stream s1) < n - length bs"
      using r less.prems by simp_all
    from less.IH [OF this] r less.prems show ?thesis
      by (auto simp: recvBuffer.simps [of n s])
  qed
qed

lemma ReceiveInt8Opt_data:
  assumes "stream s = b # rest"
  shows "\<exists>s'. ReceiveInt8Opt s = (Inr (Some b), s') \<and> stream s' = rest \<and> in_end s' = in_end s"
proof -
  from assms obtain bs s1 where r: "sys_recv 1 s = (Got bs, s1)" "bs \<noteq> []" "length bs \<le> 1"
    "stream s = bs @ stream s1" "in_end s1 = in_end s"
    by (rule_tac sys_recv_data [of s 1]) auto
  then have bs: "bs = [b]" "stream s1 = rest"
    using assms by (cases bs; auto)+
  have "recvBufferOpt 1 s = (Inr (Some [b]), s1)"
    using r bs by (simp add: recvBufferOpt.simps [of "Suc 0" s] recvBufferOpt.simps [of 0])
  with bs r show ?thesis
    by (simp add: ReceiveInt8Opt_def cm_simps nat_of_be_def)
qed

lemma ReceiveInt32_data:
  assumes "stream s = be_of_nat 4 k @ rest"
  shows "\<exists>s'. ReceiveInt32 s = (Inr (word_of_nat k), s') \<and> stream s' = rest \<and> in_end s' = in_end s"
proof -
  have "(word_of_nat (k mod 2 ^ 32) :: u32) = word_of_nat k"
    using word_of_nat_mod [of k, where 'a = 32] by simp
  with recvBuffer_data [of 4 s] assms show ?thesis
    by (auto simp: ReceiveInt32_def cm_simps)
qed

lemma ReceiveInt32_short:
  "length (stream s) < 4 \<Longrightarrow> \<exists>s'. ReceiveInt32 s = (Inl (RuntimeError ''could not recv''), s')"
  using recvBuffer_short [of s 4] by (auto simp: ReceiveInt32_def cm_simps)

lemma packet_type_of_code [simp]: "packet_type_of (packet_type_code t) = Some t"
  by (cases t) auto

declare packet_type_of.simps [simp del]

lemma sendBuffer_ok:
  "SendFail \<notin> set (send_plan s) \<Longrightarrow>
    \<exists>s'. sendBuffer bs s = (Inr (), s') \<and> out_bytes s' = out_bytes s @ bs"
proof (induction bs s rule: sendBuffer.induct)
  case (1 bs s)
  show ?case
  proof (cases "bs = []")
    case True
    then show ?thesis by (simp add: sendBuffer.simps)
  next
    case False
    show ?thesis
    proof (cases "send_plan s")
      case Nil
      with False show ?thesis
        by (simp add: sendBuffer.simps [of bs s] sys_send_def sendBuffer.simps [of "[]"])
    next
      case (Cons o1 plan)
      with "1.prems" obtain k where k: "o1 = Accept k" by (cases o1) auto
      let ?s1 = "s\<lparr>send_plan := plan, out_bytes := out_bytes s @ take k bs\<rparr>"
      have st: "sys_send bs s = (Some (min k (length bs)), ?s1)"
        using Cons k by (simp add: sys_send_def)
      from "1.IH" [OF False st [symmetric] refl] "1.prems" Cons
      obtain s' where "sendBuffer (drop (min k (length bs)) bs) ?s1 = (Inr (), s')"
        "out_bytes s' = out_bytes ?s1 @ drop (min k (length bs)) bs" by auto
      with False st show ?thesis
        by (simp add: sendBuffer.simps [of bs s] min_def)
    qed
  qed
qed

lemma SendPacket_ok:
  assumes "packet_fits p" and "SendFail \<notin> set (send_plan s)"
  shows "\<exists>s'. SendPacket p s = (Inr (), s') \<and> out_bytes s' = out_bytes s @ packet_image p"
  using sendBuffer_ok [OF assms(2), of "packet_image p"]
    serialize_packet_image [OF packet_fits_no_clash [OF assms(1)]]
  by (auto simp: SendPacket_def cm_simps packet_image_def)

text \<open>The prefix of a packet: the type byte and the length are there, the rest follows.\<close>

lemma ReceivePacket_header:
  assumes "stream r = packet_type_code t # be_of_nat 4 (k + 4) @ rest" and "k + 4 < 2 ^ 32"
  shows "\<exists>r'. stream r' = rest \<and> in_end r' = in_end r \<and>
    ReceivePacket r = bindM (recvBuffer k) (\<lambda>buffer.
      bindM (liftR (deserialize_packet t buffer)) (\<lambda>p. retM (Some p))) r'"
proof -
  from ReceiveInt8Opt_data [OF assms(1)] obtain r1
    where r1: "ReceiveInt8Opt r = (Inr (Some (packet_type_code t)), r1)"
      "stream r1 = be_of_nat 4 (k + 4) @ rest" "in_end r1 = in_end r" by blast
  from ReceiveInt32_data [OF r1(2)] obtain r2
    where r2: "ReceiveInt32 r1 = (Inr (word_of_nat (k + 4)), r2)" "stream r2 = rest"
      "in_end r2 = in_end r1" by blast
  let ?len = "word_of_nat (k + 4) :: u32"
  have len: "unat ?len = k + 4"
    using assms(2) by (simp add: unat_of_nat del: of_nat_add)
  then have ge: "\<not> ?len < 4" and sub: "unat (?len - 4) = k"
    by (simp_all add: word_less_nat_alt word_le_nat_alt unat_sub del: of_nat_add)
  have "ReceivePacket r = bindM ReceiveInt32 (\<lambda>len.
      if len < 4 then raiseM (RuntimeError (''invalid length field value in packet: '' @ nat_to_string (unat len)))
      else bindM (recvBuffer (unat (len - 4))) (\<lambda>buffer.
        bindM (liftR (deserialize_packet t buffer)) (\<lambda>p. retM (Some p)))) r1"
    by (simp add: ReceivePacket_def bindM_def r1(1))
  also have "\<dots> = bindM (recvBuffer k) (\<lambda>buffer.
      bindM (liftR (deserialize_packet t buffer)) (\<lambda>p. retM (Some p))) r2"
    by (simp add: bindM_def r2(1) ge sub del: of_nat_add)
  finally show ?thesis using r1(3) r2(2,3) by auto
qed

lemma ReceivePacket_image:
  assumes fits: "packet_fits p" and "stream r = packet_image p @ rest"
  shows "\<exists>r'. ReceivePacket r = (Inr (Some p), r') \<and> stream r' = rest"
proof -
  let ?n = "calculate_payload_size p"
  have "stream r = packet_type_code (packet_Type p) # be_of_nat 4 (?n + 4) @ (payload_image p @ rest)"
    using assms(2) by (simp add: packet_image_def)
  from ReceivePacket_header [OF this] fits obtain r1
    where r1: "stream r1 = payload_image p @ rest"
      and eq: "ReceivePacket r = bindM (recvBuffer ?n) (\<lambda>buffer.
        bindM (liftR (deserialize_packet (packet_Type p) buffer)) (\<lambda>p. retM (Some p))) r1"
    by (auto simp: packet_fits_def)
  from recvBuffer_data [of ?n r1] r1 obtain r2
    where r2: "recvBuffer ?n r1 = (Inr (payload_image p), r2)" "stream r2 = rest" by auto
  with eq show ?thesis
    by (simp add: cm_simps deserialize_payload [OF fits])
qed

text \<open>Receiving does not touch the output, nor how the input will end.\<close>

definition output_is :: "send_outcome list \<times> byte list \<times> stream_end \<Rightarrow> sock \<Rightarrow> bool" where
  "output_is v c \<longleftrightarrow> (send_plan c, out_bytes c, in_end c) = v"

lemma sys_recv_output: "sys_recv n c = (g, c') \<Longrightarrow> output_is v c' = output_is v c"
  by (auto simp: sys_recv_def output_is_def split: list.splits stream_end.splits)

lemma keeps_recvBuffer [keep_intros]: "keeps (output_is v) (recvBuffer n)"
proof -
  have "output_is v (snd (recvBuffer n c)) = output_is v c" for c
  proof (induction n c rule: recvBuffer.induct)
    case (1 left s)
    then show ?case
      by (cases "sys_recv left s") (auto simp: recvBuffer.simps [of left s] recvBuffer.simps [of 0] sys_recv_output split: recv_result.splits prod.splits sum.splits)
  qed
  then show ?thesis by (simp add: keeps_def)
qed

lemma keeps_recvBufferOpt [keep_intros]: "keeps (output_is v) (recvBufferOpt n)"
proof -
  have "output_is v (snd (recvBufferOpt n c)) = output_is v c" for c
  proof (induction n c rule: recvBufferOpt.induct)
    case (1 left s)
    then show ?case
      by (cases "sys_recv left s")
        (auto simp: recvBufferOpt.simps [of left s] recvBufferOpt.simps [of 0] sys_recv_output split: recv_result.splits prod.splits sum.splits option.splits)
  qed
  then show ?thesis by (simp add: keeps_def)
qed

lemma ReceivePacket_output: "ReceivePacket c = (r, c') \<Longrightarrow> send_plan c' = send_plan c \<and> out_bytes c' = out_bytes c \<and> in_end c' = in_end c"
proof -
  have "keeps (output_is v) ReceivePacket" for v
    unfolding ReceivePacket_def ReceiveInt8Opt_def ReceiveInt32_def by (intro keep_intros)
  from keepsD [OF this [of "(send_plan c, out_bytes c, in_end c)"]] show "ReceivePacket c = (r, c') \<Longrightarrow> ?thesis"
    by (simp add: output_is_def)
qed

text \<open>A packet that was received was in the input: it gets shorter.\<close>

lemma sys_recv_shorter: "sys_recv n c = (g, c') \<Longrightarrow> (case g of Got bs \<Rightarrow> length bs + length (stream c') = length (stream c) | _ \<Rightarrow> stream c' = [])"
proof -
  assume r: "sys_recv n c = (g, c')"
  show ?thesis
  proof (cases "dropWhile (\<lambda>seg. seg = []) (in_segs c)")
    case Nil
    then have "sys_recv n c = (case in_end c of PeerClosed \<Rightarrow> Eof | ConnError e \<Rightarrow> RecvErr e, c\<lparr>in_segs := []\<rparr>)" by (simp only: sys_recv_def list.case)
    then show ?thesis using r by (auto simp: stream_def split: stream_end.splits)
  next
    case (Cons seg rest)
    then have "stream c = seg @ concat rest" using concat_dropWhile_Nil [of "in_segs c"] by (simp add: stream_def)
    then show ?thesis using r Cons by (auto simp: sys_recv_def stream_def)
  qed
qed

lemma recvBuffer_shorter: "recvBuffer n c = (r, c') \<Longrightarrow> length (stream c') \<le> length (stream c)"
proof (induction n c arbitrary: r c' rule: recvBuffer.induct)
  case (1 left s)
  show ?case
  proof (cases "left = 0")
    case True
    then show ?thesis using "1.prems" by (simp add: recvBuffer.simps [of 0 s])
  next
    case False
    obtain g s1 where g: "sys_recv left s = (g, s1)" by (cases "sys_recv left s")
    note short = sys_recv_shorter [OF g]
    show ?thesis
    proof (cases g)
      case (Got bs)
      obtain r2 s2 where r2: "recvBuffer (left - length bs) s1 = (r2, s2)" by (cases "recvBuffer (left - length bs) s1")
      have "length (stream s2) \<le> length (stream s1)" using "1.IH" [OF False _ _ r2] g Got by simp
      then show ?thesis using "1.prems" False g Got r2 short by (auto simp: recvBuffer.simps [of left s] split: sum.splits)
    qed (use "1.prems" False g short in \<open>auto simp: recvBuffer.simps [of left s]\<close>)
  qed
qed

lemma ReceiveInt8Opt_shorter: "ReceiveInt8Opt c = (Inr (Some b), c') \<Longrightarrow> length (stream c') < length (stream c)"
proof -
  assume r: "ReceiveInt8Opt c = (Inr (Some b), c')"
  obtain g c1 where g: "sys_recv 1 c = (g, c1)" by (cases "sys_recv 1 c")
  obtain bs where bs: "g = Got bs"
    using r g by (cases g) (auto simp: ReceiveInt8Opt_def bindM_def retM_def recvBufferOpt.simps [of "Suc 0"] split: sum.splits option.splits)
  then have p: "0 < length bs" using sys_recv_Got [of 1 c bs c1] g by simp
  have "1 - length bs = 0" using p by (cases bs) simp_all
  then have "c' = c1" using r g bs by (auto simp: ReceiveInt8Opt_def bindM_def retM_def recvBufferOpt.simps [of "Suc 0"] recvBufferOpt.simps [of 0] split: sum.splits option.splits)
  then show ?thesis using sys_recv_shorter [OF g] bs p by (cases bs) simp_all
qed

lemma ReceivePacket_shorter: "ReceivePacket c = (Inr (Some p), c') \<Longrightarrow> length (stream c') < length (stream c)"
proof -
  assume r: "ReceivePacket c = (Inr (Some p), c')"
  then obtain b c1 where b: "ReceiveInt8Opt c = (Inr (Some b), c1)" and r1: "(case packet_type_of b of
       None \<Rightarrow> raiseM (RuntimeError (''Unknown packet type: '' @ nat_to_string (unat b)))
     | Some t \<Rightarrow> bindM ReceiveInt32 (\<lambda>len.
         if len < 4 then raiseM (RuntimeError (''invalid length field value in packet: '' @ nat_to_string (unat len)))
         else bindM (recvBuffer (unat (len - 4))) (\<lambda>buffer.
           bindM (liftR (deserialize_packet t buffer)) (\<lambda>p. retM (Some p))))) c1 = (Inr (Some p), c')"
    unfolding ReceivePacket_def by (auto simp: retM_def elim!: bindM_eq_okE split: option.splits)
  then obtain t len c2 n bs c3 where "packet_type_of b = Some t" and i: "ReceiveInt32 c1 = (Inr len, c2)" and v: "recvBuffer n c2 = (Inr bs, c3)" and "c' = c3"
    by (auto simp: raiseM_def retM_def liftR_def elim!: bindM_eq_okE split: option.splits if_splits)
  moreover obtain x where "recvBuffer 4 c1 = (Inr x, c2)" using i by (auto simp: ReceiveInt32_def retM_def elim!: bindM_eq_okE)
  ultimately show ?thesis using ReceiveInt8Opt_shorter [OF b] recvBuffer_shorter [OF v] recvBuffer_shorter [of 4 c1] by fastforce
qed

text \<open>Sending does not touch the input, and uses up the outcomes of the coming sends.\<close>

lemma sendBuffer_input: "in_segs (snd (sendBuffer bs c)) = in_segs c \<and> in_end (snd (sendBuffer bs c)) = in_end c"
proof (induction bs c rule: sendBuffer.induct)
  case (1 bs s)
  then show ?case by (auto simp: sendBuffer.simps [of bs s] sys_send_def split: list.splits send_outcome.splits)
qed

lemma sendBuffer_plan: "set (send_plan (snd (sendBuffer bs c))) \<subseteq> set (send_plan c)"
proof (induction bs c rule: sendBuffer.induct)
  case (1 bs s)
  show ?case
  proof (cases "bs = []")
    case False
    obtain r s1 where s1: "sys_send bs s = (r, s1)" by (cases "sys_send bs s")
    then have "set (send_plan s1) \<subseteq> set (send_plan s)" by (auto simp: sys_send_def split: list.splits send_outcome.splits)
    then show ?thesis using "1.IH" [OF False s1 [symmetric]] False s1
      by (cases r) (auto simp: sendBuffer.simps [of bs s])
  qed (simp add: sendBuffer.simps)
qed

lemma SendPacket_effect:
  assumes "packet_fits p" "SendFail \<notin> set (send_plan s)"
  shows "\<exists>s'. SendPacket p s = (Inr (), s') \<and> out_bytes s' = out_bytes s @ packet_image p \<and> stream s' = stream s \<and> SendFail \<notin> set (send_plan s')"
proof -
  from SendPacket_ok [OF assms] obtain s' where s': "SendPacket p s = (Inr (), s')" "out_bytes s' = out_bytes s @ packet_image p" by blast
  then have "s' = snd (sendBuffer (packet_image p) s)"
    using serialize_packet_image [OF packet_fits_no_clash [OF assms(1)]] by (auto simp: SendPacket_def cm_simps raiseM_def split: if_splits)
  then show ?thesis using s' sendBuffer_input [of "packet_image p" s] sendBuffer_plan [of "packet_image p" s] assms(2)
    by (auto simp: stream_def)
qed

section \<open>Properties of the wire protocol\<close>

text \<open>
  C8. Sending never fails on a packet whose sizes fit 32 bits while the kernel accepts data, in
  whatever portions it takes them; and a receiver that sees the sent bytes in any segmentation,
  followed by anything, gets exactly that packet and leaves exactly what follows.
\<close>

theorem send_receive_packet:
  assumes "packet_fits p" and "SendFail \<notin> set (send_plan s)"
  shows "\<exists>s'. SendPacket p s = (Inr (), s') \<and>
    (\<forall>r rest. stream r = drop (length (out_bytes s)) (out_bytes s') @ rest \<longrightarrow>
      (\<exists>r'. ReceivePacket r = (Inr (Some p), r') \<and> stream r' = rest))"
proof -
  from SendPacket_ok [OF assms] obtain s' where s': "SendPacket p s = (Inr (), s')"
    "out_bytes s' = out_bytes s @ packet_image p" by blast
  then show ?thesis using ReceivePacket_image [OF assms(1)] by simp
qed

theorem send_receive_packet_witness:
  "packet_fits (DataRowPacket [Some ''42'', None]) \<and>
   (\<exists>s'. SendPacket (DataRowPacket [Some ''42'', None])
       \<lparr>in_segs = [], in_end = PeerClosed, send_plan = [Accept 3, Accept 0], out_bytes = [],
        sock_open = True\<rparr> = (Inr (), s') \<and>
     (\<forall>r rest. stream r = drop 0 (out_bytes s') @ rest \<longrightarrow>
       (\<exists>r'. ReceivePacket r = (Inr (Some (DataRowPacket [Some ''42'', None])), r') \<and>
          stream r' = rest)))"
proof -
  have fits: "packet_fits (DataRowPacket [Some ''42'', None])"
    by (simp add: packet_fits_def)
  show ?thesis
    using fits send_receive_packet [OF fits, of "\<lparr>in_segs = [], in_end = PeerClosed,
      send_plan = [Accept 3, Accept 0], out_bytes = [], sock_open = True\<rparr>"]
    by simp
qed

text \<open>
  C23. The serialiser computes the specified image: for every packet without a NULL-marker clash
  the buffer sized by \<open>calculate_payload_size\<close> is filled exactly (no write past its end, no byte
  left unwritten), whatever the sizes.
\<close>

theorem serialize_packet_refines:
  assumes "\<not> null_clash p"
  shows "serialize_packet p = Inr (packet_image p) \<and>
    length (packet_image p) = calculate_payload_size p + 5"
  using serialize_packet_image [OF assms] by (simp add: packet_image_def)

theorem serialize_packet_refines_witness:
  "\<not> null_clash (CommandCompletePacket ''INSERT'' 1) \<and>
   serialize_packet (CommandCompletePacket ''INSERT'' 1) =
     Inr (packet_image (CommandCompletePacket ''INSERT'' 1))"
proof -
  have h: "\<not> null_clash (CommandCompletePacket ''INSERT'' 1)" by simp
  show ?thesis using h serialize_packet_refines [OF h] by blast
qed

text \<open>
  C24. A connection that is closed in the middle of a packet is an error of the receiving call,
  never a packet and never the clean end of the session; a close between packets is the clean end.
\<close>

theorem receive_cut_packet:
  assumes "packet_fits p" and "stream r = take k (packet_image p)"
    and "k < length (packet_image p)" and "in_end r = PeerClosed"
  shows "if k = 0 then fst (ReceivePacket r) = Inr None
    else fst (ReceivePacket r) = Inl (RuntimeError ''could not recv'')"
proof (cases "k = 0")
  case True
  with assms(2,4) have "recvBufferOpt 1 r = (Inr None, r\<lparr>in_segs := []\<rparr>)"
    by (simp add: recvBufferOpt.simps [of "Suc 0" r] sys_recv_empty)
  with True show ?thesis by (simp add: ReceivePacket_def ReceiveInt8Opt_def cm_simps)
next
  case False
  let ?n = "calculate_payload_size p" and ?c = "packet_type_code (packet_Type p)"
  from False assms(2) have st: "stream r = ?c # take (k - 1) (be_of_nat 4 (?n + 4) @ payload_image p)"
    by (cases k) (simp_all add: packet_image_def)
  from ReceiveInt8Opt_data [OF this] obtain r1
    where r1: "ReceiveInt8Opt r = (Inr (Some ?c), r1)"
      "stream r1 = take (k - 1) (be_of_nat 4 (?n + 4) @ payload_image p)" by blast
  show ?thesis
  proof (cases "k < 5")
    case True
    with False have "k - 1 < 4" by arith
    with r1 obtain r2 where "ReceiveInt32 r1 = (Inl (RuntimeError ''could not recv''), r2)"
      using ReceiveInt32_short [of r1] by auto
    with r1 False show ?thesis by (simp add: ReceivePacket_def cm_simps)
  next
    case k: False
    from st k have "stream r = ?c # be_of_nat 4 (?n + 4) @ take (k - 5) (payload_image p)"
      by simp
    from ReceivePacket_header [OF this] assms(1) obtain r2
      where r2: "stream r2 = take (k - 5) (payload_image p)"
        and eq: "ReceivePacket r = bindM (recvBuffer ?n) (\<lambda>buffer.
          bindM (liftR (deserialize_packet (packet_Type p) buffer)) (\<lambda>p. retM (Some p))) r2"
      by (auto simp: packet_fits_def)
    have "length (stream r2) < ?n"
      using r2 k assms(3) by (simp add: packet_image_def)
    from recvBuffer_short [OF this] eq k show ?thesis by (auto simp: cm_simps)
  qed
qed

theorem receive_cut_packet_witness:
  "fst (ReceivePacket \<lparr>in_segs = [[0x51], [0, 0]], in_end = PeerClosed, send_plan = [],
     out_bytes = [], sock_open = True\<rparr>) = Inl (RuntimeError ''could not recv'')"
proof -
  let ?r = "\<lparr>in_segs = [[0x51], [0, 0]], in_end = PeerClosed, send_plan = [], out_bytes = [],
    sock_open = True\<rparr>"
  have "packet_fits (QueryPacket ''BEGIN'')"
    by (simp add: packet_fits_def getStringSize_def)
  moreover have "stream ?r = take 3 (packet_image (QueryPacket ''BEGIN''))"
    by (simp add: stream_def packet_image_def be_of_nat_def getStringSize_def take_Cons')
  ultimately show ?thesis
    using receive_cut_packet [of "QueryPacket ''BEGIN''" ?r 3]
    by (simp add: packet_image_def getStringSize_def)
qed

end
