(* ===== verification/Mimi_Session.thy ===== *)
theory Mimi_Session
  imports Mimi_Planning Mimi_Network
begin

text \<open>
  A user session (\<open>worker/Handler.cpp\<close>): the state of a worker's thread is the state of the server,
  the client's socket, whether the thread's \<open>MyTransaction\<close> is set, and the cached output functions.
  \<open>MyTransaction\<close> is thread-local: a new session starts without it, although the transaction manager
  may still hold a transaction in the worker's slot. The parser of the statements is an argument.
\<close>

section \<open>The state of a session\<close>

record session_state =
  ss_db :: trans_state
  ss_sock :: sock
  ss_mine :: bool
  ss_outputs :: "(Datum \<Rightarrow> string res) list option"

definition on_db :: "(trans_state, 'a) cm \<Rightarrow> (session_state, 'a) cm" where
  "on_db m s = (case m (ss_db s) of (r, d) \<Rightarrow> (r, s\<lparr>ss_db := d\<rparr>))"

definition on_sock :: "(sock, 'a) cm \<Rightarrow> (session_state, 'a) cm" where
  "on_sock m s = (case m (ss_sock s) of (r, c) \<Rightarrow> (r, s\<lparr>ss_sock := c\<rparr>))"

definition set_mine :: "bool \<Rightarrow> (session_state, unit) cm" where
  "set_mine b = updM (\<lambda>s. s\<lparr>ss_mine := b\<rparr>)"

text \<open>\<open>catch (std::exception \&ex)\<close>\<close>

definition catchM :: "('s, 'a) cm \<Rightarrow> (exn \<Rightarrow> ('s, 'a) cm) \<Rightarrow> ('s, 'a) cm" where
  "catchM m h s = (case m s of
     (Inl e, s') \<Rightarrow> (if unwinds e then h e s' else (Inl e, s')) | (Inr x, s') \<Rightarrow> (Inr x, s'))"

section \<open>SocketServer\<close>

definition getOutputFunctions :: "Database \<Rightarrow> TupleDescriptor \<Rightarrow> (session_state, (Datum \<Rightarrow> string res) list) cm" where
  "getOutputFunctions db desc = bindM (getM ss_outputs) (\<lambda>cached. case cached of
     Some outputs \<Rightarrow> retM outputs
   | None \<Rightarrow> bindM (liftR (foldR (\<lambda>attr outputs. bindR (GetTypeInfo (db_schema db) (ad_typeId attr)) (\<lambda>info. Inr (outputs @ [ty_output info]))) desc [])) (\<lambda>outputs.
       thenM (updM (\<lambda>s. s\<lparr>ss_outputs := Some outputs\<rparr>)) (retM outputs)))"

definition ReadNextPacket :: "(session_state, packet option) cm" where
  "ReadNextPacket = on_sock ReceivePacket"

definition SendTupleDescriptor :: "TupleDescriptor \<Rightarrow> (session_state, unit) cm" where
  "SendTupleDescriptor desc = on_sock (SendPacket (TupleDescriptionPacket [''a'', ''b'']))"

definition output_attr :: "ITuple \<Rightarrow> (Datum \<Rightarrow> string res) list \<Rightarrow> AttrNumber \<Rightarrow> string option list \<Rightarrow> string option list res" where
  "output_attr tup outputs attno attrs = bindR (GetAttribute tup attno) (\<lambda>datum. case datum of
     None \<Rightarrow> Inr (attrs @ [None])
   | Some d \<Rightarrow> bindR (ToIndex attno) (\<lambda>idx. bindR (vec_at outputs idx) (\<lambda>output. bindR (output d) (\<lambda>value. Inr (attrs @ [Some value])))))"

definition SendTuple :: "Database \<Rightarrow> TupleDescriptor \<Rightarrow> ITuple \<Rightarrow> (session_state, unit) cm" where
  "SendTuple db desc tup = bindM (getOutputFunctions db desc) (\<lambda>outputs.
     bindM (liftR (foldR (output_attr tup outputs) (attr_nums (GetMaxAttrNumber desc)) [])) (\<lambda>attrs.
     on_sock (SendPacket (DataRowPacket attrs))))"

definition SendCommandComplete :: "string \<Rightarrow> int \<Rightarrow> (session_state, unit) cm" where
  "SendCommandComplete tag rows = on_sock (SendPacket (CommandCompletePacket tag (word_of_int rows)))"

definition SendError :: "string \<Rightarrow> (session_state, unit) cm" where
  "SendError message = on_sock (SendPacket (ErrorResponsePacket message))"

section \<open>Transaction commands\<close>

definition start_new_transaction_command :: "nat \<Rightarrow> (session_state, unit) cm" where
  "start_new_transaction_command w = bindM (getM ss_mine) (\<lambda>mine.
     if mine then retM () else thenM (on_db (BeginNewTransaction w)) (set_mine True))"

definition handle_begin :: "nat \<Rightarrow> (session_state, unit) cm" where
  "handle_begin w = thenM (start_new_transaction_command w) (SendCommandComplete ''BEGIN'' (- 1))"

definition commit_transaction_command :: "nat \<Rightarrow> (session_state, unit) cm" where
  "commit_transaction_command w = thenM (on_db (CommitTransaction w)) (set_mine False)"

definition handle_commit :: "nat \<Rightarrow> (session_state, unit) cm" where
  "handle_commit w = thenM (commit_transaction_command w) (SendCommandComplete ''COMMIT'' (- 1))"

definition abort_transaction_command :: "nat \<Rightarrow> (session_state, unit) cm" where
  "abort_transaction_command w = bindM (getM ss_mine) (\<lambda>mine.
     if \<not> mine then raiseM (RuntimeError ''There is no transaction'')
     else thenM (on_db (AbortTransaction ApplyUndo w)) (set_mine False))"

definition handle_rollback :: "nat \<Rightarrow> (session_state, unit) cm" where
  "handle_rollback w = thenM (abort_transaction_command w) (SendCommandComplete ''ROLLBACK'' (- 1))"

definition exec_tcl_query :: "nat \<Rightarrow> TransactionCommand \<Rightarrow> (session_state, unit) cm" where
  "exec_tcl_query w command = (case command of
     kBeginTransaction \<Rightarrow> handle_begin w | kRollbackTransaction \<Rightarrow> handle_rollback w | kCommitTransaction \<Rightarrow> handle_commit w)"

section \<open>Queries\<close>

text \<open>
  The scope of an \<open>ImplicitTransactionGuard\<close>: the body gets the guard's \<open>Commit\<close>. The destructor aborts
  the implicit transaction when an exception passes; a second exception there ends the process.
\<close>

definition guard_Commit :: "nat \<Rightarrow> bool \<Rightarrow> (session_state, unit) cm" where
  "guard_Commit w inImplicit = (if inImplicit then commit_transaction_command w else retM ())"

definition guard_destroy :: "nat \<Rightarrow> bool \<Rightarrow> exn \<Rightarrow> (session_state, 'a) cm" where
  "guard_destroy w inImplicit e s = (if \<not> inImplicit then (Inl e, s)
     else case abort_transaction_command w s of
       (Inl e', s') \<Rightarrow> (Inl (if unwinds e' then AssertFail ''std::terminate'' else e'), s')
     | (Inr _, s') \<Rightarrow> (Inl e, s'))"

definition with_implicit_transaction :: "nat \<Rightarrow> ((session_state, unit) cm \<Rightarrow> (session_state, 'a) cm) \<Rightarrow> (session_state, 'a) cm" where
  "with_implicit_transaction w body = bindM (getM ss_mine) (\<lambda>tnxIsRunning.
     thenM (if tnxIsRunning then retM () else start_new_transaction_command w)
       (catchM (body (guard_Commit w (\<not> tnxIsRunning))) (guard_destroy w (\<not> tnxIsRunning))))"

definition cmdTagToString :: "CommandTag \<Rightarrow> string" where
  "cmdTagToString tag = (case tag of SelectTag \<Rightarrow> ''SELECT'' | InsertTag \<Rightarrow> ''INSERT'' | UpdateTag \<Rightarrow> ''UPDATE'' | DeleteTag \<Rightarrow> ''DELETE'')"

text \<open>\<open>while (auto tuple = node->Execute())\<close>\<close>

primrec execute_rows :: "nat \<Rightarrow> nat \<Rightarrow> nat \<Rightarrow> Database \<Rightarrow> TupleDescriptor \<Rightarrow> bool \<Rightarrow> PlanNode \<Rightarrow> (session_state, PlanNode) cm" where
  "execute_rows 0 fuel w db desc sendTuples node = raiseM (Undefined ''endless plan'')"
| "execute_rows (Suc k) fuel w db desc sendTuples node =
     bindM (on_db (PlanNode_Execute fuel w node)) (\<lambda>(tup, node'). case tup of
       None \<Rightarrow> retM node'
     | Some t \<Rightarrow> thenM (if sendTuples then SendTuple db desc (HeapITuple t) else retM ())
         (execute_rows k fuel w db desc sendTuples node'))"

definition run_plan :: "nat \<Rightarrow> nat \<Rightarrow> Database \<Rightarrow> PlannedStmt \<Rightarrow> (session_state, unit) cm \<Rightarrow> (session_state, unit) cm" where
  "run_plan fuel w db stmt tnxBlock_Commit =
     thenM (on_db (BeginNewStatement w)) (
     bindM (on_db (MyTransaction w)) (\<lambda>t.
     bindM (liftR (case tr_snapshot t of None \<Rightarrow> Inl (Undefined ''null snapshot'') | Some sn \<Rightarrow> Inr sn)) (\<lambda>snapshot.
     bindM (liftR (OpenTable db MainTableId)) (\<lambda>table.
     let descriptor = tb_descriptor table; sendTuples = (ps_tag stmt = SelectTag) in
     thenM (if sendTuples then SendTupleDescriptor descriptor else retM ()) (
     bindM (on_db (PlanNode_Start snapshot (ps_plan stmt))) (\<lambda>node.
     bindM (execute_rows fuel fuel w db descriptor sendTuples node) (\<lambda>node.
     bindM (liftR (PlanNode_End node)) (\<lambda>node.
     thenM (SendCommandComplete (cmdTagToString (ps_tag stmt)) (GetRowsProcessed node))
       tnxBlock_Commit))))))))"

definition exec_plannable_query :: "nat \<Rightarrow> nat \<Rightarrow> Database \<Rightarrow> SQLStatement \<Rightarrow> (session_state, unit) cm" where
  "exec_plannable_query fuel w db st =
     bindM (liftR (Plan db st)) (\<lambda>stmt. with_implicit_transaction w (run_plan fuel w db stmt))"

section \<open>The loop of a session\<close>


definition dispatch_query :: "(string \<Rightarrow> SQLStatement res) \<Rightarrow> nat \<Rightarrow> nat \<Rightarrow> Database \<Rightarrow> string \<Rightarrow> (session_state, unit) cm" where
  "dispatch_query parse fuel w db query =
     bindM (liftR (parse query)) (\<lambda>st. case st of
       kStmtTransaction command \<Rightarrow> exec_tcl_query w command
     | _ \<Rightarrow> if IsPlannableStatement st then exec_plannable_query fuel w db st
           else SendError (''Statement '' @ nat_to_string (statement_type st) @ '' is not supported''))"

definition query_failed :: "nat \<Rightarrow> exn \<Rightarrow> (session_state, unit) cm" where
  "query_failed w e = thenM (SendError (exn_what e)) (bindM (getM ss_mine) (\<lambda>mine.
     if mine then on_db (SetStatus w ABORTED) else retM ()))"

definition handle_packet :: "(string \<Rightarrow> SQLStatement res) \<Rightarrow> nat \<Rightarrow> nat \<Rightarrow> Database \<Rightarrow> packet \<Rightarrow> (session_state, unit) cm" where
  "handle_packet parse fuel w db p = (case p of
     QueryPacket query \<Rightarrow> catchM (dispatch_query parse fuel w db query) (query_failed w)
   | _ \<Rightarrow> SendError (''Packet type '' @ nat_to_string (unat (packet_type_code (packet_Type p))) @ '' is not supported''))"

end
