(* ===== verification/Mimi_Answers.thy ===== *)
theory Mimi_Answers
  imports Mimi_Session
begin

text \<open>
  The packets that a session sends: a small logic of computations by what they send, and the grammar of
  the answer to a packet.
\<close>

section \<open>What a session sends\<close>

text \<open>
  The packets that a computation of a session sends, while the kernel accepts data: a condition on the
  state before, and what holds of the result and of the packets sent.
\<close>

definition alive :: "sock \<Rightarrow> bool" where
  "alive c \<longleftrightarrow> SendFail \<notin> set (send_plan c)"

definition sent :: "sock \<Rightarrow> packet list \<Rightarrow> sock \<Rightarrow> bool" where
  "sent c ps c' \<longleftrightarrow> (\<exists>bs. list_all2 (\<lambda>p b. serialize_packet p = Inr b) ps bs \<and> out_bytes c' = out_bytes c @ concat bs)"

lemma sent_Nil [intro!]: "sent c [] c"
  by (simp add: sent_def)

lemma sent_append: "sent c ps c' \<Longrightarrow> sent c' qs c'' \<Longrightarrow> sent c (ps @ qs) c''"
  unfolding sent_def using list_all2_appendI by (metis append.assoc concat_append)

definition sends :: "(session_state \<Rightarrow> bool) \<Rightarrow> ('a res \<Rightarrow> packet list \<Rightarrow> bool) \<Rightarrow> (session_state, 'a) cm \<Rightarrow> bool" where
  "sends B Q m \<longleftrightarrow> (\<forall>s r s'. B s \<longrightarrow> alive (ss_sock s) \<longrightarrow> m s = (r, s') \<longrightarrow>
     alive (ss_sock s') \<and> (\<exists>ps. sent (ss_sock s) ps (ss_sock s') \<and> Q r ps))"

lemma sendsD:
  "sends B Q m \<Longrightarrow> B s \<Longrightarrow> alive (ss_sock s) \<Longrightarrow> m s = (r, s') \<Longrightarrow>
    alive (ss_sock s') \<and> (\<exists>ps. sent (ss_sock s) ps (ss_sock s') \<and> Q r ps)"
  by (simp add: sends_def)

lemma sends_mono: "sends B Q m \<Longrightarrow> (\<And>s. B' s \<Longrightarrow> B s) \<Longrightarrow> (\<And>r ps. Q r ps \<Longrightarrow> Q' r ps) \<Longrightarrow> sends B' Q' m"
  unfolding sends_def by blast

lemma sends_retM: "Q (Inr x) [] \<Longrightarrow> sends B Q (retM x)"
  by (auto simp: sends_def retM_def)

lemma sends_raiseM: "Q (Inl e) [] \<Longrightarrow> sends B Q (raiseM e)"
  by (auto simp: sends_def raiseM_def)

lemma sends_getM: "(\<And>x. Q (Inr x) []) \<Longrightarrow> sends B Q (getM g)"
  by (auto simp: sends_def getM_def)

lemma sends_updM: "Q (Inr ()) [] \<Longrightarrow> (\<And>s. ss_sock (f s) = ss_sock s) \<Longrightarrow> sends B Q (updM f)"
  by (auto simp: sends_def updM_def)

lemma sends_liftR: "Q r [] \<Longrightarrow> sends B Q (liftR r)"
  by (auto simp: sends_def liftR_def)

lemma sends_on_db: "(\<And>r. Q r []) \<Longrightarrow> sends B Q (on_db n)"
  by (auto simp: sends_def on_db_def split: prod.splits)

lemmas sends_basic = sends_retM sends_raiseM sends_getM sends_updM sends_liftR sends_on_db

lemma sends_bindM:
  assumes "sends B (\<lambda>r ps. case r of Inl e \<Rightarrow> Q (Inl e) ps | Inr x \<Rightarrow> sends (\<lambda>_. True) (\<lambda>r' ps'. Q r' (ps @ ps')) (f x)) m"
  shows "sends B Q (bindM m f)"
  unfolding sends_def
proof (intro allI impI)
  fix s r s'
  assume b: "B s" "alive (ss_sock s)" and r: "bindM m f s = (r, s')"
  show "alive (ss_sock s') \<and> (\<exists>ps. sent (ss_sock s) ps (ss_sock s') \<and> Q r ps)"
  proof (cases "m s")
    case (Pair r1 s1)
    note h = sendsD [OF assms b Pair]
    show ?thesis
    proof (cases r1)
      case (Inl e)
      then show ?thesis using h r Pair by (simp add: bindM_def)
    next
      case (Inr x)
      then have "f x s1 = (r, s')" using r Pair by (simp add: bindM_def)
      moreover obtain ps where "sent (ss_sock s) ps (ss_sock s1)" "sends (\<lambda>_. True) (\<lambda>r' ps'. Q r' (ps @ ps')) (f x)" using h Inr by auto
      ultimately show ?thesis using h sendsD [of "\<lambda>_. True" _ "f x" s1] sent_append by blast
    qed
  qed
qed

lemma sends_thenM:
  "sends B (\<lambda>r ps. case r of Inl e \<Rightarrow> Q (Inl e) ps | Inr x \<Rightarrow> sends (\<lambda>_. True) (\<lambda>r' ps'. Q r' (ps @ ps')) k) m \<Longrightarrow> sends B Q (thenM m k)"
  unfolding thenM_def by (rule sends_bindM)

text \<open>Computations that only look at the state keep the condition on it.\<close>

lemma sends_liftR_bind: "(\<And>e. r = Inl e \<Longrightarrow> Q (Inl e) []) \<Longrightarrow> (\<And>x. r = Inr x \<Longrightarrow> sends B Q (f x)) \<Longrightarrow> sends B Q (bindM (liftR r) f)"
  by (cases r) (auto simp: sends_def bindM_def liftR_def)

lemma sends_getM_bind: "(\<And>x. sends (\<lambda>s. B s \<and> g s = x) Q (f x)) \<Longrightarrow> sends B Q (bindM (getM g) f)"
  by (auto simp: sends_def bindM_def getM_def)

lemma sends_catchM:
  assumes "sends B (\<lambda>r ps. case r of Inr x \<Rightarrow> Q (Inr x) ps
    | Inl e \<Rightarrow> if unwinds e then sends (\<lambda>_. True) (\<lambda>r' ps'. Q r' (ps @ ps')) (h e) else Q (Inl e) ps) m"
  shows "sends B Q (catchM m h)"
  unfolding sends_def
proof (intro allI impI)
  fix s r s'
  assume b: "B s" "alive (ss_sock s)" and r: "catchM m h s = (r, s')"
  show "alive (ss_sock s') \<and> (\<exists>ps. sent (ss_sock s) ps (ss_sock s') \<and> Q r ps)"
  proof (cases "m s")
    case (Pair r1 s1)
    note p = sendsD [OF assms b Pair]
    show ?thesis
    proof (cases "\<exists>e. r1 = Inl e \<and> unwinds e")
      case True
      then obtain e where e: "r1 = Inl e" "unwinds e" by blast
      then have "h e s1 = (r, s')" using r Pair by (simp add: catchM_def)
      moreover obtain ps where "sent (ss_sock s) ps (ss_sock s1)" "sends (\<lambda>_. True) (\<lambda>r' ps'. Q r' (ps @ ps')) (h e)" using p e by auto
      ultimately show ?thesis using p sendsD [of "\<lambda>_. True" _ "h e" s1] sent_append by blast
    next
      case False
      then show ?thesis using p r Pair by (auto simp: catchM_def split: sum.splits)
    qed
  qed
qed

lemma SendPacket_cases:
  assumes "alive c" "SendPacket p c = (r, c')"
  shows "alive c' \<and> (r = Inr () \<and> sent c [p] c' \<or> (\<exists>e. r = Inl e) \<and> c' = c)"
proof -
  have k: "alive c \<Longrightarrow> alive (snd (sendBuffer bs c))" for bs
  proof (induction bs c rule: sendBuffer.induct)
    case (1 bs s)
    then show ?case
      by (auto simp: sendBuffer.simps [of bs s] sys_send_def alive_def split: list.splits send_outcome.splits)
  qed
  show ?thesis
  proof (cases "serialize_packet p")
    case (Inl e)
    then show ?thesis using assms by (auto simp: SendPacket_def bindM_def liftR_def)
  next
    case (Inr buffer)
    obtain c1 where c1: "sendBuffer buffer c = (Inr (), c1)" "out_bytes c1 = out_bytes c @ buffer"
      using sendBuffer_ok [of c buffer] assms(1) by (auto simp: alive_def)
    show ?thesis
    proof (cases "length buffer \<le> 1")
      case True
      then show ?thesis using assms Inr by (auto simp: SendPacket_def bindM_def liftR_def raiseM_def)
    next
      case False
      then have "(r, c') = (Inr (), c1)" using assms(2) Inr c1(1) by (simp add: SendPacket_def bindM_def liftR_def)
      then show ?thesis using c1 k [OF assms(1), of buffer] Inr by (auto simp: sent_def intro!: exI [of _ "[buffer]"])
    qed
  qed
qed

lemma sends_SendPacket: "Q (Inr ()) [p] \<Longrightarrow> (\<And>e. Q (Inl e) []) \<Longrightarrow> sends B Q (on_sock (SendPacket p))"
  using SendPacket_cases by (fastforce simp: sends_def on_sock_def split: prod.splits)

definition silent :: "(session_state, 'a) cm \<Rightarrow> bool" where
  "silent m \<longleftrightarrow> sends (\<lambda>_. True) (\<lambda>r ps. ps = []) m"

lemma silentD: "silent m \<Longrightarrow> (\<And>r. Q r []) \<Longrightarrow> sends B Q m"
  unfolding silent_def by (erule sends_mono) auto

lemma silent_bind: "silent m \<Longrightarrow> (\<And>e. Q (Inl e) []) \<Longrightarrow> (\<And>x. sends (\<lambda>_. True) Q (f x)) \<Longrightarrow> sends B Q (bindM m f)"
  by (rule sends_bindM, erule silentD) (simp split: sum.split)

lemma silent_then: "silent m \<Longrightarrow> (\<And>e. Q (Inl e) []) \<Longrightarrow> sends (\<lambda>_. True) Q k \<Longrightarrow> sends B Q (thenM m k)"
  unfolding thenM_def by (rule silent_bind)

lemma SendPacket_then:
  "(\<And>e. Q (Inl e) []) \<Longrightarrow> sends (\<lambda>_. True) (\<lambda>r ps. Q r (p # ps)) k \<Longrightarrow> sends B Q (thenM (on_sock (SendPacket p)) k)"
  by (rule sends_thenM, rule sends_SendPacket) simp_all

lemma silent_on_db [simp]: "silent (on_db m)"
  unfolding silent_def by (rule sends_on_db) simp

lemma silent_retM [simp]: "silent (retM x)"
  unfolding silent_def by (rule sends_retM) simp

section \<open>Answers\<close>

text \<open>An answer: a table of rows or nothing, then the completion of the command or an error.\<close>

definition is_row :: "packet \<Rightarrow> bool" where "is_row p \<longleftrightarrow> (\<exists>values. p = DataRowPacket values)"
definition is_complete :: "packet \<Rightarrow> bool" where "is_complete p \<longleftrightarrow> (\<exists>tag n. p = CommandCompletePacket tag n)"
definition is_error :: "packet \<Rightarrow> bool" where "is_error p \<longleftrightarrow> (\<exists>m. p = ErrorResponsePacket m)"

lemma is_packet [simp]: "is_row (DataRowPacket vs)" "is_complete (CommandCompletePacket tag n)" "is_error (ErrorResponsePacket m)"
  by (simp_all add: is_row_def is_complete_def is_error_def)

definition is_table :: "packet list \<Rightarrow> bool" where
  "is_table ps \<longleftrightarrow> ps = [] \<or> (\<exists>names rows. ps = TupleDescriptionPacket names # rows \<and> list_all is_row rows)"

definition is_answer :: "packet list \<Rightarrow> bool" where
  "is_answer ps \<longleftrightarrow> (\<exists>tbl final. ps = tbl @ [final] \<and> is_table tbl \<and> (is_complete final \<or> is_error final))"

text \<open>A failed commit of an implicit transaction answers a second time.\<close>

definition is_double_answer :: "packet list \<Rightarrow> bool" where
  "is_double_answer ps \<longleftrightarrow> (\<exists>tbl c m. ps = tbl @ [c, m] \<and> is_table tbl \<and> is_complete c \<and> is_error m)"

lemmas send_rules = sends_bindM sends_thenM sends_basic sends_SendPacket

lemma silent_commands [simp]: "silent (start_new_transaction_command w)" "silent (commit_transaction_command w)" "silent (abort_transaction_command w)"
  unfolding silent_def start_new_transaction_command_def commit_transaction_command_def abort_transaction_command_def set_mine_def
  by (auto intro!: send_rules split: sum.splits)

definition tcl_answer :: "unit res \<Rightarrow> packet list \<Rightarrow> bool" where
  "tcl_answer r ps \<longleftrightarrow> (case r of Inl e \<Rightarrow> ps = [] | Inr _ \<Rightarrow> \<exists>c. ps = [c] \<and> is_complete c)"

lemma sends_tcl: "sends B tcl_answer (exec_tcl_query w command)"
  by (cases command)
    (auto simp: exec_tcl_query_def handle_begin_def handle_commit_def handle_rollback_def SendCommandComplete_def tcl_answer_def
      intro!: silent_then sends_SendPacket)

lemma sends_row: "sends B (\<lambda>r ps. list_all is_row ps) (SendTuple db desc tup)"
  unfolding SendTuple_def getOutputFunctions_def
  by (auto intro!: send_rules split: sum.splits option.splits)

lemma sends_rows: "sends B (\<lambda>r ps. if sendTuples then list_all is_row ps else ps = []) (execute_rows k fuel w db desc sendTuples node)"
proof (induction k arbitrary: B node)
  case 0
  then show ?case by (auto intro!: send_rules)
next
  case (Suc k)
  let ?Q = "\<lambda>(r::PlanNode res) ps. if sendTuples then list_all is_row ps else ps = []"
  have some: "sends B' ?Q (thenM (if sendTuples then SendTuple db desc (HeapITuple t) else retM ()) (execute_rows k fuel w db desc sendTuples node'))" for B' t node'
    using Suc.IH [of "\<lambda>_. True" node']
    by (intro sends_thenM, cases sendTuples) (auto intro!: sends_basic sends_mono [OF sends_row] split: sum.splits)
  have "sends B' ?Q (case z of (tup, node') \<Rightarrow> case tup of None \<Rightarrow> retM node'
     | Some t \<Rightarrow> thenM (if sendTuples then SendTuple db desc (HeapITuple t) else retM ()) (execute_rows k fuel w db desc sendTuples node'))" for B' z
    using some by (cases z; cases "fst z") (auto intro!: sends_retM)
  then show ?case unfolding execute_rows.simps by (intro silent_bind) simp_all
qed

text \<open>The plan of a statement, with the commit of its guard.\<close>

definition plan_answer :: "bool \<Rightarrow> unit res \<Rightarrow> packet list \<Rightarrow> bool" where
  "plan_answer committing r ps \<longleftrightarrow> (case r of
     Inr _ \<Rightarrow> (\<exists>tbl c. ps = tbl @ [c] \<and> is_table tbl \<and> is_complete c)
   | Inl e \<Rightarrow> is_table ps \<or> committing \<and> (\<exists>tbl c. ps = tbl @ [c] \<and> is_table tbl \<and> is_complete c))"

lemma plan_answer_Nil [simp]: "plan_answer committing (Inl e) []"
  by (simp add: plan_answer_def is_table_def)

lemma sends_run_plan:
  assumes "silent commit" "\<not> committing \<Longrightarrow> commit = retM ()"
  shows "sends B (plan_answer committing) (run_plan fuel w db stmt commit)"
proof -
  let ?sel = "ps_tag stmt = SelectTag"
  have fin: "sends B' (\<lambda>r ps. plan_answer committing r (tbl @ ps))
      (thenM (SendCommandComplete tag n) commit)" if tbl: "is_table tbl" for B' tbl tag n
  proof -
    have "sends (\<lambda>_. True) (\<lambda>r ps. plan_answer committing r (tbl @ CommandCompletePacket tag (word_of_int n) # ps)) commit"
    proof (cases committing)
      case True
      then show ?thesis using tbl by (intro silentD [OF assms(1)]) (auto simp: plan_answer_def split: sum.split)
    next
      case False
      then show ?thesis using tbl assms(2) by (auto simp: plan_answer_def intro!: sends_retM)
    qed
    then show ?thesis unfolding SendCommandComplete_def using tbl by (intro SendPacket_then) (simp_all add: plan_answer_def)
  qed
  have ending: "sends B' (\<lambda>r ps. plan_answer committing r (tbl @ ps)) (bindM (liftR (PlanNode_End node)) (\<lambda>node.
      thenM (SendCommandComplete (cmdTagToString (ps_tag stmt)) (GetRowsProcessed node)) commit))" if "is_table tbl" for B' tbl node
    using that by (intro sends_liftR_bind fin) (simp_all add: plan_answer_def)
  define tail where "tail desc node = bindM (execute_rows fuel fuel w db desc ?sel node) (\<lambda>node.
      bindM (liftR (PlanNode_End node)) (\<lambda>node.
      thenM (SendCommandComplete (cmdTagToString (ps_tag stmt)) (GetRowsProcessed node)) commit))" for desc node
  have tail: "sends B' (\<lambda>r ps. plan_answer committing r (pre @ ps)) (tail desc node)"
    if pre: "if ?sel then \<exists>names. pre = [TupleDescriptionPacket names] else pre = []" for B' pre desc node
  proof -
    have tbl: "is_table (pre @ ps)" if "if ?sel then list_all is_row ps else ps = []" for ps
      using pre that by (auto simp: is_table_def split: if_splits)
    have "case r of Inl e \<Rightarrow> plan_answer committing (Inl e) (pre @ ps) | Inr x \<Rightarrow> sends (\<lambda>_. True) (\<lambda>r' ps'. plan_answer committing r' (pre @ ps @ ps'))
        (bindM (liftR (PlanNode_End x)) (\<lambda>node. thenM (SendCommandComplete (cmdTagToString (ps_tag stmt)) (GetRowsProcessed node)) commit))"
      if "if ?sel then list_all is_row ps else ps = []" for r ps
      using tbl [OF that] ending [OF tbl [OF that]] by (simp add: plan_answer_def split: sum.split)
    then show ?thesis unfolding tail_def by (intro sends_bindM sends_mono [OF sends_rows]) auto
  qed
  have start: "sends B' (\<lambda>r ps. plan_answer committing r (pre @ ps)) (bindM (on_db (PlanNode_Start sn (ps_plan stmt))) (tail desc))"
    if pre: "if ?sel then \<exists>names. pre = [TupleDescriptionPacket names] else pre = []" for B' pre sn desc
  proof -
    have "is_table pre" using pre by (auto simp: is_table_def split: if_splits)
    then show ?thesis using tail [OF pre] by (intro silent_bind) (simp_all add: plan_answer_def)
  qed
  have desc: "sends B' (plan_answer committing) (thenM (if ?sel then SendTupleDescriptor d else retM ()) (bindM (on_db (PlanNode_Start sn (ps_plan stmt))) (tail d)))" for B' d sn
  proof (cases ?sel)
    case True
    then have "sends (\<lambda>_. True) (\<lambda>r ps. plan_answer committing r ([TupleDescriptionPacket [''a'', ''b'']] @ ps)) (bindM (on_db (PlanNode_Start sn (ps_plan stmt))) (tail d))"
      by (intro start) simp
    then show ?thesis using True
      by (simp only: SendTupleDescriptor_def if_True simp_thms) (intro SendPacket_then, simp_all add: plan_answer_def is_table_def)
  next
    case False
    then show ?thesis using start [of "[]"] by (auto intro!: silent_then)
  qed
  show ?thesis unfolding run_plan_def Let_def tail_def [symmetric]
    by (intro silent_then silent_bind sends_liftR_bind silent_on_db plan_answer_Nil desc)
qed

section \<open>Every packet is answered\<close>

lemma silent_guard: "silent (guard_Commit w b)" "\<not> b \<Longrightarrow> guard_Commit w b = retM ()"
  by (simp_all add: guard_Commit_def)

lemma sends_guard_destroy: "(\<And>e'. Q (Inl e') []) \<Longrightarrow> sends B Q (guard_destroy w b e)"
proof -
  assume q: "\<And>e'. Q (Inl e') []"
  have "sends B (\<lambda>r ps. ps = []) (abort_transaction_command w)" by (rule silentD) simp_all
  then show ?thesis using q
    by (fastforce simp: sends_def guard_destroy_def split: prod.splits sum.splits)
qed

lemma sends_with_transaction:
  assumes "\<And>B. sends B (plan_answer (\<not> b)) (body (guard_Commit w (\<not> b)))"
  shows "sends B (plan_answer (\<not> b)) (thenM (if b then retM () else start_new_transaction_command w)
      (catchM (body (guard_Commit w (\<not> b))) (guard_destroy w (\<not> b))))"
proof -
  have "sends (\<lambda>_. True) (plan_answer (\<not> b)) (catchM (body (guard_Commit w (\<not> b))) (guard_destroy w (\<not> b)))"
    using assms by (intro sends_catchM sends_mono [OF assms]) (auto simp: plan_answer_def intro!: sends_guard_destroy split: sum.split)
  then show ?thesis by (intro silent_then) (simp_all add: plan_answer_def is_table_def)
qed

text \<open>An answer to a query; in a transaction of the user there is exactly one.\<close>

definition query_answer :: "bool \<Rightarrow> unit res \<Rightarrow> packet list \<Rightarrow> bool" where
  "query_answer mine r ps \<longleftrightarrow> (case r of
     Inr _ \<Rightarrow> is_answer ps | Inl e \<Rightarrow> is_table ps \<or> \<not> mine \<and> (\<exists>tbl c. ps = tbl @ [c] \<and> is_table tbl \<and> is_complete c))"

lemma sends_plannable: "sends (\<lambda>s. ss_mine s = mine) (query_answer mine) (exec_plannable_query fuel w db st)"
proof -
  have "sends (\<lambda>s. ss_mine s = mine \<and> ss_mine s = x) (query_answer mine)
      (thenM (if x then retM () else start_new_transaction_command w)
        (catchM (run_plan fuel w db stmt (guard_Commit w (\<not> x))) (guard_destroy w (\<not> x))))" for x stmt
  proof (cases "x = mine")
    case True
    show ?thesis
      by (rule sends_mono [OF sends_with_transaction [of x "run_plan fuel w db stmt"]])
        (use True silent_guard sends_run_plan in \<open>auto simp: plan_answer_def query_answer_def is_answer_def split: sum.splits\<close>)
  next
    case False
    then show ?thesis by (auto simp: sends_def)
  qed
  then show ?thesis unfolding exec_plannable_query_def with_implicit_transaction_def
    by (intro sends_liftR_bind sends_getM_bind) (simp_all add: query_answer_def is_table_def)
qed

lemma sends_dispatch: "sends (\<lambda>s. ss_mine s = mine) (query_answer mine) (dispatch_query parse fuel w db query)"
proof -
  have tcl: "sends (\<lambda>s. ss_mine s = mine) (query_answer mine) (exec_tcl_query w command)" for command
    by (rule sends_mono [OF sends_tcl]) (auto simp: tcl_answer_def query_answer_def is_answer_def is_table_def split: sum.splits)
  have err: "sends (\<lambda>s. ss_mine s = mine) (query_answer mine) (SendError m)" for m
    unfolding SendError_def by (rule sends_SendPacket) (auto simp: query_answer_def is_answer_def is_table_def)
  show ?thesis unfolding dispatch_query_def
    by (intro sends_liftR_bind) (auto simp: query_answer_def [of _ "Inl _"] is_table_def split: SQLStatement.split intro: tcl err sends_plannable)
qed

lemma sends_query_failed: "sends B (\<lambda>r ps. r = Inr () \<longrightarrow> (\<exists>m. ps = [ErrorResponsePacket m])) (query_failed w e)"
proof -
  have "sends (\<lambda>_. True) (\<lambda>r ps. r = Inr () \<longrightarrow> (\<exists>m. p # ps = [ErrorResponsePacket m]))
      (bindM (getM ss_mine) (\<lambda>mine. if mine then on_db (SetStatus w ABORTED) else retM ()))"
    if "p = ErrorResponsePacket m" for p m
    using that by (intro sends_getM_bind) (auto intro!: sends_on_db sends_retM)
  then show ?thesis unfolding query_failed_def SendError_def by (intro SendPacket_then) simp_all
qed

lemma sends_handle_packet:
  "sends (\<lambda>s. ss_mine s = mine) (\<lambda>r ps. r = Inr () \<longrightarrow> is_answer ps \<or> \<not> mine \<and> is_double_answer ps) (handle_packet parse fuel w db p)"
proof -
  let ?A = "\<lambda>r ps. r = Inr () \<longrightarrow> is_answer ps \<or> \<not> mine \<and> is_double_answer ps"
  have err: "sends B ?A (SendError m)" for B m
    unfolding SendError_def by (rule sends_SendPacket) (auto simp: is_answer_def is_table_def)
  have "sends (\<lambda>s. ss_mine s = mine) ?A (catchM (dispatch_query parse fuel w db query) (query_failed w))" for query
  proof (rule sends_catchM, rule sends_mono [OF sends_dispatch [of mine]])
    fix r ps assume a: "query_answer mine r ps"
    have "?A r' (ps @ ps')" if e: "r = Inl e" and q: "r' = Inr () \<longrightarrow> (\<exists>m. ps' = [ErrorResponsePacket m])" for e and r' :: "unit res" and ps'
    proof
      assume "r' = Inr ()"
      then obtain m where m: "ps' = [ErrorResponsePacket m]" using q by blast
      from a e consider "is_table ps" | tbl c where "\<not> mine" "ps = tbl @ [c]" "is_table tbl" "is_complete c" by (auto simp: query_answer_def)
      then show "is_answer (ps @ ps') \<or> \<not> mine \<and> is_double_answer (ps @ ps')"
      proof cases
        case 1
        then show ?thesis using m by (auto simp: is_answer_def)
      next
        case 2
        then have "is_double_answer (ps @ ps')" using m by (auto simp: is_double_answer_def)
        then show ?thesis using 2 by blast
      qed
    qed
    then show "case r of Inl e \<Rightarrow> if unwinds e then sends (\<lambda>_. True) (\<lambda>r' ps'. ?A r' (ps @ ps')) (query_failed w e) else ?A (Inl e) ps | Inr x \<Rightarrow> ?A (Inr x) ps"
      using a by (auto simp: query_answer_def intro!: sends_mono [OF sends_query_failed] split: sum.split)
  qed simp
  then show ?thesis unfolding handle_packet_def by (cases p) (auto intro: err)
qed

text \<open>
  Every packet of a client is answered: while the kernel accepts data, a packet that the session
  processes is answered by a table (a description and its rows) or nothing, then by one completion or
  one error. Only outside a transaction of the user can a second answer follow: an error after the
  completion, when the commit of the implicit transaction fails after the completion was sent.
\<close>

theorem every_packet_answered:
  assumes "SendFail \<notin> set (send_plan (ss_sock s))" and "handle_packet parse fuel w db p s = (Inr (), s')"
  shows "\<exists>ps. sent (ss_sock s) ps (ss_sock s') \<and> (is_answer ps \<or> \<not> ss_mine s \<and> is_double_answer ps)"
  using sendsD [OF sends_handle_packet [of "ss_mine s"] refl _ assms(2)] assms(1) by (auto simp: alive_def)

end
