(* ===== verification/Mimi_SessionLoop.thy ===== *)
theory Mimi_SessionLoop
  imports Mimi_Answers
begin

text \<open>
  The loop of a session as a total function: every round takes a packet from the input.
\<close>

section \<open>The loop\<close>

definition input_is :: "byte list list \<times> stream_end \<Rightarrow> session_state \<Rightarrow> bool" where
  "input_is x s \<longleftrightarrow> (in_segs (ss_sock s), in_end (ss_sock s)) = x"

lemma keeps_on_db [keep_intros]: "keeps (input_is x) (on_db m)"
  by (auto simp: keeps_def on_db_def input_is_def split: prod.splits)

lemma keeps_send [keep_intros]: "keeps (input_is x) (on_sock (SendPacket p))"
proof -
  have "in_segs (snd (SendPacket p c)) = in_segs c \<and> in_end (snd (SendPacket p c)) = in_end c" for c
    by (cases "serialize_packet p") (simp_all add: SendPacket_def bindM_def liftR_def raiseM_def sendBuffer_input)
  then show ?thesis by (auto simp: keeps_def on_sock_def input_is_def split: prod.splits) (metis snd_conv)+
qed

lemma keeps_catchM [keep_intros]: "keeps P m \<Longrightarrow> (\<And>e. keeps P (h e)) \<Longrightarrow> keeps P (catchM m h)"
  by (auto simp: keeps_def catchM_def split: prod.splits sum.splits)

lemma keeps_updM_input [keep_intros]: "(\<And>s. ss_sock (f s) = ss_sock s) \<Longrightarrow> keeps (input_is x) (updM f)"
  by (simp add: keeps_def updM_def input_is_def)

lemma keeps_tcl [keep_intros]: "keeps (input_is x) (start_new_transaction_command w)" "keeps (input_is x) (commit_transaction_command w)"
  "keeps (input_is x) (abort_transaction_command w)" "keeps (input_is x) (SendCommandComplete tag n)" "keeps (input_is x) (SendError m)"
  unfolding start_new_transaction_command_def commit_transaction_command_def abort_transaction_command_def SendCommandComplete_def SendError_def set_mine_def
  by (auto intro!: keep_intros)

lemma keeps_guard [keep_intros]: "keeps (input_is x) (guard_destroy w b e)" "keeps (input_is x) (guard_Commit w b)"
proof -
  have "keeps (input_is x) (abort_transaction_command w)" by (intro keep_intros)
  then show "keeps (input_is x) (guard_destroy w b e)"
    by (auto simp: keeps_def guard_destroy_def split: prod.splits sum.splits)
  show "keeps (input_is x) (guard_Commit w b)" unfolding guard_Commit_def by (intro keep_intros)
qed

lemma keeps_SendTuple [keep_intros]: "keeps (input_is x) (SendTuple db desc tup)" "keeps (input_is x) (SendTupleDescriptor desc)"
  unfolding SendTuple_def getOutputFunctions_def SendTupleDescriptor_def by (auto intro!: keep_intros)

lemma keeps_rows [keep_intros]: "keeps (input_is x) (execute_rows k fuel w db desc sendTuples node)"
  by (induction k arbitrary: node) (auto intro!: keep_intros split: option.splits)

lemma keeps_handle_packet [keep_intros]: "keeps (input_is x) (handle_packet parse fuel w db p)"
proof -
  have plan: "keeps (input_is x) (run_plan fuel w db stmt (guard_Commit w b))" for stmt b
    unfolding run_plan_def Let_def by (intro keep_intros)
  have query: "keeps (input_is x) (exec_plannable_query fuel w db st)" for st
    unfolding exec_plannable_query_def with_implicit_transaction_def by (intro keep_intros plan)
  have tcl: "keeps (input_is x) (exec_tcl_query w command)" for command
    unfolding exec_tcl_query_def handle_begin_def handle_commit_def handle_rollback_def by (cases command) (auto intro!: keep_intros)
  have "keeps (input_is x) (catchM (dispatch_query parse fuel w db q) (query_failed w))" for q
    unfolding dispatch_query_def query_failed_def by (intro keep_intros) (auto intro!: keep_intros query tcl split: SQLStatement.split)
  then show ?thesis unfolding handle_packet_def by (cases p) (auto intro!: keep_intros)
qed

lemma round_shorter:
  assumes "ReadNextPacket s = (Inr (Some p), s1)" "handle_packet parse fuel w db p s1 = (r, s2)"
  shows "length (stream (ss_sock s2)) < length (stream (ss_sock s))"
proof -
  have "length (stream (ss_sock s1)) < length (stream (ss_sock s))"
    using assms(1) ReceivePacket_shorter by (fastforce simp: ReadNextPacket_def on_sock_def split: prod.splits)
  moreover have "in_segs (ss_sock s2) = in_segs (ss_sock s1)"
    using keepsD [OF keeps_handle_packet [of "(in_segs (ss_sock s1), in_end (ss_sock s1))"] assms(2)] by (simp add: input_is_def)
  ultimately show ?thesis by (simp add: stream_def)
qed

text \<open>
  \<open>while (auto packet = server.ReadNextPacket())\<close>. Every round takes a packet from the input, so that
  the loop ends on every input; no fuel is needed.
\<close>

function handle_loop :: "(string \<Rightarrow> SQLStatement res) \<Rightarrow> nat \<Rightarrow> nat \<Rightarrow> Database \<Rightarrow> (session_state, unit) cm" where
  "handle_loop parse fuel w db s = (case ReadNextPacket s of
     (Inl e, s1) \<Rightarrow> (Inl e, s1)
   | (Inr None, s1) \<Rightarrow> (Inr (), s1)
   | (Inr (Some p), s1) \<Rightarrow> (case handle_packet parse fuel w db p s1 of
       (Inl e, s2) \<Rightarrow> (Inl e, s2)
     | (Inr _, s2) \<Rightarrow> handle_loop parse fuel w db s2))"
  by pat_completeness auto
termination
  by (relation "measure (\<lambda>(parse, fuel, w, db, s). length (stream (ss_sock s)))")
    (simp, simp only: in_measure split_conv, blast intro: round_shorter sym)

declare handle_loop.simps [simp del]

text \<open>
  The thread of a session: its thread-local variables are fresh, exceptions end it quietly, and the
  destructor of the \<open>SocketServer\<close> closes the socket.
\<close>

definition HandleUserConnection :: "(string \<Rightarrow> SQLStatement res) \<Rightarrow> nat \<Rightarrow> nat \<Rightarrow> Database \<Rightarrow> trans_state \<Rightarrow> sock \<Rightarrow> unit res \<times> session_state" where
  "HandleUserConnection parse fuel w db d c =
     finallyM (catchM (handle_loop parse fuel w db) (\<lambda>e. retM ())) (on_sock client_Close) \<lparr>ss_db = d, ss_sock = c, ss_mine = False, ss_outputs = None\<rparr>"

end
