(* ===== verification/Mimi_SessionTrans.thy ===== *)
theory Mimi_SessionTrans
  imports Mimi_SessionLoop
begin

text \<open>
  Transactions through a session: the runs of BEGIN, COMMIT and of a failed statement, and whole sessions
  from the bytes of the client.
\<close>

section \<open>Committing through a session\<close>

definition Hardened :: "Transaction \<Rightarrow> trans_state \<Rightarrow> trans_state \<Rightarrow> bool" where
  "Hardened t d d1 \<longleftrightarrow> (if Lsn_IsValid (tr_lastLsn t) then WAL_Flush (tr_lastLsn t) else retM ()) d = (Inr (), d1)"

definition committed :: "nat \<Rightarrow> Transaction \<Rightarrow> TransactionManager \<Rightarrow> TransactionManager" where
  "committed w t m = m\<lparr>tm_csn := tm_csn m + 1, tm_transactions := (tm_transactions m)[w := None],
     tm_xidToWorker := (tm_xidToWorker m)(tr_xid t := None), tm_history := (tm_history m)(tr_xid t \<mapsto> tm_csn m)\<rparr>"

text \<open>A transaction in a worker's slot that can be committed.\<close>

definition committable :: "nat \<Rightarrow> Transaction \<Rightarrow> trans_state \<Rightarrow> bool" where
  "committable w t d \<longleftrightarrow> trans_of (ts_tm d) w = Some t \<and> tr_workerId t = w \<and> \<not> tm_mutex (ts_tm d) \<and>
     tm_xidToWorker (ts_tm d) (tr_xid t) \<noteq> None \<and> Csn_IsNormal (tm_csn (ts_tm d))"

lemma Hardened_tm: "Hardened t d d1 \<Longrightarrow> ts_tm d1 = ts_tm d"
proof -
  assume h: "Hardened t d d1"
  have "keeps (\<lambda>s. ts_tm s = v) (if Lsn_IsValid (tr_lastLsn t) then WAL_Flush (tr_lastLsn t) else retM ())" for v
    by (intro keep_intros)
  from keeps_same [OF this] h show ?thesis by (simp add: Hardened_def)
qed

lemma CommitTransaction_run:
  assumes c: "committable w t d" and h: "Hardened t d d1"
  shows "CommitTransaction w d = (Inr (), d1\<lparr>ts_tm := committed w t (ts_tm d)\<rparr>)"
proof -
  have w: "w < length (tm_transactions (ts_tm d))" "tm_transactions (ts_tm d) ! w = Some t"
    using c by (simp_all add: committable_def trans_of_def split: if_splits)
  obtain v where v: "tm_xidToWorker (ts_tm d) (tr_xid t) = Some v" using c by (auto simp: committable_def)
  have o: "own_transaction w d = (Inr t, d)" using w c by (simp add: own_transaction_def tm_simps committable_def)
  let ?d = "d1\<lparr>ts_tm := set_history (tr_xid t) Csn_Committing (ts_tm d)\<rparr>"
  have m: "Commit_mark w d = (Inr (tr_xid t), ?d)"
    using o h c Hardened_tm [OF h]
    by (simp add: Commit_mark_def bindM_def thenM_def Hardened_def lock_mutex_def unlock_mutex_def get_tm_def upd_tm_def getM_def updM_def retM_def set_history_def committable_def)
  let ?d2 = "d1\<lparr>ts_tm := (set_history (tr_xid t) Csn_Committing (ts_tm d))\<lparr>tm_csn := tm_csn (ts_tm d) + 1\<rparr>\<rparr>"
  have n: "Commit_number ?d = (Inr (tm_csn (ts_tm d)), ?d2)"
    by (simp add: Commit_number_def get_tm_def upd_tm_def getM_def updM_def retM_def bindM_def thenM_def set_history_def)
  let ?d3 = "d1\<lparr>ts_tm := (ts_tm d)\<lparr>tm_csn := tm_csn (ts_tm d) + 1, tm_xidToWorker := (tm_xidToWorker (ts_tm d))(tr_xid t := None),
     tm_history := (tm_history (ts_tm d))(tr_xid t \<mapsto> tm_csn (ts_tm d))\<rparr>\<rparr>"
  have p: "Commit_publish (tr_xid t) (tm_csn (ts_tm d)) ?d2 = (Inr (), ?d3)"
    using v c by (simp add: Commit_publish_def end_in_table_def lock_mutex_def unlock_mutex_def get_tm_def upd_tm_def getM_def updM_def retM_def bindM_def thenM_def
      set_history_def committable_def)
  have "MyTransaction w ?d3 = (Inr t, ?d3)" using c by (intro MyTransaction_run) (simp add: committable_def trans_of_def)
  then have "Commit_finish w (tm_csn (ts_tm d)) ?d3 = (Inr (), d1\<lparr>ts_tm := committed w t (ts_tm d)\<rparr>)"
    using c by (simp add: Commit_finish_def bindM_def thenM_def liftR_def updM_def Transaction_Commit_def set_MyTransaction_def upd_tm_def set_slot_def committed_def committable_def clear_slot_run)
  then show ?thesis by (simp add: CommitTransaction_def bindM_def thenM_def m n p)
qed

lemma BeginNewTransaction_run:
  assumes "w < length (tm_transactions (ts_tm d))" "\<not> tm_mutex (ts_tm d)" "trans_of (ts_tm d) w = None"
  shows "BeginNewTransaction w d = (Inr (), d\<lparr>ts_tm := (ts_tm d)\<lparr>tm_xid := tm_xid (ts_tm d) + 1,
    tm_transactions := (tm_transactions (ts_tm d))[w := Some (new_Transaction (tm_xid (ts_tm d)) w)],
    tm_xidToWorker := (tm_xidToWorker (ts_tm d))(tm_xid (ts_tm d) \<mapsto> w), tm_history := (tm_history (ts_tm d))(tm_xid (ts_tm d) \<mapsto> Csn_InProgress)\<rparr>\<rparr>)"
  using assms by (simp add: BeginNewTransaction_def tm_simps trans_of_def)

lemma BeginNewTransaction_occupied:
  assumes "trans_of (ts_tm d) w = Some t" "tr_latched t"
  shows "fst (BeginNewTransaction w d) = Inl (AssertFail ''(this->_state.load() & LockCountMask) == 0'')"
  using assms trans_of_len [OF assms(1)] by (simp add: BeginNewTransaction_def tm_simps trans_of_def)

lemma send_ok:
  assumes "packet_fits p" "alive (ss_sock s)"
  shows "\<exists>c. on_sock (SendPacket p) s = (Inr (), s\<lparr>ss_sock := c\<rparr>) \<and> alive c \<and> sent (ss_sock s) [p] c \<and> out_bytes c = out_bytes (ss_sock s) @ packet_image p"
proof -
  obtain c where c: "SendPacket p (ss_sock s) = (Inr (), c)" "out_bytes c = out_bytes (ss_sock s) @ packet_image p"
    using SendPacket_ok [OF assms(1), of "ss_sock s"] assms(2) by (auto simp: alive_def)
  then show ?thesis using SendPacket_cases [OF assms(2) c(1)] by (auto simp: on_sock_def)
qed

lemma complete_fits: "length tag < 100 \<Longrightarrow> packet_fits (CommandCompletePacket tag n)"
  by (simp add: packet_fits_def getStringSize_def)

lemma COMMIT_run:
  assumes q: "parse q = Inr (kStmtTransaction kCommitTransaction)" and c: "committable w t (ss_db s)" "Hardened t (ss_db s) d1" and a: "alive (ss_sock s)"
  shows "\<exists>c. handle_packet parse fuel w db (QueryPacket q) s =
      (Inr (), s\<lparr>ss_db := d1\<lparr>ts_tm := committed w t (ts_tm (ss_db s))\<rparr>, ss_mine := False, ss_sock := c\<rparr>) \<and>
    alive c \<and> out_bytes c = out_bytes (ss_sock s) @ packet_image (CommandCompletePacket ''COMMIT'' (- 1))"
proof -
  let ?s = "s\<lparr>ss_db := d1\<lparr>ts_tm := committed w t (ts_tm (ss_db s))\<rparr>, ss_mine := False\<rparr>"
  obtain c where "on_sock (SendPacket (CommandCompletePacket ''COMMIT'' (- 1))) ?s = (Inr (), ?s\<lparr>ss_sock := c\<rparr>)"
    "alive c" "out_bytes c = out_bytes (ss_sock s) @ packet_image (CommandCompletePacket ''COMMIT'' (- 1))"
    using send_ok [of "CommandCompletePacket ''COMMIT'' (- 1)" ?s] a complete_fits [of "''COMMIT''"] by auto
  then show ?thesis using q CommitTransaction_run [OF c]
    by (intro exI [of _ c]) (simp add: handle_packet_def dispatch_query_def exec_tcl_query_def handle_commit_def commit_transaction_command_def set_mine_def SendCommandComplete_def
      catchM_def bindM_def thenM_def liftR_def on_db_def updM_def)
qed

lemma BEGIN_run:
  assumes q: "parse q = Inr (kStmtTransaction kBeginTransaction)" and m: "\<not> ss_mine s" "w < length (tm_transactions (ts_tm (ss_db s)))" "\<not> tm_mutex (ts_tm (ss_db s))"
      "trans_of (ts_tm (ss_db s)) w = None"
    and a: "alive (ss_sock s)"
  shows "\<exists>c. handle_packet parse fuel w db (QueryPacket q) s = (Inr (), s\<lparr>ss_db := snd (BeginNewTransaction w (ss_db s)), ss_mine := True, ss_sock := c\<rparr>) \<and>
    alive c \<and> out_bytes c = out_bytes (ss_sock s) @ packet_image (CommandCompletePacket ''BEGIN'' (- 1)) \<and> in_segs c = in_segs (ss_sock s) \<and> in_end c = in_end (ss_sock s)"
proof -
  let ?s = "s\<lparr>ss_db := snd (BeginNewTransaction w (ss_db s)), ss_mine := True\<rparr>"
  obtain c where c: "on_sock (SendPacket (CommandCompletePacket ''BEGIN'' (- 1))) ?s = (Inr (), ?s\<lparr>ss_sock := c\<rparr>)"
    "alive c" "out_bytes c = out_bytes (ss_sock s) @ packet_image (CommandCompletePacket ''BEGIN'' (- 1))"
    using send_ok [of "CommandCompletePacket ''BEGIN'' (- 1)" ?s] a complete_fits [of "''BEGIN''"] by auto
  have "in_segs c = in_segs (ss_sock s) \<and> in_end c = in_end (ss_sock s)"
    using keepsD [OF keeps_send c(1), of "(in_segs (ss_sock s), in_end (ss_sock s))"] by (simp add: input_is_def)
  then show ?thesis using q m c BeginNewTransaction_run [OF m(2-4)]
    by (intro exI [of _ c]) (simp add: handle_packet_def dispatch_query_def exec_tcl_query_def handle_begin_def start_new_transaction_command_def set_mine_def SendCommandComplete_def
      catchM_def bindM_def thenM_def liftR_def on_db_def updM_def getM_def)
qed

lemma BEGIN_occupied:
  assumes q: "parse q = Inr (kStmtTransaction kBeginTransaction)" and m: "\<not> ss_mine s" "trans_of (ts_tm (ss_db s)) w = Some t" "tr_latched t"
  shows "fst (handle_packet parse fuel w db (QueryPacket q) s) = Inl (AssertFail ''(this->_state.load() & LockCountMask) == 0'')"
proof -
  obtain d' where "BeginNewTransaction w (ss_db s) = (Inl (AssertFail ''(this->_state.load() & LockCountMask) == 0''), d')"
    using BeginNewTransaction_occupied [OF m(2,3)] by (cases "BeginNewTransaction w (ss_db s)") auto
  then show ?thesis using q m(1)
    by (simp add: handle_packet_def dispatch_query_def exec_tcl_query_def handle_begin_def start_new_transaction_command_def
      catchM_def bindM_def thenM_def liftR_def on_db_def getM_def unwinds_def)
qed

lemma ABORTED_run:
  assumes f: "dispatch_query parse fuel w db q s = (Inl e, s1)" "unwinds e" and m: "ss_mine s1" "trans_of (ts_tm (ss_db s1)) w = Some t"
    and a: "alive (ss_sock s1)" "packet_fits (ErrorResponsePacket (exn_what e))"
  shows "\<exists>c. handle_packet parse fuel w db (QueryPacket q) s =
      (Inr (), s1\<lparr>ss_db := (ss_db s1)\<lparr>ts_tm := set_slot w (Some (t\<lparr>tr_status := ABORTED\<rparr>)) (ts_tm (ss_db s1))\<rparr>, ss_sock := c\<rparr>) \<and>
    alive c \<and> out_bytes c = out_bytes (ss_sock s1) @ packet_image (ErrorResponsePacket (exn_what e))"
proof -
  obtain c where c: "on_sock (SendPacket (ErrorResponsePacket (exn_what e))) s1 = (Inr (), s1\<lparr>ss_sock := c\<rparr>)" "alive c"
    "out_bytes c = out_bytes (ss_sock s1) @ packet_image (ErrorResponsePacket (exn_what e))"
    using send_ok [OF a(2,1)] by blast
  have "SetStatus w ABORTED (ss_db s1) = (Inr (), (ss_db s1)\<lparr>ts_tm := set_slot w (Some (t\<lparr>tr_status := ABORTED\<rparr>)) (ts_tm (ss_db s1))\<rparr>)"
    using MyTransaction_run [OF m(2)] by (simp add: SetStatus_def bindM_def set_MyTransaction_def upd_tm_def updM_def)
  then show ?thesis using f m c
    by (intro exI [of _ c]) (simp add: handle_packet_def catchM_def query_failed_def SendError_def bindM_def thenM_def getM_def on_db_def)
qed

text \<open>
  C37. A statement that fails inside a transaction of the user marks the transaction \<open>ABORTED\<close> and answers
  an error, but the mark has no effect: a \<open>COMMIT\<close> that follows commits the transaction under a normal
  number and answers \<open>COMMIT\<close>, with everything the statement had changed before it failed.
\<close>

theorem failed_statement_is_committed:
  assumes "dispatch_query parse fuel w db q s = (Inl e, s1)" and "unwinds e" and "ss_mine s1"
    and "committable w t (ss_db s1)" and "tr_lastLsn t = Lsn_Invalid"
    and "alive (ss_sock s1)" and "packet_fits (ErrorResponsePacket (exn_what e))"
    and "parse cq = Inr (kStmtTransaction kCommitTransaction)"
  shows "\<exists>s2 s3. handle_packet parse fuel w db (QueryPacket q) s = (Inr (), s2) \<and>
    trans_of (ts_tm (ss_db s2)) w = Some (t\<lparr>tr_status := ABORTED\<rparr>) \<and>
    out_bytes (ss_sock s2) = out_bytes (ss_sock s1) @ packet_image (ErrorResponsePacket (exn_what e)) \<and>
    handle_packet parse fuel w db (QueryPacket cq) s2 = (Inr (), s3) \<and>
    tm_history (ts_tm (ss_db s3)) (tr_xid t) = Some (tm_csn (ts_tm (ss_db s1))) \<and> Csn_IsNormal (tm_csn (ts_tm (ss_db s1))) \<and>
    bm_pages (ss_db s3) = bm_pages (ss_db s1) \<and>
    out_bytes (ss_sock s3) = out_bytes (ss_sock s2) @ packet_image (CommandCompletePacket ''COMMIT'' (- 1))"
proof -
  let ?t = "t\<lparr>tr_status := ABORTED\<rparr>"
  let ?d = "(ss_db s1)\<lparr>ts_tm := set_slot w (Some ?t) (ts_tm (ss_db s1))\<rparr>"
  have t: "trans_of (ts_tm (ss_db s1)) w = Some t" and n: "Csn_IsNormal (tm_csn (ts_tm (ss_db s1)))" using assms(4) by (simp_all add: committable_def)
  obtain c where c: "handle_packet parse fuel w db (QueryPacket q) s = (Inr (), s1\<lparr>ss_db := ?d, ss_sock := c\<rparr>)" "alive c"
    "out_bytes c = out_bytes (ss_sock s1) @ packet_image (ErrorResponsePacket (exn_what e))"
    using ABORTED_run [OF assms(1-3) t assms(6,7)] by blast
  let ?s2 = "s1\<lparr>ss_db := ?d, ss_sock := c\<rparr>"
  have t2: "trans_of (ts_tm ?d) w = Some ?t" using trans_of_slot [of w "ts_tm (ss_db s1)" "Some ?t"] trans_of_len [OF t] by (simp add: set_slot_def)
  have "committable w ?t (ss_db ?s2)" using assms(4) t2 by (simp add: committable_def set_slot_def)
  moreover have "Hardened ?t (ss_db ?s2) ?d" using assms(5) by (simp add: Hardened_def Lsn_IsValid_def retM_def)
  ultimately obtain c2 where c2: "handle_packet parse fuel w db (QueryPacket cq) ?s2 =
      (Inr (), ?s2\<lparr>ss_db := ?d\<lparr>ts_tm := committed w ?t (ts_tm ?d)\<rparr>, ss_mine := False, ss_sock := c2\<rparr>)"
    "out_bytes c2 = out_bytes c @ packet_image (CommandCompletePacket ''COMMIT'' (- 1))"
    using COMMIT_run [of parse cq w ?t ?s2 ?d fuel db] assms(8) c(2) by auto
  let ?s3 = "?s2\<lparr>ss_db := ?d\<lparr>ts_tm := committed w ?t (ts_tm ?d)\<rparr>, ss_mine := False, ss_sock := c2\<rparr>"
  show ?thesis using c t2 c2 n by (intro exI [of _ ?s2] exI [of _ ?s3]) (simp add: committed_def set_slot_def)
qed

section \<open>Whole sessions\<close>

lemma loop_packet:
  assumes "stream (ss_sock s) = packet_image p @ rest" "packet_fits p"
  shows "\<exists>c. handle_loop parse fuel w db s = (case handle_packet parse fuel w db p (s\<lparr>ss_sock := c\<rparr>) of
       (Inl e, s2) \<Rightarrow> (Inl e, s2) | (Inr _, s2) \<Rightarrow> handle_loop parse fuel w db s2) \<and>
    stream c = rest \<and> send_plan c = send_plan (ss_sock s) \<and> out_bytes c = out_bytes (ss_sock s) \<and> in_end c = in_end (ss_sock s)"
proof -
  obtain c where c: "ReceivePacket (ss_sock s) = (Inr (Some p), c)" "stream c = rest" using ReceivePacket_image [OF assms(2,1)] by blast
  then show ?thesis using ReceivePacket_output [OF c(1)]
    by (intro exI [of _ c]) (simp add: handle_loop.simps [of _ _ _ _ s] ReadNextPacket_def on_sock_def)
qed

lemma loop_closed:
  assumes "stream (ss_sock s) = []" "in_end (ss_sock s) = PeerClosed"
  shows "\<exists>c. handle_loop parse fuel w db s = (Inr (), s\<lparr>ss_sock := c\<rparr>) \<and> out_bytes c = out_bytes (ss_sock s)"
proof -
  let ?c = "(ss_sock s)\<lparr>in_segs := []\<rparr>"
  have "ReceivePacket (ss_sock s) = (Inr None, ?c)"
    using sys_recv_empty [OF assms(1), of 1] assms(2)
    by (simp add: ReceivePacket_def ReceiveInt8Opt_def recvBufferOpt.simps [of "Suc 0"] bindM_def retM_def)
  then show ?thesis by (intro exI [of _ ?c]) (simp add: handle_loop.simps [of _ _ _ _ s] ReadNextPacket_def on_sock_def)
qed

lemma one_query_session:
  assumes "stream c = packet_image (QueryPacket q)" "packet_fits (QueryPacket q)" "in_end c = PeerClosed"
    and h: "\<And>c'. send_plan c' = send_plan c \<Longrightarrow> out_bytes c' = out_bytes c \<Longrightarrow> stream c' = [] \<Longrightarrow> in_end c' = PeerClosed \<Longrightarrow>
      \<exists>s1. handle_packet parse fuel w db (QueryPacket q) \<lparr>ss_db = d, ss_sock = c', ss_mine = False, ss_outputs = None\<rparr> = (Inr (), s1) \<and>
        stream (ss_sock s1) = [] \<and> in_end (ss_sock s1) = PeerClosed \<and> ss_db s1 = d1 \<and> out_bytes (ss_sock s1) = out_bytes c @ answer"
  shows "\<exists>s1. HandleUserConnection parse fuel w db d c = (Inr (), s1) \<and> ss_db s1 = d1 \<and> out_bytes (ss_sock s1) = out_bytes c @ answer"
proof -
  let ?s = "\<lparr>ss_db = d, ss_sock = c, ss_mine = False, ss_outputs = None\<rparr>"
  obtain c1 where c1: "handle_loop parse fuel w db ?s = (case handle_packet parse fuel w db (QueryPacket q) (?s\<lparr>ss_sock := c1\<rparr>) of
       (Inl e, s2) \<Rightarrow> (Inl e, s2) | (Inr _, s2) \<Rightarrow> handle_loop parse fuel w db s2)"
    "stream c1 = []" "send_plan c1 = send_plan c" "out_bytes c1 = out_bytes c" "in_end c1 = PeerClosed"
    using loop_packet [of ?s "QueryPacket q" "[]" parse fuel w db] assms(1-3) by auto
  obtain s1 where s1: "handle_packet parse fuel w db (QueryPacket q) (?s\<lparr>ss_sock := c1\<rparr>) = (Inr (), s1)" "stream (ss_sock s1) = []"
    "in_end (ss_sock s1) = PeerClosed" "ss_db s1 = d1" "out_bytes (ss_sock s1) = out_bytes c @ answer"
    using h [of c1] c1 by auto
  obtain c2 where "handle_loop parse fuel w db s1 = (Inr (), s1\<lparr>ss_sock := c2\<rparr>)" "out_bytes c2 = out_bytes (ss_sock s1)"
    using loop_closed [OF s1(2,3)] by blast
  then show ?thesis using c1(1) s1
    by (intro exI [of _ "s1\<lparr>ss_sock := snd (client_Close c2)\<rparr>"])
      (simp add: HandleUserConnection_def catchM_def finallyM_def on_sock_def client_Close_def updM_def)
qed

lemma BEGIN_session:
  assumes m: "w < length (tm_transactions (ts_tm d))" "\<not> tm_mutex (ts_tm d)" "trans_of (ts_tm d) w = None" and q: "parse q = Inr (kStmtTransaction kBeginTransaction)"
    and c: "stream c = packet_image (QueryPacket q)" "packet_fits (QueryPacket q)" "in_end c = PeerClosed" "alive c"
  shows "\<exists>s1. HandleUserConnection parse fuel w db d c = (Inr (), s1) \<and> ss_db s1 = snd (BeginNewTransaction w d) \<and>
    out_bytes (ss_sock s1) = out_bytes c @ packet_image (CommandCompletePacket ''BEGIN'' (- 1))"
proof (rule one_query_session [OF c(1-3)])
  fix c' assume e: "send_plan c' = send_plan c" "out_bytes c' = out_bytes c" "stream c' = []" "in_end c' = PeerClosed"
  then have a: "alive c'" using c(4) by (simp add: alive_def)
  let ?s = "\<lparr>ss_db = d, ss_sock = c', ss_mine = False, ss_outputs = None\<rparr>"
  show "\<exists>s1. handle_packet parse fuel w db (QueryPacket q) ?s = (Inr (), s1) \<and> stream (ss_sock s1) = [] \<and> in_end (ss_sock s1) = PeerClosed \<and>
     ss_db s1 = snd (BeginNewTransaction w d) \<and> out_bytes (ss_sock s1) = out_bytes c @ packet_image (CommandCompletePacket ''BEGIN'' (- 1))"
    using BEGIN_run [of parse q ?s w fuel db] q m a e by (auto simp: stream_def)
qed

lemma BEGIN_session_occupied:
  assumes m: "trans_of (ts_tm d) w = Some t" "tr_latched t" and q: "parse q = Inr (kStmtTransaction kBeginTransaction)"
    and c: "stream c = packet_image (QueryPacket q) @ rest" "packet_fits (QueryPacket q)"
  shows "fst (HandleUserConnection parse fuel w db d c) = Inl (AssertFail ''(this->_state.load() & LockCountMask) == 0'')"
proof -
  let ?s = "\<lparr>ss_db = d, ss_sock = c, ss_mine = False, ss_outputs = None\<rparr>"
  obtain c1 where c1: "handle_loop parse fuel w db ?s = (case handle_packet parse fuel w db (QueryPacket q) (?s\<lparr>ss_sock := c1\<rparr>) of
       (Inl e, s2) \<Rightarrow> (Inl e, s2) | (Inr _, s2) \<Rightarrow> handle_loop parse fuel w db s2)"
    using loop_packet [of ?s "QueryPacket q" rest parse fuel w db] c by auto
  have "fst (handle_packet parse fuel w db (QueryPacket q) (?s\<lparr>ss_sock := c1\<rparr>)) = Inl (AssertFail ''(this->_state.load() & LockCountMask) == 0'')"
    by (rule BEGIN_occupied) (use q m in simp_all)
  then show ?thesis using c1
    by (cases "handle_packet parse fuel w db (QueryPacket q) (?s\<lparr>ss_sock := c1\<rparr>)")
      (simp add: HandleUserConnection_def catchM_def finallyM_def unwinds_def)
qed

lemma COMMIT_session:
  assumes t: "committable w t d" "Hardened t d d1" and q: "parse q = Inr (kStmtTransaction kCommitTransaction)"
    and c: "stream c = packet_image (QueryPacket q)" "packet_fits (QueryPacket q)" "in_end c = PeerClosed" "alive c"
  shows "\<exists>s1. HandleUserConnection parse fuel w db d c = (Inr (), s1) \<and> ss_db s1 = d1\<lparr>ts_tm := committed w t (ts_tm d)\<rparr> \<and>
    out_bytes (ss_sock s1) = out_bytes c @ packet_image (CommandCompletePacket ''COMMIT'' (- 1))"
proof (rule one_query_session [OF c(1-3)])
  fix c' assume e: "send_plan c' = send_plan c" "out_bytes c' = out_bytes c" "stream c' = []" "in_end c' = PeerClosed"
  then have a: "alive c'" using c(4) by (simp add: alive_def)
  let ?s = "\<lparr>ss_db = d, ss_sock = c', ss_mine = False, ss_outputs = None\<rparr>"
  obtain s1 where s1: "handle_packet parse fuel w db (QueryPacket q) ?s = (Inr (), s1)" "ss_db s1 = d1\<lparr>ts_tm := committed w t (ts_tm d)\<rparr>"
    "out_bytes (ss_sock s1) = out_bytes c @ packet_image (CommandCompletePacket ''COMMIT'' (- 1))"
    using COMMIT_run [of parse q w t ?s d1 fuel db] q t a e by auto
  have "in_segs (ss_sock s1) = in_segs c' \<and> in_end (ss_sock s1) = in_end c'"
    using keepsD [OF keeps_handle_packet s1(1), of "(in_segs c', in_end c')"] by (simp add: input_is_def)
  then show "\<exists>s1. handle_packet parse fuel w db (QueryPacket q) ?s = (Inr (), s1) \<and> stream (ss_sock s1) = [] \<and> in_end (ss_sock s1) = PeerClosed \<and>
     ss_db s1 = d1\<lparr>ts_tm := committed w t (ts_tm d)\<rparr> \<and> out_bytes (ss_sock s1) = out_bytes c @ packet_image (CommandCompletePacket ''COMMIT'' (- 1))"
    using s1 e by (auto simp: stream_def)
qed

text \<open>
  C38. A transaction survives the connection that began it: a client sends \<open>BEGIN\<close> and disconnects, and
  the transaction stays in the worker's slot and in progress; the next client of the same worker, whose
  thread has no transaction, sends \<open>COMMIT\<close>, and the transaction of the first client is committed. If
  the next client sends \<open>BEGIN\<close> instead, the server aborts: the slot is overwritten, and the destructor
  of the transaction in it finds its latch held. The slot of the worker is empty before the first
  client.
\<close>

theorem leftover_transaction_is_committed:
  assumes "w < length (tm_transactions (ts_tm d))" "\<not> tm_mutex (ts_tm d)" "Csn_IsNormal (tm_csn (ts_tm d))" "trans_of (ts_tm d) w = None"
    and "parse q1 = Inr (kStmtTransaction kBeginTransaction)" "parse q2 = Inr (kStmtTransaction kCommitTransaction)"
    and "stream c1 = packet_image (QueryPacket q1)" "packet_fits (QueryPacket q1)" "in_end c1 = PeerClosed" "alive c1"
    and "stream c2 = packet_image (QueryPacket q2)" "packet_fits (QueryPacket q2)" "in_end c2 = PeerClosed" "alive c2"
  shows "\<exists>s1 s2. HandleUserConnection parse fuel w db d c1 = (Inr (), s1) \<and>
    trans_of (ts_tm (ss_db s1)) w = Some (new_Transaction (tm_xid (ts_tm d)) w) \<and> tm_history (ts_tm (ss_db s1)) (tm_xid (ts_tm d)) = Some Csn_InProgress \<and>
    HandleUserConnection parse fuel w db (ss_db s1) c2 = (Inr (), s2) \<and>
    trans_of (ts_tm (ss_db s2)) w = None \<and> tm_history (ts_tm (ss_db s2)) (tm_xid (ts_tm d)) = Some (tm_csn (ts_tm d)) \<and>
    out_bytes (ss_sock s2) = out_bytes c2 @ packet_image (CommandCompletePacket ''COMMIT'' (- 1)) \<and>
    (\<forall>c3 rest. stream c3 = packet_image (QueryPacket q1) @ rest \<longrightarrow>
      fst (HandleUserConnection parse fuel w db (ss_db s1) c3) = Inl (AssertFail ''(this->_state.load() & LockCountMask) == 0''))"
proof -
  let ?t = "new_Transaction (tm_xid (ts_tm d)) w" and ?d = "snd (BeginNewTransaction w d)"
  obtain s1 where s1: "HandleUserConnection parse fuel w db d c1 = (Inr (), s1)" "ss_db s1 = ?d"
    using BEGIN_session [of w d parse q1 c1 fuel db] assms by blast
  have tm: "ts_tm ?d = (ts_tm d)\<lparr>tm_xid := tm_xid (ts_tm d) + 1, tm_transactions := (tm_transactions (ts_tm d))[w := Some ?t],
    tm_xidToWorker := (tm_xidToWorker (ts_tm d))(tm_xid (ts_tm d) \<mapsto> w), tm_history := (tm_history (ts_tm d))(tm_xid (ts_tm d) \<mapsto> Csn_InProgress)\<rparr>"
    using BeginNewTransaction_run [OF assms(1,2,4)] by simp
  have c: "committable w ?t ?d" using assms(1-3) by (simp add: committable_def tm trans_of_def) (simp add: new_Transaction_def)
  have h: "Hardened ?t ?d ?d" by (simp add: Hardened_def new_Transaction_def Lsn_IsValid_def retM_def)
  obtain s2 where s2: "HandleUserConnection parse fuel w db ?d c2 = (Inr (), s2)" "ss_db s2 = ?d\<lparr>ts_tm := committed w ?t (ts_tm ?d)\<rparr>"
    "out_bytes (ss_sock s2) = out_bytes c2 @ packet_image (CommandCompletePacket ''COMMIT'' (- 1))"
    using COMMIT_session [of w ?t ?d ?d parse q2 c2 fuel db] c h assms by blast
  have x: "tr_xid ?t = tm_xid (ts_tm d)" by (simp add: new_Transaction_def)
  have o: "fst (HandleUserConnection parse fuel w db ?d c3) = Inl (AssertFail ''(this->_state.load() & LockCountMask) == 0'')"
    if "stream c3 = packet_image (QueryPacket q1) @ rest" for c3 rest
    by (rule BEGIN_session_occupied [where t = ?t and q = q1 and rest = rest]) (use c assms(5,8) that in \<open>simp_all add: committable_def new_Transaction_def\<close>)
  show ?thesis
    by (intro exI [of _ s1] exI [of _ s2] conjI s1(1) allI impI)
      (use s1(2) s2 assms(1) o in \<open>simp_all add: tm committed_def trans_of_def x\<close>)
qed

section \<open>Examples\<close>

definition example_sock :: "byte list \<Rightarrow> sock" where
  "example_sock input = \<lparr>in_segs = [input], in_end = PeerClosed, send_plan = [Accept 3, Accept 0], out_bytes = [], sock_open = True\<rparr>"

definition example_session :: "bool \<Rightarrow> trans_state \<Rightarrow> session_state" where
  "example_session mine d = \<lparr>ss_db = d, ss_sock = example_sock [], ss_mine = mine, ss_outputs = None\<rparr>"

definition example_parse :: "string \<Rightarrow> SQLStatement res" where
  "example_parse q = (if q = ''COMMIT'' then Inr (kStmtTransaction kCommitTransaction) else if q = ''BEGIN'' then Inr (kStmtTransaction kBeginTransaction)
     else Inl (ParserError ''syntax error''))"

lemma example_alive: "alive (example_sock input)" "alive (ss_sock (example_session m d))"
  by (simp_all add: alive_def example_sock_def example_session_def)

lemma short_query_fits: "length q < 100 \<Longrightarrow> packet_fits (QueryPacket q)"
  by (simp add: packet_fits_def getStringSize_def)

lemma example_failed_query:
  "dispatch_query example_parse 1 0 main_database ''?'' (example_session True example_heap) = (Inl (ParserError ''syntax error''), example_session True example_heap)"
  by (simp add: dispatch_query_def example_parse_def bindM_def liftR_def)

lemma example_error_fits: "packet_fits (ErrorResponsePacket (exn_what (ParserError ''syntax error'')))"
  by (simp add: packet_fits_def getStringSize_def exn_what_def)

lemma example_query_run:
  "\<exists>s'. handle_packet example_parse 1 0 main_database (QueryPacket ''?'') (example_session True example_heap) = (Inr (), s')"
proof -
  have "trans_of (ts_tm (ss_db (example_session True example_heap))) 0 = Some example_writer" "ss_mine (example_session True example_heap)"
    using example_page(3) by (simp_all add: example_session_def)
  then show ?thesis using ABORTED_run [OF example_failed_query _ _ _ example_alive(2) example_error_fits] by auto
qed

theorem every_packet_answered_witness:
  "\<exists>s' ps. handle_packet example_parse 1 0 main_database (QueryPacket ''?'') (example_session True example_heap) = (Inr (), s') \<and>
    sent (example_sock []) ps (ss_sock s') \<and> is_answer ps"
proof -
  obtain s' where s': "handle_packet example_parse 1 0 main_database (QueryPacket ''?'') (example_session True example_heap) = (Inr (), s')"
    using example_query_run by blast
  have "SendFail \<notin> set (send_plan (ss_sock (example_session True example_heap)))" using example_alive(2) by (simp add: alive_def)
  from every_packet_answered [OF this s'] s' show ?thesis by (auto simp: example_session_def)
qed

theorem failed_statement_is_committed_witness:
  "\<exists>s2 s3. handle_packet example_parse 1 0 main_database (QueryPacket ''?'') (example_session True example_heap) = (Inr (), s2) \<and>
    handle_packet example_parse 1 0 main_database (QueryPacket ''COMMIT'') s2 = (Inr (), s3) \<and> tm_history (ts_tm (ss_db s3)) 1 = Some 5"
proof -
  let ?s = "example_session True example_heap"
  have "committable 0 example_writer (ss_db ?s)" "ss_mine ?s" "tr_lastLsn example_writer = Lsn_Invalid" "tr_xid example_writer = 1"
    "tm_csn (ts_tm (ss_db ?s)) = 5"
    using example_page(3) by (simp_all add: committable_def example_session_def example_page(2))
      (simp_all add: example_writer_def new_Transaction_def m_two_def Csn_IsNormal_def Csn_Min_def)
  moreover have "example_parse ''COMMIT'' = Inr (kStmtTransaction kCommitTransaction)" by (simp add: example_parse_def)
  ultimately show ?thesis
    using failed_statement_is_committed [OF example_failed_query, of example_writer "''COMMIT''"] example_error_fits example_alive(2) by fastforce
qed

theorem leftover_transaction_is_committed_witness:
  "\<exists>s1 s2. HandleUserConnection example_parse 1 0 main_database example_trans (example_sock (packet_image (QueryPacket ''BEGIN''))) = (Inr (), s1) \<and>
    HandleUserConnection example_parse 1 0 main_database (ss_db s1) (example_sock (packet_image (QueryPacket ''COMMIT''))) = (Inr (), s2) \<and>
    tm_history (ts_tm (ss_db s2)) 1 = Some 5 \<and>
    fst (HandleUserConnection example_parse 1 0 main_database (ss_db s1) (example_sock (packet_image (QueryPacket ''BEGIN'')))) =
      Inl (AssertFail ''(this->_state.load() & LockCountMask) == 0'')"
proof -
  have "0 < length (tm_transactions (ts_tm example_trans))" "\<not> tm_mutex (ts_tm example_trans)" "Csn_IsNormal (tm_csn (ts_tm example_trans))"
    "tm_csn (ts_tm example_trans) = 5" "tm_xid (ts_tm example_trans) = 1" "trans_of (ts_tm example_trans) 0 = None"
    by (simp_all add: trans_of_def example_trans_def new_TransactionManager_def Csn_IsNormal_def Csn_Min_def Xid_Min_def)
  moreover have "stream (example_sock bs) = bs" "in_end (example_sock bs) = PeerClosed" for bs by (simp_all add: stream_def example_sock_def)
  moreover have "example_parse ''BEGIN'' = Inr (kStmtTransaction kBeginTransaction)" "example_parse ''COMMIT'' = Inr (kStmtTransaction kCommitTransaction)"
    by (simp_all add: example_parse_def)
  ultimately show ?thesis
    using leftover_transaction_is_committed [of 0 example_trans example_parse "''BEGIN''" "''COMMIT''" "example_sock (packet_image (QueryPacket ''BEGIN''))"
      "example_sock (packet_image (QueryPacket ''COMMIT''))" 1 main_database] example_alive(1) short_query_fits [of "''BEGIN''"] short_query_fits [of "''COMMIT''"]
    by fastforce
qed

end
