(* ===== verification/Mimi_InsertStatement.thy ===== *)
theory Mimi_InsertStatement
  imports Mimi_SessionTrans
begin

text \<open>
  An INSERT statement from the packet of the client to the page of the table.
\<close>

section \<open>An INSERT from the packet to the page\<close>

lemma BeginNewStatement_first:
  assumes "trans_of (ts_tm d) w = Some t" "tr_snapshot t = None"
  shows "BeginNewStatement w d = (Inr (), d\<lparr>ts_tm := set_slot w (Some (t\<lparr>tr_snapshot := Some \<lparr>sn_CSN = tm_csn (ts_tm d), sn_CommandId = Usn_Invalid\<rparr>\<rparr>)) (ts_tm d)\<rparr>)"
  using MyTransaction_run [OF assms(1)] assms(2)
  by (simp add: BeginNewStatement_def bindM_def set_MyTransaction_def upd_tm_def updM_def GetCurrentCSN_def get_tm_def getM_def)

text \<open>The state in which the plan of an implicit transaction runs, and its transaction.\<close>

definition statement_begun :: "nat \<Rightarrow> trans_state \<Rightarrow> trans_state" where
  "statement_begun w d = snd (BeginNewStatement w (snd (BeginNewTransaction w d)))"

definition first_statement :: "nat \<Rightarrow> trans_state \<Rightarrow> Transaction" where
  "first_statement w d = (new_Transaction (tm_xid (ts_tm d)) w)\<lparr>tr_snapshot := Some \<lparr>sn_CSN = tm_csn (ts_tm d), sn_CommandId = Usn_Invalid\<rparr>\<rparr>"

lemma statement_begun_run:
  assumes "w < length (tm_transactions (ts_tm d))" "\<not> tm_mutex (ts_tm d)" "trans_of (ts_tm d) w = None"
  shows "BeginNewTransaction w d = (Inr (), snd (BeginNewTransaction w d))"
    and "BeginNewStatement w (snd (BeginNewTransaction w d)) = (Inr (), statement_begun w d)"
    and "statement_begun w d = d\<lparr>ts_tm := (ts_tm d)\<lparr>tm_xid := tm_xid (ts_tm d) + 1, tm_transactions := (tm_transactions (ts_tm d))[w := Some (first_statement w d)],
      tm_xidToWorker := (tm_xidToWorker (ts_tm d))(tm_xid (ts_tm d) \<mapsto> w), tm_history := (tm_history (ts_tm d))(tm_xid (ts_tm d) \<mapsto> Csn_InProgress)\<rparr>\<rparr>"
    and "trans_of (ts_tm (statement_begun w d)) w = Some (first_statement w d)"
proof -
  note b = BeginNewTransaction_run [OF assms]
  show "BeginNewTransaction w d = (Inr (), snd (BeginNewTransaction w d))" by (simp add: b)
  have t: "trans_of (ts_tm (snd (BeginNewTransaction w d))) w = Some (new_Transaction (tm_xid (ts_tm d)) w)" using assms(1) by (simp add: b trans_of_def)
  note s = BeginNewStatement_first [OF t]
  show "BeginNewStatement w (snd (BeginNewTransaction w d)) = (Inr (), statement_begun w d)"
    using s by (simp add: statement_begun_def new_Transaction_def)
  show eq: "statement_begun w d = d\<lparr>ts_tm := (ts_tm d)\<lparr>tm_xid := tm_xid (ts_tm d) + 1, tm_transactions := (tm_transactions (ts_tm d))[w := Some (first_statement w d)],
      tm_xidToWorker := (tm_xidToWorker (ts_tm d))(tm_xid (ts_tm d) \<mapsto> w), tm_history := (tm_history (ts_tm d))(tm_xid (ts_tm d) \<mapsto> Csn_InProgress)\<rparr>\<rparr>"
    using s by (simp add: statement_begun_def b set_slot_def first_statement_def new_Transaction_def)
  show "trans_of (ts_tm (statement_begun w d)) w = Some (first_statement w d)" using assms(1) by (simp add: eq trans_of_def)
qed

text \<open>A plannable statement outside a transaction: what is left to show is the run of its plan.\<close>

lemma implicit_statement:
  assumes m: "\<not> ss_mine s" "w < length (tm_transactions (ts_tm (ss_db s)))" "\<not> tm_mutex (ts_tm (ss_db s))" "trans_of (ts_tm (ss_db s)) w = None"
    and p: "parse q = Inr st" "Plan db st = Inr stmt" and o: "OpenTable db MainTableId = Inr tb"
    and r: "bindM (on_db (PlanNode_Start \<lparr>sn_CSN = tm_csn (ts_tm (ss_db s)), sn_CommandId = Usn_Invalid\<rparr> (ps_plan stmt)))
        (\<lambda>node. bindM (execute_rows fuel fuel w db (tb_descriptor tb) (ps_tag stmt = SelectTag) node) (\<lambda>node.
          bindM (liftR (PlanNode_End node)) (\<lambda>node.
          thenM (SendCommandComplete (cmdTagToString (ps_tag stmt)) (GetRowsProcessed node)) (commit_transaction_command w))))
      (if ps_tag stmt = SelectTag then s1 else s\<lparr>ss_mine := True, ss_db := statement_begun w (ss_db s)\<rparr>) = (Inr (), s')"
    and d: "ps_tag stmt = SelectTag \<Longrightarrow> SendTupleDescriptor (tb_descriptor tb) (s\<lparr>ss_mine := True, ss_db := statement_begun w (ss_db s)\<rparr>) = (Inr (), s1)"
    and st: "IsPlannableStatement st"
  shows "handle_packet parse fuel w db (QueryPacket q) s = (Inr (), s')"
proof -
  let ?s1 = "s\<lparr>ss_mine := True, ss_db := snd (BeginNewTransaction w (ss_db s))\<rparr>" and ?s2 = "s\<lparr>ss_mine := True, ss_db := statement_begun w (ss_db s)\<rparr>"
  note b = statement_begun_run [OF m(2-4)]
  have start: "start_new_transaction_command w s = (Inr (), ?s1)"
    using m(1) b(1) by (auto simp: start_new_transaction_command_def set_mine_def bindM_def thenM_def getM_def on_db_def updM_def split: prod.splits)
  have snap: "tr_snapshot (first_statement w (ss_db s)) = Some \<lparr>sn_CSN = tm_csn (ts_tm (ss_db s)), sn_CommandId = Usn_Invalid\<rparr>"
    by (simp add: first_statement_def)
  have my: "MyTransaction w (statement_begun w (ss_db s)) = (Inr (first_statement w (ss_db s)), statement_begun w (ss_db s))"
    by (rule MyTransaction_run [OF b(4)])
  have g: "guard_Commit w True = commit_transaction_command w" by (simp add: guard_Commit_def)
  have "run_plan fuel w db stmt (guard_Commit w True) ?s1 = (Inr (), s')"
  proof (cases "ps_tag stmt = SelectTag")
    case True
    then show ?thesis using r d b(2) my snap o by (simp add: run_plan_def Let_def g thenM_def bindM_def [of "on_db (BeginNewStatement w)"] bindM_def [of "on_db (MyTransaction w)"]
        bindM_def [of "liftR _"] bindM_def [of "SendTupleDescriptor _"] on_db_def liftR_def)
  next
    case False
    then show ?thesis using r b(2) my snap o by (simp add: run_plan_def Let_def g thenM_def bindM_def [of "on_db (BeginNewStatement w)"] bindM_def [of "on_db (MyTransaction w)"]
        bindM_def [of "liftR _"] bindM_def [of "retM _"] on_db_def liftR_def retM_def)
  qed
  then have "exec_plannable_query fuel w db st s = (Inr (), s')"
    using p(2) m(1) start by (simp add: exec_plannable_query_def with_implicit_transaction_def bindM_def thenM_def liftR_def getM_def catchM_def)
  then show ?thesis using p(1) st
    by (cases st) (simp_all add: handle_packet_def dispatch_query_def catchM_def bindM_def liftR_def IsPlannableStatement_def)
qed

definition main_table :: HeapTable where
  "main_table = \<lparr>tb_tableId = MainTableId, tb_descriptor = main_descriptor\<rparr>"

definition insert_row :: "Expr list \<Rightarrow> ITuple" where
  "insert_row vs = VirtualTuple (map (\<lambda>e. case literal_value e of None \<Rightarrow> Scalar 0 | Some d \<Rightarrow> d) vs) (map (\<lambda>e. literal_value e = None) vs)"

lemma main_table_open: "OpenTable main_database MainTableId = Inr main_table"
  by (simp add: main_open main_table_def)

lemma Plan_insert:
  "length vs = 2 \<Longrightarrow> list_all is_literal vs \<Longrightarrow>
    Plan main_database (kStmtInsert (Some vs)) = Inr \<lparr>ps_plan = InsertNode main_table [insert_row vs] 0, ps_tag = InsertTag\<rparr>"
  by (simp add: Plan_def IsPlannableStatement_def plan_insert_main insert_row_def main_table_def)

lemma execute_insert:
  assumes "InsertTuple (Suc k) w tb tup (ss_db s) = (Inr (), d)"
  shows "execute_rows (Suc k) (Suc k) w db desc False (InsertNode tb [tup] n) s = (Inr (InsertNode tb [tup] (n + 1)), s\<lparr>ss_db := d\<rparr>)"
  using assms by (simp add: PlanNode_Execute_def bindM_def thenM_def retM_def on_db_def)

text \<open>The row of a planned INSERT: how it is formed, and how many bytes it takes.\<close>

definition column_value :: "nat \<Rightarrow> Expr \<Rightarrow> Datum" where
  "column_value k e = (case e of Expr ty _ _ _ _ ival \<Rightarrow> if ty = kExprLiteralInt then Scalar (signed_take_bit (8 * k - 1) ival) else Scalar 0)"

definition row_tuple :: "TransactionId \<Rightarrow> Expr list \<Rightarrow> HeapPageTuple" where
  "row_tuple xid vs = \<lparr>hpt_header = \<lparr>th_xid = xid, th_undo = Usn_Invalid, th_flags = (if \<exists>e\<in>set vs. literal_value e = None then HeapTupleFlags_HasNulls else 0)\<rparr>,
     hpt_values = map (\<lambda>e. case literal_value e of None \<Rightarrow> Scalar 0 | Some d \<Rightarrow> d) vs, hpt_isnull = map (\<lambda>e. literal_value e = None) vs\<rparr>"

lemma form_insert_row:
  assumes "length vs = 2" "trans_of (ts_tm d) w = Some t"
  shows "formHeapPageTuple w main_table (insert_row vs) d = (Inr (row_tuple (tr_xid t) vs), d)"
proof -
  obtain a b where vs: "vs = [a, b]" using assms(1) by (auto simp: length_Suc_conv numeral_2_eq_2)
  have nums: "attr_nums 2 = [1, 2]" using attr_nums_small [of 2] by (simp add: upt_conv_Cons)
  show ?thesis using MyTransaction_run [OF assms(2)]
    by (cases "literal_value a"; cases "literal_value b")
      (simp_all add: formHeapPageTuple_def main_table_def main_max nums vs insert_row_def row_tuple_def form_attr_def GetAttribute_def VirtualTuple_Get_def
        ToIndex_def vec_at_def AttrNumber_Invalid_def bindM_def liftR_def retM_def assertR_def, simp_all add: numeral_2_eq_2)
qed

lemma row_values:
  assumes "length vs = 2" "list_all is_literal vs"
  shows "wf_heap_tuple main_descriptor (row_tuple xid vs)"
    and "same_heap_tuple main_descriptor (row_tuple xid vs) t \<Longrightarrow>
      hpt_values t = [column_value 4 (vs ! 0), column_value 2 (vs ! 1)] \<and> hpt_isnull t = map (\<lambda>e. literal_value e = None) vs \<and> th_xid (hpt_header t) = xid"
proof -
  obtain a b where vs: "vs = [a, b]" using assms(1) by (auto simp: length_Suc_conv numeral_2_eq_2)
  have sc: "\<exists>v. (case literal_value e of None \<Rightarrow> Scalar 0 | Some d \<Rightarrow> d) = Scalar v" for e by (cases e) (simp add: literal_value_def)
  show "wf_heap_tuple main_descriptor (row_tuple xid vs)"
    unfolding wf_heap_tuple_def by (rule main_storable) (use sc in \<open>auto simp: row_tuple_def vs\<close>)
  assume s: "same_heap_tuple main_descriptor (row_tuple xid vs) t"
  then have l: "length (hpt_values t) = 2" by (simp add: same_heap_tuple_def same_tuple_def main_descriptor_def)
  have "hpt_values t ! i = column_value (nat (ad_length (main_descriptor ! i))) (vs ! i)" if i: "i < 2" for i
  proof -
    have l2: "i < length main_descriptor" "i < length vs" using i assms(1) by (simp_all add: main_descriptor_def)
    have "if hpt_isnull (row_tuple xid vs) ! i then hpt_values t ! i = Scalar 0
        else same_datum (main_descriptor ! i) (hpt_values (row_tuple xid vs) ! i) (hpt_values t ! i)"
      using s l2(1) unfolding same_heap_tuple_def same_tuple_def by (auto split: if_splits)
    then have "if literal_value (vs ! i) = None then hpt_values t ! i = Scalar 0
        else same_datum (main_descriptor ! i) (case literal_value (vs ! i) of None \<Rightarrow> Scalar 0 | Some d \<Rightarrow> d) (hpt_values t ! i)"
      using l2(2) by (auto simp: row_tuple_def split: if_splits)
    then show ?thesis
      by (cases "vs ! i"; cases "hpt_values t ! i") (auto simp: literal_value_def column_value_def same_datum_def split: if_splits)
  qed
  from this [of 0] this [of 1] have "hpt_values t ! 0 = column_value 4 (vs ! 0)" "hpt_values t ! 1 = column_value 2 (vs ! 1)"
    by (simp_all add: main_descriptor_def)
  then show "hpt_values t = [column_value 4 (vs ! 0), column_value 2 (vs ! 1)] \<and> hpt_isnull t = map (\<lambda>e. literal_value e = None) vs \<and> th_xid (hpt_header t) = xid"
    using l s by (auto simp: length_Suc_conv numeral_2_eq_2 same_heap_tuple_def same_tuple_def stored_header_def row_tuple_def)
qed

lemma row_bytes:
  assumes "length vs = 2" "list_all is_literal vs"
  shows "\<exists>bs t. HeapTuple_Serialize (row_tuple xid vs) main_descriptor = Inr bs \<and> length bs \<le> 32 \<and> HeapTuple_Deserialize bs main_descriptor = Inr t \<and>
    same_heap_tuple main_descriptor (row_tuple xid vs) t"
proof -
  note wf = row_values(1) [OF assms, of xid]
  let ?t = "row_tuple xid vs"
  let ?bs = "tuple_header_bytes (stored_header ?t) @ tuple_image main_descriptor (hpt_values ?t) (hpt_isnull ?t)"
  obtain a b where vs: "vs = [a, b]" using assms(1) by (auto simp: length_Suc_conv numeral_2_eq_2)
  have "length (tuple_image main_descriptor (hpt_values ?t) (hpt_isnull ?t)) \<le> 8"
    by (cases a; cases b) (auto simp: tuple_image_def data_image_def main_descriptor_def row_tuple_def vs attr_image_def literal_value_def BitmapSize_def)
  then have "length ?bs \<le> 32" by simp
  then show ?thesis using HeapTuple_Serialize_image [OF wf] HeapTuple_Deserialize_image [OF wf, of "[]"] by (intro exI [of _ ?bs]) auto
qed

text \<open>The first page of the table is cached and has room for one row, and so have the logs.\<close>

definition page_ready :: "nat \<Rightarrow> nat \<Rightarrow> nat \<Rightarrow> nat \<Rightarrow> (UndoSeqNumber \<times> HeapUndoRecord) list \<Rightarrow> trans_state \<Rightarrow> bool" where
  "page_ready n i b room es d \<longleftrightarrow> cached n d \<lparr>Relid = MainTableId, PageNo = 0\<rparr> i b \<and> n < 2 ^ 20 - 1 \<and> \<not> ts_contents d b \<and>
     (\<exists>file. os_files d (rel_path MainTableId) = Some file \<and> PageSize \<le> length file \<and> length file < 2 ^ 32 * PageSize) \<and>
     undo_inv room d es \<and> 40 \<le> room \<and> wal_ok d \<and> unat (wal_end (ws_wal d)) + 64 < 2 ^ 62 \<and> wal_path (ws_wal d) \<noteq> ul_path (us_undo d) \<and>
     wf_page (bm_pages d b) \<and> lowerN (bm_pages d b) + 36 \<le> upperN (bm_pages d b) \<and> 48 < upperN (bm_pages d b)"

lemma ready_can_insert:
  assumes r: "page_ready n i b room es d" and w: "w < length (tm_transactions (ts_tm d))" "\<not> tm_mutex (ts_tm d)" "trans_of (ts_tm d) w = None" and v: "length vs = 2"
    and s: "HeapTuple_Serialize (row_tuple (tm_xid (ts_tm d)) vs) main_descriptor = Inr bs" "length bs \<le> 32"
  shows "can_insert n w main_table (insert_row vs) bs i b room es (first_statement w d) (statement_begun w d)"
proof -
  note b = statement_begun_run [OF w]
  have c: "cached n (statement_begun w d) \<lparr>Relid = MainTableId, PageNo = 0\<rparr> i b"
    using r cached_cong [of d "statement_begun w d"] by (simp add: page_ready_def same_cache_def b(3))
  have f: "formHeapPageTuple w main_table (insert_row vs) (statement_begun w d) = (Inr (row_tuple (tm_xid (ts_tm d)) vs), statement_begun w d)"
    using form_insert_row [OF v b(4)] by (simp add: first_statement_def new_Transaction_def)
  have u: "undo_inv room (statement_begun w d) es" "wal_ok (statement_begun w d)"
    using r by (simp_all add: page_ready_def undo_inv_def wal_ok_def file_of_def b(3))
  have a: "align8 (length bs) \<le> 32" using s(2) by (simp add: align8_def)
  have t: "tb_tableId main_table = MainTableId" "tb_descriptor main_table = main_descriptor" by (simp_all add: main_table_def)
  have d: "bm_pages (statement_begun w d) = bm_pages d" "ts_contents (statement_begun w d) = ts_contents d" "os_files (statement_begun w d) = os_files d"
    "ws_wal (statement_begun w d) = ws_wal d" "us_undo (statement_begun w d) = us_undo d" by (simp_all add: b(3))
  show ?thesis unfolding can_insert_def t d
    using r c u f s a b(4) by (simp add: page_ready_def)
qed

lemma insert_committed:
  assumes "setupDatabase = Inr db" "parse q = Inr (kStmtInsert (Some vs))" "length vs = 2" "list_all is_literal vs"
    and "\<not> ss_mine s" "alive (ss_sock s)" "w < length (tm_transactions (ts_tm (ss_db s)))" "\<not> tm_mutex (ts_tm (ss_db s))" "Csn_IsNormal (tm_csn (ts_tm (ss_db s)))"
    and "can_insert n w main_table (insert_row vs) bs i b room es (first_statement w (ss_db s)) (statement_begun w (ss_db s))"
    and "trans_of (ts_tm (ss_db s)) w = None"
  shows "\<exists>s' d m. handle_packet parse (Suc k) w db (QueryPacket q) s = (Inr (), s') \<and> \<not> ss_mine s' \<and>
    out_bytes (ss_sock s') = out_bytes (ss_sock s) @ packet_image (CommandCompletePacket ''INSERT'' 1) \<and>
    wf_page (bm_pages (ss_db s') b) \<and> abs_page (bm_pages (ss_db s') b) = abs_page (bm_pages (ss_db s) b) @ [Some bs] \<and>
    tm_history (ts_tm (ss_db s')) (tm_xid (ts_tm (ss_db s))) = Some (tm_csn (ts_tm (ss_db s))) \<and> trans_of (ts_tm (ss_db s')) w = None \<and>
    InsertTuple (Suc k) w main_table (insert_row vs) (statement_begun w (ss_db s)) = (Inr (), d) \<and> ss_db s' = d\<lparr>ts_tm := m\<rparr> \<and>
    alive (ss_sock s') \<and> ss_outputs s' = ss_outputs s \<and>
    (\<exists>usn. inserted n w main_table bs i b room es (first_statement w (ss_db s)) (statement_begun w (ss_db s)) usn d \<and>
      m = committed w ((first_statement w (ss_db s))\<lparr>tr_undoLog := Some (undo_log_of (first_statement w (ss_db s)) @ [usn])\<rparr>) (ts_tm d))"
proof -
  let ?d = "statement_begun w (ss_db s)" and ?t = "first_statement w (ss_db s)"
  note b = statement_begun_run [OF assms(7,8,11)]
  obtain usn d where i: "InsertTuple (Suc k) w main_table (insert_row vs) ?d = (Inr (), d)" "inserted n w main_table bs i b room es ?t ?d usn d"
    using InsertTuple_first_page [OF assms(10)] by blast
  let ?t2 = "?t\<lparr>tr_undoLog := Some (undo_log_of ?t @ [usn])\<rparr>"
  have tm: "ts_tm d = set_slot w (Some ?t2) (ts_tm ?d)" and pg: "wf_page (bm_pages d b)" "abs_page (bm_pages d b) = abs_page (bm_pages ?d b) @ [Some bs]"
    using i(2) by (simp_all add: inserted_def)
  have x: "tr_xid ?t2 = tm_xid (ts_tm (ss_db s))" "tr_workerId ?t2 = w" "tr_lastLsn ?t2 = Lsn_Invalid" by (simp_all add: first_statement_def new_Transaction_def)
  let ?s2 = "s\<lparr>ss_mine := True, ss_db := ?d\<rparr>"
  obtain c where c: "SendCommandComplete ''INSERT'' 1 (?s2\<lparr>ss_db := d\<rparr>) = (Inr (), ?s2\<lparr>ss_db := d, ss_sock := c\<rparr>)" "alive c"
    "out_bytes c = out_bytes (ss_sock s) @ packet_image (CommandCompletePacket ''INSERT'' 1)"
    using send_ok [of "CommandCompletePacket ''INSERT'' 1" "?s2\<lparr>ss_db := d\<rparr>"] assms(6) complete_fits [of "''INSERT''" 1] by (auto simp: SendCommandComplete_def)
  have "committable w ?t2 d" using assms(7-9) x by (simp add: committable_def tm set_slot_def b(3) trans_of_def)
  moreover have "Hardened ?t2 d d" using x by (simp add: Hardened_def Lsn_IsValid_def retM_def)
  ultimately have cm: "CommitTransaction w d = (Inr (), d\<lparr>ts_tm := committed w ?t2 (ts_tm d)\<rparr>)" by (rule CommitTransaction_run)
  let ?s' = "?s2\<lparr>ss_db := d\<lparr>ts_tm := committed w ?t2 (ts_tm d)\<rparr>, ss_sock := c, ss_mine := False\<rparr>"
  have "handle_packet parse (Suc k) w db (QueryPacket q) s = (Inr (), ?s')"
  proof (rule implicit_statement [OF assms(5,7,8,11), of _ _ _ _ _ main_table])
    show "parse q = Inr (kStmtInsert (Some vs))" "OpenTable db MainTableId = Inr main_table" "IsPlannableStatement (kStmtInsert (Some vs))"
      "Plan db (kStmtInsert (Some vs)) = Inr \<lparr>ps_plan = InsertNode main_table [insert_row vs] 0, ps_tag = InsertTag\<rparr>"
      using assms(1-4) by (simp_all add: setupDatabase_eq main_table_open Plan_insert IsPlannableStatement_def)
  qed (use c cm execute_insert [of k w main_table "insert_row vs" ?s2 d] i(1) in
      \<open>simp_all add: PlanNode_Start_def PlanNode_End_def GetRowsProcessed_def cmdTagToString_def commit_transaction_command_def set_mine_def
        bindM_def thenM_def retM_def liftR_def on_db_def updM_def\<close>)
  moreover have "tm_history (ts_tm (ss_db ?s')) (tm_xid (ts_tm (ss_db s))) = Some (tm_csn (ts_tm (ss_db s)))" "trans_of (ts_tm (ss_db ?s')) w = None"
    using x assms(7) by (simp_all add: committed_def tm set_slot_def b(3) trans_of_def)
  moreover have "bm_pages ?d b = bm_pages (ss_db s) b" by (simp add: b(3))
  ultimately show ?thesis using c pg i
    by (intro exI [of _ ?s'] exI [of _ d] exI [of _ "committed w ?t2 (ts_tm d)"]) (auto simp del: undo_log_of_def)
qed


text \<open>
  C3. An \<open>INSERT\<close> from the packet to the page: outside a transaction, with the slot of the worker empty (no
  transaction left over by an earlier client), a statement with two literals, when the first page of the
  table is in the cache and has room for a row, begins a transaction, appends one tuple to that page, answers
  \<open>INSERT 1\<close> and commits under the next number. The tuple reads back with the low 32 and 16 bits of the
  literals, a NULL where the statement has one: a literal that does not fit its column loses its high
  bits. The commit itself only changes the tables of the transaction manager: it synchronises no file.
\<close>

theorem insert_statement_commits:
  assumes "setupDatabase = Inr db" "parse q = Inr (kStmtInsert (Some vs))" "length vs = 2" "list_all is_literal vs"
    and "\<not> ss_mine s" "alive (ss_sock s)" "w < length (tm_transactions (ts_tm (ss_db s)))" "\<not> tm_mutex (ts_tm (ss_db s))" "Csn_IsNormal (tm_csn (ts_tm (ss_db s)))"
    and "page_ready n i b room es (ss_db s)" "trans_of (ts_tm (ss_db s)) w = None"
  shows "\<exists>s' d m bs t. handle_packet parse (Suc k) w db (QueryPacket q) s = (Inr (), s') \<and> \<not> ss_mine s' \<and>
    out_bytes (ss_sock s') = out_bytes (ss_sock s) @ packet_image (CommandCompletePacket ''INSERT'' 1) \<and>
    wf_page (bm_pages (ss_db s') b) \<and> abs_page (bm_pages (ss_db s') b) = abs_page (bm_pages (ss_db s) b) @ [Some bs] \<and>
    HeapTuple_Deserialize bs main_descriptor = Inr t \<and> hpt_values t = [column_value 4 (vs ! 0), column_value 2 (vs ! 1)] \<and>
    hpt_isnull t = map (\<lambda>e. literal_value e = None) vs \<and> th_xid (hpt_header t) = tm_xid (ts_tm (ss_db s)) \<and>
    tm_history (ts_tm (ss_db s')) (tm_xid (ts_tm (ss_db s))) = Some (tm_csn (ts_tm (ss_db s))) \<and> trans_of (ts_tm (ss_db s')) w = None \<and>
    InsertTuple (Suc k) w main_table (insert_row vs) (statement_begun w (ss_db s)) = (Inr (), d) \<and> ss_db s' = d\<lparr>ts_tm := m\<rparr>"
proof -
  obtain bs t where r: "HeapTuple_Serialize (row_tuple (tm_xid (ts_tm (ss_db s))) vs) main_descriptor = Inr bs" "length bs \<le> 32"
    "HeapTuple_Deserialize bs main_descriptor = Inr t" "same_heap_tuple main_descriptor (row_tuple (tm_xid (ts_tm (ss_db s))) vs) t"
    using row_bytes [OF assms(3,4)] by blast
  have c: "can_insert n w main_table (insert_row vs) bs i b room es (first_statement w (ss_db s)) (statement_begun w (ss_db s))"
    by (rule ready_can_insert [OF assms(10,7,8,11,3) r(1,2)])
  show ?thesis
    using insert_committed [of db parse q vs s w n bs i b room es k] assms(1-9,11) c row_values(2) [OF assms(3,4) r(4)] r(3) by blast
qed

lemma example_page_ready:
  "page_ready 0 0 0 1000 [] (example_heap\<lparr>ts_tm := new_TransactionManager 2\<rparr>)"
proof -
  note r = rel_path_1
  have p: "lowerN (Init (replicate PageSize 0)) = 12" "upperN (Init (replicate PageSize 0)) = 8192" "wf_page (Init (replicate PageSize 0))"
    using Init_bounds [of "replicate PageSize 0"] Init_wf [of "replicate PageSize 0"] by simp_all
  have len: "length (Init (replicate PageSize 0)) = PageSize" using p(3) by (simp add: wf_page_def wf_header_def)
  have o: "undo_inv 1000 example_heap []" "wal_ok example_heap" "wal_path (ws_wal example_heap) = ''wal''" "wal_end (ws_wal example_heap) = 0"
    "ul_path (us_undo example_heap) = ''undo''" "os_files example_heap ''data/1'' = Some (Init (replicate PageSize 0))" "\<not> ts_contents example_heap 0"
    by (simp_all add: undo_inv_def wal_ok_def file_of_def example_heap_def example_trans_def example_undo_def MaxResourceManagers_def)
  have "page_ready 0 0 0 1000 [] example_heap"
    unfolding page_ready_def MainTableId_def r
    using example_cached p len o by (simp add: example_page(1)) (simp add: PageSize_def)
  then show ?thesis using cached_cong [of example_heap "example_heap\<lparr>ts_tm := new_TransactionManager 2\<rparr>"]
    by (simp add: page_ready_def same_cache_def undo_inv_def wal_ok_def file_of_def)
qed

definition example_literal :: "u64 \<Rightarrow> Expr" where
  "example_literal v = Expr kExprLiteralInt kOpEquals None None [] v"

theorem insert_statement_commits_witness:
  "\<exists>s'. handle_packet (\<lambda>q. Inr (kStmtInsert (Some [example_literal 5, example_literal 70000]))) 1 0 main_database (QueryPacket [])
      (example_session False (example_heap\<lparr>ts_tm := new_TransactionManager 2\<rparr>)) = (Inr (), s') \<and> tm_history (ts_tm (ss_db s')) 1 = Some 5"
proof -
  let ?d = "example_heap\<lparr>ts_tm := new_TransactionManager 2\<rparr>" and ?vs = "[example_literal 5, example_literal 70000]"
  have s: "ss_db (example_session False ?d) = ?d" "\<not> ss_mine (example_session False ?d)" by (simp_all add: example_session_def)
  have d: "0 < length (tm_transactions (ts_tm ?d))" "\<not> tm_mutex (ts_tm ?d)" "Csn_IsNormal (tm_csn (ts_tm ?d))" "tm_csn (ts_tm ?d) = 5" "tm_xid (ts_tm ?d) = 1" "trans_of (ts_tm ?d) 0 = None"
    by (simp_all add: trans_of_def new_TransactionManager_def Csn_IsNormal_def Csn_Min_def Xid_Min_def)
  have v: "length ?vs = 2" "list_all is_literal ?vs" by (simp_all add: example_literal_def is_literal_def)
  from insert_statement_commits [of main_database "\<lambda>q. Inr (kStmtInsert (Some ?vs))" "[]" ?vs "example_session False ?d" 0 0 0 0 1000 "[]" 0]
    setupDatabase_eq v s d example_page_ready example_alive(2) [of False ?d]
  show ?thesis by auto
qed

end
