(* ===== verification/Mimi_SelectStatement.thy ===== *)
theory Mimi_SelectStatement
  imports Mimi_InsertStatement
begin

text \<open>
  A SELECT statement from the packet of the client to the rows sent back, in the transaction of the user
  or in its own.
\<close>

section \<open>Rows as text\<close>

lemma nat_to_string_length: "0 < k \<Longrightarrow> n < 10 ^ k \<Longrightarrow> length (nat_to_string n) \<le> k"
proof (induction k arbitrary: n)
  case 0
  then show ?case by simp
next
  case (Suc k)
  show ?case
  proof (cases "n < 10")
    case True
    then show ?thesis by (simp add: nat_to_string.simps [of n])
  next
    case False
    then have "0 < k" using Suc.prems by (cases k) simp_all
    moreover have "n div 10 < 10 ^ k" using Suc.prems by (simp add: less_mult_imp_div_less mult.commute)
    ultimately have "length (nat_to_string (n div 10)) \<le> k" by (rule Suc.IH)
    then show ?thesis using False by (simp add: nat_to_string.simps [of n])
  qed
qed

lemma int_to_string_length: "\<bar>v\<bar> < 2 ^ 32 \<Longrightarrow> length (int_to_string v) \<le> 11"
proof -
  assume v: "\<bar>v\<bar> < 2 ^ 32"
  then have "nat \<bar>v\<bar> < 10 ^ 10" by (simp add: nat_less_iff)
  from nat_to_string_length [OF _ this] show ?thesis using v by (auto simp: int_to_string_def abs_if split: if_splits)
qed

text \<open>The tuples of the table hold two integers.\<close>

lemma read_attr_scalar:
  assumes "read_attr main_descriptor mem h isnull num (vals, c) = Inr (vals', c')" "num < 2" "\<exists>a b. vals = [Scalar a, Scalar b]"
  shows "\<exists>a b. vals' = [Scalar a, Scalar b]"
  using assms by (auto simp: read_attr_def bindR_eq_Inr_iff extract_attr_datum_def main_descriptor_def less_2_cases_iff Let_def vec_at_def split: if_splits)

lemma main_deserialized:
  assumes "HeapTuple_Deserialize mem main_descriptor = Inr t"
  shows "\<exists>a b na nb. hpt_values t = [Scalar a, Scalar b] \<and> hpt_isnull t = [na, nb]"
proof -
  have loop: "attr_loop 2 body s = foldR body [0, 1] s" for body :: "nat \<Rightarrow> 's \<Rightarrow> 's res" and s
    using attr_loop_index [of 2 body] by (simp add: upt_conv_Cons)
  have rep: "replicate 2 x = [x, x]" for x :: 'b by (simp add: numeral_2_eq_2)
  obtain h dt where d: "Deserialize main_descriptor (drop SizeOfHeapPageTupleHeader mem) h = Inr dt" "hpt_values t = dt_Values dt" "hpt_isnull t = dt_IsNull dt"
    using assms by (auto simp: HeapTuple_Deserialize_def bindR_eq_Inr_iff)
  let ?m = "drop SizeOfHeapPageTupleHeader mem"
  obtain isnull c values1 c1 where i: "(if h then bindR (foldR (read_null ?m) [0, 1] [False, False]) (\<lambda>isnull'. Inr (isnull', BitmapSize 2)) else Inr ([False, False], 0)) = Inr (isnull, c)"
    and v: "foldR (read_attr main_descriptor ?m h isnull) [0, 1] ([Scalar 0, Scalar 0], c) = Inr (values1, c1)"
    and dt: "dt = \<lparr>dt_Values = values1, dt_IsNull = isnull\<rparr>"
    using d(1) by (auto simp: Deserialize_def main_max loop rep Let_def bindR_eq_Inr_iff simp del: foldR.simps split: if_splits)
  have "length isnull = 2" using i by (auto simp: bindR_eq_Inr_iff read_null_def split: if_splits)
  then have "\<exists>na nb. isnull = [na, nb]" by (auto simp: length_Suc_conv numeral_2_eq_2)
  moreover obtain v1 k where v1: "read_attr main_descriptor ?m h isnull 0 ([Scalar 0, Scalar 0], c) = Inr (v1, k)" "read_attr main_descriptor ?m h isnull 1 (v1, k) = Inr (values1, c1)"
    using v by (auto simp: bindR_eq_Inr_iff)
  have "\<exists>a b. values1 = [Scalar a, Scalar b]"
    using read_attr_scalar [OF v1(1)] read_attr_scalar [OF v1(2)] by simp
  ultimately show ?thesis using d(2,3) dt by auto
qed

definition row_strings :: "HeapTuple \<Rightarrow> string option list" where
  "row_strings t = (case (hpt_values (hp_tuple t), hpt_isnull (hp_tuple t)) of
     ([Scalar a, Scalar b], [na, nb]) \<Rightarrow> [if na then None else Some (int_to_string (sint (ucast a :: u32))), if nb then None else Some (int_to_string (sint (ucast b :: u16)))]
   | _ \<Rightarrow> [])"

definition is_main_row :: "HeapTuple \<Rightarrow> bool" where
  "is_main_row t \<longleftrightarrow> hp_descriptor t = main_descriptor \<and> (\<exists>a b na nb. hpt_values (hp_tuple t) = [Scalar a, Scalar b] \<and> hpt_isnull (hp_tuple t) = [na, nb])"

definition main_outputs :: "(Datum \<Rightarrow> string res) list" where
  "main_outputs = [Int32Output, Int16Output]"

definition outputs_ok :: "session_state \<Rightarrow> bool" where
  "outputs_ok s \<longleftrightarrow> ss_outputs s = None \<or> ss_outputs s = Some main_outputs"

lemma getOutputFunctions_run:
  "outputs_ok s \<Longrightarrow> getOutputFunctions main_database main_descriptor s = (Inr main_outputs, s\<lparr>ss_outputs := Some main_outputs\<rparr>)"
proof -
  have "GetTypeInfo (db_schema main_database) TypeId_Int32 = Inr \<lparr>ty_id = TypeId_Int32, ty_size = 4, ty_output = Int32Output\<rparr>"
    "GetTypeInfo (db_schema main_database) TypeId_Int16 = Inr \<lparr>ty_id = TypeId_Int16, ty_size = 2, ty_output = Int16Output\<rparr>"
    by (simp_all add: GetTypeInfo_def map_get_entry_def main_database_def new_Schema_def builtin_types_def TypeId_Int16_def TypeId_Int32_def TypeId_Int64_def TypeId_Text_def)
  then show "outputs_ok s \<Longrightarrow> ?thesis"
    by (auto simp: outputs_ok_def getOutputFunctions_def main_descriptor_def main_outputs_def bindM_def thenM_def getM_def retM_def liftR_def updM_def)
qed

lemma row_attrs: "is_main_row t \<Longrightarrow> foldR (output_attr (HeapITuple t) main_outputs) (attr_nums 2) [] = Inr (row_strings t)"
proof -
  have nums: "attr_nums 2 = [1, 2]" using attr_nums_small [of 2] by (simp add: upt_conv_Cons)
  have idx: "ToIndex 1 = Inr 0" "ToIndex 2 = Inr 1" by (simp_all add: ToIndex_def AttrNumber_Invalid_def)
  show "is_main_row t \<Longrightarrow> ?thesis"
    by (auto simp: is_main_row_def row_strings_def nums output_attr_def GetAttribute_def HeapTuple_GetAttribute_def VirtualTuple_Get_def main_max idx vec_at_def
      main_outputs_def Int32Output_def Int16Output_def getScalar_def)
qed

lemma row_fits: "is_main_row t \<Longrightarrow> packet_fits (DataRowPacket (row_strings t))"
proof -
  have "\<bar>sint (v :: u32)\<bar> < 2 ^ 32" "\<bar>sint (x :: u16)\<bar> < 2 ^ 32" for v x
    using sint_greater_eq [of v] sint_less [of v] sint_greater_eq [of x] sint_less [of x] by simp_all
  then have "length (int_to_string (sint (v :: u32))) \<le> 11" "length (int_to_string (sint (x :: u16))) \<le> 11" for v x
    using int_to_string_length by blast+
  note l = this
  assume "is_main_row t"
  then obtain a b na nb where t: "hpt_values (hp_tuple t) = [Scalar a, Scalar b]" "hpt_isnull (hp_tuple t) = [na, nb]" by (auto simp: is_main_row_def)
  show ?thesis using l(1) [of "ucast a"] l(2) [of "ucast b"]
    by (cases na; cases nb) (simp_all add: t row_strings_def packet_fits_def getStringSize_def)
qed

lemma SendTuple_run:
  assumes "is_main_row t" "alive (ss_sock s)" "outputs_ok s"
  shows "\<exists>c. SendTuple main_database main_descriptor (HeapITuple t) s = (Inr (), s\<lparr>ss_outputs := Some main_outputs, ss_sock := c\<rparr>) \<and> alive c \<and>
    out_bytes c = out_bytes (ss_sock s) @ packet_image (DataRowPacket (row_strings t))"
proof -
  obtain c where "on_sock (SendPacket (DataRowPacket (row_strings t))) (s\<lparr>ss_outputs := Some main_outputs\<rparr>) = (Inr (), s\<lparr>ss_outputs := Some main_outputs, ss_sock := c\<rparr>)"
    "alive c" "out_bytes c = out_bytes (ss_sock s) @ packet_image (DataRowPacket (row_strings t))"
    using send_ok [OF row_fits [OF assms(1)], of "s\<lparr>ss_outputs := Some main_outputs\<rparr>"] assms(2) by auto
  then show ?thesis using getOutputFunctions_run [OF assms(3)] row_attrs [OF assms(1)]
    by (intro exI [of _ c]) (simp add: SendTuple_def main_max bindM_def liftR_def)
qed

section \<open>A SELECT from the packet to the rows\<close>

lemma execute_select:
  "scan_until_null k w sc (ss_db s) = (Inr (ts, sc'), d') \<Longrightarrow> \<forall>t\<in>set ts. is_main_row t \<Longrightarrow> alive (ss_sock s) \<Longrightarrow> outputs_ok s \<Longrightarrow> k \<le> j \<Longrightarrow>
    \<exists>c fs. execute_rows j (Suc f) w main_database main_descriptor True (SeqScan tb None (Some sc) n) s =
      (Inr (SeqScan tb None (Some sc') (n + int (length ts))), s\<lparr>ss_db := d', ss_outputs := fs, ss_sock := c\<rparr>) \<and> alive c \<and> (fs = None \<or> fs = Some main_outputs) \<and>
      out_bytes c = out_bytes (ss_sock s) @ concat (map (\<lambda>t. packet_image (DataRowPacket (row_strings t))) ts)"
proof (induction k arbitrary: sc s ts n j)
  case 0
  then show ?case by (simp add: raiseM_def)
next
  case (Suc k)
  then obtain j' where j: "j = Suc j'" "k \<le> j'" by (cases j) auto
  obtain found sc1 d1 where g: "GetNextTuple w sc (ss_db s) = (Inr (found, sc1), d1)"
    using Suc.prems(1) by (auto simp: bindM_def split: prod.splits sum.splits)
  show ?case
  proof (cases found)
    case None
    then have "ts = []" "sc1 = sc'" "d1 = d'" using Suc.prems(1) g by (auto simp: bindM_def retM_def)
    then show ?thesis using g None j Suc.prems(3,4)
      by (intro exI [of _ "ss_sock s"] exI [of _ "ss_outputs s"]) (simp add: PlanNode_Execute_def bindM_def retM_def on_db_def outputs_ok_def)
  next
    case (Some t)
    then obtain ts' where ts: "ts = t # ts'" "scan_until_null k w sc1 d1 = (Inr (ts', sc'), d')"
      using Suc.prems(1) g by (auto simp: bindM_def retM_def split: prod.splits sum.splits)
    let ?s1 = "s\<lparr>ss_db := d1\<rparr>"
    obtain c where c: "SendTuple main_database main_descriptor (HeapITuple t) ?s1 = (Inr (), ?s1\<lparr>ss_outputs := Some main_outputs, ss_sock := c\<rparr>)" "alive c"
      "out_bytes c = out_bytes (ss_sock s) @ packet_image (DataRowPacket (row_strings t))"
      using SendTuple_run [of t ?s1] Suc.prems ts(1) by (auto simp: outputs_ok_def)
    let ?s2 = "?s1\<lparr>ss_outputs := Some main_outputs, ss_sock := c\<rparr>"
    obtain c2 fs where c2: "execute_rows j' (Suc f) w main_database main_descriptor True (SeqScan tb None (Some sc1) (n + 1)) ?s2 =
      (Inr (SeqScan tb None (Some sc') (n + 1 + int (length ts'))), ?s2\<lparr>ss_db := d', ss_outputs := fs, ss_sock := c2\<rparr>)" "alive c2" "fs = None \<or> fs = Some main_outputs"
      "out_bytes c2 = out_bytes c @ concat (map (\<lambda>t. packet_image (DataRowPacket (row_strings t))) ts')"
      using Suc.IH [of sc1 ?s2 ts' j' "n + 1"] ts Suc.prems(2) c(2) j(2) by (auto simp: outputs_ok_def)
    have ex: "PlanNode_Execute (Suc f) w (SeqScan tb None (Some sc) n) (ss_db s) = (Inr (Some t, SeqScan tb None (Some sc1) (n + 1)), d1)"
      using g Some by (simp add: PlanNode_Execute_def bindM_def retM_def qual_passes_def liftR_def)
    have "execute_rows j (Suc f) w main_database main_descriptor True (SeqScan tb None (Some sc) n) s =
      execute_rows j' (Suc f) w main_database main_descriptor True (SeqScan tb None (Some sc1) (n + 1)) ?s2"
      using ex c(1) by (simp add: j(1) bindM_def thenM_def on_db_def)
    then show ?thesis using c2 c(3) ts(1) by (intro exI [of _ c2] exI [of _ fs]) (simp add: add.assoc)
  qed
qed

definition plain_select :: SelectStatement where
  "plain_select = \<lparr>sel_fromTable = Some kTableName, sel_selectDistinct = False, sel_whereClause = None, sel_groupBy = False,
     sel_setOperations = False, sel_order = False, sel_limit = False, sel_lockings = False\<rparr>"

lemma Plan_select: "Plan main_database (kStmtSelect plain_select) = Inr \<lparr>ps_plan = SeqScan main_table None None 0, ps_tag = SelectTag\<rparr>"
  by (simp add: Plan_def IsPlannableStatement_def plan_select_def plain_select_def not_supported_def main_table_open parse_where_def new_SeqScan_def)

lemma BeginScan_run:
  assumes "os_files d (rel_path (tb_tableId tb)) = Some file" "PageSize \<le> length file" "length file < (2 ^ 32 - 1) * PageSize"
  shows "BeginScan (StartScan tb sn) d = (Inr \<lparr>hs_tupleId = \<lparr>tid_pageno = 0, tid_itemid = 0\<rparr>, hs_lastPageNumber = word_of_nat (length file div PageSize),
    hs_snapshot = sn, hs_table = tb, hs_end = False\<rparr>, d)"
proof -
  have n: "length file div PageSize < 2 ^ 32 - 1" "0 < length file div PageSize"
    using assms(2,3) by (simp_all add: less_mult_imp_div_less div_greater_zero_iff PageSize_def)
  have u: "unat (word_of_nat (length file div PageSize) :: u32) = length file div PageSize" using n(1) by (simp add: unat_of_nat)
  then have v: "(word_of_nat (length file div PageSize) :: u32) \<noteq> 0" "(word_of_nat (length file div PageSize) :: u32) \<noteq> PageNumber_Invalid"
    using n by (auto simp: PageNumber_Invalid_def word_unat_eq_iff unsigned_minus_1_eq_mask mask_eq_exp_minus_1)
  have "(word_of_int (int (length file) div int PageSize) :: u32) = word_of_nat (length file div PageSize)" by (simp flip: zdiv_int)
  then show ?thesis using assms(1) v
    by (simp add: BeginScan_def StartScan_def GetPageCount_def RelFile_Open_def RelFile_GetPagesCount_def File_Open_def File_Size_def file_of_def cm_simps PageNumber_IsValid_def)
qed

lemma the_slot_main_row:
  assumes "slot_shown m xid sn p i" "scannable m xid sn main_table pg p" "i < nitems p"
  shows "is_main_row (the_slot main_table pg p i)"
proof -
  have "abs_page p ! i \<noteq> None" using assms(1) by (auto simp: slot_shown_def slot_header_def split: option.splits)
  then obtain t where t: "slot_tuple main_table pg p i = Inr t" using assms by (auto simp: scannable_def)
  then obtain h where "HeapTuple_Deserialize (drop (fst (extent p i)) p) main_descriptor = Inr h" "hp_tuple t = h" "hp_descriptor t = main_descriptor"
    by (auto simp: slot_tuple_def build_heap_tuple_def main_table_def bindR_eq_Inr_iff)
  then show ?thesis using main_deserialized t by (simp add: is_main_row_def the_slot_def)
qed

text \<open>Rows that a scan shows are rows of the table, also the older versions.\<close>

lemma built_main_row: "build_heap_tuple main_descriptor mem tid = Inr t \<Longrightarrow> is_main_row t"
  using main_deserialized by (auto simp: build_heap_tuple_def bindR_eq_Inr_iff is_main_row_def)

lemma version_main_row: "version_tuple main_descriptor v = Some t \<Longrightarrow> is_main_row t"
  using built_main_row by (auto simp: version_tuple_def split: sum.splits)

lemma shown_main_row: "shown_at m xid sn main_table pg p vs i = Some t \<Longrightarrow> is_main_row t"
  using built_main_row version_main_row
  by (auto simp: shown_at_def slot_tuple_def newest_seen_def main_table_def bind_eq_Some_conv split: sum.splits if_splits)

lemma set_map_filter: "x \<in> set (List.map_filter f is) \<Longrightarrow> \<exists>i. f i = Some x"
  by (induction "is") (auto simp: List.map_filter_simps split: option.splits)

section \<open>A statement in its transaction\<close>

lemma plannable_statement:
  assumes p: "parse q = Inr st" "Plan db st = Inr stmt" "IsPlannableStatement st" "OpenTable db MainTableId = Inr tb"
    and e: "if ss_mine s then d0 = ss_db s else BeginNewTransaction w (ss_db s) = (Inr (), d0)"
    and b: "BeginNewStatement w d0 = (Inr (), d1)" "trans_of (ts_tm d1) w = Some t" "tr_snapshot t = Some sn"
    and d: "if ps_tag stmt = SelectTag then SendTupleDescriptor (tb_descriptor tb) (s\<lparr>ss_mine := True, ss_db := d1\<rparr>) = (Inr (), s1) else s1 = s\<lparr>ss_mine := True, ss_db := d1\<rparr>"
    and r: "on_db (PlanNode_Start sn (ps_plan stmt)) s1 = (Inr node, s2)" "execute_rows fuel fuel w db (tb_descriptor tb) (ps_tag stmt = SelectTag) node s2 = (Inr node', s3)"
      "PlanNode_End node' = Inr node''" "SendCommandComplete (cmdTagToString (ps_tag stmt)) (GetRowsProcessed node'') s3 = (Inr (), s4)"
    and l: "if ss_mine s then s' = s4 else commit_transaction_command w s4 = (Inr (), s')"
  shows "handle_packet parse fuel w db (QueryPacket q) s = (Inr (), s')"
proof -
  have tw: "MyTransaction w d1 = (Inr t, d1)" "tr_snapshot t = Some sn" using b(2,3) MyTransaction_run [of d1 w t] by simp_all
  let ?s0 = "s\<lparr>ss_mine := True, ss_db := d0\<rparr>"
  have g: "guard_Commit w (\<not> ss_mine s) s4 = (Inr (), s')" using l by (simp add: guard_Commit_def retM_def)
  have "run_plan fuel w db stmt (guard_Commit w (\<not> ss_mine s)) ?s0 = (Inr (), s')"
    using b(1) tw p(4) d r g by (simp add: run_plan_def Let_def thenM_def bindM_def on_db_def liftR_def retM_def split: if_splits)
  moreover have "(if ss_mine s then retM () else start_new_transaction_command w) s = (Inr (), ?s0)"
    using e by (cases "ss_mine s") (simp_all add: start_new_transaction_command_def set_mine_def bindM_def thenM_def getM_def retM_def on_db_def updM_def)
  ultimately have "exec_plannable_query fuel w db st s = (Inr (), s')"
    using p(2) by (simp add: exec_plannable_query_def with_implicit_transaction_def bindM_def thenM_def liftR_def getM_def catchM_def)
  then show ?thesis using p(1,3)
    by (cases st) (simp_all add: handle_packet_def dispatch_query_def catchM_def bindM_def liftR_def IsPlannableStatement_def)
qed

text \<open>
  How a statement begins: in the transaction of the user, if there is one, otherwise in a new one, for
  which the slot of the worker must be empty (a transaction that an earlier client left there would end
  the server).
\<close>

definition session_ready :: "nat \<Rightarrow> session_state \<Rightarrow> bool" where
  "session_ready w s \<longleftrightarrow> (if ss_mine s then trans_of (ts_tm (ss_db s)) w \<noteq> None
     else trans_of (ts_tm (ss_db s)) w = None \<and> w < length (tm_transactions (ts_tm (ss_db s))) \<and> Csn_IsNormal (tm_csn (ts_tm (ss_db s)))) \<and>
     \<not> tm_mutex (ts_tm (ss_db s))"

definition entered :: "nat \<Rightarrow> session_state \<Rightarrow> trans_state" where
  "entered w s = snd (BeginNewStatement w (if ss_mine s then ss_db s else snd (BeginNewTransaction w (ss_db s))))"

definition entered_trans :: "nat \<Rightarrow> session_state \<Rightarrow> Transaction" where
  "entered_trans w s = (case trans_of (ts_tm (entered w s)) w of Some t \<Rightarrow> t | None \<Rightarrow> new_Transaction 0 w)"

definition entered_snapshot :: "nat \<Rightarrow> session_state \<Rightarrow> Snapshot" where
  "entered_snapshot w s = (case tr_snapshot (entered_trans w s) of Some sn \<Rightarrow> sn | None \<Rightarrow> \<lparr>sn_CSN = 0, sn_CommandId = 0\<rparr>)"

lemma BeginNewStatement_any:
  assumes "trans_of (ts_tm d) w = Some t"
  shows "\<exists>d' t' sn. BeginNewStatement w d = (Inr (), d') \<and> trans_of (ts_tm d') w = Some t' \<and> tr_snapshot t' = Some sn \<and> \<not> (tm_mutex (ts_tm d') \<and> \<not> tm_mutex (ts_tm d))"
proof -
  have l: "w < length (tm_transactions (ts_tm d))" by (rule trans_of_len [OF assms])
  have my: "trans_of (set_slot w (Some t') (ts_tm d)) w = Some t'" for t' using l by (simp add: set_slot_def trans_of_def)
  consider (first) "tr_snapshot t = None" | (same) sn where "tr_snapshot t = Some sn" "\<And>log. tr_undoLog t = Some log \<Longrightarrow> \<not> Usn_IsValid (VUndo_LastUSN log)"
    | (again) sn log where "tr_snapshot t = Some sn" "tr_undoLog t = Some log" "Usn_IsValid (VUndo_LastUSN log)" by fastforce
  then show ?thesis
  proof cases
    case first
    then show ?thesis using BeginNewStatement_first [OF assms] my by (simp add: set_slot_def)
  next
    case same
    then have "BeginNewStatement w d = (Inr (), d)" using MyTransaction_run [OF assms] by (auto simp: BeginNewStatement_def bindM_def retM_def Let_def split: option.splits)
    then show ?thesis using assms same(1) by auto
  next
    case again
    then show ?thesis using BeginNewStatement_again [OF assms again] my by (simp add: set_slot_def)
  qed
qed

lemma session_enters:
  assumes "session_ready w s"
  obtains d0 where "if ss_mine s then d0 = ss_db s else BeginNewTransaction w (ss_db s) = (Inr (), d0)" "BeginNewStatement w d0 = (Inr (), entered w s)"
    "trans_of (ts_tm (entered w s)) w = Some (entered_trans w s)" "tr_snapshot (entered_trans w s) = Some (entered_snapshot w s)" "\<not> tm_mutex (ts_tm (entered w s))"
proof -
  define d0 where "d0 = (if ss_mine s then ss_db s else snd (BeginNewTransaction w (ss_db s)))"
  have d0: "if ss_mine s then d0 = ss_db s else BeginNewTransaction w (ss_db s) = (Inr (), d0)"
    using assms BeginNewTransaction_run [of w "ss_db s"] by (auto simp: session_ready_def d0_def)
  have "\<exists>t. trans_of (ts_tm d0) w = Some t" "\<not> tm_mutex (ts_tm d0)"
    using assms BeginNewTransaction_run [of w "ss_db s"]
    by (cases "ss_mine s"; simp add: session_ready_def d0_def; simp add: trans_of_def)+
  then obtain d' t' sn where b: "BeginNewStatement w d0 = (Inr (), d')" "trans_of (ts_tm d') w = Some t'" "tr_snapshot t' = Some sn" "\<not> tm_mutex (ts_tm d')"
    using BeginNewStatement_any [of d0 w] by blast
  have e: "entered w s = d'" using b(1) by (simp add: entered_def d0_def)
  then have t: "entered_trans w s = t'" using b(2) by (simp add: entered_trans_def)
  have "entered_snapshot w s = sn" using b(3) by (simp add: entered_snapshot_def t)
  then show thesis using that [OF d0] b by (simp add: e t)
qed

lemma entered_outside: "\<not> ss_mine s \<Longrightarrow> session_ready w s \<Longrightarrow> entered w s = statement_begun w (ss_db s) \<and> entered_trans w s = first_statement w (ss_db s)"
  using statement_begun_run(4) [of w "ss_db s"] by (auto simp: session_ready_def entered_def statement_begun_def entered_trans_def)

section \<open>The first page of the table\<close>

text \<open>
  The first page of the table is cached, and the scan of the statement can decide every slot of it: the
  older versions of the tuples that the statement does not see are in the undo log.
\<close>

definition page_readable :: "nat \<Rightarrow> nat \<Rightarrow> nat \<Rightarrow> nat \<Rightarrow> (UndoSeqNumber \<times> HeapUndoRecord) list \<Rightarrow> (nat \<Rightarrow> Version list) \<Rightarrow> nat \<Rightarrow> session_state \<Rightarrow> bool" where
  "page_readable n i b room es vs w s \<longleftrightarrow> (let d = entered w s in
     cached n d \<lparr>Relid = MainTableId, PageNo = 0\<rparr> i b \<and> n < 2 ^ 20 - 1 \<and> \<not> ts_contents d b \<and>
     (\<exists>file. os_files d (rel_path MainTableId) = Some file \<and> PageSize \<le> length file \<and> length file < (2 ^ 32 - 1) * PageSize) \<and>
     undo_inv room d es \<and> scan_ready es (ts_tm d) (tr_xid (entered_trans w s)) (entered_snapshot w s) main_table 0 (bm_pages d b) vs)"

text \<open>What the statement sees on the first page.\<close>

definition seen_rows :: "nat \<Rightarrow> (nat \<Rightarrow> Version list) \<Rightarrow> nat \<Rightarrow> session_state \<Rightarrow> HeapTuple list" where
  "seen_rows b vs w s = (let d = entered w s in List.map_filter (shown_at (ts_tm d) (tr_xid (entered_trans w s)) (entered_snapshot w s) main_table 0 (bm_pages d b) vs)
     [0..<nitems (bm_pages d b)])"

lemma seen_rows_main: "t \<in> set (seen_rows b vs w s) \<Longrightarrow> is_main_row t"
  using set_map_filter shown_main_row by (fastforce simp: seen_rows_def Let_def)

lemma read_first_page:
  assumes r: "page_readable n i b room es vs w s" "session_ready w s" "nitems (bm_pages (entered w s) b) < fuel"
  obtains sc sc' d2 where "BeginScan (StartScan main_table (entered_snapshot w s)) (entered w s) = (Inr sc, entered w s)"
    and "scan_until_null fuel w sc (entered w s) = (Inr (seen_rows b vs w s, sc'), d2)" and "leaves (entered w s) d2"
proof -
  let ?d = "entered w s" and ?t = "entered_trans w s" and ?p = "bm_pages (entered w s) b" and ?sn = "entered_snapshot w s"
  have mt: "tb_tableId main_table = MainTableId" by (simp add: main_table_def)
  obtain f0 where f0: "os_files ?d (rel_path (tb_tableId main_table)) = Some f0" "PageSize \<le> length f0" "length f0 < (2 ^ 32 - 1) * PageSize"
    using r(1) by (auto simp: page_readable_def Let_def mt)
  let ?sc = "\<lparr>hs_tupleId = \<lparr>tid_pageno = 0, tid_itemid = 0\<rparr>, hs_lastPageNumber = word_of_nat (length f0 div PageSize), hs_snapshot = ?sn, hs_table = main_table, hs_end = False\<rparr>"
  have at: "at_page n \<lparr>Relid = tb_tableId (hs_table ?sc), PageNo = tid_pageno (hs_tupleId ?sc)\<rparr> i b ?p (ts_tm ?d) ?d"
    using r(1) by (simp add: at_page_def page_readable_def mt Let_def)
  have u: "undo_readable es ?d" using r(1) by (auto simp: page_readable_def undo_readable_def Let_def)
  have sn: "scan_ready es (ts_tm ?d) (tr_xid ?t) (hs_snapshot ?sc) (hs_table ?sc) (tid_pageno (hs_tupleId ?sc)) ?p vs" using r(1) by (simp add: page_readable_def Let_def)
  have "trans_of (ts_tm ?d) w = Some ?t" "\<not> tm_mutex (ts_tm ?d)" using session_enters [OF r(2)] by blast+
  from scan_until_null_page [OF at u this sn, of fuel] obtain d2 where "scan_until_null fuel w ?sc ?d = (Inr (seen_rows b vs w s, scan_advance ?sc (nitems ?p) None), d2)" "leaves ?d d2"
    using r(3) by (auto simp: seen_rows_def Let_def)
  then show thesis using that BeginScan_run [OF f0] by blast
qed

text \<open>The plan of a SELECT, sent: the description, the rows and the completion.\<close>

lemma send_select:
  assumes a: "alive (ss_sock s)" "outputs_ok s" and sc: "scan_until_null fuel w sc (ss_db s) = (Inr (rows, sc'), d2)" "\<forall>t\<in>set rows. is_main_row t" "0 < fuel"
  shows "\<exists>s3 s4 fs c. SendTupleDescriptor main_descriptor s = (Inr (), s3) \<and> ss_db s3 = ss_db s \<and>
    execute_rows fuel fuel w main_database main_descriptor True (SeqScan main_table None (Some sc) 0) s3 = (Inr (SeqScan main_table None (Some sc') (int (length rows))), s4) \<and>
    SendCommandComplete ''SELECT'' (int (length rows)) s4 = (Inr (), s\<lparr>ss_outputs := fs, ss_sock := c, ss_db := d2\<rparr>) \<and> alive c \<and> (fs = None \<or> fs = Some main_outputs) \<and>
    out_bytes c = out_bytes (ss_sock s) @ packet_image (TupleDescriptionPacket [''a'', ''b'']) @
      concat (map (\<lambda>t. packet_image (DataRowPacket (row_strings t))) rows) @ packet_image (CommandCompletePacket ''SELECT'' (word_of_nat (length rows)))"
proof -
  obtain f where f: "fuel = Suc f" using sc(3) by (cases fuel) auto
  obtain c1 where c1: "SendTupleDescriptor main_descriptor s = (Inr (), s\<lparr>ss_sock := c1\<rparr>)" "alive c1"
    "out_bytes c1 = out_bytes (ss_sock s) @ packet_image (TupleDescriptionPacket [''a'', ''b''])"
    using send_ok [of "TupleDescriptionPacket [''a'', ''b'']" s] a by (auto simp: SendTupleDescriptor_def packet_fits_def getStringSize_def)
  let ?s3 = "s\<lparr>ss_sock := c1\<rparr>" and ?node = "SeqScan main_table None (Some sc') (int (length rows))"
  obtain c2 fs where c2: "execute_rows fuel fuel w main_database main_descriptor True (SeqScan main_table None (Some sc) 0) ?s3 =
      (Inr ?node, ?s3\<lparr>ss_db := d2, ss_outputs := fs, ss_sock := c2\<rparr>)" "alive c2" "fs = None \<or> fs = Some main_outputs"
      "out_bytes c2 = out_bytes c1 @ concat (map (\<lambda>t. packet_image (DataRowPacket (row_strings t))) rows)"
    using execute_select [of fuel w sc ?s3 rows sc' d2 fuel f main_table 0] sc c1(2) a(2) f by (auto simp: outputs_ok_def)
  let ?s4 = "?s3\<lparr>ss_db := d2, ss_outputs := fs, ss_sock := c2\<rparr>"
  obtain c3 where c3: "SendCommandComplete ''SELECT'' (int (length rows)) ?s4 = (Inr (), ?s4\<lparr>ss_sock := c3\<rparr>)" "alive c3"
    "out_bytes c3 = out_bytes c2 @ packet_image (CommandCompletePacket ''SELECT'' (word_of_nat (length rows)))"
    using send_ok [of "CommandCompletePacket ''SELECT'' (word_of_nat (length rows))" ?s4] c2(2) complete_fits [of "''SELECT''"] by (auto simp: SendCommandComplete_def)
  show ?thesis
    by (rule exI [of _ ?s3], rule exI [of _ ?s4], rule exI [of _ fs], rule exI [of _ c3]) (use c1 c2 c3 in simp)
qed

lemma select_handled:
  assumes db: "setupDatabase = Inr db" and q: "parse q = Inr (kStmtSelect plain_select)"
    and e: "if ss_mine s then d0 = ss_db s else BeginNewTransaction w (ss_db s) = (Inr (), d0)" "BeginNewStatement w d0 = (Inr (), d1)" "trans_of (ts_tm d1) w = Some t" "tr_snapshot t = Some sn"
    and sc: "BeginScan (StartScan main_table sn) d1 = (Inr sc, d1)"
    and x: "SendTupleDescriptor main_descriptor (s\<lparr>ss_mine := True, ss_db := d1\<rparr>) = (Inr (), s1)" "ss_db s1 = d1"
      "execute_rows fuel fuel w main_database main_descriptor True (SeqScan main_table None (Some sc) 0) s1 = (Inr (SeqScan main_table None (Some sc') k), s3)"
      "SendCommandComplete ''SELECT'' k s3 = (Inr (), s4)"
    and l: "if ss_mine s then s' = s4 else commit_transaction_command w s4 = (Inr (), s')"
  shows "handle_packet parse fuel w db (QueryPacket q) s = (Inr (), s')"
proof -
  let ?stmt = "\<lparr>ps_plan = SeqScan main_table None None 0, ps_tag = SelectTag\<rparr>" and ?finished = "SeqScan main_table None (Some sc') k"
  have pl: "Plan db (kStmtSelect plain_select) = Inr ?stmt" "OpenTable db MainTableId = Inr main_table" "db = main_database"
    using db by (simp_all add: setupDatabase_eq main_table_open Plan_select)
  have td: "tb_descriptor main_table = main_descriptor" by (simp add: main_table_def)
  show ?thesis
  proof (rule plannable_statement [of parse q "kStmtSelect plain_select" db ?stmt main_table s d0 w d1 t sn s1, OF q pl(1) _ pl(2) e])
    show "on_db (PlanNode_Start sn (ps_plan ?stmt)) s1 = (Inr (SeqScan main_table None (Some sc) 0), s1)"
      using sc x(2) by (simp add: PlanNode_Start_def bindM_def retM_def on_db_def)
    show "execute_rows fuel fuel w db (tb_descriptor main_table) (ps_tag ?stmt = SelectTag) (SeqScan main_table None (Some sc) 0) s1 = (Inr ?finished, s3)"
      using x(3) by (simp add: pl(3) td)
    show "PlanNode_End ?finished = Inr (SeqScan main_table None (Some (EndScan sc')) k)" by (simp add: PlanNode_End_def)
    show "SendCommandComplete (cmdTagToString (ps_tag ?stmt)) (GetRowsProcessed (SeqScan main_table None (Some (EndScan sc')) k)) s3 = (Inr (), s4)"
      using x(4) by (simp add: cmdTagToString_def GetRowsProcessed_def)
    show "if ss_mine s then s' = s4 else commit_transaction_command w s4 = (Inr (), s')" by (rule l)
  qed (use x(1) in \<open>simp_all add: IsPlannableStatement_def td\<close>)
qed

text \<open>A SELECT inside or outside a transaction of the user.\<close>

lemma select_answered:
  assumes db: "setupDatabase = Inr db" and q: "parse q = Inr (kStmtSelect plain_select)" and a: "alive (ss_sock s)" "outputs_ok s"
    and r: "session_ready w s" "page_readable n i b room es vs w s" "nitems (bm_pages (entered w s) b) < fuel"
  shows "\<exists>s'. handle_packet parse fuel w db (QueryPacket q) s = (Inr (), s') \<and> ss_mine s' = ss_mine s \<and>
    out_bytes (ss_sock s') = out_bytes (ss_sock s) @ packet_image (TupleDescriptionPacket [''a'', ''b'']) @
      concat (map (\<lambda>t. packet_image (DataRowPacket (row_strings t))) (seen_rows b vs w s)) @
      packet_image (CommandCompletePacket ''SELECT'' (word_of_nat (length (seen_rows b vs w s)))) \<and>
    (\<not> ss_mine s \<longrightarrow> tm_history (ts_tm (ss_db s')) (tm_xid (ts_tm (ss_db s))) = Some (tm_csn (ts_tm (ss_db s))) \<and> trans_of (ts_tm (ss_db s')) w = None)"
proof -
  let ?d = "entered w s" and ?rows = "seen_rows b vs w s"
  obtain d0 where e: "if ss_mine s then d0 = ss_db s else BeginNewTransaction w (ss_db s) = (Inr (), d0)" "BeginNewStatement w d0 = (Inr (), ?d)"
    "trans_of (ts_tm ?d) w = Some (entered_trans w s)" "tr_snapshot (entered_trans w s) = Some (entered_snapshot w s)" "\<not> tm_mutex (ts_tm ?d)"
    by (rule session_enters [OF r(1)])
  obtain sc sc' d2 where x: "BeginScan (StartScan main_table (entered_snapshot w s)) ?d = (Inr sc, ?d)" "scan_until_null fuel w sc ?d = (Inr (?rows, sc'), d2)" "leaves ?d d2"
    by (rule read_first_page [OF r(2,1,3)])
  let ?s0 = "s\<lparr>ss_mine := True, ss_db := ?d\<rparr>"
  have a0: "alive (ss_sock ?s0)" "outputs_ok ?s0" "scan_until_null fuel w sc (ss_db ?s0) = (Inr (?rows, sc'), d2)" "\<forall>t\<in>set ?rows. is_main_row t" "0 < fuel"
    using a x(2) seen_rows_main r(3) by (simp_all add: outputs_ok_def)
  obtain s1 s3 fs c where y: "SendTupleDescriptor main_descriptor ?s0 = (Inr (), s1)" "ss_db s1 = ss_db ?s0"
    "execute_rows fuel fuel w main_database main_descriptor True (SeqScan main_table None (Some sc) 0) s1 = (Inr (SeqScan main_table None (Some sc') (int (length ?rows))), s3)"
    "SendCommandComplete ''SELECT'' (int (length ?rows)) s3 = (Inr (), ?s0\<lparr>ss_outputs := fs, ss_sock := c, ss_db := d2\<rparr>)"
    and out: "out_bytes c = out_bytes (ss_sock ?s0) @ packet_image (TupleDescriptionPacket [''a'', ''b'']) @
      concat (map (\<lambda>t. packet_image (DataRowPacket (row_strings t))) ?rows) @ packet_image (CommandCompletePacket ''SELECT'' (word_of_nat (length ?rows)))"
    using send_select [OF a0] by blast
  let ?s4 = "?s0\<lparr>ss_outputs := fs, ss_sock := c, ss_db := d2\<rparr>"
  have run: "handle_packet parse fuel w db (QueryPacket q) s = (Inr (), s')" if "if ss_mine s then s' = ?s4 else commit_transaction_command w ?s4 = (Inr (), s')" for s'
    by (rule select_handled [where parse = parse and q = q, OF db q e(1-4) x(1) y(1) _ y(3,4) that]) (simp add: y(2))
  show ?thesis
  proof (cases "ss_mine s")
    case True
    then show ?thesis using run [of ?s4] out by (intro exI [of _ ?s4]) simp
  next
    case False
    then have m: "trans_of (ts_tm (ss_db s)) w = None" "w < length (tm_transactions (ts_tm (ss_db s)))" "Csn_IsNormal (tm_csn (ts_tm (ss_db s)))" "\<not> tm_mutex (ts_tm (ss_db s))"
      using r(1) by (simp_all add: session_ready_def)
    let ?t = "first_statement w (ss_db s)"
    have ent: "?d = statement_begun w (ss_db s)" using entered_outside [OF False r(1)] by simp
    note b = statement_begun_run [OF m(2,4,1)]
    have tm: "ts_tm d2 = ts_tm (statement_begun w (ss_db s))" using leaves_fields [OF x(3)] ent by simp
    have t: "tr_xid ?t = tm_xid (ts_tm (ss_db s))" "tr_workerId ?t = w" "tr_lastLsn ?t = Lsn_Invalid" by (simp_all add: first_statement_def new_Transaction_def)
    have "committable w ?t d2" using m b(4) t by (simp add: committable_def tm) (simp add: b(3))
    moreover have "Hardened ?t d2 d2" using t by (simp add: Hardened_def Lsn_IsValid_def retM_def)
    ultimately have cm: "CommitTransaction w d2 = (Inr (), d2\<lparr>ts_tm := committed w ?t (ts_tm d2)\<rparr>)" by (rule CommitTransaction_run)
    let ?s' = "?s4\<lparr>ss_db := d2\<lparr>ts_tm := committed w ?t (ts_tm d2)\<rparr>, ss_mine := False\<rparr>"
    have "commit_transaction_command w ?s4 = (Inr (), ?s')" using cm by (simp add: commit_transaction_command_def set_mine_def thenM_def bindM_def on_db_def updM_def)
    moreover have "tm_history (ts_tm (ss_db ?s')) (tm_xid (ts_tm (ss_db s))) = Some (tm_csn (ts_tm (ss_db s)))" "trans_of (ts_tm (ss_db ?s')) w = None"
      using t(1) m(2) by (simp_all add: committed_def tm b(3) trans_of_def)
    ultimately show ?thesis using run [of ?s'] out False by (intro exI [of _ ?s']) simp
  qed
qed

section \<open>Example sessions\<close>

text \<open>A session of worker 0 outside a transaction, on an empty table, and the same on a page with two rows.\<close>

definition example_reading :: session_state where
  "example_reading = example_session False (example_heap\<lparr>ts_tm := new_TransactionManager 2\<rparr>)"

lemma example_reading:
  "\<not> ss_mine example_reading" "alive (ss_sock example_reading)" "outputs_ok example_reading" "out_bytes (ss_sock example_reading) = []"
  "nitems (bm_pages (ss_db example_reading) 0) = 0"
proof -
  show "\<not> ss_mine example_reading" "outputs_ok example_reading" "out_bytes (ss_sock example_reading) = []"
    by (simp_all add: example_reading_def example_session_def outputs_ok_def example_sock_def)
  show "alive (ss_sock example_reading)" unfolding example_reading_def by (rule example_alive(2))
  show "nitems (bm_pages (ss_db example_reading) 0) = 0"
    using nitems_abs [of "Init (replicate PageSize 0)"] Init_wf [of "replicate PageSize 0"] by (simp add: example_reading_def example_session_def example_page(1))
qed

definition example_idle :: TransactionManager where
  "example_idle = \<lparr>tm_csn = 6, tm_xid = 4, tm_mutex = False, tm_transactions = [None, Some (new_Transaction 2 1)],
     tm_xidToWorker = [2 \<mapsto> 1], tm_history = [2 \<mapsto> Csn_InProgress, 3 \<mapsto> 5]\<rparr>"

definition example_selecting :: session_state where
  "example_selecting = example_session False (example_versions example_idle)"

lemma example_selecting:
  "alive (ss_sock example_selecting)" "outputs_ok example_selecting" "out_bytes (ss_sock example_selecting) = []" "session_ready 0 example_selecting"
  "page_readable 0 0 0 1000 [(1, example_update)] (\<lambda>_. [example_older]) 0 example_selecting" "nitems (bm_pages (entered 0 example_selecting) 0) = 2"
  "map row_strings (seen_rows 0 (\<lambda>_. [example_older]) 0 example_selecting) = [[Some (int_to_string 4), Some (int_to_string 5)], [Some (int_to_string 6), Some (int_to_string 7)]]"
proof -
  have d: "ss_db example_selecting = example_versions example_idle" "\<not> ss_mine example_selecting" by (simp_all add: example_selecting_def example_session_def)
  note st = example_versions_state [of example_idle]
  show "alive (ss_sock example_selecting)" unfolding example_selecting_def by (rule example_alive(2))
  show "outputs_ok example_selecting" "out_bytes (ss_sock example_selecting) = []"
    by (simp_all add: example_selecting_def example_session_def outputs_ok_def example_sock_def)
  show ready: "session_ready 0 example_selecting"
    by (simp add: session_ready_def d example_versions_state(4)) (simp add: trans_of_def example_idle_def csn_defs word_le_nat_alt)
  let ?e = "statement_begun 0 (example_versions example_idle)"
  have e: "entered 0 example_selecting = ?e" "entered_trans 0 example_selecting = first_statement 0 (example_versions example_idle)"
    using entered_outside [OF d(2) ready] by (simp_all add: d(1))
  have sn: "entered_snapshot 0 example_selecting = \<lparr>sn_CSN = 6, sn_CommandId = 0\<rparr>" "tr_xid (first_statement 0 (example_versions example_idle)) = 4"
    by (simp_all add: entered_snapshot_def e first_statement_def new_Transaction_def st(4)) (simp_all add: example_idle_def Usn_Invalid_def)
  have m: "0 < length (tm_transactions (ts_tm (example_versions example_idle)))" "\<not> tm_mutex (ts_tm (example_versions example_idle))"
    "trans_of (ts_tm (example_versions example_idle)) 0 = None" by (simp_all add: example_versions_state(4) trans_of_def example_idle_def)
  note b = statement_begun_run(3) [OF m]
  have f: "bm_pages ?e = bm_pages (example_versions example_idle)" "ts_contents ?e = ts_contents (example_versions example_idle)" "os_files ?e = os_files (example_versions example_idle)"
    by (simp_all add: b)
  have times: "example_times (ts_tm ?e) 4 \<lparr>sn_CSN = 6, sn_CommandId = 0\<rparr>" by (simp add: b example_times_def st(4)) (simp add: example_idle_def)
  have t: "main_table = example_pair"
    by (simp add: main_table_def example_pair_def MainTableId_def main_descriptor_def example_columns_def TypeId_Int32_def TypeId_Int16_def)
  have len: "length (Init (replicate PageSize 0)) = PageSize" using Init_wf(1) [of "replicate PageSize 0"] by (simp add: wf_page_def wf_header_def)
  have "cached 0 ?e \<lparr>Relid = 1, PageNo = 0\<rparr> 0 0" "undo_inv 1000 ?e [(1, example_update)]"
    using cached_cong [of "example_versions example_idle" ?e] st(1,2) by (simp_all add: same_cache_def undo_inv_def b)
  then show "page_readable 0 0 0 1000 [(1, example_update)] (\<lambda>_. [example_older]) 0 example_selecting"
    using example_versions_scan(1) [OF times] st(3,5,6) len
    by (simp add: page_readable_def Let_def e sn f t MainTableId_def rel_path_1) (simp add: PageSize_def)
  show "nitems (bm_pages (entered 0 example_selecting) 0) = 2" by (simp add: e f st(3) example_versions_page(3))
  show "map row_strings (seen_rows 0 (\<lambda>_. [example_older]) 0 example_selecting) = [[Some (int_to_string 4), Some (int_to_string 5)], [Some (int_to_string 6), Some (int_to_string 7)]]"
    using example_versions_scan(2) [OF times] by (auto simp: seen_rows_def Let_def e sn f t st(3) example_versions_page(3) row_strings_def)
qed

end
