(* ===== verification/Mimi_TableFormat.thy ===== *)
theory Mimi_TableFormat
  imports Mimi_Network
begin

text \<open>
  The table printer of the client (\<open>client/formatting/TableFormatter.cpp\<close>). A stream is the text written
  so far. The printed table is compared with a reference: columns as wide as their widest entry and a
  border of two, lines joined by separators, all of the same length.
\<close>

section \<open>Output streams\<close>

type_synonym ostream = string

definition put :: "string \<Rightarrow> (ostream, unit) cm" where
  "put t = updM (\<lambda>out. out @ t)"

definition newline :: string where
  "newline = [CHR 0x0A]"

primrec for_each :: "('a \<Rightarrow> ('s, unit) cm) \<Rightarrow> 'a list \<Rightarrow> ('s, unit) cm" where
  "for_each f [] = retM ()"
| "for_each f (x # xs) = thenM (f x) (for_each f xs)"

section \<open>TableFormatter\<close>

definition writeColumnValue :: "string \<Rightarrow> nat \<Rightarrow> bool \<Rightarrow> (ostream, unit) cm" where
  "writeColumnValue value width align =
     thenM (assertM ''value.size() + 2 <= width'' (length value + 2 \<le> width)) (
     let spacesCount = width - length value; leftSpaces = (if align then spacesCount div 2 else 1); rightSpaces = spacesCount - leftSpaces in
     thenM (put (replicate leftSpaces CHR '' '')) (thenM (put value) (put (replicate rightSpaces CHR '' ''))))"

definition valWidth :: "string option \<Rightarrow> nat" where
  "valWidth value = (case value of None \<Rightarrow> 0 | Some v \<Rightarrow> length v)"

text \<open>\<open>values[attno]\<close> is undefined past the end of the row.\<close>

definition value_at :: "string option list \<Rightarrow> nat \<Rightarrow> string option res" where
  "value_at row_values attno = (if attno < length row_values then Inr (row_values ! attno) else Inl (Undefined ''values[attno]''))"

definition widen :: "string option list \<Rightarrow> nat \<Rightarrow> nat list \<Rightarrow> nat list res" where
  "widen row_values attno maxWidths = bindR (value_at row_values attno) (\<lambda>value.
     Inr (if maxWidths ! attno < valWidth value then maxWidths[attno := valWidth value] else maxWidths))"

definition column_widths :: "string list \<Rightarrow> string option list list \<Rightarrow> nat list res" where
  "column_widths names rows = bindR (foldR (\<lambda>row. foldR (widen row) [0..<length names]) rows (map length names))
     (\<lambda>maxWidths. Inr (map (\<lambda>width. width + 2) maxWidths))"

definition separator :: "string \<Rightarrow> nat \<Rightarrow> nat \<Rightarrow> (ostream, unit) cm" where
  "separator sep natts attno = (if attno < natts - 1 then put sep else retM ())"

definition write_header :: "string list \<Rightarrow> nat list \<Rightarrow> (ostream, unit) cm" where
  "write_header names maxWidths = thenM (for_each (\<lambda>attno.
     thenM (writeColumnValue (names ! attno) (maxWidths ! attno) True) (separator ''|'' (length names) attno)) [0..<length names]) (put newline)"

definition write_rule :: "nat \<Rightarrow> nat list \<Rightarrow> (ostream, unit) cm" where
  "write_rule natts maxWidths = thenM (for_each (\<lambda>attno.
     thenM (put (replicate (maxWidths ! attno) CHR ''-'')) (separator ''+'' natts attno)) [0..<natts]) (put newline)"

definition write_row :: "nat \<Rightarrow> nat list \<Rightarrow> string option list \<Rightarrow> (ostream, unit) cm" where
  "write_row natts maxWidths row = thenM (for_each (\<lambda>attno.
     bindM (liftR (value_at row attno)) (\<lambda>value.
     thenM (case value of Some v \<Rightarrow> writeColumnValue v (maxWidths ! attno) False | None \<Rightarrow> put (replicate (maxWidths ! attno) CHR '' ''))
       (separator ''|'' natts attno))) [0..<natts]) (put newline)"

definition Format :: "string list \<Rightarrow> string option list list \<Rightarrow> (ostream, unit) cm" where
  "Format names rows = bindM (liftR (column_widths names rows)) (\<lambda>maxWidths.
     thenM (write_header names maxWidths) (thenM (write_rule (length names) maxWidths) (for_each (write_row (length names) maxWidths) rows)))"

section \<open>The reference table\<close>

fun join :: "string \<Rightarrow> string list \<Rightarrow> string" where
  "join sep [] = []"
| "join sep [x] = x"
| "join sep (x # xs) = x @ sep @ join sep xs"

definition col_width :: "string list \<Rightarrow> string option list list \<Rightarrow> nat \<Rightarrow> nat" where
  "col_width names rows j = Max (insert (length (names ! j)) ((\<lambda>row. valWidth (row ! j)) ` set rows)) + 2"

definition header_cell :: "nat \<Rightarrow> string \<Rightarrow> string" where
  "header_cell width name = replicate ((width - length name) div 2) CHR '' '' @ name @ replicate (width - length name - (width - length name) div 2) CHR '' ''"

definition row_cell :: "nat \<Rightarrow> string option \<Rightarrow> string" where
  "row_cell width value = (case value of None \<Rightarrow> replicate width CHR '' '' | Some v \<Rightarrow> '' '' @ v @ replicate (width - length v - 1) CHR '' '')"

definition table_lines :: "string list \<Rightarrow> string option list list \<Rightarrow> string list" where
  "table_lines names rows = (let cols = [0..<length names]; width = col_width names rows in
     join ''|'' (map (\<lambda>j. header_cell (width j) (names ! j)) cols) #
     join ''+'' (map (\<lambda>j. replicate (width j) CHR ''-'') cols) #
     map (\<lambda>row. join ''|'' (map (\<lambda>j. row_cell (width j) (row ! j)) cols)) rows)"

definition text_of :: "string list \<Rightarrow> string" where
  "text_of ls = concat (map (\<lambda>l. l @ newline) ls)"

section \<open>What the printer writes\<close>

definition writes_text :: "(ostream, unit) cm \<Rightarrow> string \<Rightarrow> bool" where
  "writes_text m t \<longleftrightarrow> (\<forall>out. m out = (Inr (), out @ t))"

lemma writes_put [simp, intro]: "writes_text (put t) t"
  by (simp add: writes_text_def put_def updM_def)

lemma writes_ret [simp, intro]: "writes_text (retM ()) []"
  by (simp add: writes_text_def retM_def)

lemma writes_then: "writes_text m t \<Longrightarrow> writes_text k u \<Longrightarrow> writes_text (thenM m k) (t @ u)"
  by (simp add: writes_text_def thenM_def bindM_def)

lemma writes_for_each: "(\<And>x. x \<in> set xs \<Longrightarrow> writes_text (f x) (g x)) \<Longrightarrow> writes_text (for_each f xs) (concat (map g xs))"
  by (induction xs) (auto intro!: writes_then)

lemma writes_lift: "r = Inr x \<Longrightarrow> writes_text (f x) t \<Longrightarrow> writes_text (bindM (liftR r) f) t"
  by (simp add: writes_text_def bindM_def liftR_def)

lemma join_snoc: "xs \<noteq> [] \<Longrightarrow> join sep (xs @ [x]) = join sep xs @ sep @ x"
  by (induction sep xs rule: join.induct) auto

lemma concat_join: "concat (map (\<lambda>j. f j @ (if j < n - 1 then sep else [])) [0..<n]) = join sep (map f [0..<n])"
proof -
  have all: "concat (map (\<lambda>j. f j @ sep) [0..<k]) @ f k = join sep (map f [0..<Suc k])" for k
  proof (induction k)
    case (Suc k)
    have "join sep (map f [0..<Suc (Suc k)]) = join sep (map f [0..<Suc k]) @ sep @ f (Suc k)"
      using join_snoc [of "map f [0..<Suc k]" sep "f (Suc k)"] by (subst upt_Suc) (simp del: upt_Suc)
    then show ?case by (simp only: Suc.IH [symmetric]) simp
  qed simp
  show ?thesis
  proof (cases n)
    case (Suc k)
    have "map (\<lambda>j. f j @ (if j < k then sep else [])) [0..<k] = map (\<lambda>j. f j @ sep) [0..<k]" by simp
    then have "concat (map (\<lambda>j. f j @ (if j < k then sep else [])) [0..<k]) = concat (map (\<lambda>j. f j @ sep) [0..<k])" by (rule arg_cong)
    then show ?thesis using all [of k] by (simp add: Suc)
  qed simp
qed

text \<open>A line: the cells of a loop over the columns, joined.\<close>

lemma writes_line:
  assumes "\<And>j. j < n \<Longrightarrow> writes_text (f j) (g j)"
  shows "writes_text (thenM (for_each (\<lambda>j. thenM (f j) (separator sep n j)) [0..<n]) (put newline)) (join sep (map g [0..<n]) @ newline)"
proof -
  have "writes_text (separator sep n j) (if j < n - 1 then sep else [])" for j by (simp add: separator_def)
  then have "writes_text (for_each (\<lambda>j. thenM (f j) (separator sep n j)) [0..<n]) (concat (map (\<lambda>j. g j @ (if j < n - 1 then sep else [])) [0..<n]))"
    using assms by (intro writes_for_each writes_then) auto
  then show ?thesis unfolding concat_join by (intro writes_then) auto
qed

lemma writes_column: "length v + 2 \<le> width \<Longrightarrow> writes_text (writeColumnValue v width align)
    (replicate (if align then (width - length v) div 2 else 1) CHR '' '' @ v @ replicate (width - length v - (if align then (width - length v) div 2 else 1)) CHR '' '')"
  by (simp add: writeColumnValue_def writes_text_def Let_def thenM_def bindM_def assertM_def put_def updM_def)

section \<open>The widths\<close>

lemma widen_row:
  assumes "length names \<le> length row" "length ws = length names"
  shows "foldR (widen row) [0..<length names] ws = Inr (map (\<lambda>j. max (ws ! j) (valWidth (row ! j))) [0..<length names])"
proof -
  have "k \<le> length names \<Longrightarrow> foldR (widen row) [0..<k] ws = Inr (map (\<lambda>j. if j < k then max (ws ! j) (valWidth (row ! j)) else ws ! j) [0..<length names])" for k
  proof (induction k)
    case 0
    then show ?case using assms(2) map_nth [of ws] by simp
  next
    case (Suc k)
    let ?xs = "map (\<lambda>j. if j < k then max (ws ! j) (valWidth (row ! j)) else ws ! j) [0..<length names]"
    have "widen row k ?xs = Inr (map (\<lambda>j. if j < Suc k then max (ws ! j) (valWidth (row ! j)) else ws ! j) [0..<length names])"
      using Suc.prems assms(1)
      by (auto simp: widen_def value_at_def nth_list_update less_Suc_eq max_def intro!: nth_equalityI)
    then show ?case using Suc by (simp add: foldR_append)
  qed
  from this [of "length names"] show ?thesis by (simp cong: map_cong)
qed

lemma widen_rows:
  assumes "\<forall>row\<in>set rows. length names \<le> length row" "length ws = length names"
  shows "foldR (\<lambda>row. foldR (widen row) [0..<length names]) rows ws =
    Inr (map (\<lambda>j. Max (insert (ws ! j) ((\<lambda>row. valWidth (row ! j)) ` set rows))) [0..<length names])"
  using assms
proof (induction rows arbitrary: ws)
  case Nil
  then show ?case using map_nth [of ws] by simp
next
  case (Cons row rows)
  then have "foldR (widen row) [0..<length names] ws = Inr (map (\<lambda>j. max (ws ! j) (valWidth (row ! j))) [0..<length names])"
    by (simp add: widen_row)
  moreover have "Max (insert (max a b) X) = Max (insert a (insert b X))" if "finite X" for a b :: nat and X
    using that by (cases "X = {}") (simp_all add: max.assoc max.commute max.left_commute)
  ultimately show ?case using Cons by (simp cong: map_cong)
qed

lemma column_widths_eq:
  assumes "\<forall>row\<in>set rows. length names \<le> length row"
  shows "column_widths names rows = Inr (map (col_width names rows) [0..<length names])"
  using widen_rows [OF assms, of "map length names"] by (simp add: column_widths_def col_width_def cong: map_cong)

lemma col_width_ge: "length (names ! j) + 2 \<le> col_width names rows j" "row \<in> set rows \<Longrightarrow> valWidth (row ! j) + 2 \<le> col_width names rows j"
  by (simp_all add: col_width_def)

section \<open>The printed table\<close>

lemma Format_writes:
  assumes "\<forall>row\<in>set rows. length names \<le> length row"
  shows "writes_text (Format names rows) (text_of (table_lines names rows))"
proof -
  let ?w = "col_width names rows" and ?ws = "map (col_width names rows) [0..<length names]"
  have h: "writes_text (write_header names ?ws) (join ''|'' (map (\<lambda>j. header_cell (?w j) (names ! j)) [0..<length names]) @ newline)"
    unfolding write_header_def by (rule writes_line) (use writes_column [OF col_width_ge(1), of names _ rows True] in \<open>simp add: header_cell_def\<close>)
  have s: "writes_text (write_rule (length names) ?ws) (join ''+'' (map (\<lambda>j. replicate (?w j) CHR ''-'') [0..<length names]) @ newline)"
    unfolding write_rule_def by (rule writes_line) simp
  have r: "writes_text (write_row (length names) ?ws row) (join ''|'' (map (\<lambda>j. row_cell (?w j) (row ! j)) [0..<length names]) @ newline)"
    if row: "row \<in> set rows" for row
  proof -
    have "writes_text (case row ! j of Some v \<Rightarrow> writeColumnValue v (?ws ! j) False | None \<Rightarrow> put (replicate (?ws ! j) CHR '' '')) (row_cell (?w j) (row ! j))"
      if "j < length names" for j
      using col_width_ge(2) [OF row, of j names] writes_column [of _ "?w j" False] that
      by (auto simp: row_cell_def valWidth_def split: option.splits)
    moreover have "value_at row j = Inr (row ! j)" if "j < length names" for j using assms row that by (auto simp: value_at_def)
    ultimately have "writes_text (thenM (for_each (\<lambda>attno. thenM (case row ! attno of Some v \<Rightarrow> writeColumnValue v (?ws ! attno) False | None \<Rightarrow> put (replicate (?ws ! attno) CHR '' ''))
       (separator ''|'' (length names) attno)) [0..<length names]) (put newline)) (join ''|'' (map (\<lambda>j. row_cell (?w j) (row ! j)) [0..<length names]) @ newline)"
      by (intro writes_line)
    moreover have "for_each f xs = for_each g xs" if "\<And>x. x \<in> set xs \<Longrightarrow> f x = g x" for f g :: "nat \<Rightarrow> (ostream, unit) cm" and xs
      using that by (induction xs) auto
    moreover have "bindM (liftR (value_at row j)) k = k (row ! j)" if "j < length names" for j and k :: "string option \<Rightarrow> (ostream, unit) cm"
      using assms row that by (auto simp: value_at_def bindM_def liftR_def fun_eq_iff)
    ultimately show ?thesis unfolding write_row_def by (smt (verit, best) atLeastLessThan_iff atLeastLessThan_upt)
  qed
  show ?thesis
    using writes_then [OF h writes_then [OF s writes_for_each [of rows, OF r]]]
    by (auto simp: Format_def column_widths_eq [OF assms] table_lines_def text_of_def Let_def comp_def intro: writes_lift)
qed

lemma length_join: "xs \<noteq> [] \<Longrightarrow> length (join [c] xs) + 1 = sum_list (map length xs) + length xs"
  by (induction "[c]" xs rule: join.induct) auto

lemma cell_lengths: "length name \<le> width \<Longrightarrow> length (header_cell width name) = width"
  "valWidth value + 2 \<le> width \<Longrightarrow> length (row_cell width value) = width"
  by (auto simp: header_cell_def row_cell_def valWidth_def split: option.splits)

lemma table_lines_aligned:
  assumes "names \<noteq> []" "l \<in> set (table_lines names rows)"
  shows "length l + 1 = sum_list (map (col_width names rows) [0..<length names]) + length names"
proof -
  let ?n = "[0..<length names]" and ?w = "col_width names rows"
  have j: "length (join [c] (map f ?n)) + 1 = sum_list (map ?w ?n) + length names" if "\<And>j. length (f j) = ?w j" for f c
    using length_join [of "map f ?n" c] assms(1) that by (simp add: comp_def)
  have h: "length (header_cell (?w j) (names ! j)) = ?w j" for j using col_width_ge(1) [of names j rows] by (simp add: cell_lengths)
  have r: "length (row_cell (?w j) (row ! j)) = ?w j" if "row \<in> set rows" for row j using col_width_ge(2) [OF that, of j names] by (simp add: cell_lengths)
  show ?thesis using assms(2) j [OF h] j [OF r] j [of "\<lambda>j. replicate (?w j) CHR ''-''"]
    by (auto simp: table_lines_def Let_def)
qed

end
