(* ===== verification/Mimi_Client.thy ===== *)
theory Mimi_Client
  imports Mimi_TableFormat
begin

text \<open>
  The command-line client (\<open>client/\<close>): the options, where commands come from, the loop that sends a
  command and reads its response, and \<open>main\<close>. The network set-up and the options parser of boost are
  arguments. The end of the process by \<open>exit\<close> or an exception that leaves \<open>main\<close> is \<open>AssertFail\<close>.
\<close>

section \<open>State and output\<close>

record client_state =
  cs_sock :: sock
  cs_out :: ostream
  cs_err :: ostream

definition on_conn :: "(sock, 'a) cm \<Rightarrow> (client_state, 'a) cm" where
  "on_conn m s = (case m (cs_sock s) of (r, c) \<Rightarrow> (r, s\<lparr>cs_sock := c\<rparr>))"

definition on_cout :: "(ostream, 'a) cm \<Rightarrow> (client_state, 'a) cm" where
  "on_cout m s = (case m (cs_out s) of (r, t) \<Rightarrow> (r, s\<lparr>cs_out := t\<rparr>))"

definition on_cerr :: "(ostream, 'a) cm \<Rightarrow> (client_state, 'a) cm" where
  "on_cerr m s = (case m (cs_err s) of (r, t) \<Rightarrow> (r, s\<lparr>cs_err := t\<rparr>))"

section \<open>CommandSource\<close>

text \<open>
  A file: the outcomes of the coming one-byte reads, a byte or nothing; past the last one a read
  returns nothing.
\<close>

type_synonym fd = "char option list"

datatype ICommandSource = FDCommandSource fd bool | SingleCommandCommandSource string bool

fun read_command :: "string \<Rightarrow> fd \<Rightarrow> string \<times> fd" where
  "read_command command [] = (command, [])"
| "read_command command (None # f) = (command, f)"
| "read_command command (Some c # f) =
     (if c = CHR 0x0A then if command = [] then read_command command f else (command, f) else read_command (command @ [c]) f)"

fun GetNextLine :: "ICommandSource \<Rightarrow> string option \<times> ICommandSource" where
  "GetNextLine (FDCommandSource f interactive) = (let (command, f') = read_command [] f in
     (if command = [] then None else Some command, FDCommandSource f' interactive))"
| "GetNextLine (SingleCommandCommandSource command executed) =
     (if \<not> executed then (Some command, SingleCommandCommandSource command True) else (None, SingleCommandCommandSource command executed))"

fun IsInteractive :: "ICommandSource \<Rightarrow> bool" where
  "IsInteractive (FDCommandSource f interactive) = interactive"
| "IsInteractive (SingleCommandCommandSource command executed) = False"

section \<open>handleResponse\<close>

definition show_rows_count :: "u64 \<Rightarrow> (ostream, unit) cm" where
  "show_rows_count n = (if 0 \<le> sint n then thenM (put (''('' @ int_to_string (sint n)))
     (if sint n = 1 then put ('' row)'' @ newline) else put ('' rows)'' @ newline)) else retM ())"

definition show_complete :: "string list option \<Rightarrow> string option list list \<Rightarrow> string \<Rightarrow> u64 \<Rightarrow> (ostream, unit) cm" where
  "show_complete tupleDesc rows tag n = (case tupleDesc of
     Some names \<Rightarrow> thenM (Format names rows) (show_rows_count n)
   | None \<Rightarrow> thenM (put tag) (thenM (if 0 \<le> sint n then put ('' '' @ int_to_string (sint n)) else retM ()) (put newline)))"

function response_loop :: "string list option \<Rightarrow> string option list list \<Rightarrow> (client_state, bool) cm" where
  "response_loop tupleDesc rows s = (case on_conn ReceivePacket s of
     (Inl e, s1) \<Rightarrow> (Inl e, s1)
   | (Inr None, s1) \<Rightarrow> (Inr False, s1)
   | (Inr (Some response), s1) \<Rightarrow> (case response of
       TupleDescriptionPacket names \<Rightarrow> response_loop (Some names) rows s1
     | DataRowPacket row_values \<Rightarrow> (if tupleDesc = None then (Inl (RuntimeError ''DataRow received before TupleDescription''), s1)
         else response_loop tupleDesc (rows @ [row_values]) s1)
     | CommandCompletePacket tag n \<Rightarrow> thenM (on_cout (show_complete tupleDesc rows tag n)) (retM True) s1
     | ErrorResponsePacket message \<Rightarrow> thenM (on_cerr (put (''ERROR: '' @ message @ newline))) (retM True) s1
     | QueryPacket query \<Rightarrow> thenM (on_cerr (put (''Must not receive QUERY packet at client'' @ newline))) (raiseM (AssertFail ''exit(1)'')) s1))"
  by pat_completeness auto

lemma on_conn_shorter: "on_conn ReceivePacket s = (Inr (Some p), s1) \<Longrightarrow> length (stream (cs_sock s1)) < length (stream (cs_sock s))"
  using ReceivePacket_shorter by (fastforce simp: on_conn_def split: prod.splits)

termination response_loop
  by (relation "measure (\<lambda>(tupleDesc, rows, s). length (stream (cs_sock s)))")
    (simp, (simp only: in_measure split_conv, blast intro: on_conn_shorter sym)+)

declare response_loop.simps [simp del]

definition handleResponse :: "(client_state, bool) cm" where
  "handleResponse = response_loop None []"

section \<open>The commands\<close>

text \<open>
  One command: sent, and its response shown; the result says whether the loop goes on. An exception of
  the send leaves \<open>main\<close>, one of the response ends the loop.
\<close>

definition run_command :: "string \<Rightarrow> (client_state, bool) cm" where
  "run_command cmd s = (case on_conn (SendPacket (QueryPacket cmd)) s of
     (Inl e, s1) \<Rightarrow> (Inl (if unwinds e then AssertFail ''std::terminate'' else e), s1)
   | (Inr _, s1) \<Rightarrow> (case handleResponse s1 of
       (Inr True, s2) \<Rightarrow> (Inr True, s2)
     | (Inr False, s2) \<Rightarrow> thenM (on_cout (put (''CONNECTION LOST'' @ newline))) (retM False) s2
     | (Inl e, s2) \<Rightarrow> if unwinds e then thenM (on_cout (put (''ERROR: '' @ exn_what e @ newline))) (retM False) s2 else (Inl e, s2)))"

definition source_size :: "ICommandSource \<Rightarrow> nat" where
  "source_size cmdsrc = (case cmdsrc of FDCommandSource f i \<Rightarrow> length f | SingleCommandCommandSource c executed \<Rightarrow> if executed then 0 else 1)"

lemma read_command_shorter: "length (snd (read_command command f)) \<le> length f \<and> (f \<noteq> [] \<longrightarrow> length (snd (read_command command f)) < length f)"
  by (induction command f rule: read_command.induct) (auto simp: less_Suc_eq_le)

lemma GetNextLine_shorter: "GetNextLine src = (Some line, src') \<Longrightarrow> line \<noteq> [] \<Longrightarrow> source_size src' < source_size src"
proof (induction src rule: GetNextLine.induct)
  case (1 f i)
  then have "f \<noteq> []" by auto
  then show ?case using 1 read_command_shorter [of "[]" f] by (auto simp: source_size_def split: prod.splits if_splits)
qed (auto simp: source_size_def split: if_splits)

function command_loop :: "ICommandSource \<Rightarrow> (client_state, unit) cm" where
  "command_loop cmdsrc s =
     (let s1 = (if IsInteractive cmdsrc then s\<lparr>cs_out := cs_out s @ ''=> ''\<rparr> else s) in
      case GetNextLine cmdsrc of
        (None, _) \<Rightarrow> (Inr (), s1)
      | (Some cmd, cmdsrc') \<Rightarrow>
          if cmd = [] then (Inr (), s1)
          else if IsInteractive cmdsrc \<and> cmd = [CHR 0x5C, CHR ''q''] then (Inr (), s1)
          else case run_command cmd s1 of
            (Inl e, s2) \<Rightarrow> (Inl e, s2)
          | (Inr go_on, s2) \<Rightarrow> if go_on then command_loop cmdsrc' s2 else (Inr (), s2))"
  by pat_completeness auto
termination
  by (relation "measure (\<lambda>(cmdsrc, s). source_size cmdsrc)") (simp, simp only: in_measure split_conv, blast intro: GetNextLine_shorter sym)

declare command_loop.simps [simp del]

section \<open>FileCommandDest\<close>

text \<open>
  The destination of a file, with the answers of the coming \<open>write\<close> calls; without an answer a call takes all
  that is left. The result is with what the file then has.
\<close>

datatype write_outcome = Wrote nat | WriteFailed string

fun FileCommandDest_Write :: "write_outcome list \<Rightarrow> string \<Rightarrow> string \<Rightarrow> unit res \<times> string" where
  "FileCommandDest_Write [] left file = (Inr (), file @ left)"
| "FileCommandDest_Write (ret # rets) left file = (if left = [] then (Inr (), file)
     else case ret of
       WriteFailed err \<Rightarrow> (Inl (RuntimeError (''could not write to file: '' @ err)), file)
     | Wrote n \<Rightarrow> FileCommandDest_Write rets (drop n left) (file @ take n left))"

text \<open>The value is written whole and once, or a part of it from the front before the exception.\<close>

lemma FileCommandDest_Write_all: "FileCommandDest_Write rets rest out = (Inr u, out') \<Longrightarrow> out' = out @ rest"
  by (induction rets rest out rule: FileCommandDest_Write.induct) (auto split: if_splits write_outcome.splits)

lemma FileCommandDest_Write_part: "\<exists>n. snd (FileCommandDest_Write rets rest out) = out @ take n rest"
proof (induction rets rest out rule: FileCommandDest_Write.induct)
  case (1 rest out)
  then show ?case by (auto intro: exI [of _ "length rest"])
next
  case (2 ret rets rest out)
  show ?case
  proof (cases "rest = []")
    case False
    then show ?thesis using 2 by (cases ret) (auto simp flip: take_add intro: exI [of _ 0])
  qed simp
qed

section \<open>Options and main\<close>

record variables_map =
  vm_version :: bool
  vm_command :: "string option"
  vm_file :: "string option"
  vm_port :: "int option"
  vm_host :: "string option"
  vm_output :: "string option"

record ClientOptions =
  ScriptFile :: "string option"
  SingleCommand :: "string option"
  OutputFile :: "string option"
  Port :: "int option"
  Host :: "string option"
  Version :: bool

definition ParseOptions :: "variables_map \<Rightarrow> ClientOptions res" where
  "ParseOptions vm =
     (let options = \<lparr>ScriptFile = None, SingleCommand = None, OutputFile = None, Port = None, Host = None, Version = False\<rparr> in
      if vm_version vm then Inr (options\<lparr>Version := True\<rparr>)
      else let options = options\<lparr>SingleCommand := vm_command vm, ScriptFile := vm_file vm, Port := vm_port vm, Host := vm_host vm, OutputFile := vm_output vm\<rparr> in
        if ScriptFile options \<noteq> None \<and> SingleCommand options \<noteq> None then Inl (RuntimeError ''can not specify both file and command'')
        else Inr options)"

text \<open>The environment: what boost, the resolver and the kernel answer. An error is its message.\<close>

record client_env =
  parse_command_line :: "variables_map res"
  socket_result :: "string + sock"
  getaddrinfo :: "string \<Rightarrow> string \<Rightarrow> string option"
  connect_result :: "string option"
  open_file :: "string \<Rightarrow> string + fd"
  stdin_fd :: fd

definition tryConnectClient :: "client_env \<Rightarrow> ClientOptions \<Rightarrow> (client_state, bool) cm" where
  "tryConnectClient env options =
     (let host = (case Host options of Some h \<Rightarrow> h | None \<Rightarrow> ''localhost''); port = int_to_string (case Port options of Some p \<Rightarrow> p | None \<Rightarrow> 6543) in
      case getaddrinfo env host port of
        Some err \<Rightarrow> thenM (on_cout (put (''could not get address info: '' @ err @ newline))) (retM False)
      | None \<Rightarrow> (case connect_result env of
          Some err \<Rightarrow> thenM (on_cout (put (''could not connect to database: '' @ err @ newline))) (retM False)
        | None \<Rightarrow> retM True))"

definition tryCreateCommandSource :: "client_env \<Rightarrow> ClientOptions \<Rightarrow> (client_state, ICommandSource option) cm" where
  "tryCreateCommandSource env options = (case SingleCommand options of
     Some command \<Rightarrow> retM (Some (SingleCommandCommandSource command False))
   | None \<Rightarrow> (case ScriptFile options of
       None \<Rightarrow> retM (Some (FDCommandSource (stdin_fd env) True))
     | Some name \<Rightarrow> (case open_file env name of
         Inl err \<Rightarrow> thenM (on_cout (put (''could not open file: '' @ err @ newline))) (retM None)
       | Inr f \<Rightarrow> retM (Some (FDCommandSource f False)))))"

definition client_main :: "client_env \<Rightarrow> (client_state, int) cm" where
  "client_main env = (case bindR (parse_command_line env) ParseOptions of
     Inl e \<Rightarrow> if unwinds e then thenM (on_cout (put (''could not parse options: '' @ exn_what e @ newline))) (retM 1) else raiseM e
   | Inr options \<Rightarrow> (case socket_result env of
       Inl err \<Rightarrow> thenM (on_cerr (put (''could not socket: '' @ err @ newline))) (retM 1)
     | Inr sock \<Rightarrow> thenM (updM (\<lambda>s. s\<lparr>cs_sock := sock\<rparr>)) (bindM (tryConnectClient env options) (\<lambda>connected.
         if \<not> connected then retM 1
         else finallyM (bindM (tryCreateCommandSource env options) (\<lambda>cmdsrc. case cmdsrc of
             None \<Rightarrow> retM 1
           | Some src \<Rightarrow> thenM (command_loop src) (thenM (on_conn client_Close) (retM 0))))
           (on_conn client_Close)))))"

end
