(* ===== verification/Mimi_ClientScript.thy ===== *)
theory Mimi_ClientScript
  imports Mimi_Client
begin

text \<open>
  What the client shows: the reference of a command file, the replies of a server, and that a client that
  runs a file shows one reply for each command, in order.
\<close>

section \<open>The commands of a file\<close>

definition split_lines :: "string \<Rightarrow> string list" where
  "split_lines content = foldr (\<lambda>c ls. if c = CHR 0x0A then [] # ls else (c # hd ls) # tl ls) content [[]]"

definition file_commands :: "string \<Rightarrow> string list" where
  "file_commands content = filter (\<lambda>l. l \<noteq> []) (split_lines content)"

lemma split_lines_simps: "split_lines [] = [[]]" "split_lines (c # content) = (if c = CHR 0x0A then [] # split_lines content
    else (c # hd (split_lines content)) # tl (split_lines content))"
  by (simp_all add: split_lines_def)

lemma read_command_started:
  "acc \<noteq> [] \<Longrightarrow> \<exists>rest. read_command acc (map Some content) = (acc @ hd (split_lines content), map Some rest) \<and>
    file_commands rest = filter (\<lambda>l. l \<noteq> []) (tl (split_lines content))"
proof (induction content arbitrary: acc)
  case Nil
  then show ?case by (auto simp: split_lines_simps file_commands_def)
next
  case (Cons c content)
  show ?case
  proof (cases "c = CHR 0x0A")
    case True
    then show ?thesis using Cons.prems by (auto simp: split_lines_simps file_commands_def)
  next
    case False
    obtain rest where "read_command (acc @ [c]) (map Some content) = (acc @ [c] @ hd (split_lines content), map Some rest)"
      "file_commands rest = filter (\<lambda>l. l \<noteq> []) (tl (split_lines content))" using Cons.IH [of "acc @ [c]"] by auto
    then show ?thesis using False by (intro exI [of _ rest]) (simp add: split_lines_simps)
  qed
qed

lemma read_command_file:
  "case file_commands content of [] \<Rightarrow> \<exists>rest. read_command [] (map Some content) = ([], rest)
   | cmd # cmds \<Rightarrow> \<exists>rest. read_command [] (map Some content) = (cmd, map Some rest) \<and> file_commands rest = cmds"
proof (induction content)
  case Nil
  then show ?case by (simp add: file_commands_def split_lines_simps)
next
  case (Cons c content)
  show ?case
  proof (cases "c = CHR 0x0A")
    case True
    then have "file_commands (c # content) = file_commands content" by (simp add: file_commands_def split_lines_simps)
    then show ?thesis using Cons.IH True by (simp split: list.splits)
  next
    case False
    then show ?thesis using read_command_started [of "[c]" content] by (auto simp: file_commands_def split_lines_simps)
  qed
qed

text \<open>The commands that a source yields, in order.\<close>

definition source_commands :: "ICommandSource \<Rightarrow> string list \<Rightarrow> bool" where
  "source_commands src cmds \<longleftrightarrow> (case src of
     FDCommandSource f interactive \<Rightarrow> \<exists>content. f = map Some content \<and> cmds = file_commands content
   | SingleCommandCommandSource command executed \<Rightarrow> cmds = (if executed \<or> command = [] then [] else [command]))"

lemma source_Nil: "source_commands src [] \<Longrightarrow> (\<exists>src'. GetNextLine src = (None, src')) \<or> (\<exists>src'. GetNextLine src = (Some [], src'))"
proof (cases src)
  case (FDCommandSource f i)
  assume "source_commands src []"
  then obtain content where "f = map Some content" "file_commands content = []" using FDCommandSource by (auto simp: source_commands_def)
  then show ?thesis using FDCommandSource read_command_file [of content] by auto
qed (auto simp: source_commands_def split: if_splits)

lemma source_Cons: "source_commands src (cmd # cmds) \<Longrightarrow> \<exists>src'. GetNextLine src = (Some cmd, src') \<and> cmd \<noteq> [] \<and>
    source_commands src' cmds \<and> IsInteractive src' = IsInteractive src"
proof (cases src)
  case (FDCommandSource f i)
  assume "source_commands src (cmd # cmds)"
  then obtain content where t: "f = map Some content" "file_commands content = cmd # cmds" using FDCommandSource by (auto simp: source_commands_def)
  then obtain rest where "read_command [] f = (cmd, map Some rest)" "file_commands rest = cmds" using read_command_file [of content] by auto
  moreover have "cmd \<noteq> []" using t(2) by (auto simp: file_commands_def filter_eq_Cons_iff)
  ultimately show ?thesis using FDCommandSource by (auto simp: source_commands_def)
qed (auto simp: source_commands_def split: if_splits)

section \<open>Replies\<close>

text \<open>The replies of a server: a table, the completion of a command, an error, perhaps after rows.\<close>

datatype reply =
    TableReply "string list" "string option list list" string u64
  | CommandReply string u64
  | ErrorReply "(string list \<times> string option list list) option" string

definition table_packets :: "string list \<Rightarrow> string option list list \<Rightarrow> packet list" where
  "table_packets names rows = TupleDescriptionPacket names # map DataRowPacket rows"

fun reply_packets :: "reply \<Rightarrow> packet list" where
  "reply_packets (TableReply names rows tag n) = table_packets names rows @ [CommandCompletePacket tag n]"
| "reply_packets (CommandReply tag n) = [CommandCompletePacket tag n]"
| "reply_packets (ErrorReply partial message) =
     (case partial of None \<Rightarrow> [] | Some (names, rows) \<Rightarrow> table_packets names rows) @ [ErrorResponsePacket message]"

definition count_text :: "u64 \<Rightarrow> string" where
  "count_text n = (if sint n < 0 then [] else ''('' @ int_to_string (sint n) @ (if sint n = 1 then '' row)'' else '' rows)'') @ newline)"

fun reply_out :: "reply \<Rightarrow> string" where
  "reply_out (TableReply names rows tag n) = text_of (table_lines names rows) @ count_text n"
| "reply_out (CommandReply tag n) = tag @ (if sint n < 0 then [] else '' '' @ int_to_string (sint n)) @ newline"
| "reply_out (ErrorReply partial message) = []"

fun reply_err :: "reply \<Rightarrow> string" where
  "reply_err (ErrorReply partial message) = ''ERROR: '' @ message @ newline"
| "reply_err _ = []"

text \<open>The packets fit their length fields, and the rows of a table that is printed have its columns.\<close>

definition reply_ok :: "reply \<Rightarrow> bool" where
  "reply_ok r \<longleftrightarrow> list_all packet_fits (reply_packets r) \<and>
     (case r of TableReply names rows tag n \<Rightarrow> \<forall>row\<in>set rows. length names \<le> length row | _ \<Rightarrow> True)"

definition images :: "packet list \<Rightarrow> byte list" where
  "images ps = concat (map packet_image ps)"

lemma images_simps [simp]: "images [] = []" "images (p # ps) = packet_image p @ images ps" "images (ps @ qs) = images ps @ images qs"
  by (simp_all add: images_def)

section \<open>A reply is shown\<close>

text \<open>The part of the client that a response does not touch: what was sent and how sending will go on.\<close>

definition same_output :: "client_state \<Rightarrow> client_state \<Rightarrow> bool" where
  "same_output s s' \<longleftrightarrow> send_plan (cs_sock s') = send_plan (cs_sock s) \<and> out_bytes (cs_sock s') = out_bytes (cs_sock s)"

lemma on_conn_receive:
  assumes "stream (cs_sock s) = packet_image p @ rest" "packet_fits p"
  obtains s1 where "on_conn ReceivePacket s = (Inr (Some p), s1)" "stream (cs_sock s1) = rest" "same_output s s1" "cs_out s1 = cs_out s" "cs_err s1 = cs_err s"
proof -
  obtain c where c: "ReceivePacket (cs_sock s) = (Inr (Some p), c)" "stream c = rest" using ReceivePacket_image [OF assms(2,1)] by blast
  then show thesis using that [of "s\<lparr>cs_sock := c\<rparr>"] ReceivePacket_output [OF c(1)] by (simp add: on_conn_def same_output_def)
qed

text \<open>The end of a response: the loop has read the reply \<open>r\<close> in state \<open>s\<close> up to its last packet.\<close>

definition shows_reply :: "(client_state, bool) cm \<Rightarrow> client_state \<Rightarrow> string \<Rightarrow> string \<Rightarrow> byte list \<Rightarrow> bool" where
  "shows_reply m s out err rest \<longleftrightarrow> (\<exists>s'. m s = (Inr True, s') \<and> stream (cs_sock s') = rest \<and> same_output s s' \<and>
     cs_out s' = cs_out s @ out \<and> cs_err s' = cs_err s @ err)"

lemma show_count_writes: "writes_text (show_rows_count n) (count_text n)"
proof -
  have "writes_text (thenM (put (''('' @ int_to_string (sint n))) (if sint n = 1 then put ('' row)'' @ newline) else put ('' rows)'' @ newline)))
      ((''('' @ int_to_string (sint n)) @ (if sint n = 1 then '' row)'' else '' rows)'') @ newline)"
    by (intro writes_then) auto
  then show ?thesis by (auto simp: show_rows_count_def count_text_def not_less)
qed

lemma show_complete_writes:
  "\<forall>row\<in>set rows. length names \<le> length row \<Longrightarrow> writes_text (show_complete (Some names) rows tag n) (text_of (table_lines names rows) @ count_text n)"
  "writes_text (show_complete None rows tag n) (tag @ (if sint n < 0 then [] else '' '' @ int_to_string (sint n)) @ newline)"
proof -
  have "writes_text (if 0 \<le> sint n then put ('' '' @ int_to_string (sint n)) else retM ()) (if sint n < 0 then [] else '' '' @ int_to_string (sint n))"
    by auto
  from writes_then [OF writes_put writes_then [OF this writes_put]]
  show "writes_text (show_complete None rows tag n) (tag @ (if sint n < 0 then [] else '' '' @ int_to_string (sint n)) @ newline)"
    by (simp only: show_complete_def option.case)
qed (auto simp: show_complete_def intro!: writes_then Format_writes show_count_writes)

lemma loop_complete:
  assumes "stream (cs_sock s) = packet_image (CommandCompletePacket tag n) @ rest" "packet_fits (CommandCompletePacket tag n)"
    and "writes_text (show_complete desc rows tag n) out"
  shows "shows_reply (response_loop desc rows) s out [] rest"
proof -
  obtain s1 where s1: "on_conn ReceivePacket s = (Inr (Some (CommandCompletePacket tag n)), s1)" "stream (cs_sock s1) = rest" "same_output s s1" "cs_out s1 = cs_out s" "cs_err s1 = cs_err s"
    using on_conn_receive [OF assms(1,2)] by blast
  then show ?thesis using assms(3)
    by (simp add: shows_reply_def response_loop.simps [of desc rows s] writes_text_def on_cout_def thenM_def bindM_def retM_def same_output_def)
qed

lemma loop_error:
  assumes "stream (cs_sock s) = packet_image (ErrorResponsePacket message) @ rest" "packet_fits (ErrorResponsePacket message)"
  shows "shows_reply (response_loop desc rows) s [] (''ERROR: '' @ message @ newline) rest"
proof -
  obtain s1 where s1: "on_conn ReceivePacket s = (Inr (Some (ErrorResponsePacket message)), s1)" "stream (cs_sock s1) = rest" "same_output s s1" "cs_out s1 = cs_out s" "cs_err s1 = cs_err s"
    using on_conn_receive [OF assms] by blast
  then show ?thesis
    by (simp add: shows_reply_def response_loop.simps [of desc rows s] put_def updM_def on_cerr_def thenM_def bindM_def retM_def same_output_def)
qed

lemma shows_reply_step:
  assumes "shows_reply k s1 out err rest" "m s = k s1" "same_output s s1" "cs_out s1 = cs_out s" "cs_err s1 = cs_err s"
  shows "shows_reply m s out err rest"
  using assms by (auto simp: shows_reply_def same_output_def)

lemma loop_rows:
  assumes "stream (cs_sock s) = images (map DataRowPacket vs) @ rest'" "list_all packet_fits (map DataRowPacket vs)"
    and "\<And>s1. stream (cs_sock s1) = rest' \<Longrightarrow> shows_reply (response_loop (Some names) (rows @ vs)) s1 out err rest"
  shows "shows_reply (response_loop (Some names) rows) s out err rest"
  using assms
proof (induction vs arbitrary: rows s)
  case Nil
  then show ?case by simp
next
  case (Cons v vs)
  obtain s1 where s1: "on_conn ReceivePacket s = (Inr (Some (DataRowPacket v)), s1)" "stream (cs_sock s1) = images (map DataRowPacket vs) @ rest'"
    "same_output s s1" "cs_out s1 = cs_out s" "cs_err s1 = cs_err s"
    using on_conn_receive [of s "DataRowPacket v" "images (map DataRowPacket vs) @ rest'"] Cons.prems(1,2) by auto
  have "shows_reply (response_loop (Some names) (rows @ [v])) s1 out err rest" using Cons.IH [OF s1(2)] Cons.prems(2,3) by simp
  then show ?case by (rule shows_reply_step) (use s1 in \<open>simp_all add: response_loop.simps [of _ rows s]\<close>)
qed

lemma loop_table:
  assumes "stream (cs_sock s) = images (table_packets names rows) @ rest'" "list_all packet_fits (table_packets names rows)"
    and "\<And>s1. stream (cs_sock s1) = rest' \<Longrightarrow> shows_reply (response_loop (Some names) rows) s1 out err rest"
  shows "shows_reply (response_loop None []) s out err rest"
proof -
  obtain s1 where s1: "on_conn ReceivePacket s = (Inr (Some (TupleDescriptionPacket names)), s1)" "stream (cs_sock s1) = images (map DataRowPacket rows) @ rest'"
    "same_output s s1" "cs_out s1 = cs_out s" "cs_err s1 = cs_err s"
    using on_conn_receive [of s "TupleDescriptionPacket names" "images (map DataRowPacket rows) @ rest'"] assms(1,2) by (auto simp: table_packets_def)
  have "shows_reply (response_loop (Some names) []) s1 out err rest"
    by (rule loop_rows [OF s1(2)]) (use assms(2,3) in \<open>simp_all add: table_packets_def\<close>)
  then show ?thesis by (rule shows_reply_step) (use s1 in \<open>simp_all add: response_loop.simps [of None]\<close>)
qed

lemma reply_shown:
  assumes "stream (cs_sock s) = images (reply_packets r) @ rest" "reply_ok r"
  shows "shows_reply handleResponse s (reply_out r) (reply_err r) rest"
proof (cases r)
  case (TableReply names rows tag n)
  show ?thesis unfolding handleResponse_def
    by (rule loop_table [of s names rows "packet_image (CommandCompletePacket tag n) @ rest"])
      (use assms TableReply in \<open>auto simp: reply_ok_def intro!: loop_complete show_complete_writes(1)\<close>)
next
  case (CommandReply tag n)
  then show ?thesis unfolding handleResponse_def using assms loop_complete [OF _ _ show_complete_writes(2), of s tag n rest "[]"] by (simp add: reply_ok_def)
next
  case (ErrorReply partial message)
  show ?thesis
  proof (cases partial)
    case None
    then show ?thesis unfolding handleResponse_def using assms ErrorReply loop_error [of s message rest] by (simp add: reply_ok_def)
  next
    case (Some t)
    show ?thesis unfolding handleResponse_def
      by (rule loop_table [of s "fst t" "snd t" "packet_image (ErrorResponsePacket message) @ rest"])
        (use assms ErrorReply Some loop_error [of _ message rest "Some (fst t)" "snd t"] in \<open>auto simp: reply_ok_def split: prod.splits\<close>)
  qed
qed


section \<open>A script\<close>

lemma run_command_shown:
  assumes "stream (cs_sock s) = images (reply_packets r) @ rest" "reply_ok r" "packet_fits (QueryPacket cmd)" "SendFail \<notin> set (send_plan (cs_sock s))"
  shows "\<exists>s'. run_command cmd s = (Inr True, s') \<and> stream (cs_sock s') = rest \<and> SendFail \<notin> set (send_plan (cs_sock s')) \<and>
    out_bytes (cs_sock s') = out_bytes (cs_sock s) @ packet_image (QueryPacket cmd) \<and>
    cs_out s' = cs_out s @ reply_out r \<and> cs_err s' = cs_err s @ reply_err r"
proof -
  obtain c where c: "SendPacket (QueryPacket cmd) (cs_sock s) = (Inr (), c)" "out_bytes c = out_bytes (cs_sock s) @ packet_image (QueryPacket cmd)"
    "stream c = stream (cs_sock s)" "SendFail \<notin> set (send_plan c)"
    using SendPacket_effect [OF assms(3,4)] by blast
  obtain s' where "handleResponse (s\<lparr>cs_sock := c\<rparr>) = (Inr True, s')" "stream (cs_sock s') = rest" "same_output (s\<lparr>cs_sock := c\<rparr>) s'"
    "cs_out s' = cs_out s @ reply_out r" "cs_err s' = cs_err s @ reply_err r"
    using reply_shown [of "s\<lparr>cs_sock := c\<rparr>" r rest] assms(1,2) c(3) by (auto simp: shows_reply_def)
  then show ?thesis using c by (intro exI [of _ s']) (simp add: run_command_def on_conn_def same_output_def)
qed

lemma command_loop_shown:
  "source_commands src cmds \<Longrightarrow> \<not> IsInteractive src \<Longrightarrow> list_all reply_ok replies \<Longrightarrow> length replies = length cmds \<Longrightarrow>
    \<forall>cmd\<in>set cmds. packet_fits (QueryPacket cmd) \<Longrightarrow>
    stream (cs_sock s) = concat (map (\<lambda>r. images (reply_packets r)) replies) @ rest \<Longrightarrow> SendFail \<notin> set (send_plan (cs_sock s)) \<Longrightarrow>
    \<exists>s'. command_loop src s = (Inr (), s') \<and> stream (cs_sock s') = rest \<and>
      out_bytes (cs_sock s') = out_bytes (cs_sock s) @ images (map QueryPacket cmds) \<and>
      cs_out s' = cs_out s @ concat (map reply_out replies) \<and> cs_err s' = cs_err s @ concat (map reply_err replies)"
proof (induction cmds arbitrary: src replies s)
  case Nil
  from source_Nil [OF Nil.prems(1)] show ?case
  proof (elim disjE exE)
    fix src' assume "GetNextLine src = (None, src')"
    then show ?thesis using Nil.prems by (simp add: command_loop.simps [of src s])
  next
    fix src' assume "GetNextLine src = (Some [], src')"
    then show ?thesis using Nil.prems by (simp add: command_loop.simps [of src s])
  qed
next
  case (Cons cmd cmds)
  obtain src' where src': "GetNextLine src = (Some cmd, src')" "cmd \<noteq> []" "source_commands src' cmds" "IsInteractive src' = IsInteractive src"
    using source_Cons [OF Cons.prems(1)] by blast
  obtain r replies' where r: "replies = r # replies'" using Cons.prems(4) by (cases replies) auto
  obtain s1 where s1: "run_command cmd s = (Inr True, s1)" "stream (cs_sock s1) = concat (map (\<lambda>r. images (reply_packets r)) replies') @ rest"
    "SendFail \<notin> set (send_plan (cs_sock s1))" "out_bytes (cs_sock s1) = out_bytes (cs_sock s) @ packet_image (QueryPacket cmd)"
    "cs_out s1 = cs_out s @ reply_out r" "cs_err s1 = cs_err s @ reply_err r"
    using run_command_shown [of s r "concat (map (\<lambda>r. images (reply_packets r)) replies') @ rest" cmd] Cons.prems r by auto
  obtain s2 where "command_loop src' s1 = (Inr (), s2)" "stream (cs_sock s2) = rest"
    "out_bytes (cs_sock s2) = out_bytes (cs_sock s1) @ images (map QueryPacket cmds)"
    "cs_out s2 = cs_out s1 @ concat (map reply_out replies')" "cs_err s2 = cs_err s1 @ concat (map reply_err replies')"
    using Cons.IH [OF src'(3), of replies' s1] Cons.prems src'(4) s1(2,3) r by auto
  then show ?case using src' s1 r Cons.prems(2)
    by (intro exI [of _ s2]) (simp add: command_loop.simps [of src s])
qed

text \<open>
  C4. A script: the client sends the non-empty lines of a command file, or its single command, in order,
  and shows for the k-th command the k-th reply of the server and nothing else, in whatever portions the
  bytes travel: tables and completions on the output, errors on the error output, where an error does not
  stop the script. What follows the last reply stays unread. The loop ends.
\<close>

theorem client_runs_script:
  assumes "source_commands src cmds" "\<not> IsInteractive src" "\<forall>cmd\<in>set cmds. packet_fits (QueryPacket cmd)"
    and "list_all reply_ok replies" "length replies = length cmds"
    and "stream (cs_sock s) = concat (map (\<lambda>r. images (reply_packets r)) replies) @ rest" "SendFail \<notin> set (send_plan (cs_sock s))"
  shows "\<exists>s'. command_loop src s = (Inr (), s') \<and> stream (cs_sock s') = rest \<and>
    out_bytes (cs_sock s') = out_bytes (cs_sock s) @ images (map QueryPacket cmds) \<and>
    cs_out s' = cs_out s @ concat (map reply_out replies) \<and> cs_err s' = cs_err s @ concat (map reply_err replies)"
  using command_loop_shown [OF assms(1,2,4,5,3,6,7)] .

definition example_reply :: "reply list" where
  "example_reply = [TableReply [''a'', ''b''] [[Some ''17'', None], [Some ''4'', Some ''256'']] ''SELECT'' 2, ErrorReply None ''no'', CommandReply ''BEGIN'' (- 1)]"

definition example_client :: "byte list list \<Rightarrow> client_state" where
  "example_client segs = \<lparr>cs_sock = \<lparr>in_segs = segs, in_end = PeerClosed, send_plan = [Accept 3, Accept 0], out_bytes = [], sock_open = True\<rparr>, cs_out = [], cs_err = []\<rparr>"

lemma example_reply_ok: "list_all reply_ok example_reply"
  by (simp add: example_reply_def reply_ok_def packet_fits_def table_packets_def getStringSize_def)

theorem client_runs_script_witness:
  "\<exists>s'. command_loop (FDCommandSource (map Some (''s'' @ newline @ newline @ ''e'' @ newline @ ''b'')) False)
      (example_client [images (concat (map reply_packets example_reply))]) = (Inr (), s') \<and>
    out_bytes (cs_sock s') = images [QueryPacket ''s'', QueryPacket ''e'', QueryPacket ''b''] \<and>
    cs_out s' = '' a  |  b  '' @ newline @ ''----+-----'' @ newline @ '' 17 |     '' @ newline @ '' 4  | 256 '' @ newline @ ''(2 rows)'' @ newline @ ''BEGIN'' @ newline \<and>
    cs_err s' = ''ERROR: no'' @ newline"
proof -
  let ?src = "FDCommandSource (map Some (''s'' @ newline @ newline @ ''e'' @ newline @ ''b'')) False"
  have c: "source_commands ?src [''s'', ''e'', ''b'']"
    unfolding source_commands_def ICommandSource.case
    by (rule exI [of _ "''s'' @ newline @ newline @ ''e'' @ newline @ ''b''"]) (simp add: file_commands_def split_lines_simps newline_def)
  have n: "nat_to_string 2 = ''2''" by (subst nat_to_string.simps) (simp add: char_of_def bit_simps)
  have f: "packet_fits (QueryPacket [x])" for x by (simp add: packet_fits_def getStringSize_def)
  have two: "count_text 2 = ''(2 rows)'' @ newline" by (simp add: count_text_def int_to_string_def n)
  have tab: "table_lines [''a'', ''b''] [[Some ''17'', None], [Some ''4'', Some ''256'']] = ['' a  |  b  '', ''----+-----'', '' 17 |     '', '' 4  | 256 '']" by code_simp
  have out: "concat (map reply_out example_reply) = '' a  |  b  '' @ newline @ ''----+-----'' @ newline @ '' 17 |     '' @ newline @ '' 4  | 256 '' @ newline @ ''(2 rows)'' @ newline @ ''BEGIN'' @ newline"
    by (simp add: example_reply_def text_of_def tab two)
  have err: "concat (map reply_err example_reply) = ''ERROR: no'' @ newline" by (simp add: example_reply_def)
  have st: "stream (cs_sock (example_client [images (concat (map reply_packets example_reply))])) = concat (map (\<lambda>r. images (reply_packets r)) example_reply) @ []"
    by (simp add: example_client_def stream_def example_reply_def)
  let ?s = "example_client [images (concat (map reply_packets example_reply))]"
  have p: "\<not> IsInteractive ?src" "\<forall>cmd\<in>set [''s'', ''e'', ''b'']. packet_fits (QueryPacket cmd)" "length example_reply = length [''s'', ''e'', ''b'']"
    "SendFail \<notin> set (send_plan (cs_sock ?s))" using f by (simp_all add: example_reply_def example_client_def)
  obtain s' where s': "command_loop ?src ?s = (Inr (), s')" "out_bytes (cs_sock s') = out_bytes (cs_sock ?s) @ images (map QueryPacket [''s'', ''e'', ''b''])"
    "cs_out s' = cs_out ?s @ concat (map reply_out example_reply)" "cs_err s' = cs_err ?s @ concat (map reply_err example_reply)"
    using client_runs_script [OF c p(1,2) example_reply_ok p(3) st p(4)] by blast
  have e: "out_bytes (cs_sock ?s) = []" "cs_out ?s = []" "cs_err ?s = []" by (simp_all add: example_client_def)
  show ?thesis by (rule exI [of _ s']) (use s' in \<open>simp only: out err e append_Nil list.map simp_thms\<close>)
qed

end
