(* ===== verification/Mimi_ClientServer.thy ===== *)
theory Mimi_ClientServer
  imports Mimi_SelectStatement Mimi_ClientScript
begin

text \<open>
  Server and client together: the packets of a session's answer are replies that the client shows, and a
  second answer stays unread and is shown for the next command.
\<close>

section \<open>Answers are replies\<close>

lemma rows_packets: "list_all is_row ps \<Longrightarrow> \<exists>rows. ps = map DataRowPacket rows"
proof (induction ps)
  case (Cons p ps)
  then obtain v rows where "p = DataRowPacket v" "ps = map DataRowPacket rows" by (auto simp: is_row_def)
  then show ?case by (intro exI [of _ "v # rows"]) simp
qed simp

lemma table_is_packets: "is_table ps \<Longrightarrow> ps = [] \<or> (\<exists>names rows. ps = table_packets names rows)"
  unfolding is_table_def table_packets_def using rows_packets by blast

lemma completed_is_reply: "is_table tbl \<Longrightarrow> is_complete c \<Longrightarrow> \<exists>r. reply_packets r = tbl @ [c]"
proof -
  assume a: "is_table tbl" "is_complete c"
  then obtain tag n where c: "c = CommandCompletePacket tag n" by (auto simp: is_complete_def)
  from table_is_packets [OF a(1)] show ?thesis
  proof (elim disjE exE)
    assume "tbl = []"
    then show ?thesis using c by (intro exI [of _ "CommandReply tag n"]) simp
  next
    fix names rows assume "tbl = table_packets names rows"
    then show ?thesis using c by (intro exI [of _ "TableReply names rows tag n"]) simp
  qed
qed

lemma answer_is_reply: "is_answer ps \<Longrightarrow> \<exists>r. reply_packets r = ps"
proof -
  assume "is_answer ps"
  then obtain tbl final where f: "ps = tbl @ [final]" "is_table tbl" "is_complete final \<or> is_error final" by (auto simp: is_answer_def)
  show ?thesis
  proof (cases "is_complete final")
    case True
    then show ?thesis using completed_is_reply f by blast
  next
    case False
    then obtain m where m: "final = ErrorResponsePacket m" using f(3) by (auto simp: is_error_def)
    from table_is_packets [OF f(2)] show ?thesis
    proof (elim disjE exE)
      assume "tbl = []"
      then show ?thesis using m f(1) by (intro exI [of _ "ErrorReply None m"]) simp
    next
      fix names rows assume "tbl = table_packets names rows"
      then show ?thesis using m f(1) by (intro exI [of _ "ErrorReply (Some (names, rows)) m"]) simp
    qed
  qed
qed

lemma double_answer_is_replies: "is_double_answer ps \<Longrightarrow> \<exists>r m. reply_packets r @ reply_packets (ErrorReply None m) = ps"
proof -
  assume "is_double_answer ps"
  then obtain tbl c m where f: "ps = tbl @ [c, m]" "is_table tbl" "is_complete c" "is_error m" by (auto simp: is_double_answer_def)
  then obtain m' where "m = ErrorResponsePacket m'" by (auto simp: is_error_def)
  moreover obtain r where "reply_packets r = tbl @ [c]" using completed_is_reply f(2,3) by blast
  ultimately show ?thesis using f(1) by (intro exI [of _ r] exI [of _ m']) simp
qed

lemma sent_images: "sent c ps c' \<Longrightarrow> list_all packet_fits ps \<Longrightarrow> out_bytes c' = out_bytes c @ images ps"
proof -
  assume s: "sent c ps c'" and f: "list_all packet_fits ps"
  then obtain bs where bs: "list_all2 (\<lambda>p b. serialize_packet p = Inr b) ps bs" "out_bytes c' = out_bytes c @ concat bs" by (auto simp: sent_def)
  have "list_all packet_fits ps \<Longrightarrow> concat bs = images ps" using bs(1)
    by (induction rule: list_all2_induct)
      (auto simp: serialize_packet_image [OF packet_fits_no_clash] packet_image_def)
  then show ?thesis using bs(2) f by simp
qed

text \<open>
  C14. A session and its client: each packet that a session processes is answered by one reply, and the client
  that receives it in any portions shows that reply. Outside a transaction of the user a second
  reply can follow, an error; the client does not read it, so that it is shown for the next command.
\<close>

theorem client_takes_first_reply:
  assumes "alive (ss_sock s)" "handle_packet parse fuel w db p s = (Inr (), s')"
  shows "\<exists>r rs. sent (ss_sock s) (reply_packets r @ concat (map reply_packets rs)) (ss_sock s') \<and>
    (rs = [] \<or> \<not> ss_mine s \<and> (\<exists>m. rs = [ErrorReply None m])) \<and>
    (list_all reply_ok (r # rs) \<longrightarrow> (\<forall>c rest. stream (cs_sock c) = drop (length (out_bytes (ss_sock s))) (out_bytes (ss_sock s')) @ rest \<longrightarrow>
      (\<exists>c'. handleResponse c = (Inr True, c') \<and> cs_out c' = cs_out c @ reply_out r \<and> cs_err c' = cs_err c @ reply_err r \<and>
        stream (cs_sock c') = images (concat (map reply_packets rs)) @ rest)))"
proof -
  obtain ps where ps: "sent (ss_sock s) ps (ss_sock s')" "is_answer ps \<or> \<not> ss_mine s \<and> is_double_answer ps"
    using sendsD [OF sends_handle_packet [of "ss_mine s"] refl _ assms(2)] assms(1) by auto
  obtain r rs where r: "ps = reply_packets r @ concat (map reply_packets rs)" "rs = [] \<or> \<not> ss_mine s \<and> (\<exists>m. rs = [ErrorReply None m])"
  proof (cases "is_answer ps")
    case True
    then show ?thesis using answer_is_reply [of ps] that [of _ "[]"] by auto
  next
    case False
    then show ?thesis using ps(2) double_answer_is_replies [of ps] that [of _ "[ErrorReply None _]"] by fastforce
  qed
  have "\<exists>c'. handleResponse c = (Inr True, c') \<and> cs_out c' = cs_out c @ reply_out r \<and> cs_err c' = cs_err c @ reply_err r \<and>
      stream (cs_sock c') = images (concat (map reply_packets rs)) @ rest"
    if ok: "list_all reply_ok (r # rs)" and st: "stream (cs_sock c) = drop (length (out_bytes (ss_sock s))) (out_bytes (ss_sock s')) @ rest" for c rest
  proof -
    have "list_all packet_fits ps" using ok r by (auto simp: reply_ok_def)
    then have "stream (cs_sock c) = images (reply_packets r) @ images (concat (map reply_packets rs)) @ rest"
      using st sent_images [OF ps(1)] r(1) by simp
    then show ?thesis using reply_shown ok by (fastforce simp: shows_reply_def)
  qed
  then show ?thesis using ps(1) r by blast
qed

section \<open>A SELECT at the client\<close>

lemma row_strings_length: "is_main_row t \<Longrightarrow> length (row_strings t) = 2"
  by (auto simp: is_main_row_def row_strings_def)

text \<open>
  C2. A SELECT at the client: in a session that can begin a statement (in the transaction of the user, or
  outside one with the slot of the worker empty), a plain \<open>SELECT\<close> on a table whose first page is in the
  cache is answered, and the client, however it receives the answer, prints the aligned table of what
  the statement sees on the first page, with the header, and the number of rows. A row of which the
  current version is invisible, because another transaction has updated or deleted it, is shown in its
  newest visible version from the undo log. Rows on later pages of the table are not sent. The scan must
  be able to decide the page (\<open>page_readable\<close>): no transaction whose tuple it looks at is in the middle of
  a commit, the tuples can be deserialised, and the undo log is intact.
\<close>

theorem client_shows_select:
  assumes "setupDatabase = Inr db" "parse q = Inr (kStmtSelect plain_select)" "alive (ss_sock s)" "outputs_ok s"
    and "session_ready w s" "page_readable n i b room es vs w s" "nitems (bm_pages (entered w s) b) < fuel"
  shows "\<exists>s'. handle_packet parse fuel w db (QueryPacket q) s = (Inr (), s') \<and> ss_mine s' = ss_mine s \<and>
    (\<forall>c rest. stream (cs_sock c) = drop (length (out_bytes (ss_sock s))) (out_bytes (ss_sock s')) @ rest \<longrightarrow>
      (\<exists>c'. handleResponse c = (Inr True, c') \<and> stream (cs_sock c') = rest \<and> cs_err c' = cs_err c \<and>
        cs_out c' = cs_out c @ text_of (table_lines [''a'', ''b''] (map row_strings (seen_rows b vs w s))) @ count_text (word_of_nat (length (seen_rows b vs w s)))))"
proof -
  let ?rows = "seen_rows b vs w s"
  let ?r = "TableReply [''a'', ''b''] (map row_strings ?rows) ''SELECT'' (word_of_nat (length ?rows))"
  obtain s' where s': "handle_packet parse fuel w db (QueryPacket q) s = (Inr (), s')" "ss_mine s' = ss_mine s"
    "out_bytes (ss_sock s') = out_bytes (ss_sock s) @ images (reply_packets ?r)"
    using select_answered [where parse = parse and q = q, OF assms] by (auto simp: table_packets_def images_def comp_def)
  have "packet_fits (TupleDescriptionPacket [''a'', ''b''])" by (simp add: packet_fits_def getStringSize_def)
  moreover have "\<forall>t\<in>set ?rows. packet_fits (DataRowPacket (row_strings t)) \<and> length (row_strings t) = 2"
    using seen_rows_main row_fits row_strings_length by blast
  ultimately have ok: "reply_ok ?r" using complete_fits [of "''SELECT''"] by (simp add: reply_ok_def table_packets_def list_all_iff)
  have "\<exists>c'. handleResponse c = (Inr True, c') \<and> stream (cs_sock c') = rest \<and> cs_err c' = cs_err c \<and>
        cs_out c' = cs_out c @ text_of (table_lines [''a'', ''b''] (map row_strings ?rows)) @ count_text (word_of_nat (length ?rows))"
    if "stream (cs_sock c) = drop (length (out_bytes (ss_sock s))) (out_bytes (ss_sock s')) @ rest" for c rest
  proof -
    have "stream (cs_sock c) = images (reply_packets ?r) @ rest" using that s'(3) by simp
    from reply_shown [OF this] ok show ?thesis by (auto simp: shows_reply_def)
  qed
  then show ?thesis using s'(1,2) by blast
qed

theorem client_shows_select_witness:
  "\<exists>s' c'. handle_packet (\<lambda>q. Inr (kStmtSelect plain_select)) 3 0 main_database (QueryPacket []) example_selecting = (Inr (), s') \<and>
    handleResponse (example_client [out_bytes (ss_sock s')]) = (Inr True, c') \<and>
    cs_out c' = '' a | b '' @ newline @ ''---+---'' @ newline @ '' 4 | 5 '' @ newline @ '' 6 | 7 '' @ newline @ ''(2 rows)'' @ newline"
proof -
  note ex = example_selecting
  obtain s' where s': "handle_packet (\<lambda>q. Inr (kStmtSelect plain_select)) 3 0 main_database (QueryPacket []) example_selecting = (Inr (), s')"
    "\<And>c rest. stream (cs_sock c) = drop (length (out_bytes (ss_sock example_selecting))) (out_bytes (ss_sock s')) @ rest \<Longrightarrow>
      \<exists>c'. handleResponse c = (Inr True, c') \<and> stream (cs_sock c') = rest \<and> cs_err c' = cs_err c \<and>
        cs_out c' = cs_out c @ text_of (table_lines [''a'', ''b''] (map row_strings (seen_rows 0 (\<lambda>_. [example_older]) 0 example_selecting))) @
          count_text (word_of_nat (length (seen_rows 0 (\<lambda>_. [example_older]) 0 example_selecting)))"
    using client_shows_select [where parse = "\<lambda>q. Inr (kStmtSelect plain_select)" and q = "[]" and fuel = 3, OF setupDatabase_eq _ ex(1,2,4,5)] ex(6) by auto
  let ?c = "example_client [out_bytes (ss_sock s')]"
  have c: "stream (cs_sock ?c) = drop (length (out_bytes (ss_sock example_selecting))) (out_bytes (ss_sock s')) @ []" "cs_out ?c = []"
    by (simp_all add: example_client_def stream_def ex(3))
  have n: "int_to_string 4 = ''4''" "int_to_string 5 = ''5''" "int_to_string 6 = ''6''" "int_to_string 7 = ''7''" "nat_to_string 2 = ''2''"
    by (simp_all add: int_to_string_def nat_to_string_eval)
  have rows: "map row_strings (seen_rows 0 (\<lambda>_. [example_older]) 0 example_selecting) = [[Some ''4'', Some ''5''], [Some ''6'', Some ''7'']]"
    using ex(7) by (simp add: n)
  have len: "length (seen_rows 0 (\<lambda>_. [example_older]) 0 example_selecting) = 2" using arg_cong [OF rows, of length] by simp
  have "table_lines [''a'', ''b''] [[Some ''4'', Some ''5''], [Some ''6'', Some ''7'']] = ['' a | b '', ''---+---'', '' 4 | 5 '', '' 6 | 7 '']" by code_simp
  then have "text_of (table_lines [''a'', ''b''] [[Some ''4'', Some ''5''], [Some ''6'', Some ''7'']]) @ count_text 2 =
      '' a | b '' @ newline @ ''---+---'' @ newline @ '' 4 | 5 '' @ newline @ '' 6 | 7 '' @ newline @ ''(2 rows)'' @ newline"
    by (simp add: text_of_def count_text_def int_to_string_def n(5))
  then show ?thesis using s'(1) s'(2) [OF c(1)] c(2) by (auto simp: rows len)
qed

theorem client_takes_first_reply_witness:
  "\<exists>s' r. handle_packet example_parse 1 0 main_database (QueryPacket ''?'') (example_session True example_heap) = (Inr (), s') \<and>
    sent (example_sock []) (reply_packets r) (ss_sock s')"
proof -
  obtain s' where s': "handle_packet example_parse 1 0 main_database (QueryPacket ''?'') (example_session True example_heap) = (Inr (), s')"
    using example_query_run by blast
  from client_takes_first_reply [OF example_alive(2) s'] s' show ?thesis by (auto simp: example_session_def)
qed

end
