(* ===== verification/Mimi_Isolation.thy ===== *)
theory Mimi_Isolation
  imports Mimi_ClientServer
begin

text \<open>
  What the sessions of the server promise: snapshot isolation. The specification is a list of rows, each
  with the state of the transaction that inserted it, and a snapshot per session. The relation between it
  and the state of the server is kept by every operation of the transaction manager and of the table.
\<close>

unbundle bit_operations_syntax

section \<open>The specification\<close>

text \<open>A row: the two columns, signed integers of 32 and 16 bits or NULL.\<close>

type_synonym sql_row = "int option \<times> int option"

datatype spec_status = Committed nat | Running nat | RolledBack

text \<open>A session's transaction before its first statement, and with the number of its snapshot.\<close>

datatype spec_tx = Begun | Reading nat

record spec_state =
  sp_csn :: nat
  sp_slots :: "(sql_row \<times> spec_status) list"
  sp_tx :: "nat \<Rightarrow> spec_tx option"

definition spec_begin :: "nat \<Rightarrow> spec_state \<Rightarrow> spec_state" where
  "spec_begin w sp = sp\<lparr>sp_tx := (sp_tx sp)(w \<mapsto> Begun)\<rparr>"

definition spec_statement :: "nat \<Rightarrow> spec_state \<Rightarrow> spec_state" where
  "spec_statement w sp = (if sp_tx sp w = Some Begun then sp\<lparr>sp_tx := (sp_tx sp)(w \<mapsto> Reading (sp_csn sp))\<rparr> else sp)"

definition spec_insert :: "nat \<Rightarrow> sql_row \<Rightarrow> spec_state \<Rightarrow> spec_state" where
  "spec_insert w r sp = sp\<lparr>sp_slots := sp_slots sp @ [(r, Running w)]\<rparr>"

definition spec_end :: "nat \<Rightarrow> spec_status \<Rightarrow> spec_status \<Rightarrow> spec_status" where
  "spec_end w new st = (if st = Running w then new else st)"

definition spec_commit :: "nat \<Rightarrow> spec_state \<Rightarrow> spec_state" where
  "spec_commit w sp = sp\<lparr>sp_csn := sp_csn sp + 1, sp_slots := map (apsnd (spec_end w (Committed (sp_csn sp)))) (sp_slots sp), sp_tx := (sp_tx sp)(w := None)\<rparr>"

definition spec_rollback :: "nat \<Rightarrow> spec_state \<Rightarrow> spec_state" where
  "spec_rollback w sp = sp\<lparr>sp_slots := map (apsnd (spec_end w RolledBack)) (sp_slots sp), sp_tx := (sp_tx sp)(w := None)\<rparr>"

definition spec_sees :: "nat \<Rightarrow> nat \<Rightarrow> spec_status \<Rightarrow> bool" where
  "spec_sees w c st = (case st of Committed c' \<Rightarrow> c' < c | Running w' \<Rightarrow> w' = w | RolledBack \<Rightarrow> False)"

definition spec_rows :: "nat \<Rightarrow> spec_state \<Rightarrow> sql_row list" where
  "spec_rows w sp = (case sp_tx sp w of Some (Reading c) \<Rightarrow> map fst (filter (spec_sees w c \<circ> snd) (sp_slots sp)) | _ \<Rightarrow> [])"

section \<open>Rows on the page\<close>

definition literal_int :: "Expr \<Rightarrow> u64 option" where
  "literal_int e = (case literal_value e of Some (Scalar v) \<Rightarrow> Some v | _ \<Rightarrow> None)"

definition sql_row :: "Expr list \<Rightarrow> sql_row" where
  "sql_row vs = (map_option (\<lambda>v. sint (ucast v :: u32)) (literal_int (vs ! 0)), map_option (\<lambda>v. sint (ucast v :: u16)) (literal_int (vs ! 1)))"

definition row_text :: "sql_row \<Rightarrow> string option list" where
  "row_text r = [map_option int_to_string (fst r), map_option int_to_string (snd r)]"

definition row_image :: "TransactionId \<Rightarrow> Expr list \<Rightarrow> byte list" where
  "row_image xid vs = tuple_header_bytes (stored_header (row_tuple xid vs)) @ tuple_image main_descriptor (hpt_values (row_tuple xid vs)) (hpt_isnull (row_tuple xid vs))"

definition row_values_ok :: "Expr list \<Rightarrow> bool" where
  "row_values_ok vs \<longleftrightarrow> length vs = 2 \<and> list_all is_literal vs"

lemma row_image_serialized: "row_values_ok vs \<Longrightarrow> HeapTuple_Serialize (row_tuple xid vs) main_descriptor = Inr (row_image xid vs)"
  by (simp add: row_image_def row_values_ok_def HeapTuple_Serialize_image row_values(1))

lemma row_image_short: "row_values_ok vs \<Longrightarrow> length (row_image xid vs) \<le> 32"
  using row_image_serialized [of vs xid] row_bytes [of vs xid] by (auto simp: row_values_ok_def)

lemma row_header:
  "th_xid (stored_header (row_tuple xid vs)) = xid" "th_undo (stored_header (row_tuple xid vs)) = Usn_Invalid"
  "th_flags (stored_header (row_tuple xid vs)) AND HeapTupleFlags_Deleted = 0"
  by (simp_all add: stored_header_def row_tuple_def HeapTupleFlags_HasNulls_def HeapTupleFlags_Deleted_def)

lemma printed_row:
  assumes "row_values_ok vs" "same_heap_tuple main_descriptor (row_tuple xid vs) (hp_tuple t)"
  shows "row_strings t = row_text (sql_row vs)"
proof -
  have v: "length vs = 2" "list_all is_literal vs" using assms(1) by (simp_all add: row_values_ok_def)
  obtain a b where vs: "vs = [a, b]" using v(1) by (auto simp: length_Suc_conv numeral_2_eq_2)
  have u: "(ucast (signed_take_bit 31 v :: u64) :: u32) = ucast v" "(ucast (signed_take_bit 15 v :: u64) :: u16) = ucast v" for v
    by (rule bit_word_eqI, simp add: bit_simps min_absorb2)+
  show ?thesis using row_values(2) [OF v assms(2)]
    by (cases a; cases b) (auto simp: row_strings_def row_text_def sql_row_def vs column_value_def literal_int_def literal_value_def u)
qed

section \<open>The relation\<close>

definition status_rel :: "TransactionManager \<Rightarrow> TransactionId \<Rightarrow> spec_status \<Rightarrow> bool" where
  "status_rel m xid st = (case st of
     Committed c \<Rightarrow> \<exists>v. tm_history m xid = Some v \<and> Csn_IsNormal v \<and> unat v = c \<and> v < tm_csn m
   | Running w \<Rightarrow> \<exists>t. trans_of m w = Some t \<and> tr_xid t = xid \<and> tr_undoLog t \<noteq> None
   | RolledBack \<Rightarrow> tm_history m xid = Some Csn_Aborted)"

definition slot_rel :: "TransactionManager \<Rightarrow> byte list option \<Rightarrow> sql_row \<times> spec_status \<Rightarrow> bool" where
  "slot_rel m bs x \<longleftrightarrow> (\<exists>xid vs. row_values_ok vs \<and> bs = Some (row_image xid vs) \<and> fst x = sql_row vs \<and> xid < tm_xid m \<and> status_rel m xid (snd x))"

text \<open>The undo records of a transaction: the deletions of its rows.\<close>

definition log_ok :: "(UndoSeqNumber \<times> HeapUndoRecord) list \<Rightarrow> nat \<Rightarrow> Transaction \<Rightarrow> bool" where
  "log_ok es items t \<longleftrightarrow> (case tr_undoLog t of None \<Rightarrow> True | Some log \<Rightarrow> log \<noteq> [] \<and>
     (\<forall>usn\<in>set log. \<exists>item. (usn, DeleteUndoRecord MainTableId \<lparr>tid_pageno = 0, tid_itemid = item\<rparr>) \<in> set es \<and> unat item < items))"

definition runs :: "TransactionManager \<Rightarrow> nat \<Rightarrow> Transaction \<Rightarrow> bool" where
  "runs m w t \<longleftrightarrow> trans_of m w = Some t \<and> tr_workerId t = w \<and> tr_lastLsn t = Lsn_Invalid \<and> tm_xidToWorker m (tr_xid t) = Some w \<and>
     tm_history m (tr_xid t) = Some Csn_InProgress \<and> tr_xid t < tm_xid m"

definition snapshot_rel :: "spec_tx \<Rightarrow> Transaction \<Rightarrow> bool" where
  "snapshot_rel st t = (case st of Begun \<Rightarrow> tr_snapshot t = None \<and> tr_undoLog t = None | Reading c \<Rightarrow> \<exists>sn. tr_snapshot t = Some sn \<and> unat (sn_CSN sn) = c)"

definition tx_rel :: "TransactionManager \<Rightarrow> (UndoSeqNumber \<times> HeapUndoRecord) list \<Rightarrow> nat \<Rightarrow> nat \<Rightarrow> spec_tx option \<Rightarrow> bool" where
  "tx_rel m es items w x = (case x of None \<Rightarrow> trans_of m w = None | Some st \<Rightarrow> \<exists>t. runs m w t \<and> snapshot_rel st t \<and> log_ok es items t)"

text \<open>
  The page is cached, the files and the logs are in order, there is room for \<open>ki\<close> rows, and the counters
  go on for \<open>kx\<close> transactions and \<open>kc\<close> commits.
\<close>

definition server_ok :: "nat \<Rightarrow> nat \<Rightarrow> nat \<Rightarrow> nat \<Rightarrow> nat \<Rightarrow> nat \<Rightarrow> trans_state \<Rightarrow> bool" where
  "server_ok n i b kx kc ki d \<longleftrightarrow> cached n d \<lparr>Relid = MainTableId, PageNo = 0\<rparr> i b \<and> n < 2 ^ 20 - 1 \<and> \<not> ts_contents d b \<and>
     (\<exists>content. os_files d (rel_path MainTableId) = Some content \<and> PageSize \<le> length content \<and> length content < (2 ^ 32 - 1) * PageSize) \<and>
     wal_ok d \<and> unat (wal_end (ws_wal d)) + 64 * ki < 2 ^ 62 \<and> distinct [wal_path (ws_wal d), ul_path (us_undo d), rel_path MainTableId] \<and>
     wf_page (bm_pages d b) \<and> lowerN (bm_pages d b) + 36 * ki < upperN (bm_pages d b) \<and>
     \<not> tm_mutex (ts_tm d) \<and> Csn_IsNormal (tm_csn (ts_tm d)) \<and> unat (tm_csn (ts_tm d)) + kc < 2 ^ 64 \<and> unat (tm_xid (ts_tm d)) + kx < 2 ^ 64"

definition spec_rel :: "TransactionManager \<Rightarrow> (UndoSeqNumber \<times> HeapUndoRecord) list \<Rightarrow> page \<Rightarrow> spec_state \<Rightarrow> bool" where
  "spec_rel m es p sp \<longleftrightarrow> (\<forall>w<length (tm_transactions m). tx_rel m es (nitems p) w (sp_tx sp w)) \<and>
     list_all2 (slot_rel m) (abs_page p) (sp_slots sp) \<and> sp_csn sp = unat (tm_csn m)"

definition refines :: "nat \<Rightarrow> nat \<Rightarrow> nat \<Rightarrow> nat \<Rightarrow> nat \<Rightarrow> nat \<Rightarrow> spec_state \<Rightarrow> trans_state \<Rightarrow> bool" where
  "refines n i b kx kc ki sp d \<longleftrightarrow> server_ok n i b kx kc ki d \<and> (\<exists>room es. undo_inv room d es \<and> 40 * ki \<le> room \<and> spec_rel (ts_tm d) es (bm_pages d b) sp)"

lemma refines_less: "refines n i b kx kc ki sp d \<Longrightarrow> kx' \<le> kx \<Longrightarrow> kc' \<le> kc \<Longrightarrow> ki' \<le> ki \<Longrightarrow> refines n i b kx' kc' ki' sp d"
  unfolding refines_def server_ok_def
  by (elim conjE exE, intro conjI) (auto intro: order_trans [OF mult_le_mono2] simp: le_diff_conv2 dest: order_trans)

section \<open>What a change of the transaction manager keeps\<close>

lemma refines_tm:
  assumes r: "refines n i b kx kc ki sp d" and s: "\<And>es room. undo_inv room d es \<Longrightarrow> spec_rel (ts_tm d) es (bm_pages d b) sp \<Longrightarrow> spec_rel m' es (bm_pages d b) sp'"
    and m: "\<not> tm_mutex m'" "Csn_IsNormal (tm_csn m')" "unat (tm_csn m') + kc' < 2 ^ 64" "unat (tm_xid m') + kx' < 2 ^ 64"
  shows "refines n i b kx' kc' ki sp' (d\<lparr>ts_tm := m'\<rparr>)"
proof -
  obtain room es where u: "undo_inv room d es" "40 * ki \<le> room" "spec_rel (ts_tm d) es (bm_pages d b) sp" and ok: "server_ok n i b kx kc ki d"
    using r by (auto simp: refines_def)
  have "server_ok n i b kx' kc' ki (d\<lparr>ts_tm := m'\<rparr>)"
    using ok m cached_cong [of d "d\<lparr>ts_tm := m'\<rparr>"] by (simp add: server_ok_def same_cache_def wal_ok_def file_of_def)
  moreover have "undo_inv room (d\<lparr>ts_tm := m'\<rparr>) es" using u(1) by (simp add: undo_inv_def)
  ultimately show ?thesis using u(2) s [OF u(1,3)] unfolding refines_def by auto
qed

lemma slots_mono:
  assumes "list_all2 (slot_rel m) ps ss" "tm_xid m \<le> tm_xid m'" "\<And>xid st. xid < tm_xid m \<Longrightarrow> status_rel m xid st \<Longrightarrow> status_rel m' xid (f st)"
  shows "list_all2 (slot_rel m') ps (map (apsnd f) ss)"
proof -
  have s: "slot_rel m' bs (apsnd f x)" if "slot_rel m bs x" for bs x
    using that assms(2,3) unfolding slot_rel_def by (cases x) (auto intro: less_le_trans)
  from assms(1) show ?thesis by (induction rule: list_all2_induct) (simp_all add: s)
qed

lemma slots_same:
  assumes "list_all2 (slot_rel m) ps ss" "tm_xid m \<le> tm_xid m'" "\<And>xid st. xid < tm_xid m \<Longrightarrow> status_rel m xid st \<Longrightarrow> status_rel m' xid st"
  shows "list_all2 (slot_rel m') ps ss"
proof -
  have "apsnd (\<lambda>st. st) = (id :: sql_row \<times> spec_status \<Rightarrow> _)" by (simp add: fun_eq_iff)
  then show ?thesis using slots_mono [OF assms(1,2), of "\<lambda>st. st"] assms(3) by simp
qed

lemma tx_kept:
  assumes "tx_rel m es items w x" "trans_of m' w = trans_of m w" "tm_xid m \<le> tm_xid m'"
    and "\<And>xid. xid < tm_xid m \<Longrightarrow> tm_xidToWorker m xid = Some w \<Longrightarrow> tm_xidToWorker m' xid = Some w \<and> tm_history m' xid = tm_history m xid"
    and "set es \<subseteq> set es'" "items \<le> items'"
  shows "tx_rel m' es' items' w x"
proof (cases x)
  case (Some st)
  then obtain t where t: "runs m w t" "snapshot_rel st t" "log_ok es items t" using assms(1) by (auto simp: tx_rel_def)
  have "runs m' w t" using t(1) assms(2-4) unfolding runs_def by (auto intro: less_le_trans)
  moreover have "log_ok es' items' t" using t(3) assms(5,6) unfolding log_ok_def by (fastforce split: option.splits intro: less_le_trans)
  ultimately show ?thesis using t(2) Some by (auto simp: tx_rel_def)
qed (use assms in \<open>simp add: tx_rel_def\<close>)

section \<open>Beginning\<close>

lemma refines_begin:
  assumes r: "refines n i b (Suc kx) kc ki sp d" and w: "w < length (tm_transactions (ts_tm d))" "sp_tx sp w = None"
  shows "BeginNewTransaction w d = (Inr (), snd (BeginNewTransaction w d))"
    and "refines n i b kx kc ki (spec_begin w sp) (snd (BeginNewTransaction w d))"
    and "length (tm_transactions (ts_tm (snd (BeginNewTransaction w d)))) = length (tm_transactions (ts_tm d))"
    and "bm_pages (snd (BeginNewTransaction w d)) = bm_pages d"
proof -
  let ?m = "ts_tm d"
  have ok: "\<not> tm_mutex ?m" "Csn_IsNormal (tm_csn ?m)" "unat (tm_csn ?m) + kc < 2 ^ 64" "unat (tm_xid ?m) + Suc kx < 2 ^ 64"
    using r by (simp_all add: refines_def server_ok_def)
  have none: "trans_of ?m w = None" using r w by (auto simp: refines_def spec_rel_def tx_rel_def)
  note run = BeginNewTransaction_run [OF w(1) ok(1) none] and up = word_succ64 [OF ok(4)]
  let ?t = "new_Transaction (tm_xid ?m) w"
  define m' where "m' = ?m\<lparr>tm_xid := tm_xid ?m + 1, tm_transactions := (tm_transactions ?m)[w := Some ?t],
    tm_xidToWorker := (tm_xidToWorker ?m)(tm_xid ?m \<mapsto> w), tm_history := (tm_history ?m)(tm_xid ?m \<mapsto> Csn_InProgress)\<rparr>"
  have d': "snd (BeginNewTransaction w d) = d\<lparr>ts_tm := m'\<rparr>" by (simp add: run m'_def)
  show "BeginNewTransaction w d = (Inr (), snd (BeginNewTransaction w d))" by (simp add: run)
  show "length (tm_transactions (ts_tm (snd (BeginNewTransaction w d)))) = length (tm_transactions ?m)" "bm_pages (snd (BeginNewTransaction w d)) = bm_pages d"
    by (simp_all add: d' m'_def)
  have le: "tm_xid ?m \<le> tm_xid m'" using up(2) by (simp add: m'_def)
  have tr: "trans_of m' w = Some ?t" "\<And>w'. w' \<noteq> w \<Longrightarrow> trans_of m' w' = trans_of ?m w'" using w(1) by (simp_all add: m'_def trans_of_def)
  have "spec_rel m' es (bm_pages d b) (spec_begin w sp)" if s: "spec_rel ?m es (bm_pages d b) sp" for es
    unfolding spec_rel_def
  proof (intro conjI allI impI)
    fix w' assume w': "w' < length (tm_transactions m')"
    show "tx_rel m' es (nitems (bm_pages d b)) w' (sp_tx (spec_begin w sp) w')"
    proof (cases "w' = w")
      case True
      then show ?thesis using tr(1) up(2)
        by (auto simp: tx_rel_def spec_begin_def runs_def m'_def new_Transaction_def snapshot_rel_def log_ok_def)
    next
      case False
      have x: "tx_rel ?m es (nitems (bm_pages d b)) w' (sp_tx sp w')" using s w' by (simp add: spec_rel_def m'_def)
      show ?thesis using tx_kept [OF x tr(2) [OF False] le] False by (auto simp: spec_begin_def m'_def)
    qed
  next
    have "trans_of m' w' = Some t" if "trans_of ?m w' = Some t" for w' t using that none tr(2) [of w'] by (cases "w' = w") simp_all
    then have "status_rel m' xid st" if "xid < tm_xid ?m" "status_rel ?m xid st" for xid st
      using that by (cases st) (fastforce simp: status_rel_def m'_def)+
    then show "list_all2 (slot_rel m') (abs_page (bm_pages d b)) (sp_slots (spec_begin w sp))"
      using slots_same [OF _ le] s by (auto simp: spec_rel_def spec_begin_def)
    show "sp_csn (spec_begin w sp) = unat (tm_csn m')" using s by (simp add: spec_rel_def spec_begin_def m'_def)
  qed
  then show "refines n i b kx kc ki (spec_begin w sp) (snd (BeginNewTransaction w d))"
    unfolding d' using refines_tm [OF r, of m'] ok up by (simp add: m'_def)
qed

text \<open>A transaction that changes only its own slot: its snapshot.\<close>

lemma refines_slot:
  assumes r: "refines n i b kx kc ki sp d" and t: "trans_of (ts_tm d) w = Some t" "sp_tx sp w = Some st"
    and t': "tr_xid t' = tr_xid t" "tr_workerId t' = tr_workerId t" "tr_lastLsn t' = tr_lastLsn t" "tr_undoLog t' = tr_undoLog t" "snapshot_rel st' t'"
  shows "refines n i b kx kc ki (sp\<lparr>sp_tx := (sp_tx sp)(w \<mapsto> st')\<rparr>) (d\<lparr>ts_tm := set_slot w (Some t') (ts_tm d)\<rparr>)"
proof (rule refines_tm [OF r])
  let ?m = "ts_tm d" and ?m' = "set_slot w (Some t') (ts_tm d)" and ?sp = "sp\<lparr>sp_tx := (sp_tx sp)(w \<mapsto> st')\<rparr>"
  have w: "w < length (tm_transactions ?m)" using trans_of_len [OF t(1)] .
  have tr: "trans_of ?m' w = Some t'" "\<And>w'. w' \<noteq> w \<Longrightarrow> trans_of ?m' w' = trans_of ?m w'" using w by (simp_all add: set_slot_def trans_of_def)
  show "spec_rel ?m' es (bm_pages d b) ?sp" if s: "spec_rel ?m es (bm_pages d b) sp" for es
    unfolding spec_rel_def
  proof (intro conjI allI impI)
    fix w' assume w': "w' < length (tm_transactions ?m')"
    have x: "tx_rel ?m es (nitems (bm_pages d b)) w' (sp_tx sp w')" using s w' by (simp add: spec_rel_def set_slot_def)
    show "tx_rel ?m' es (nitems (bm_pages d b)) w' (sp_tx ?sp w')"
    proof (cases "w' = w")
      case True
      then have "runs ?m w t" "log_ok es (nitems (bm_pages d b)) t" using x t by (auto simp: tx_rel_def runs_def)
      then show ?thesis using True t' tr(1) by (auto simp: tx_rel_def runs_def log_ok_def set_slot_def)
    next
      case False
      then show ?thesis using tx_kept [OF x tr(2) [OF False]] by (simp add: set_slot_def)
    qed
  next
    have "status_rel ?m' xid x" if "status_rel ?m xid x" for xid x
    proof (cases "x = Running w")
      case True
      then show ?thesis using that t(1) t' tr(1) by (auto simp: status_rel_def)
    next
      case False
      then show ?thesis using that tr(2) by (auto simp: status_rel_def set_slot_def split: spec_status.splits)
    qed
    then show "list_all2 (slot_rel ?m') (abs_page (bm_pages d b)) (sp_slots ?sp)"
      using slots_same [of ?m] s by (auto simp: spec_rel_def set_slot_def)
    show "sp_csn ?sp = unat (tm_csn ?m')" using s by (simp add: spec_rel_def set_slot_def)
  qed
qed (use r in \<open>simp_all add: refines_def server_ok_def set_slot_def\<close>)

lemma refines_tx:
  assumes "refines n i b kx kc ki sp d" "w < length (tm_transactions (ts_tm d))" "sp_tx sp w = Some st"
  obtains t room es where "runs (ts_tm d) w t" "snapshot_rel st t" "log_ok es (nitems (bm_pages d b)) t" "undo_inv room d es" "40 * ki \<le> room"
    "spec_rel (ts_tm d) es (bm_pages d b) sp"
proof -
  obtain room es where r: "undo_inv room d es" "40 * ki \<le> room" "spec_rel (ts_tm d) es (bm_pages d b) sp" using assms(1) by (auto simp: refines_def)
  then have "tx_rel (ts_tm d) es (nitems (bm_pages d b)) w (Some st)" using assms(2,3) by (auto simp: spec_rel_def)
  then show thesis using that r by (auto simp: tx_rel_def)
qed

text \<open>Inside a statement, a transaction sees the rows that it inserted before.\<close>

definition in_statement :: "nat \<Rightarrow> Snapshot \<Rightarrow> Transaction \<Rightarrow> trans_state \<Rightarrow> bool" where
  "in_statement w sn t d \<longleftrightarrow> trans_of (ts_tm d) w = Some t \<and> tr_snapshot t = Some sn \<and> (tr_undoLog t = None \<or> \<not> sn_CommandId sn <=s Usn_Invalid)"

lemma log_last:
  assumes "log_ok es items t" "undo_inv room d es" "tr_undoLog t = Some log"
  shows "Usn_IsValid (VUndo_LastUSN log)" "\<not> VUndo_LastUSN log + 1 <=s Usn_Invalid"
proof -
  have "log \<noteq> []" "last log \<in> set log" using assms(1,3) by (auto simp: log_ok_def)
  moreover have "\<forall>usn\<in>set log. \<exists>item. (usn, DeleteUndoRecord MainTableId \<lparr>tid_pageno = 0, tid_itemid = item\<rparr>) \<in> set es" using assms(1,3) by (auto simp: log_ok_def)
  ultimately obtain item where "(last log, DeleteUndoRecord MainTableId \<lparr>tid_pageno = 0, tid_itemid = item\<rparr>) \<in> set es" by blast
  from undo_position [OF assms(2) this] show "Usn_IsValid (VUndo_LastUSN log)" "\<not> VUndo_LastUSN log + 1 <=s Usn_Invalid"
    using \<open>log \<noteq> []\<close> by (simp_all add: VUndo_LastUSN_def Usn_Invalid_def)
qed

lemma refines_statement:
  assumes r: "refines n i b kx kc ki sp d" and w: "w < length (tm_transactions (ts_tm d))" "sp_tx sp w = Some st"
  shows "\<exists>d' t sn. BeginNewStatement w d = (Inr (), d') \<and> refines n i b kx kc ki (spec_statement w sp) d' \<and> in_statement w sn t d' \<and>
    sp_tx (spec_statement w sp) w = Some (Reading (unat (sn_CSN sn))) \<and> bm_pages d' = bm_pages d \<and>
    length (tm_transactions (ts_tm d')) = length (tm_transactions (ts_tm d))"
proof -
  obtain t room es where t: "runs (ts_tm d) w t" "snapshot_rel st t" "log_ok es (nitems (bm_pages d b)) t" "undo_inv room d es"
    "spec_rel (ts_tm d) es (bm_pages d b) sp" by (rule refines_tx [OF r w])
  have tw: "trans_of (ts_tm d) w = Some t" using t(1) by (simp add: runs_def)
  note slot = refines_slot [OF r tw w(2)]
  have csn: "sp_csn sp = unat (tm_csn (ts_tm d))" using t(5) by (simp add: spec_rel_def)
  have my: "trans_of (set_slot w (Some t') m) w = Some t'" if "w < length (tm_transactions m)" for m t' using that by (simp add: set_slot_def trans_of_def)
  show ?thesis
  proof (cases st)
    case Begun
    let ?sn = "\<lparr>sn_CSN = tm_csn (ts_tm d), sn_CommandId = Usn_Invalid\<rparr>"
    let ?t' = "t\<lparr>tr_snapshot := Some ?sn\<rparr>" 
    let ?d' = "d\<lparr>ts_tm := set_slot w (Some ?t') (ts_tm d)\<rparr>"
    have n: "tr_snapshot t = None" "tr_undoLog t = None" using t(2) Begun by (simp_all add: snapshot_rel_def)
    have "refines n i b kx kc ki (spec_statement w sp) ?d'"
      using slot [of ?t' "Reading (sp_csn sp)"] w(2) Begun csn by (simp add: spec_statement_def snapshot_rel_def)
    then show ?thesis using BeginNewStatement_first [OF tw n(1)] n w Begun csn my [OF w(1)]
      by (intro exI [of _ ?d'] exI [of _ ?t'] exI [of _ ?sn]) (simp add: in_statement_def spec_statement_def, simp add: set_slot_def)
  next
    case (Reading c)
    then obtain sn where sn: "tr_snapshot t = Some sn" "unat (sn_CSN sn) = c" using t(2) by (auto simp: snapshot_rel_def)
    have same: "spec_statement w sp = sp" "sp\<lparr>sp_tx := (sp_tx sp)(w \<mapsto> st)\<rparr> = sp" using w(2) Reading by (simp_all add: spec_statement_def fun_upd_idem)
    show ?thesis
    proof (cases "tr_undoLog t")
      case None
      then have "BeginNewStatement w d = (Inr (), d)" using MyTransaction_run [OF tw] sn(1) by (simp add: BeginNewStatement_def bindM_def retM_def)
      then show ?thesis using r same tw sn None w(2) Reading by (intro exI [of _ d] exI [of _ t] exI [of _ sn]) (simp add: in_statement_def)
    next
      case (Some log)
      note v = log_last [OF t(3,4) Some]
      let ?sn = "\<lparr>sn_CSN = sn_CSN sn, sn_CommandId = VUndo_LastUSN log + 1\<rparr>"
      let ?t' = "t\<lparr>tr_snapshot := Some ?sn\<rparr>" 
      let ?d' = "d\<lparr>ts_tm := set_slot w (Some ?t') (ts_tm d)\<rparr>"
      have "refines n i b kx kc ki sp ?d'" using slot [of ?t' st] sn(2) same Reading by (simp add: snapshot_rel_def)
      then show ?thesis using BeginNewStatement_again [OF tw sn(1) Some v(1)] v(2) sn(2) same w Reading my [OF w(1)]
        by (intro exI [of _ ?d'] exI [of _ ?t'] exI [of _ ?sn]) (simp add: in_statement_def, simp add: set_slot_def)
    qed
  qed
qed

section \<open>Reading\<close>

lemma running_xid:
  assumes s: "spec_rel m es p sp" and t: "runs m w t" and x: "status_rel m xid st"
  shows "xid = tr_xid t \<longleftrightarrow> st = Running w"
proof (cases st)
  case (Running w')
  then obtain t' where t': "trans_of m w' = Some t'" "tr_xid t' = xid" using x by (auto simp: status_rel_def)
  then have "w' < length (tm_transactions m)" using trans_of_len by blast
  then have "tx_rel m es (nitems p) w' (sp_tx sp w')" using s by (simp add: spec_rel_def)
  then have "runs m w' t'" using t'(1) by (auto simp: tx_rel_def runs_def split: option.splits)
  then have f: "tm_xidToWorker m (tr_xid t') = Some w'" "trans_of m w' = Some t'" "tm_xidToWorker m (tr_xid t) = Some w" "trans_of m w = Some t" using t by (simp_all add: runs_def)
  have "xid = tr_xid t \<longleftrightarrow> w' = w"
  proof
    assume "xid = tr_xid t"
    then show "w' = w" using f(1,3) t'(2) by simp
  next
    assume "w' = w"
    then show "xid = tr_xid t" using f(2,4) t'(2) by simp
  qed
  then show ?thesis using Running by simp
next
  case (Committed c)
  moreover have "\<not> Csn_IsNormal Csn_InProgress" by (simp add: csn_defs word_le_nat_alt)
  ultimately show ?thesis using x t by (auto simp: status_rel_def runs_def)
next
  case RolledBack
  moreover have "Csn_Aborted \<noteq> Csn_InProgress" by (simp add: csn_defs)
  ultimately show ?thesis using x t by (auto simp: status_rel_def runs_def)
qed

lemma slot_seen:
  assumes s: "spec_rel m es p sp" "runs m w t" and t: "tr_undoLog t = None \<or> \<not> sn_CommandId sn <=s Usn_Invalid"
    and p: "wf_page p" "j < nitems p" and h: "slot_rel m (abs_page p ! j) x"
  shows "\<exists>h. slot_header p j = Inr h \<and> settled m (tr_xid t) h \<and> (\<not> sees m (tr_xid t) sn h \<longrightarrow> th_undo h = Usn_Invalid)"
    and "\<exists>ht. slot_tuple main_table 0 p j = Inr ht" and "slot_shown m (tr_xid t) sn p j \<longleftrightarrow> spec_sees w (unat (sn_CSN sn)) (snd x)"
    and "row_strings (the_slot main_table 0 p j) = row_text (fst x)"
proof -
  obtain xid vs where v: "row_values_ok vs" "abs_page p ! j = Some (row_image xid vs)" "fst x = sql_row vs" "status_rel m xid (snd x)"
    using h by (auto simp: slot_rel_def)
  let ?h = "stored_header (row_tuple xid vs)"
  have mt: "tb_descriptor main_table = main_descriptor" by (simp add: main_table_def)
  have wf: "wf_heap_tuple (tb_descriptor main_table) (row_tuple xid vs)" using v(1) row_values(1) by (simp add: mt row_values_ok_def)
  have d: "slot_header p j = Inr ?h" "\<exists>t. slot_tuple main_table 0 p j = Inr \<lparr>hp_descriptor = main_descriptor, hp_tuple = t, hp_tid = \<lparr>tid_pageno = 0, tid_itemid = word_of_nat j\<rparr>\<rparr> \<and>
      same_heap_tuple main_descriptor (row_tuple xid vs) t"
    using slot_deserialized [OF p wf] v(2) by (simp_all add: row_image_def mt)
  note own = running_xid [OF s v(4)]
  have st: "settled m (tr_xid t) ?h \<and> (sees m (tr_xid t) sn ?h \<longleftrightarrow> spec_sees w (unat (sn_CSN sn)) (snd x))"
  proof (cases "snd x")
    case (Committed c)
    then obtain c' where "tm_history m xid = Some c'" "Csn_IsNormal c'" "unat c' = c" using v(4) by (auto simp: status_rel_def)
    moreover have "c' \<noteq> Csn_Frozen" using calculation(2) by (auto simp: csn_defs word_le_nat_alt)
    ultimately show ?thesis using own Committed by (auto simp: settled_def sees_def spec_sees_def row_header word_less_nat_alt)
  next
    case (Running w')
    show ?thesis
    proof (cases "w' = w")
      case True
      then have "tr_undoLog t \<noteq> None" using v(4) Running s(2) by (auto simp: status_rel_def runs_def)
      then have "\<not> sn_CommandId sn <=s Usn_Invalid" using t by auto
      then show ?thesis using own True Running by (simp add: settled_def sees_def spec_sees_def row_header)
    next
      case False
      obtain t' where t': "trans_of m w' = Some t'" "tr_xid t' = xid" using v(4) Running by (auto simp: status_rel_def)
      then have "tx_rel m es (nitems p) w' (sp_tx sp w')" using s(1) trans_of_len by (auto simp: spec_rel_def)
      then have "tm_history m xid = Some Csn_InProgress" using t' by (auto simp: tx_rel_def runs_def split: option.splits)
      then show ?thesis using own False Running by (simp add: settled_def sees_def spec_sees_def row_header csn_defs word_le_nat_alt)
    qed
  next
    case RolledBack
    then have "tm_history m xid = Some Csn_Aborted" using v(4) by (simp add: status_rel_def)
    then show ?thesis using own RolledBack by (simp add: settled_def sees_def spec_sees_def row_header csn_defs word_le_nat_alt)
  qed
  show "\<exists>h. slot_header p j = Inr h \<and> settled m (tr_xid t) h \<and> (\<not> sees m (tr_xid t) sn h \<longrightarrow> th_undo h = Usn_Invalid)"
    using d(1) st row_header by (intro exI [of _ ?h]) simp
  show "\<exists>ht. slot_tuple main_table 0 p j = Inr ht" using d(2) by auto
  show "slot_shown m (tr_xid t) sn p j \<longleftrightarrow> spec_sees w (unat (sn_CSN sn)) (snd x)" using d(1) st by (simp add: slot_shown_def row_header)
  show "row_strings (the_slot main_table 0 p j) = row_text (fst x)"
    using d(2) printed_row [OF v(1), of xid] v(3) by (auto simp: the_slot_def)
qed

text \<open>The tuples of the first page that a statement sees.\<close>

definition shown_rows :: "Transaction \<Rightarrow> Snapshot \<Rightarrow> nat \<Rightarrow> trans_state \<Rightarrow> HeapTuple list" where
  "shown_rows t sn b d = map (the_slot main_table 0 (bm_pages d b)) (filter (slot_shown (ts_tm d) (tr_xid t) sn (bm_pages d b)) [0..<nitems (bm_pages d b)])"

lemma refines_read:
  assumes r: "refines n i b kx kc ki sp d" and t: "in_statement w sn t d" "sp_tx sp w = Some (Reading (unat (sn_CSN sn)))"
  shows "scannable (ts_tm d) (tr_xid t) sn main_table 0 (bm_pages d b)"
    and "map row_strings (shown_rows t sn b d) = map row_text (spec_rows w sp)"
proof -
  let ?p = "bm_pages d b" and ?m = "ts_tm d"
  have tw: "trans_of ?m w = Some t" "tr_undoLog t = None \<or> \<not> sn_CommandId sn <=s Usn_Invalid" using t(1) by (simp_all add: in_statement_def)
  obtain t' room es where t': "runs ?m w t'" "undo_inv room d es" "spec_rel ?m es ?p sp"
    by (rule refines_tx [OF r trans_of_len [OF tw(1)] t(2)])
  have rt: "runs ?m w t" using t'(1) tw(1) by (simp add: runs_def)
  have wf: "wf_page ?p" using r by (simp add: refines_def server_ok_def)
  have s: "list_all2 (slot_rel ?m) (abs_page ?p) (sp_slots sp)" using t'(3) by (simp add: spec_rel_def)
  have n: "length (sp_slots sp) = nitems ?p" using list_all2_lengthD [OF s] by (simp add: nitems_abs)
  have j: "slot_rel ?m (abs_page ?p ! j) (sp_slots sp ! j)" if "j < nitems ?p" for j using list_all2_nthD [OF s, of j] that by (simp add: nitems_abs)
  note x = slot_seen [OF t'(3) rt tw(2) wf _ j]
  show "scannable ?m (tr_xid t) sn main_table 0 ?p" using wf x(1,2) by (simp add: scannable_def)
  have "map (row_strings \<circ> the_slot main_table 0 ?p) (filter (slot_shown ?m (tr_xid t) sn ?p) [0..<length (sp_slots sp)]) =
    map (row_text \<circ> fst) (filter (spec_sees w (unat (sn_CSN sn)) \<circ> snd) (sp_slots sp))"
    by (rule filter_upt_nth) (use x(3,4) n in auto)
  then show "map row_strings (shown_rows t sn b d) = map row_text (spec_rows w sp)" using t(2) n by (simp add: shown_rows_def spec_rows_def)
qed

section \<open>Inserting\<close>

text \<open>A new row on the page, of the running transaction, with its undo record in the log.\<close>

lemma spec_rel_insert:
  fixes t usn m w
  defines "t' \<equiv> t\<lparr>tr_undoLog := Some (undo_log_of t @ [usn])\<rparr>"
  defines "m' \<equiv> set_slot w (Some t') m"
  assumes rel: "spec_rel m es p sp" and t: "runs m w t" "snapshot_rel (Reading c) t" "log_ok es (nitems p) t" "sp_tx sp w = Some (Reading c)"
    and p: "wf_page p" "abs_page p' = abs_page p @ [Some (row_image (tr_xid t) vs)]" and v: "row_values_ok vs"
  shows "spec_rel m' (es @ [(usn, delete_record main_table \<lparr>Relid = MainTableId, PageNo = 0\<rparr> p)]) p' (spec_insert w (sql_row vs) sp)"
  (is "spec_rel m' ?es p' ?sp")
proof -
  have tw: "trans_of m w = Some t" using t(1) by (simp add: runs_def)
  have tr: "trans_of m' w = Some t'" "\<And>w'. w' \<noteq> w \<Longrightarrow> trans_of m' w' = trans_of m w'"
    using trans_of_len [OF tw] by (simp_all add: m'_def set_slot_def trans_of_def)
  have ni: "nitems p' = Suc (nitems p)" using arg_cong [OF p(2), of length] by (simp add: nitems_abs)
  show ?thesis unfolding spec_rel_def
  proof (intro conjI allI impI)
    fix w' assume w': "w' < length (tm_transactions m')"
    have x: "tx_rel m es (nitems p) w' (sp_tx sp w')" using rel w' by (simp add: spec_rel_def m'_def set_slot_def)
    show "tx_rel m' ?es (nitems p') w' (sp_tx ?sp w')"
    proof (cases "w' = w")
      case True
      have "unat (ItemsCount p) = nitems p" using p(1) by (simp add: ItemsCount_wf wf_page_def)
      then have "log_ok ?es (nitems p') t'"
        using t(3) ni by (fastforce simp: t'_def log_ok_def undo_log_of_def delete_record_def main_table_def split: option.splits)
      moreover have "runs m' w t'" using t(1) tr(1) by (simp add: runs_def m'_def t'_def set_slot_def)
      ultimately show ?thesis using True t(2,4) by (auto simp: tx_rel_def spec_insert_def snapshot_rel_def t'_def)
    next
      case False
      then show ?thesis using tx_kept [OF x tr(2) [OF False], of ?es "nitems p'"] ni by (auto simp: m'_def set_slot_def spec_insert_def)
    qed
  next
    have "status_rel m' xid st" if "status_rel m xid st" for xid st
      using that tw tr by (cases st; cases "st = Running w") (auto simp: status_rel_def m'_def t'_def set_slot_def)
    then have "list_all2 (slot_rel m') (abs_page p) (sp_slots sp)"
      using slots_same [of m "abs_page p" "sp_slots sp" m'] rel by (auto simp: spec_rel_def m'_def set_slot_def)
    moreover have "slot_rel m' (Some (row_image (tr_xid t) vs)) (sql_row vs, Running w)"
      unfolding slot_rel_def using v tr(1) t(1) by (intro exI [of _ "tr_xid t"] exI [of _ vs]) (simp add: status_rel_def runs_def m'_def t'_def set_slot_def)
    ultimately show "list_all2 (slot_rel m') (abs_page p') (sp_slots ?sp)"
      by (simp add: p(2) spec_insert_def list_all2_appendI)
    show "sp_csn ?sp = unat (tm_csn m')" using rel by (simp add: spec_rel_def spec_insert_def m'_def set_slot_def)
  qed
qed

lemma refines_insert:
  assumes r: "refines n i b kx kc (Suc ki) sp d" and t: "in_statement w sn t d" "sp_tx sp w = Some (Reading (unat (sn_CSN sn)))" and v: "row_values_ok vs"
  shows "\<exists>d'. InsertTuple (Suc f) w main_table (insert_row vs) d = (Inr (), d') \<and> refines n i b kx kc ki (spec_insert w (sql_row vs) sp) d' \<and>
    nitems (bm_pages d' b) = Suc (nitems (bm_pages d b)) \<and> length (tm_transactions (ts_tm d')) = length (tm_transactions (ts_tm d)) \<and> sp_tx (spec_insert w (sql_row vs) sp) = sp_tx sp"
proof -
  let ?p = "bm_pages d b" and ?m = "ts_tm d" and ?bs = "row_image (tr_xid t) vs" and ?tag = "\<lparr>Relid = MainTableId, PageNo = 0\<rparr>"
  have tw: "trans_of ?m w = Some t" using t(1) by (simp add: in_statement_def)
  have wl: "w < length (tm_transactions ?m)" by (rule trans_of_len [OF tw])
  obtain t' room es where t': "runs ?m w t'" "snapshot_rel (Reading (unat (sn_CSN sn))) t'" "log_ok es (nitems ?p) t'" "undo_inv room d es" "40 * Suc ki \<le> room" "spec_rel ?m es ?p sp"
    by (rule refines_tx [OF r wl t(2)])
  have tt: "t' = t" using t'(1) tw by (simp add: runs_def)
  have ok: "server_ok n i b kx kc (Suc ki) d" using r by (simp add: refines_def)
  have wf: "wf_page ?p" "12 \<le> lowerN ?p" using ok by (simp_all add: server_ok_def wf_page_def wf_header_def)
  have sp: "lowerN ?p + 36 + 36 * ki < upperN ?p" "unat (wal_end (ws_wal d)) + 64 + 64 * ki < 2 ^ 62"
    "wal_path (ws_wal d) \<noteq> ul_path (us_undo d)" "rel_path MainTableId \<noteq> wal_path (ws_wal d)" "rel_path MainTableId \<noteq> ul_path (us_undo d)"
    using ok by (auto simp: server_ok_def)
  obtain content where fc: "os_files d (rel_path MainTableId) = Some content" "PageSize \<le> length content" "length content < (2 ^ 32 - 1) * PageSize"
    using ok by (auto simp: server_ok_def)
  have sh: "length ?bs \<le> 32" "align8 (length ?bs) \<le> 32" using row_image_short [OF v, of "tr_xid t"] by (simp_all add: align8_def)
  have mt: "tb_tableId main_table = MainTableId" "tb_descriptor main_table = main_descriptor" by (simp_all add: main_table_def)
  have "formHeapPageTuple w main_table (insert_row vs) d = (Inr (row_tuple (tr_xid t) vs), d)" using form_insert_row [OF _ tw, of vs] v by (simp add: row_values_ok_def)
  then have "can_insert n w main_table (insert_row vs) ?bs i b room es t d"
    unfolding can_insert_def mt using ok tw t'(4,5) row_image_serialized [OF v] fc sp wf sh by (auto simp: server_ok_def PageSize_def)
  then obtain usn d' where d': "InsertTuple (Suc f) w main_table (insert_row vs) d = (Inr (), d')" "inserted n w main_table ?bs i b room es t d usn d'"
    using InsertTuple_first_page by blast
  let ?t = "t\<lparr>tr_undoLog := Some (undo_log_of t @ [usn])\<rparr>" and ?es = "es @ [(usn, delete_record main_table ?tag ?p)]"
  have i: "cached n d' ?tag i b" "\<not> ts_contents d' b" "wf_page (bm_pages d' b)" "abs_page (bm_pages d' b) = abs_page ?p @ [Some ?bs]"
    "ts_tm d' = set_slot w (Some ?t) ?m" "undo_inv (room - 40) d' ?es" "wal_ok d'" "insert_frame b ?bs d d'"
    using d'(2) by (simp_all add: inserted_def mt)
  have fr: "lowerN (bm_pages d' b) = lowerN ?p + 4" "upperN (bm_pages d' b) = upperN ?p - align8 (length ?bs)"
    "wal_path (ws_wal d') = wal_path (ws_wal d)" "ul_path (us_undo d') = ul_path (us_undo d)" "unat (wal_end (ws_wal d')) = unat (wal_end (ws_wal d)) + 32 + length ?bs"
    "os_files d' (rel_path MainTableId) = Some content"
    using i(8) fc(1) sp(4,5) by (simp_all add: insert_frame_def)
  have ni: "nitems (bm_pages d' b) = Suc (nitems ?p)" using arg_cong [OF i(4), of length] by (simp add: nitems_abs)
  have server: "server_ok n i b kx kc ki d'"
    using ok i(1-3,7) fr fc sp sh by (auto simp: server_ok_def i(5) set_slot_def)
  have rel: "spec_rel (ts_tm d') ?es (bm_pages d' b) (spec_insert w (sql_row vs) sp)"
    unfolding i(5) by (rule spec_rel_insert [OF t'(6)]) (use t' tt t(2) wf(1) i(4) v in simp_all)
  have "refines n i b kx kc ki (spec_insert w (sql_row vs) sp) d'"
    unfolding refines_def using server i(6) t'(5) rel by (intro conjI exI [of _ "room - 40"] exI [of _ ?es]) auto
  then show ?thesis using d'(1) ni by (intro exI [of _ d']) (simp add: i(5) set_slot_def spec_insert_def)
qed

section \<open>Ending a transaction\<close>

text \<open>The manager after the end of a worker's transaction under a number of the history.\<close>

definition ended :: "nat \<Rightarrow> TransactionId \<Rightarrow> CommitSeqNumber \<Rightarrow> CommitSeqNumber \<Rightarrow> TransactionManager \<Rightarrow> TransactionManager" where
  "ended w xid c csn m = m\<lparr>tm_csn := csn, tm_transactions := (tm_transactions m)[w := None],
     tm_xidToWorker := (tm_xidToWorker m)(xid := None), tm_history := (tm_history m)(xid \<mapsto> c)\<rparr>"

lemma spec_rel_ended:
  assumes s: "spec_rel m es p sp" and t: "runs m w t" and c: "tm_csn m \<le> csn"
    and st: "status_rel (ended w (tr_xid t) c csn m) (tr_xid t) new"
  shows "spec_rel (ended w (tr_xid t) c csn m) es p
    (sp\<lparr>sp_csn := unat csn, sp_slots := map (apsnd (spec_end w new)) (sp_slots sp), sp_tx := (sp_tx sp)(w := None)\<rparr>)" (is "spec_rel ?m' es p ?sp'")
proof -
  have wl: "w < length (tm_transactions m)" using t trans_of_len by (auto simp: runs_def)
  have tr: "trans_of ?m' w = None" "\<And>w'. w' \<noteq> w \<Longrightarrow> trans_of ?m' w' = trans_of m w'" using wl by (simp_all add: ended_def trans_of_def)
  have own: "tm_xidToWorker m (tr_xid t) = Some w" using t by (simp add: runs_def)
  have le: "tm_xid m \<le> tm_xid ?m'" by (simp add: ended_def)
  show ?thesis unfolding spec_rel_def
  proof (intro conjI allI impI)
    fix w' assume w': "w' < length (tm_transactions ?m')"
    show "tx_rel ?m' es (nitems p) w' (sp_tx ?sp' w')"
    proof (cases "w' = w")
      case False
      have x: "tx_rel m es (nitems p) w' (sp_tx sp w')" using s w' by (simp add: spec_rel_def ended_def)
      have "tm_xidToWorker ?m' xid = Some w' \<and> tm_history ?m' xid = tm_history m xid" if "tm_xidToWorker m xid = Some w'" for xid
        using that own False by (auto simp: ended_def)
      then show ?thesis using tx_kept [OF x tr(2) [OF False] le] False by simp
    qed (use tr(1) in \<open>simp add: tx_rel_def\<close>)
  next
    have "status_rel ?m' xid (spec_end w new x)" if x: "status_rel m xid x" for xid x
    proof (cases "x = Running w")
      case True
      then show ?thesis using running_xid [OF s t x] st by (simp add: spec_end_def)
    next
      case False
      then have ne: "xid \<noteq> tr_xid t" using running_xid [OF s t x] by simp
      show ?thesis
      proof (cases x)
        case (Committed k)
        then show ?thesis using x ne c by (auto simp: status_rel_def spec_end_def ended_def)
      next
        case (Running w')
        then show ?thesis using x False tr(2) [of w'] by (simp add: status_rel_def spec_end_def)
      next
        case RolledBack
        then show ?thesis using x ne by (simp add: status_rel_def spec_end_def ended_def)
      qed
    qed
    then show "list_all2 (slot_rel ?m') (abs_page p) (sp_slots ?sp')"
      using slots_mono [of m "abs_page p" "sp_slots sp" ?m' "spec_end w new"] s le by (simp add: spec_rel_def)
    show "sp_csn ?sp' = unat (tm_csn ?m')" by (simp add: ended_def)
  qed
qed

lemma refines_commit:
  assumes r: "refines n i b kx (Suc kc) ki sp d" and w: "w < length (tm_transactions (ts_tm d))" "sp_tx sp w = Some st"
  shows "\<exists>t. committable w t d \<and> Hardened t d d \<and> refines n i b kx kc ki (spec_commit w sp) (d\<lparr>ts_tm := committed w t (ts_tm d)\<rparr>)"
proof -
  let ?m = "ts_tm d"
  obtain t room es where t: "runs ?m w t" "spec_rel ?m es (bm_pages d b) sp" by (rule refines_tx [OF r w])
  have ok: "\<not> tm_mutex ?m" "Csn_IsNormal (tm_csn ?m)" "unat (tm_csn ?m) + Suc kc < 2 ^ 64" "unat (tm_xid ?m) + kx < 2 ^ 64"
    using r by (simp_all add: refines_def server_ok_def)
  note up = word_succ64 [OF ok(3)]
  have c: "committed w t ?m = ended w (tr_xid t) (tm_csn ?m) (tm_csn ?m + 1) ?m" by (simp add: committed_def ended_def)
  have st: "status_rel (committed w t ?m) (tr_xid t) (Committed (sp_csn sp))"
    using ok(2) up t(2) by (simp add: c status_rel_def ended_def spec_rel_def)
  have sp': "spec_commit w sp = sp\<lparr>sp_csn := unat (tm_csn ?m + 1), sp_slots := map (apsnd (spec_end w (Committed (sp_csn sp)))) (sp_slots sp), sp_tx := (sp_tx sp)(w := None)\<rparr>"
    using t(2) up(1) by (simp add: spec_commit_def spec_rel_def)
  have "refines n i b kx kc ki (spec_commit w sp) (d\<lparr>ts_tm := committed w t ?m\<rparr>)"
  proof (rule refines_tm [OF r])
    show "spec_rel (committed w t ?m) es (bm_pages d b) (spec_commit w sp)" if "spec_rel ?m es (bm_pages d b) sp" for es
      unfolding sp' c by (rule spec_rel_ended [OF that t(1)]) (use up(2) st in \<open>simp_all add: c\<close>)
  qed (use ok up in \<open>simp_all add: committed_def Csn_IsNormal_def\<close>)
  moreover have "committable w t d" using t(1) ok by (simp add: committable_def runs_def)
  moreover have "Hardened t d d" using t(1) by (simp add: Hardened_def runs_def Lsn_IsValid_def retM_def)
  ultimately show ?thesis by blast
qed

text \<open>Undoing the insertions of a transaction changes no page: the stored headers carry no undo position.\<close>

lemma undo_each_ignored:
  assumes "at_page n \<lparr>Relid = MainTableId, PageNo = 0\<rparr> i b p m d" "wf_page p" "undo_inv room d es"
    and "\<forall>usn\<in>set log. \<exists>item. (usn, DeleteUndoRecord MainTableId \<lparr>tid_pageno = 0, tid_itemid = item\<rparr>) \<in> set es \<and> unat item < nitems p"
    and h: "\<And>j. j < nitems p \<Longrightarrow> \<exists>bs h. abs_page p ! j = Some bs \<and> read_tuple_header bs 0 = Inr h \<and> th_undo h = Usn_Invalid"
  shows "\<exists>d'. undo_each ApplyUndo log d = (Inr (), d') \<and> at_page n \<lparr>Relid = MainTableId, PageNo = 0\<rparr> i b p m d' \<and> leaves d d'"
  using assms(1,3,4)
proof (induction log arbitrary: d)
  case Nil
  then show ?case by (simp add: retM_def leaves_refl)
next
  case (Cons usn log)
  then obtain item where e: "(usn, DeleteUndoRecord MainTableId \<lparr>tid_pageno = 0, tid_itemid = item\<rparr>) \<in> set es" "unat item < nitems p" by auto
  note rr = read_record_entry [OF Cons.prems(2) e(1)]
  obtain bs hd where bs: "abs_page p ! unat item = Some bs" "read_tuple_header bs 0 = Inr hd" "th_undo hd = Usn_Invalid" using h [OF e(2)] by blast
  have "th_undo hd \<noteq> usn" using bs(3) rr by (auto simp: Usn_IsValid_def)
  then obtain d1 where d1: "undo_delete_record MainTableId \<lparr>tid_pageno = 0, tid_itemid = item\<rparr> usn d = (Inr (), d1)"
    "at_page n \<lparr>Relid = MainTableId, PageNo = 0\<rparr> i b p m d1" "leaves d d1"
    using undo_delete_ignored [of n MainTableId "\<lparr>tid_pageno = 0, tid_itemid = item\<rparr>" i b p m d bs hd usn] Cons.prems(1) assms(2) e(2) bs by auto
  have "undo_inv room d1 es" using Cons.prems(2) leaves_fields [OF d1(3)] by (simp add: undo_inv_def)
  then obtain d2 where d2: "undo_each ApplyUndo log d1 = (Inr (), d2)" "at_page n \<lparr>Relid = MainTableId, PageNo = 0\<rparr> i b p m d2" "leaves d1 d2"
    using Cons.IH [OF d1(2)] Cons.prems(3) by auto
  have "UndoLog_PerformUndo ApplyUndo usn d = (Inr (), d1)"
    using rr d1(1) by (simp add: UndoLog_PerformUndo_def bindM_def thenM_def ApplyUndo_def)
  then show ?case using d2 leaves_trans [OF d1(3)] by (auto simp: thenM_def bindM_def)
qed

lemma AbortTransaction_run:
  assumes t: "runs (ts_tm s) w t" "\<not> tm_mutex (ts_tm s)"
    and u: "undo_each apply_undo (rev (undo_log_of t)) s = (Inr (), s1)" "ts_tm s1 = ts_tm s" and e: "tr_undoLog t = None \<Longrightarrow> s1 = s"
  shows "AbortTransaction apply_undo w s = (Inr (), s1\<lparr>ts_tm := ended w (tr_xid t) Csn_Aborted (tm_csn (ts_tm s)) (ts_tm s)\<rparr>)"
proof -
  have tw: "trans_of (ts_tm s) w = Some t" "tr_workerId t = w" "tm_xidToWorker (ts_tm s) (tr_xid t) = Some w" using t(1) by (simp_all add: runs_def)
  have w: "w < length (tm_transactions (ts_tm s))" "tm_transactions (ts_tm s) ! w = Some t" using tw(1) trans_of_len [OF tw(1)] by (simp_all add: trans_of_def)
  show ?thesis
  proof (cases "tr_undoLog t")
    case None
    then show ?thesis using w t tw e
      by (simp add: AbortTransaction_def own_transaction_def end_in_table_def tm_simps vec_at_def set_history_def set_slot_def Transaction_Abort_def ended_def)
  next
    case (Some log)
    then have "VUndo_UndoAllRecords apply_undo log s = (Inr [], s1)" using u(1) by (simp add: VUndo_UndoAllRecords_def undo_log_of_def thenM_def bindM_def retM_def)
    then show ?thesis using w t tw u(2) Some
      by (simp add: AbortTransaction_def own_transaction_def end_in_table_def tm_simps vec_at_def set_history_def set_slot_def Transaction_Abort_def ended_def)
  qed
qed

lemma refines_leaves:
  assumes r: "refines n i b kx kc ki sp d" and l: "leaves d d1" "cached n d1 \<lparr>Relid = MainTableId, PageNo = 0\<rparr> i b"
  shows "refines n i b kx kc ki sp d1"
proof -
  note lf = leaves_fields [OF l(1)]
  have "server_ok n i b kx kc ki d1" using r l(2) lf by (simp add: refines_def server_ok_def wal_ok_def file_of_def)
  moreover have "undo_inv room d1 es" if "undo_inv room d es" for room es using that lf by (simp add: undo_inv_def)
  ultimately show ?thesis using r lf unfolding refines_def by auto
qed

lemma refines_rollback:
  assumes r: "refines n i b kx kc ki sp d" and w: "w < length (tm_transactions (ts_tm d))" "sp_tx sp w = Some st"
  shows "\<exists>d'. AbortTransaction ApplyUndo w d = (Inr (), d') \<and> refines n i b kx kc ki (spec_rollback w sp) d' \<and> bm_pages d' b = bm_pages d b \<and>
    length (tm_transactions (ts_tm d')) = length (tm_transactions (ts_tm d))"
proof -
  let ?m = "ts_tm d" and ?p = "bm_pages d b" and ?tag = "\<lparr>Relid = MainTableId, PageNo = 0\<rparr>"
  obtain t room es where t: "runs ?m w t" "log_ok es (nitems ?p) t" "undo_inv room d es" "40 * ki \<le> room" "spec_rel ?m es ?p sp" by (rule refines_tx [OF r w])
  have ok: "server_ok n i b kx kc ki d" using r by (simp add: refines_def)
  have at: "at_page n ?tag i b ?p ?m d" and wf: "wf_page ?p" and mx: "\<not> tm_mutex ?m" using ok by (simp_all add: at_page_def server_ok_def)
  have hd: "\<exists>bs h. abs_page ?p ! j = Some bs \<and> read_tuple_header bs 0 = Inr h \<and> th_undo h = Usn_Invalid" if "j < nitems ?p" for j
  proof -
    have "slot_rel ?m (abs_page ?p ! j) (sp_slots sp ! j)" using t(5) list_all2_nthD [of "slot_rel ?m" "abs_page ?p" "sp_slots sp" j] that by (simp add: spec_rel_def nitems_abs)
    then obtain xid vs where "abs_page ?p ! j = Some (row_image xid vs)" by (auto simp: slot_rel_def)
    then show ?thesis by (simp add: row_image_def row_header)
  qed
  have lg: "\<forall>usn\<in>set (rev (undo_log_of t)). \<exists>item. (usn, DeleteUndoRecord MainTableId \<lparr>tid_pageno = 0, tid_itemid = item\<rparr>) \<in> set es \<and> unat item < nitems ?p"
    using t(2) by (simp add: log_ok_def undo_log_of_def split: option.splits)
  obtain d1 where d1: "undo_each ApplyUndo (rev (undo_log_of t)) d = (Inr (), d1)" "at_page n ?tag i b ?p ?m d1" "leaves d d1"
    using undo_each_ignored [OF at wf t(3) lg hd] by blast
  have same: "tr_undoLog t = None \<Longrightarrow> d1 = d" using d1(1) by (simp add: undo_log_of_def retM_def)
  have tm1: "ts_tm d1 = ?m" using d1(2) by (simp add: at_page_def)
  note ab = AbortTransaction_run [OF t(1) mx d1(1) tm1 same]
  note lf = leaves_fields [OF d1(3)]
  have r1: "refines n i b kx kc ki sp d1" using refines_leaves [OF r d1(3)] d1(2) by (simp add: at_page_def)
  let ?m' = "ended w (tr_xid t) Csn_Aborted (tm_csn ?m) ?m"
  have sp': "spec_rollback w sp = sp\<lparr>sp_csn := unat (tm_csn ?m), sp_slots := map (apsnd (spec_end w RolledBack)) (sp_slots sp), sp_tx := (sp_tx sp)(w := None)\<rparr>"
    using t(5) by (simp add: spec_rollback_def spec_rel_def)
  have "refines n i b kx kc ki (spec_rollback w sp) (d1\<lparr>ts_tm := ?m'\<rparr>)"
  proof (rule refines_tm [OF r1])
    show "spec_rel ?m' es (bm_pages d1 b) (spec_rollback w sp)" if "spec_rel (ts_tm d1) es (bm_pages d1 b) sp" for es
      unfolding sp' using spec_rel_ended [of ?m es "bm_pages d1 b" sp w t "tm_csn ?m" Csn_Aborted RolledBack] that t(1) tm1 by (simp add: status_rel_def ended_def)
  qed (use ok in \<open>simp_all add: ended_def server_ok_def\<close>)
  then show ?thesis using ab lf by (intro exI [of _ "d1\<lparr>ts_tm := ?m'\<rparr>"]) (simp add: ended_def)
qed

end
