(* ===== verification/Mimi_Sessions.thy ===== *)
theory Mimi_Sessions
  imports Mimi_Isolation
begin

text \<open>The packets of the sessions against the specification.\<close>

section \<open>Statements\<close>

datatype sql = SqlBegin | SqlCommit | SqlRollback | SqlInsert "Expr list" | SqlSelect

fun sql_statement :: "sql \<Rightarrow> SQLStatement" where
  "sql_statement SqlBegin = kStmtTransaction kBeginTransaction"
| "sql_statement SqlCommit = kStmtTransaction kCommitTransaction"
| "sql_statement SqlRollback = kStmtTransaction kRollbackTransaction"
| "sql_statement (SqlInsert vs) = kStmtInsert (Some vs)"
| "sql_statement SqlSelect = kStmtSelect plain_select"

text \<open>A statement outside a transaction runs in one of its own.\<close>

definition spec_enter :: "nat \<Rightarrow> spec_state \<Rightarrow> spec_state" where
  "spec_enter w sp = spec_statement w (if sp_tx sp w = None then spec_begin w sp else sp)"

definition spec_leave :: "nat \<Rightarrow> spec_state \<Rightarrow> spec_state \<Rightarrow> spec_state" where
  "spec_leave w sp sp' = (if sp_tx sp w = None then spec_commit w sp' else sp')"

fun spec_step :: "nat \<Rightarrow> sql \<Rightarrow> spec_state \<Rightarrow> reply \<times> spec_state" where
  "spec_step w SqlBegin sp = (CommandReply ''BEGIN'' (- 1), if sp_tx sp w = None then spec_begin w sp else sp)"
| "spec_step w SqlCommit sp = (CommandReply ''COMMIT'' (- 1), spec_commit w sp)"
| "spec_step w SqlRollback sp = (if sp_tx sp w = None then (ErrorReply None ''There is no transaction'', sp) else (CommandReply ''ROLLBACK'' (- 1), spec_rollback w sp))"
| "spec_step w (SqlInsert vs) sp = (CommandReply ''INSERT'' 1, spec_leave w sp (spec_insert w (sql_row vs) (spec_enter w sp)))"
| "spec_step w SqlSelect sp = (let rows = spec_rows w (spec_enter w sp) in
     (TableReply [''a'', ''b''] (map row_text rows) ''SELECT'' (word_of_nat (length rows)), spec_leave w sp (spec_enter w sp)))"

fun sql_ok :: "nat \<Rightarrow> sql \<Rightarrow> spec_state \<Rightarrow> bool" where
  "sql_ok w SqlCommit sp \<longleftrightarrow> sp_tx sp w \<noteq> None"
| "sql_ok w (SqlInsert vs) sp \<longleftrightarrow> row_values_ok vs"
| "sql_ok w _ sp \<longleftrightarrow> True"

definition session_ok :: "nat \<Rightarrow> spec_state \<Rightarrow> session_state \<Rightarrow> bool" where
  "session_ok w sp s \<longleftrightarrow> alive (ss_sock s) \<and> outputs_ok s \<and> (ss_mine s \<longleftrightarrow> sp_tx sp w \<noteq> None)"

text \<open>How a statement enters its transaction, and how it leaves it.\<close>

lemma statement_enters:
  assumes r: "refines n i b (Suc kx) kc ki sp (ss_db s)" and w: "w < length (tm_transactions (ts_tm (ss_db s)))" "ss_mine s \<longleftrightarrow> sp_tx sp w \<noteq> None"
  shows "\<exists>d0 d1 sn t. (if ss_mine s then d0 = ss_db s else BeginNewTransaction w (ss_db s) = (Inr (), d0)) \<and> BeginNewStatement w d0 = (Inr (), d1) \<and> in_statement w sn t d1 \<and>
    refines n i b kx kc ki (spec_enter w sp) d1 \<and> sp_tx (spec_enter w sp) w = Some (Reading (unat (sn_CSN sn))) \<and> bm_pages d1 = bm_pages (ss_db s) \<and>
    length (tm_transactions (ts_tm d1)) = length (tm_transactions (ts_tm (ss_db s)))"
proof (cases "ss_mine s")
  case True
  then obtain st where st: "sp_tx sp w = Some st" using w(2) by auto
  have "refines n i b kx kc ki sp (ss_db s)" by (rule refines_less [OF r]) simp_all
  from refines_statement [OF this w(1) st] show ?thesis using True st by (auto simp: spec_enter_def)
next
  case False
  then have none: "sp_tx sp w = None" using w(2) by auto
  let ?d0 = "snd (BeginNewTransaction w (ss_db s))"
  note b = refines_begin [OF r w(1) none]
  have st: "sp_tx (spec_begin w sp) w = Some Begun" by (simp add: spec_begin_def)
  have wl: "w < length (tm_transactions (ts_tm ?d0))" using w(1) b(3) by simp
  from refines_statement [OF b(2) wl st] show ?thesis using False none b(1,3,4) by (auto simp: spec_enter_def)
qed

lemma statement_leaves:
  assumes r: "refines n i b kx (Suc kc) ki sp' (ss_db s4)" and w: "w < length (tm_transactions (ts_tm (ss_db s4)))" "sp_tx sp' w \<noteq> None" "mine \<longleftrightarrow> sp_tx sp w \<noteq> None" "ss_mine s4"
  shows "\<exists>s'. (if mine then s' = s4 else commit_transaction_command w s4 = (Inr (), s')) \<and> refines n i b kx kc ki (spec_leave w sp sp') (ss_db s') \<and>
    ss_sock s' = ss_sock s4 \<and> ss_outputs s' = ss_outputs s4 \<and> (ss_mine s' \<longleftrightarrow> sp_tx (spec_leave w sp sp') w \<noteq> None) \<and> bm_pages (ss_db s') = bm_pages (ss_db s4) \<and>
    length (tm_transactions (ts_tm (ss_db s'))) = length (tm_transactions (ts_tm (ss_db s4)))"
proof (cases mine)
  case True
  then have "spec_leave w sp sp' = sp'" using w(3) by (auto simp: spec_leave_def)
  then show ?thesis using True refines_less [OF r, of kx kc ki] w by (intro exI [of _ s4]) simp
next
  case False
  obtain st where st: "sp_tx sp' w = Some st" using w(2) by auto
  obtain t where t: "committable w t (ss_db s4)" "Hardened t (ss_db s4) (ss_db s4)" "refines n i b kx kc ki (spec_commit w sp') ((ss_db s4)\<lparr>ts_tm := committed w t (ts_tm (ss_db s4))\<rparr>)"
    using refines_commit [OF r w(1) st] by blast
  let ?s' = "s4\<lparr>ss_db := (ss_db s4)\<lparr>ts_tm := committed w t (ts_tm (ss_db s4))\<rparr>, ss_mine := False\<rparr>"
  have "commit_transaction_command w s4 = (Inr (), ?s')"
    using CommitTransaction_run [OF t(1,2)] by (simp add: commit_transaction_command_def set_mine_def thenM_def bindM_def on_db_def updM_def)
  then show ?thesis using False t(3) w(3) by (intro exI [of _ ?s']) (simp add: spec_leave_def spec_commit_def committed_def)
qed

section \<open>One packet\<close>

text \<open>What a packet does: the reply and the step of the specification.\<close>

definition takes_step :: "nat \<Rightarrow> nat \<Rightarrow> nat \<Rightarrow> nat \<Rightarrow> nat \<Rightarrow> sql \<Rightarrow> spec_state \<Rightarrow> session_state \<Rightarrow> session_state \<Rightarrow> bool" where
  "takes_step n i b k w x sp s s' \<longleftrightarrow> session_ok w (snd (spec_step w x sp)) s' \<and> refines n i b k k k (snd (spec_step w x sp)) (ss_db s') \<and>
     out_bytes (ss_sock s') = out_bytes (ss_sock s) @ images (reply_packets (fst (spec_step w x sp))) \<and>
     nitems (bm_pages (ss_db s') b) \<le> Suc (nitems (bm_pages (ss_db s) b)) \<and>
     length (tm_transactions (ts_tm (ss_db s'))) = length (tm_transactions (ts_tm (ss_db s)))"

lemma insert_step:
  assumes db: "setupDatabase = Inr db" and q: "parse q = Inr (kStmtInsert (Some vs))" "row_values_ok vs"
    and s: "session_ok w sp s" "w < length (tm_transactions (ts_tm (ss_db s)))" and r: "refines n i b (Suc k) (Suc k) (Suc k) sp (ss_db s)" and f: "0 < fuel"
  shows "\<exists>s'. handle_packet parse fuel w db (QueryPacket q) s = (Inr (), s') \<and> takes_step n i b k w (SqlInsert vs) sp s s'"
proof -
  have so: "alive (ss_sock s)" "outputs_ok s" "ss_mine s \<longleftrightarrow> sp_tx sp w \<noteq> None" using s(1) by (simp_all add: session_ok_def)
  obtain d0 d1 sn t where e: "if ss_mine s then d0 = ss_db s else BeginNewTransaction w (ss_db s) = (Inr (), d0)" "BeginNewStatement w d0 = (Inr (), d1)" "in_statement w sn t d1"
    "refines n i b k (Suc k) (Suc k) (spec_enter w sp) d1" "sp_tx (spec_enter w sp) w = Some (Reading (unat (sn_CSN sn)))" "bm_pages d1 = bm_pages (ss_db s)"
    "length (tm_transactions (ts_tm d1)) = length (tm_transactions (ts_tm (ss_db s)))"
    using statement_enters [OF r s(2) so(3)] by blast
  have in1: "trans_of (ts_tm d1) w = Some t" "tr_snapshot t = Some sn" using e(3) by (simp_all add: in_statement_def)
  obtain f' where f': "fuel = Suc f'" using f by (cases fuel) auto
  let ?sp2 = "spec_insert w (sql_row vs) (spec_enter w sp)"
  obtain d2 where d2: "InsertTuple (Suc f') w main_table (insert_row vs) d1 = (Inr (), d2)" "refines n i b k (Suc k) k ?sp2 d2"
    "nitems (bm_pages d2 b) = Suc (nitems (bm_pages d1 b))" "length (tm_transactions (ts_tm d2)) = length (tm_transactions (ts_tm d1))" "sp_tx ?sp2 = sp_tx (spec_enter w sp)"
    using refines_insert [OF e(4,3,5) q(2)] by blast
  let ?s1 = "s\<lparr>ss_mine := True, ss_db := d1\<rparr>"
  let ?s3 = "?s1\<lparr>ss_db := d2\<rparr>"
  obtain c where c: "SendCommandComplete ''INSERT'' 1 ?s3 = (Inr (), ?s3\<lparr>ss_sock := c\<rparr>)" "alive c"
    "out_bytes c = out_bytes (ss_sock s) @ packet_image (CommandCompletePacket ''INSERT'' 1)"
    using send_ok [of "CommandCompletePacket ''INSERT'' 1" ?s3] so(1) complete_fits [of "''INSERT''" 1] by (auto simp: SendCommandComplete_def)
  let ?s4 = "?s3\<lparr>ss_sock := c\<rparr>"
  obtain s' where s': "if ss_mine s then s' = ?s4 else commit_transaction_command w ?s4 = (Inr (), s')" "refines n i b k k k (spec_leave w sp ?sp2) (ss_db s')"
    "ss_sock s' = c" "ss_outputs s' = ss_outputs s" "ss_mine s' \<longleftrightarrow> sp_tx (spec_leave w sp ?sp2) w \<noteq> None" "bm_pages (ss_db s') = bm_pages d2"
    "length (tm_transactions (ts_tm (ss_db s'))) = length (tm_transactions (ts_tm d2))"
    using statement_leaves [of n i b k k k ?sp2 ?s4 w "ss_mine s" sp] d2 e(5,7) s(2) so(3) by auto
  have pl: "Plan db (kStmtInsert (Some vs)) = Inr \<lparr>ps_plan = InsertNode main_table [insert_row vs] 0, ps_tag = InsertTag\<rparr>" "OpenTable db MainTableId = Inr main_table"
    using db q(2) by (simp_all add: setupDatabase_eq main_table_open Plan_insert row_values_ok_def)
  have "handle_packet parse fuel w db (QueryPacket q) s = (Inr (), s')"
  proof (rule plannable_statement [of parse q "kStmtInsert (Some vs)" db _ main_table s d0 w d1 t sn ?s1, OF q(1) pl(1) _ pl(2) e(1,2) in1])
    show "on_db (PlanNode_Start sn (ps_plan \<lparr>ps_plan = InsertNode main_table [insert_row vs] 0, ps_tag = InsertTag\<rparr>)) ?s1 = (Inr (InsertNode main_table [insert_row vs] 0), ?s1)"
      by (simp add: PlanNode_Start_def on_db_def retM_def)
    show "execute_rows fuel fuel w db (tb_descriptor main_table) (ps_tag \<lparr>ps_plan = InsertNode main_table [insert_row vs] 0, ps_tag = InsertTag\<rparr> = SelectTag)
        (InsertNode main_table [insert_row vs] 0) ?s1 = (Inr (InsertNode main_table [insert_row vs] 1), ?s3)"
      using execute_insert [of f' w main_table "insert_row vs" ?s1 d2] d2(1) by (simp add: f')
    show "PlanNode_End (InsertNode main_table [insert_row vs] 1) = Inr (InsertNode main_table [insert_row vs] 1)" by (simp add: PlanNode_End_def)
    show "SendCommandComplete (cmdTagToString (ps_tag \<lparr>ps_plan = InsertNode main_table [insert_row vs] 0, ps_tag = InsertTag\<rparr>)) (GetRowsProcessed (InsertNode main_table [insert_row vs] 1)) ?s3 = (Inr (), ?s4)"
      using c(1) by (simp add: cmdTagToString_def GetRowsProcessed_def)
    show "if ss_mine s then s' = ?s4 else commit_transaction_command w ?s4 = (Inr (), s')" by (rule s'(1))
  qed (simp_all add: IsPlannableStatement_def)
  moreover have "takes_step n i b k w (SqlInsert vs) sp s s'"
    using s' c so(2) d2(3,4) e(6,7) by (simp add: takes_step_def session_ok_def outputs_ok_def)
  ultimately show ?thesis by blast
qed


lemma scan_first_page:
  assumes r: "refines n i b kx kc ki sp d" and t: "in_statement w sn t d" "sp_tx sp w = Some (Reading (unat (sn_CSN sn)))" and f: "nitems (bm_pages d b) < fuel"
  shows "\<exists>sc sc' d2. BeginScan (StartScan main_table sn) d = (Inr sc, d) \<and> scan_until_null fuel w sc d = (Inr (shown_rows t sn b d, sc'), d2) \<and>
    refines n i b kx kc ki sp d2 \<and> bm_pages d2 = bm_pages d \<and> ts_tm d2 = ts_tm d \<and> (\<forall>ht\<in>set (shown_rows t sn b d). is_main_row ht)"
proof -
  let ?p = "bm_pages d b" and ?tag = "\<lparr>Relid = MainTableId, PageNo = 0\<rparr>"
  have ok: "server_ok n i b kx kc ki d" using r by (simp add: refines_def)
  have tw: "trans_of (ts_tm d) w = Some t" and mx: "\<not> tm_mutex (ts_tm d)" using t(1) ok by (simp_all add: in_statement_def server_ok_def)
  note sc = refines_read [OF r t]
  have mt: "tb_tableId main_table = MainTableId" by (simp add: main_table_def)
  obtain content where fc: "os_files d (rel_path (tb_tableId main_table)) = Some content" "PageSize \<le> length content" "length content < (2 ^ 32 - 1) * PageSize"
    using ok by (auto simp: server_ok_def mt)
  let ?sc = "\<lparr>hs_tupleId = \<lparr>tid_pageno = 0, tid_itemid = 0\<rparr>, hs_lastPageNumber = word_of_nat (length content div PageSize), hs_snapshot = sn, hs_table = main_table, hs_end = False\<rparr>"
  have at: "at_page n \<lparr>Relid = tb_tableId (hs_table ?sc), PageNo = tid_pageno (hs_tupleId ?sc)\<rparr> i b ?p (ts_tm d) d"
    using ok by (simp add: at_page_def server_ok_def mt)
  obtain d2 where d2: "scan_until_null fuel w ?sc d = (Inr (shown_rows t sn b d, scan_advance ?sc (nitems ?p) None), d2)" "at_page n ?tag i b ?p (ts_tm d) d2" "leaves d d2"
    using scan_until_null_page [OF at _ tw mx, of "[]" "\<lambda>_. []" fuel] scannable_ready [OF sc(1)] scannable_shown [OF sc(1), of "[0..<nitems ?p]"] f
    by (auto simp: shown_rows_def mt undo_readable_def atLeast0LessThan)
  have "refines n i b kx kc ki sp d2" using refines_leaves [OF r d2(3)] d2(2) by (simp add: at_page_def)
  moreover have "\<forall>ht\<in>set (shown_rows t sn b d). is_main_row ht" using the_slot_main_row [OF _ sc(1)] by (auto simp: shown_rows_def)
  ultimately show ?thesis using BeginScan_run [OF fc, of sn] d2(1) leaves_fields [OF d2(3)]
    by (intro exI [of _ ?sc] exI [of _ "scan_advance ?sc (nitems ?p) None"] exI [of _ d2]) simp
qed

lemma select_step:
  assumes db: "setupDatabase = Inr db" and q: "parse q = Inr (kStmtSelect plain_select)"
    and s: "session_ok w sp s" "w < length (tm_transactions (ts_tm (ss_db s)))" and r: "refines n i b (Suc k) (Suc k) (Suc k) sp (ss_db s)" and f: "nitems (bm_pages (ss_db s) b) < fuel"
  shows "\<exists>s'. handle_packet parse fuel w db (QueryPacket q) s = (Inr (), s') \<and> takes_step n i b k w SqlSelect sp s s'"
proof -
  have so: "alive (ss_sock s)" "outputs_ok s" "ss_mine s \<longleftrightarrow> sp_tx sp w \<noteq> None" using s(1) by (simp_all add: session_ok_def)
  obtain d0 d1 sn t where e: "if ss_mine s then d0 = ss_db s else BeginNewTransaction w (ss_db s) = (Inr (), d0)" "BeginNewStatement w d0 = (Inr (), d1)" "in_statement w sn t d1"
    "refines n i b k (Suc k) (Suc k) (spec_enter w sp) d1" "sp_tx (spec_enter w sp) w = Some (Reading (unat (sn_CSN sn)))" "bm_pages d1 = bm_pages (ss_db s)"
    "length (tm_transactions (ts_tm d1)) = length (tm_transactions (ts_tm (ss_db s)))"
    using statement_enters [OF r s(2) so(3)] by blast
  let ?rows = "shown_rows t sn b d1" and ?sp2 = "spec_enter w sp"
  obtain sc sc' d2 where d2: "BeginScan (StartScan main_table sn) d1 = (Inr sc, d1)" "scan_until_null fuel w sc d1 = (Inr (?rows, sc'), d2)"
    "refines n i b k (Suc k) (Suc k) ?sp2 d2" "bm_pages d2 = bm_pages d1" "ts_tm d2 = ts_tm d1" "\<forall>ht\<in>set ?rows. is_main_row ht"
    using scan_first_page [OF e(4,3,5), of fuel] f e(6) by auto
  note rd = refines_read(2) [OF e(4,3,5)]
  have len: "length ?rows = length (spec_rows w ?sp2)" using arg_cong [OF rd, of length] by simp
  let ?s0 = "s\<lparr>ss_mine := True, ss_db := d1\<rparr>"
  obtain s1 s3 fs c where x: "SendTupleDescriptor main_descriptor ?s0 = (Inr (), s1)" "ss_db s1 = d1"
    "execute_rows fuel fuel w main_database main_descriptor True (SeqScan main_table None (Some sc) 0) s1 = (Inr (SeqScan main_table None (Some sc') (int (length ?rows))), s3)"
    "SendCommandComplete ''SELECT'' (int (length ?rows)) s3 = (Inr (), ?s0\<lparr>ss_outputs := fs, ss_sock := c, ss_db := d2\<rparr>)" "alive c" "fs = None \<or> fs = Some main_outputs"
    and out: "out_bytes c = out_bytes (ss_sock s) @ packet_image (TupleDescriptionPacket [''a'', ''b'']) @
      concat (map (\<lambda>t. packet_image (DataRowPacket (row_strings t))) ?rows) @ packet_image (CommandCompletePacket ''SELECT'' (word_of_nat (length ?rows)))"
    using send_select [of ?s0 fuel w sc ?rows sc' d2] so(1,2) d2(2,6) f by (auto simp: outputs_ok_def)
  let ?s4 = "?s0\<lparr>ss_outputs := fs, ss_sock := c, ss_db := d2\<rparr>"
  obtain s' where s': "if ss_mine s then s' = ?s4 else commit_transaction_command w ?s4 = (Inr (), s')" "refines n i b k k (Suc k) (spec_leave w sp ?sp2) (ss_db s')"
    "ss_sock s' = c" "ss_outputs s' = fs" "ss_mine s' \<longleftrightarrow> sp_tx (spec_leave w sp ?sp2) w \<noteq> None" "bm_pages (ss_db s') = bm_pages d2"
    "length (tm_transactions (ts_tm (ss_db s'))) = length (tm_transactions (ts_tm d2))"
    using statement_leaves [of n i b k k "Suc k" ?sp2 ?s4 w "ss_mine s" sp] d2 e(5,7) s(2) so(3) by auto
  have in1: "trans_of (ts_tm d1) w = Some t" "tr_snapshot t = Some sn" using e(3) by (simp_all add: in_statement_def)
  have "handle_packet parse fuel w db (QueryPacket q) s = (Inr (), s')"
    by (rule select_handled [where parse = parse and q = q, OF db q e(1,2) in1 d2(1) x(1-4) s'(1)])
  moreover have "takes_step n i b k w SqlSelect sp s s'"
  proof -
    have "map (\<lambda>t. packet_image (DataRowPacket (row_strings t))) ?rows = map (packet_image \<circ> DataRowPacket) (map row_strings ?rows)" by simp
    then have "out_bytes c = out_bytes (ss_sock s) @ images (reply_packets (fst (spec_step w SqlSelect sp)))"
      using out len by (simp add: rd table_packets_def images_def comp_def Let_def)
    then show ?thesis using s' x(5,6) d2(4,5) e(6,7) refines_less [OF s'(2), of k k k]
      by (simp add: takes_step_def session_ok_def outputs_ok_def Let_def)
  qed
  ultimately show ?thesis by blast
qed

section \<open>Transaction commands\<close>

lemma command_sent:
  assumes "alive (ss_sock s)" "length tag < 100"
  obtains c where "SendCommandComplete tag (- 1) s = (Inr (), s\<lparr>ss_sock := c\<rparr>)" "alive c" "out_bytes c = out_bytes (ss_sock s) @ images (reply_packets (CommandReply tag (- 1)))"
  using send_ok [of "CommandCompletePacket tag (- 1)" s] assms complete_fits [of tag "- 1"] by (auto simp: SendCommandComplete_def)

lemma begin_step:
  assumes q: "parse q = Inr (kStmtTransaction kBeginTransaction)"
    and s: "session_ok w sp s" "w < length (tm_transactions (ts_tm (ss_db s)))" and r: "refines n i b (Suc k) (Suc k) (Suc k) sp (ss_db s)"
  shows "\<exists>s'. handle_packet parse fuel w db (QueryPacket q) s = (Inr (), s') \<and> takes_step n i b k w SqlBegin sp s s'"
proof -
  have so: "alive (ss_sock s)" "outputs_ok s" "ss_mine s \<longleftrightarrow> sp_tx sp w \<noteq> None" using s(1) by (simp_all add: session_ok_def)
  let ?sp = "snd (spec_step w SqlBegin sp)"
  obtain d0 where d0: "start_new_transaction_command w s = (Inr (), s\<lparr>ss_mine := True, ss_db := d0\<rparr>)" "refines n i b k k k ?sp d0" "bm_pages d0 = bm_pages (ss_db s)"
    "length (tm_transactions (ts_tm d0)) = length (tm_transactions (ts_tm (ss_db s)))"
  proof (cases "ss_mine s")
    case True
    then show thesis using that [of "ss_db s"] so(3) refines_less [OF r, of k k k] by (auto simp: start_new_transaction_command_def bindM_def getM_def retM_def)
  next
    case False
    then have none: "sp_tx sp w = None" using so(3) by auto
    note b = refines_begin [OF r s(2) none]
    have "start_new_transaction_command w s = (Inr (), s\<lparr>ss_mine := True, ss_db := snd (BeginNewTransaction w (ss_db s))\<rparr>)"
      using False b(1) by (auto simp: start_new_transaction_command_def set_mine_def bindM_def thenM_def getM_def on_db_def updM_def split: prod.splits)
    then show thesis using that b(3,4) none refines_less [OF b(2), of k k k] by simp
  qed
  let ?s1 = "s\<lparr>ss_mine := True, ss_db := d0\<rparr>"
  obtain c where c: "SendCommandComplete ''BEGIN'' (- 1) ?s1 = (Inr (), ?s1\<lparr>ss_sock := c\<rparr>)" "alive c" "out_bytes c = out_bytes (ss_sock s) @ images (reply_packets (CommandReply ''BEGIN'' (- 1)))"
    using command_sent [of ?s1 "''BEGIN''"] so(1) by auto
  have "handle_packet parse fuel w db (QueryPacket q) s = (Inr (), ?s1\<lparr>ss_sock := c\<rparr>)"
    using q d0(1) c(1) by (simp add: handle_packet_def dispatch_query_def exec_tcl_query_def handle_begin_def catchM_def bindM_def thenM_def liftR_def)
  moreover have "sp_tx ?sp w \<noteq> None" by (auto simp: spec_begin_def)
  ultimately show ?thesis using d0 c so(2) by (intro exI [of _ "?s1\<lparr>ss_sock := c\<rparr>"]) (simp add: takes_step_def session_ok_def outputs_ok_def)
qed

lemma commit_step:
  assumes q: "parse q = Inr (kStmtTransaction kCommitTransaction)"
    and s: "session_ok w sp s" "w < length (tm_transactions (ts_tm (ss_db s)))" and r: "refines n i b (Suc k) (Suc k) (Suc k) sp (ss_db s)" and t: "sp_tx sp w \<noteq> None"
  shows "\<exists>s'. handle_packet parse fuel w db (QueryPacket q) s = (Inr (), s') \<and> takes_step n i b k w SqlCommit sp s s'"
proof -
  have so: "alive (ss_sock s)" "outputs_ok s" using s(1) by (simp_all add: session_ok_def)
  obtain st where st: "sp_tx sp w = Some st" using t by auto
  obtain tr where tr: "committable w tr (ss_db s)" "Hardened tr (ss_db s) (ss_db s)"
    and r': "refines n i b (Suc k) k (Suc k) (spec_commit w sp) ((ss_db s)\<lparr>ts_tm := committed w tr (ts_tm (ss_db s))\<rparr>)"
    using refines_commit [OF r s(2) st] by blast
  obtain c where "handle_packet parse fuel w db (QueryPacket q) s =
      (Inr (), s\<lparr>ss_db := (ss_db s)\<lparr>ts_tm := committed w tr (ts_tm (ss_db s))\<rparr>, ss_mine := False, ss_sock := c\<rparr>)" "alive c"
    "out_bytes c = out_bytes (ss_sock s) @ packet_image (CommandCompletePacket ''COMMIT'' (- 1))"
    using COMMIT_run [of parse q w tr s "ss_db s" fuel db, OF q tr so(1)] by blast
  then show ?thesis using refines_less [OF r', of k k k] so(2)
    by (intro exI [of _ "s\<lparr>ss_db := (ss_db s)\<lparr>ts_tm := committed w tr (ts_tm (ss_db s))\<rparr>, ss_mine := False, ss_sock := c\<rparr>"])
      (simp add: takes_step_def session_ok_def outputs_ok_def spec_commit_def committed_def)
qed

lemma rollback_step:
  assumes q: "parse q = Inr (kStmtTransaction kRollbackTransaction)"
    and s: "session_ok w sp s" "w < length (tm_transactions (ts_tm (ss_db s)))" and r: "refines n i b (Suc k) (Suc k) (Suc k) sp (ss_db s)"
  shows "\<exists>s'. handle_packet parse fuel w db (QueryPacket q) s = (Inr (), s') \<and> takes_step n i b k w SqlRollback sp s s'"
proof -
  have so: "alive (ss_sock s)" "outputs_ok s" "ss_mine s \<longleftrightarrow> sp_tx sp w \<noteq> None" using s(1) by (simp_all add: session_ok_def)
  show ?thesis
  proof (cases "sp_tx sp w")
    case None
    then have m: "\<not> ss_mine s" using so(3) by simp
    have "packet_fits (ErrorResponsePacket ''There is no transaction'')" by (simp add: packet_fits_def getStringSize_def)
    then obtain c where c: "SendError ''There is no transaction'' s = (Inr (), s\<lparr>ss_sock := c\<rparr>)" "alive c"
      "out_bytes c = out_bytes (ss_sock s) @ packet_image (ErrorResponsePacket ''There is no transaction'')"
      using send_ok [of "ErrorResponsePacket ''There is no transaction''" s] so(1) by (auto simp: SendError_def)
    have "handle_packet parse fuel w db (QueryPacket q) s = (Inr (), s\<lparr>ss_sock := c\<rparr>)"
      using q m c(1) by (simp add: handle_packet_def dispatch_query_def exec_tcl_query_def handle_rollback_def abort_transaction_command_def query_failed_def exn_what_def
          catchM_def bindM_def thenM_def liftR_def getM_def raiseM_def retM_def)
    then show ?thesis using None c so m refines_less [OF r, of k k k]
      by (intro exI [of _ "s\<lparr>ss_sock := c\<rparr>"]) (simp add: takes_step_def session_ok_def outputs_ok_def)
  next
    case (Some st)
    then have m: "ss_mine s" using so(3) by simp
    obtain d' where d': "AbortTransaction ApplyUndo w (ss_db s) = (Inr (), d')" "refines n i b (Suc k) (Suc k) (Suc k) (spec_rollback w sp) d'" "bm_pages d' b = bm_pages (ss_db s) b"
      "length (tm_transactions (ts_tm d')) = length (tm_transactions (ts_tm (ss_db s)))"
      using refines_rollback [OF r s(2) Some] by blast
    let ?s1 = "s\<lparr>ss_db := d', ss_mine := False\<rparr>"
    obtain c where c: "SendCommandComplete ''ROLLBACK'' (- 1) ?s1 = (Inr (), ?s1\<lparr>ss_sock := c\<rparr>)" "alive c" "out_bytes c = out_bytes (ss_sock s) @ images (reply_packets (CommandReply ''ROLLBACK'' (- 1)))"
      using command_sent [of ?s1 "''ROLLBACK''"] so(1) by auto
    have "handle_packet parse fuel w db (QueryPacket q) s = (Inr (), ?s1\<lparr>ss_sock := c\<rparr>)"
      using q m d'(1) c(1) by (simp add: handle_packet_def dispatch_query_def exec_tcl_query_def handle_rollback_def abort_transaction_command_def set_mine_def
          catchM_def bindM_def thenM_def liftR_def getM_def on_db_def updM_def)
    then show ?thesis using Some c so(2) d' refines_less [OF d'(2), of k k k]
      by (intro exI [of _ "?s1\<lparr>ss_sock := c\<rparr>"]) (simp add: takes_step_def session_ok_def outputs_ok_def spec_rollback_def)
  qed
qed

lemma packet_step:
  assumes "setupDatabase = Inr db" "parse q = Inr (sql_statement x)" "sql_ok w x sp"
    and "session_ok w sp s" "w < length (tm_transactions (ts_tm (ss_db s)))" "refines n i b (Suc k) (Suc k) (Suc k) sp (ss_db s)" "nitems (bm_pages (ss_db s) b) < fuel"
  shows "\<exists>s'. handle_packet parse fuel w db (QueryPacket q) s = (Inr (), s') \<and> takes_step n i b k w x sp s s'"
proof (cases x)
  case SqlBegin
  show ?thesis unfolding SqlBegin by (rule begin_step) (use assms SqlBegin in simp_all)
next
  case SqlCommit
  show ?thesis unfolding SqlCommit by (rule commit_step) (use assms SqlCommit in simp_all)
next
  case SqlRollback
  show ?thesis unfolding SqlRollback by (rule rollback_step) (use assms SqlRollback in simp_all)
next
  case (SqlInsert vs)
  show ?thesis unfolding SqlInsert by (rule insert_step) (use assms SqlInsert in simp_all)
next
  case SqlSelect
  show ?thesis unfolding SqlSelect by (rule select_step) (use assms SqlSelect in simp_all)
qed

section \<open>Interleaved sessions\<close>

text \<open>Workers take turns: each query is handled to its end by the session of its worker, on the state of the server.\<close>

primrec serve :: "(string \<Rightarrow> SQLStatement res) \<Rightarrow> nat \<Rightarrow> Database \<Rightarrow> (nat \<times> string) list \<Rightarrow> trans_state \<Rightarrow> (nat \<Rightarrow> session_state) \<Rightarrow>
    unit res \<times> trans_state \<times> (nat \<Rightarrow> session_state)" where
  "serve parse fuel db [] d ss = (Inr (), d, ss)"
| "serve parse fuel db (p # ps) d ss = (case handle_packet parse fuel (fst p) db (QueryPacket (snd p)) ((ss (fst p))\<lparr>ss_db := d\<rparr>) of
     (Inl e, s) \<Rightarrow> (Inl e, ss_db s, ss(fst p := s))
   | (Inr _, s) \<Rightarrow> serve parse fuel db ps (ss_db s) (ss(fst p := s)))"

primrec spec_run :: "(nat \<times> sql) list \<Rightarrow> spec_state \<Rightarrow> (nat \<times> reply) list \<times> spec_state" where
  "spec_run [] sp = ([], sp)"
| "spec_run (p # ps) sp = (case spec_step (fst p) (snd p) sp of (r, sp') \<Rightarrow> case spec_run ps sp' of (rs, sp'') \<Rightarrow> ((fst p, r) # rs, sp''))"

lemma spec_run_Cons: "spec_run (p # ps) sp = ((fst p, fst (spec_step (fst p) (snd p) sp)) # fst (spec_run ps (snd (spec_step (fst p) (snd p) sp))),
    snd (spec_run ps (snd (spec_step (fst p) (snd p) sp))))"
  by (simp add: split_beta)

primrec spec_ok :: "(nat \<times> sql) list \<Rightarrow> spec_state \<Rightarrow> bool" where
  "spec_ok [] sp \<longleftrightarrow> True"
| "spec_ok (p # ps) sp \<longleftrightarrow> sql_ok (fst p) (snd p) sp \<and> spec_ok ps (snd (spec_step (fst p) (snd p) sp))"

definition replies_to :: "nat \<Rightarrow> (nat \<times> reply) list \<Rightarrow> reply list" where
  "replies_to w rs = map snd (filter (\<lambda>r. fst r = w) rs)"

lemma spec_step_other: "w' \<noteq> w \<Longrightarrow> sp_tx (snd (spec_step w x sp)) w' = sp_tx sp w'"
  by (cases x) (simp_all add: spec_begin_def spec_commit_def spec_rollback_def spec_insert_def spec_enter_def spec_leave_def spec_statement_def Let_def)

lemma serve_refines:
  assumes db: "setupDatabase = Inr db" and f: "nitems (bm_pages d b) + length xs < fuel"
    and p: "\<forall>(w, q, x)\<in>set xs. w < length (tm_transactions (ts_tm d)) \<and> parse q = Inr (sql_statement x)"
    and ok: "spec_ok (map (\<lambda>(w, q, x). (w, x)) xs) sp" and s: "\<forall>w<length (tm_transactions (ts_tm d)). session_ok w sp (ss w)"
    and r: "refines n i b (length xs + k) (length xs + k) (length xs + k) sp d"
  shows "\<exists>d' ss'. serve parse fuel db (map (\<lambda>(w, q, x). (w, q)) xs) d ss = (Inr (), d', ss') \<and>
    refines n i b k k k (snd (spec_run (map (\<lambda>(w, q, x). (w, x)) xs) sp)) d' \<and> length (tm_transactions (ts_tm d')) = length (tm_transactions (ts_tm d)) \<and>
    (\<forall>w<length (tm_transactions (ts_tm d)). session_ok w (snd (spec_run (map (\<lambda>(w, q, x). (w, x)) xs) sp)) (ss' w) \<and>
      out_bytes (ss_sock (ss' w)) = out_bytes (ss_sock (ss w)) @ images (concat (map reply_packets (replies_to w (fst (spec_run (map (\<lambda>(w, q, x). (w, x)) xs) sp))))))"
  using f p ok s r
proof (induction xs arbitrary: d ss sp)
  case Nil
  then show ?case by (simp add: replies_to_def)
next
  case (Cons y xs)
  obtain w q x where y: "y = (w, q, x)" by (cases y) auto
  let ?s = "(ss w)\<lparr>ss_db := d\<rparr>" and ?sp = "snd (spec_step w x sp)"
  have h: "w < length (tm_transactions (ts_tm d))" "parse q = Inr (sql_statement x)" "sql_ok w x sp" using Cons.prems(2,3) y by auto
  have so: "session_ok w sp ?s" using Cons.prems(4) h(1) by (simp add: session_ok_def outputs_ok_def)
  obtain s' where s': "handle_packet parse fuel w db (QueryPacket q) ?s = (Inr (), s')" "takes_step n i b (length xs + k) w x sp ?s s'"
    using packet_step [of db parse q x w sp ?s n i b "length xs + k" fuel, OF db h(2,3) so] h(1) Cons.prems(1,5) by auto
  let ?d = "ss_db s'" and ?ss = "ss(w := s')"
  have st: "session_ok w ?sp s'" "refines n i b (length xs + k) (length xs + k) (length xs + k) ?sp ?d" "nitems (bm_pages ?d b) \<le> Suc (nitems (bm_pages d b))"
    "length (tm_transactions (ts_tm ?d)) = length (tm_transactions (ts_tm d))"
    "out_bytes (ss_sock s') = out_bytes (ss_sock (ss w)) @ images (reply_packets (fst (spec_step w x sp)))"
    using s'(2) by (simp_all add: takes_step_def)
  have ses: "\<forall>w'<length (tm_transactions (ts_tm ?d)). session_ok w' ?sp (?ss w')"
    using Cons.prems(4) st(1,4) spec_step_other by (simp add: session_ok_def)
  have rest: "nitems (bm_pages ?d b) + length xs < fuel" "spec_ok (map (\<lambda>(w, q, x). (w, x)) xs) ?sp"
    "\<forall>(w, q, x)\<in>set xs. w < length (tm_transactions (ts_tm ?d)) \<and> parse q = Inr (sql_statement x)"
    using Cons.prems(1-3) st(3,4) y by auto
  obtain d' ss' where IH: "serve parse fuel db (map (\<lambda>(w, q, x). (w, q)) xs) ?d ?ss = (Inr (), d', ss')"
    "refines n i b k k k (snd (spec_run (map (\<lambda>(w, q, x). (w, x)) xs) ?sp)) d'" "length (tm_transactions (ts_tm d')) = length (tm_transactions (ts_tm ?d))"
    "\<forall>w'<length (tm_transactions (ts_tm ?d)). session_ok w' (snd (spec_run (map (\<lambda>(w, q, x). (w, x)) xs) ?sp)) (ss' w') \<and>
      out_bytes (ss_sock (ss' w')) = out_bytes (ss_sock (?ss w')) @ images (concat (map reply_packets (replies_to w' (fst (spec_run (map (\<lambda>(w, q, x). (w, x)) xs) ?sp)))))"
    using Cons.IH [of ?d ?sp ?ss, OF rest(1,3,2) ses st(2)] by blast
  have "serve parse fuel db (map (\<lambda>(w, q, x). (w, q)) (y # xs)) d ss = (Inr (), d', ss')" using s'(1) IH(1) by (simp add: y)
  moreover have "out_bytes (ss_sock (ss' w')) = out_bytes (ss_sock (ss w')) @ images (concat (map reply_packets (replies_to w' (fst (spec_run (map (\<lambda>(w, q, x). (w, x)) (y # xs)) sp)))))"
    if "w' < length (tm_transactions (ts_tm d))" for w'
    using IH(4) that st(4,5) by (cases "w' = w") (simp_all add: y replies_to_def spec_run_Cons del: spec_run.simps(2))
  ultimately show ?case using IH(2-4) st(4) by (intro exI [of _ d'] exI [of _ ss']) (simp add: y spec_run_Cons del: spec_run.simps(2))
qed

section \<open>Isolation\<close>

lemma example_refines:
  "refines 0 0 0 5 5 5 \<lparr>sp_csn = 5, sp_slots = [], sp_tx = (\<lambda>_. None)\<rparr> (example_heap\<lparr>ts_tm := new_TransactionManager 2\<rparr>)"
proof -
  let ?d = "example_heap\<lparr>ts_tm := new_TransactionManager 2\<rparr>" and ?p = "Init (replicate PageSize 0)"
  note r = rel_path_1
  have p: "lowerN ?p = 12" "upperN ?p = 8192" "wf_page ?p" "abs_page ?p = []"
    using Init_bounds [of "replicate PageSize 0"] Init_wf [of "replicate PageSize 0"] by simp_all
  have len: "length ?p = PageSize" using p(3) by (simp add: wf_page_def wf_header_def)
  have pr: "page_ready 0 0 0 1000 [] ?d" by (rule example_page_ready)
  have o: "wal_path (ws_wal ?d) = ''wal''" "wal_end (ws_wal ?d) = 0" "ul_path (us_undo ?d) = ''undo''" "os_files ?d ''data/1'' = Some ?p" "bm_pages ?d 0 = ?p"
    by (simp_all add: example_heap_def example_trans_def example_undo_def)
  have m: "ts_tm ?d = new_TransactionManager 2" "tm_csn (new_TransactionManager 2) = 5" "tm_xid (new_TransactionManager 2) = 1" "\<not> tm_mutex (new_TransactionManager 2)"
    "Csn_IsNormal (tm_csn (new_TransactionManager 2))" "\<And>w. trans_of (new_TransactionManager 2) w = None"
    by (simp_all add: new_TransactionManager_def Csn_IsNormal_def Csn_Min_def Xid_Min_def trans_of_def)
  have "server_ok 0 0 0 5 5 5 ?d"
    unfolding server_ok_def MainTableId_def r o m using pr p len m(2-5) by (simp add: page_ready_def MainTableId_def) (simp add: PageSize_def)
  moreover have "undo_inv 1000 ?d []" using pr by (simp add: page_ready_def)
  moreover have "spec_rel (ts_tm ?d) [] (bm_pages ?d 0) \<lparr>sp_csn = 5, sp_slots = [], sp_tx = (\<lambda>_. None)\<rparr>"
    unfolding o m spec_rel_def using p(4) m(2,6) by (simp add: tx_rel_def)
  ultimately show ?thesis unfolding refines_def by (intro conjI exI [of _ 1000] exI [of _ "[]"]) simp_all
qed

text \<open>Worker 0 inserts a row in a transaction; worker 1 reads the table before and after the commit.\<close>

definition example_queries :: "(nat \<times> string \<times> sql) list" where
  "example_queries = [(0, ''BEGIN'', SqlBegin), (0, ''INSERT'', SqlInsert [example_literal 5, example_literal 70000]), (1, ''SELECT'', SqlSelect),
     (0, ''COMMIT'', SqlCommit), (1, ''SELECT'', SqlSelect)]"

definition example_server_parse :: "string \<Rightarrow> SQLStatement res" where
  "example_server_parse q = (case map_of (map snd example_queries) q of None \<Rightarrow> Inl (ParserError ''syntax'') | Some x \<Rightarrow> Inr (sql_statement x))"

lemma example_spec_run:
  "fst (spec_run (map (\<lambda>(w, q, x). (w, x)) example_queries) \<lparr>sp_csn = 5, sp_slots = [], sp_tx = (\<lambda>_. None)\<rparr>) =
    [(0, CommandReply ''BEGIN'' (- 1)), (0, CommandReply ''INSERT'' 1), (1, TableReply [''a'', ''b''] [] ''SELECT'' 0),
     (0, CommandReply ''COMMIT'' (- 1)), (1, TableReply [''a'', ''b''] [[Some ''5'', Some ''4464'']] ''SELECT'' 1)]"
proof -
  have "sql_row [example_literal 5, example_literal 70000] = (Some 5, Some 4464)"
    by (simp add: sql_row_def example_literal_def literal_int_def literal_value_def)
  moreover have "nat_to_string 5 = ''5''" "nat_to_string 4464 = ''4464''" by (simp_all add: nat_to_string_eval)
  ultimately show ?thesis
    by (simp add: example_queries_def Let_def spec_enter_def spec_leave_def spec_begin_def spec_commit_def spec_statement_def spec_insert_def spec_rows_def
      spec_sees_def spec_end_def row_text_def int_to_string_def)
qed


text \<open>
  C1. Sessions are isolated: whatever way the queries of the workers' sessions follow each other (\<open>BEGIN\<close>, \<open>COMMIT\<close>,
  \<open>ROLLBACK\<close>, \<open>INSERT\<close> of two literals and \<open>SELECT\<close>, inside and outside transactions), every session answers
  what snapshot isolation prescribes. A row is seen by the transaction that inserted it at once, by
  others when it was committed before their first statement, and by nobody after a rollback; the rows come in
  the order of their insertion. The table has one cached page, with room for the rows and in the
  logs, and \<open>COMMIT\<close> is sent only inside a transaction: outside one the server stops.
\<close>

theorem sessions_isolated:
  assumes "setupDatabase = Inr db" "nitems (bm_pages d b) + length xs < fuel"
    and "\<forall>(w, q, x)\<in>set xs. w < length (tm_transactions (ts_tm d)) \<and> parse q = Inr (sql_statement x)"
    and "spec_ok (map (\<lambda>(w, q, x). (w, x)) xs) sp" "\<forall>w<length (tm_transactions (ts_tm d)). session_ok w sp (ss w)"
    and "refines n i b (length xs + k) (length xs + k) (length xs + k) sp d"
  shows "\<exists>d' ss'. serve parse fuel db (map (\<lambda>(w, q, x). (w, q)) xs) d ss = (Inr (), d', ss') \<and>
    refines n i b k k k (snd (spec_run (map (\<lambda>(w, q, x). (w, x)) xs) sp)) d' \<and>
    (\<forall>w<length (tm_transactions (ts_tm d)). session_ok w (snd (spec_run (map (\<lambda>(w, q, x). (w, x)) xs) sp)) (ss' w) \<and>
      out_bytes (ss_sock (ss' w)) = out_bytes (ss_sock (ss w)) @ images (concat (map reply_packets (replies_to w (fst (spec_run (map (\<lambda>(w, q, x). (w, x)) xs) sp))))))"
  using serve_refines [of db d b xs fuel parse sp ss n i k, OF assms] by blast

theorem sessions_isolated_witness:
  "\<exists>d' ss'. serve example_server_parse 6 main_database (map (\<lambda>(w, q, x). (w, q)) example_queries) (example_heap\<lparr>ts_tm := new_TransactionManager 2\<rparr>)
      (\<lambda>_. example_reading) = (Inr (), d', ss') \<and>
    out_bytes (ss_sock (ss' 1)) = images (table_packets [''a'', ''b''] [] @ [CommandCompletePacket ''SELECT'' 0] @
      table_packets [''a'', ''b''] [[Some ''5'', Some ''4464'']] @ [CommandCompletePacket ''SELECT'' 1])"
proof -
  let ?d = "example_heap\<lparr>ts_tm := new_TransactionManager 2\<rparr>" and ?sp = "\<lparr>sp_csn = 5, sp_slots = [], sp_tx = (\<lambda>_. None)\<rparr>" and ?xs = "map (\<lambda>(w, q, x). (w, x)) example_queries"
  have w: "length (tm_transactions (ts_tm ?d)) = 2" by (simp add: new_TransactionManager_def)
  have p: "nitems (bm_pages ?d 0) = 0" using example_reading(5) by (simp add: example_reading_def example_session_def)
  have l: "length example_queries = 5" by (simp add: example_queries_def)
  have q: "\<forall>(w, q, x)\<in>set example_queries. w < length (tm_transactions (ts_tm ?d)) \<and> example_server_parse q = Inr (sql_statement x)"
    unfolding w by (simp add: example_queries_def example_server_parse_def)
  have ok: "spec_ok ?xs ?sp"
    by (simp add: example_queries_def spec_begin_def spec_enter_def spec_leave_def spec_statement_def spec_insert_def spec_commit_def row_values_ok_def is_literal_def example_literal_def Let_def)
  have so: "\<forall>w<length (tm_transactions (ts_tm ?d)). session_ok w ?sp example_reading" using example_reading by (simp add: session_ok_def)
  have r: "refines 0 0 0 (length example_queries + 0) (length example_queries + 0) (length example_queries + 0) ?sp ?d" using example_refines by (simp add: l)
  obtain d' ss' where "serve example_server_parse 6 main_database (map (\<lambda>(w, q, x). (w, q)) example_queries) ?d (\<lambda>_. example_reading) = (Inr (), d', ss')"
    "\<forall>w<length (tm_transactions (ts_tm ?d)). session_ok w (snd (spec_run ?xs ?sp)) (ss' w) \<and>
      out_bytes (ss_sock (ss' w)) = out_bytes (ss_sock example_reading) @ images (concat (map reply_packets (replies_to w (fst (spec_run ?xs ?sp)))))"
    using sessions_isolated [of main_database ?d 0 example_queries 6 example_server_parse ?sp "\<lambda>_. example_reading" 0 0 0, OF setupDatabase_eq _ q ok so r] p l by auto
  then show ?thesis using example_reading(4) example_spec_run unfolding w by (intro exI [of _ d'] exI [of _ ss']) (simp add: replies_to_def)
qed

end
