(* ===== verification/Mimi_SQLParser.thy ===== *)
theory Mimi_SQLParser
  imports Mimi_SessionTrans
begin

text \<open>
  The parser as a session calls it (\<open>parser/SQLParser.cpp\<close>) over the result object and the entry point of the
  vendored library (\<open>SQLParserResult.cpp\<close>, \<open>SQLParser.cpp\<close>). The generated automaton is an argument:
  whether the lexer could be initialised, and what \<open>hsql_parse\<close> returns and leaves in the result for a text.
\<close>

section \<open>The library\<close>

record SQLParserResult =
  pr_statements :: "SQLStatement list"
  pr_isValid :: bool
  pr_errorMsg :: "string option"

definition new_SQLParserResult :: SQLParserResult where
  "new_SQLParserResult = \<lparr>pr_statements = [], pr_isValid = False, pr_errorMsg = None\<rparr>"

definition extractStatement :: "nat \<Rightarrow> SQLParserResult \<Rightarrow> (SQLStatement \<times> SQLParserResult) res" where
  "extractStatement index result = bindR (vec_at (pr_statements result) index) (\<lambda>st.
     Inr (st, result\<lparr>pr_statements := take index (pr_statements result) @ drop (Suc index) (pr_statements result)\<rparr>))"

record hsql_automaton =
  lex_init_ok :: bool
  hsql_yyparse :: "string \<Rightarrow> SQLParserResult \<Rightarrow> int \<times> SQLParserResult"

text \<open>The text of the query ends at its first zero.\<close>

definition hsql_parse :: "hsql_automaton \<Rightarrow> string \<Rightarrow> SQLParserResult \<Rightarrow> bool \<times> SQLParserResult" where
  "hsql_parse a sql result = (if \<not> lex_init_ok a then (False, result)
     else case hsql_yyparse a (takeWhile (\<lambda>c. c \<noteq> CHR 0x00) sql) result of (ret, r) \<Rightarrow> (True, r\<lparr>pr_isValid := ret = 0\<rparr>))"

section \<open>ParseStatement\<close>

definition ParseStatement :: "hsql_automaton \<Rightarrow> string \<Rightarrow> SQLStatement res" where
  "ParseStatement a query = (case hsql_parse a query new_SQLParserResult of (ok, result) \<Rightarrow>
     if \<not> ok then Inl (ParserError ''failed to initialize lex'')
     else if \<not> pr_isValid result then
       (case pr_errorMsg result of None \<Rightarrow> Inl (Undefined ''string from a null pointer'') | Some m \<Rightarrow> Inl (ParserError m))
     else if length (pr_statements result) \<noteq> 1 then Inl (ParserError ''only 1 statement at a time supported'')
     else bindR (extractStatement 0 result) (\<lambda>(st, _). Inr st))"

section \<open>Queries a session refuses\<close>

text \<open>What the automaton makes of a query.\<close>

definition automaton_result :: "hsql_automaton \<Rightarrow> string \<Rightarrow> int \<times> SQLParserResult" where
  "automaton_result a q = hsql_yyparse a (takeWhile (\<lambda>c. c \<noteq> CHR 0x00) q) new_SQLParserResult"

definition refusal :: "hsql_automaton \<Rightarrow> string \<Rightarrow> string option" where
  "refusal a q = (if \<not> lex_init_ok a then Some ''failed to initialize lex''
     else case automaton_result a q of (ret, r) \<Rightarrow>
       if ret \<noteq> 0 then pr_errorMsg r else if length (pr_statements r) = 1 then None else Some ''only 1 statement at a time supported'')"

text \<open>The automaton reports a message with every failure.\<close>

definition reports_errors :: "hsql_automaton \<Rightarrow> bool" where
  "reports_errors a \<longleftrightarrow> (\<forall>q. fst (automaton_result a q) \<noteq> 0 \<longrightarrow> pr_errorMsg (snd (automaton_result a q)) \<noteq> None)"

lemma refusal_None: "reports_errors a \<Longrightarrow> refusal a q = None \<Longrightarrow> length (pr_statements (snd (automaton_result a q))) = 1"
  unfolding reports_errors_def refusal_def by (drule spec [of _ q]) (cases "automaton_result a q", auto split: if_splits)

lemma ParseStatement_refusal:
  assumes "reports_errors a"
  shows "ParseStatement a q = (case refusal a q of Some m \<Rightarrow> Inl (ParserError m) | None \<Rightarrow> Inr (hd (pr_statements (snd (automaton_result a q)))))"
proof -
  obtain ret r where r: "automaton_result a q = (ret, r)" by fastforce
  show ?thesis
  proof (cases "lex_init_ok a \<and> ret = 0 \<and> length (pr_statements r) = 1")
    case True
    then obtain st where "pr_statements r = [st]" by (cases "pr_statements r") auto
    then show ?thesis using True r by (simp add: ParseStatement_def refusal_def hsql_parse_def extractStatement_def automaton_result_def vec_at_def)
  next
    case False
    moreover have "ret \<noteq> 0 \<longrightarrow> pr_errorMsg r \<noteq> None" using assms r by (metis fst_conv snd_conv reports_errors_def)
    ultimately show ?thesis using r by (auto simp: ParseStatement_def refusal_def hsql_parse_def automaton_result_def)
  qed
qed

text \<open>
  C39. A query that the parser refuses, because it cannot start, because of a syntax error or because the text
  is not exactly one statement, changes nothing in the database outside a transaction; the client gets
  exactly one error with the parser's message, and the session goes on. Inside a transaction of the user
  the transaction is marked \<open>ABORTED\<close>. A query that is accepted is executed as its only statement.
\<close>

theorem refused_query_answered:
  assumes "reports_errors a" "alive (ss_sock s)"
    and "\<forall>m. refusal a q = Some m \<longrightarrow> packet_fits (ErrorResponsePacket m)" "ss_mine s \<longrightarrow> trans_of (ts_tm (ss_db s)) w = Some t"
  shows "case refusal a q of
     Some m \<Rightarrow> \<exists>c. handle_packet (ParseStatement a) fuel w db (QueryPacket q) s =
        (Inr (), s\<lparr>ss_db := if ss_mine s then (ss_db s)\<lparr>ts_tm := set_slot w (Some (t\<lparr>tr_status := ABORTED\<rparr>)) (ts_tm (ss_db s))\<rparr> else ss_db s, ss_sock := c\<rparr>) \<and>
        alive c \<and> out_bytes c = out_bytes (ss_sock s) @ packet_image (ErrorResponsePacket m)
   | None \<Rightarrow> \<exists>st. pr_statements (snd (automaton_result a q)) = [st] \<and>
        handle_packet (ParseStatement a) fuel w db (QueryPacket q) s = handle_packet (\<lambda>_. Inr st) fuel w db (QueryPacket q) s"
proof (cases "refusal a q")
  case None
  then have "length (pr_statements (snd (automaton_result a q))) = 1" using refusal_None [OF assms(1)] by blast
  then obtain st where "pr_statements (snd (automaton_result a q)) = [st]" by (cases "pr_statements (snd (automaton_result a q))") auto
  then show ?thesis using None ParseStatement_refusal [OF assms(1), of q] by (simp add: handle_packet_def dispatch_query_def)
next
  case (Some m)
  then have f: "dispatch_query (ParseStatement a) fuel w db q s = (Inl (ParserError m), s)"
    using ParseStatement_refusal [OF assms(1), of q] by (simp add: dispatch_query_def bindM_def liftR_def)
  have fits: "packet_fits (ErrorResponsePacket (exn_what (ParserError m)))" using assms(3) Some by (simp add: exn_what_def)
  show ?thesis
  proof (cases "ss_mine s")
    case True
    then show ?thesis using ABORTED_run [OF f _ True _ assms(2) fits] assms(4) Some by (simp add: exn_what_def)
  next
    case False
    then show ?thesis using send_ok [OF fits assms(2)] f Some
      by (auto simp: handle_packet_def catchM_def query_failed_def SendError_def bindM_def thenM_def getM_def retM_def exn_what_def)
  qed
qed

text \<open>An automaton that knows two statements and reports a syntax error for other texts.\<close>

definition example_automaton :: hsql_automaton where
  "example_automaton = \<lparr>lex_init_ok = True, hsql_yyparse = (\<lambda>q r.
     if q = ''BEGIN'' then (0, r\<lparr>pr_statements := [kStmtTransaction kBeginTransaction]\<rparr>)
     else if q = ''BEGIN;COMMIT'' then (0, r\<lparr>pr_statements := [kStmtTransaction kBeginTransaction, kStmtTransaction kCommitTransaction]\<rparr>)
     else (1, r\<lparr>pr_errorMsg := Some ''syntax error''\<rparr>))\<rparr>"

theorem refused_query_answered_witness:
  "refusal example_automaton ''BEGIN;COMMIT'' = Some ''only 1 statement at a time supported'' \<and>
   (\<exists>c. handle_packet (ParseStatement example_automaton) 1 0 main_database (QueryPacket ''BEGIN;COMMIT'') (example_session False example_heap) =
      (Inr (), (example_session False example_heap)\<lparr>ss_sock := c\<rparr>) \<and>
      out_bytes c = packet_image (ErrorResponsePacket ''only 1 statement at a time supported''))"
proof -
  have r: "refusal example_automaton ''BEGIN;COMMIT'' = Some ''only 1 statement at a time supported''"
    by (simp add: refusal_def automaton_result_def example_automaton_def)
  have "reports_errors example_automaton" by (simp add: reports_errors_def automaton_result_def example_automaton_def)
  moreover have "packet_fits (ErrorResponsePacket ''only 1 statement at a time supported'')" by (simp add: packet_fits_def getStringSize_def)
  ultimately show ?thesis using refused_query_answered [of example_automaton "example_session False example_heap" "''BEGIN;COMMIT''" 0 undefined 1 main_database] r
    by (auto simp: example_alive) (auto simp: example_session_def example_sock_def)
qed

end
