(* ===== verification/Mimi_Cluster.thy ===== *)
theory Mimi_Cluster
  imports Mimi_Planning
begin

text \<open>
  The server process around the sessions: the workers (\<open>worker/Worker.cpp\<close>, \<open>worker/WorkerManager.cpp\<close>), the
  start of the cluster (\<open>cluster_state.cpp\<close>, \<open>mi_config.hpp\<close>) and the pool of workers as a state machine of
  accepted connections and ending sessions. The end of the process by \<open>exit\<close> is \<open>AssertFail\<close>.
\<close>

section \<open>Workers\<close>

definition WorkerId_Invalid :: int where "WorkerId_Invalid = - 1"

definition WorkerId_IsValid :: "int \<Rightarrow> bool" where "WorkerId_IsValid i \<longleftrightarrow> i \<noteq> WorkerId_Invalid"

text \<open>
  The thread of a worker: never started, serving a socket, past its last statement but not yet ended,
  or ended and not joined.
\<close>

datatype worker_thread = NoThread | Serving int | Leaving | Ended

definition joinable :: "worker_thread \<Rightarrow> bool" where "joinable t \<longleftrightarrow> t \<noteq> NoThread"

record Worker =
  wk_id :: int
  wk_thread :: worker_thread
  wk_busy :: bool

text \<open>No constructor sets \<open>_busy\<close>: what the memory held is an argument.\<close>

definition new_Worker :: "int \<Rightarrow> bool \<Rightarrow> Worker res" where
  "new_Worker i held = bindR (assertR ''id.IsValid()'' (WorkerId_IsValid i)) (\<lambda>_. Inr \<lparr>wk_id = i, wk_thread = NoThread, wk_busy = held\<rparr>)"

definition IsBusy :: "Worker \<Rightarrow> bool" where "IsBusy wk = wk_busy wk"

definition SetBusy :: "Worker \<Rightarrow> Worker" where "SetBusy wk = wk\<lparr>wk_busy := True\<rparr>"

text \<open>Waiting for a thread that has not ended is \<open>Blocked\<close>.\<close>

definition thread_join :: "worker_thread \<Rightarrow> unit res" where
  "thread_join t = (if t = Ended then Inr () else Inl (Blocked ''join''))"

definition Submit :: "int \<Rightarrow> Worker \<Rightarrow> Worker res" where
  "Submit fd wk =
     (if wk_busy wk then Inl (LogicError ''Can not submit handler because worker already running'')
      else bindR (if joinable (wk_thread wk) then thread_join (wk_thread wk) else Inr ()) (\<lambda>_.
        Inr (wk\<lparr>wk_busy := True, wk_thread := Serving fd\<rparr>)))"

section \<open>WorkerManager\<close>

definition new_WorkerManager :: "(nat \<Rightarrow> bool) \<Rightarrow> nat \<Rightarrow> Worker list res" where
  "new_WorkerManager held workersCount =
     bindR (foldR (\<lambda>i ws. bindR (new_Worker (int i) (held i)) (\<lambda>wk. Inr (ws @ [wk]))) [0..<workersCount] []) (\<lambda>ws.
     bindR (vec_at ws 0) (\<lambda>wk. Inr (ws[0 := SetBusy wk])))"

definition GetWorker :: "Worker list \<Rightarrow> int \<Rightarrow> nat res" where
  "GetWorker ws i = bindR (assertR ''id.IsValid()'' (WorkerId_IsValid i)) (\<lambda>_.
     bindR (assertR ''static_cast<size_t>(id.value) < this->_workers.size()'' (0 \<le> i \<and> nat i < length ws)) (\<lambda>_. Inr (nat i)))"

definition find_free :: "Worker list \<Rightarrow> nat option" where
  "find_free ws = List.find (\<lambda>i. \<not> IsBusy (ws ! i)) [0..<length ws]"

definition StartNewSession :: "int \<Rightarrow> Worker list \<Rightarrow> (bool \<times> Worker list) res" where
  "StartNewSession fd ws = (case find_free ws of
     None \<Rightarrow> Inr (False, ws)
   | Some i \<Rightarrow> bindR (Submit fd (ws ! i)) (\<lambda>wk. Inr (True, ws[i := wk])))"

text \<open>The last statement of \<open>HandleUserConnectionGuts\<close>, and the end of the thread.\<close>

definition mark_free :: "int \<Rightarrow> Worker list \<Rightarrow> Worker list res" where
  "mark_free i ws = bindR (GetWorker ws i) (\<lambda>j. Inr (ws[j := (ws ! j)\<lparr>wk_busy := False, wk_thread := Leaving\<rparr>]))"

text \<open>
  The pool: the main thread accepts a connection and ignores whether a session started, a session ends,
  a thread ends. A main thread that must join the old thread of the worker it has found waits; \<open>joined\<close> is what
  it does then, with that worker, whichever workers have become free in the meantime.
\<close>

inductive pool_step :: "Worker list \<Rightarrow> Worker list \<Rightarrow> bool" where
  accept: "StartNewSession fd ws = Inr (started, ws') \<Longrightarrow> pool_step ws ws'"
| joined: "i < length ws \<Longrightarrow> Submit fd (ws ! i) = Inr wk \<Longrightarrow> pool_step ws (ws[i := wk])"
| finish: "i < length ws \<Longrightarrow> wk_thread (ws ! i) = Serving fd \<Longrightarrow> mark_free (wk_id (ws ! i)) ws = Inr ws' \<Longrightarrow> pool_step ws ws'"
| thread_end: "i < length ws \<Longrightarrow> wk_thread (ws ! i) = Leaving \<Longrightarrow> pool_step ws (ws[i := (ws ! i)\<lparr>wk_thread := Ended\<rparr>])"

inductive_cases pool_stepE: "pool_step ws ws'"

inductive pool_reachable :: "(nat \<Rightarrow> bool) \<Rightarrow> nat \<Rightarrow> Worker list \<Rightarrow> bool" for held n where
  start: "new_WorkerManager held n = Inr ws \<Longrightarrow> pool_reachable held n ws"
| step: "pool_reachable held n ws \<Longrightarrow> pool_step ws ws' \<Longrightarrow> pool_reachable held n ws'"

section \<open>The start of the cluster\<close>

datatype errno = EEXIST | ENOENT | EIO

definition sys_stat :: "string \<Rightarrow> ('x os_state_scheme, errno + nat) cm" where
  "sys_stat path = bindM next_outcome (\<lambda>r. getM (\<lambda>s. case r of
     IoError \<Rightarrow> Inl EIO
   | _ \<Rightarrow> (case os_files s path of None \<Rightarrow> Inl ENOENT | Some c \<Rightarrow> Inr (length c))))"

definition sys_creat :: "string \<Rightarrow> ('x os_state_scheme, bool) cm" where
  "sys_creat path = bindM next_outcome (\<lambda>r. case r of
     IoError \<Rightarrow> retM False | _ \<Rightarrow> thenM (updM (put_file path [])) (retM True))"

definition sys_truncate :: "string \<Rightarrow> ('x os_state_scheme, bool) cm" where
  "sys_truncate path = bindM next_outcome (\<lambda>r. case r of
     IoError \<Rightarrow> retM False | _ \<Rightarrow> thenM (updM (put_file path [])) (retM True))"

definition exit_1 :: "('s, 'a) cm" where
  "exit_1 = raiseM (AssertFail ''exit(1)'')"

definition creat_or_exit :: "string \<Rightarrow> ('x os_state_scheme, unit) cm" where
  "creat_or_exit path = bindM (sys_creat path) (\<lambda>ok. if ok then retM () else exit_1)"

definition setup_data :: "('x os_state_scheme, unit) cm" where
  "setup_data = bindM (sys_stat ''data/1'') (\<lambda>r. case r of
     Inl e \<Rightarrow> if e = EEXIST then creat_or_exit ''data/1'' else exit_1
   | Inr st_size \<Rightarrow> if 0 < st_size then bindM (sys_truncate ''data/1'') (\<lambda>ok. if ok then retM () else exit_1) else retM ())"

definition setupStorage :: "('x os_state_scheme, unit) cm" where
  "setupStorage = thenM setup_data (thenM (creat_or_exit ''undo'') (creat_or_exit ''wal''))"

definition setupResourceManagers :: "('x undo_state_scheme, unit) cm" where
  "setupResourceManagers = bindM (liftR (RegisterManager RMgr_Heap HeapResourceManager (replicate MaxResourceManagers None))) (\<lambda>manager.
     updM (\<lambda>s. s\<lparr>us_registry := manager\<rparr>))"

definition setupDirectory :: "bool \<Rightarrow> string \<Rightarrow> ('s, unit) cm" where
  "setupDirectory chdir_ok datadir = (if datadir = [] then raiseM (LogicError ''Data directory is not specified'')
     else if \<not> chdir_ok then raiseM (RuntimeError ''could not change directory'') else retM ())"

definition setupMasterWorker :: "Worker list \<Rightarrow> nat res" where
  "setupMasterWorker ws = GetWorker ws 0"

text \<open>
  The files of the state are those of the data directory. The result is the workers and the database; the
  other globals are parts of the state. The first call, of \<open>setupLogger\<close>, acts on the files of the directory the
  process was started in: it is in \<open>Mimi_Logger\<close>, and \<open>server_start\<close> of \<open>Mimi_Server\<close> makes it before this.
\<close>

definition setupCluster :: "(nat \<Rightarrow> bool) \<Rightarrow> (PageTag \<Rightarrow> nat) \<Rightarrow> bool \<Rightarrow> string \<Rightarrow> (trans_state, Worker list \<times> Database) cm" where
  "setupCluster held hash chdir_ok datadir =
     thenM (setupDirectory chdir_ok datadir) (
     thenM setupResourceManagers (
     bindM (liftR setupDatabase) (\<lambda>db.
     thenM setupStorage (
     bindM (liftR (new_WorkerManager held MaxWorkers)) (\<lambda>ws.
     thenM (updM (\<lambda>s. s\<lparr>ts_tm := new_TransactionManager MaxWorkers\<rparr>)) (
     thenM (BufferManager_init hash (word_of_nat BufferPoolSize)) (
     bindM (UndoLog_Open ''undo'') (\<lambda>undo. thenM (updM (\<lambda>s. s\<lparr>us_undo := undo\<rparr>)) (
     bindM (WAL_Open ''wal'') (\<lambda>wal. thenM (updM (\<lambda>s. s\<lparr>ws_wal := wal\<rparr>)) (
     bindM (liftR (setupMasterWorker ws)) (\<lambda>master. retM (ws, db)))))))))))))"

section \<open>The workers of the pool\<close>

lemma new_workers:
  "foldR (\<lambda>i ws. bindR (new_Worker (int i) (held i)) (\<lambda>wk. Inr (ws @ [wk]))) [0..<n] [] =
    Inr (map (\<lambda>i. \<lparr>wk_id = int i, wk_thread = NoThread, wk_busy = held i\<rparr>) [0..<n])"
  by (induction n) (simp_all add: foldR_append new_Worker_def WorkerId_IsValid_def WorkerId_Invalid_def)

lemma new_WorkerManager_eq:
  "0 < n \<Longrightarrow> new_WorkerManager held n = Inr (map (\<lambda>i. \<lparr>wk_id = int i, wk_thread = NoThread, wk_busy = held i \<or> i = 0\<rparr>) [0..<n])"
  by (auto simp: new_WorkerManager_def new_workers SetBusy_def nth_list_update intro!: nth_equalityI)

text \<open>
  The invariant: the workers have their numbers; the master is busy and has no thread; the workers that
  were constructed busy stay so, without a thread; the others are busy exactly while they serve.
\<close>

definition pool_ok :: "(nat \<Rightarrow> bool) \<Rightarrow> nat \<Rightarrow> Worker list \<Rightarrow> bool" where
  "pool_ok held n ws \<longleftrightarrow> length ws = n \<and> (\<forall>i<n. wk_id (ws ! i) = int i \<and>
     (if i = 0 \<or> held i then wk_busy (ws ! i) \<and> wk_thread (ws ! i) = NoThread
      else wk_busy (ws ! i) = (\<exists>fd. wk_thread (ws ! i) = Serving fd)))"

lemma pool_ok_update: "pool_ok held n ws \<Longrightarrow> i < n \<Longrightarrow> i \<noteq> 0 \<Longrightarrow> \<not> held i \<Longrightarrow> wk_id wk = int i \<Longrightarrow> wk_busy wk = (\<exists>fd. wk_thread wk = Serving fd) \<Longrightarrow>
    pool_ok held n (ws[i := wk])"
  by (simp add: pool_ok_def nth_list_update)

lemma find_free_Some: "find_free ws = Some i \<Longrightarrow> i < length ws \<and> \<not> wk_busy (ws ! i) \<and> (\<forall>j<i. wk_busy (ws ! j))"
  by (auto simp: find_free_def find_Some_iff IsBusy_def)

lemma find_free_None: "find_free ws = None \<longleftrightarrow> (\<forall>i<length ws. wk_busy (ws ! i))"
  by (auto simp: find_free_def find_None_iff IsBusy_def)

lemma Submit_Inr: "Submit fd wk = Inr wk' \<longleftrightarrow> \<not> wk_busy wk \<and> wk_thread wk \<in> {NoThread, Ended} \<and> wk' = wk\<lparr>wk_busy := True, wk_thread := Serving fd\<rparr>"
  by (cases "wk_thread wk") (auto simp: Submit_def joinable_def thread_join_def bindR_eq_Inr_iff)

lemma pool_ok_submit:
  assumes "pool_ok held n ws" "i < length ws" "Submit fd (ws ! i) = Inr wk"
  shows "pool_ok held n (ws[i := wk])"
proof -
  have "i < n" "i \<noteq> 0" "\<not> held i" "wk_id (ws ! i) = int i" using assms by (auto simp: pool_ok_def Submit_Inr split: if_splits)
  then show ?thesis using pool_ok_update [OF assms(1)] assms(3) by (simp add: Submit_Inr)
qed

lemma pool_ok_step: "pool_step ws ws' \<Longrightarrow> pool_ok held n ws \<Longrightarrow> pool_ok held n ws'"
proof (induction rule: pool_step.induct)
  case (accept fd ws started ws')
  show ?case
  proof (cases "find_free ws")
    case None
    then show ?thesis using accept by (simp add: StartNewSession_def)
  next
    case (Some i)
    then show ?thesis using accept find_free_Some [OF Some] pool_ok_submit [OF accept.prems, of i fd]
      by (auto simp: StartNewSession_def bindR_eq_Inr_iff)
  qed
next
  case (joined i ws fd wk)
  then show ?case using pool_ok_submit by blast
next
  case (finish i ws fd ws')
  then have i: "i < n" "i \<noteq> 0" "\<not> held i" "wk_id (ws ! i) = int i" "length ws = n" by (auto simp: pool_ok_def split: if_splits)
  then have "ws' = ws[i := (ws ! i)\<lparr>wk_busy := False, wk_thread := Leaving\<rparr>]"
    using finish.hyps(3) by (simp add: mark_free_def GetWorker_def WorkerId_IsValid_def WorkerId_Invalid_def)
  then show ?case using pool_ok_update [OF finish.prems i(1-3)] i(4) by simp
next
  case (thread_end i ws)
  then have i: "i < n" "i \<noteq> 0" "\<not> held i" "wk_id (ws ! i) = int i" "\<not> wk_busy (ws ! i)" by (auto simp: pool_ok_def split: if_splits)
  then show ?case using pool_ok_update [OF thread_end.prems i(1-3)] by simp
qed

lemma pool_reachable_ok: "pool_reachable held n ws \<Longrightarrow> 0 < n \<Longrightarrow> pool_ok held n ws"
proof (induction rule: pool_reachable.induct)
  case (start ws)
  then show ?case by (auto simp: new_WorkerManager_eq pool_ok_def)
next
  case (step ws ws')
  then show ?case using pool_ok_step by blast
qed

text \<open>
  C16. The pool of workers, in every reachable state: a worker is busy exactly while it serves a connection,
  the master and the workers whose flag was set in the memory they were constructed in never
  serve. A new connection goes to the first worker that does not serve, which first joins its old thread;
  when every worker serves or cannot serve, the connection is dropped and nothing changes.
\<close>

theorem worker_pool:
  assumes "pool_reachable held n ws" "0 < n"
  shows "length ws = n \<and> (\<forall>i<n. wk_busy (ws ! i) = (i = 0 \<or> held i \<or> (\<exists>fd. wk_thread (ws ! i) = Serving fd))) \<and>
    (\<forall>i<n. i = 0 \<or> held i \<longrightarrow> wk_thread (ws ! i) = NoThread) \<and>
    (case find_free ws of
       None \<Rightarrow> StartNewSession fd ws = Inr (False, ws)
     | Some i \<Rightarrow> 0 < i \<and> i < n \<and> \<not> held i \<and> (\<forall>fd. wk_thread (ws ! i) \<noteq> Serving fd) \<and>
         StartNewSession fd ws = (if wk_thread (ws ! i) = Leaving then Inl (Blocked ''join'')
           else Inr (True, ws[i := \<lparr>wk_id = int i, wk_thread = Serving fd, wk_busy = True\<rparr>])))"
proof -
  have ok: "pool_ok held n ws" using pool_reachable_ok [OF assms] .
  have "case find_free ws of
       None \<Rightarrow> StartNewSession fd ws = Inr (False, ws)
     | Some i \<Rightarrow> 0 < i \<and> i < n \<and> \<not> held i \<and> (\<forall>fd. wk_thread (ws ! i) \<noteq> Serving fd) \<and>
         StartNewSession fd ws = (if wk_thread (ws ! i) = Leaving then Inl (Blocked ''join'')
           else Inr (True, ws[i := \<lparr>wk_id = int i, wk_thread = Serving fd, wk_busy = True\<rparr>]))"
  proof (cases "find_free ws")
    case (Some i)
    then have i: "i < n" "\<not> wk_busy (ws ! i)" using find_free_Some [OF Some] ok by (auto simp: pool_ok_def)
    then have "i \<noteq> 0" "\<not> held i" "wk_id (ws ! i) = int i" "\<forall>fd. wk_thread (ws ! i) \<noteq> Serving fd" using ok by (auto simp: pool_ok_def split: if_splits)
    then show ?thesis using Some i
      by (cases "ws ! i"; cases "wk_thread (ws ! i)") (auto simp: StartNewSession_def Submit_def joinable_def thread_join_def)
  qed (simp add: StartNewSession_def)
  then show ?thesis using ok by (auto simp: pool_ok_def split: if_splits)
qed

section \<open>The start\<close>

lemma setup_data_missing: "os_files d ''data/1'' = None \<Longrightarrow> \<exists>d'. setup_data d = (Inl (AssertFail ''exit(1)''), d') \<and> os_files d' = os_files d"
  by (cases "os_script d")
    (auto simp: setup_data_def sys_stat_def next_outcome_def exit_1_def bindM_def getM_def raiseM_def split: io_outcome.split)

lemma setupStorage_ok:
  "os_files d ''data/1'' = Some content \<Longrightarrow> os_script d = [] \<Longrightarrow> setupStorage d = (Inr (), d\<lparr>os_files := (os_files d)(''data/1'' \<mapsto> [], ''undo'' \<mapsto> [], ''wal'' \<mapsto> [])\<rparr>)"
  by (cases content)
    (auto simp: setupStorage_def setup_data_def sys_stat_def sys_truncate_def creat_or_exit_def sys_creat_def next_outcome_def put_file_def
      thenM_def bindM_def getM_def retM_def updM_def fun_upd_twist map_upd_triv)

text \<open>The constructor of the buffer manager leaves the rest of the state alone.\<close>

definition globals_are :: "ResourceManagerRegistry \<times> TransactionManager \<Rightarrow> 'x trans_state_scheme \<Rightarrow> bool" where
  "globals_are v s \<longleftrightarrow> (us_registry s, ts_tm s) = v"

lemma keeps_globals: "keeps (globals_are v) (BufferManager_init hash npages)"
proof -
  have "keeps (globals_are v) (InsertMRU l i)" for l i
    unfolding InsertMRU_def entry_def list_of_def upd_entry_def upd_list_def
    by (intro keep_intros) (simp_all add: keeps_def updM_def globals_are_def)
  then have "keeps (globals_are v) (insert_free is)" for "is"
    by (induction "is") (auto intro!: keep_intros)
  then show ?thesis unfolding BufferManager_init_def
    by (intro keep_intros) (simp_all add: keeps_def updM_def globals_are_def)
qed

abbreviation heap_registry :: ResourceManagerRegistry where
  "heap_registry \<equiv> (replicate MaxResourceManagers None)[Suc 0 := Some HeapResourceManager]"

lemma setupCluster_managers:
  assumes "datadir \<noteq> []"
  shows "setupCluster held hash True datadir d = thenM setupStorage (
     bindM (liftR (new_WorkerManager held MaxWorkers)) (\<lambda>ws.
     thenM (updM (\<lambda>s. s\<lparr>ts_tm := new_TransactionManager MaxWorkers\<rparr>)) (
     thenM (BufferManager_init hash (word_of_nat BufferPoolSize)) (
     bindM (UndoLog_Open ''undo'') (\<lambda>undo. thenM (updM (\<lambda>s. s\<lparr>us_undo := undo\<rparr>)) (
     bindM (WAL_Open ''wal'') (\<lambda>wal. thenM (updM (\<lambda>s. s\<lparr>ws_wal := wal\<rparr>)) (
     bindM (liftR (setupMasterWorker ws)) (\<lambda>master. retM (ws, main_database)))))))))) (d\<lparr>us_registry := heap_registry\<rparr>)"
proof -
  have "RegisterManager RMgr_Heap HeapResourceManager (replicate MaxResourceManagers None) = Inr heap_registry"
    by (simp add: RegisterManager_def RMgr_Heap_def MaxResourceManagers_def)
  then show ?thesis
    using assms by (simp add: setupCluster_def setupDirectory_def setupResourceManagers_def setupDatabase_eq thenM_def bindM_def liftR_def retM_def updM_def)
qed

lemma cluster_started:
  assumes "datadir \<noteq> []" "os_script d = []" "os_files d ''data/1'' = Some content"
  shows "\<exists>ws db d'. setupCluster held hash True datadir d = (Inr (ws, db), d') \<and>
       setupDatabase = Inr db \<and> new_WorkerManager held MaxWorkers = Inr ws \<and>
       os_files d' = (os_files d)(''data/1'' \<mapsto> [], ''undo'' \<mapsto> [], ''wal'' \<mapsto> []) \<and> ts_tm d' = new_TransactionManager MaxWorkers \<and>
       clist d' FreeList (rev [0..<2048]) \<and> (\<forall>l. l \<noteq> FreeList \<longrightarrow> clist d' l []) \<and> bm_freeBuffers d' = rev [0..<1024] \<and>
       (\<forall>t. ht_Get (bm_map d') t = None) \<and> ul_size (us_undo d') = 0 \<and> wal_end (ws_wal d') = 0 \<and> wal_flushed (ws_wal d') = 0 \<and>
       GetManager (us_registry d') RMgr_Heap = Inr HeapResourceManager"
proof -
  let ?d1 = "\<lambda>d. d\<lparr>us_registry := heap_registry\<rparr>"
  let ?files = "(os_files d)(''data/1'' \<mapsto> [], ''undo'' \<mapsto> [], ''wal'' \<mapsto> [])"
  let ?d3 = "(?d1 d)\<lparr>os_files := ?files, ts_tm := new_TransactionManager MaxWorkers\<rparr>"
  obtain ws where ws: "new_WorkerManager held MaxWorkers = Inr ws" "length ws = MaxWorkers"
    using new_WorkerManager_eq [of MaxWorkers held] by (simp add: MaxWorkers_def)
  have m: "setupMasterWorker ws = Inr 0" using ws(2) by (simp add: setupMasterWorker_def GetWorker_def WorkerId_IsValid_def WorkerId_Invalid_def MaxWorkers_def)
  obtain d4 where d4: "BufferManager_init hash (word_of_nat BufferPoolSize) ?d3 = (Inr (), d4)" "clist d4 FreeList (rev [0..<2048])" "\<forall>l. l \<noteq> FreeList \<longrightarrow> clist d4 l []"
    "bm_freeBuffers d4 = rev [0..<1024]" "\<forall>t. ht_Get (bm_map d4) t = None" "os_files d4 = ?files"
    using BufferManager_init_ok [of "word_of_nat BufferPoolSize" hash ?d3] by (auto simp: BufferPoolSize_def)
  have g: "us_registry d4 = heap_registry" "ts_tm d4 = new_TransactionManager MaxWorkers"
    using keepsD [OF keeps_globals d4(1), of "(heap_registry, new_TransactionManager MaxWorkers)"] by (simp_all add: globals_are_def)
  let ?d' = "d4\<lparr>us_undo := \<lparr>ul_path = ''undo'', ul_size = 0\<rparr>, ws_wal := \<lparr>wal_path = ''wal'', wal_end = 0, wal_flushed = 0\<rparr>\<rparr>"
  have "setupCluster held hash True datadir d = (Inr (ws, main_database), ?d')"
    using setupStorage_ok [of "?d1 d" content] assms(2,3) ws m d4(1,6)
    by (simp add: setupCluster_managers [OF assms(1)] thenM_def bindM_def liftR_def retM_def updM_def UndoLog_Open_def WAL_Open_def File_Open_def File_Size_def getM_def file_of_def)
  moreover have "clist ?d' l xs = clist d4 l xs" for l xs by (simp add: clist_def chain_def)
  moreover have "GetManager heap_registry RMgr_Heap = Inr HeapResourceManager" by (simp add: GetManager_def RMgr_Heap_def MaxResourceManagers_def)
  ultimately show ?thesis using d4(2-6) g ws(1) setupDatabase_eq by auto
qed

text \<open>
  C17. The start of the cluster: in a directory that has the file of the table, the table and both logs are
  emptied, and the server starts with the fixed database, no transaction, an empty buffer pool with all its
  entries and buffers free, and one resource manager. In a directory without the file the server ends:
  the file is only created when \<open>stat\<close> says \<open>EEXIST\<close>, which it never does.
\<close>

theorem cluster_start:
  assumes "datadir \<noteq> []" "os_script d = []"
  shows "case os_files d ''data/1'' of
     None \<Rightarrow> \<exists>d'. setupCluster held hash True datadir d = (Inl (AssertFail ''exit(1)''), d') \<and> os_files d' = os_files d
   | Some content \<Rightarrow> \<exists>ws db d'. setupCluster held hash True datadir d = (Inr (ws, db), d') \<and>
       setupDatabase = Inr db \<and> new_WorkerManager held MaxWorkers = Inr ws \<and>
       os_files d' = (os_files d)(''data/1'' \<mapsto> [], ''undo'' \<mapsto> [], ''wal'' \<mapsto> []) \<and> ts_tm d' = new_TransactionManager MaxWorkers \<and>
       clist d' FreeList (rev [0..<2048]) \<and> (\<forall>l. l \<noteq> FreeList \<longrightarrow> clist d' l []) \<and> bm_freeBuffers d' = rev [0..<1024] \<and>
       (\<forall>t. ht_Get (bm_map d') t = None) \<and> ul_size (us_undo d') = 0 \<and> wal_end (ws_wal d') = 0 \<and> wal_flushed (ws_wal d') = 0 \<and>
       GetManager (us_registry d') RMgr_Heap = Inr HeapResourceManager"
proof (cases "os_files d ''data/1''")
  case None
  then obtain d' where "setup_data (d\<lparr>us_registry := heap_registry\<rparr>) = (Inl (AssertFail ''exit(1)''), d')" "os_files d' = os_files d"
    using setup_data_missing [of "d\<lparr>us_registry := heap_registry\<rparr>"] by auto
  then show ?thesis using None by (simp add: setupCluster_managers [OF assms(1)] setupStorage_def thenM_err)
next
  case (Some content)
  then show ?thesis using cluster_started [OF assms Some, of held hash] by simp
qed

theorem worker_pool_witness:
  "\<exists>ws. pool_reachable (\<lambda>i. i = 1) 3 ws \<and> map wk_thread ws = [NoThread, NoThread, Serving 7] \<and> StartNewSession 8 ws = Inr (False, ws)"
proof -
  let ?ws = "\<lambda>t b. [\<lparr>wk_id = 0, wk_thread = NoThread, wk_busy = True\<rparr>, \<lparr>wk_id = 1, wk_thread = NoThread, wk_busy = True\<rparr>, \<lparr>wk_id = 2, wk_thread = t, wk_busy = b\<rparr>]"
  have n: "[0..<3] = [0, 1, 2::nat]" by (simp add: upt_rec)
  have "new_WorkerManager (\<lambda>i. i = 1) 3 = Inr (?ws NoThread False)" using new_WorkerManager_eq [of 3 "\<lambda>i. i = 1"] by (simp add: n)
  then have "pool_reachable (\<lambda>i. i = 1) 3 (?ws NoThread False)" by (rule pool_reachable.start)
  moreover have "StartNewSession 7 (?ws NoThread False) = Inr (True, ?ws (Serving 7) True)"
    by (simp add: StartNewSession_def find_free_def IsBusy_def Submit_def joinable_def upt_rec)
  ultimately have r: "pool_reachable (\<lambda>i. i = 1) 3 (?ws (Serving 7) True)" using pool_reachable.step pool_step.accept by blast
  have "find_free (?ws (Serving 7) True) = None" by (simp add: find_free_def IsBusy_def upt_rec)
  then show ?thesis using worker_pool [OF r, of 8] r by (intro exI [of _ "?ws (Serving 7) True"]) simp
qed

theorem cluster_start_witness:
  "\<exists>ws db d'. setupCluster (\<lambda>_. False) (\<lambda>t. unat (PageNo t)) True ''mi'' example_trans = (Inr (ws, db), d') \<and> os_files d' ''data/1'' = Some []"
  using cluster_start [of "''mi''" example_trans "\<lambda>_. False" "\<lambda>t. unat (PageNo t)"] by (auto simp: example_trans_def)

end
