(* ===== verification/Mimi_Logger.thy ===== *)
theory Mimi_Logger
  imports Mimi_Storage
begin

text \<open>
  The logger (\<open>logger/\<close>): the formatter with its buffer of 1024 characters, the handlers that write to the
  console or to a file, and the logger that formats outside and writes inside its latch. The text that
  the format and its arguments give is an argument, \<open>None\<close> when the formatting fails.
\<close>

section \<open>DefaultLogFormatter\<close>

datatype LogLevel = OFF | DEBUG | INFO | WARNING | ERROR

definition level_msg :: "LogLevel \<Rightarrow> string" where
  "level_msg level = (case level of
     DEBUG \<Rightarrow> ''[DEBUG] ''
   | INFO \<Rightarrow> ''[INFO] ''
   | WARNING \<Rightarrow> ''[WARN] ''
   | ERROR \<Rightarrow> ''[ERROR] ''
   | _ \<Rightarrow> ''[???] '')"

text \<open>
  \<open>vsnprintf\<close> stores at most \<open>n - 1\<close> characters and a terminating zero and returns the length of the whole
  text, as an \<open>int\<close>; a text that is too long for one is an error like a failed conversion, and the memory
  is then left alone.
\<close>

definition vsnprintf :: "string option \<Rightarrow> nat \<Rightarrow> nat \<Rightarrow> byte list \<Rightarrow> int \<times> byte list" where
  "vsnprintf text off n mem = (case text of
     None \<Rightarrow> (- 1, mem)
   | Some t \<Rightarrow> if 2 ^ 31 \<le> length t then (- 1, mem)
       else (int (length t), if n = 0 then mem else poke mem off (take (n - 1) (bytes_of_string t) @ [0])))"

definition format_msg :: "LogLevel \<Rightarrow> string option \<Rightarrow> byte list \<Rightarrow> nat \<Rightarrow> u64 \<times> byte list" where
  "format_msg level text output bufferSize =
     (let levelMsg = level_msg level; levelMsgLen = length levelMsg in
      case vsnprintf text levelMsgLen (bufferSize - levelMsgLen) (poke output 0 (bytes_of_string levelMsg)) of
        (count, output) \<Rightarrow> (word_of_nat levelMsgLen + word_of_int count, output))"

definition MaxLogMessageSize :: nat where "MaxLogMessageSize = 1024"

text \<open>The string is built from as many characters as were reported, in the buffer or behind it.\<close>

definition FormatLogMessage :: "LogLevel \<Rightarrow> string option \<Rightarrow> byte list res" where
  "FormatLogMessage level text = (case format_msg level text (replicate MaxLogMessageSize 0) MaxLogMessageSize of
     (count, buffer) \<Rightarrow> if unat count \<le> length buffer then Inr (take (unat count) buffer) else Inl (Undefined ''read past the buffer''))"

section \<open>Handlers\<close>

text \<open>A file handler has a file, or the invalid descriptor of a failed \<open>open\<close>.\<close>

datatype ILogHandler = ConsoleLogHandler | FileLogHandler "File option"

record log_state = os_state +
  log_console :: "byte list"
  log_latch :: bool

definition log_append :: "File option \<Rightarrow> byte list \<Rightarrow> (log_state, unit) cm" where
  "log_append file message = (case file of None \<Rightarrow> throw_error ''write'' | Some f \<Rightarrow> File_Append f message)"

definition handler_Write :: "ILogHandler \<Rightarrow> byte list \<Rightarrow> (log_state, unit) cm" where
  "handler_Write h message = (case h of
     ConsoleLogHandler \<Rightarrow> updM (\<lambda>s. s\<lparr>log_console := log_console s @ message @ [10]\<rparr>)
   | FileLogHandler file \<Rightarrow> thenM (log_append file message) (log_append file [10]))"

text \<open>An exception that leaves a destructor ends the process.\<close>

definition handler_destroy :: "ILogHandler \<Rightarrow> (log_state, unit) cm" where
  "handler_destroy h = (case h of
     ConsoleLogHandler \<Rightarrow> retM ()
   | FileLogHandler file \<Rightarrow> (\<lambda>s. case (case file of None \<Rightarrow> throw_error ''fsync'' | Some f \<Rightarrow> File_Fsync f) s of
       (Inl e, s') \<Rightarrow> (Inl (AssertFail ''std::terminate''), s')
     | (Inr _, s') \<Rightarrow> (Inr (), s')))"

section \<open>Logger\<close>

text \<open>A latch that another thread holds makes the caller wait; the guard releases it also after an exception.\<close>

definition with_log_latch :: "(log_state, 'a) cm \<Rightarrow> (log_state, 'a) cm" where
  "with_log_latch m s = (if log_latch s then (Inl (Blocked ''logger latch''), s)
     else case m (s\<lparr>log_latch := True\<rparr>) of (r, s') \<Rightarrow> (r, s'\<lparr>log_latch := False\<rparr>))"

definition Logger_log :: "ILogHandler \<Rightarrow> LogLevel \<Rightarrow> string option \<Rightarrow> (log_state, unit) cm" where
  "Logger_log h level text = bindM (liftR (FormatLogMessage level text)) (\<lambda>msg. with_log_latch (handler_Write h msg))"

definition Logger_Debug :: "ILogHandler \<Rightarrow> string option \<Rightarrow> (log_state, unit) cm" where "Logger_Debug h = Logger_log h DEBUG"
definition Logger_Info :: "ILogHandler \<Rightarrow> string option \<Rightarrow> (log_state, unit) cm" where "Logger_Info h = Logger_log h INFO"
definition Logger_Warning :: "ILogHandler \<Rightarrow> string option \<Rightarrow> (log_state, unit) cm" where "Logger_Warning h = Logger_log h WARNING"
definition Logger_Error :: "ILogHandler \<Rightarrow> string option \<Rightarrow> (log_state, unit) cm" where "Logger_Error h = Logger_log h ERROR"

text \<open>The result of \<open>open\<close> is not tested.\<close>

definition setupLogger :: "bool \<Rightarrow> string \<Rightarrow> (log_state, ILogHandler) cm" where
  "setupLogger open_ok LogFile =
     (if LogFile \<noteq> [] then
        if open_ok then thenM (updM (\<lambda>s. put_file LogFile (file_of LogFile s) s)) (retM (FileLogHandler (Some LogFile)))
        else retM (FileLogHandler None)
      else retM ConsoleLogHandler)"

section \<open>Formatting\<close>

lemma level_msg_length: "6 \<le> length (level_msg level) \<and> length (level_msg level) \<le> 8"
  by (cases level) (simp_all add: level_msg_def)

lemma bytes_of_string_append: "bytes_of_string (s @ t) = bytes_of_string s @ bytes_of_string t"
  by (simp add: bytes_of_string_def)

lemma bytes_of_string_take: "take n (bytes_of_string t) = bytes_of_string (take n t)"
  by (simp add: bytes_of_string_def take_map)

lemma poke_text:
  assumes "length ps + length xs < n"
  shows "poke (poke (replicate n 0) 0 ps) (length ps) (xs @ [0]) = ps @ xs @ replicate (n - (length ps + length xs)) (0::byte)"
proof -
  obtain k where "n - (length ps + length xs) = Suc k" using assms by (cases "n - (length ps + length xs)") auto
  moreover then have "n - Suc (length ps + length xs) = k" by simp
  ultimately show ?thesis using assms by (simp add: poke_def)
qed

text \<open>The line: prefix, text as far as it fits before the last character of the buffer, then zeros; all of it is read.\<close>

lemma Format_text:
  assumes "length t < 2 ^ 31"
  shows "FormatLogMessage level (Some t) = (let n = length (level_msg level) + length t; shown = bytes_of_string (level_msg level @ take (1023 - length (level_msg level)) t) in
    if n \<le> 1024 then Inr (take n (shown @ replicate (1024 - length shown) 0)) else Inl (Undefined ''read past the buffer''))"
proof -
  let ?p = "level_msg level" let ?xs = "bytes_of_string (take (1023 - length ?p) t)"
  have p: "length ?p \<le> 8" using level_msg_length by simp
  have "format_msg level (Some t) (replicate 1024 0) 1024 =
    (word_of_nat (length ?p + length t), poke (poke (replicate 1024 0) 0 (bytes_of_string ?p)) (length (bytes_of_string ?p)) (?xs @ [0]))"
    using assms p by (simp add: format_msg_def vsnprintf_def Let_def bytes_of_string_take)
  also have "\<dots> = (word_of_nat (length ?p + length t), bytes_of_string ?p @ ?xs @ replicate (1024 - (length (bytes_of_string ?p) + length ?xs)) 0)"
    using p by (subst poke_text) auto
  finally have f: "format_msg level (Some t) (replicate 1024 0) 1024 = (word_of_nat (length ?p + length t), bytes_of_string ?p @ ?xs @ replicate (1024 - (length ?p + length ?xs)) 0)"
    by simp
  have u: "unat (word_of_nat n :: u64) = n" if "n < 2 ^ 64" for n using that by (simp add: unat_of_nat)
  have "unat (word_of_nat (length ?p + length t) :: u64) = length ?p + length t" by (rule u) (use assms p in simp)
  then show ?thesis using p unfolding FormatLogMessage_def MaxLogMessageSize_def f by (simp add: Let_def bytes_of_string_append)
qed

lemma Format_failed: "FormatLogMessage level None = Inr (bytes_of_string (butlast (level_msg level)))"
  by (cases level) (simp_all add: FormatLogMessage_def format_msg_def vsnprintf_def MaxLogMessageSize_def level_msg_def bytes_of_string_def poke_def)

lemma Format_too_long: "2 ^ 31 \<le> length t \<Longrightarrow> FormatLogMessage level (Some t) = FormatLogMessage level None"
  by (simp add: FormatLogMessage_def format_msg_def vsnprintf_def)

text \<open>A line of at most 1024 characters: a text that takes the whole buffer loses its last character to the zero.\<close>

lemma Format_short:
  assumes "length (level_msg level) + length t \<le> 1024"
  shows "FormatLogMessage level (Some t) = Inr (if length (level_msg level) + length t \<le> 1023 then bytes_of_string (level_msg level @ t)
    else bytes_of_string (level_msg level @ butlast t) @ [0])"
proof -
  have "length t < 2 ^ 31" using assms by simp
  note f = Format_text [OF this, of level]
  show ?thesis
  proof (cases "length (level_msg level) + length t \<le> 1023")
    case True
    then show ?thesis unfolding f by (simp add: Let_def)
  next
    case False
    then have "1023 - length (level_msg level) = length t - 1" "length t - (length t - 1) = 1" using assms False level_msg_length [of level] by auto
    then show ?thesis unfolding f using assms False by (simp add: Let_def butlast_conv_take)
  qed
qed

section \<open>Lines\<close>

lemma log_write: "\<not> log_latch s \<Longrightarrow> FormatLogMessage level text = Inr msg \<Longrightarrow> Logger_log h level text s =
    (case handler_Write h msg (s\<lparr>log_latch := True\<rparr>) of (r, s') \<Rightarrow> (r, s'\<lparr>log_latch := False\<rparr>))"
  by (simp add: Logger_log_def with_log_latch_def bindM_def liftR_def)

text \<open>Appending a line to the console or to the file of a handler.\<close>

definition line_added :: "ILogHandler \<Rightarrow> byte list \<Rightarrow> log_state \<Rightarrow> log_state" where
  "line_added h msg s = (case h of
     ConsoleLogHandler \<Rightarrow> s\<lparr>log_console := log_console s @ msg @ [10]\<rparr>
   | FileLogHandler (Some f) \<Rightarrow> put_file f (file_of f s @ msg @ [10]) s
   | FileLogHandler None \<Rightarrow> s)"

lemma log_line:
  assumes "\<not> log_latch s" "os_script s = []" "h \<noteq> FileLogHandler None" "FormatLogMessage level text = Inr msg"
  shows "Logger_log h level text s = (Inr (), line_added h msg s)"
  using assms(1-3) unfolding log_write [OF assms(1,4)]
  by (cases h) (auto simp: handler_Write_def line_added_def updM_def log_append_def File_Append_def next_outcome_def thenM_def bindM_def put_file_def file_of_def
    split: option.splits)

text \<open>
  C40. Log lines: a message that fits the buffer of the formatter with its prefix and a terminating zero
  is written as one line, whatever its level, to the console or to the end of the log file, and nothing else
  changes; a message one character longer loses its last character to the zero; the text of
  a longer one is read from behind the buffer before anything is written.
  The query a session logs before it runs it gets there with more than 1005 characters.
\<close>

theorem log_lines:
  assumes "\<not> log_latch s" "os_script s = []" "h \<noteq> FileLogHandler None" "length t < 2 ^ 31"
  shows "Logger_log h level (Some t) s =
      (if length (level_msg level) + length t \<le> 1023 then (Inr (), line_added h (bytes_of_string (level_msg level @ t)) s)
       else if length (level_msg level) + length t = 1024 then (Inr (), line_added h (bytes_of_string (level_msg level @ butlast t) @ [0]) s)
       else (Inl (Undefined ''read past the buffer''), s)) \<and>
    Logger_log h level None s = (Inr (), line_added h (bytes_of_string (butlast (level_msg level))) s) \<and>
    (fst (Logger_Debug h (Some (''got query: '' @ q)) s) = Inr () \<longleftrightarrow> length q \<le> 1005 \<or> 2 ^ 31 \<le> 11 + length q)"
proof -
  have line: "Logger_log h level (Some t) s =
      (if length (level_msg level) + length t \<le> 1023 then (Inr (), line_added h (bytes_of_string (level_msg level @ t)) s)
       else if length (level_msg level) + length t = 1024 then (Inr (), line_added h (bytes_of_string (level_msg level @ butlast t) @ [0]) s)
       else (Inl (Undefined ''read past the buffer''), s))" if "length t < 2 ^ 31" for level t
  proof (cases "length (level_msg level) + length t \<le> 1024")
    case True
    then show ?thesis using log_line [OF assms(1-3) Format_short] by (cases t rule: rev_cases) auto
  next
    case False
    then show ?thesis using Format_text [OF that, of level] by (simp add: Logger_log_def liftR_def bindM_def)
  qed
  have none: "Logger_log h level None s = (Inr (), line_added h (bytes_of_string (butlast (level_msg level))) s)" for level
    by (rule log_line [OF assms(1-3) Format_failed])
  let ?t = "''got query: '' @ q"
  have "fst (Logger_Debug h (Some ?t) s) = Inr () \<longleftrightarrow> length q \<le> 1005 \<or> 2 ^ 31 \<le> 11 + length q"
  proof (cases "2 ^ 31 \<le> length ?t")
    case True
    then have "Logger_log h DEBUG (Some ?t) s = Logger_log h DEBUG None s" by (simp only: Logger_log_def Format_too_long)
    then show ?thesis using True none by (simp add: Logger_Debug_def)
  next
    case False
    then show ?thesis using line [of ?t DEBUG] by (simp add: Logger_Debug_def level_msg_def)
  qed
  then show ?thesis using line [OF assms(4)] none by blast
qed

theorem log_lines_witness:
  "Logger_log ConsoleLogHandler INFO (Some ''Ready'') \<lparr>os_files = Map.empty, os_synced = Map.empty, os_script = [], log_console = [], log_latch = False\<rparr> =
    (Inr (), \<lparr>os_files = Map.empty, os_synced = Map.empty, os_script = [], log_console = bytes_of_string ''[INFO] Ready'' @ [10], log_latch = False\<rparr>)"
  using log_lines [of "\<lparr>os_files = Map.empty, os_synced = Map.empty, os_script = [], log_console = [], log_latch = False\<rparr>" ConsoleLogHandler "''Ready''" INFO]
  by (simp add: level_msg_def line_added_def)

end
