(* ===== verification/Mimi_Server.thy ===== *)
theory Mimi_Server
  imports Mimi_Cluster Mimi_Logger
begin

text \<open>
  The server process (\<open>main.cpp\<close>, \<open>Settings.cpp\<close>): its options, the start, the listening socket, the loop
  that accepts connections and the signal handler. The main thread is a state machine beside
  the workers: it accepts, looks for a free worker, waits for the old thread of the worker it has found, which
  it then submits to whatever the others do, and returns after the first failed \<open>accept\<close>. What boost and the kernel answer before the loop is the environment.
\<close>

section \<open>Settings\<close>

record Settings =
  LogFile :: string
  DataDirectory :: string

record server_env =
  env_options :: "(string \<Rightarrow> string option) res"
  env_open_log :: bool
  env_chdir :: bool
  env_sigaction :: bool
  env_socket :: int
  env_setsockopt :: bool
  env_getaddrinfo :: "string \<Rightarrow> string option"
  env_bind :: bool
  env_listen :: bool
  env_held :: "nat \<Rightarrow> bool"
  env_hash :: "PageTag \<Rightarrow> nat"

text \<open>
  The stored options: \<open>notify\<close> is never called, which is what would refuse a missing \<open>datadir\<close>.
\<close>

definition parseCommandArgs :: "(string \<Rightarrow> string option) res \<Rightarrow> Settings res" where
  "parseCommandArgs parsed = bindR parsed (\<lambda>vm.
     let settings = \<lparr>LogFile = [], DataDirectory = []\<rparr>;
       settings = (case vm ''logfile'' of Some v \<Rightarrow> settings\<lparr>LogFile := v\<rparr> | None \<Rightarrow> settings);
       settings = (case vm ''datadir'' of Some v \<Rightarrow> settings\<lparr>DataDirectory := v\<rparr> | None \<Rightarrow> settings) in
     Inr settings)"

section \<open>The listening socket\<close>

definition Config_Port :: nat where "Config_Port = 6543"

definition open_server_socket :: "server_env \<Rightarrow> int res" where
  "open_server_socket env =
     (if env_socket env < 0 then Inl (RuntimeError ''could not initialize socket'')
      else if \<not> env_setsockopt env then Inl (RuntimeError ''could not setsockopt(SO_REUSEADDR)'')
      else case env_getaddrinfo env (nat_to_string Config_Port) of
        Some err \<Rightarrow> Inl (LogicError err)
      | None \<Rightarrow>
          if \<not> env_bind env then Inl (LogicError ''could not bind address'')
          else if \<not> env_listen env then Inl (LogicError ''could not listen'')
          else Inr (env_socket env))"

section \<open>The main thread\<close>

datatype main_pc = Accepting | Starting int | Joining int nat | Returned int | Terminated exn

record server =
  sv_main :: main_pc
  sv_pool :: "Worker list"
  sv_stop_requested :: bool
  sv_handler :: ILogHandler
  sv_log :: log_state

definition sigint_handler :: "server \<Rightarrow> server" where
  "sigint_handler s = s\<lparr>sv_stop_requested := True\<rparr>"

text \<open>From the options to the first \<open>accept\<close>: the code of an early return, or the server in its loop.\<close>

definition server_start :: "server_env \<Rightarrow> log_state \<Rightarrow> trans_state \<Rightarrow> (int + server \<times> Database \<times> trans_state) res" where
  "server_start env ls d =
     bindR (parseCommandArgs (env_options env)) (\<lambda>settings.
     case setupLogger (env_open_log env) (LogFile settings) ls of
       (Inl e, _) \<Rightarrow> Inl e
     | (Inr h, ls1) \<Rightarrow> (case setupCluster (env_held env) (env_hash env) (env_chdir env) (DataDirectory settings) d of
         (Inl e, _) \<Rightarrow> Inl e
       | (Inr (ws, db), d1) \<Rightarrow>
           if \<not> env_sigaction env then
             bindR (fst (Logger_Error h (Some ''could not setup SIGINT handler'') ls1)) (\<lambda>_. Inr (Inl 1))
           else bindR (open_server_socket env) (\<lambda>sock.
             case Logger_Info h (Some ''Ready to accept connections'') ls1 of
               (Inl e, _) \<Rightarrow> Inl e
             | (Inr _, ls2) \<Rightarrow> Inr (Inr (\<lparr>sv_main = Accepting, sv_pool = ws, sv_stop_requested = False, sv_handler = h, sv_log = ls2\<rparr>, db, d1)))))"

text \<open>A failed \<open>accept\<close>: the reason is logged and the loop ends.\<close>

definition accept_failed :: "bool \<Rightarrow> string \<Rightarrow> server \<Rightarrow> server" where
  "accept_failed eintr err s =
     (case (if eintr \<and> sv_stop_requested s then Logger_Info (sv_handler s) (Some ''got SIGINT, stop working'')
            else Logger_Error (sv_handler s) (Some (''error accepting client, stop working: '' @ err))) (sv_log s) of
        (Inl e, ls) \<Rightarrow> s\<lparr>sv_main := Terminated e, sv_log := ls\<rparr>
      | (Inr _, ls) \<Rightarrow> s\<lparr>sv_main := Returned 0, sv_log := ls\<rparr>)"

text \<open>
  \<open>started\<close> is a search with its result: no free worker, or one without a thread to wait for. When the worker found
  has an old thread that has not ended, the main thread waits for it (\<open>must_join\<close>), committed to this worker:
  the search is not repeated, \<open>joined\<close> submits to the same one. The constructor of \<open>std::thread\<close> can fail
  after either; nothing in \<open>main\<close> catches that, and the process ends.
\<close>

definition thread_error :: exn where "thread_error = RuntimeError ''Resource temporarily unavailable''"

inductive server_step :: "server \<Rightarrow> server \<Rightarrow> bool" where
  accepted: "sv_main s = Accepting \<Longrightarrow> 0 \<le> fd \<Longrightarrow> server_step s (s\<lparr>sv_main := Starting fd\<rparr>)"
| started: "sv_main s = Starting fd \<Longrightarrow> StartNewSession fd (sv_pool s) = Inr (ok, ws) \<Longrightarrow> server_step s (s\<lparr>sv_main := Accepting, sv_pool := ws\<rparr>)"
| must_join: "sv_main s = Starting fd \<Longrightarrow> find_free (sv_pool s) = Some i \<Longrightarrow> Submit fd (sv_pool s ! i) = Inl (Blocked what) \<Longrightarrow>
    server_step s (s\<lparr>sv_main := Joining fd i\<rparr>)"
| joined: "sv_main s = Joining fd i \<Longrightarrow> i < length (sv_pool s) \<Longrightarrow> Submit fd (sv_pool s ! i) = Inr wk \<Longrightarrow>
    server_step s (s\<lparr>sv_main := Accepting, sv_pool := (sv_pool s)[i := wk]\<rparr>)"
| start_throws: "sv_main s = Starting fd \<Longrightarrow> find_free (sv_pool s) = Some i \<Longrightarrow> Submit fd (sv_pool s ! i) = Inr wk \<Longrightarrow>
    server_step s (s\<lparr>sv_main := Terminated thread_error\<rparr>)"
| joined_throws: "sv_main s = Joining fd i \<Longrightarrow> i < length (sv_pool s) \<Longrightarrow> Submit fd (sv_pool s ! i) = Inr wk \<Longrightarrow>
    server_step s (s\<lparr>sv_main := Terminated thread_error\<rparr>)"
| failed: "sv_main s = Accepting \<Longrightarrow> server_step s (accept_failed eintr err s)"
| sigint: "server_step s (sigint_handler s)"
| session_end: "i < length (sv_pool s) \<Longrightarrow> wk_thread (sv_pool s ! i) = Serving fd \<Longrightarrow> mark_free (wk_id (sv_pool s ! i)) (sv_pool s) = Inr ws \<Longrightarrow>
    server_step s (s\<lparr>sv_pool := ws\<rparr>)"
| thread_ends: "i < length (sv_pool s) \<Longrightarrow> wk_thread (sv_pool s ! i) = Leaving \<Longrightarrow>
    server_step s (s\<lparr>sv_pool := (sv_pool s)[i := (sv_pool s ! i)\<lparr>wk_thread := Ended\<rparr>]\<rparr>)"
| worker_logs: "Logger_log (sv_handler s) level text (sv_log s) = (Inr (), ls) \<Longrightarrow> server_step s (s\<lparr>sv_log := ls\<rparr>)"

inductive server_reachable :: "server_env \<Rightarrow> log_state \<Rightarrow> trans_state \<Rightarrow> server \<Rightarrow> bool" for env ls d where
  server_begin: "server_start env ls d = Inr (Inr (s, db, d1)) \<Longrightarrow> server_reachable env ls d s"
| server_next: "server_reachable env ls d s \<Longrightarrow> server_step s s' \<Longrightarrow> server_reachable env ls d s'"

text \<open>The result of \<open>main\<close> once the loop has returned.\<close>

definition main_result :: "server \<Rightarrow> (int \<times> log_state) res option" where
  "main_result s = (case sv_main s of
     Returned ret \<Rightarrow> Some (if ret \<noteq> 0 then
         (case Logger_Error (sv_handler s) (Some (''invalid return code: '' @ int_to_string ret)) (sv_log s) of (Inl e, _) \<Rightarrow> Inl e | (Inr _, ls) \<Rightarrow> Inr (ret, ls))
       else Inr (ret, sv_log s))
   | Terminated e \<Rightarrow> Some (Inl e)
   | _ \<Rightarrow> None)"

section \<open>The start\<close>

lemma server_start_pool:
  assumes "server_start env ls d = Inr (Inr (s, db, d1))"
  shows "new_WorkerManager (env_held env) MaxWorkers = Inr (sv_pool s) \<and> sv_main s = Accepting"
proof -
  obtain st where st: "parseCommandArgs (env_options env) = Inr st" using assms by (cases "parseCommandArgs (env_options env)") (auto simp: server_start_def)
  obtain h ls1 where h: "setupLogger (env_open_log env) (LogFile st) ls = (Inr h, ls1)"
    using assms st by (auto simp: server_start_def split: prod.splits sum.splits)
  obtain ws db' d2 where c: "setupCluster (env_held env) (env_hash env) (env_chdir env) (DataDirectory st) d = (Inr (ws, db'), d2)"
    using assms st h by (auto simp: server_start_def split: prod.splits sum.splits)
  have "new_WorkerManager (env_held env) MaxWorkers = Inr ws"
    using c by (auto simp: setupCluster_def thenM_def bindM_def liftR_def retM_def split: prod.splits sum.splits)
  then show ?thesis using assms st h c by (auto simp: server_start_def bindR_eq_Inr_iff split: prod.splits sum.splits if_splits)
qed

text \<open>Without \<open>--datadir\<close> the options are accepted, and the start fails later.\<close>

lemma missing_datadir:
  assumes "env_options env = Inr vm" "vm ''datadir'' = None" "vm ''logfile'' = None"
  shows "server_start env ls d = Inl (LogicError ''Data directory is not specified'')"
  using assms by (simp add: server_start_def parseCommandArgs_def setupLogger_def setupCluster_def setupDirectory_def thenM_def bindM_def raiseM_def retM_def)

section \<open>The loop\<close>

lemma server_step_pool: "server_step s s' \<Longrightarrow> sv_pool s' = sv_pool s \<or> pool_step (sv_pool s) (sv_pool s')"
proof (induction rule: server_step.induct)
  case (failed s eintr err)
  then show ?case by (auto simp: accept_failed_def split: prod.splits sum.splits)
qed (auto intro: pool_step.intros simp: sigint_handler_def)

text \<open>A worker the main thread waits for is not busy, and its thread is past its last statement or has ended.\<close>

definition main_ok :: "server \<Rightarrow> bool" where
  "main_ok s \<longleftrightarrow> (case sv_main s of Returned r \<Rightarrow> r = 0 | Starting fd \<Rightarrow> 0 \<le> fd
     | Joining fd i \<Rightarrow> 0 \<le> fd \<and> i < length (sv_pool s) \<and> \<not> wk_busy (sv_pool s ! i) \<and> wk_thread (sv_pool s ! i) \<in> {Leaving, Ended} | _ \<Rightarrow> True)"

lemma must_join_leaving: "pool_ok held n ws \<Longrightarrow> find_free ws = Some i \<Longrightarrow> Submit fd (ws ! i) = Inl (Blocked what) \<Longrightarrow>
    i < length ws \<and> \<not> wk_busy (ws ! i) \<and> wk_thread (ws ! i) = Leaving"
  using find_free_Some [of ws i] by (cases "wk_thread (ws ! i)") (auto simp: pool_ok_def Submit_def joinable_def thread_join_def split: if_splits)

lemma mark_free_other:
  assumes "pool_ok held n ws" "j < length ws" "wk_thread (ws ! j) = Serving fd" "mark_free (wk_id (ws ! j)) ws = Inr ws'"
  shows "ws' = ws[j := (ws ! j)\<lparr>wk_busy := False, wk_thread := Leaving\<rparr>]"
proof -
  have "wk_id (ws ! j) = int j" using assms(1,2) by (simp add: pool_ok_def)
  then show ?thesis using assms(2,4) by (simp add: mark_free_def GetWorker_def WorkerId_IsValid_def WorkerId_Invalid_def)
qed

lemma server_step_main: "server_step s s' \<Longrightarrow> pool_ok held n (sv_pool s) \<Longrightarrow> main_ok s \<Longrightarrow> main_ok s'"
proof (induction rule: server_step.induct)
  case (must_join s fd i what)
  then show ?case using must_join_leaving [OF must_join.prems(1) must_join.hyps(2,3)] by (simp add: main_ok_def)
next
  case (session_end i s fd ws)
  have "ws = (sv_pool s)[i := (sv_pool s ! i)\<lparr>wk_busy := False, wk_thread := Leaving\<rparr>]" using mark_free_other [OF session_end.prems(1) session_end.hyps] .
  then show ?case using session_end.prems(2) session_end.hyps(1,2) by (cases "sv_main s") (auto simp: main_ok_def nth_list_update)
next
  case (thread_ends i s)
  then show ?case by (cases "sv_main s") (auto simp: main_ok_def nth_list_update)
next
  case (sigint s)
  then show ?case by (cases "sv_main s") (simp_all add: main_ok_def sigint_handler_def)
next
  case (worker_logs s level t ls)
  then show ?case by (cases "sv_main s") (simp_all add: main_ok_def)
qed (auto simp: main_ok_def accept_failed_def split: prod.splits sum.splits)

lemma server_reachable_ok:
  "server_reachable env ls d s \<Longrightarrow> pool_reachable (env_held env) MaxWorkers (sv_pool s) \<and> pool_ok (env_held env) MaxWorkers (sv_pool s) \<and> main_ok s"
proof (induction rule: server_reachable.induct)
  case (server_begin s db d1)
  then show ?case using server_start_pool [OF server_begin] pool_reachable.start pool_reachable_ok by (auto simp: main_ok_def MaxWorkers_def)
next
  case (server_next s s')
  then show ?case using server_step_pool [of s s'] server_step_main [of s s'] pool_reachable.step pool_ok_step by metis
qed

text \<open>The connection is in the hands of the worker after one step of the main thread.\<close>

definition served_next :: "int \<Rightarrow> nat \<Rightarrow> server \<Rightarrow> bool" where
  "served_next fd i s \<longleftrightarrow> (\<exists>s'. server_step s s' \<and> sv_main s' = Accepting \<and> wk_thread (sv_pool s' ! i) = Serving fd)"

lemma joined_serves:
  assumes "sv_main s = Joining fd i" "i < length (sv_pool s)" "\<not> wk_busy (sv_pool s ! i)" "wk_thread (sv_pool s ! i) = Ended"
  shows "served_next fd i s"
proof -
  let ?wk = "(sv_pool s ! i)\<lparr>wk_busy := True, wk_thread := Serving fd\<rparr>"
  have "server_step s (s\<lparr>sv_main := Accepting, sv_pool := (sv_pool s)[i := ?wk]\<rparr>)" using assms by (intro server_step.joined) (simp_all add: Submit_Inr)
  then show ?thesis unfolding served_next_def by (intro exI conjI) (assumption | use assms(2) in simp)+
qed

lemma joining_serves:
  assumes "sv_main s = Joining fd i" "i < length (sv_pool s)" "\<not> wk_busy (sv_pool s ! i)" "wk_thread (sv_pool s ! i) = Leaving"
  shows "\<exists>s1. server_step s s1 \<and> sv_main s1 = Joining fd i \<and> served_next fd i s1"
proof -
  let ?s1 = "s\<lparr>sv_pool := (sv_pool s)[i := (sv_pool s ! i)\<lparr>wk_thread := Ended\<rparr>]\<rparr>"
  have "served_next fd i ?s1" using assms by (intro joined_serves) simp_all
  then show ?thesis using server_step.thread_ends [OF assms(2,4)] assms(1) by (intro exI [of _ ?s1]) simp
qed

lemma starting_serves:
  assumes "sv_main s = Starting fd" "find_free (sv_pool s) = Some i" "pool_ok held n (sv_pool s)"
  shows "served_next fd i s \<or> wk_thread (sv_pool s ! i) = Leaving \<and>
    (\<exists>s1 s2. server_step s s1 \<and> sv_main s1 = Joining fd i \<and> server_step s1 s2 \<and> sv_main s2 = Joining fd i \<and> served_next fd i s2)"
proof -
  have i: "i < length (sv_pool s)" "\<not> wk_busy (sv_pool s ! i)" using find_free_Some [OF assms(2)] by blast+
  have t: "wk_thread (sv_pool s ! i) \<noteq> Serving m" for m using assms(3) i by (auto simp: pool_ok_def split: if_splits)
  show ?thesis
  proof (cases "wk_thread (sv_pool s ! i) = Leaving")
    case True
    let ?s1 = "s\<lparr>sv_main := Joining fd i\<rparr>"
    have "server_step s ?s1" by (rule server_step.must_join [OF assms(1,2), of "''join''"]) (use True i(2) in \<open>simp add: Submit_def joinable_def thread_join_def\<close>)
    moreover obtain s2 where "server_step ?s1 s2" "sv_main s2 = Joining fd i" "served_next fd i s2" using joining_serves [of ?s1 fd i] i True by auto
    ultimately show ?thesis using True by (intro disjI2 conjI exI [of _ ?s1] exI [of _ s2]) simp_all
  next
    case False
    let ?wk = "(sv_pool s ! i)\<lparr>wk_busy := True, wk_thread := Serving fd\<rparr>"
    have "wk_thread (sv_pool s ! i) \<in> {NoThread, Ended}" using False t by (cases "wk_thread (sv_pool s ! i)") auto
    then have "Submit fd (sv_pool s ! i) = Inr ?wk" using i(2) by (simp add: Submit_Inr)
    then have "StartNewSession fd (sv_pool s) = Inr (True, (sv_pool s)[i := ?wk])" using assms(2) by (simp add: StartNewSession_def)
    then have "server_step s (s\<lparr>sv_main := Accepting, sv_pool := (sv_pool s)[i := ?wk]\<rparr>)" by (rule server_step.started [OF assms(1)])
    then show ?thesis unfolding served_next_def by (intro disjI1 exI conjI) (assumption | use i(1) in simp)+
  qed
qed

lemma sigint_returns:
  assumes "sv_stop_requested s" "\<not> log_latch (sv_log s)" "os_script (sv_log s) = []" "sv_handler s \<noteq> FileLogHandler None"
  shows "main_result (accept_failed True err s) = Some (Inr (0, line_added (sv_handler s) (bytes_of_string ''[INFO] got SIGINT, stop working'') (sv_log s)))"
proof -
  have "FormatLogMessage INFO (Some ''got SIGINT, stop working'') = Inr (bytes_of_string ''[INFO] got SIGINT, stop working'')"
    using Format_short [of INFO "''got SIGINT, stop working''"] by (simp add: level_msg_def)
  from log_line [OF assms(2-4) this] show ?thesis using assms(1) by (simp add: accept_failed_def Logger_Info_def main_result_def)
qed

text \<open>
  C15. The main thread always gets on, in every reachable state of the server. A connection it has accepted is
  dropped at once when no worker is free, or given to the first free worker, at once or after the end of that
  worker's old thread, which has nothing left to do; while the main thread waits for it, the worker stays free
  for this connection whatever the other threads do, so that the submission is not refused. When the loop
  returns, \<open>main\<close> returns 0, so the branch for another code is dead; after a \<open>SIGINT\<close> that interrupts
  \<open>accept\<close> it returns with its last line in the log.
\<close>

theorem main_loop_progress:
  assumes "server_reachable env ls d s"
  shows "case sv_main s of
      Accepting \<Rightarrow> sv_stop_requested s \<and> \<not> log_latch (sv_log s) \<and> os_script (sv_log s) = [] \<and> sv_handler s \<noteq> FileLogHandler None \<longrightarrow>
        main_result (accept_failed True err s) = Some (Inr (0, line_added (sv_handler s) (bytes_of_string ''[INFO] got SIGINT, stop working'') (sv_log s)))
    | Starting fd \<Rightarrow> (case find_free (sv_pool s) of
        None \<Rightarrow> server_step s (s\<lparr>sv_main := Accepting\<rparr>)
      | Some i \<Rightarrow> served_next fd i s \<or> wk_thread (sv_pool s ! i) = Leaving \<and>
          (\<exists>s1 s2. server_step s s1 \<and> sv_main s1 = Joining fd i \<and> server_step s1 s2 \<and> sv_main s2 = Joining fd i \<and> served_next fd i s2))
    | Joining fd i \<Rightarrow> \<not> wk_busy (sv_pool s ! i) \<and>
        (wk_thread (sv_pool s ! i) = Ended \<and> served_next fd i s \<or>
         wk_thread (sv_pool s ! i) = Leaving \<and> (\<exists>s1. server_step s s1 \<and> sv_main s1 = Joining fd i \<and> served_next fd i s1))
    | Returned ret \<Rightarrow> main_result s = Some (Inr (0, sv_log s))
    | Terminated e \<Rightarrow> True"
proof (cases "sv_main s")
  case (Starting fd)
  have ok: "pool_ok (env_held env) MaxWorkers (sv_pool s)" using server_reachable_ok [OF assms] by blast
  show ?thesis
  proof (cases "find_free (sv_pool s)")
    case None
    then show ?thesis using Starting server_step.started [OF Starting, of False "sv_pool s"] by (simp add: StartNewSession_def)
  next
    case (Some i)
    then show ?thesis using starting_serves [OF Starting Some ok] Starting by simp
  qed
next
  case (Joining fd i)
  have "i < length (sv_pool s)" "\<not> wk_busy (sv_pool s ! i)" "wk_thread (sv_pool s ! i) \<in> {Leaving, Ended}"
    using server_reachable_ok [OF assms] Joining by (auto simp: main_ok_def)
  then show ?thesis using joining_serves [OF Joining] joined_serves [OF Joining] Joining by auto
next
  case Accepting
  then show ?thesis using sigint_returns by simp
next
  case (Returned ret)
  then show ?thesis using server_reachable_ok [OF assms] by (simp add: main_ok_def main_result_def)
qed simp

text \<open>A server on the console that has accepted a connection.\<close>

definition example_env :: server_env where
  "example_env = \<lparr>env_options = Inr [''datadir'' \<mapsto> ''mi''], env_open_log = True, env_chdir = True, env_sigaction = True, env_socket = 3, env_setsockopt = True,
     env_getaddrinfo = (\<lambda>_. None), env_bind = True, env_listen = True, env_held = (\<lambda>_. False), env_hash = (\<lambda>t. unat (PageNo t))\<rparr>"

definition example_log :: log_state where
  "example_log = \<lparr>os_files = Map.empty, os_synced = Map.empty, os_script = [], log_console = [], log_latch = False\<rparr>"

theorem main_loop_progress_witness:
  "\<exists>s s2. server_reachable example_env example_log example_trans s \<and> sv_main s = Starting 5 \<and>
    server_step s s2 \<and> sv_main s2 = Accepting \<and> wk_thread (sv_pool s2 ! 1) = Serving 5"
proof -
  have f: "os_script example_trans = []" "os_files example_trans ''data/1'' = Some (Init (replicate PageSize 0))" by (simp_all add: example_trans_def)
  obtain ws db d' where c: "setupCluster (\<lambda>_. False) (\<lambda>t. unat (PageNo t)) True ''mi'' example_trans = (Inr (ws, db), d')"
    "new_WorkerManager (\<lambda>_. False) MaxWorkers = Inr ws"
    using cluster_started [of "''mi''" example_trans _ "\<lambda>_. False" "\<lambda>t. unat (PageNo t)"] f by auto
  let ?ls = "line_added ConsoleLogHandler (bytes_of_string ''[INFO] Ready to accept connections'') example_log"
  let ?init = "\<lparr>sv_main = Accepting, sv_pool = ws, sv_stop_requested = False, sv_handler = ConsoleLogHandler, sv_log = ?ls\<rparr>" let ?s = "?init\<lparr>sv_main := Starting 5\<rparr>"
  have "FormatLogMessage INFO (Some ''Ready to accept connections'') = Inr (bytes_of_string ''[INFO] Ready to accept connections'')"
    using Format_short [of INFO "''Ready to accept connections''"] by (simp add: level_msg_def)
  then have "Logger_Info ConsoleLogHandler (Some ''Ready to accept connections'') example_log = (Inr (), ?ls)"
    unfolding Logger_Info_def by (intro log_line) (simp_all add: example_log_def)
  moreover have e: "parseCommandArgs (env_options example_env) = Inr \<lparr>LogFile = [], DataDirectory = ''mi''\<rparr>" "env_sigaction example_env" "open_server_socket example_env = Inr 3"
    "env_held example_env = (\<lambda>_. False)" "env_hash example_env = (\<lambda>t. unat (PageNo t))" "env_chdir example_env" "setupLogger (env_open_log example_env) [] example_log = (Inr ConsoleLogHandler, example_log)"
    by (simp_all add: example_env_def parseCommandArgs_def open_server_socket_def setupLogger_def retM_def)
  ultimately have "server_start example_env example_log example_trans = Inr (Inr (?init, db, d'))"
    using c(1) by (simp add: server_start_def e)
  then have "server_reachable example_env example_log example_trans ?init" by (rule server_begin)
  then have r: "server_reachable example_env example_log example_trans ?s" by (rule server_next) (rule server_step.accepted, simp_all)
  have ws: "ws = map (\<lambda>i. \<lparr>wk_id = int i, wk_thread = NoThread, wk_busy = i = 0\<rparr>) [0..<16]"
    using c(2) new_WorkerManager_eq [of MaxWorkers "\<lambda>_. False"] by (simp add: MaxWorkers_def)
  then have "find_free (sv_pool ?s) = Some 1" "wk_thread (sv_pool ?s ! 1) = NoThread" by (simp_all add: find_free_def IsBusy_def upt_rec)
  then show ?thesis using main_loop_progress [OF r] r by (auto simp: served_next_def)
qed

end
