(* ===== verification/Spec2Isabelle.thy ===== *)
theory Spec2Isabelle
  imports Mimi_Spin Mimi_Sessions Mimi_ClientServer Mimi_SQLParser Mimi_Server
begin

text \<open>
  A verification library for mimidb, a small relational database server in C++, with its wire protocol
  (libmimi) and its command-line client.

  \<^bold>\<open>The program.\<close> A client (\<open>src/client\<close>) sends one query packet per command over a socket (\<open>src/libmimi\<close>)
  and shows the reply. The server (\<open>src/server\<close>) gives each connection to a worker thread (\<open>worker\<close>); its
  session parses a statement, runs a transaction command or plans (\<open>planner\<close>) and executes (\<open>executor\<close>) a
  query over the one table of the fixed database (\<open>db\<close>, \<open>cluster_state.cpp\<close>). Rows are heap tuples
  (\<open>access\<close>) on 8 KB pages that the buffer manager (\<open>storage/buffer\<close>) caches; changes are recorded in an
  undo log and a write-ahead log (\<open>storage/undo\<close>, \<open>storage/wal\<close>) and belong to transactions with snapshots
  (\<open>trans\<close>). Latches and lists of waiting workers (\<open>lock\<close>) protect the shared structures.

  \<^bold>\<open>Conventions.\<close> \<open>Mimi_Prelude\<close>: a call is a value of \<open>exn + 'a\<close> (\<open>res\<close>) or a function from a state to such a
  value and the state reached (\<open>cm\<close>), so that effects before a \<open>throw\<close> stay. Asserts are compiled in and
  fail with \<open>AssertFail\<close>, which also stands for \<open>exit\<close> and \<open>std::terminate\<close>; undefined behaviour is
  \<open>Undefined\<close>; a call that cannot go on before another worker acts is \<open>Blocked\<close>; none of the three unwinds.
  Machine integers are words, \<open>size_t\<close> counts that cannot wrap are \<open>nat\<close>, memory is a list of bytes.
  The records of the server's state extend each other from the files up: \<open>os_state\<close>, \<open>wal_state\<close>, \<open>undo_state\<close>,
  \<open>buffer_state\<close>, \<open>trans_state\<close>; an operation of a lower layer is polymorphic in what lies above it.

  \<^bold>\<open>Theories.\<close>
  \<^item> \<open>Mimi_Types\<close>: strong integer types and sentinels, alignment (\<open>utils/BitUtils.hpp\<close>, \<open>mi_config.hpp\<close>).
  \<^item> \<open>Mimi_Network\<close>: \<open>NetworkWriter\<close>, \<open>NetworkReader\<close>, packets, \<open>serialization.cpp\<close>, \<open>MimiClient\<close>; the image
    of a packet, its round trip over any segmentation of the stream, truncated packets.
  \<^item> \<open>Mimi_Tuple\<close>, \<open>Mimi_HeapPage\<close>: \<open>TupleSerializer.cpp\<close>, \<open>HeapPageTuple\<close>, \<open>HeapPage.cpp\<close>; a page refines a list
    of slots, tuples are read back.
  \<^item> \<open>Mimi_Storage\<close>, \<open>Mimi_Wal\<close>, \<open>Mimi_Undo\<close>: \<open>File.cpp\<close>, \<open>RelFile.cpp\<close>, \<open>WriteAheadLog.cpp\<close>, \<open>UndoLog.cpp\<close>, the heap
    records and the registry of resource managers; what is written is read back, and where it is not.
  \<^item> \<open>Mimi_Dll\<close>, \<open>Mimi_Latch\<close>: \<open>LockList.hpp\<close> and \<open>LWLatch.cpp\<close> as the atomic steps of up to 16 workers: each
    access to the state word, the semaphore or a lock state outside the list lock, and each section under it.
    Mutual exclusion and the shape of the list of waiters in every reachable state, and the one assertion that an
    interleaving makes fail, which loads the state word a second time after the release.
  \<^item> \<open>Mimi_Spin\<close>: \<open>SpinLock.cpp\<close> as the atomic steps of any number of threads, with sleeping and spurious wake-ups;
    exclusion, and no sleeper is forgotten. \<open>Semaphore.cpp\<close>, \<open>Spin.cpp\<close>, \<open>Barrier.hpp\<close>, \<open>LockManager.cpp\<close>.
  \<^item> \<open>Mimi_Buffer\<close>, \<open>Mimi_BufferOps\<close>: \<open>BufferManager.cpp\<close>, \<open>CacheEntry.cpp\<close>, \<open>HashTable.hpp\<close> for one worker; the
    lists refine sequences, a miss and a hit, and why the cache cannot replace a page.
  \<^item> \<open>Mimi_Trans\<close>, \<open>Mimi_TransOps\<close>, \<open>Mimi_Visibility\<close>: \<open>Transaction.cpp\<close>, \<open>TransactionManager.cpp\<close>, the visibility
    test; runs of any interleaving of the workers, where a commit is four steps.
  \<^item> \<open>Mimi_HeapTable\<close>, \<open>Mimi_HeapOps\<close>, \<open>Mimi_Scan\<close>, \<open>Mimi_Tables\<close>: \<open>HeapTable.cpp\<close>, \<open>HeapTableScan.cpp\<close>, the undo
    visitors. \<open>Mimi_Scan\<close> follows the versions of a tuple in the undo log: the scan of a page is the list of what
    the snapshot sees in its slots, on the page or in an older version; an insertion is read back.
  \<^item> \<open>Mimi_Executor\<close>, \<open>Mimi_ExecTypes\<close>, \<open>Mimi_ScanLoops\<close>: datum arrays, builtin functions, expression and plan
    nodes; type soundness, the loops over a scan end.
  \<^item> \<open>Mimi_Planner\<close>, \<open>Mimi_Planning\<close>: the catalog, the fixed database, \<open>Planner.cpp\<close>; planned expressions are
    well typed.
  \<^item> \<open>Mimi_Session\<close>, \<open>Mimi_Answers\<close>, \<open>Mimi_SessionLoop\<close>, \<open>Mimi_SessionTrans\<close>, \<open>Mimi_InsertStatement\<close>,
    \<open>Mimi_SelectStatement\<close>: \<open>Handler.cpp\<close>; what is sent for a packet, the loop as a total function, transactions
    through a session, an INSERT and a SELECT from the packet to the page and back.
  \<^item> \<open>Mimi_TableFormat\<close>, \<open>Mimi_Client\<close>, \<open>Mimi_ClientScript\<close>, \<open>Mimi_ClientServer\<close>: the client, its printed table
    against a reference, a script against the replies, and the client on what a session sends.
  \<^item> \<open>Mimi_SQLParser\<close>: \<open>parser/SQLParser.cpp\<close> over the entry point of the vendored library; queries it refuses.
  \<^item> \<open>Mimi_Isolation\<close>, \<open>Mimi_Sessions\<close>: an abstract store with snapshots (rows with the state of the transaction that
    inserted them, a reading point per session) and the relation that says that pages, transaction
    table, history and logs implement it; sessions of all workers, whose packets are handled one after the
    other in any order, answer what the store prescribes.
  \<^item> \<open>Mimi_Cluster\<close>: the pool of workers as a state machine, and the start of the server.
  \<^item> \<open>Mimi_Logger\<close>: \<open>logger/\<close>; what a log call writes, and when it reads behind its buffer.
  \<^item> \<open>Mimi_Server\<close>: \<open>main.cpp\<close> and \<open>Settings.cpp\<close>; the main thread beside the workers always gets on, also while it
    waits for the old thread of the worker it has chosen.

  \<^bold>\<open>Interfaces.\<close> The locales are instantiated with the code's operations: a codec of images in memory
  (\<open>image_codec\<close>), of packet fields (in \<open>Mimi_Network\<close>), the intrusive list (\<open>intrusive_list\<close>), the keyed table
  (\<open>keyed_table\<close>), the builtin functions and the source of tuples of a plan loop; clients use the facts of the
  interpretations.

  \<^bold>\<open>Bounds and fuel.\<close> Walks over the lists of the cache take as many rounds as there are entries and walks over
  the waiters 16, so that running out means a cycle. \<open>InsertTuple\<close>, plan nodes and \<open>execute_rows\<close> take fuel; the
  statements that use it prove that the result is reached with the fuel they name, and
  \<open>scan_loops_end\<close> proves that the loops without fuel return. The loops of a session and of the client are
  total functions on the length of their input.

  \<^bold>\<open>Parameters.\<close> The generated automaton of the vendored SQL parser is an argument that leaves statements or an
  error message in a result; sessions take the parser as a function to a statement or an error, of which
  \<open>ParseStatement\<close> is the instance. The kernel is a state with scripts of outcomes for its calls; the hash function
  of the page table, the memory a worker is constructed in, the text of a formatted log message and the
  environments of the client and of the server (boost, resolver, sockets, signals) are arguments.

  \<^bold>\<open>Not modelled.\<close> The tables of the generated lexer and parser and the vendored syntax trees beyond the fields
  the planner reads. The sessions leave their log calls out (\<open>handle_loop\<close>: the text of a
  query, the message of an error). On a log that can be written, with messages that fit the buffer of the
  formatter, such a call only adds a line; with a log file that could not be opened or written it throws, which
  ends the statement or the session, and with a longer message it reads behind the buffer. \<open>Mimi_Logger\<close> shows
  where the limits are. The interleaving of workers inside the buffer manager and
  inside a table operation, where a latch is taken free; weak memory order, atomic operations being
  sequentially consistent steps; recovery, which the program does not have.
\<close>

end
